(* ===== verification/Prelude.thy ===== *)
theory Prelude
  imports Complex_Main "HOL-Library.Word" "HOL-Library.List_Lexorder" "HOL-Library.Product_Lexorder"
begin

text \<open>
  Shared vocabulary of the development: the machine types of the Rust code as words, byte
  strings as lists of 8-bit words, the error type of reticulum-core (\<open>CoreError\<close>, lib.rs), the
  result type of fallible functions as a sum with the error on the left, saturating arithmetic,
  slices, and the generic lemmas on lists and words that the component theories share.
\<close>

unbundle bit_operations_syntax

type_synonym u8 = "8 word"
type_synonym u16 = "16 word"
type_synonym u32 = "32 word"
type_synonym u64 = "64 word"
type_synonym bytes = "8 word list"

named_theorems wire \<open>layout equations of encoders and parsers\<close>
named_theorems frame \<open>which state components an operation leaves alone\<close>

section \<open>Results of fallible functions\<close>

datatype core_error = Truncated | BadSignature | DecryptFailed | InvalidField | Unsupported

text \<open>\<open>Result<T, E>\<close> is \<open>'e + 'a\<close>; \<open>rbind\<close> is the \<open>?\<close> operator.\<close>

fun rbind :: "'e + 'a \<Rightarrow> ('a \<Rightarrow> 'e + 'b) \<Rightarrow> 'e + 'b" where
  "rbind (Inl e) f = Inl e"
| "rbind (Inr x) f = f x"

fun ok_or :: "'e \<Rightarrow> 'a option \<Rightarrow> 'e + 'a" where
  "ok_or e None = Inl e"
| "ok_or e (Some x) = Inr x"

fun res_ok :: "'e + 'a \<Rightarrow> 'a option" where
  "res_ok (Inl e) = None"
| "res_ok (Inr x) = Some x"

lemma rbind_Inr_iff: "rbind m f = Inr y \<longleftrightarrow> (\<exists>x. m = Inr x \<and> f x = Inr y)"
  by (cases m) auto

lemma rbind_Inl_iff: "rbind m f = Inl e \<longleftrightarrow> m = Inl e \<or> (\<exists>x. m = Inr x \<and> f x = Inl e)"
  by (cases m) auto

lemma ok_or_Inr_iff [simp]: "ok_or e m = Inr x \<longleftrightarrow> m = Some x"
  by (cases m) auto

lemma ok_or_Inl_iff [simp]: "ok_or e m = Inl e' \<longleftrightarrow> m = None \<and> e' = e"
  by (cases m) auto

lemma res_ok_Some_iff [simp]: "res_ok r = Some x \<longleftrightarrow> r = Inr x"
  by (cases r) auto

lemma res_ok_None_iff: "res_ok r = None \<longleftrightarrow> (\<exists>e. r = Inl e)"
  by (cases r) auto

lemmas result_simps = rbind_Inr_iff rbind_Inl_iff

section \<open>Saturating arithmetic\<close>

text \<open>\<open>saturating_add\<close> and \<open>saturating_sub\<close> on unsigned words of any width.\<close>

definition sat_add :: "'a::len word \<Rightarrow> 'a word \<Rightarrow> 'a word" where
  "sat_add a b = (if a + b < a then - 1 else a + b)"

definition sat_sub :: "'a::len word \<Rightarrow> 'a word \<Rightarrow> 'a word" where
  "sat_sub a b = (if a \<le> b then 0 else a - b)"

lemma add_no_wrap_iff: "\<not> a + b < a \<longleftrightarrow> unat a + unat b < 2 ^ LENGTH('a)"
  for a b :: "'a::len word"
proof -
  have "a \<le> a + b \<longleftrightarrow> unat a + unat b < 2 ^ LENGTH('a)"
    by (simp add: no_olen_add_nat)
  then show ?thesis by (simp add: not_less)
qed

lemma unat_bound: "unat a < 2 ^ LENGTH('a)" for a :: "'a::len word"
  by (rule unsigned_less)

lemma unat_minus1: "unat (- 1 :: 'a::len word) = 2 ^ LENGTH('a) - 1"
  by (simp add: unsigned_minus_1_eq_mask mask_eq_exp_minus_1)

lemma unat_sat_add: "unat (sat_add a b) = min (unat a + unat b) (2 ^ LENGTH('a) - 1)"
  for a b :: "'a::len word"
proof (cases "a + b < a")
  case True
  then have "2 ^ LENGTH('a) \<le> unat a + unat b"
    using add_no_wrap_iff [of a b] by simp
  then show ?thesis using True by (simp add: sat_add_def unat_minus1)
next
  case False
  then have *: "unat a + unat b < 2 ^ LENGTH('a)"
    using add_no_wrap_iff [of a b] by simp
  then show ?thesis using False by (simp add: sat_add_def unat_word_ariths)
qed

lemma unat_sat_sub: "unat (sat_sub a b) = unat a - unat b"
  for a b :: "'a::len word"
proof (cases "a \<le> b")
  case True
  then show ?thesis by (simp add: sat_sub_def word_le_nat_alt)
next
  case False
  then have "b \<le> a" by simp
  then show ?thesis using False by (simp add: sat_sub_def unat_sub)
qed

lemma sat_add_ge [simp]: "a \<le> sat_add a b"
  for a b :: "'a::len word"
proof -
  have "unat a \<le> unat (sat_add a b)"
    unfolding unat_sat_add using unat_bound [of a] by (simp add: min_def; linarith)
  then show ?thesis by (simp add: word_le_nat_alt)
qed

lemma less_sat_add: "a < sat_add a b \<longleftrightarrow> b \<noteq> 0 \<and> a \<noteq> - 1"
  for a b :: "'a::len word"
proof -
  have 1: "unat a < 2 ^ LENGTH('a)" by (rule unat_bound)
  have 2: "a = - 1 \<longleftrightarrow> unat a = 2 ^ LENGTH('a) - 1"
    by (metis unat_minus1 word_unat_eq_iff)
  have 3: "b = 0 \<longleftrightarrow> unat b = 0" by (simp add: unat_eq_0)
  show ?thesis
    unfolding word_less_nat_alt unat_sat_add 2 3 by (simp add: min_def) (insert 1, linarith)
qed

section \<open>Slices\<close>

text \<open>\<open>xs[i..j]\<close> for ranges the code has checked; \<open>get_range\<close> is \<open>xs.get(i..j)\<close>.\<close>

definition sub :: "nat \<Rightarrow> nat \<Rightarrow> 'a list \<Rightarrow> 'a list" where
  "sub i j xs = take (j - i) (drop i xs)"

definition get_range :: "nat \<Rightarrow> nat \<Rightarrow> 'a list \<Rightarrow> 'a list option" where
  "get_range i j xs = (if i \<le> j \<and> j \<le> length xs then Some (sub i j xs) else None)"

text \<open>\<open>slice.try_into::<[u8; n]>()\<close>: the slice itself when it has the length of the array.\<close>

definition try_array :: "nat \<Rightarrow> bytes \<Rightarrow> bytes option" where
  "try_array n xs = (if length xs = n then Some xs else None)"

lemma length_sub [simp]: "length (sub i j xs) = min (j - i) (length xs - i)"
  by (simp add: sub_def)

lemma sub_0 [simp]: "sub 0 j xs = take j xs"
  by (simp add: sub_def)

lemma sub_append1: "length xs = i \<Longrightarrow> sub i j (xs @ ys) = take (j - i) ys"
  by (simp add: sub_def)

lemma sub_appendI: "length a = i \<Longrightarrow> length b = j - i \<Longrightarrow> sub i j (a @ b @ c) = b"
  by (simp add: sub_def)

lemma sub_append_end: "length a = i \<Longrightarrow> length b = j - i \<Longrightarrow> sub i j (a @ b) = b"
  by (simp add: sub_def)

lemma try_array_Some [simp]: "try_array n xs = Some ys \<longleftrightarrow> ys = xs \<and> length xs = n"
  by (auto simp: try_array_def)

lemma try_array_exact [simp]: "length xs = n \<Longrightarrow> try_array n xs = Some xs"
  by (simp add: try_array_def)

lemma try_array_None [simp]: "try_array n xs = None \<longleftrightarrow> length xs \<noteq> n"
  by (auto simp: try_array_def)

lemma get_range_Some [simp]:
  "get_range i j xs = Some ys \<longleftrightarrow> i \<le> j \<and> j \<le> length xs \<and> ys = sub i j xs"
  by (auto simp: get_range_def)

lemma get_range_None [simp]: "get_range i j xs = None \<longleftrightarrow> \<not> (i \<le> j \<and> j \<le> length xs)"
  by (auto simp: get_range_def)

lemma take_sub_append: "i \<le> j \<Longrightarrow> take i xs @ sub i j xs = take j xs"
  by (metis le_add_diff_inverse sub_def take_add)

lemma take_sub_drop: "i \<le> j \<Longrightarrow> take i xs @ sub i j xs @ drop j xs = xs"
  by (metis append_assoc append_take_drop_id take_sub_append)

lemma sub_sub_drop: "i \<le> j \<Longrightarrow> sub i j xs @ drop j xs = drop i xs"
  by (metis append_take_drop_id drop_drop le_add_diff_inverse2 sub_def)

text \<open>\<open>xs.chunks(n)\<close>: pieces of \<open>n\<close> elements, the last one possibly shorter.\<close>

function chunks :: "nat \<Rightarrow> 'a list \<Rightarrow> 'a list list" where
  "chunks n xs = (if n = 0 \<or> xs = [] then [] else take n xs # chunks n (drop n xs))"
  by pat_completeness auto
termination
  by (relation "measure (\<lambda>(n, xs). length xs)") (auto simp: neq_Nil_conv)

declare chunks.simps [simp del]

lemma chunks_Nil [simp]: "chunks n [] = []"
  by (simp add: chunks.simps)

lemma chunks_step: "0 < n \<Longrightarrow> xs \<noteq> [] \<Longrightarrow> chunks n xs = take n xs # chunks n (drop n xs)"
  by (simp add: chunks.simps [of n xs])

lemma concat_chunks: "0 < n \<Longrightarrow> concat (chunks n xs) = xs"
proof (induction n xs rule: chunks.induct)
  case (1 n xs)
  then show ?case by (cases "xs = []") (simp_all add: chunks_step)
qed

lemma chunks_bounds: "c \<in> set (chunks n xs) \<Longrightarrow> c \<noteq> [] \<and> length c \<le> n"
proof (induction n xs rule: chunks.induct)
  case (1 n xs)
  show ?case
  proof (cases "n = 0 \<or> xs = []")
    case True
    with "1.prems" show ?thesis by (simp add: chunks.simps [of n xs])
  next
    case False
    with "1.prems" have "c = take n xs \<or> c \<in> set (chunks n (drop n xs))"
      by (simp add: chunks.simps [of n xs])
    with False "1.IH" show ?thesis by auto
  qed
qed

lemma length_chunks: "0 < n \<Longrightarrow> length (chunks n xs) = (length xs + n - 1) div n"
proof (induction n xs rule: chunks.induct)
  case (1 n xs)
  show ?case
  proof (cases "xs = []")
    case True
    then show ?thesis using "1.prems" by simp
  next
    case False
    have IH: "length (chunks n (drop n xs)) = (length (drop n xs) + n - 1) div n"
      using "1.IH" "1.prems" False by simp
    have "Suc ((length xs - n + n - 1) div n) = (length xs + n - 1) div n"
    proof -
      have *: "length xs + n - 1 = (length xs - 1) + n"
        using False by (cases xs) auto
      have "(length xs + n - 1) div n = Suc ((length xs - 1) div n)"
        unfolding * using "1.prems" by (simp only: div_add_self2 neq0_conv)
      moreover have "(length xs - n + n - 1) div n = (length xs - 1) div n"
      proof (cases "n \<le> length xs")
        case True
        then show ?thesis by simp
      next
        case False
        then show ?thesis using "1.prems" by simp
      qed
      ultimately show ?thesis by simp
    qed
    then show ?thesis using False "1.prems" IH by (simp add: chunks_step)
  qed
qed

text \<open>\<open>xs.chunks_exact(n)\<close>: pieces of exactly \<open>n\<close> elements; a shorter rest is left out.\<close>

function chunks_exact :: "nat \<Rightarrow> 'a list \<Rightarrow> 'a list list" where
  "chunks_exact n xs =
     (if n = 0 \<or> length xs < n then [] else take n xs # chunks_exact n (drop n xs))"
  by pat_completeness auto
termination
  by (relation "measure (\<lambda>(n, xs). length xs)") auto

declare chunks_exact.simps [simp del]

lemma chunks_exact_Nil [simp]: "0 < n \<Longrightarrow> chunks_exact n [] = []"
  by (simp add: chunks_exact.simps)

lemma chunks_exact_append:
  "0 < n \<Longrightarrow> length x = n \<Longrightarrow> chunks_exact n (x @ xs) = x # chunks_exact n xs"
  by (simp add: chunks_exact.simps [of n "x @ xs"])

lemma chunks_exact_concat:
  "0 < n \<Longrightarrow> \<forall>x \<in> set xss. length x = n \<Longrightarrow> chunks_exact n (concat xss) = xss"
  by (induction xss) (auto simp: chunks_exact_append)

lemma length_chunks_exact_elem: "c \<in> set (chunks_exact n xs) \<Longrightarrow> length c = n"
proof (induction n xs rule: chunks_exact.induct)
  case (1 n xs)
  show ?case
  proof (cases "n = 0 \<or> length xs < n")
    case True
    with "1.prems" show ?thesis by (simp add: chunks_exact.simps [of n xs])
  next
    case False
    with "1.prems" have "c = take n xs \<or> c \<in> set (chunks_exact n (drop n xs))"
      by (simp add: chunks_exact.simps [of n xs])
    with False "1.IH" show ?thesis by auto
  qed
qed

lemma length_concat_const: "\<forall>x \<in> set xss. length x = n \<Longrightarrow> length (concat xss) = n * length xss"
  by (induction xss) auto

text \<open>\<open>iter().position(p)\<close>.\<close>

fun position :: "('a \<Rightarrow> bool) \<Rightarrow> 'a list \<Rightarrow> nat option" where
  "position p [] = None"
| "position p (x # xs) = (if p x then Some 0 else map_option Suc (position p xs))"

lemma position_Some:
  "position p xs = Some i \<longleftrightarrow> i < length xs \<and> p (xs ! i) \<and> (\<forall>j<i. \<not> p (xs ! j))"
proof (induction xs arbitrary: i)
  case Nil
  then show ?case by simp
next
  case (Cons x xs)
  show ?case
  proof (cases i)
    case 0
    then show ?thesis by (cases "p x") auto
  next
    case (Suc k)
    then show ?thesis using Cons.IH [of k] by (auto simp: less_Suc_eq_0_disj)
  qed
qed

lemma position_None: "position p xs = None \<longleftrightarrow> (\<forall>x \<in> set xs. \<not> p x)"
  by (induction xs) auto

lemma position_distinct:
  "distinct xs \<Longrightarrow> i < length xs \<Longrightarrow> position (\<lambda>x. x = xs ! i) xs = Some i"
  unfolding position_Some by (auto simp: nth_eq_iff_index_eq)

end
