(* ===== verification/Bytes.thy ===== *)
theory Bytes
  imports Prelude
begin

text \<open>
  Byte-level helpers of the Rust standard library the code uses: big-endian conversion of
  unsigned integers (\<open>to_be_bytes\<close>, \<open>from_be_bytes\<close>), the bytes of an ASCII string literal, and
  UTF-8 validity (\<open>core::str::from_utf8\<close>).
\<close>

section \<open>Big-endian integers\<close>

fun be_bytes :: "nat \<Rightarrow> 'a::len word \<Rightarrow> bytes" where
  "be_bytes 0 w = []"
| "be_bytes (Suc n) w = be_bytes n (drop_bit 8 w) @ [ucast w]"

definition be_word :: "bytes \<Rightarrow> 'a::len word" where
  "be_word bs = foldl (\<lambda>v b. push_bit 8 v OR ucast b) 0 bs"

lemma length_be_bytes [simp]: "length (be_bytes n w) = n"
  by (induction n arbitrary: w) auto

lemma be_word_Nil [simp]: "be_word [] = 0"
  by (simp add: be_word_def)

lemma be_word_snoc: "be_word (bs @ [b]) = push_bit 8 (be_word bs) OR ucast b"
  by (simp add: be_word_def)

lemma be_word_be_bytes_take: "be_word (be_bytes n w) = take_bit (8 * n) w"
proof (induction n arbitrary: w)
  case 0
  then show ?case by simp
next
  case (Suc n)
  have "be_word (be_bytes (Suc n) w) =
      push_bit 8 (take_bit (8 * n) (drop_bit 8 w)) OR ucast (ucast w :: 8 word)"
    by (simp add: be_word_snoc Suc.IH)
  also have "\<dots> = take_bit (8 * Suc n) w"
    by (rule bit_word_eqI) (auto simp: bit_simps)
  finally show ?case .
qed

lemma be_word_be_bytes [simp]:
  "LENGTH('a) \<le> 8 * n \<Longrightarrow> be_word (be_bytes n w) = (w :: 'a::len word)"
  by (simp add: be_word_be_bytes_take take_bit_word_eq_self)

lemma be_bytes_inj:
  "LENGTH('a) \<le> 8 * n \<Longrightarrow> be_bytes n v = be_bytes n w \<longleftrightarrow> v = (w :: 'a::len word)"
  by (metis be_word_be_bytes)

text \<open>A byte string read as a natural number, and the bound of a word read from it.\<close>

lemma be_word_single [simp]: "be_word [b] = ucast b"
  by (simp add: be_word_def)

section \<open>Strings\<close>

text \<open>The bytes of a string literal (all literals of the code are ASCII).\<close>

definition str :: "string \<Rightarrow> bytes" where
  "str s = map (\<lambda>c. word_of_nat (of_char c)) s"

lemma length_str [simp]: "length (str s) = length s"
  by (simp add: str_def)

text \<open>
  \<open>core::str::from_utf8\<close> accepts exactly the well-formed sequences of the Unicode standard
  (table 3-7): no overlong forms, no surrogates, nothing above U+10FFFF.
\<close>

definition cont_byte :: "u8 \<Rightarrow> bool" where
  "cont_byte b \<longleftrightarrow> 0x80 \<le> b \<and> b \<le> 0xBF"

fun utf8_valid :: "bytes \<Rightarrow> bool" where
  "utf8_valid [] = True"
| "utf8_valid (a # r) =
     (if a \<le> 0x7F then utf8_valid r
      else case r of
        [] \<Rightarrow> False
      | b # r2 \<Rightarrow>
          if 0xC2 \<le> a \<and> a \<le> 0xDF then cont_byte b \<and> utf8_valid r2
          else case r2 of
            [] \<Rightarrow> False
          | c # r3 \<Rightarrow>
              if a = 0xE0 then 0xA0 \<le> b \<and> b \<le> 0xBF \<and> cont_byte c \<and> utf8_valid r3
              else if a = 0xED then 0x80 \<le> b \<and> b \<le> 0x9F \<and> cont_byte c \<and> utf8_valid r3
              else if 0xE1 \<le> a \<and> a \<le> 0xEF then cont_byte b \<and> cont_byte c \<and> utf8_valid r3
              else case r3 of
                [] \<Rightarrow> False
              | d # r4 \<Rightarrow>
                  if a = 0xF0 then 0x90 \<le> b \<and> b \<le> 0xBF \<and> cont_byte c \<and> cont_byte d \<and> utf8_valid r4
                  else if a = 0xF4 then 0x80 \<le> b \<and> b \<le> 0x8F \<and> cont_byte c \<and> cont_byte d \<and> utf8_valid r4
                  else if 0xF1 \<le> a \<and> a \<le> 0xF3
                    then cont_byte b \<and> cont_byte c \<and> cont_byte d \<and> utf8_valid r4
                  else False)"

lemma utf8_valid_ascii: "\<forall>b \<in> set bs. b \<le> 0x7F \<Longrightarrow> utf8_valid bs"
  by (induction bs) auto

section \<open>MessagePack headers\<close>

text \<open>
  The compact headers of the MessagePack format, as the rmp crate documents its encoders to write
  them: the shortest form that holds the length or value.
\<close>

definition mp_array :: "nat \<Rightarrow> bytes" where
  "mp_array n = (if n < 16 then [0x90 + word_of_nat n]
     else if n < 65536 then 0xDC # be_bytes 2 (word_of_nat n :: u16)
     else 0xDD # be_bytes 4 (word_of_nat n :: u32))"

definition mp_map :: "nat \<Rightarrow> bytes" where
  "mp_map n = (if n < 16 then [0x80 + word_of_nat n]
     else if n < 65536 then 0xDE # be_bytes 2 (word_of_nat n :: u16)
     else 0xDF # be_bytes 4 (word_of_nat n :: u32))"

definition mp_str :: "nat \<Rightarrow> bytes" where
  "mp_str n = (if n < 32 then [0xA0 + word_of_nat n]
     else if n < 256 then [0xD9, word_of_nat n]
     else if n < 65536 then 0xDA # be_bytes 2 (word_of_nat n :: u16)
     else 0xDB # be_bytes 4 (word_of_nat n :: u32))"

definition mp_bin :: "nat \<Rightarrow> bytes" where
  "mp_bin n = (if n < 256 then [0xC4, word_of_nat n]
     else if n < 65536 then 0xC5 # be_bytes 2 (word_of_nat n :: u16)
     else 0xC6 # be_bytes 4 (word_of_nat n :: u32))"

definition mp_uint :: "u64 \<Rightarrow> bytes" where
  "mp_uint v = (if v < 0x80 then [ucast v]
     else if v < 0x100 then [0xCC, ucast v]
     else if v < 0x10000 then 0xCD # be_bytes 2 (ucast v :: u16)
     else if v < 0x100000000 then 0xCE # be_bytes 4 (ucast v :: u32)
     else 0xCF # be_bytes 8 v)"

definition mp_f64 :: "u64 \<Rightarrow> bytes" where
  "mp_f64 bits = 0xCB # be_bytes 8 bits"

end
