(* ===== verification/Framing.thy ===== *)
theory Framing
  imports Bytes
begin

text \<open>
  reticulum-interface: hdlc.rs and kiss.rs, the byte-stuffed framings of serial and TCP media.
  The locale \<open>framing\<close> is what a link adapter relies on; \<open>delimited_framing\<close> adds that a frame is a
  body between two delimiters that the body does not contain, on which the stream readers rest.
  Both framings interpret both.
\<close>

section \<open>HDLC\<close>

definition FLAG :: u8 where "FLAG = 0x7E"
definition ESC :: u8 where "ESC = 0x7D"
definition ESC_MASK :: u8 where "ESC_MASK = 0x20"

lemmas hdlc_consts = FLAG_def ESC_def ESC_MASK_def

fun hdlc_escape :: "bytes \<Rightarrow> bytes" where
  "hdlc_escape [] = []"
| "hdlc_escape (b # bs) =
     (if b = FLAG \<or> b = ESC then [ESC, b XOR ESC_MASK] else [b]) @ hdlc_escape bs"

definition hdlc_frame :: "bytes \<Rightarrow> bytes" where
  "hdlc_frame data = [FLAG] @ hdlc_escape data @ [FLAG]"

text \<open>The decoding loop: \<open>esc\<close> is the pending-escape flag, \<open>out\<close> the bytes decoded so far.\<close>

fun hdlc_unescape :: "bool \<Rightarrow> bytes \<Rightarrow> bytes \<Rightarrow> bytes option" where
  "hdlc_unescape esc out [] = (if esc then None else Some out)"
| "hdlc_unescape esc out (b # bs) =
     (if esc then hdlc_unescape False (out @ [b XOR ESC_MASK]) bs
      else if b = ESC then hdlc_unescape True out bs
      else if b = FLAG then None
      else hdlc_unescape False (out @ [b]) bs)"

definition hdlc_deframe :: "bytes \<Rightarrow> bytes option" where
  "hdlc_deframe framed =
     (if length framed < 2 \<or> framed ! 0 \<noteq> FLAG \<or> framed ! (length framed - 1) \<noteq> FLAG then None
      else hdlc_unescape False [] (sub 1 (length framed - 1) framed))"

section \<open>KISS\<close>

definition FEND :: u8 where "FEND = 0xC0"
definition FESC :: u8 where "FESC = 0xDB"
definition TFEND :: u8 where "TFEND = 0xDC"
definition TFESC :: u8 where "TFESC = 0xDD"
definition CMD_DATA :: u8 where "CMD_DATA = 0x00"

lemmas kiss_consts = FEND_def FESC_def TFEND_def TFESC_def CMD_DATA_def

fun kiss_escape :: "bytes \<Rightarrow> bytes" where
  "kiss_escape [] = []"
| "kiss_escape (b # bs) =
     (if b = FEND then [FESC, TFEND] else if b = FESC then [FESC, TFESC] else [b]) @ kiss_escape bs"

definition kiss_frame :: "bytes \<Rightarrow> bytes" where
  "kiss_frame data = [FEND, CMD_DATA] @ kiss_escape data @ [FEND]"

fun kiss_unescape :: "bool \<Rightarrow> bytes \<Rightarrow> bytes \<Rightarrow> bytes option" where
  "kiss_unescape escaped out [] = (if escaped then None else Some out)"
| "kiss_unescape escaped out (b # bs) =
     (if escaped then
        (if b = TFEND then kiss_unescape False (out @ [FEND]) bs
         else if b = TFESC then kiss_unescape False (out @ [FESC]) bs
         else None)
      else if b = FESC then kiss_unescape True out bs
      else if b = FEND then None
      else kiss_unescape False (out @ [b]) bs)"

definition kiss_deframe :: "bytes \<Rightarrow> bytes option" where
  "kiss_deframe framed =
     (if length framed < 3 \<or> framed ! 0 \<noteq> FEND \<or> last framed \<noteq> FEND then None
      else if framed ! 1 AND 0x0F \<noteq> CMD_DATA then None
      else kiss_unescape False [] (sub 2 (length framed - 1) framed))"

section \<open>The contracts\<close>

locale framing =
  fixes frame :: "bytes \<Rightarrow> bytes"
    and deframe :: "bytes \<Rightarrow> bytes option"
  assumes deframe_frame: "deframe (frame d) = Some d"
begin

lemma frame_inj: "frame d = frame d' \<Longrightarrow> d = d'"
  by (metis deframe_frame option.inject)

lemma deframe_all: "map deframe (map frame ds) = map Some ds"
  by (simp add: deframe_frame)

end

locale delimited_framing = framing +
  fixes delim :: u8
    and body :: "bytes \<Rightarrow> bytes"
  assumes frame_body: "frame d = delim # body d @ [delim]"
    and body_clean: "delim \<notin> set (body d)"
begin

lemma frame_bounds: "length (frame d) = length (body d) + 2"
  by (simp add: frame_body)

lemma frame_first: "frame d ! 0 = delim"
  by (simp add: frame_body)

lemma body_inj: "body d = body d' \<Longrightarrow> d = d'"
  using frame_inj by (simp add: frame_body)

lemma body_position: "position (\<lambda>b. b = delim) (body d @ delim # r) = Some (length (body d))"
proof -
  have "\<forall>j<length (body d). body d ! j \<noteq> delim"
    using body_clean [of d] by (metis nth_mem)
  then show ?thesis by (simp add: position_Some nth_append)
qed

end

section \<open>HDLC and KISS provide them\<close>

lemma hdlc_unescape_escape:
  "hdlc_unescape False out (hdlc_escape d @ r) = hdlc_unescape False (out @ d) r"
  by (induction d arbitrary: out) (auto simp: hdlc_consts xor.assoc)

lemma hdlc_escape_clean: "FLAG \<notin> set (hdlc_escape d)"
  by (induction d) (auto simp: hdlc_consts)

lemma sub_body: "sub 1 (Suc (length b)) (x # b @ [y]) = b"
  by (simp add: sub_def)

interpretation hdlc: delimited_framing hdlc_frame hdlc_deframe FLAG hdlc_escape
proof unfold_locales
  show "hdlc_deframe (hdlc_frame d) = Some d" for d
    using hdlc_unescape_escape [of "[]" d "[]"]
    by (simp add: hdlc_deframe_def hdlc_frame_def sub_def nth_append)
  show "hdlc_frame d = FLAG # hdlc_escape d @ [FLAG]" for d by (simp add: hdlc_frame_def)
  show "FLAG \<notin> set (hdlc_escape d)" for d by (rule hdlc_escape_clean)
qed

lemma kiss_unescape_escape:
  "kiss_unescape False out (kiss_escape d @ r) = kiss_unescape False (out @ d) r"
  by (induction d arbitrary: out) (auto simp: kiss_consts)

lemma kiss_escape_clean: "FEND \<notin> set (kiss_escape d)"
  by (induction d) (auto simp: kiss_consts)

interpretation kiss: delimited_framing kiss_frame kiss_deframe FEND "\<lambda>d. CMD_DATA # kiss_escape d"
proof unfold_locales
  show "kiss_deframe (kiss_frame d) = Some d" for d
    using kiss_unescape_escape [of "[]" d "[]"]
    by (simp add: kiss_deframe_def kiss_frame_def sub_def CMD_DATA_def)
  show "kiss_frame d = FEND # (CMD_DATA # kiss_escape d) @ [FEND]" for d by (simp add: kiss_frame_def)
  show "FEND \<notin> set (CMD_DATA # kiss_escape d)" for d
    using kiss_escape_clean [of d] by (auto simp: kiss_consts)
qed

section \<open>What deframing accepts\<close>

lemma hdlc_unescape_length: "hdlc_unescape esc out bs = Some d \<Longrightarrow> length d \<le> length out + length bs"
  by (induction esc out bs rule: hdlc_unescape.induct) (fastforce split: if_splits)+

lemma kiss_unescape_length: "kiss_unescape esc out bs = Some d \<Longrightarrow> length d \<le> length out + length bs"
  by (induction esc out bs rule: kiss_unescape.induct) (fastforce split: if_splits)+

text \<open>An unescaped delimiter inside the body is refused, whatever surrounds it.\<close>

lemma hdlc_unescape_flag: "hdlc_unescape False out (hdlc_escape d @ FLAG # r) = None"
  by (simp add: hdlc_unescape_escape) (simp add: hdlc_consts)

lemma kiss_unescape_fend: "kiss_unescape False out (kiss_escape d @ FEND # r) = None"
  by (simp add: kiss_unescape_escape) (simp add: kiss_consts)

text \<open>KISS accepts only canonical bodies: re-framing a decoded frame gives its body back.\<close>

lemma kiss_unescape_canonical:
  "kiss_unescape esc out bs = Some d \<Longrightarrow>
     \<exists>e. d = out @ e \<and> (if esc then FESC # bs else bs) = kiss_escape e"
proof (induction esc out bs arbitrary: d rule: kiss_unescape.induct)
  case (1 esc out)
  then show ?case by (auto split: if_splits)
next
  case (2 escaped out b bs)
  show ?case
  proof (cases escaped)
    case True
    consider "b = TFEND" | "b = TFESC" "b \<noteq> TFEND"
      using "2.prems" True by (auto split: if_splits)
    then show ?thesis
    proof cases
      case 1
      with "2.prems" True have "kiss_unescape False (out @ [FEND]) bs = Some d" by simp
      from "2.IH"(1) [OF True 1 this] obtain e where "d = out @ FEND # e" "bs = kiss_escape e"
        by auto
      then show ?thesis using True 1 by (intro exI [of _ "FEND # e"]) simp
    next
      case 2
      with "2.prems" True have "kiss_unescape False (out @ [FESC]) bs = Some d" by simp
      from "2.IH"(2) [OF True 2(2) 2(1) this] obtain e where "d = out @ FESC # e" "bs = kiss_escape e"
        by auto
      then show ?thesis using True 2 by (intro exI [of _ "FESC # e"]) (simp add: kiss_consts)
    qed
  next
    case False
    show ?thesis
    proof (cases "b = FESC")
      case True
      with "2.prems" False have "kiss_unescape True out bs = Some d" by simp
      from "2.IH"(3) [OF False True this] show ?thesis using True False by simp
    next
      case nf: False
      with "2.prems" False have b: "b \<noteq> FEND" and r: "kiss_unescape False (out @ [b]) bs = Some d"
        by (auto split: if_splits)
      from "2.IH"(4) [OF False nf b r] obtain e where "d = out @ b # e" "bs = kiss_escape e"
        by auto
      then show ?thesis using False nf b by (intro exI [of _ "b # e"]) simp
    qed
  qed
qed

end
