(* ===== verification/Ext.thy ===== *)
theory Ext
  imports Bytes
begin

text \<open>
  The third-party crates the program calls, as one record of functions that every definition using
  them takes as its first argument: sha2, x25519-dalek, ed25519-dalek, hkdf, hmac, aes/cbc with
  PKCS#7 padding, bzip2 (absent when the \<open>compression\<close> feature is off) and rmp (MessagePack).
  What the code relies on is stated as named predicates on such a record (\<open>sha_ok\<close>, \<open>x25519_ok\<close>,
  \<dots>): documented behaviour of the crates, used as hypotheses where a property needs it.
  Secrets are the byte strings they are built from.
\<close>

record bzip2 =
  bz_compress :: "bytes \<Rightarrow> bytes option" \<comment> \<open>\<open>BzEncoder\<close>, \<open>write_all\<close> and \<open>finish\<close>\<close>
  bz_decompress :: "bytes \<Rightarrow> nat \<Rightarrow> bytes option" \<comment> \<open>\<open>BzDecoder.take(limit).read_to_end\<close>\<close>

record ext =
  x_sha256 :: "bytes \<Rightarrow> bytes"
  x_x25519_public :: "bytes \<Rightarrow> bytes" \<comment> \<open>\<open>PublicKey::from(&StaticSecret)\<close>\<close>
  x_x25519_dh :: "bytes \<Rightarrow> bytes \<Rightarrow> bytes" \<comment> \<open>secret, peer public key\<close>
  x_ed25519_public :: "bytes \<Rightarrow> bytes" \<comment> \<open>\<open>SigningKey::verifying_key\<close>\<close>
  x_ed25519_key_ok :: "bytes \<Rightarrow> bool" \<comment> \<open>\<open>VerifyingKey::from_bytes\<close> succeeds\<close>
  x_ed25519_sign :: "bytes \<Rightarrow> bytes \<Rightarrow> bytes" \<comment> \<open>seed, message\<close>
  x_ed25519_verify :: "bytes \<Rightarrow> bytes \<Rightarrow> bytes \<Rightarrow> bool" \<comment> \<open>public key, message, signature\<close>
  x_hkdf :: "bytes \<Rightarrow> bytes \<Rightarrow> nat \<Rightarrow> bytes option" \<comment> \<open>salt, key material, output length; empty info\<close>
  x_hmac :: "bytes \<Rightarrow> (bytes \<Rightarrow> bytes) option" \<comment> \<open>\<open>Mac::new_from_slice\<close>, then the tag\<close>
  x_aes_encrypt :: "bytes \<Rightarrow> bytes \<Rightarrow> bytes \<Rightarrow> bytes" \<comment> \<open>key, iv, plaintext\<close>
  x_aes_decrypt :: "bytes \<Rightarrow> bytes \<Rightarrow> bytes \<Rightarrow> bytes option" \<comment> \<open>key, iv, ciphertext\<close>
  x_bzip2 :: "bzip2 option"
  x_rd_array_len :: "bytes \<Rightarrow> (u32 \<times> bytes) option" \<comment> \<open>value and remaining input\<close>
  x_rd_map_len :: "bytes \<Rightarrow> (u32 \<times> bytes) option"
  x_rd_str_len :: "bytes \<Rightarrow> (u32 \<times> bytes) option"
  x_rd_bin_len :: "bytes \<Rightarrow> (u32 \<times> bytes) option"
  x_rd_int :: "bytes \<Rightarrow> (u64 \<times> bytes) option"
  x_wr_array_len :: "u32 \<Rightarrow> bytes"
  x_wr_map_len :: "u32 \<Rightarrow> bytes"
  x_wr_str :: "bytes \<Rightarrow> bytes"
  x_wr_bin :: "bytes \<Rightarrow> bytes"
  x_wr_uint :: "u64 \<Rightarrow> bytes"
  x_wr_nil :: bytes
  x_wr_f64 :: "u64 \<Rightarrow> bytes" \<comment> \<open>an \<open>f64\<close> is its IEEE 754 bit pattern\<close>

section \<open>Documented behaviour\<close>

definition sha_ok :: "ext \<Rightarrow> bool" where
  "sha_ok X \<longleftrightarrow> (\<forall>d. length (x_sha256 X d) = 32)"

definition x25519_ok :: "ext \<Rightarrow> bool" where
  "x25519_ok X \<longleftrightarrow> (\<forall>a. length (x_x25519_public X a) = 32) \<and>
     (\<forall>a b. length (x_x25519_dh X a b) = 32) \<and>
     (\<forall>a b. x_x25519_dh X a (x_x25519_public X b) = x_x25519_dh X b (x_x25519_public X a))"

definition ed25519_ok :: "ext \<Rightarrow> bool" where
  "ed25519_ok X \<longleftrightarrow> (\<forall>s. length (x_ed25519_public X s) = 32 \<and> x_ed25519_key_ok X (x_ed25519_public X s)) \<and>
     (\<forall>s m. length (x_ed25519_sign X s m) = 64 \<and>
       x_ed25519_verify X (x_ed25519_public X s) m (x_ed25519_sign X s m))"

text \<open>HKDF-SHA256 yields any output of up to 255 blocks of 32 bytes, and no longer one.\<close>

definition hkdf_ok :: "ext \<Rightarrow> bool" where
  "hkdf_ok X \<longleftrightarrow> (\<forall>salt ikm n. if n \<le> 8160 then \<exists>k. x_hkdf X salt ikm n = Some k \<and> length k = n
     else x_hkdf X salt ikm n = None)"

text \<open>HMAC takes a key of any length; its tag is 32 bytes.\<close>

definition hmac_ok :: "ext \<Rightarrow> bool" where
  "hmac_ok X \<longleftrightarrow> (\<forall>k. \<exists>f. x_hmac X k = Some f \<and> (\<forall>m. length (f m) = 32))"

text \<open>PKCS#7 adds 1 to 16 bytes to reach a multiple of the block; decryption removes them.\<close>

definition aes_ok :: "ext \<Rightarrow> bool" where
  "aes_ok X \<longleftrightarrow> (\<forall>k iv p. length (x_aes_encrypt X k iv p) = 16 * (length p div 16 + 1) \<and>
     x_aes_decrypt X k iv (x_aes_encrypt X k iv p) = Some p)"

definition rmp_write_ok :: "ext \<Rightarrow> bool" where
  "rmp_write_ok X \<longleftrightarrow>
     (\<forall>n. x_wr_array_len X n = mp_array (unat n)) \<and>
     (\<forall>n. x_wr_map_len X n = mp_map (unat n)) \<and>
     (\<forall>s. length s < 2 ^ 32 \<longrightarrow> x_wr_str X s = mp_str (length s) @ s) \<and>
     (\<forall>b. length b < 2 ^ 32 \<longrightarrow> x_wr_bin X b = mp_bin (length b) @ b) \<and>
     (\<forall>v. x_wr_uint X v = mp_uint v) \<and>
     x_wr_nil X = [0xC0] \<and>
     (\<forall>v. x_wr_f64 X v = mp_f64 v)"

definition rmp_read_ok :: "ext \<Rightarrow> bool" where
  "rmp_read_ok X \<longleftrightarrow>
     (\<forall>n r. x_rd_array_len X (mp_array (unat n) @ r) = Some (n, r)) \<and>
     (\<forall>n r. x_rd_map_len X (mp_map (unat n) @ r) = Some (n, r)) \<and>
     (\<forall>n r. x_rd_str_len X (mp_str (unat n) @ r) = Some (n, r)) \<and>
     (\<forall>n r. x_rd_bin_len X (mp_bin (unat n) @ r) = Some (n, r)) \<and>
     (\<forall>v r. x_rd_int X (mp_uint v @ r) = Some (v, r))"

definition rmp_ok :: "ext \<Rightarrow> bool" where
  "rmp_ok X \<longleftrightarrow> rmp_write_ok X \<and> rmp_read_ok X"

text \<open>bzip2 restores what it compressed, as far as the reader's limit goes.\<close>

definition bzip2_ok :: "ext \<Rightarrow> bool" where
  "bzip2_ok X \<longleftrightarrow> (case x_bzip2 X of None \<Rightarrow> True
     | Some z \<Rightarrow> \<forall>d c n. bz_compress z d = Some c \<longrightarrow> length d \<le> n \<longrightarrow> bz_decompress z c n = Some d)"

definition cipher_ok :: "ext \<Rightarrow> bool" where
  "cipher_ok X \<longleftrightarrow> hmac_ok X \<and> aes_ok X"

definition crypto_ok :: "ext \<Rightarrow> bool" where
  "crypto_ok X \<longleftrightarrow> sha_ok X \<and> x25519_ok X \<and> ed25519_ok X \<and> hkdf_ok X \<and> cipher_ok X"

section \<open>Their consequences in the form the proofs use\<close>

lemma sha_len [simp]: "sha_ok X \<Longrightarrow> length (x_sha256 X d) = 32"
  by (simp add: sha_ok_def)

lemma x25519_len [simp]:
  "x25519_ok X \<Longrightarrow> length (x_x25519_public X a) = 32"
  "x25519_ok X \<Longrightarrow> length (x_x25519_dh X a b) = 32"
  by (simp_all add: x25519_ok_def)

lemma x25519_agree:
  "x25519_ok X \<Longrightarrow> x_x25519_dh X a (x_x25519_public X b) = x_x25519_dh X b (x_x25519_public X a)"
  unfolding x25519_ok_def by blast

lemma ed25519_simps [simp]:
  "ed25519_ok X \<Longrightarrow> length (x_ed25519_public X s) = 32"
  "ed25519_ok X \<Longrightarrow> x_ed25519_key_ok X (x_ed25519_public X s)"
  "ed25519_ok X \<Longrightarrow> length (x_ed25519_sign X s m) = 64"
  "ed25519_ok X \<Longrightarrow> x_ed25519_verify X (x_ed25519_public X s) m (x_ed25519_sign X s m)"
  by (simp_all add: ed25519_ok_def)

lemma hkdf_Some:
  assumes "hkdf_ok X" and "n \<le> 8160"
  obtains k where "x_hkdf X salt ikm n = Some k" and "length k = n"
  using assms unfolding hkdf_ok_def by meson

lemma hkdf_None: "hkdf_ok X \<Longrightarrow> 8160 < n \<Longrightarrow> x_hkdf X salt ikm n = None"
  unfolding hkdf_ok_def by (metis not_less)

lemma hmac_Some:
  assumes "hmac_ok X"
  obtains f where "x_hmac X k = Some f" and "\<And>m. length (f m) = 32"
  using assms unfolding hmac_ok_def by meson

lemma aes_simps [simp]:
  "aes_ok X \<Longrightarrow> length (x_aes_encrypt X k iv p) = 16 * (length p div 16 + 1)"
  "aes_ok X \<Longrightarrow> x_aes_decrypt X k iv (x_aes_encrypt X k iv p) = Some p"
  by (simp_all add: aes_ok_def)

lemma crypto_okD:
  assumes "crypto_ok X"
  shows "sha_ok X" "x25519_ok X" "ed25519_ok X" "hkdf_ok X" "cipher_ok X" "hmac_ok X" "aes_ok X"
  using assms by (simp_all add: crypto_ok_def cipher_ok_def)

lemma rmp_write:
  assumes "rmp_ok X"
  shows "x_wr_array_len X n = mp_array (unat n)" "x_wr_map_len X n = mp_map (unat n)"
    "length s < 2 ^ 32 \<Longrightarrow> x_wr_str X s = mp_str (length s) @ s"
    "length s < 2 ^ 32 \<Longrightarrow> x_wr_bin X s = mp_bin (length s) @ s"
    "x_wr_uint X v = mp_uint v" "x_wr_nil X = [0xC0]" "x_wr_f64 X v = mp_f64 v"
  using assms by (auto simp: rmp_ok_def rmp_write_ok_def)

lemma rmp_read:
  assumes "rmp_ok X"
  shows "x_rd_array_len X (mp_array (unat n) @ r) = Some (n, r)"
    "x_rd_map_len X (mp_map (unat n) @ r) = Some (n, r)"
    "x_rd_str_len X (mp_str (unat n) @ r) = Some (n, r)"
    "x_rd_bin_len X (mp_bin (unat n) @ r) = Some (n, r)"
    "x_rd_int X (mp_uint v @ r) = Some (v, r)"
  using assms by (auto simp: rmp_ok_def rmp_read_ok_def)

lemma rmp_read_len:
  assumes "rmp_ok X" and "length s < 2 ^ 32"
  shows "x_rd_str_len X (x_wr_str X s @ r) = Some (word_of_nat (length s), s @ r)"
    and "x_rd_bin_len X (x_wr_bin X s @ r) = Some (word_of_nat (length s), s @ r)"
proof -
  have u: "unat (word_of_nat (length s) :: u32) = length s"
    using assms(2) by (simp add: unat_of_nat take_bit_nat_eq_self)
  show "x_rd_str_len X (x_wr_str X s @ r) = Some (word_of_nat (length s), s @ r)"
    using rmp_read(3) [OF assms(1), of "word_of_nat (length s)" "s @ r"] assms
    by (simp add: u rmp_write)
  show "x_rd_bin_len X (x_wr_bin X s @ r) = Some (word_of_nat (length s), s @ r)"
    using rmp_read(4) [OF assms(1), of "word_of_nat (length s)" "s @ r"] assms
    by (simp add: u rmp_write)
qed

end
