(* ===== verification/Ifac.thy ===== *)
theory Ifac
  imports Ext
begin

text \<open>
  reticulum-interface/src/ifac.rs: interface access codes. \<open>apply\<close> signs a frame, inserts the last
  bytes of the signature after the two-byte header and masks the rest with a key stream derived from
  them; \<open>strip\<close> undoes it and refuses a frame whose code does not match.
\<close>

datatype ifac_error = InvalidSize | IfTruncated | Authentication | Derivation

definition IFAC_KEY_SIZE :: nat where "IFAC_KEY_SIZE = 64"
definition DEFAULT_IFAC_SIZE :: nat where "DEFAULT_IFAC_SIZE = 16"
definition IFAC_FLAG :: u8 where "IFAC_FLAG = 0x80"

definition IFAC_SALT :: bytes where
  "IFAC_SALT = [0xad, 0xf5, 0x4d, 0x88, 0x2c, 0x9a, 0x9b, 0x80, 0x77, 0x1e, 0xb4, 0x99, 0x5d, 0x70,
     0x2d, 0x4a, 0x3e, 0x73, 0x33, 0x91, 0xb2, 0xa0, 0xf5, 0x3f, 0x41, 0x6d, 0x9f, 0x90, 0x7e, 0x55,
     0xcf, 0xf8]"

text \<open>\<open>expect\<close> on the expansion panics when it fails: \<open>None\<close>.\<close>

definition ifac_derive_key :: "ext \<Rightarrow> bytes \<Rightarrow> bytes \<Rightarrow> bytes option" where
  "ifac_derive_key X network_name passphrase =
     (let origin = (if network_name \<noteq> [] then x_sha256 X network_name else [])
                 @ (if passphrase \<noteq> [] then x_sha256 X passphrase else []);
          origin_hash = x_sha256 X origin
      in x_hkdf X IFAC_SALT origin_hash IFAC_KEY_SIZE)"

definition ifac_validate :: "bytes \<Rightarrow> nat \<Rightarrow> ifac_error + unit" where
  "ifac_validate frame ifac_size =
     (if \<not> (1 \<le> ifac_size \<and> ifac_size \<le> 64) then Inl InvalidSize
      else if length frame < 2 then Inl IfTruncated
      else Inr ())"

definition ifac_mask :: "ext \<Rightarrow> bytes \<Rightarrow> bytes \<Rightarrow> bytes \<Rightarrow> nat \<Rightarrow> ifac_error + bytes" where
  "ifac_mask X frame key ifac ifac_size =
     (case x_hkdf X key ifac (length frame) of
        None \<Rightarrow> Inl Derivation
      | Some m \<Rightarrow> Inr (map (\<lambda>i. if i \<le> 1 \<or> i > ifac_size + 1 then frame ! i XOR m ! i else frame ! i)
                        [0..<length frame]))"

definition constant_time_eq :: "bytes \<Rightarrow> bytes \<Rightarrow> bool" where
  "constant_time_eq l r =
     (if length l \<noteq> length r then False
      else fold (\<lambda>(a, b) d. d OR (a XOR b)) (zip l r) 0 = 0)"

definition ifac_apply_with_size :: "ext \<Rightarrow> bytes \<Rightarrow> bytes \<Rightarrow> nat \<Rightarrow> ifac_error + bytes" where
  "ifac_apply_with_size X frame key ifac_size =
     rbind (ifac_validate frame ifac_size) (\<lambda>_.
     rbind (ok_or Derivation (try_array 32 (drop 32 key))) (\<lambda>signing_seed.
       let signature = x_ed25519_sign X signing_seed frame;
           ifac = drop (length signature - ifac_size) signature;
           wire = [frame ! 0 OR IFAC_FLAG, frame ! 1] @ ifac @ drop 2 frame
       in rbind (ifac_mask X wire key ifac ifac_size) (\<lambda>wire.
            Inr (wire[0 := wire ! 0 OR IFAC_FLAG]))))"

definition ifac_apply :: "ext \<Rightarrow> bytes \<Rightarrow> bytes \<Rightarrow> bytes" where
  "ifac_apply X frame key =
     (case ifac_apply_with_size X frame key DEFAULT_IFAC_SIZE of Inl _ \<Rightarrow> [] | Inr w \<Rightarrow> w)"

definition ifac_strip_with_size :: "ext \<Rightarrow> bytes \<Rightarrow> bytes \<Rightarrow> nat \<Rightarrow> ifac_error + bytes" where
  "ifac_strip_with_size X frame key ifac_size =
     rbind (ifac_validate frame ifac_size) (\<lambda>_.
       if frame ! 0 AND IFAC_FLAG = 0 \<or> length frame \<le> ifac_size + 2 then Inl IfTruncated
       else let ifac = sub 2 (2 + ifac_size) frame
         in rbind (ifac_mask X frame key ifac ifac_size) (\<lambda>unmasked.
              let unmasked = unmasked[0 := unmasked ! 0 AND NOT IFAC_FLAG];
                  plain = take 2 unmasked @ drop (2 + ifac_size) unmasked
              in rbind (ok_or Derivation (try_array 32 (drop 32 key))) (\<lambda>signing_seed.
                   let expected = x_ed25519_sign X signing_seed plain
                   in if constant_time_eq ifac (drop (length expected - ifac_size) expected)
                      then Inr plain else Inl Authentication)))"

definition ifac_strip :: "ext \<Rightarrow> bytes \<Rightarrow> bytes \<Rightarrow> ifac_error + bytes" where
  "ifac_strip X frame key = ifac_strip_with_size X frame key DEFAULT_IFAC_SIZE"

section \<open>The constant-time comparison\<close>

lemma word_or_eq_0: "a OR b = 0 \<longleftrightarrow> a = 0 \<and> b = (0 :: 'a::len word)"
  by (metis or.left_neutral or.right_neutral or_eq_0_iff)

lemma word_xor_eq_0: "a XOR b = 0 \<longleftrightarrow> a = (b :: 'a::len word)"
  by (metis xor.assoc xor.right_neutral xor_self_eq)

lemma fold_or_zero:
  "fold (\<lambda>(a, b) d. d OR (a XOR b)) ps d = (0 :: u8) \<longleftrightarrow> d = 0 \<and> (\<forall>(a, b) \<in> set ps. a = b)"
  by (induction ps arbitrary: d) (auto simp: word_or_eq_0 word_xor_eq_0)

lemma constant_time_eq_iff [simp]: "constant_time_eq l r \<longleftrightarrow> l = r"
proof (cases "length l = length r")
  case True
  then have "(\<forall>(a, b) \<in> set (zip l r). a = b) \<longleftrightarrow> l = r"
    by (induction l r rule: list_induct2) auto
  with True show ?thesis by (simp add: constant_time_eq_def fold_or_zero)
next
  case False
  then show ?thesis by (auto simp: constant_time_eq_def)
qed

section \<open>The mask\<close>

text \<open>The mask leaves the two header bytes' neighbours, the code itself, alone.\<close>

lemma ifac_mask_layout:
  assumes "x_hkdf X key ifac (2 + n + length rest) = Some m" and "length m = 2 + n + length rest"
    and "length code = n"
  shows "ifac_mask X (a # b # code @ rest) key ifac n =
    Inr ((a XOR m ! 0) # (b XOR m ! 1) # code @ map2 (XOR) rest (drop (2 + n) m))"
proof -
  let ?f = "a # b # code @ rest"
  have "map (\<lambda>i. if i \<le> 1 \<or> i > n + 1 then ?f ! i XOR m ! i else ?f ! i) [0..<length ?f] =
      (a XOR m ! 0) # (b XOR m ! 1) # code @ map2 (XOR) rest (drop (2 + n) m)" (is "?l = ?r")
  proof (rule nth_equalityI)
    show "length ?l = length ?r" using assms by simp
  next
    fix i assume "i < length ?l"
    then have i: "i < 2 + n + length rest" using assms by simp
    consider "i = 0" | "i = 1" | k where "i = 2 + k" "k < n" | k where "i = 2 + n + k" "k < length rest"
      using i by (metis One_nat_def add.assoc add_less_cancel_left le_add_diff_inverse less_2_cases
          nat_add_left_cancel_less not_less)
    then show "?l ! i = ?r ! i"
      by cases (use assms i in \<open>simp_all add: nth_append del: upt.simps\<close>)
  qed
  then show ?thesis using assms(1,3) by (simp add: ifac_mask_def del: upt.simps)
qed

lemma map2_xor_twice: "length m = length r \<Longrightarrow> map2 (XOR) (map2 (XOR) r m) m = (r :: bytes)"
  by (induction r m rule: list_induct2') (auto simp: xor.assoc)

lemma flag_restored:
  assumes "f AND IFAC_FLAG = 0"
  shows "((((f OR IFAC_FLAG) XOR m) OR IFAC_FLAG) XOR m) AND NOT IFAC_FLAG = f"
    and "(((f OR IFAC_FLAG) XOR m) OR IFAC_FLAG) AND IFAC_FLAG \<noteq> 0"
proof -
  have b: "bit (IFAC_FLAG :: u8) i \<longleftrightarrow> i = 7" for i
  proof -
    have *: "(IFAC_FLAG :: u8) = push_bit 7 1" by (simp add: IFAC_FLAG_def)
    show ?thesis unfolding * bit_push_bit_iff bit_1_iff by auto
  qed
  have f7: "\<not> bit f 7"
    using assms by (metis b bit_0_eq bit_and_iff bot_apply bot_bool_def)
  show "((((f OR IFAC_FLAG) XOR m) OR IFAC_FLAG) XOR m) AND NOT IFAC_FLAG = f"
    by (rule bit_word_eqI) (auto simp: bit_simps b f7)
  have "bit ((((f OR IFAC_FLAG) XOR m) OR IFAC_FLAG) AND IFAC_FLAG) 7"
    by (simp add: bit_simps b)
  then show "(((f OR IFAC_FLAG) XOR m) OR IFAC_FLAG) AND IFAC_FLAG \<noteq> 0"
    by (metis bit_0_eq bot_apply bot_bool_def)
qed

section \<open>Stripping undoes applying\<close>

definition ifac_code :: "ext \<Rightarrow> bytes \<Rightarrow> bytes \<Rightarrow> nat \<Rightarrow> bytes" where
  "ifac_code X frame key n =
     (let signature = x_ed25519_sign X (drop 32 key) frame in drop (length signature - n) signature)"

lemma length_ifac_code [simp]: "ed25519_ok X \<Longrightarrow> n \<le> 64 \<Longrightarrow> length (ifac_code X f key n) = n"
  by (simp add: ifac_code_def Let_def)

text \<open>The wire form: header, code, payload, all but the code masked, the flag bit set.\<close>

lemma ifac_apply_layout:
  assumes "crypto_ok X" and "length key = 64" and "1 \<le> n" "n \<le> 64"
    and "2 + n + length rest \<le> 8160"
  obtains m where "x_hkdf X key (ifac_code X (a # b # rest) key n) (2 + n + length rest) = Some m"
    and "length m = 2 + n + length rest"
    and "ifac_apply_with_size X (a # b # rest) key n =
      Inr ((((a OR IFAC_FLAG) XOR m ! 0) OR IFAC_FLAG) # (b XOR m ! 1)
        # ifac_code X (a # b # rest) key n @ map2 (XOR) rest (drop (2 + n) m))"
proof -
  let ?c = "ifac_code X (a # b # rest) key n"
  have c: "length ?c = n" using assms crypto_okD(3) by simp
  obtain m where m: "x_hkdf X key ?c (2 + n + length rest) = Some m" "length m = 2 + n + length rest"
    using hkdf_Some [OF crypto_okD(4) [OF assms(1)] assms(5)] by blast
  have "ifac_apply_with_size X (a # b # rest) key n =
      rbind (ifac_mask X ((a OR IFAC_FLAG) # b # ?c @ rest) key ?c n)
        (\<lambda>wire. Inr (wire[0 := wire ! 0 OR IFAC_FLAG]))"
    using assms(2-4) by (simp add: ifac_apply_with_size_def ifac_validate_def ifac_code_def Let_def)
  then have "ifac_apply_with_size X (a # b # rest) key n =
      Inr ((((a OR IFAC_FLAG) XOR m ! 0) OR IFAC_FLAG) # (b XOR m ! 1)
        # ?c @ map2 (XOR) rest (drop (2 + n) m))"
    by (simp add: ifac_mask_layout [OF m c])
  with m show thesis by (rule that)
qed

text \<open>Stripping a wire form whose code belongs to the unmasked frame.\<close>

lemma ifac_strip_layout:
  assumes "x_hkdf X key code (2 + n + length rest) = Some m" and "length m = 2 + n + length rest"
    and "length code = n" and "length key = 64" and "1 \<le> n" "n \<le> 64"
    and "a AND IFAC_FLAG \<noteq> 0" and "rest \<noteq> []"
    and plain: "plain = ((a XOR m ! 0) AND NOT IFAC_FLAG) # (b XOR m ! 1) # map2 (XOR) rest (drop (2 + n) m)"
  shows "ifac_strip_with_size X (a # b # code @ rest) key n =
    (if code = ifac_code X plain key n then Inr plain else Inl Authentication)"
proof -
  let ?u = "(a XOR m ! 0) # (b XOR m ! 1) # code @ map2 (XOR) rest (drop (2 + n) m)"
  have u: "take 2 (?u[0 := ?u ! 0 AND NOT IFAC_FLAG]) @ drop (2 + n) (?u[0 := ?u ! 0 AND NOT IFAC_FLAG]) = plain"
    using assms(3) by (simp add: plain)
  have c: "sub 2 (2 + n) (a # b # code @ rest) = code" using assms(3) by (simp add: sub_def)
  have v: "ifac_validate (a # b # code @ rest) n = Inr ()" using assms(5,6) by (simp add: ifac_validate_def)
  have g: "((a # b # code @ rest) ! 0 AND IFAC_FLAG = 0 \<or> length (a # b # code @ rest) \<le> n + 2) = False"
    using assms(3,7,8) by simp
  have k: "ok_or Derivation (try_array 32 (drop 32 key)) = Inr (drop 32 key)" using assms(4) by simp
  show ?thesis
    unfolding ifac_strip_with_size_def v rbind.simps g if_False Let_def c
      ifac_mask_layout [OF assms(1-3)] u k constant_time_eq_iff ifac_code_def by (rule refl)
qed

lemma ifac_strip_apply:
  assumes "crypto_ok X" and "length key = 64" and "1 \<le> n" "n \<le> 64"
    and "3 \<le> length f" and "length f + n \<le> 8160" and "f ! 0 AND IFAC_FLAG = 0"
  shows "\<exists>w. ifac_apply_with_size X f key n = Inr w \<and> ifac_strip_with_size X w key n = Inr f"
proof -
  obtain a b rest where f: "f = a # b # rest" and r: "rest \<noteq> []"
    using assms(5) by (cases f; cases "tl f"; cases "tl (tl f)") auto
  have len: "2 + n + length rest \<le> 8160" using assms(6) f by simp
  let ?c = "ifac_code X (a # b # rest) key n"
  have c: "length ?c = n" using assms crypto_okD(3) by simp
  obtain m where m: "x_hkdf X key ?c (2 + n + length rest) = Some m" "length m = 2 + n + length rest"
    and w: "ifac_apply_with_size X (a # b # rest) key n =
      Inr ((((a OR IFAC_FLAG) XOR m ! 0) OR IFAC_FLAG) # (b XOR m ! 1)
        # ?c @ map2 (XOR) rest (drop (2 + n) m))"
    using ifac_apply_layout [OF assms(1-4) len] by blast
  let ?r = "map2 (XOR) rest (drop (2 + n) m)"
  have a: "a AND IFAC_FLAG = 0" using assms(7) f by simp
  have lr: "length ?r = length rest" using m by simp
  have "ifac_strip_with_size X ((((a OR IFAC_FLAG) XOR m ! 0) OR IFAC_FLAG) # (b XOR m ! 1) # ?c @ ?r) key n =
      (if ?c = ifac_code X f key n then Inr f else Inl Authentication)"
  proof (rule ifac_strip_layout [of X key ?c n ?r m])
    show "f = (((((a OR IFAC_FLAG) XOR m ! 0) OR IFAC_FLAG) XOR m ! 0) AND NOT IFAC_FLAG)
        # ((b XOR m ! 1) XOR m ! 1) # map2 (XOR) ?r (drop (2 + n) m)"
      using m by (simp add: f flag_restored(1) [OF a] map2_xor_twice xor.assoc)
    show "?r \<noteq> []" using lr r by (metis length_0_conv)
    show "(((a OR IFAC_FLAG) XOR m ! 0) OR IFAC_FLAG) AND IFAC_FLAG \<noteq> 0"
      by (rule flag_restored(2) [OF a])
  qed (use m c assms lr in simp_all)
  then show ?thesis using w f by simp
qed

text \<open>What \<open>strip\<close> lets through carries the code that the key's signature of it ends with.\<close>

lemma ifac_strip_authentic:
  assumes "ifac_strip_with_size X w key n = Inr p"
  shows "sub 2 (2 + n) w = ifac_code X p key n" and "w ! 0 AND IFAC_FLAG \<noteq> 0"
    and "length w = length p + n" and "1 \<le> n" and "n \<le> 64" and "length w > n + 2"
  using assms
  by (auto simp: ifac_strip_with_size_def ifac_validate_def ifac_code_def ifac_mask_def
      rbind_Inr_iff Let_def split: if_splits option.splits)

lemma ifac_strip_errors:
  "\<not> (1 \<le> n \<and> n \<le> 64) \<Longrightarrow> ifac_strip_with_size X w key n = Inl InvalidSize"
  "1 \<le> n \<Longrightarrow> n \<le> 64 \<Longrightarrow> length w \<le> n + 2 \<Longrightarrow> ifac_strip_with_size X w key n = Inl IfTruncated"
  "1 \<le> n \<Longrightarrow> n \<le> 64 \<Longrightarrow> 2 \<le> length w \<Longrightarrow> w ! 0 AND IFAC_FLAG = 0 \<Longrightarrow>
     ifac_strip_with_size X w key n = Inl IfTruncated"
  by (auto simp: ifac_strip_with_size_def ifac_validate_def)

text \<open>A frame too long for the key stream is not sent at all: \<open>apply\<close> yields no bytes.\<close>

lemma ifac_apply_too_long:
  assumes "crypto_ok X" and "length key = 64" and "8160 - 16 < length f"
  shows "ifac_apply X f key = []"
proof -
  note ok = crypto_okD [OF assms(1)]
  have none: "x_hkdf X key c n = None" if "8160 < n" for c n
    using hkdf_None [OF ok(4) that] .
  show ?thesis using assms(2,3) ok(3)
    by (simp add: ifac_apply_def ifac_apply_with_size_def ifac_validate_def DEFAULT_IFAC_SIZE_def
        ifac_mask_def Let_def none)
qed

end
