(* ===== verification/BTree_Map.thy ===== *)
theory BTree_Map
  imports Prelude
begin

text \<open>
  Rust's \<open>BTreeMap\<close>: the ordered map the node and the router keep their tables in. The model is an
  association list in strictly increasing key order, so that iteration visits the entries in the
  order the code visits them. Byte-array keys are ordered lexicographically (List_Lexorder) and
  pairs of keys lexicographically (Product_Lexorder), as Rust's derived \<open>Ord\<close> does.
  The locale \<open>ordered_map\<close> is the contract the tables above it rely on; it is interpreted on these
  definitions as \<open>bt\<close>.
\<close>

section \<open>The map and its operations\<close>

type_synonym ('k, 'v) btree = "('k \<times> 'v) list"

fun bt_insert :: "'k::linorder \<Rightarrow> 'v \<Rightarrow> ('k, 'v) btree \<Rightarrow> ('k, 'v) btree" where
  "bt_insert k v [] = [(k, v)]"
| "bt_insert k v ((k', v') # m) =
     (if k < k' then (k, v) # (k', v') # m
      else if k = k' then (k, v) # m
      else (k', v') # bt_insert k v m)"

definition bt_get :: "'k \<Rightarrow> ('k, 'v) btree \<Rightarrow> 'v option" where
  "bt_get k m = map_of m k"

definition bt_contains :: "'k \<Rightarrow> ('k, 'v) btree \<Rightarrow> bool" where
  "bt_contains k m = (bt_get k m \<noteq> None)"

definition bt_remove :: "'k \<Rightarrow> ('k, 'v) btree \<Rightarrow> ('k, 'v) btree" where
  "bt_remove k m = filter (\<lambda>(k', _). k' \<noteq> k) m"

definition bt_retain :: "('k \<Rightarrow> 'v \<Rightarrow> bool) \<Rightarrow> ('k, 'v) btree \<Rightarrow> ('k, 'v) btree" where
  "bt_retain P m = filter (\<lambda>(k, v). P k v) m"

text \<open>\<open>if let Some(v) = m.get_mut(&k)\<close> with an update of the value in place.\<close>

definition bt_update :: "'k \<Rightarrow> ('v \<Rightarrow> 'v) \<Rightarrow> ('k, 'v) btree \<Rightarrow> ('k, 'v) btree" where
  "bt_update k f m = map (\<lambda>(k', v). (k', if k' = k then f v else v)) m"

definition bt_keys :: "('k, 'v) btree \<Rightarrow> 'k list" where
  "bt_keys m = map fst m"

definition bt_ok :: "('k::linorder, 'v) btree \<Rightarrow> bool" where
  "bt_ok m = sorted_wrt (<) (bt_keys m)"

section \<open>The contract of an ordered map\<close>

locale ordered_map =
  fixes empty :: "'m"
    and insert :: "'k \<Rightarrow> 'v \<Rightarrow> 'm \<Rightarrow> 'm"
    and remove :: "'k \<Rightarrow> 'm \<Rightarrow> 'm"
    and retain :: "('k \<Rightarrow> 'v \<Rightarrow> bool) \<Rightarrow> 'm \<Rightarrow> 'm"
    and update :: "'k \<Rightarrow> ('v \<Rightarrow> 'v) \<Rightarrow> 'm \<Rightarrow> 'm"
    and get :: "'k \<Rightarrow> 'm \<Rightarrow> 'v option"
    and ok :: "'m \<Rightarrow> bool"
  assumes ok_empty: "ok empty"
    and ok_insert: "ok m \<Longrightarrow> ok (insert k v m)"
    and ok_remove: "ok m \<Longrightarrow> ok (remove k m)"
    and ok_retain: "ok m \<Longrightarrow> ok (retain P m)"
    and ok_update: "ok m \<Longrightarrow> ok (update k f m)"
    and get_empty: "get k empty = None"
    and get_insert: "get k' (insert k v m) = (if k' = k then Some v else get k' m)"
    and get_remove: "get k' (remove k m) = (if k' = k then None else get k' m)"
    and get_update: "get k' (update k f m) = (if k' = k then map_option f (get k m) else get k' m)"
    and get_retain: "ok m \<Longrightarrow> get k (retain P m) =
      (case get k m of None \<Rightarrow> None | Some v \<Rightarrow> if P k v then Some v else None)"
begin

lemma get_insert_same: "get k (insert k v m) = Some v"
  by (simp add: get_insert)

lemma get_insert_other: "k' \<noteq> k \<Longrightarrow> get k' (insert k v m) = get k' m"
  by (simp add: get_insert)

lemma retain_subset: "ok m \<Longrightarrow> get k (retain P m) = Some v \<Longrightarrow> get k m = Some v \<and> P k v"
  by (auto simp: get_retain split: option.splits if_splits)

lemma retain_keeps: "ok m \<Longrightarrow> get k m = Some v \<Longrightarrow> P k v \<Longrightarrow> get k (retain P m) = Some v"
  by (simp add: get_retain)

lemma get_insert_None: "get k' (insert k v m) = None \<longleftrightarrow> k' \<noteq> k \<and> get k' m = None"
  by (simp add: get_insert)

end

section \<open>The association list provides it\<close>

lemma bt_get_insert: "bt_get k' (bt_insert k v m) = (if k' = k then Some v else bt_get k' m)"
  by (induction m) (auto simp: bt_get_def)

lemma bt_get_remove: "bt_get k' (bt_remove k m) = (if k' = k then None else bt_get k' m)"
  by (induction m) (auto simp: bt_get_def bt_remove_def)

lemma bt_get_update:
  "bt_get k' (bt_update k f m) = (if k' = k then map_option f (bt_get k m) else bt_get k' m)"
  by (induction m) (auto simp: bt_get_def bt_update_def)

lemma bt_keys_update [simp]: "bt_keys (bt_update k f m) = bt_keys m"
  by (auto simp: bt_update_def bt_keys_def)

lemma set_bt_keys_insert: "set (bt_keys (bt_insert k v m)) = insert k (set (bt_keys m))"
proof (induction m)
  case Nil
  then show ?case by (simp add: bt_keys_def)
next
  case (Cons e m)
  then show ?case by (cases e) (simp add: bt_keys_def insert_commute)
qed

lemma bt_ok_Nil [simp]: "bt_ok []"
  by (simp add: bt_ok_def bt_keys_def)

lemma bt_ok_Cons: "bt_ok ((k, v) # m) \<longleftrightarrow> (\<forall>k' \<in> set (bt_keys m). k < k') \<and> bt_ok m"
  by (simp add: bt_ok_def bt_keys_def)

lemma bt_ok_insert: "bt_ok m \<Longrightarrow> bt_ok (bt_insert k v m)"
proof (induction m)
  case Nil
  then show ?case by (simp add: bt_ok_Cons bt_keys_def)
next
  case (Cons e m)
  obtain k' v' where e: "e = (k', v')" by (cases e)
  have IH: "bt_ok (bt_insert k v m)" and all: "\<forall>x \<in> set (bt_keys m). k' < x" and m: "bt_ok m"
    using Cons by (auto simp: e bt_ok_Cons)
  consider "k < k'" | "k = k'" | "k' < k" by force
  then show ?case
  proof cases
    case 1
    then have "\<forall>x \<in> set (bt_keys m). k < x" using all by auto
    with 1 all m show ?thesis by (auto simp: e bt_ok_Cons bt_keys_def)
  next
    case 2
    with all m show ?thesis by (auto simp: e bt_ok_Cons)
  next
    case 3
    with all IH show ?thesis by (auto simp: e bt_ok_Cons set_bt_keys_insert)
  qed
qed

lemma bt_ok_filter: "bt_ok m \<Longrightarrow> bt_ok (filter P m)"
  by (induction m) (auto simp: bt_ok_def bt_keys_def)

lemma bt_ok_distinct: "bt_ok m \<Longrightarrow> distinct (bt_keys m)"
  by (induction m) (auto simp: bt_ok_def bt_keys_def)

lemma bt_get_retain:
  assumes "bt_ok m"
  shows "bt_get k (bt_retain P m) =
    (case bt_get k m of None \<Rightarrow> None | Some v \<Rightarrow> if P k v then Some v else None)"
  using assms
proof (induction m)
  case Nil
  then show ?case by (simp add: bt_get_def bt_retain_def)
next
  case (Cons e m)
  obtain k' v' where e: "e = (k', v')" by (cases e)
  have fresh: "k' \<notin> set (bt_keys m)" and m: "bt_ok m"
    using Cons.prems by (auto simp: e bt_ok_Cons)
  have none: "map_of (filter (\<lambda>(k, v). P k v) m) k' = None"
    using fresh by (auto simp: bt_keys_def map_of_eq_None_iff)
  show ?case
    using Cons.IH [OF m] none by (auto simp: e bt_get_def bt_retain_def)
qed

interpretation bt: ordered_map "[]" bt_insert bt_remove bt_retain bt_update bt_get bt_ok
proof unfold_locales
  show "bt_ok ([] :: ('a, 'b) btree)" by simp
  show "bt_get k ([] :: ('a, 'b) btree) = None" for k by (simp add: bt_get_def)
  show "bt_ok (bt_update k f m)" if "bt_ok m" for k f and m :: "('a, 'b) btree"
    using that by (simp add: bt_ok_def)
  show "bt_ok (bt_remove k m)" if "bt_ok m" for k and m :: "('a, 'b) btree"
    using that by (simp add: bt_remove_def bt_ok_filter)
  show "bt_ok (bt_retain P m)" if "bt_ok m" for P and m :: "('a, 'b) btree"
    using that by (simp add: bt_retain_def bt_ok_filter)
qed (simp_all add: bt_ok_insert bt_get_insert bt_get_remove bt_get_update bt_get_retain)

lemmas bt_simps = bt.get_empty bt.get_insert bt.get_remove bt.get_update

lemmas bt_oks = bt.ok_insert bt.ok_remove bt.ok_retain bt.ok_update

lemma bt_get_Some_key: "bt_get k m = Some v \<Longrightarrow> k \<in> set (bt_keys m)"
  by (auto simp: bt_get_def bt_keys_def dest: map_of_SomeD intro: rev_image_eqI)

lemma bt_keys_get: "k \<in> set (bt_keys m) \<longleftrightarrow> bt_get k m \<noteq> None"
  by (simp add: bt_get_def bt_keys_def map_of_eq_None_iff)

lemma bt_get_in_set: "bt_ok m \<Longrightarrow> bt_get k m = Some v \<longleftrightarrow> (k, v) \<in> set m"
  using bt_ok_distinct [of m] by (simp add: bt_get_def bt_keys_def)

lemma length_bt_retain: "length (bt_retain P m) \<le> length m"
  by (simp add: bt_retain_def)

end
