(* ===== verification/Identities.thy ===== *)
theory Identities
  imports Ext
begin

text \<open>
  reticulum-core: hash.rs, destination.rs, identity.rs and proof.rs. Hashes and addresses, the
  public and private identity with its 64-byte wire form, and explicit delivery proofs.
\<close>

section \<open>Hashes and destination addresses\<close>

definition full_hash :: "ext \<Rightarrow> bytes \<Rightarrow> bytes" where
  "full_hash X data = x_sha256 X data"

definition truncated_hash :: "ext \<Rightarrow> bytes \<Rightarrow> bytes" where
  "truncated_hash X data = take 16 (full_hash X data)"

fun push_aspects :: "bytes \<Rightarrow> bytes list \<Rightarrow> bytes" where
  "push_aspects name [] = name"
| "push_aspects name (a # as) = push_aspects (name @ str ''.'' @ a) as"

definition name_hash :: "ext \<Rightarrow> bytes \<Rightarrow> bytes list \<Rightarrow> bytes" where
  "name_hash X app_name aspects = take 10 (full_hash X (push_aspects app_name aspects))"

definition destination_hash :: "ext \<Rightarrow> bytes \<Rightarrow> bytes \<Rightarrow> bytes" where
  "destination_hash X nh ih = truncated_hash X (nh @ ih)"

definition group_destination_hash :: "ext \<Rightarrow> bytes \<Rightarrow> bytes list \<Rightarrow> bytes" where
  "group_destination_hash X app_name aspects = truncated_hash X (name_hash X app_name aspects)"

definition group_destination_hash_with_identity ::
    "ext \<Rightarrow> bytes \<Rightarrow> bytes list \<Rightarrow> bytes \<Rightarrow> bytes" where
  "group_destination_hash_with_identity X app_name aspects ih =
     destination_hash X (name_hash X app_name aspects) ih"

lemma length_full_hash [simp]: "sha_ok X \<Longrightarrow> length (full_hash X d) = 32"
  by (simp add: full_hash_def)

lemma length_truncated_hash [simp]: "sha_ok X \<Longrightarrow> length (truncated_hash X d) = 16"
  by (simp add: truncated_hash_def)

lemma length_name_hash [simp]: "sha_ok X \<Longrightarrow> length (name_hash X app aspects) = 10"
  by (simp add: name_hash_def)

lemma length_destination_hash [simp]: "sha_ok X \<Longrightarrow> length (destination_hash X nh ih) = 16"
  by (simp add: destination_hash_def)

text \<open>The name that is hashed is the dot-joined list of the application name and the aspects.\<close>

lemma push_aspects_eq: "push_aspects name as = name @ concat (map (\<lambda>a. str ''.'' @ a) as)"
  by (induction as arbitrary: name) simp_all

section \<open>Public identities\<close>

record public_identity =
  enc_pub :: bytes
  sig_pub :: bytes

definition pub_ok :: "public_identity \<Rightarrow> bool" where
  "pub_ok p \<longleftrightarrow> length (enc_pub p) = 32 \<and> length (sig_pub p) = 32"

definition pub_from_bytes :: "bytes \<Rightarrow> core_error + public_identity" where
  "pub_from_bytes b =
     (if length b \<noteq> 64 then Inl Truncated
      else Inr \<lparr>enc_pub = take 32 b, sig_pub = sub 32 64 b\<rparr>)"

definition pub_to_bytes :: "public_identity \<Rightarrow> bytes" where
  "pub_to_bytes p = enc_pub p @ sig_pub p"

definition pub_hash :: "ext \<Rightarrow> public_identity \<Rightarrow> bytes" where
  "pub_hash X p = truncated_hash X (pub_to_bytes p)"

definition pub_verify :: "ext \<Rightarrow> public_identity \<Rightarrow> bytes \<Rightarrow> bytes \<Rightarrow> core_error + unit" where
  "pub_verify X p msg sig =
     (if \<not> x_ed25519_key_ok X (sig_pub p) then Inl InvalidField
      else if x_ed25519_verify X (sig_pub p) msg sig then Inr ()
      else Inl BadSignature)"

lemma length_pub_to_bytes [simp]: "pub_ok p \<Longrightarrow> length (pub_to_bytes p) = 64"
  by (simp add: pub_ok_def pub_to_bytes_def)

lemma length_pub_hash [simp]: "sha_ok X \<Longrightarrow> length (pub_hash X p) = 16"
  by (simp add: pub_hash_def)

lemma pub_roundtrip: "pub_ok p \<Longrightarrow> pub_from_bytes (pub_to_bytes p) = Inr p"
  by (simp add: pub_ok_def pub_from_bytes_def pub_to_bytes_def sub_def)

lemma pub_from_bytes_ok: "pub_from_bytes b = Inr p \<Longrightarrow> pub_ok p \<and> pub_to_bytes p = b"
proof -
  assume a: "pub_from_bytes b = Inr p"
  then have l: "length b = 64" and p: "p = \<lparr>enc_pub = take 32 b, sig_pub = sub 32 64 b\<rparr>"
    by (auto simp: pub_from_bytes_def split: if_splits)
  have "take 32 b @ sub 32 64 b = take 64 b" by (rule take_sub_append) simp
  with l p show ?thesis by (simp add: pub_ok_def pub_to_bytes_def)
qed

lemma pub_from_bytes_error: "pub_from_bytes b = Inl e \<longleftrightarrow> length b \<noteq> 64 \<and> e = Truncated"
  by (auto simp: pub_from_bytes_def)

lemma pub_verify_Inr [simp]:
  "pub_verify X p m s = Inr u \<longleftrightarrow> x_ed25519_key_ok X (sig_pub p) \<and> x_ed25519_verify X (sig_pub p) m s"
  by (auto simp: pub_verify_def)

section \<open>Private identities\<close>

record identity =
  enc_prv :: bytes
  sig_seed :: bytes

definition from_private_bytes :: "bytes \<Rightarrow> bytes \<Rightarrow> identity" where
  "from_private_bytes x25519 ed25519 = \<lparr>enc_prv = x25519, sig_seed = ed25519\<rparr>"

definition id_public :: "ext \<Rightarrow> identity \<Rightarrow> public_identity" where
  "id_public X i = \<lparr>enc_pub = x_x25519_public X (enc_prv i), sig_pub = x_ed25519_public X (sig_seed i)\<rparr>"

definition id_hash :: "ext \<Rightarrow> identity \<Rightarrow> bytes" where
  "id_hash X i = pub_hash X (id_public X i)"

definition id_sign :: "ext \<Rightarrow> identity \<Rightarrow> bytes \<Rightarrow> bytes" where
  "id_sign X i msg = x_ed25519_sign X (sig_seed i) msg"

definition id_diffie_hellman :: "ext \<Rightarrow> identity \<Rightarrow> bytes \<Rightarrow> bytes" where
  "id_diffie_hellman X i peer = x_x25519_dh X (enc_prv i) peer"

lemma id_public_ok [simp]: "x25519_ok X \<Longrightarrow> ed25519_ok X \<Longrightarrow> pub_ok (id_public X i)"
  by (simp add: id_public_def pub_ok_def)

lemma id_public_simps [simp]:
  "enc_pub (id_public X i) = x_x25519_public X (enc_prv i)"
  "sig_pub (id_public X i) = x_ed25519_public X (sig_seed i)"
  by (simp_all add: id_public_def)

lemma length_id_hash [simp]: "sha_ok X \<Longrightarrow> length (id_hash X i) = 16"
  by (simp add: id_hash_def)

lemma length_id_sign [simp]: "ed25519_ok X \<Longrightarrow> length (id_sign X i m) = 64"
  by (simp add: id_sign_def)

lemma verify_own_signature [simp]:
  "ed25519_ok X \<Longrightarrow> pub_verify X (id_public X i) m (id_sign X i m) = Inr ()"
  by (simp add: id_sign_def)

section \<open>Explicit delivery proofs\<close>

definition EXPLICIT_PROOF_LEN :: nat where
  "EXPLICIT_PROOF_LEN = 32 + 64"

definition build_proof :: "ext \<Rightarrow> identity \<Rightarrow> bytes \<Rightarrow> bytes" where
  "build_proof X i packet_hash = packet_hash @ id_sign X i packet_hash"

definition verify_proof :: "ext \<Rightarrow> public_identity \<Rightarrow> bytes \<Rightarrow> core_error + bytes" where
  "verify_proof X dest proof =
     (if length proof < EXPLICIT_PROOF_LEN then Inl Truncated
      else if length proof \<noteq> EXPLICIT_PROOF_LEN then Inl InvalidField
      else rbind (ok_or Truncated (try_array 32 (take 32 proof))) (\<lambda>packet_hash.
           rbind (ok_or Truncated (try_array 64 (drop 32 proof))) (\<lambda>signature.
           rbind (pub_verify X dest packet_hash signature) (\<lambda>_. Inr packet_hash))))"

definition proof_destination_hash :: "bytes \<Rightarrow> bytes" where
  "proof_destination_hash packet_hash = take 16 packet_hash"

lemma length_build_proof:
  "ed25519_ok X \<Longrightarrow> length h = 32 \<Longrightarrow> length (build_proof X i h) = EXPLICIT_PROOF_LEN"
  by (simp add: build_proof_def EXPLICIT_PROOF_LEN_def)

lemma verify_proof_Inr:
  "verify_proof X p proof = Inr h \<longleftrightarrow>
     length proof = 96 \<and> h = take 32 proof \<and> x_ed25519_key_ok X (sig_pub p) \<and>
     x_ed25519_verify X (sig_pub p) h (drop 32 proof)"
  by (auto simp: verify_proof_def EXPLICIT_PROOF_LEN_def rbind_Inr_iff)

lemma verify_proof_errors:
  "verify_proof X p proof = Inl e \<Longrightarrow>
     e = (if length proof < 96 then Truncated else if length proof > 96 then InvalidField
          else if x_ed25519_key_ok X (sig_pub p) then BadSignature else InvalidField)"
  by (auto simp: verify_proof_def EXPLICIT_PROOF_LEN_def rbind_Inl_iff pub_verify_def
      split: if_splits)

lemma verify_build_proof:
  "ed25519_ok X \<Longrightarrow> length h = 32 \<Longrightarrow> verify_proof X (id_public X i) (build_proof X i h) = Inr h"
  by (simp add: verify_proof_Inr build_proof_def id_sign_def)

end
