(* ===== verification/Path_Table.thy ===== *)
theory Path_Table
  imports BTree_Map Identities
begin

text \<open>
  reticulum-node/src/path_table.rs: the routing table. The locale \<open>route_store\<close> is what its callers
  rely on (an offered entry replaces the stored one exactly when it is preferred), and
  \<open>ranked_route_store\<close> adds that preference is a rank, from which the table is shown to hold the
  best entry of any sequence of offers.
\<close>

record path_entry =
  pe_interface :: u16
  pe_next_hop :: "bytes option"
  pe_hops :: u8
  pe_expires_at :: u64
  pe_timestamp :: u64
  pe_public :: public_identity
  pe_ratchet :: "bytes option"

type_synonym path_table = "(bytes, path_entry) btree"

definition path_new :: path_table where
  "path_new = []"

definition path_replaces :: "path_entry \<Rightarrow> path_entry \<Rightarrow> bool" where
  "path_replaces entry current =
     (if pe_hops entry < pe_hops current then True
      else pe_hops entry = pe_hops current \<and> pe_timestamp entry > pe_timestamp current)"

definition path_insert :: "bytes \<Rightarrow> path_entry \<Rightarrow> path_table \<Rightarrow> path_table \<times> bool" where
  "path_insert dh entry t =
     (let replace = (case bt_get dh t of None \<Rightarrow> True | Some current \<Rightarrow> path_replaces entry current)
      in (if replace then bt_insert dh entry t else t, replace))"

definition path_update :: "bytes \<Rightarrow> path_entry \<Rightarrow> u64 \<Rightarrow> path_table \<Rightarrow> path_table \<times> bool" where
  "path_update dh entry now t =
     (let replace = (case bt_get dh t of None \<Rightarrow> True
            | Some current \<Rightarrow> if pe_expires_at current \<le> now then True else path_replaces entry current)
      in (if replace then bt_insert dh entry t else t, replace))"

definition path_prune :: "u64 \<Rightarrow> path_table \<Rightarrow> path_table \<times> nat" where
  "path_prune now t =
     (let t' = bt_retain (\<lambda>_ entry. pe_expires_at entry > now) t in (t', length t - length t'))"

definition path_get :: "bytes \<Rightarrow> path_table \<Rightarrow> path_entry option" where
  "path_get dh t = bt_get dh t"

definition path_len :: "path_table \<Rightarrow> nat" where
  "path_len t = length t"

definition path_is_empty :: "path_table \<Rightarrow> bool" where
  "path_is_empty t = (t = [])"

definition path_snapshot :: "path_table \<Rightarrow> (bytes \<times> path_entry) list" where
  "path_snapshot t = map (\<lambda>(d, e). (d, e)) t"

section \<open>The contract of a route store\<close>

locale route_store =
  fixes offer :: "'k \<Rightarrow> 'e \<Rightarrow> 't \<Rightarrow> 't \<times> bool"
    and look :: "'k \<Rightarrow> 't \<Rightarrow> 'e option"
    and preferred :: "'e \<Rightarrow> 'e \<Rightarrow> bool"
  assumes offer_taken: "snd (offer k e t) \<longleftrightarrow> (case look k t of None \<Rightarrow> True | Some c \<Rightarrow> preferred e c)"
    and look_offer: "look k' (fst (offer k e t)) = (if k' = k \<and> snd (offer k e t) then Some e else look k' t)"
begin

lemma offer_rejected: "\<not> snd (offer k e t) \<Longrightarrow> look k' (fst (offer k e t)) = look k' t"
  by (simp add: look_offer)

lemma offer_known: "\<exists>c. look k (fst (offer k e t)) = Some c"
  using offer_taken [of k e t] by (cases "look k t") (auto simp: look_offer)

definition offers :: "('k \<times> 'e) list \<Rightarrow> 't \<Rightarrow> 't" where
  "offers es t = fold (\<lambda>(k, e) t. fst (offer k e t)) es t"

lemma offers_simps [simp]:
  "offers [] t = t" "offers ((k, e) # es) t = offers es (fst (offer k e t))"
  by (simp_all add: offers_def)

lemma look_offers_subset: "look k (offers es t) = Some c \<Longrightarrow> look k t = Some c \<or> (k, c) \<in> set es"
proof (induction es arbitrary: t)
  case Nil
  then show ?case by simp
next
  case (Cons x es)
  obtain k' e where x: "x = (k', e)" by (cases x)
  then show ?case
    using Cons.IH [of "fst (offer k' e t)"] Cons.prems by (auto simp: look_offer split: if_splits)
qed

end

locale ranked_route_store = route_store +
  fixes rank :: "'b \<Rightarrow> 'r::linorder"
  assumes preferred_rank: "preferred e c \<longleftrightarrow> rank e < rank c"
begin

lemma rank_offer: "look k t = Some c \<Longrightarrow> \<exists>d. look k (fst (offer k' e t)) = Some d \<and> rank d \<le> rank c"
  using offer_taken [of k' e t] by (auto simp: look_offer preferred_rank split: option.splits)

lemma rank_offered: "\<exists>d. look k (fst (offer k e t)) = Some d \<and> rank d \<le> rank e"
  using offer_taken [of k e t] by (cases "look k t") (auto simp: look_offer preferred_rank)

lemma rank_offers: "look k t = Some c \<Longrightarrow> \<exists>d. look k (offers es t) = Some d \<and> rank d \<le> rank c"
proof (induction es arbitrary: t c)
  case Nil
  then show ?case by simp
next
  case (Cons x es)
  obtain k' e where x: "x = (k', e)" by (cases x)
  obtain d where "look k (fst (offer k' e t)) = Some d" "rank d \<le> rank c"
    using rank_offer [OF Cons.prems] by blast
  then show ?case using Cons.IH [of "fst (offer k' e t)" d] by (auto simp: x)
qed

text \<open>The stored entry is at least as good as every entry offered for its key.\<close>

lemma best_offered:
  "(k, e) \<in> set es \<Longrightarrow> \<exists>d. look k (offers es t) = Some d \<and> rank d \<le> rank e"
proof (induction es arbitrary: t)
  case Nil
  then show ?case by simp
next
  case (Cons x es)
  show ?case
  proof (cases "x = (k, e)")
    case True
    obtain d where "look k (fst (offer k e t)) = Some d" "rank d \<le> rank e"
      using rank_offered by blast
    then show ?thesis
      using rank_offers [of k "fst (offer k e t)" d es] True by auto
  next
    case False
    with Cons.prems have "(k, e) \<in> set es" by auto
    then show ?thesis using Cons.IH by (cases x) auto
  qed
qed

end

section \<open>The path table provides it\<close>

text \<open>Fewer hops first, then the newer announce.\<close>

definition path_rank :: "path_entry \<Rightarrow> nat \<times> int" where
  "path_rank e = (unat (pe_hops e), - uint (pe_timestamp e))"

lemma path_replaces_rank: "path_replaces e c \<longleftrightarrow> path_rank e < path_rank c"
proof -
  have "pe_hops e < pe_hops c \<longleftrightarrow> unat (pe_hops e) < unat (pe_hops c)"
    by (rule word_less_nat_alt)
  moreover have "pe_hops e = pe_hops c \<longleftrightarrow> unat (pe_hops e) = unat (pe_hops c)"
    by (rule word_unat_eq_iff)
  moreover have "pe_timestamp c < pe_timestamp e \<longleftrightarrow> uint (pe_timestamp c) < uint (pe_timestamp e)"
    by (rule word_less_def)
  ultimately show ?thesis by (auto simp: path_replaces_def path_rank_def less_prod_def')
qed

interpretation path_ins: ranked_route_store path_insert path_get path_replaces path_rank
  by unfold_locales
    (auto simp: path_insert_def path_get_def Let_def bt_simps path_replaces_rank split: option.splits)

interpretation path_upd: route_store "\<lambda>dh e. path_update dh e now" path_get
    "\<lambda>e c. pe_expires_at c \<le> now \<or> path_replaces e c" for now
  by unfold_locales
    (auto simp: path_update_def path_get_def Let_def bt_simps split: option.splits)

lemma path_insert_ok: "bt_ok t \<Longrightarrow> bt_ok (fst (path_insert dh e t))"
  by (simp add: path_insert_def Let_def bt_oks)

lemma path_update_ok: "bt_ok t \<Longrightarrow> bt_ok (fst (path_update dh e now t))"
  by (simp add: path_update_def Let_def bt_oks)

lemma path_prune_ok: "bt_ok t \<Longrightarrow> bt_ok (fst (path_prune now t))"
  by (simp add: path_prune_def Let_def bt_oks)

lemma path_get_prune:
  "bt_ok t \<Longrightarrow> path_get dh (fst (path_prune now t)) =
     (case path_get dh t of None \<Rightarrow> None | Some e \<Rightarrow> if pe_expires_at e > now then Some e else None)"
  by (simp add: path_get_def path_prune_def Let_def bt.get_retain)

lemma path_get_prune_Some:
  "bt_ok t \<Longrightarrow> path_get dh (fst (path_prune now t)) = Some e \<longleftrightarrow>
     path_get dh t = Some e \<and> pe_expires_at e > now"
  by (auto simp: path_get_prune split: option.splits if_splits)

lemma path_prune_set: "set (fst (path_prune now t)) \<subseteq> set t"
  by (auto simp: path_prune_def bt_retain_def Let_def)

text \<open>The count returned is the number of routes dropped, and a second sweep drops nothing.\<close>

lemma path_prune_count: "snd (path_prune now t) = length (filter (\<lambda>(_, e). \<not> pe_expires_at e > now) t)"
proof -
  have "length t = length (filter (\<lambda>(_, e). pe_expires_at e > now) t)
      + length (filter (\<lambda>x. \<not> (case x of (_, e) \<Rightarrow> pe_expires_at e > now)) t)"
    by (rule sum_length_filter_compl [symmetric])
  then show ?thesis
    by (simp add: path_prune_def bt_retain_def Let_def case_prod_unfold)
qed

lemma path_prune_idem: "path_prune now (fst (path_prune now t)) = (fst (path_prune now t), 0)"
  by (simp add: path_prune_def bt_retain_def Let_def)

end
