(* ===== verification/Packets.thy ===== *)
theory Packets
  imports Identities
begin

text \<open>
  reticulum-core/src/packet.rs: the packet record, its constructors, its wire form and the hash that
  identifies it. Constants keep their names; their values are those of the source.
\<close>

section \<open>Constants\<close>

definition DATA :: u8 where "DATA = 0x00"
definition ANNOUNCE :: u8 where "ANNOUNCE = 0x01"
definition LINKREQUEST :: u8 where "LINKREQUEST = 0x02"
definition PROOF :: u8 where "PROOF = 0x03"
definition SINGLE :: u8 where "SINGLE = 0x00"
definition GROUP :: u8 where "GROUP = 0x01"
definition PLAIN :: u8 where "PLAIN = 0x02"
definition LINK :: u8 where "LINK = 0x03"
definition HEADER_1 :: u8 where "HEADER_1 = 0"
definition HEADER_2 :: u8 where "HEADER_2 = 1"
definition BROADCAST :: u8 where "BROADCAST = 0"
definition TRANSPORT :: u8 where "TRANSPORT = 1"
definition PATH_RESPONSE :: u8 where "PATH_RESPONSE = 0x0B"
definition RESOURCE :: u8 where "RESOURCE = 0x01"
definition RESOURCE_ADV :: u8 where "RESOURCE_ADV = 0x02"
definition RESOURCE_REQ :: u8 where "RESOURCE_REQ = 0x03"
definition RESOURCE_HMU :: u8 where "RESOURCE_HMU = 0x04"
definition RESOURCE_PRF :: u8 where "RESOURCE_PRF = 0x05"
definition RESOURCE_ICL :: u8 where "RESOURCE_ICL = 0x06"
definition RESOURCE_RCL :: u8 where "RESOURCE_RCL = 0x07"
definition KEEPALIVE :: u8 where "KEEPALIVE = 0xFA"
definition LINKCLOSE :: u8 where "LINKCLOSE = 0xFC"
definition LRRTT :: u8 where "LRRTT = 0xFE"
definition LRPROOF :: u8 where "LRPROOF = 0xFF"

lemmas packet_types = DATA_def ANNOUNCE_def LINKREQUEST_def PROOF_def
lemmas dest_types = SINGLE_def GROUP_def PLAIN_def LINK_def
lemmas header_consts = HEADER_1_def HEADER_2_def BROADCAST_def TRANSPORT_def
lemmas contexts = PATH_RESPONSE_def RESOURCE_def RESOURCE_ADV_def RESOURCE_REQ_def RESOURCE_HMU_def
  RESOURCE_PRF_def RESOURCE_ICL_def RESOURCE_RCL_def KEEPALIVE_def LINKCLOSE_def LRRTT_def LRPROOF_def
lemmas packet_consts = packet_types dest_types header_consts contexts

section \<open>Packets and their constructors\<close>

record packet =
  header_type :: u8
  packet_type :: u8
  dest_type :: u8
  propagation :: u8
  context_flag :: bool
  ifac_flag :: bool
  hops :: u8
  transport_id :: "bytes option"
  dest_hash :: bytes
  ctx :: u8
  data :: bytes

definition new_header1 :: "u8 \<Rightarrow> u8 \<Rightarrow> bytes \<Rightarrow> u8 \<Rightarrow> bytes \<Rightarrow> packet" where
  "new_header1 dt pt dh c d = \<lparr>header_type = HEADER_1, packet_type = pt, dest_type = dt,
     propagation = BROADCAST, context_flag = False, ifac_flag = False, hops = 0,
     transport_id = None, dest_hash = dh, ctx = c, data = d\<rparr>"

definition packet_announce :: "bytes \<Rightarrow> bytes \<Rightarrow> packet" where
  "packet_announce dh payload = \<lparr>header_type = HEADER_1, packet_type = ANNOUNCE, dest_type = SINGLE,
     propagation = 0, context_flag = False, ifac_flag = False, hops = 0,
     transport_id = None, dest_hash = dh, ctx = 0, data = payload\<rparr>"

definition data_for :: "u8 \<Rightarrow> bytes \<Rightarrow> bytes \<Rightarrow> packet" where
  "data_for dt dh d = new_header1 dt DATA dh 0 d"

definition data_single :: "bytes \<Rightarrow> bytes \<Rightarrow> packet" where
  "data_single dh ciphertext = data_for SINGLE dh ciphertext"

definition explicit_proof :: "bytes \<Rightarrow> bytes \<Rightarrow> packet" where
  "explicit_proof dh proof_data = new_header1 SINGLE PROOF dh 0 proof_data"

definition path_request_destination_hash :: "ext \<Rightarrow> bytes" where
  "path_request_destination_hash X =
     truncated_hash X (name_hash X (str ''rnstransport'') [str ''path'', str ''request''])"

definition path_request :: "ext \<Rightarrow> bytes \<Rightarrow> bytes option \<Rightarrow> bytes \<Rightarrow> packet" where
  "path_request X target requester tag = \<lparr>header_type = HEADER_1, packet_type = DATA,
     dest_type = PLAIN, propagation = BROADCAST, context_flag = False, ifac_flag = False, hops = 0,
     transport_id = None, dest_hash = path_request_destination_hash X, ctx = 0,
     data = target @ (case requester of Some r \<Rightarrow> r | None \<Rightarrow> []) @ tag\<rparr>"

definition link_request :: "bytes \<Rightarrow> bytes \<Rightarrow> packet" where
  "link_request dh payload = new_header1 SINGLE LINKREQUEST dh 0 payload"

definition packet_proof :: "bytes \<Rightarrow> bytes \<Rightarrow> u8 \<Rightarrow> packet" where
  "packet_proof link_id proof_data c = new_header1 LINK PROOF link_id c proof_data"

definition link_data_with_context :: "bytes \<Rightarrow> bytes \<Rightarrow> u8 \<Rightarrow> packet" where
  "link_data_with_context link_id ciphertext c = new_header1 LINK DATA link_id c ciphertext"

definition link_data :: "bytes \<Rightarrow> bytes \<Rightarrow> packet" where
  "link_data link_id ciphertext = link_data_with_context link_id ciphertext 0"

definition link_context :: "bytes \<Rightarrow> u8 \<Rightarrow> bytes \<Rightarrow> packet" where
  "link_context link_id c payload = link_data_with_context link_id payload c"

lemmas packet_ctors = new_header1_def packet_announce_def data_for_def data_single_def
  explicit_proof_def path_request_def link_request_def packet_proof_def
  link_data_with_context_def link_data_def link_context_def

section \<open>Hashing\<close>

text \<open>The masks \<open>x & 0x1\<close> and \<open>x & 0x3\<close>.\<close>

definition low1 :: "u8 \<Rightarrow> u8" where
  "low1 x = x AND 0x1"

definition low2 :: "u8 \<Rightarrow> u8" where
  "low2 x = x AND 0x3"

definition hashable_part :: "packet \<Rightarrow> bytes" where
  "hashable_part p =
     (push_bit 2 (low2 (dest_type p)) OR low2 (packet_type p)) # dest_hash p @ [ctx p] @ data p"

definition full_packet_hash :: "ext \<Rightarrow> packet \<Rightarrow> bytes" where
  "full_packet_hash X p = full_hash X (hashable_part p)"

definition packet_hash :: "ext \<Rightarrow> packet \<Rightarrow> bytes" where
  "packet_hash X p = take 16 (full_packet_hash X p)"

section \<open>Wire form\<close>

definition packet_decode :: "bytes \<Rightarrow> core_error + packet" where
  "packet_decode bs =
     (if length bs < 2 then Inl Truncated
      else let flags = bs ! 0;
               ifac = (low1 (drop_bit 7 flags) = 1);
               ht = low1 (drop_bit 6 flags);
               cf = (low1 (drop_bit 5 flags) = 1);
               pr = low1 (drop_bit 4 flags);
               dt = low2 (drop_bit 2 flags);
               pt = low2 flags;
               hp = bs ! 1;
               addr_bytes = (if ht = HEADER_1 then 16 else 32)
        in if length bs < 2 + addr_bytes + 1 then Inl Truncated
           else rbind (if ht = HEADER_2
                  then rbind (ok_or Truncated (try_array 16 (sub 2 18 bs))) (\<lambda>t. Inr (Some t))
                  else Inr None) (\<lambda>tid.
             let dh = (if ht = HEADER_2 then sub 18 34 bs else sub 2 18 bs);
                 idx = 2 + addr_bytes
             in Inr \<lparr>header_type = ht, packet_type = pt, dest_type = dt, propagation = pr,
                  context_flag = cf, ifac_flag = ifac, hops = hp, transport_id = tid,
                  dest_hash = dh, ctx = bs ! idx, data = drop (idx + 1) bs\<rparr>))"

definition flags_byte :: "packet \<Rightarrow> u8" where
  "flags_byte p =
     push_bit 7 (of_bool (ifac_flag p)) OR push_bit 6 (low1 (header_type p))
     OR push_bit 5 (of_bool (context_flag p)) OR push_bit 4 (low1 (propagation p))
     OR push_bit 2 (low2 (dest_type p)) OR low2 (packet_type p)"

definition packet_encode :: "packet \<Rightarrow> bytes" where
  "packet_encode p =
     flags_byte p # hops p #
     (if header_type p = HEADER_2 then (case transport_id p of Some t \<Rightarrow> t | None \<Rightarrow> []) else [])
     @ dest_hash p @ [ctx p] @ data p"

text \<open>The packets the wire can carry: fields within their bits, addresses of 16 bytes, and a
  transport identity exactly in HEADER_2 packets.\<close>

definition packet_ok :: "packet \<Rightarrow> bool" where
  "packet_ok p \<longleftrightarrow> header_type p \<le> 1 \<and> packet_type p \<le> 3 \<and> dest_type p \<le> 3 \<and>
     propagation p \<le> 1 \<and> length (dest_hash p) = 16 \<and>
     (if header_type p = HEADER_2 then \<exists>t. transport_id p = Some t \<and> length t = 16
      else transport_id p = None)"

section \<open>The flags byte packs and unpacks its fields\<close>

lemma three_mask: "(3 :: u8) = mask 2"
  by (simp add: mask_eq_exp_minus_1)

lemma low2_id: "x \<le> 3 \<Longrightarrow> low2 x = x"
proof -
  assume "x \<le> 3"
  then have "unat x < 2 ^ 2" by (simp add: word_le_nat_alt)
  then have "take_bit 2 (unat x) = unat x" by (rule take_bit_nat_eq_self)
  then have "take_bit 2 x = x" by (simp only: word_unat_eq_iff unsigned_take_bit_eq)
  then show ?thesis by (simp only: low2_def three_mask take_bit_eq_mask)
qed

lemma low1_id: "x \<le> 1 \<Longrightarrow> low1 x = x"
proof -
  assume "x \<le> 1"
  then have "unat x < 2 ^ 1" by (simp add: word_le_nat_alt)
  then have "take_bit 1 (unat x) = unat x" by (rule take_bit_nat_eq_self)
  then have "take_bit 1 x = x" by (simp only: word_unat_eq_iff unsigned_take_bit_eq)
  moreover have "take_bit 1 x = x AND 1" by (simp add: take_bit_eq_mask mask_eq_exp_minus_1)
  ultimately show ?thesis by (simp add: low1_def)
qed

lemma low1_le [simp]: "low1 x \<le> 1"
  unfolding low1_def by (rule word_and_le1)

lemma low2_le [simp]: "low2 x \<le> 3"
  unfolding low2_def by (rule word_and_le1)

lemma low1_cases: "low1 x = 0 \<or> low1 x = 1"
proof -
  have "unat (low1 x) \<le> unat (1 :: u8)" using low1_le [of x] by (simp only: word_le_nat_alt)
  then have "unat (low1 x) = 0 \<or> unat (low1 x) = 1" by auto
  then show ?thesis by (auto simp: word_unat_eq_iff)
qed

lemma flags_unpack:
  "low1 (drop_bit 7 (flags_byte p)) = of_bool (ifac_flag p)"
  "low1 (drop_bit 6 (flags_byte p)) = low1 (header_type p)"
  "low1 (drop_bit 5 (flags_byte p)) = of_bool (context_flag p)"
  "low1 (drop_bit 4 (flags_byte p)) = low1 (propagation p)"
  "low2 (drop_bit 2 (flags_byte p)) = low2 (dest_type p)"
  "low2 (flags_byte p) = low2 (packet_type p)"
  unfolding flags_byte_def low1_def low2_def three_mask
  by (rule bit_word_eqI, (auto simp: bit_simps)[1])+

lemma flags_repack:
  "push_bit 7 (of_bool (low1 (drop_bit 7 x) = 1)) OR push_bit 6 (low1 (low1 (drop_bit 6 x)))
     OR push_bit 5 (of_bool (low1 (drop_bit 5 x) = 1)) OR push_bit 4 (low1 (low1 (drop_bit 4 x)))
     OR push_bit 2 (low2 (low2 (drop_bit 2 x))) OR low2 (low2 x) = x"
  (is "?l = x")
proof (rule bit_word_eqI)
  fix n assume "n < LENGTH(8)"
  then consider "n = 0" | "n = 1" | "n = 2" | "n = 3" | "n = 4" | "n = 5" | "n = 6" | "n = 7"
    by fastforce
  then show "bit ?l n = bit x n"
    unfolding low1_def low2_def three_mask
    by cases (simp_all add: bit_simps bit_iff_and_drop_bit_eq_1 [symmetric])
qed

section \<open>Encoding and decoding are inverse\<close>

lemma packet_decode_encode:
  assumes "packet_ok p"
  shows "packet_decode (packet_encode p) = Inr p"
proof (cases "header_type p = HEADER_2")
  case True
  then obtain t where t: "transport_id p = Some t" "length t = 16"
    using assms by (auto simp: packet_ok_def)
  have "packet_encode p = [flags_byte p, hops p] @ t @ dest_hash p @ [ctx p] @ data p"
    by (simp add: packet_encode_def True t)
  then show ?thesis using assms t True
    by (simp add: packet_decode_def packet_ok_def flags_unpack low1_id low2_id Let_def header_consts
        sub_def nth_append)
next
  case False
  with assms have h: "header_type p = 0"
    by (auto simp: packet_ok_def header_consts dest: low1_id) (metis low1_cases low1_id)
  have "packet_encode p = [flags_byte p, hops p] @ dest_hash p @ [ctx p] @ data p"
    using False by (simp add: packet_encode_def)
  then show ?thesis using assms h
    by (simp add: packet_decode_def packet_ok_def flags_unpack low1_id low2_id Let_def header_consts
        sub_def nth_append)
qed

lemma packet_decode_ok: "packet_decode bs = Inr p \<Longrightarrow> packet_ok p"
  by (auto simp: packet_decode_def packet_ok_def Let_def rbind_Inr_iff header_consts
      split: if_splits)

lemma packet_decode_bytes:
  assumes "packet_decode bs = Inr p"
  shows "packet_encode p = bs"
proof -
  from assms obtain f h r where bs: "bs = f # h # r"
    by (cases bs; cases "tl bs") (auto simp: packet_decode_def)
  show ?thesis
  proof (cases "low1 (drop_bit 6 f) = 1")
    case True
    with assms have len: "33 \<le> length r" and p: "p = \<lparr>header_type = low1 (drop_bit 6 f),
        packet_type = low2 f, dest_type = low2 (drop_bit 2 f), propagation = low1 (drop_bit 4 f),
        context_flag = (low1 (drop_bit 5 f) = 1), ifac_flag = (low1 (drop_bit 7 f) = 1), hops = h,
        transport_id = Some (take 16 r), dest_hash = sub 16 32 r, ctx = r ! 32, data = drop 33 r\<rparr>"
      by (auto simp: packet_decode_def bs Let_def header_consts rbind_Inr_iff sub_def
          split: if_splits)
    have fb: "flags_byte p = f"
      by (simp only: p flags_byte_def packet.select_convs flags_repack)
    have "take 16 r @ sub 16 32 r @ r ! 32 # drop 33 r = take 32 r @ r ! 32 # drop 33 r"
      using take_sub_append [of 16 32 r] by (simp add: append_assoc [symmetric] del: append_assoc)
    also have "\<dots> = r" using len id_take_nth_drop [of 32 r] by simp
    finally show ?thesis using True fb
      by (simp add: packet_encode_def) (simp add: p header_consts bs)
  next
    case False
    with assms have len: "17 \<le> length r" and p: "p = \<lparr>header_type = low1 (drop_bit 6 f),
        packet_type = low2 f, dest_type = low2 (drop_bit 2 f), propagation = low1 (drop_bit 4 f),
        context_flag = (low1 (drop_bit 5 f) = 1), ifac_flag = (low1 (drop_bit 7 f) = 1), hops = h,
        transport_id = None, dest_hash = take 16 r, ctx = r ! 16, data = drop 17 r\<rparr>"
      using low1_cases [of "drop_bit 6 f"]
      by (auto simp: packet_decode_def bs Let_def header_consts rbind_Inr_iff sub_def
          split: if_splits)
    have fb: "flags_byte p = f"
      by (simp only: p flags_byte_def packet.select_convs flags_repack)
    have "take 16 r @ r ! 16 # drop 17 r = r" using len id_take_nth_drop [of 16 r] by simp
    then show ?thesis using False fb
      by (simp add: packet_encode_def) (simp add: p header_consts bs)
  qed
qed

text \<open>The errors: only \<open>Truncated\<close>, exactly for inputs shorter than their header.\<close>

lemma packet_decode_error:
  "packet_decode bs = Inl e \<longleftrightarrow> e = Truncated \<and>
     (length bs < 2 \<or> length bs < (if low1 (drop_bit 6 (bs ! 0)) = 0 then 19 else 35))"
  by (auto simp: packet_decode_def Let_def rbind_Inl_iff header_consts)

section \<open>What the packet hash identifies\<close>

text \<open>Hop count, transport identity, header type, propagation and the flag bits do not enter.\<close>

lemma hashable_routing_indep [simp]:
  "hashable_part (p\<lparr>hops := h\<rparr>) = hashable_part p"
  "hashable_part (p\<lparr>transport_id := t\<rparr>) = hashable_part p"
  "hashable_part (p\<lparr>header_type := u\<rparr>) = hashable_part p"
  "hashable_part (p\<lparr>propagation := u\<rparr>) = hashable_part p"
  "hashable_part (p\<lparr>ifac_flag := b\<rparr>) = hashable_part p"
  "hashable_part (p\<lparr>context_flag := b\<rparr>) = hashable_part p"
  by (simp_all add: hashable_part_def)

lemma packet_hash_routing_indep [simp]:
  "packet_hash X (p\<lparr>hops := h\<rparr>) = packet_hash X p"
  "packet_hash X (p\<lparr>transport_id := t\<rparr>) = packet_hash X p"
  "packet_hash X (p\<lparr>header_type := u\<rparr>) = packet_hash X p"
  "packet_hash X (p\<lparr>propagation := u\<rparr>) = packet_hash X p"
  by (simp_all add: packet_hash_def full_packet_hash_def)

lemma length_full_packet_hash [simp]: "sha_ok X \<Longrightarrow> length (full_packet_hash X p) = 32"
  by (simp add: full_packet_hash_def)

lemma length_packet_hash [simp]: "sha_ok X \<Longrightarrow> length (packet_hash X p) = 16"
  by (simp add: packet_hash_def)

end
