(* ===== verification/Token.thy ===== *)
theory Token
  imports Identities
begin

text \<open>
  reticulum-core/src/token.rs: the authenticated encryption behind \<open>Identity.encrypt\<close> and the Link
  and GROUP keys. A token is \<open>iv || ciphertext || HMAC(iv || ciphertext)\<close>; \<open>encrypt\<close> prepends the
  ephemeral public key. The locale \<open>sealed_channel\<close> is what the node relies on: a message sealed
  under a key opens under the same key, and nothing opens that was not authenticated by it.
\<close>

section \<open>The operations\<close>

definition derive_keys :: "ext \<Rightarrow> bytes \<Rightarrow> bytes \<Rightarrow> bytes \<times> bytes" where
  "derive_keys X shared salt =
     (let okm = (case x_hkdf X salt shared 64 of Some k \<Rightarrow> k | None \<Rightarrow> replicate 64 0)
      in (take 32 okm, drop 32 okm))"

definition seal_parts :: "ext \<Rightarrow> bytes \<Rightarrow> bytes \<Rightarrow> bytes \<Rightarrow> bytes \<Rightarrow> bytes" where
  "seal_parts X hmac_key aes_key plaintext iv =
     (let ciphertext = x_aes_encrypt X aes_key iv plaintext;
          signed_parts = iv @ ciphertext
      in case x_hmac X hmac_key of
           None \<Rightarrow> []
         | Some mac \<Rightarrow> signed_parts @ mac signed_parts)"

definition open_parts :: "ext \<Rightarrow> bytes \<Rightarrow> bytes \<Rightarrow> bytes \<Rightarrow> core_error + bytes" where
  "open_parts X hmac_key aes_key token =
     (if length token < 16 + 16 + 32 then Inl Truncated
      else let signed_parts = take (length token - 32) token;
               tag = drop (length token - 32) token
        in case x_hmac X hmac_key of
             None \<Rightarrow> Inl InvalidField
           | Some mac \<Rightarrow>
               if mac signed_parts \<noteq> tag then Inl DecryptFailed
               else let iv = take 16 signed_parts; ciphertext = drop 16 signed_parts
                 in ok_or DecryptFailed (x_aes_decrypt X aes_key iv ciphertext))"

definition seal_with_key :: "ext \<Rightarrow> bytes \<Rightarrow> bytes \<Rightarrow> bytes \<Rightarrow> bytes" where
  "seal_with_key X derived_key plaintext iv =
     seal_parts X (take 32 derived_key) (drop 32 derived_key) plaintext iv"

definition open_with_key :: "ext \<Rightarrow> bytes \<Rightarrow> bytes \<Rightarrow> core_error + bytes" where
  "open_with_key X derived_key token =
     open_parts X (take 32 derived_key) (drop 32 derived_key) token"

definition token_encrypt :: "ext \<Rightarrow> public_identity \<Rightarrow> bytes \<Rightarrow> bytes \<Rightarrow> bytes \<Rightarrow> bytes" where
  "token_encrypt X recipient plaintext ephemeral iv =
     (let eph_pub = x_x25519_public X ephemeral;
          shared = x_x25519_dh X ephemeral (enc_pub recipient);
          salt = pub_hash X recipient;
          (hmac_key, aes_key) = derive_keys X shared salt
      in eph_pub @ seal_parts X hmac_key aes_key plaintext iv)"

definition token_decrypt :: "ext \<Rightarrow> identity \<Rightarrow> bytes \<Rightarrow> core_error + bytes" where
  "token_decrypt X recipient token =
     (if length token < 32 + 16 + 16 + 32 then Inl Truncated
      else rbind (ok_or Truncated (try_array 32 (take 32 token))) (\<lambda>eph_pub.
        let salt = pub_hash X (id_public X recipient);
            shared = id_diffie_hellman X recipient eph_pub;
            (hmac_key, aes_key) = derive_keys X shared salt
        in open_parts X hmac_key aes_key (drop 32 token)))"

section \<open>Layout and lengths\<close>

lemma seal_parts_Some:
  "x_hmac X hk = Some mac \<Longrightarrow> seal_parts X hk ak p iv =
     (iv @ x_aes_encrypt X ak iv p) @ mac (iv @ x_aes_encrypt X ak iv p)"
  by (simp add: seal_parts_def Let_def)

text \<open>A sealed message is its plaintext padded to the block, an iv and a tag.\<close>

lemma length_seal_with_key:
  assumes "cipher_ok X" and "length iv = 16"
  shows "length (seal_with_key X k p iv) = 16 * (length p div 16) + 64"
proof -
  obtain mac where "x_hmac X (take 32 k) = Some mac" and "\<And>m. length (mac m) = 32"
    using assms hmac_Some [of X "take 32 k"] by (auto simp: cipher_ok_def)
  then show ?thesis using assms by (simp add: seal_with_key_def seal_parts_Some cipher_ok_def)
qed

section \<open>Opening what was sealed\<close>

lemma open_seal_parts:
  assumes "cipher_ok X" and "length iv = 16"
  shows "open_parts X hk ak (seal_parts X hk ak p iv) = Inr p"
proof -
  obtain mac where mac: "x_hmac X hk = Some mac" and len: "\<And>m. length (mac m) = 32"
    using assms hmac_Some [of X hk] by (auto simp: cipher_ok_def)
  have aes: "aes_ok X" using assms by (simp add: cipher_ok_def)
  let ?c = "x_aes_encrypt X ak iv p"
  have "16 \<le> length ?c" using aes by simp
  then show ?thesis
    using mac len aes assms(2) by (simp add: open_parts_def seal_parts_Some Let_def)
qed

text \<open>What opens carries a tag that the key's HMAC computes over everything before it.\<close>

lemma open_parts_authentic:
  assumes "open_parts X hk ak token = Inr p"
  obtains mac where "x_hmac X hk = Some mac"
    and "drop (length token - 32) token = mac (take (length token - 32) token)"
    and "64 \<le> length token"
  using assms by (auto simp: open_parts_def Let_def split: if_splits option.splits)

lemma open_parts_tampered:
  assumes "x_hmac X hk = Some mac" and "64 \<le> length token"
    and "mac (take (length token - 32) token) \<noteq> drop (length token - 32) token"
  shows "open_parts X hk ak token = Inl DecryptFailed"
  using assms by (simp add: open_parts_def Let_def)

lemma open_parts_short: "length token < 64 \<Longrightarrow> open_parts X hk ak token = Inl Truncated"
  by (simp add: open_parts_def)

section \<open>The contract of a sealed channel\<close>

locale sealed_channel =
  fixes seal :: "'k \<Rightarrow> bytes \<Rightarrow> bytes \<Rightarrow> bytes"
    and opens :: "'k \<Rightarrow> bytes \<Rightarrow> core_error + bytes"
    and tag_ok :: "'k \<Rightarrow> bytes \<Rightarrow> bool"
    and usable :: "'k \<Rightarrow> bool"
    and nonce_ok :: "bytes \<Rightarrow> bool"
  assumes open_seal: "usable k \<Longrightarrow> nonce_ok iv \<Longrightarrow> opens k (seal k p iv) = Inr p"
    and open_tag: "opens k t = Inr p \<Longrightarrow> tag_ok k t"
begin

lemma seal_tag: "usable k \<Longrightarrow> nonce_ok iv \<Longrightarrow> tag_ok k (seal k p iv)"
  using open_seal open_tag by blast

lemma seal_inj: "usable k \<Longrightarrow> nonce_ok iv \<Longrightarrow> nonce_ok iv' \<Longrightarrow> seal k p iv = seal k p' iv' \<Longrightarrow> p = p'"
  using open_seal [of k iv p] open_seal [of k iv' p'] by simp

lemma unauthentic_rejected: "\<not> tag_ok k t \<Longrightarrow> \<exists>e. opens k t = Inl e"
  by (metis open_tag sumE)

end

text \<open>The link and GROUP channel: a 64-byte key whose first half authenticates.\<close>

definition hmac_tag_ok :: "ext \<Rightarrow> bytes \<Rightarrow> bytes \<Rightarrow> bool" where
  "hmac_tag_ok X hmac_key token =
     (64 \<le> length token \<and>
      (case x_hmac X hmac_key of None \<Rightarrow> False
       | Some mac \<Rightarrow> mac (take (length token - 32) token) = drop (length token - 32) token))"

interpretation link_channel: sealed_channel
  "\<lambda>(X, k). seal_with_key X k" "\<lambda>(X, k). open_with_key X k"
  "\<lambda>(X, k). hmac_tag_ok X (take 32 k)" "\<lambda>(X, k). cipher_ok X" "\<lambda>iv. length iv = 16"
proof unfold_locales
  fix k :: "ext \<times> bytes" and iv p :: bytes
  assume "(case k of (X, k) \<Rightarrow> cipher_ok X)" and "length iv = 16"
  then show "(case k of (X, k) \<Rightarrow> open_with_key X k) ((case k of (X, k) \<Rightarrow> seal_with_key X k) p iv) = Inr p"
    by (cases k) (simp add: open_with_key_def seal_with_key_def open_seal_parts)
next
  fix k :: "ext \<times> bytes" and t p :: bytes
  assume "(case k of (X, k) \<Rightarrow> open_with_key X k) t = Inr p"
  then show "(case k of (X, k) \<Rightarrow> hmac_tag_ok X (take 32 k)) t"
    by (cases k) (auto simp: open_with_key_def hmac_tag_ok_def elim: open_parts_authentic)
qed

lemma open_seal_with_key [simp]:
  "cipher_ok X \<Longrightarrow> length iv = 16 \<Longrightarrow> open_with_key X k (seal_with_key X k p iv) = Inr p"
  using link_channel.open_seal [of "(X, k)"] by simp

lemma open_with_key_tag: "open_with_key X k t = Inr p \<Longrightarrow> hmac_tag_ok X (take 32 k) t"
  using link_channel.open_tag [of "(X, k)"] by simp

section \<open>Tokens addressed to an identity\<close>

lemma token_decrypt_encrypt:
  assumes X: "crypto_ok X" and iv: "length iv = 16"
  shows "token_decrypt X i (token_encrypt X (id_public X i) p eph iv) = Inr p"
proof -
  note ok = crypto_okD [OF X]
  let ?salt = "pub_hash X (id_public X i)"
  let ?shared = "x_x25519_dh X eph (x_x25519_public X (enc_prv i))"
  obtain hk ak where keys: "derive_keys X ?shared ?salt = (hk, ak)" by (cases "derive_keys X ?shared ?salt")
  obtain mac where mac: "x_hmac X hk = Some mac" and len: "\<And>m. length (mac m) = 32"
    using hmac_Some [OF ok(6)] by blast
  have shared: "id_diffie_hellman X i (x_x25519_public X eph) = ?shared"
    unfolding id_diffie_hellman_def using x25519_agree [OF ok(2)] .
  have enc: "token_encrypt X (id_public X i) p eph iv =
      x_x25519_public X eph @ seal_parts X hk ak p iv"
    by (simp add: token_encrypt_def Let_def keys)
  have "64 \<le> length (seal_parts X hk ak p iv)"
    using mac len ok iv by (simp add: seal_parts_Some)
  then show ?thesis
    unfolding enc token_decrypt_def using ok iv
    by (simp add: Let_def shared keys open_seal_parts)
qed

lemma token_decrypt_short: "length t < 96 \<Longrightarrow> token_decrypt X i t = Inl Truncated"
  by (simp add: token_decrypt_def)

lemma token_decrypt_authentic:
  assumes "token_decrypt X i t = Inr p"
  shows "hmac_tag_ok X (fst (derive_keys X (id_diffie_hellman X i (take 32 t)) (id_hash X i))) (drop 32 t)"
  using assms
  by (auto simp: token_decrypt_def rbind_Inr_iff Let_def id_hash_def hmac_tag_ok_def
      split: if_splits prod.splits elim!: open_parts_authentic)

lemma derive_keys_lengths:
  assumes "hkdf_ok X"
  shows "length (fst (derive_keys X s salt)) = 32" "length (snd (derive_keys X s salt)) = 32"
proof -
  obtain k where "x_hkdf X salt s 64 = Some k" "length k = 64"
    using hkdf_Some [OF assms, of 64 salt s] by auto
  then show "length (fst (derive_keys X s salt)) = 32" "length (snd (derive_keys X s salt)) = 32"
    by (simp_all add: derive_keys_def Let_def)
qed

end
