(* ===== verification/Links.thy ===== *)
theory Links
  imports Packets Token
begin

text \<open>
  reticulum-core/src/link.rs: the key exchange behind a Link. Requests carry two ephemeral public
  keys, the link id is a hash of the request, proofs carry the responder's ephemeral key signed by
  the destination's identity.
\<close>

definition LINK_REQUEST_LEN :: nat where "LINK_REQUEST_LEN = 64"
definition LINK_SIGNALLING_LEN :: nat where "LINK_SIGNALLING_LEN = 3"

record link_ephemeral =
  x25519_prv :: bytes
  x25519_pub :: bytes
  ed25519_prv :: bytes
  ed25519_pub :: bytes

definition ephemeral_from_private_bytes :: "ext \<Rightarrow> bytes \<Rightarrow> bytes \<Rightarrow> link_ephemeral" where
  "ephemeral_from_private_bytes X xprv eprv = \<lparr>x25519_prv = xprv, x25519_pub = x_x25519_public X xprv,
     ed25519_prv = eprv, ed25519_pub = x_ed25519_public X eprv\<rparr>"

definition link_request_payload :: "link_ephemeral \<Rightarrow> bytes" where
  "link_request_payload e = x25519_pub e @ ed25519_pub e"

definition parse_link_request :: "bytes \<Rightarrow> core_error + (bytes \<times> bytes)" where
  "parse_link_request d =
     (if length d \<noteq> LINK_REQUEST_LEN \<and> length d \<noteq> LINK_REQUEST_LEN + LINK_SIGNALLING_LEN
      then Inl InvalidField
      else rbind (ok_or Truncated (try_array 32 (take 32 d))) (\<lambda>x.
           rbind (ok_or Truncated (try_array 32 (sub 32 64 d))) (\<lambda>e. Inr (x, e))))"

definition link_id_from_request :: "ext \<Rightarrow> packet \<Rightarrow> bytes" where
  "link_id_from_request X p =
     (let hashable = hashable_part p;
          hashable = (if length (data p) > LINK_REQUEST_LEN
                      then take (length hashable - (length (data p) - LINK_REQUEST_LEN)) hashable
                      else hashable)
      in truncated_hash X hashable)"

definition derive_link_key :: "ext \<Rightarrow> bytes \<Rightarrow> bytes \<Rightarrow> bytes \<Rightarrow> bytes" where
  "derive_link_key X own_prv peer_pub link_id =
     (case x_hkdf X link_id (x_x25519_dh X own_prv peer_pub) 64 of
        Some k \<Rightarrow> k | None \<Rightarrow> replicate 64 0)"

definition build_link_proof :: "ext \<Rightarrow> identity \<Rightarrow> bytes \<Rightarrow> link_ephemeral \<Rightarrow> bytes" where
  "build_link_proof X i link_id eph =
     (let signed = link_id @ x25519_pub eph @ sig_pub (id_public X i);
          signature = id_sign X i signed
      in signature @ x25519_pub eph)"

definition verify_link_proof ::
    "ext \<Rightarrow> public_identity \<Rightarrow> bytes \<Rightarrow> bytes \<Rightarrow> core_error + bytes" where
  "verify_link_proof X dest link_id proof_data =
     (if length proof_data < 96 then Inl Truncated
      else if length proof_data \<noteq> 96 \<and> length proof_data \<noteq> 96 + LINK_SIGNALLING_LEN
      then Inl InvalidField
      else rbind (ok_or Truncated (try_array 64 (take 64 proof_data))) (\<lambda>signature.
           rbind (ok_or Truncated (try_array 32 (sub 64 96 proof_data))) (\<lambda>peer.
           let signed = link_id @ peer @ sig_pub dest @ drop 96 proof_data
           in rbind (pub_verify X dest signed signature) (\<lambda>_. Inr peer))))"

section \<open>Requests\<close>

lemma ephemeral_simps [simp]:
  "x25519_prv (ephemeral_from_private_bytes X a b) = a"
  "x25519_pub (ephemeral_from_private_bytes X a b) = x_x25519_public X a"
  "ed25519_prv (ephemeral_from_private_bytes X a b) = b"
  "ed25519_pub (ephemeral_from_private_bytes X a b) = x_ed25519_public X b"
  by (simp_all add: ephemeral_from_private_bytes_def)

lemma parse_link_request_payload:
  assumes "crypto_ok X"
  shows "parse_link_request (link_request_payload (ephemeral_from_private_bytes X a b)) =
    Inr (x_x25519_public X a, x_ed25519_public X b)"
  using crypto_okD [OF assms]
  by (simp add: parse_link_request_def link_request_payload_def LINK_REQUEST_LEN_def sub_def)

lemma parse_link_request_Inr:
  "parse_link_request d = Inr (x, e) \<longleftrightarrow>
     (length d = 64 \<or> length d = 67) \<and> x = take 32 d \<and> e = sub 32 64 d"
  by (auto simp: parse_link_request_def LINK_REQUEST_LEN_def LINK_SIGNALLING_LEN_def rbind_Inr_iff)

lemma parse_link_request_error:
  "parse_link_request d = Inl e \<longleftrightarrow> e = InvalidField \<and> length d \<noteq> 64 \<and> length d \<noteq> 67"
  by (auto simp: parse_link_request_def LINK_REQUEST_LEN_def LINK_SIGNALLING_LEN_def rbind_Inl_iff)

text \<open>The signalling suffix and everything the relays change leave the link id alone.\<close>

lemma link_id_signalling:
  assumes "length payload = 64"
  shows "link_id_from_request X (p\<lparr>data := payload @ suffix\<rparr>) =
         link_id_from_request X (p\<lparr>data := payload\<rparr>)"
proof -
  have h: "hashable_part (p\<lparr>data := payload @ suffix\<rparr>) = hashable_part (p\<lparr>data := payload\<rparr>) @ suffix"
    by (simp add: hashable_part_def)
  show ?thesis using assms
    by (simp add: link_id_from_request_def LINK_REQUEST_LEN_def Let_def h)
qed

lemma link_id_routing_indep [simp]:
  "link_id_from_request X (p\<lparr>hops := h\<rparr>) = link_id_from_request X p"
  "link_id_from_request X (p\<lparr>transport_id := t\<rparr>) = link_id_from_request X p"
  "link_id_from_request X (p\<lparr>header_type := u\<rparr>) = link_id_from_request X p"
  "link_id_from_request X (p\<lparr>propagation := u\<rparr>) = link_id_from_request X p"
  by (simp_all add: link_id_from_request_def Let_def)

lemma length_link_id [simp]: "sha_ok X \<Longrightarrow> length (link_id_from_request X p) = 16"
  by (simp add: link_id_from_request_def Let_def)

section \<open>Keys and proofs\<close>

lemma derive_link_key_agree:
  assumes "x25519_ok X"
  shows "derive_link_key X a (x_x25519_public X b) lid = derive_link_key X b (x_x25519_public X a) lid"
  by (simp add: derive_link_key_def x25519_agree [OF assms, of a b])

lemma length_derive_link_key [simp]: "hkdf_ok X \<Longrightarrow> length (derive_link_key X a b lid) = 64"
  by (rule hkdf_Some [of X 64 lid "x_x25519_dh X a b"]) (simp_all add: derive_link_key_def)

lemma verify_link_proof_Inr:
  "verify_link_proof X dest lid d = Inr peer \<longleftrightarrow>
     (length d = 96 \<or> length d = 99) \<and> peer = sub 64 96 d \<and> x_ed25519_key_ok X (sig_pub dest) \<and>
     x_ed25519_verify X (sig_pub dest) (lid @ peer @ sig_pub dest @ drop 96 d) (take 64 d)"
  by (auto simp: verify_link_proof_def LINK_SIGNALLING_LEN_def rbind_Inr_iff Let_def)

lemma verify_build_link_proof:
  assumes "crypto_ok X" and "length (x25519_pub e) = 32"
  shows "verify_link_proof X (id_public X i) lid (build_link_proof X i lid e) = Inr (x25519_pub e)"
  using crypto_okD [OF assms(1)] assms(2)
  by (simp add: verify_link_proof_Inr build_link_proof_def Let_def sub_def id_sign_def)

lemma length_build_link_proof:
  "ed25519_ok X \<Longrightarrow> length (x25519_pub e) = 32 \<Longrightarrow> length (build_link_proof X i lid e) = 96"
  by (simp add: build_link_proof_def Let_def)

lemma verify_link_proof_errors:
  "verify_link_proof X dest lid d = Inl e \<Longrightarrow>
     e = (if length d < 96 then Truncated
          else if length d \<noteq> 96 \<and> length d \<noteq> 99 then InvalidField
          else if x_ed25519_key_ok X (sig_pub dest) then BadSignature else InvalidField)"
  by (auto simp: verify_link_proof_def LINK_SIGNALLING_LEN_def rbind_Inl_iff Let_def pub_verify_def
      split: if_splits)

end
