(* ===== verification/Entropy.thy ===== *)
theory Entropy
  imports Bytes
begin

text \<open>
  Randomness and time, which the protocol code takes from its platform: the trait
  \<open>EntropySource\<close> (reticulum-core/src/lib.rs) as a state-passing function that fills a buffer of a
  given length, its implementations in the repository (\<open>SeededRng\<close> of reticulum-node/src/rng.rs,
  \<open>EmbeddedEntropy\<close> and the demo generator of reticulum-embedded/src/lib.rs, \<open>OsEntropy\<close> of
  reticulum-tokio/src/lib.rs), and the clocks of reticulum-node/src/clock.rs.
  The locale \<open>entropy_source\<close> is the contract of the trait: the buffer is filled completely.
\<close>

section \<open>The trait\<close>

type_synonym 'r entropy = "'r \<Rightarrow> nat \<Rightarrow> bytes \<times> 'r"

definition entropy_ok :: "'r entropy \<Rightarrow> bool" where
  "entropy_ok fill \<longleftrightarrow> (\<forall>r n. length (fst (fill r n)) = n)"

text \<open>Two buffers filled one after the other, as the code draws a pair of keys.\<close>

definition fill2 :: "'r entropy \<Rightarrow> 'r \<Rightarrow> nat \<Rightarrow> nat \<Rightarrow> bytes \<times> bytes \<times> 'r" where
  "fill2 fill r m n = (let (a, r) = fill r m; (b, r) = fill r n in (a, b, r))"

locale entropy_source =
  fixes fill :: "'r entropy"
  assumes fill_length: "length (fst (fill r n)) = n"
begin

lemma filled: "fill r n = (b, r') \<Longrightarrow> length b = n"
  using fill_length [of r n] by simp

lemma filled2: "fill2 fill r m n = (a, b, r') \<Longrightarrow> length a = m \<and> length b = n"
  by (auto simp: fill2_def Let_def split: prod.splits dest: filled)

lemma is_ok: "entropy_ok fill"
  by (simp add: entropy_ok_def fill_length)

end

lemma entropy_filled: "entropy_ok fill \<Longrightarrow> fill r n = (b, r') \<Longrightarrow> length b = n"
  by (metis entropy_ok_def fst_conv)

lemma entropy_length [simp]: "entropy_ok fill \<Longrightarrow> length (fst (fill r n)) = n"
  by (simp add: entropy_ok_def)

section \<open>The SplitMix64 generator\<close>

definition next_u64 :: "u64 \<Rightarrow> u64 \<times> u64" where
  "next_u64 state =
     (let state = state + 0x9E3779B97F4A7C15;
          v = state;
          v = (v XOR drop_bit 30 v) * 0xBF58476D1CE4E5B9;
          v = (v XOR drop_bit 27 v) * 0x94D049BB133111EB
      in (v XOR drop_bit 31 v, state))"

text \<open>\<open>for chunk in out.chunks_mut(8)\<close>: each chunk takes the low bytes of one draw.\<close>

function seeded_fill :: "u64 entropy" where
  "seeded_fill state n =
     (if n = 0 then ([], state)
      else let (v, state) = next_u64 state;
               chunk = take n (rev (be_bytes 8 v));
               (rest, state) = seeded_fill state (n - 8)
        in (chunk @ rest, state))"
  by pat_completeness auto
termination
  by (relation "measure (\<lambda>(_, n). n)") auto

declare seeded_fill.simps [simp del]

lemma length_seeded_fill: "length (fst (seeded_fill s n)) = n"
proof (induction s n rule: seeded_fill.induct)
  case (1 s n)
  show ?case
  proof (cases "n = 0")
    case True
    then show ?thesis by (simp add: seeded_fill.simps)
  next
    case False
    obtain v s' where v: "next_u64 s = (v, s')" by fastforce
    obtain rest s'' where rest: "seeded_fill s' (n - 8) = (rest, s'')" by fastforce
    have "length rest = n - 8"
      using "1.IH" [OF False v [symmetric] refl refl] rest by simp
    then show ?thesis using False by (simp add: seeded_fill.simps [of s n] v rest)
  qed
qed

interpretation seeded: entropy_source seeded_fill
  by unfold_locales (rule length_seeded_fill)

text \<open>The state advances by the golden-ratio increment once per 8 bytes, started or complete.\<close>

lemma seeded_fill_state:
  "snd (seeded_fill s n) = s + of_nat ((n + 7) div 8) * 0x9E3779B97F4A7C15"
proof (induction s n rule: seeded_fill.induct)
  case (1 s n)
  show ?case
  proof (cases "n = 0")
    case True
    then show ?thesis by (simp add: seeded_fill.simps)
  next
    case False
    obtain v s' where v: "next_u64 s = (v, s')" by fastforce
    have s': "s' = s + 0x9E3779B97F4A7C15" using v by (simp add: next_u64_def Let_def)
    obtain rest s'' where rest: "seeded_fill s' (n - 8) = (rest, s'')" by fastforce
    have IH: "s'' = s' + of_nat ((n - 8 + 7) div 8) * 0x9E3779B97F4A7C15"
      using "1.IH" [OF False v [symmetric] refl refl] rest by simp
    have "(n + 7) div 8 = Suc ((n - 8 + 7) div 8)" using False by (cases "n \<le> 8") auto
    then show ?thesis
      using False rest IH by (simp add: seeded_fill.simps [of s n] v s' algebra_simps)
  qed
qed

section \<open>The demo generator of the embedded crate\<close>

definition xorshift_step :: "u64 \<Rightarrow> u64" where
  "xorshift_step s =
     (let s = s XOR push_bit 13 s; s = s XOR drop_bit 7 s in s XOR push_bit 17 s)"

fun demo_fill :: "u64 entropy" where
  "demo_fill s 0 = ([], s)"
| "demo_fill s (Suc n) =
     (let s = xorshift_step s; (rest, s') = demo_fill s n in (ucast s # rest, s'))"

interpretation demo: entropy_source demo_fill
proof
  fix s n
  show "length (fst (demo_fill s n)) = n"
  proof (induction s n rule: demo_fill.induct)
    case (1 s)
    then show ?case by simp
  next
    case (2 s n)
    then show ?case by (cases "demo_fill (xorshift_step s) n") (simp add: Let_def)
  qed
qed

text \<open>A zero seed is a fixed point of the generator: it then fills with zeros for ever.\<close>

lemma demo_fill_zero: "demo_fill 0 n = (replicate n 0, 0)"
  by (induction n) (simp_all add: xorshift_step_def)

section \<open>Adapters of the platform\<close>

text \<open>\<open>EmbeddedEntropy\<close> of reticulum-embedded/src/lib.rs, around any generator of a board (\<open>fill_random\<close>).\<close>

record 'h embedded_entropy =
  ee_rng :: 'h

definition embedded_new :: "'h \<Rightarrow> 'h embedded_entropy" where
  "embedded_new rng = \<lparr>ee_rng = rng\<rparr>"

definition into_inner :: "'h embedded_entropy \<Rightarrow> 'h" where
  "into_inner e = ee_rng e"

definition embedded_fill :: "'h entropy \<Rightarrow> 'h embedded_entropy entropy" where
  "embedded_fill fill_random e n = (let (out, rng) = fill_random (ee_rng e) n in (out, e\<lparr>ee_rng := rng\<rparr>))"

lemma embedded_fill_adapts:
  "fst (embedded_fill fr (embedded_new rng) n) = fst (fr rng n)"
  "into_inner (snd (embedded_fill fr (embedded_new rng) n)) = snd (fr rng n)"
  by (simp_all add: embedded_fill_def embedded_new_def into_inner_def case_prod_beta)

interpretation board: entropy_source "embedded_fill demo_fill"
  by unfold_locales (simp add: embedded_fill_def case_prod_beta demo.fill_length)

text \<open>\<open>OsEntropy\<close> of reticulum-tokio/src/lib.rs: without the system's generator there is no continuing (\<open>None\<close>).\<close>

definition os_fill :: "('r \<Rightarrow> nat \<Rightarrow> (unit + bytes) \<times> 'r) \<Rightarrow> 'r \<Rightarrow> nat \<Rightarrow> (bytes \<times> 'r) option" where
  "os_fill getrandom r n = (case getrandom r n of (Inl _, r) \<Rightarrow> None | (Inr out, r) \<Rightarrow> Some (out, r))"

section \<open>Clocks\<close>

text \<open>\<open>SystemClock\<close> of reticulum-tokio/src/lib.rs, at a time in nanoseconds since the epoch: a clock set before
  it reads 0.\<close>

definition system_now_secs :: "int \<Rightarrow> u64" where
  "system_now_secs now = (if now < 0 then 0 else word_of_int (now div 10 ^ 9))"

lemma system_clock_monotone:
  assumes "a \<le> b" and "b < 2 ^ 64 * 10 ^ 9"
  shows "system_now_secs a \<le> system_now_secs b"
proof (cases "a < 0")
  case False
  have "a div 10 ^ 9 \<le> b div 10 ^ 9" by (rule zdiv_mono1) (use assms in simp_all)
  moreover have "b div 10 ^ 9 < 2 ^ 64" using assms(2) by (simp add: div_less_iff_less_mult)
  moreover have "0 \<le> a div 10 ^ 9" using False by (simp add: pos_imp_zdiv_nonneg_iff)
  ultimately show ?thesis using False assms(1)
    by (simp add: system_now_secs_def word_le_def uint_word_of_int take_bit_eq_mod)
qed (simp add: system_now_secs_def)

text \<open>\<open>TestClock\<close> is a cell of seconds; \<open>NoClock\<close> always reads 0.\<close>

definition noclock_now :: u64 where "noclock_now = 0"
definition testclock_new :: "u64 \<Rightarrow> u64" where "testclock_new now = now"
definition testclock_set :: "u64 \<Rightarrow> u64 \<Rightarrow> u64" where "testclock_set cell now = now"
definition testclock_advance :: "u64 \<Rightarrow> u64 \<Rightarrow> u64" where
  "testclock_advance cell seconds = sat_add cell seconds"

lemma testclock_monotone: "cell \<le> testclock_advance cell seconds"
  by (simp add: testclock_advance_def)

end
