(* ===== verification/Link_State.thy ===== *)
theory Link_State
  imports BTree_Map Links Entropy
begin

text \<open>
  reticulum-node/src/link_state.rs: the entries of the link table and its registry, an ordered map
  from 16-byte link ids. \<open>ephemeral_generate\<close> is \<open>LinkEphemeral::generate\<close> of
  reticulum-core/src/link.rs, which draws the two ephemeral secrets.
\<close>

definition ephemeral_generate :: "ext \<Rightarrow> 'r entropy \<Rightarrow> 'r \<Rightarrow> link_ephemeral \<times> 'r" where
  "ephemeral_generate X E r =
     (let (x, r) = E r 32; (e, r) = E r 32 in (ephemeral_from_private_bytes X x e, r))"

datatype link_status = Pending | Handshake | Active | Closed

record link_entry =
  le_status :: link_status
  le_initiator :: bool
  le_ephemeral :: link_ephemeral
  le_peer_x25519_pub :: "bytes option"
  le_destination_public :: "public_identity option"
  le_derived_key :: "bytes option"
  le_interface :: u16
  le_last_activity :: u64
  le_last_keepalive :: u64

type_synonym link_registry = "(bytes, link_entry) btree"

definition links_insert :: "bytes \<Rightarrow> link_entry \<Rightarrow> link_registry \<Rightarrow> link_registry" where
  "links_insert i e t = bt_insert i e t"

definition links_get :: "bytes \<Rightarrow> link_registry \<Rightarrow> link_entry option" where
  "links_get i t = bt_get i t"

text \<open>\<open>get_mut\<close> followed by assignments to the entry.\<close>

definition links_update :: "bytes \<Rightarrow> (link_entry \<Rightarrow> link_entry) \<Rightarrow> link_registry \<Rightarrow> link_registry" where
  "links_update i f t = bt_update i f t"

text \<open>\<open>for (id, link) in registry.iter_mut()\<close>.\<close>

definition links_map :: "(bytes \<Rightarrow> link_entry \<Rightarrow> link_entry) \<Rightarrow> link_registry \<Rightarrow> link_registry" where
  "links_map f t = map (\<lambda>(i, e). (i, f i e)) t"

lemma links_get_insert [simp]: "links_get j (links_insert i e t) = (if j = i then Some e else links_get j t)"
  by (simp add: links_get_def links_insert_def bt_simps)

lemma links_get_update [simp]:
  "links_get j (links_update i f t) = (if j = i then map_option f (links_get i t) else links_get j t)"
  by (simp add: links_get_def links_update_def bt_simps)

lemma links_get_map [simp]: "links_get j (links_map f t) = map_option (f j) (links_get j t)"
  by (induction t) (auto simp: links_get_def links_map_def bt_get_def)

lemma links_ok [simp]:
  "bt_ok t \<Longrightarrow> bt_ok (links_insert i e t)"
  "bt_ok t \<Longrightarrow> bt_ok (links_update i f t)"
  "bt_ok t \<Longrightarrow> bt_ok (links_map g t)"
proof -
  have "bt_keys (links_map g t) = bt_keys t" by (simp add: links_map_def bt_keys_def case_prod_beta comp_def)
  then show "bt_ok t \<Longrightarrow> bt_ok (links_map g t)" by (simp add: bt_ok_def)
qed (simp_all add: links_insert_def links_update_def bt_oks)

lemma ephemeral_generate_simps:
  assumes "ephemeral_generate X E r = (e, r')"
  shows "x25519_pub e = x_x25519_public X (x25519_prv e)" and "ed25519_pub e = x_ed25519_public X (ed25519_prv e)"
  using assms by (auto simp: ephemeral_generate_def split: prod.splits)

end
