(* ===== verification/Announces.thy ===== *)
theory Announces
  imports Packets
begin

text \<open>
  reticulum-core/src/announce.rs: parsing, building, serialising and verifying announces. Whether the
  32-byte ratchet is present is told by the packet's context flag.
\<close>

definition PUB_LEN :: nat where "PUB_LEN = 64"
definition NAME_LEN :: nat where "NAME_LEN = 10"
definition RAND_LEN :: nat where "RAND_LEN = 10"
definition RATCHET_LEN :: nat where "RATCHET_LEN = 32"
definition SIG_LEN :: nat where "SIG_LEN = 64"
definition ANN_MIN :: nat where "ANN_MIN = PUB_LEN + NAME_LEN + RAND_LEN + SIG_LEN"

lemmas announce_lens = PUB_LEN_def NAME_LEN_def RAND_LEN_def RATCHET_LEN_def SIG_LEN_def ANN_MIN_def

record announce =
  an_public :: bytes
  an_name_hash :: bytes
  an_random_hash :: bytes
  an_ratchet :: "bytes option"
  an_signature :: bytes
  an_app_data :: bytes

text \<open>One fixed-size field: \<open>payload.get(off..off + n).ok_or(Truncated)?.try_into()\<close>.\<close>

definition ann_field :: "bytes \<Rightarrow> nat \<Rightarrow> nat \<Rightarrow> core_error + bytes" where
  "ann_field payload off n =
     rbind (ok_or Truncated (get_range off (off + n) payload)) (\<lambda>s. ok_or Truncated (try_array n s))"

definition announce_parse :: "bytes \<Rightarrow> bool \<Rightarrow> core_error + announce" where
  "announce_parse payload has_ratchet =
     (if length payload < ANN_MIN + (if has_ratchet then 1 else 0) * RATCHET_LEN then Inl Truncated
      else
        let off = 0 in rbind (ann_field payload off PUB_LEN) (\<lambda>public.
        let off = off + PUB_LEN in rbind (ann_field payload off NAME_LEN) (\<lambda>nh.
        let off = off + NAME_LEN in rbind (ann_field payload off RAND_LEN) (\<lambda>rh.
        let off = off + RAND_LEN in
          rbind (if has_ratchet
                 then rbind (ann_field payload off RATCHET_LEN) (\<lambda>v. Inr (Some v, off + RATCHET_LEN))
                 else Inr (None, off)) (\<lambda>(ratchet, off).
        rbind (ann_field payload off SIG_LEN) (\<lambda>sig.
        let off = off + SIG_LEN in
          Inr \<lparr>an_public = public, an_name_hash = nh, an_random_hash = rh, an_ratchet = ratchet,
             an_signature = sig, an_app_data = drop off payload\<rparr>))))))"

definition signed_data :: "bytes \<Rightarrow> bytes \<Rightarrow> bytes \<Rightarrow> bytes \<Rightarrow> bytes option \<Rightarrow> bytes \<Rightarrow> bytes" where
  "signed_data dh public nh rh ratchet app_data =
     dh @ public @ nh @ rh @ (case ratchet of Some r \<Rightarrow> r | None \<Rightarrow> []) @ app_data"

definition announce_build ::
    "ext \<Rightarrow> identity \<Rightarrow> bytes \<Rightarrow> bytes \<Rightarrow> bytes \<Rightarrow> bytes \<Rightarrow> announce" where
  "announce_build X i dh nh rh app_data =
     (let public = pub_to_bytes (id_public X i);
          signed = signed_data dh public nh rh None app_data
      in \<lparr>an_public = public, an_name_hash = nh, an_random_hash = rh, an_ratchet = None,
          an_signature = id_sign X i signed, an_app_data = app_data\<rparr>)"

definition to_payload :: "announce \<Rightarrow> bytes" where
  "to_payload a = an_public a @ an_name_hash a @ an_random_hash a
     @ (case an_ratchet a of Some r \<Rightarrow> r | None \<Rightarrow> []) @ an_signature a @ an_app_data a"

definition announce_verify :: "ext \<Rightarrow> announce \<Rightarrow> bytes \<Rightarrow> core_error + unit" where
  "announce_verify X a dh =
     (let signed = signed_data dh (an_public a) (an_name_hash a) (an_random_hash a)
            (an_ratchet a) (an_app_data a)
      in rbind (pub_from_bytes (an_public a)) (\<lambda>pubid. pub_verify X pubid signed (an_signature a)))"

definition announce_ok :: "announce \<Rightarrow> bool" where
  "announce_ok a \<longleftrightarrow> length (an_public a) = 64 \<and> length (an_name_hash a) = 10 \<and>
     length (an_random_hash a) = 10 \<and> (\<forall>r. an_ratchet a = Some r \<longrightarrow> length r = 32) \<and>
     length (an_signature a) = 64"

section \<open>Parsing inverts serialising\<close>

lemma ann_field_Inr [simp]:
  "ann_field payload off n = Inr s \<longleftrightarrow> off + n \<le> length payload \<and> s = sub off (off + n) payload"
  by (auto simp: ann_field_def rbind_Inr_iff)

lemma ann_field_ok: "off + n \<le> length payload \<Longrightarrow> ann_field payload off n = Inr (sub off (off + n) payload)"
  by simp

text \<open>The whole parser on one line: when it succeeds and what it reads.\<close>

lemma announce_parse_eq:
  "announce_parse payload b =
     (if length payload < 148 + (if b then 32 else 0) then Inl Truncated
      else Inr \<lparr>an_public = take 64 payload, an_name_hash = sub 64 74 payload,
        an_random_hash = sub 74 84 payload,
        an_ratchet = (if b then Some (sub 84 116 payload) else None),
        an_signature = (if b then sub 116 180 payload else sub 84 148 payload),
        an_app_data = drop (if b then 180 else 148) payload\<rparr>)"
  by (cases b) (auto simp: announce_parse_def announce_lens ann_field_ok Let_def)

lemma announce_parse_payload:
  assumes "announce_ok a"
  shows "announce_parse (to_payload a) (an_ratchet a \<noteq> None) = Inr a"
  using assms
  by (cases "an_ratchet a")
    (auto simp: announce_parse_eq to_payload_def announce_ok_def sub_def)

lemma announce_payload_parse:
  assumes "announce_parse payload b = Inr a"
  shows "to_payload a = payload \<and> announce_ok a \<and> (an_ratchet a \<noteq> None) = b"
proof (cases b)
  case True
  with assms have len: "180 \<le> length payload" and a: "a = \<lparr>an_public = take 64 payload,
      an_name_hash = sub 64 74 payload, an_random_hash = sub 74 84 payload,
      an_ratchet = Some (sub 84 116 payload), an_signature = sub 116 180 payload,
      an_app_data = drop 180 payload\<rparr>"
    by (auto simp: announce_parse_eq split: if_splits)
  show ?thesis using len True
    by (simp add: a to_payload_def announce_ok_def sub_sub_drop)
next
  case False
  with assms have len: "148 \<le> length payload" and a: "a = \<lparr>an_public = take 64 payload,
      an_name_hash = sub 64 74 payload, an_random_hash = sub 74 84 payload,
      an_ratchet = None, an_signature = sub 84 148 payload, an_app_data = drop 148 payload\<rparr>"
    by (auto simp: announce_parse_eq split: if_splits)
  show ?thesis using len False
    by (simp add: a to_payload_def announce_ok_def sub_sub_drop)
qed

lemma announce_parse_error:
  "announce_parse payload b = Inl e \<longleftrightarrow> e = Truncated \<and> length payload < 148 + (if b then 32 else 0)"
  by (auto simp: announce_parse_eq)

section \<open>Signatures\<close>

lemma announce_build_ok:
  "crypto_ok X \<Longrightarrow> length nh = 10 \<Longrightarrow> length rh = 10 \<Longrightarrow> announce_ok (announce_build X i dh nh rh app)"
  by (simp add: announce_ok_def announce_build_def Let_def crypto_okD)

lemma announce_build_simps [simp]:
  "an_ratchet (announce_build X i dh nh rh app) = None"
  "an_public (announce_build X i dh nh rh app) = pub_to_bytes (id_public X i)"
  "an_name_hash (announce_build X i dh nh rh app) = nh"
  "an_random_hash (announce_build X i dh nh rh app) = rh"
  "an_app_data (announce_build X i dh nh rh app) = app"
  by (simp_all add: announce_build_def Let_def)

lemma announce_verify_build:
  assumes "crypto_ok X"
  shows "announce_verify X (announce_build X i dh nh rh app) dh = Inr ()"
  using crypto_okD [OF assms]
  by (simp add: announce_verify_def announce_build_def Let_def pub_roundtrip)

text \<open>A verified announce carries a signature by the key inside it over the address it announces.\<close>

lemma announce_verify_Inr:
  "announce_verify X a dh = Inr () \<longleftrightarrow>
     (\<exists>p. pub_from_bytes (an_public a) = Inr p \<and> x_ed25519_key_ok X (sig_pub p) \<and>
        x_ed25519_verify X (sig_pub p)
          (signed_data dh (an_public a) (an_name_hash a) (an_random_hash a) (an_ratchet a) (an_app_data a))
          (an_signature a))"
  by (auto simp: announce_verify_def Let_def rbind_Inr_iff)

end
