(* ===== verification/Resource_Wire.thy ===== *)
theory Resource_Wire
  imports Identities Entropy
begin

text \<open>
  reticulum-core/src/resource.rs: the wire primitives of resource transfers. Splitting and joining
  payloads, the hashes that name a resource and its parts, hashmap updates and the advertisement,
  which travel as MessagePack. Readers return the value with the remaining input, or the error.
\<close>

section \<open>Payloads, parts and hashes\<close>

definition MAPHASH_LEN :: nat where "MAPHASH_LEN = 4"
definition RANDOM_HASH_SIZE :: nat where "RANDOM_HASH_SIZE = 4"
definition MAX_EFFICIENT_SIZE :: nat where "MAX_EFFICIENT_SIZE = 1024 * 1024 - 1"
definition MAX_DECOMPRESSED_SIZE :: nat where "MAX_DECOMPRESSED_SIZE = 64 * 1024 * 1024"

lemmas resource_consts = MAPHASH_LEN_def RANDOM_HASH_SIZE_def MAX_EFFICIENT_SIZE_def
  MAX_DECOMPRESSED_SIZE_def

text \<open>\<open>x_bzip2 X\<close> is \<open>None\<close> in builds without the \<open>compression\<close> feature.\<close>

definition compress_if_useful :: "ext \<Rightarrow> bytes \<Rightarrow> bytes \<times> bool" where
  "compress_if_useful X d =
     (case x_bzip2 X of
        None \<Rightarrow> (d, False)
      | Some z \<Rightarrow>
          if length d > MAX_DECOMPRESSED_SIZE then (d, False)
          else case bz_compress z d of
                 None \<Rightarrow> (d, False)
               | Some c \<Rightarrow> if length c < length d then (c, True) else (d, False))"

definition decompress_payload :: "ext \<Rightarrow> bytes \<Rightarrow> core_error + bytes" where
  "decompress_payload X d =
     (case x_bzip2 X of
        None \<Rightarrow> Inl Unsupported
      | Some z \<Rightarrow>
          (case bz_decompress z d (MAX_DECOMPRESSED_SIZE + 1) of
             None \<Rightarrow> Inl DecryptFailed
           | Some decoded \<Rightarrow>
               if length decoded > MAX_DECOMPRESSED_SIZE then Inl InvalidField else Inr decoded))"

definition split_parts :: "bytes \<Rightarrow> nat \<Rightarrow> bytes list" where
  "split_parts d sdu = (if sdu = 0 then [] else chunks sdu d)"

fun reassemble :: "bytes list \<Rightarrow> bytes" where
  "reassemble [] = []"
| "reassemble (p # ps) = p @ reassemble ps"

definition random_hash :: "ext \<Rightarrow> 'r entropy \<Rightarrow> 'r \<Rightarrow> bytes \<times> 'r" where
  "random_hash X E r =
     (let (source, r) = E r 16
      in (case try_array RANDOM_HASH_SIZE (take RANDOM_HASH_SIZE (full_hash X source)) of
            Some h \<Rightarrow> h | None \<Rightarrow> replicate RANDOM_HASH_SIZE 0, r))"

definition hash_joined :: "ext \<Rightarrow> bytes \<Rightarrow> bytes \<Rightarrow> bytes" where
  "hash_joined X left right = full_hash X (left @ right)"

definition resource_hash :: "ext \<Rightarrow> bytes \<Rightarrow> bytes \<Rightarrow> bytes" where
  "resource_hash X d random = hash_joined X d random"

definition resource_proof :: "ext \<Rightarrow> bytes \<Rightarrow> bytes \<Rightarrow> bytes" where
  "resource_proof X d hash = hash_joined X d hash"

definition map_hash :: "ext \<Rightarrow> bytes \<Rightarrow> bytes \<Rightarrow> bytes" where
  "map_hash X part random =
     (case try_array MAPHASH_LEN (take MAPHASH_LEN (hash_joined X part random)) of
        Some h \<Rightarrow> h | None \<Rightarrow> replicate MAPHASH_LEN 0)"

fun hashmap :: "ext \<Rightarrow> bytes list \<Rightarrow> bytes \<Rightarrow> bytes" where
  "hashmap X [] random = []"
| "hashmap X (p # ps) random = map_hash X p random @ hashmap X ps random"

lemma length_hash_joined [simp]: "sha_ok X \<Longrightarrow> length (hash_joined X a b) = 32"
  by (simp add: hash_joined_def)

lemma length_resource_hash [simp]:
  "sha_ok X \<Longrightarrow> length (resource_hash X d r) = 32"
  "sha_ok X \<Longrightarrow> length (resource_proof X d h) = 32"
  by (simp_all add: resource_hash_def resource_proof_def)

lemma length_map_hash [simp]: "length (map_hash X p r) = 4"
  by (auto simp: map_hash_def resource_consts split: option.splits)

lemma map_hash_eq: "sha_ok X \<Longrightarrow> map_hash X p r = take 4 (hash_joined X p r)"
  by (simp add: map_hash_def MAPHASH_LEN_def)

lemma length_random_hash: "length (fst (random_hash X E r)) = 4"
  by (auto simp: random_hash_def resource_consts split: option.splits prod.splits)

lemma reassemble_concat [simp]: "reassemble ps = concat ps"
  by (induction ps) auto

lemma hashmap_concat: "hashmap X ps r = concat (map (\<lambda>p. map_hash X p r) ps)"
  by (induction ps) auto

lemma length_hashmap [simp]: "length (hashmap X ps r) = 4 * length ps"
  by (induction ps) auto

lemma chunks_exact_hashmap: "chunks_exact 4 (hashmap X ps r) = map (\<lambda>p. map_hash X p r) ps"
  unfolding hashmap_concat by (rule chunks_exact_concat) auto

lemma reassemble_split: "0 < sdu \<Longrightarrow> reassemble (split_parts d sdu) = d"
  by (simp add: split_parts_def concat_chunks)

lemma length_split_parts: "0 < sdu \<Longrightarrow> length (split_parts d sdu) = (length d + sdu - 1) div sdu"
  by (simp add: split_parts_def length_chunks)

lemma split_parts_bounds: "p \<in> set (split_parts d sdu) \<Longrightarrow> p \<noteq> [] \<and> length p \<le> sdu"
  by (auto simp: split_parts_def dest: chunks_bounds split: if_splits)

lemma decompress_compressed:
  assumes "bzip2_ok X" and "compress_if_useful X d = (c, True)"
  shows "decompress_payload X c = Inr d \<and> length c < length d"
  using assms
  by (auto simp: compress_if_useful_def decompress_payload_def bzip2_ok_def
      split: option.splits if_splits)

lemma compress_not_useful: "compress_if_useful X d = (c, False) \<Longrightarrow> c = d"
  by (auto simp: compress_if_useful_def split: option.splits if_splits)

lemma decompress_bound: "decompress_payload X c = Inr d \<Longrightarrow> length d \<le> MAX_DECOMPRESSED_SIZE"
  by (auto simp: decompress_payload_def split: option.splits if_splits)

section \<open>Readers\<close>

definition rtake :: "nat \<Rightarrow> bytes \<Rightarrow> core_error + (bytes \<times> bytes)" where
  "rtake len input =
     (if length input < len then Inl Truncated else Inr (take len input, drop len input))"

definition read_text :: "ext \<Rightarrow> bytes \<Rightarrow> core_error + (bytes \<times> bytes)" where
  "read_text X input =
     rbind (ok_or InvalidField (x_rd_str_len X input)) (\<lambda>(len, input).
     rbind (rtake (unat len) input) (\<lambda>(bs, input).
     if utf8_valid bs then Inr (bs, input) else Inl InvalidField))"

definition read_binary :: "ext \<Rightarrow> bytes \<Rightarrow> core_error + (bytes \<times> bytes)" where
  "read_binary X input =
     rbind (ok_or InvalidField (x_rd_bin_len X input)) (\<lambda>(len, input). rtake (unat len) input)"

definition read_optional_binary :: "ext \<Rightarrow> bytes \<Rightarrow> core_error + (bytes option \<times> bytes)" where
  "read_optional_binary X input =
     (case input of
        b # rest \<Rightarrow> if b = 0xC0 then Inr (None, rest)
                    else rbind (read_binary X input) (\<lambda>(v, input). Inr (Some v, input))
      | [] \<Rightarrow> rbind (read_binary X input) (\<lambda>(v, input). Inr (Some v, input)))"

definition read_integer :: "ext \<Rightarrow> bytes \<Rightarrow> core_error + (u64 \<times> bytes)" where
  "read_integer X input = ok_or InvalidField (x_rd_int X input)"

definition to_u32 :: "u64 \<Rightarrow> core_error + u32" where
  "to_u32 v = (if unat v < 2 ^ 32 then Inr (ucast v) else Inl InvalidField)"

definition read_u32 :: "ext \<Rightarrow> bytes \<Rightarrow> core_error + (u32 \<times> bytes)" where
  "read_u32 X input = rbind (read_integer X input) (\<lambda>(v, input). rbind (to_u32 v) (\<lambda>v. Inr (v, input)))"

definition read_u8 :: "ext \<Rightarrow> bytes \<Rightarrow> core_error + (u8 \<times> bytes)" where
  "read_u8 X input = rbind (read_integer X input)
     (\<lambda>(v, input). if unat v < 2 ^ 8 then Inr (ucast v, input) else Inl InvalidField)"

lemma rtake_append [simp]: "length a = n \<Longrightarrow> rtake n (a @ r) = Inr (a, r)"
  by (simp add: rtake_def)

lemma unat_len32: "length s < 2 ^ 32 \<Longrightarrow> unat (word_of_nat (length s) :: u32) = length s"
  by (simp add: unat_of_nat take_bit_nat_eq_self)

lemma read_text_str:
  "rmp_ok X \<Longrightarrow> length s < 2 ^ 32 \<Longrightarrow> utf8_valid s \<Longrightarrow> read_text X (x_wr_str X s @ r) = Inr (s, r)"
  by (simp add: read_text_def rmp_read_len unat_len32)

lemma read_binary_bin:
  "rmp_ok X \<Longrightarrow> length b < 2 ^ 32 \<Longrightarrow> read_binary X (x_wr_bin X b @ r) = Inr (b, r)"
  by (simp add: read_binary_def rmp_read_len unat_len32)

lemma mp_bin_not_nil: "mp_bin n = b # bs \<Longrightarrow> b \<noteq> 0xC0"
  by (auto simp: mp_bin_def split: if_splits)

lemma read_optional_binary_bin:
  assumes "rmp_ok X" "length b < 2 ^ 32"
  shows "read_optional_binary X (x_wr_bin X b @ r) = Inr (Some b, r)"
proof -
  obtain c cs where c: "mp_bin (length b) = c # cs" by (cases "mp_bin (length b)") (auto simp: mp_bin_def split: if_splits)
  have "x_wr_bin X b @ r = c # cs @ b @ r" using assms by (simp add: rmp_write c)
  then show ?thesis using mp_bin_not_nil [OF c] read_binary_bin [OF assms, of r]
    by (simp add: read_optional_binary_def)
qed

lemma read_optional_binary_nil: "rmp_ok X \<Longrightarrow> read_optional_binary X (x_wr_nil X @ r) = Inr (None, r)"
  by (simp add: read_optional_binary_def rmp_write)

lemma read_integer_uint: "rmp_ok X \<Longrightarrow> read_integer X (x_wr_uint X v @ r) = Inr (v, r)"
  by (simp add: read_integer_def rmp_write rmp_read)

lemma ucast_ucast_up: "LENGTH('a) \<le> LENGTH('b) \<Longrightarrow> ucast (ucast v :: 'b::len word) = (v :: 'a::len word)"
  by (rule bit_word_eqI) (auto simp: bit_simps)

lemma unat_ucast_up64: "LENGTH('a) \<le> 64 \<Longrightarrow> unat (ucast v :: u64) = unat (v :: 'a::len word)"
proof -
  assume "LENGTH('a) \<le> 64"
  then have "unat v < 2 ^ 64"
    using unat_bound [of v] power_increasing [of "LENGTH('a)" 64 "2 :: nat"] by linarith
  then show ?thesis by (simp add: unsigned_ucast_eq take_bit_nat_eq_self)
qed

lemma to_u32_ucast [simp]: "to_u32 (ucast (v :: u32)) = Inr v"
  using unat_bound [of v] by (simp add: to_u32_def unat_ucast_up64 ucast_ucast_up)

lemma read_u32_uint: "rmp_ok X \<Longrightarrow> read_u32 X (x_wr_uint X (ucast (v :: u32)) @ r) = Inr (v, r)"
  by (simp add: read_u32_def read_integer_uint)

lemma read_u8_uint: "rmp_ok X \<Longrightarrow> read_u8 X (x_wr_uint X (ucast (v :: u8)) @ r) = Inr (v, r)"
  using unat_bound [of v] by (simp add: read_u8_def read_integer_uint unat_ucast_up64 ucast_ucast_up)

lemmas rmp_reads = read_text_str read_binary_bin read_optional_binary_bin read_optional_binary_nil
  read_integer_uint read_u32_uint read_u8_uint

section \<open>Hashmap updates\<close>

definition pack_hashmap_update :: "ext \<Rightarrow> bytes \<Rightarrow> u32 \<Rightarrow> bytes \<Rightarrow> bytes" where
  "pack_hashmap_update X hash segment m =
     hash @ x_wr_array_len X 2 @ x_wr_uint X (ucast segment) @ x_wr_bin X m"

definition unpack_hashmap_update :: "ext \<Rightarrow> bytes \<Rightarrow> core_error + (bytes \<times> u32 \<times> bytes)" where
  "unpack_hashmap_update X d =
     (if length d < 32 then Inl Truncated
      else rbind (ok_or Truncated (try_array 32 (take 32 d))) (\<lambda>hash.
        let input = drop 32 d in
        rbind (ok_or InvalidField (x_rd_array_len X input)) (\<lambda>(n, input).
        if n \<noteq> 2 then Inl InvalidField
        else rbind (read_u32 X input) (\<lambda>(segment, input).
             rbind (read_binary X input) (\<lambda>(m, input).
             if input \<noteq> [] \<or> m = [] \<or> length m mod MAPHASH_LEN \<noteq> 0 then Inl InvalidField
             else Inr (hash, segment, m))))))"

lemma hashmap_update_roundtrip:
  assumes X: "rmp_ok X" and "length hash = 32" "m \<noteq> []" "length m mod 4 = 0" "length m < 2 ^ 32"
  shows "unpack_hashmap_update X (pack_hashmap_update X hash segment m) = Inr (hash, segment, m)"
proof -
  have arr: "x_rd_array_len X (x_wr_array_len X 2 @ r) = Some (2, r)" for r
    using rmp_read(1) [OF X, of 2 r] by (simp only: rmp_write(1) [OF X])
  have bin: "read_binary X (x_wr_bin X m) = Inr (m, [])"
    using read_binary_bin [OF X, of m "[]"] assms by simp
  show ?thesis using assms
    by (simp add: unpack_hashmap_update_def pack_hashmap_update_def Let_def arr read_u32_uint bin
        MAPHASH_LEN_def)
qed

lemma unpack_hashmap_update_ok:
  "unpack_hashmap_update X d = Inr (hash, segment, m) \<Longrightarrow>
     length hash = 32 \<and> m \<noteq> [] \<and> length m mod 4 = 0"
  by (auto simp: unpack_hashmap_update_def rbind_Inr_iff Let_def MAPHASH_LEN_def
      split: if_splits prod.splits)

section \<open>Advertisements\<close>

record resource_advertisement =
  ra_t :: u64
  ra_d :: u64
  ra_n :: u32
  ra_h :: bytes
  ra_r :: bytes
  ra_o :: bytes
  ra_i :: u32
  ra_l :: u32
  ra_q :: "bytes option"
  ra_f :: u8
  ra_m :: bytes

definition write_u64_field :: "ext \<Rightarrow> string \<Rightarrow> u64 \<Rightarrow> bytes" where
  "write_u64_field X key v = x_wr_str X (str key) @ x_wr_uint X v"

definition write_bin_field :: "ext \<Rightarrow> string \<Rightarrow> bytes \<Rightarrow> bytes" where
  "write_bin_field X key v = x_wr_str X (str key) @ x_wr_bin X v"

definition adv_pack :: "ext \<Rightarrow> resource_advertisement \<Rightarrow> bytes" where
  "adv_pack X a =
     x_wr_map_len X 11
     @ write_u64_field X ''t'' (ra_t a)
     @ write_u64_field X ''d'' (ra_d a)
     @ write_u64_field X ''n'' (ucast (ra_n a))
     @ write_bin_field X ''h'' (ra_h a)
     @ write_bin_field X ''r'' (ra_r a)
     @ write_bin_field X ''o'' (ra_o a)
     @ write_u64_field X ''i'' (ucast (ra_i a))
     @ write_u64_field X ''l'' (ucast (ra_l a))
     @ x_wr_str X (str ''q'')
     @ (case ra_q a of Some request_id \<Rightarrow> x_wr_bin X request_id | None \<Rightarrow> x_wr_nil X)
     @ write_u64_field X ''f'' (ucast (ra_f a))
     @ write_bin_field X ''m'' (ra_m a)"

text \<open>The local variables \<open>t\<close>, \<open>d\<close>, \<dots> of \<open>unpack\<close>, and the body of its loop.\<close>

record adv_fields =
  av_t :: "u64 option"
  av_d :: "u64 option"
  av_n :: "u32 option"
  av_h :: "bytes option"
  av_r :: "bytes option"
  av_o :: "bytes option"
  av_i :: "u32 option"
  av_l :: "u32 option"
  av_q :: "bytes option option"
  av_f :: "u8 option"
  av_m :: "bytes option"

definition adv_none :: adv_fields where
  "adv_none = \<lparr>av_t = None, av_d = None, av_n = None, av_h = None, av_r = None, av_o = None,
     av_i = None, av_l = None, av_q = None, av_f = None, av_m = None\<rparr>"

definition adv_field :: "ext \<Rightarrow> bytes \<Rightarrow> bytes \<Rightarrow> adv_fields \<Rightarrow> core_error + (adv_fields \<times> bytes)" where
  "adv_field X key input v =
     (if key = str ''t'' then rbind (read_integer X input) (\<lambda>(x, input). Inr (v\<lparr>av_t := Some x\<rparr>, input))
      else if key = str ''d'' then rbind (read_integer X input) (\<lambda>(x, input). Inr (v\<lparr>av_d := Some x\<rparr>, input))
      else if key = str ''n'' then rbind (read_u32 X input) (\<lambda>(x, input). Inr (v\<lparr>av_n := Some x\<rparr>, input))
      else if key = str ''h'' then rbind (read_binary X input) (\<lambda>(x, input). Inr (v\<lparr>av_h := Some x\<rparr>, input))
      else if key = str ''r'' then rbind (read_binary X input) (\<lambda>(x, input). Inr (v\<lparr>av_r := Some x\<rparr>, input))
      else if key = str ''o'' then rbind (read_binary X input) (\<lambda>(x, input). Inr (v\<lparr>av_o := Some x\<rparr>, input))
      else if key = str ''i'' then rbind (read_u32 X input) (\<lambda>(x, input). Inr (v\<lparr>av_i := Some x\<rparr>, input))
      else if key = str ''l'' then rbind (read_u32 X input) (\<lambda>(x, input). Inr (v\<lparr>av_l := Some x\<rparr>, input))
      else if key = str ''q'' then rbind (read_optional_binary X input) (\<lambda>(x, input). Inr (v\<lparr>av_q := Some x\<rparr>, input))
      else if key = str ''f'' then rbind (read_u8 X input) (\<lambda>(x, input). Inr (v\<lparr>av_f := Some x\<rparr>, input))
      else if key = str ''m'' then rbind (read_binary X input) (\<lambda>(x, input). Inr (v\<lparr>av_m := Some x\<rparr>, input))
      else Inl InvalidField)"

fun adv_loop :: "ext \<Rightarrow> nat \<Rightarrow> bytes \<Rightarrow> adv_fields \<Rightarrow> core_error + (adv_fields \<times> bytes)" where
  "adv_loop X 0 input v = Inr (v, input)"
| "adv_loop X (Suc k) input v =
     rbind (read_text X input) (\<lambda>(key, input).
     rbind (adv_field X key input v) (\<lambda>(v, input). adv_loop X k input v))"

definition adv_collect :: "adv_fields \<Rightarrow> core_error + resource_advertisement" where
  "adv_collect v =
     rbind (ok_or InvalidField (av_t v)) (\<lambda>t. rbind (ok_or InvalidField (av_d v)) (\<lambda>d.
     rbind (ok_or InvalidField (av_n v)) (\<lambda>n. rbind (ok_or InvalidField (av_h v)) (\<lambda>h.
     rbind (ok_or InvalidField (av_r v)) (\<lambda>r. rbind (ok_or InvalidField (av_o v)) (\<lambda>q_o.
     rbind (ok_or InvalidField (av_i v)) (\<lambda>i. rbind (ok_or InvalidField (av_l v)) (\<lambda>l.
     rbind (ok_or InvalidField (av_q v)) (\<lambda>q. rbind (ok_or InvalidField (av_f v)) (\<lambda>f.
     rbind (ok_or InvalidField (av_m v)) (\<lambda>m.
       Inr \<lparr>ra_t = t, ra_d = d, ra_n = n, ra_h = h, ra_r = r, ra_o = q_o, ra_i = i, ra_l = l,
          ra_q = q, ra_f = f, ra_m = m\<rparr>)))))))))))"

definition adv_valid :: "resource_advertisement \<Rightarrow> bool" where
  "adv_valid a \<longleftrightarrow> \<not> (unat (ra_t a) > MAX_EFFICIENT_SIZE * 3 \<or> length (ra_h a) \<noteq> 32 \<or>
     length (ra_r a) \<noteq> RANDOM_HASH_SIZE \<or> length (ra_o a) \<noteq> 32 \<or>
     length (ra_m a) mod MAPHASH_LEN \<noteq> 0 \<or> ra_n a = 0)"

definition adv_unpack :: "ext \<Rightarrow> bytes \<Rightarrow> core_error + resource_advertisement" where
  "adv_unpack X d =
     rbind (ok_or InvalidField (x_rd_map_len X d)) (\<lambda>(fields, input).
     if fields \<noteq> 11 then Inl InvalidField
     else rbind (adv_loop X (unat fields) input adv_none) (\<lambda>(v, input).
          if input \<noteq> [] then Inl InvalidField
          else rbind (adv_collect v) (\<lambda>a. if adv_valid a then Inr a else Inl InvalidField)))"

definition adv_encrypted :: "resource_advertisement \<Rightarrow> bool" where
  "adv_encrypted a = (ra_f a AND 0x01 \<noteq> 0)"

definition adv_compressed :: "resource_advertisement \<Rightarrow> bool" where
  "adv_compressed a = (ra_f a AND 0x02 \<noteq> 0)"

subsection \<open>Advertisements survive the wire\<close>

lemma str_ascii_key: "str [c] = [word_of_nat (of_char c)]"
  by (simp add: str_def)

lemma key_read:
  assumes "rmp_ok X" and "b \<le> (0x7F :: u8)"
  shows "read_text X (x_wr_str X [b] @ r) = Inr ([b], r)"
  using assms by (intro read_text_str) simp_all

lemma adv_keys:
  "str ''t'' = [0x74]" "str ''d'' = [0x64]" "str ''n'' = [0x6E]" "str ''h'' = [0x68]"
  "str ''r'' = [0x72]" "str ''o'' = [0x6F]" "str ''i'' = [0x69]" "str ''l'' = [0x6C]"
  "str ''q'' = [0x71]" "str ''f'' = [0x66]" "str ''m'' = [0x6D]"
  by (simp_all add: str_def)

text \<open>One round of the loop on a key the reader accepts.\<close>

lemma adv_step:
  "rmp_ok X \<Longrightarrow> b \<le> 0x7F \<Longrightarrow>
     adv_loop X (Suc k) (x_wr_str X [b] @ r) v =
     rbind (adv_field X [b] r v) (\<lambda>(v, input). adv_loop X k input v)"
  by (simp add: key_read)

definition adv_sizes_ok :: "resource_advertisement \<Rightarrow> bool" where
  "adv_sizes_ok a \<longleftrightarrow> adv_valid a \<and> length (ra_m a) < 2 ^ 32 \<and>
     (case ra_q a of None \<Rightarrow> True | Some q \<Rightarrow> length q < 2 ^ 32)"

lemma adv_loop_pack:
  assumes X: "rmp_ok X" and a: "adv_sizes_ok a"
  shows "adv_loop X 11 (drop (length (x_wr_map_len X 11)) (adv_pack X a)) adv_none =
    Inr (\<lparr>av_t = Some (ra_t a), av_d = Some (ra_d a), av_n = Some (ra_n a), av_h = Some (ra_h a),
      av_r = Some (ra_r a), av_o = Some (ra_o a), av_i = Some (ra_i a), av_l = Some (ra_l a),
      av_q = Some (ra_q a), av_f = Some (ra_f a), av_m = Some (ra_m a)\<rparr>, [])"
proof -
  have len: "length (ra_h a) = 32" "length (ra_r a) = 4" "length (ra_o a) = 32"
    "length (ra_m a) < 2 ^ 32" and q: "\<And>q. ra_q a = Some q \<Longrightarrow> length q < 2 ^ 32"
    using a by (auto simp: adv_sizes_ok_def adv_valid_def resource_consts)
  have bin: "read_binary X (x_wr_bin X (ra_m a)) = Inr (ra_m a, [])"
    using read_binary_bin [OF X len(4), of "[]"] by simp
  have opt: "read_optional_binary X ((case ra_q a of None \<Rightarrow> x_wr_nil X | Some r \<Rightarrow> x_wr_bin X r) @ r)
      = Inr (ra_q a, r)" for r
    using q X by (cases "ra_q a") (simp_all add: rmp_reads)
  have eleven: "(11 :: nat) = Suc (Suc (Suc (Suc (Suc (Suc (Suc (Suc (Suc (Suc (Suc 0))))))))))" by simp
  show ?thesis
    unfolding eleven
    by (simp add: adv_pack_def write_u64_field_def write_bin_field_def adv_keys adv_step X adv_field_def
        rmp_reads len bin opt adv_none_def del: adv_loop.simps(2))
qed

lemma adv_unpack_pack:
  assumes X: "rmp_ok X" and a: "adv_sizes_ok a"
  shows "adv_unpack X (adv_pack X a) = Inr a"
proof -
  have "adv_pack X a = x_wr_map_len X 11 @ drop (length (x_wr_map_len X 11)) (adv_pack X a)"
    by (simp add: adv_pack_def)
  then have m: "x_rd_map_len X (adv_pack X a) = Some (11, drop (length (x_wr_map_len X 11)) (adv_pack X a))"
    using rmp_read(2) [OF X, of 11] by (metis rmp_write(2) [OF X])
  have "adv_valid a" using a by (simp add: adv_sizes_ok_def)
  then show ?thesis
    using adv_loop_pack [OF X a] by (simp add: adv_unpack_def m adv_collect_def) (simp add: adv_valid_def)
qed

lemma adv_unpack_valid: "adv_unpack X d = Inr a \<Longrightarrow> adv_valid a"
  by (auto simp: adv_unpack_def rbind_Inr_iff split: prod.splits if_splits)

end
