(* ===== verification/Resource_State.thy ===== *)
theory Resource_State
  imports Resource_Wire Token
begin

text \<open>
  reticulum-node/src/resource_state.rs: the two ends of a resource transfer. The sender encrypts and
  splits a payload and answers requests for parts and for further segments of its hashmap; the
  receiver requests windows of parts, checks each against the hashmap and rebuilds the payload.
\<close>

section \<open>Constants and outputs\<close>

definition RESOURCE_SDU :: nat where "RESOURCE_SDU = 464"
definition WINDOW :: nat where "WINDOW = 4"
definition WINDOW_MIN :: nat where "WINDOW_MIN = 2"
definition WINDOW_MAX :: nat where "WINDOW_MAX = 75"
definition MAX_RETRIES :: u8 where "MAX_RETRIES = 16"
definition HASHMAP_MAX_LEN :: nat where "HASHMAP_MAX_LEN = 74"
definition REQUEST_TIMEOUT_SECS :: u64 where "REQUEST_TIMEOUT_SECS = 2"
definition HASHMAP_IS_NOT_EXHAUSTED :: u8 where "HASHMAP_IS_NOT_EXHAUSTED = 0x00"
definition HASHMAP_IS_EXHAUSTED :: u8 where "HASHMAP_IS_EXHAUSTED = 0xFF"

lemmas transfer_consts = RESOURCE_SDU_def WINDOW_def WINDOW_MIN_def WINDOW_MAX_def MAX_RETRIES_def
  HASHMAP_MAX_LEN_def REQUEST_TIMEOUT_SECS_def HASHMAP_IS_NOT_EXHAUSTED_def HASHMAP_IS_EXHAUSTED_def

datatype resource_output = Part bytes | HashmapUpdate bytes

definition try_u64 :: "nat \<Rightarrow> core_error + u64" where
  "try_u64 n = (if n < 2 ^ 64 then Inr (word_of_nat n) else Inl InvalidField)"

definition try_u32 :: "nat \<Rightarrow> core_error + u32" where
  "try_u32 n = (if n < 2 ^ 32 then Inr (word_of_nat n) else Inl InvalidField)"

section \<open>The sender\<close>

record outbound_resource =
  ob_hash :: bytes
  ob_size :: u64
  ob_total_size :: u64
  ob_parts :: "bytes list"
  ob_map :: bytes
  ob_random_hash :: bytes
  ob_expected_proof :: bytes
  ob_completed :: bool
  ob_last_activity :: u64

text \<open>The scan for equal map hashes close together: \<open>hashes\<close> holds the last 224 seen.\<close>

fun map_collision :: "bytes list \<Rightarrow> bytes list \<Rightarrow> bool" where
  "map_collision hashes [] = False"
| "map_collision hashes (entry # rest) =
     (if entry \<in> set hashes then True
      else let hashes = hashes @ [entry];
               hashes = (if length hashes > 2 * WINDOW_MAX + HASHMAP_MAX_LEN then tl hashes else hashes)
        in map_collision hashes rest)"

text \<open>
  The loop that draws random hashes until the map has no such collision. It need not end (two equal
  parts collide under every random hash): \<open>None\<close> is that the loop runs for ever.
\<close>

partial_function (option) choose_map ::
    "ext \<Rightarrow> 'r entropy \<Rightarrow> bytes list \<Rightarrow> 'r \<Rightarrow> (bytes \<times> bytes \<times> 'r) option" where
  "choose_map X E parts r =
     (let hr = fst (random_hash X E r); r' = snd (random_hash X E r); m = hashmap X parts hr
      in if map_collision [] (chunks_exact MAPHASH_LEN m) then choose_map X E parts r'
         else Some (hr, m, r'))"

definition outbound_new ::
    "ext \<Rightarrow> 'r entropy \<Rightarrow> bytes \<Rightarrow> bytes \<Rightarrow> 'r \<Rightarrow> u64
      \<Rightarrow> ((core_error + outbound_resource \<times> bytes) \<times> 'r) option" where
  "outbound_new X E d link_key r now =
     (if d = [] \<or> length d > MAX_EFFICIENT_SIZE then Some (Inl InvalidField, r)
      else let (transmitted, compressed) = compress_if_useful X d;
               (prefix, r) = random_hash X E r;
               stream = prefix @ transmitted;
               (iv, r) = E r 16;
               encrypted = seal_with_key X link_key stream iv;
               parts = split_parts encrypted RESOURCE_SDU
        in case choose_map X E parts r of
             None \<Rightarrow> None
           | Some (hash_random, m, r) \<Rightarrow>
               let hash = resource_hash X d hash_random;
                   expected_proof = resource_proof X d hash;
                   advertised_map_len = min (length parts) HASHMAP_MAX_LEN * MAPHASH_LEN
               in Some (rbind (try_u64 (length encrypted)) (\<lambda>t.
                        rbind (try_u64 (length d)) (\<lambda>dl.
                        rbind (try_u32 (length parts)) (\<lambda>n.
                        let adv = \<lparr>ra_t = t, ra_d = dl, ra_n = n, ra_h = hash, ra_r = hash_random,
                              ra_o = hash, ra_i = 1, ra_l = 1, ra_q = None,
                              ra_f = 0x01 OR push_bit 1 (of_bool compressed),
                              ra_m = take advertised_map_len m\<rparr>
                        in Inr (\<lparr>ob_hash = hash, ob_size = t, ob_total_size = dl, ob_parts = parts,
                              ob_map = m, ob_random_hash = hash_random,
                              ob_expected_proof = expected_proof, ob_completed = False,
                              ob_last_activity = now\<rparr>, adv_pack X adv)))), r))"

definition ob_map_hashes :: "outbound_resource \<Rightarrow> bytes list" where
  "ob_map_hashes ob = chunks_exact MAPHASH_LEN (ob_map ob)"

text \<open>The parts asked for, and the segment of the map after \<open>last_hash\<close>.\<close>

definition requested_parts :: "outbound_resource \<Rightarrow> bytes \<Rightarrow> resource_output list" where
  "requested_parts ob requested =
     List.map_filter (\<lambda>requested_hash.
       map_option (\<lambda>index. Part (ob_parts ob ! index))
         (position (\<lambda>hash. hash = requested_hash) (ob_map_hashes ob)))
       (chunks_exact MAPHASH_LEN requested)"

definition requested_map :: "ext \<Rightarrow> outbound_resource \<Rightarrow> bytes \<Rightarrow> resource_output list" where
  "requested_map X ob last_hash =
     (case position (\<lambda>hash. hash = last_hash) (ob_map_hashes ob) of
        None \<Rightarrow> []
      | Some index \<Rightarrow>
          let segment = (index + 1) div HASHMAP_MAX_LEN in
          if (index + 1) mod HASHMAP_MAX_LEN = 0 then
            let start = segment * HASHMAP_MAX_LEN * MAPHASH_LEN;
                end' = min ((segment + 1) * HASHMAP_MAX_LEN * MAPHASH_LEN) (length (ob_map ob))
            in if start < end'
               then [HashmapUpdate (pack_hashmap_update X (ob_hash ob)
                       (if segment < 2 ^ 32 then word_of_nat segment else - 1)
                       (sub start end' (ob_map ob)))]
               else []
          else [])"

definition on_request ::
    "ext \<Rightarrow> bytes \<Rightarrow> u64 \<Rightarrow> outbound_resource \<Rightarrow> resource_output list \<times> outbound_resource" where
  "on_request X request now ob =
     (if request = [] then ([], ob)
      else let wants_map = (request ! 0 = HASHMAP_IS_EXHAUSTED);
               pad = (if wants_map then 1 + MAPHASH_LEN else 1)
        in if length request < pad + 32 \<or> sub pad (pad + 32) request \<noteq> ob_hash ob then ([], ob)
           else let requested = drop (pad + 32) request
             in if length requested mod MAPHASH_LEN \<noteq> 0 then ([], ob)
                else (requested_parts ob requested
                      @ (if wants_map then requested_map X ob (sub 1 (1 + MAPHASH_LEN) request) else []),
                      ob\<lparr>ob_last_activity := now\<rparr>))"

definition on_proof :: "bytes \<Rightarrow> outbound_resource \<Rightarrow> bool \<times> outbound_resource" where
  "on_proof proof_data ob =
     (let ob = (if length proof_data = 64 \<and> take 32 proof_data = ob_hash ob
                   \<and> drop 32 proof_data = ob_expected_proof ob
                then ob\<lparr>ob_completed := True\<rparr> else ob)
      in (ob_completed ob, ob))"

section \<open>The receiver\<close>

record inbound_resource =
  ib_hash :: bytes
  ib_size :: u64
  ib_total_size :: u64
  ib_random_hash :: bytes
  ib_compressed :: bool
  ib_map :: "bytes option list"
  ib_parts :: "bytes option list"
  ib_outstanding :: "bytes list"
  ib_window :: nat
  ib_retries :: u8
  ib_last_request :: u64
  ib_waiting_for_hmu :: bool

text \<open>\<open>for (index, entry) in entries.enumerate() { map[index] = Some(entry) }\<close> from \<open>index\<close> on; out of
  range it stops with the error, the entries before written.\<close>

fun fill_map :: "nat \<Rightarrow> bytes list \<Rightarrow> bytes option list \<Rightarrow> (core_error + unit) \<times> bytes option list" where
  "fill_map index [] m = (Inr (), m)"
| "fill_map index (entry # rest) m =
     (if index \<ge> length m then (Inl InvalidField, m)
      else fill_map (index + 1) rest (m[index := Some entry]))"

definition inbound_from_advertisement :: "resource_advertisement \<Rightarrow> core_error + inbound_resource" where
  "inbound_from_advertisement a =
     (if \<not> adv_encrypted a \<or> length (ra_h a) \<noteq> 32 \<or> length (ra_r a) \<noteq> RANDOM_HASH_SIZE \<or> ra_n a = 0
         \<or> unat (ra_n a) > MAX_EFFICIENT_SIZE div MAPHASH_LEN
      then Inl InvalidField
      else rbind (ok_or InvalidField (try_array 32 (ra_h a))) (\<lambda>hash.
           rbind (ok_or InvalidField (try_array RANDOM_HASH_SIZE (ra_r a))) (\<lambda>random.
             let count = unat (ra_n a);
                 (res, m) = fill_map 0 (chunks_exact MAPHASH_LEN (ra_m a)) (replicate count None)
             in rbind res (\<lambda>_.
                Inr \<lparr>ib_hash = hash, ib_size = ra_t a, ib_total_size = ra_d a, ib_random_hash = random,
                   ib_compressed = adv_compressed a, ib_map = m, ib_parts = replicate count None,
                   ib_outstanding = [], ib_window = WINDOW, ib_retries = 0, ib_last_request = 0,
                   ib_waiting_for_hmu = False\<rparr>))))"

definition is_complete :: "inbound_resource \<Rightarrow> bool" where
  "is_complete ib = list_all (\<lambda>p. p \<noteq> None) (ib_parts ib)"

definition received_parts :: "inbound_resource \<Rightarrow> nat" where
  "received_parts ib = length (filter (\<lambda>p. p \<noteq> None) (ib_parts ib))"

definition total_parts :: "inbound_resource \<Rightarrow> nat" where
  "total_parts ib = length (ib_parts ib)"

definition ready_for_request :: "inbound_resource \<Rightarrow> bool" where
  "ready_for_request ib = (\<not> is_complete ib \<and> ib_outstanding ib = [] \<and> \<not> ib_waiting_for_hmu ib)"

text \<open>The known hashes of the missing parts in the window from \<open>first_missing\<close> on.\<close>

definition window_hashes :: "inbound_resource \<Rightarrow> nat \<Rightarrow> bytes list" where
  "window_hashes ib first_missing =
     List.map_filter (\<lambda>index. if ib_parts ib ! index = None then ib_map ib ! index else None)
       [first_missing ..< min (first_missing + ib_window ib) (length (ib_parts ib))]"

definition next_request :: "u64 \<Rightarrow> inbound_resource \<Rightarrow> bytes option \<times> inbound_resource" where
  "next_request now ib =
     (if is_complete ib then (None, ib)
      else case position (\<lambda>p. p = None) (ib_parts ib) of
        None \<Rightarrow> (None, ib)
      | Some first_missing \<Rightarrow>
          if ib_map ib ! first_missing = None then
            (case List.map_filter id (rev (take first_missing (ib_map ib))) of
               [] \<Rightarrow> (None, ib)
             | known # _ \<Rightarrow>
                 (Some ([HASHMAP_IS_EXHAUSTED] @ known @ ib_hash ib),
                  ib\<lparr>ib_waiting_for_hmu := True, ib_last_request := now\<rparr>))
          else
            let hashes = window_hashes ib first_missing;
                ib = ib\<lparr>ib_outstanding := hashes\<rparr>
            in if hashes = [] then (None, ib)
               else (Some ([HASHMAP_IS_NOT_EXHAUSTED] @ ib_hash ib @ concat hashes),
                     ib\<lparr>ib_last_request := now\<rparr>))"

definition on_part :: "ext \<Rightarrow> bytes \<Rightarrow> inbound_resource \<Rightarrow> bool \<times> inbound_resource" where
  "on_part X part ib =
     (let hash = map_hash X part (ib_random_hash ib) in
      case find (\<lambda>index. ib_map ib ! index = Some hash \<and> ib_parts ib ! index = None)
             [0 ..< length (ib_map ib)] of
        None \<Rightarrow> (False, ib)
      | Some index \<Rightarrow>
          let ib = ib\<lparr>ib_parts := (ib_parts ib)[index := Some part],
                      ib_outstanding := filter (\<lambda>entry. entry \<noteq> hash) (ib_outstanding ib)\<rparr>;
              ib = (if ib_outstanding ib = []
                    then ib\<lparr>ib_window := min (ib_window ib + 1) WINDOW_MAX, ib_retries := 0\<rparr> else ib)
          in (True, ib))"

definition on_hashmap_update ::
    "ext \<Rightarrow> bytes \<Rightarrow> inbound_resource \<Rightarrow> (core_error + unit) \<times> inbound_resource" where
  "on_hashmap_update X d ib =
     (case unpack_hashmap_update X d of
        Inl e \<Rightarrow> (Inl e, ib)
      | Inr (hash, segment, update) \<Rightarrow>
          if hash \<noteq> ib_hash ib then (Inl InvalidField, ib)
          else let start = unat segment * HASHMAP_MAX_LEN;
                   (res, m) = fill_map start (chunks_exact MAPHASH_LEN update) (ib_map ib);
                   ib = ib\<lparr>ib_map := m\<rparr>
            in (case res of Inl e \<Rightarrow> (Inl e, ib)
                | Inr _ \<Rightarrow> (Inr (), ib\<lparr>ib_waiting_for_hmu := False\<rparr>)))"

definition finalize :: "ext \<Rightarrow> bytes \<Rightarrow> inbound_resource \<Rightarrow> core_error + bytes" where
  "finalize X link_key ib =
     (if \<not> is_complete ib then Inl Truncated
      else let parts = List.map_filter id (ib_parts ib)
        in rbind (open_with_key X link_key (reassemble parts)) (\<lambda>stream.
           if length stream < RANDOM_HASH_SIZE then Inl Truncated
           else let payload = drop RANDOM_HASH_SIZE stream
             in rbind (if ib_compressed ib then decompress_payload X payload else Inr payload) (\<lambda>d.
                if word_of_nat (length d) \<noteq> ib_total_size ib
                   \<or> resource_hash X d (ib_random_hash ib) \<noteq> ib_hash ib
                then Inl DecryptFailed
                else Inr d)))"

definition proof_packet :: "ext \<Rightarrow> bytes \<Rightarrow> inbound_resource \<Rightarrow> bytes" where
  "proof_packet X d ib = (let prf = resource_proof X d (ib_hash ib) in ib_hash ib @ prf)"

definition retry_due ::
    "u64 \<Rightarrow> inbound_resource \<Rightarrow> (core_error + bytes option) \<times> inbound_resource" where
  "retry_due now ib =
     (if ib_last_request ib = 0 \<or> sat_sub now (ib_last_request ib) < REQUEST_TIMEOUT_SECS \<or> is_complete ib
      then (Inr None, ib)
      else if ib_retries ib \<ge> MAX_RETRIES then (Inl Unsupported, ib)
      else let ib = ib\<lparr>ib_retries := ib_retries ib + 1,
                       ib_window := max (ib_window ib - 1) WINDOW_MIN\<rparr>;
               (request, ib) = next_request now ib
        in (Inr request, ib))"

end
