(* ===== verification/Node_State.thy ===== *)
theory Node_State
  imports Path_Table Link_State Announces Resource_State
begin

text \<open>
  reticulum-node: the events and errors of lib.rs and the state of \<open>Node\<close> (node.rs) with its
  constructor, the expiry of its duplicate-detection maps, the registration of interfaces and
  destinations and the plain queries. The clock is the field \<open>nd_clock\<close>: the reading of \<open>now_secs()\<close>,
  constant during one call. The locale \<open>ttl_cache\<close> is what duplicate detection relies on.
\<close>

section \<open>Events and errors\<close>

datatype node_error = Core core_error | Unknown

text \<open>The \<open>f32\<close> quotient in \<open>ResourceProgress\<close> is kept as its two numbers, received and total.\<close>

datatype event =
    Announce bytes u8
  | Message bytes bytes
  | LxmfMessage bytes bytes u64 bytes bytes bytes
  | Delivered bytes
  | LinkEstablished bytes
  | LinkData bytes bytes
  | LinkClosed bytes
  | ResourceStarted bytes bytes u64
  | ResourceProgress bytes bytes "nat \<times> nat"
  | ResourceComplete bytes bytes bytes
  | ResourceFailed bytes bytes
  | Error node_error

section \<open>The state\<close>

definition PATH_EXPIRY_SECS :: u64 where "PATH_EXPIRY_SECS = 604800"
definition PATHFINDER_MAX_HOPS :: u8 where "PATHFINDER_MAX_HOPS = 128"
definition PACKET_HASH_TTL_SECS :: u64 where "PACKET_HASH_TTL_SECS = 60"
definition LINK_KEEPALIVE_SECS :: u64 where "LINK_KEEPALIVE_SECS = 360"
definition LINK_STALE_SECS :: u64 where "LINK_STALE_SECS = 720"
definition RECEIPT_TIMEOUT_SECS :: u64 where "RECEIPT_TIMEOUT_SECS = 30"

lemmas node_consts = PATH_EXPIRY_SECS_def PATHFINDER_MAX_HOPS_def PACKET_HASH_TTL_SECS_def
  LINK_KEEPALIVE_SECS_def LINK_STALE_SECS_def RECEIPT_TIMEOUT_SECS_def

datatype local_kind = Single (prove: bool) | Group (group_key: bytes) | Plain

record local_destination =
  ld_name_hash :: bytes
  ld_dest_hash :: bytes
  ld_kind :: local_kind

record pending_receipt =
  pr_destination_public :: public_identity
  pr_expires_at :: u64

record node =
  nd_identity :: identity
  nd_clock :: u64
  nd_locals :: "local_destination list"
  nd_paths :: path_table
  nd_interfaces :: "u16 list"
  nd_transport_enabled :: bool
  nd_seen_announces :: "(bytes \<times> bytes, u64) btree"
  nd_seen_path_requests :: "(bytes \<times> bytes, u64) btree"
  nd_seen_packets :: "(bytes, u64) btree"
  nd_cached_announces :: "(bytes, packet) btree"
  nd_outbound :: "(u16 \<times> bytes) list"
  nd_links :: link_registry
  nd_pending_events :: "event list"
  nd_pending_receipts :: "(bytes, pending_receipt) btree"
  nd_outbound_resources :: "(bytes \<times> bytes, outbound_resource) btree"
  nd_inbound_resources :: "(bytes \<times> bytes, inbound_resource) btree"
  nd_last_prune :: u64

definition node_with_clock :: "identity \<Rightarrow> u64 \<Rightarrow> node" where
  "node_with_clock i c = \<lparr>nd_identity = i, nd_clock = c, nd_locals = [], nd_paths = path_new,
     nd_interfaces = [], nd_transport_enabled = False, nd_seen_announces = [],
     nd_seen_path_requests = [], nd_seen_packets = [], nd_cached_announces = [], nd_outbound = [],
     nd_links = [], nd_pending_events = [], nd_pending_receipts = [], nd_outbound_resources = [],
     nd_inbound_resources = [], nd_last_prune = 0\<rparr>"

definition node_new :: "identity \<Rightarrow> node" where
  "node_new i = node_with_clock i noclock_now"

text \<open>\<open>self.outbound.push_back(..)\<close> once, and in a loop over interfaces.\<close>

definition push_out :: "u16 \<Rightarrow> bytes \<Rightarrow> node \<Rightarrow> node" where
  "push_out i b nd = nd\<lparr>nd_outbound := nd_outbound nd @ [(i, b)]\<rparr>"

definition push_all :: "u16 list \<Rightarrow> bytes \<Rightarrow> node \<Rightarrow> node" where
  "push_all is b nd = fold (\<lambda>i. push_out i b) is nd"

definition maybe_prune :: "u64 \<Rightarrow> node \<Rightarrow> node" where
  "maybe_prune now nd =
     (if nd_last_prune nd \<noteq> 0 \<and> sat_sub now (nd_last_prune nd) < 1 then nd
      else nd\<lparr>nd_last_prune := now,
              nd_seen_packets := bt_retain (\<lambda>_ expires_at. expires_at > now) (nd_seen_packets nd),
              nd_seen_announces := bt_retain (\<lambda>_ expires_at. expires_at > now) (nd_seen_announces nd),
              nd_seen_path_requests := bt_retain (\<lambda>_ expires_at. expires_at > now) (nd_seen_path_requests nd)\<rparr>)"

section \<open>Registration and queries\<close>

definition enable_transport :: "bool \<Rightarrow> node \<Rightarrow> node" where
  "enable_transport enabled nd = nd\<lparr>nd_transport_enabled := enabled\<rparr>"

definition register_interface :: "u16 \<Rightarrow> node \<Rightarrow> node" where
  "register_interface i nd =
     (if i \<in> set (nd_interfaces nd) then nd else nd\<lparr>nd_interfaces := nd_interfaces nd @ [i]\<rparr>)"

definition unregister_interface :: "u16 \<Rightarrow> node \<Rightarrow> node" where
  "unregister_interface i nd = nd\<lparr>nd_interfaces := filter (\<lambda>registered. registered \<noteq> i) (nd_interfaces nd)\<rparr>"

definition push_local :: "local_destination \<Rightarrow> node \<Rightarrow> node" where
  "push_local l nd = nd\<lparr>nd_locals := nd_locals nd @ [l]\<rparr>"

definition register_single_destination :: "ext \<Rightarrow> bytes \<Rightarrow> bytes list \<Rightarrow> node \<Rightarrow> bytes \<times> node" where
  "register_single_destination X app_name aspects nd =
     (let nh = name_hash X app_name aspects;
          dh = destination_hash X nh (id_hash X (nd_identity nd))
      in (dh, push_local \<lparr>ld_name_hash = nh, ld_dest_hash = dh, ld_kind = Single False\<rparr> nd))"

definition register_group_destination_with_identity ::
    "ext \<Rightarrow> bytes \<Rightarrow> bytes list \<Rightarrow> bytes \<Rightarrow> bytes \<Rightarrow> node \<Rightarrow> bytes \<times> node" where
  "register_group_destination_with_identity X app_name aspects ih key nd =
     (let nh = name_hash X app_name aspects;
          dh = group_destination_hash_with_identity X app_name aspects ih
      in (dh, push_local \<lparr>ld_name_hash = nh, ld_dest_hash = dh, ld_kind = Group key\<rparr> nd))"

definition register_group_destination ::
    "ext \<Rightarrow> bytes \<Rightarrow> bytes list \<Rightarrow> bytes \<Rightarrow> node \<Rightarrow> bytes \<times> node" where
  "register_group_destination X app_name aspects key nd =
     (let ih = id_hash X (from_private_bytes (take 32 key) (drop 32 key))
      in register_group_destination_with_identity X app_name aspects ih key nd)"

definition register_plain_destination :: "ext \<Rightarrow> bytes \<Rightarrow> bytes list \<Rightarrow> node \<Rightarrow> bytes \<times> node" where
  "register_plain_destination X app_name aspects nd =
     (let nh = name_hash X app_name aspects;
          dh = group_destination_hash X app_name aspects
      in (dh, push_local \<lparr>ld_name_hash = nh, ld_dest_hash = dh, ld_kind = Plain\<rparr> nd))"

definition is_single :: "local_kind \<Rightarrow> bool" where
  "is_single k = (case k of Single _ \<Rightarrow> True | _ \<Rightarrow> False)"

text \<open>The first local destination of the address; \<open>set_prove\<close> changes that one only.\<close>

definition find_local :: "bytes \<Rightarrow> node \<Rightarrow> local_destination option" where
  "find_local dh nd = find (\<lambda>l. ld_dest_hash l = dh) (nd_locals nd)"

fun update_first :: "('a \<Rightarrow> bool) \<Rightarrow> ('a \<Rightarrow> 'a) \<Rightarrow> 'a list \<Rightarrow> 'a list" where
  "update_first P f [] = []"
| "update_first P f (x # xs) = (if P x then f x # xs else x # update_first P f xs)"

definition set_prove :: "bytes \<Rightarrow> bool \<Rightarrow> node \<Rightarrow> bool \<times> node" where
  "set_prove dh enabled nd =
     (case find_local dh nd of
        None \<Rightarrow> (False, nd)
      | Some l \<Rightarrow>
          (case ld_kind l of
             Single _ \<Rightarrow> (True, nd\<lparr>nd_locals := update_first (\<lambda>l. ld_dest_hash l = dh)
                               (\<lambda>l. l\<lparr>ld_kind := Single enabled\<rparr>) (nd_locals nd)\<rparr>)
           | _ \<Rightarrow> (False, nd)))"

definition pending_receipt_count :: "node \<Rightarrow> nat" where
  "pending_receipt_count nd = length (nd_pending_receipts nd)"

definition local_destinations :: "node \<Rightarrow> bytes list" where
  "local_destinations nd =
     List.map_filter (\<lambda>l. if is_single (ld_kind l) then Some (ld_dest_hash l) else None) (nd_locals nd)"

definition knows_path :: "bytes \<Rightarrow> node \<Rightarrow> bool" where
  "knows_path dh nd = (path_get dh (nd_paths nd) \<noteq> None)"

definition path_public :: "bytes \<Rightarrow> node \<Rightarrow> public_identity option" where
  "path_public dh nd = map_option pe_public (path_get dh (nd_paths nd))"

definition interfaces_snapshot :: "node \<Rightarrow> u16 list" where
  "interfaces_snapshot nd = nd_interfaces nd"

definition paths_snapshot :: "node \<Rightarrow> (bytes \<times> path_entry) list" where
  "paths_snapshot nd = path_snapshot (nd_paths nd)"

definition prune_paths :: "node \<Rightarrow> nat \<times> node" where
  "prune_paths nd =
     (let (t, n) = path_prune (nd_clock nd) (nd_paths nd) in (n, nd\<lparr>nd_paths := t\<rparr>))"

text \<open>\<open>self.paths.prune(now)\<close> where its count is not used.\<close>

definition node_prune :: "node \<Rightarrow> node" where
  "node_prune nd = snd (prune_paths nd)"

definition poll_outbound :: "node \<Rightarrow> (u16 \<times> bytes) option \<times> node" where
  "poll_outbound nd =
     (case nd_outbound nd of [] \<Rightarrow> (None, nd) | x # xs \<Rightarrow> (Some x, nd\<lparr>nd_outbound := xs\<rparr>))"

section \<open>Queues and local destinations\<close>

lemma push_out_simps [simp]:
  "nd_outbound (push_out i b nd) = nd_outbound nd @ [(i, b)]"
  "nd_links (push_out i b nd) = nd_links nd"
  "nd_paths (push_out i b nd) = nd_paths nd"
  "nd_locals (push_out i b nd) = nd_locals nd"
  "nd_identity (push_out i b nd) = nd_identity nd"
  "nd_clock (push_out i b nd) = nd_clock nd"
  "nd_seen_packets (push_out i b nd) = nd_seen_packets nd"
  "nd_seen_announces (push_out i b nd) = nd_seen_announces nd"
  "nd_seen_path_requests (push_out i b nd) = nd_seen_path_requests nd"
  "nd_cached_announces (push_out i b nd) = nd_cached_announces nd"
  "nd_pending_receipts (push_out i b nd) = nd_pending_receipts nd"
  "nd_pending_events (push_out i b nd) = nd_pending_events nd"
  "nd_inbound_resources (push_out i b nd) = nd_inbound_resources nd"
  "nd_outbound_resources (push_out i b nd) = nd_outbound_resources nd"
  "nd_interfaces (push_out i b nd) = nd_interfaces nd"
  "nd_transport_enabled (push_out i b nd) = nd_transport_enabled nd"
  "nd_last_prune (push_out i b nd) = nd_last_prune nd"
  by (simp_all add: push_out_def)

lemma push_all_eq: "push_all is b nd = nd\<lparr>nd_outbound := nd_outbound nd @ map (\<lambda>i. (i, b)) is\<rparr>"
  by (induction "is" arbitrary: nd) (simp_all add: push_all_def push_out_def)

text \<open>The outbound queue is first in, first out.\<close>

lemma poll_push:
  "poll_outbound (push_out i b nd) =
     (if nd_outbound nd = [] then (Some (i, b), nd)
      else (fst (poll_outbound nd), push_out i b (snd (poll_outbound nd))))"
  by (auto simp: poll_outbound_def push_out_def split: list.splits)

lemma find_local_Some:
  "find_local dh nd = Some l \<Longrightarrow> l \<in> set (nd_locals nd) \<and> ld_dest_hash l = dh"
  by (auto simp: find_local_def find_Some_iff)

lemma find_local_None: "find_local dh nd = None \<longleftrightarrow> (\<forall>l \<in> set (nd_locals nd). ld_dest_hash l \<noteq> dh)"
  by (auto simp: find_local_def find_None_iff)

lemma find_update_first:
  "(\<And>x. P (f x) = P x) \<Longrightarrow> find P (update_first P f xs) = map_option f (find P xs)"
  by (induction xs) auto

lemma set_prove_find:
  assumes "find_local dh nd = Some l" and "is_single (ld_kind l)"
  shows "set_prove dh b nd = (True, snd (set_prove dh b nd))"
    and "find_local dh (snd (set_prove dh b nd)) = Some (l\<lparr>ld_kind := Single b\<rparr>)"
proof -
  obtain p where "ld_kind l = Single p" using assms(2) by (auto simp: is_single_def split: local_kind.splits)
  then show "set_prove dh b nd = (True, snd (set_prove dh b nd))"
    and "find_local dh (snd (set_prove dh b nd)) = Some (l\<lparr>ld_kind := Single b\<rparr>)"
    using assms(1) by (simp_all add: set_prove_def find_local_def find_update_first)
qed

lemma interfaces_distinct: "distinct (nd_interfaces nd) \<Longrightarrow> distinct (nd_interfaces (register_interface i nd))"
  by (simp add: register_interface_def)

lemma unregistered: "i \<notin> set (nd_interfaces (unregister_interface i nd))"
  by (simp add: unregister_interface_def)

lemma node_prune_eq: "node_prune nd = nd\<lparr>nd_paths := fst (path_prune (nd_clock nd) (nd_paths nd))\<rparr>"
  by (simp add: node_prune_def prune_paths_def split: prod.splits)

section \<open>The duplicate-detection maps\<close>

locale ttl_cache =
  fixes expiry :: "'k \<Rightarrow> 'm \<Rightarrow> u64 option"
    and mark :: "'k \<Rightarrow> u64 \<Rightarrow> 'm \<Rightarrow> 'm"
    and sweep :: "u64 \<Rightarrow> 'm \<Rightarrow> 'm"
    and ok :: "'m \<Rightarrow> bool"
  assumes ok_mark: "ok m \<Longrightarrow> ok (mark k e m)"
    and ok_sweep: "ok m \<Longrightarrow> ok (sweep now m)"
    and expiry_mark: "expiry k' (mark k e m) = (if k' = k then Some e else expiry k' m)"
    and expiry_sweep: "ok m \<Longrightarrow> expiry k (sweep now m) =
      (case expiry k m of None \<Rightarrow> None | Some e \<Rightarrow> if now < e then Some e else None)"
begin

lemma kept: "ok m \<Longrightarrow> expiry k m = Some e \<Longrightarrow> now < e \<Longrightarrow> expiry k (sweep now m) = Some e"
  by (simp add: expiry_sweep)

lemma dropped: "ok m \<Longrightarrow> expiry k m = Some e \<Longrightarrow> \<not> now < e \<Longrightarrow> expiry k (sweep now m) = None"
  by (simp add: expiry_sweep)

text \<open>A marked key survives any sequence of sweeps before its expiry, whatever else is marked with
  no earlier expiry.\<close>

lemma remembered:
  "ok m \<Longrightarrow> expiry k m = Some e \<Longrightarrow> \<forall>t \<in> set ts. t < e \<Longrightarrow> expiry k (fold sweep ts m) = Some e"
  by (induction ts arbitrary: m) (auto simp: kept ok_sweep)

end

definition cache_expiry :: "'k \<Rightarrow> ('k, u64) btree \<Rightarrow> u64 option" where
  "cache_expiry k m = bt_get k m"

definition cache_mark :: "'k::linorder \<Rightarrow> u64 \<Rightarrow> ('k, u64) btree \<Rightarrow> ('k, u64) btree" where
  "cache_mark k e m = bt_insert k e m"

definition cache_sweep :: "u64 \<Rightarrow> ('k, u64) btree \<Rightarrow> ('k, u64) btree" where
  "cache_sweep now m = bt_retain (\<lambda>_ expires_at. expires_at > now) m"

interpretation seen: ttl_cache cache_expiry cache_mark cache_sweep bt_ok
  by unfold_locales
    (simp_all add: cache_expiry_def cache_mark_def cache_sweep_def bt_oks bt_simps bt.get_retain)

lemma maybe_prune_eq:
  "maybe_prune now nd = nd \<or> maybe_prune now nd = nd\<lparr>nd_last_prune := now,
      nd_seen_packets := cache_sweep now (nd_seen_packets nd),
      nd_seen_announces := cache_sweep now (nd_seen_announces nd),
      nd_seen_path_requests := cache_sweep now (nd_seen_path_requests nd)\<rparr>"
  by (simp add: maybe_prune_def cache_sweep_def)

lemma maybe_prune_simps [simp]:
  "nd_outbound (maybe_prune now nd) = nd_outbound nd"
  "nd_links (maybe_prune now nd) = nd_links nd"
  "nd_paths (maybe_prune now nd) = nd_paths nd"
  "nd_locals (maybe_prune now nd) = nd_locals nd"
  "nd_identity (maybe_prune now nd) = nd_identity nd"
  "nd_clock (maybe_prune now nd) = nd_clock nd"
  "nd_cached_announces (maybe_prune now nd) = nd_cached_announces nd"
  "nd_pending_receipts (maybe_prune now nd) = nd_pending_receipts nd"
  "nd_pending_events (maybe_prune now nd) = nd_pending_events nd"
  "nd_inbound_resources (maybe_prune now nd) = nd_inbound_resources nd"
  "nd_outbound_resources (maybe_prune now nd) = nd_outbound_resources nd"
  "nd_interfaces (maybe_prune now nd) = nd_interfaces nd"
  "nd_transport_enabled (maybe_prune now nd) = nd_transport_enabled nd"
  by (simp_all add: maybe_prune_def)

text \<open>Pruning forgets nothing before its time.\<close>

lemma maybe_prune_keeps:
  assumes "bt_ok (nd_seen_packets nd)" "bt_get h (nd_seen_packets nd) = Some e" "now < e"
  shows "bt_get h (nd_seen_packets (maybe_prune now nd)) = Some e"
  using maybe_prune_eq [of now nd] assms seen.kept [of "nd_seen_packets nd" h e now]
  by (auto simp: cache_expiry_def)

end
