(* ===== verification/Node_Send.thy ===== *)
theory Node_Send
  imports Node_State
begin

text \<open>
  reticulum-node/src/node.rs: what the application asks of a node. Announces, path requests,
  messages to SINGLE, GROUP and PLAIN destinations, Links (establish, send, close) and resources.
  Each operation returns its result, the node and the state of the entropy source.
\<close>

section \<open>Announces, path requests and messages\<close>

definition send_announce ::
    "ext \<Rightarrow> 'r entropy \<Rightarrow> bytes \<Rightarrow> bytes \<Rightarrow> 'r \<Rightarrow> u16 \<Rightarrow> node \<Rightarrow> node \<times> 'r" where
  "send_announce X E dh app_data r i nd =
     (case find (\<lambda>l. ld_dest_hash l = dh \<and> is_single (ld_kind l)) (nd_locals nd) of
        None \<Rightarrow> (nd, r)
      | Some l \<Rightarrow>
          let (rh, r) = E r 10;
              a = announce_build X (nd_identity nd) dh (ld_name_hash l) rh app_data;
              p = packet_announce dh (to_payload a);
              nd = nd\<lparr>nd_cached_announces := bt_insert dh p (nd_cached_announces nd)\<rparr>
          in (push_out i (packet_encode p) nd, r))"

definition request_path :: "ext \<Rightarrow> 'r entropy \<Rightarrow> bytes \<Rightarrow> 'r \<Rightarrow> node \<Rightarrow> node \<times> 'r" where
  "request_path X E dh r nd =
     (let (tag, r) = E r 16;
          tid = (if nd_transport_enabled nd then Some (id_hash X (nd_identity nd)) else None);
          p = packet_encode (path_request X dh tid tag)
      in (push_all (nd_interfaces nd) p nd, r))"

definition send_single_message ::
    "ext \<Rightarrow> 'r entropy \<Rightarrow> bytes \<Rightarrow> bytes \<Rightarrow> 'r \<Rightarrow> bool \<Rightarrow> node
      \<Rightarrow> (node_error + bytes option) \<times> node \<times> 'r" where
  "send_single_message X E dh plaintext r create_receipt nd =
     (let nd = node_prune nd in
      case path_get dh (nd_paths nd) of
        None \<Rightarrow> (Inl Unknown, nd, r)
      | Some entry \<Rightarrow>
          let (ephemeral, r) = E r 32;
              (iv, r) = E r 16;
              ciphertext = token_encrypt X (pe_public entry) plaintext ephemeral iv;
              p = data_single dh ciphertext
          in if pe_hops entry > 1 \<and> pe_next_hop entry = None then (Inl Unknown, nd, r)
             else let p = (if pe_hops entry > 1
                           then p\<lparr>header_type := HEADER_2, propagation := TRANSPORT,
                                  transport_id := pe_next_hop entry\<rparr>
                           else p);
                      ph = full_packet_hash X p;
                      nd = push_out (pe_interface entry) (packet_encode p) nd
               in if create_receipt
                  then (Inr (Some ph),
                        nd\<lparr>nd_pending_receipts := bt_insert ph
                             \<lparr>pr_destination_public = pe_public entry,
                              pr_expires_at = sat_add (nd_clock nd) RECEIPT_TIMEOUT_SECS\<rparr>
                             (nd_pending_receipts nd)\<rparr>, r)
                  else (Inr None, nd, r))"

definition send_message ::
    "ext \<Rightarrow> 'r entropy \<Rightarrow> bytes \<Rightarrow> bytes \<Rightarrow> 'r \<Rightarrow> node \<Rightarrow> (node_error + unit) \<times> node \<times> 'r" where
  "send_message X E dh plaintext r nd =
     (let (res, nd, r) = send_single_message X E dh plaintext r False nd
      in (rbind res (\<lambda>_. Inr ()), nd, r))"

definition send_message_with_receipt ::
    "ext \<Rightarrow> 'r entropy \<Rightarrow> bytes \<Rightarrow> bytes \<Rightarrow> 'r \<Rightarrow> node \<Rightarrow> (node_error + bytes) \<times> node \<times> 'r" where
  "send_message_with_receipt X E dh plaintext r nd =
     (let (res, nd, r) = send_single_message X E dh plaintext r True nd
      in (rbind res (ok_or Unknown), nd, r))"

definition enqueue_destination_packet :: "packet \<Rightarrow> bytes \<Rightarrow> node \<Rightarrow> (node_error + unit) \<times> node" where
  "enqueue_destination_packet p dh nd =
     (let nd = node_prune nd in
      case path_get dh (nd_paths nd) of
        Some path \<Rightarrow>
          if pe_hops path > 1 then
            (case pe_next_hop path of
               None \<Rightarrow> (Inl Unknown, nd)
             | Some next_hop \<Rightarrow>
                 (Inr (), push_out (pe_interface path) (packet_encode
                    (p\<lparr>header_type := HEADER_2, propagation := TRANSPORT,
                       transport_id := Some next_hop\<rparr>)) nd))
          else (Inr (), push_out (pe_interface path) (packet_encode p) nd)
      | None \<Rightarrow>
          if nd_interfaces nd = [] then (Inl Unknown, nd)
          else (Inr (), push_all (nd_interfaces nd) (packet_encode p) nd))"

text \<open>The key of the first local GROUP destination of the address.\<close>

definition find_group_key :: "bytes \<Rightarrow> node \<Rightarrow> bytes option" where
  "find_group_key dh nd =
     (case List.map_filter (\<lambda>l. if ld_dest_hash l = dh
                 then (case ld_kind l of Group key \<Rightarrow> Some key | _ \<Rightarrow> None) else None) (nd_locals nd) of
        [] \<Rightarrow> None | key # _ \<Rightarrow> Some key)"

definition send_group_message ::
    "ext \<Rightarrow> 'r entropy \<Rightarrow> bytes \<Rightarrow> bytes \<Rightarrow> 'r \<Rightarrow> node \<Rightarrow> (node_error + unit) \<times> node \<times> 'r" where
  "send_group_message X E dh plaintext r nd =
     (case find_group_key dh nd of
        None \<Rightarrow> (Inl Unknown, nd, r)
      | Some key \<Rightarrow>
          let (iv, r) = E r 16;
              ciphertext = seal_with_key X key plaintext iv;
              (res, nd) = enqueue_destination_packet (data_for GROUP dh ciphertext) dh nd
          in (res, nd, r))"

definition send_plain_message :: "bytes \<Rightarrow> bytes \<Rightarrow> node \<Rightarrow> (node_error + unit) \<times> node" where
  "send_plain_message dh plaintext nd =
     enqueue_destination_packet (data_for PLAIN dh plaintext) dh nd"

section \<open>Links\<close>

definition establish_link ::
    "ext \<Rightarrow> 'r entropy \<Rightarrow> bytes \<Rightarrow> 'r \<Rightarrow> node \<Rightarrow> (node_error + bytes) \<times> node \<times> 'r" where
  "establish_link X E dh r nd =
     (let nd = node_prune nd in
      case path_get dh (nd_paths nd) of
        None \<Rightarrow> (Inl Unknown, nd, r)
      | Some entry \<Rightarrow>
          let (ephemeral, r) = ephemeral_generate X E r;
              p = link_request dh (link_request_payload ephemeral);
              link_id = link_id_from_request X p;
              p = (if pe_hops entry > 1
                   then p\<lparr>header_type := HEADER_2, propagation := TRANSPORT,
                          transport_id := pe_next_hop entry\<rparr> else p)
          in if pe_hops entry > 1 \<and> transport_id p = None then (Inl Unknown, nd, r)
             else let now = nd_clock nd;
                      nd = nd\<lparr>nd_links := links_insert link_id
                             \<lparr>le_status = Pending, le_initiator = True, le_ephemeral = ephemeral,
                              le_peer_x25519_pub = None, le_destination_public = Some (pe_public entry),
                              le_derived_key = None, le_interface = pe_interface entry,
                              le_last_activity = now, le_last_keepalive = now\<rparr> (nd_links nd)\<rparr>
                  in (Inr link_id, push_out (pe_interface entry) (packet_encode p) nd, r))"

text \<open>\<open>links.get(id).filter(Active).and_then(key, interface)\<close>.\<close>

definition active_key :: "bytes \<Rightarrow> node \<Rightarrow> (bytes \<times> u16) option" where
  "active_key link_id nd =
     (case links_get link_id (nd_links nd) of
        None \<Rightarrow> None
      | Some link \<Rightarrow>
          if le_status link = Active
          then map_option (\<lambda>key. (key, le_interface link)) (le_derived_key link) else None)"

text \<open>\<open>if let Some(link) = links.get_mut(id) { link.last_activity = now }\<close>.\<close>

definition touch_link :: "bytes \<Rightarrow> node \<Rightarrow> node" where
  "touch_link link_id nd =
     nd\<lparr>nd_links := links_update link_id (\<lambda>l. l\<lparr>le_last_activity := nd_clock nd\<rparr>) (nd_links nd)\<rparr>"

definition enqueue_encrypted_link_context ::
    "ext \<Rightarrow> 'r entropy \<Rightarrow> bytes \<Rightarrow> u16 \<Rightarrow> u8 \<Rightarrow> bytes \<Rightarrow> bytes \<Rightarrow> 'r \<Rightarrow> node \<Rightarrow> node \<times> 'r" where
  "enqueue_encrypted_link_context X E link_id i c plaintext key r nd =
     (let (iv, r) = E r 16;
          encrypted = seal_with_key X key plaintext iv
      in (push_out i (packet_encode (link_context link_id c encrypted)) nd, r))"

definition link_send ::
    "ext \<Rightarrow> 'r entropy \<Rightarrow> bytes \<Rightarrow> bytes \<Rightarrow> 'r \<Rightarrow> node \<Rightarrow> (node_error + unit) \<times> node \<times> 'r" where
  "link_send X E link_id plaintext r nd =
     (case active_key link_id nd of
        None \<Rightarrow> (Inl Unknown, nd, r)
      | Some (key, i) \<Rightarrow>
          let (iv, r) = E r 16;
              ciphertext = seal_with_key X key plaintext iv;
              nd = push_out i (packet_encode (link_data link_id ciphertext)) nd
          in (Inr (), touch_link link_id nd, r))"

text \<open>\<open>None\<close> when the choice of a random hash runs for ever (see \<open>choose_map\<close>).\<close>

definition send_resource ::
    "ext \<Rightarrow> 'r entropy \<Rightarrow> bytes \<Rightarrow> bytes \<Rightarrow> 'r \<Rightarrow> node \<Rightarrow> ((node_error + bytes) \<times> node \<times> 'r) option" where
  "send_resource X E link_id d r nd =
     (case active_key link_id nd of
        None \<Rightarrow> Some (Inl Unknown, nd, r)
      | Some (key, i) \<Rightarrow>
          (case outbound_new X E d key r (nd_clock nd) of
             None \<Rightarrow> None
           | Some (Inl e, r) \<Rightarrow> Some (Inl (Core e), nd, r)
           | Some (Inr (resource, advertisement), r) \<Rightarrow>
               let hash = ob_hash resource;
                   nd = nd\<lparr>nd_outbound_resources :=
                            bt_insert (link_id, hash) resource (nd_outbound_resources nd)\<rparr>;
                   (nd, r) = enqueue_encrypted_link_context X E link_id i RESOURCE_ADV advertisement key r nd
               in Some (Inr hash, nd, r)))"

definition close_link :: "bytes \<Rightarrow> node \<Rightarrow> node" where
  "close_link link_id nd =
     (case links_get link_id (nd_links nd) of
        None \<Rightarrow> nd
      | Some link \<Rightarrow>
          if le_status link \<noteq> Closed then
            nd\<lparr>nd_links := links_update link_id (\<lambda>l. l\<lparr>le_status := Closed\<rparr>) (nd_links nd),
               nd_pending_events := nd_pending_events nd @ [LinkClosed link_id]\<rparr>
          else nd)"

section \<open>The clock tick\<close>

text \<open>The pass over the links: the entries after it, the keepalives to send, the links closed.\<close>

fun tick_links :: "u64 \<Rightarrow> link_registry \<Rightarrow> link_registry \<times> (u16 \<times> bytes) list \<times> bytes list" where
  "tick_links now [] = ([], [], [])"
| "tick_links now ((link_id, link) # rest) =
     (let (rest', keepalives, closed) = tick_links now rest in
      if le_status link \<noteq> Active then ((link_id, link) # rest', keepalives, closed)
      else if sat_sub now (le_last_activity link) \<ge> LINK_STALE_SECS then
        ((link_id, link\<lparr>le_status := Closed\<rparr>) # rest', keepalives, link_id # closed)
      else if le_initiator link \<and> sat_sub now (le_last_keepalive link) \<ge> LINK_KEEPALIVE_SECS then
        ((link_id, link\<lparr>le_last_keepalive := now\<rparr>) # rest', (le_interface link, link_id) # keepalives, closed)
      else ((link_id, link) # rest', keepalives, closed))"

text \<open>One round of the retry loop over the keys of the inbound resources.\<close>

definition tick_resource ::
    "ext \<Rightarrow> 'r entropy \<Rightarrow> u64 \<Rightarrow> bytes \<times> bytes \<Rightarrow> node \<times> 'r option \<Rightarrow> node \<times> 'r option" where
  "tick_resource X E now key s =
     (case s of (nd, rng) \<Rightarrow>
      (case bt_get key (nd_inbound_resources nd) of
         None \<Rightarrow> (nd, rng)
       | Some resource \<Rightarrow>
           let (retry, resource) = retry_due now resource;
               nd = nd\<lparr>nd_inbound_resources := bt_insert key resource (nd_inbound_resources nd)\<rparr>
           in (case retry of
                 Inr (Some request) \<Rightarrow>
                   (case (rng, links_get (fst key) (nd_links nd)) of
                      (Some r, Some link) \<Rightarrow>
                        (case le_derived_key link of
                           Some k \<Rightarrow>
                             let (nd, r) = enqueue_encrypted_link_context X E (fst key) (le_interface link)
                                   RESOURCE_REQ request k r nd
                             in (nd, Some r)
                         | None \<Rightarrow> (nd, rng))
                    | _ \<Rightarrow> (nd, rng))
               | Inl _ \<Rightarrow>
                   (nd\<lparr>nd_inbound_resources := bt_remove key (nd_inbound_resources nd),
                       nd_pending_events := nd_pending_events nd @ [ResourceFailed (fst key) (snd key)]\<rparr>, rng)
               | Inr None \<Rightarrow> (nd, rng))))"

definition tick_inner :: "ext \<Rightarrow> 'r entropy \<Rightarrow> 'r option \<Rightarrow> node \<Rightarrow> event list \<times> node \<times> 'r option" where
  "tick_inner X E rng nd =
     (let now = nd_clock nd;
          nd = nd\<lparr>nd_pending_receipts :=
                   bt_retain (\<lambda>_ receipt. pr_expires_at receipt > now) (nd_pending_receipts nd)\<rparr>;
          (ls, keepalives, closed) = tick_links now (nd_links nd);
          nd = nd\<lparr>nd_links := ls\<rparr>;
          nd = fold (\<lambda>(i, link_id). push_out i
                 (packet_encode (link_data_with_context link_id [0xFF] KEEPALIVE))) keepalives nd;
          nd = nd\<lparr>nd_pending_events := nd_pending_events nd @ map LinkClosed closed\<rparr>;
          (nd, rng) = fold (tick_resource X E now) (bt_keys (nd_inbound_resources nd)) (nd, rng)
      in (nd_pending_events nd, nd\<lparr>nd_pending_events := []\<rparr>, rng))"

text \<open>\<open>tick\<close> passes no entropy source; which one \<open>tick_inner\<close> names is then of no consequence.\<close>

definition tick :: "ext \<Rightarrow> node \<Rightarrow> event list \<times> node" where
  "tick X nd = (let (evs, nd, _) = tick_inner X seeded_fill None nd in (evs, nd))"

definition tick_with_entropy :: "ext \<Rightarrow> 'r entropy \<Rightarrow> 'r \<Rightarrow> node \<Rightarrow> event list \<times> node \<times> 'r" where
  "tick_with_entropy X E r nd =
     (let (evs, nd, rng) = tick_inner X E (Some r) nd
      in (evs, nd, case rng of Some r \<Rightarrow> r | None \<Rightarrow> r))"

end
