(* ===== verification/Node_Inbound.thy ===== *)
theory Node_Inbound
  imports Node_Send
begin

text \<open>
  reticulum-node/src/node.rs: what a node does with a received packet. \<open>handle_inbound_inner\<close> decodes,
  drops duplicates and dispatches to one handler per kind of packet. Handlers return the events, the
  node and the state of the entropy source, which is absent (\<open>None\<close>) in \<open>handle_inbound\<close>.
\<close>

section \<open>Links and resources\<close>

definition array_at :: "nat \<Rightarrow> nat \<Rightarrow> bytes \<Rightarrow> bytes option" where
  "array_at i j bs = Option.bind (get_range i j bs) (try_array (j - i))"

definition handle_link_request ::
    "ext \<Rightarrow> 'r entropy \<Rightarrow> packet \<Rightarrow> bytes \<Rightarrow> u16 \<Rightarrow> 'r \<Rightarrow> node \<Rightarrow> event list \<times> node \<times> 'r" where
  "handle_link_request X E p dh i r nd =
     (if header_type p = HEADER_2
         \<and> (\<not> nd_transport_enabled nd \<or> transport_id p \<noteq> Some (id_hash X (nd_identity nd)))
      then ([], nd, r)
      else if \<not> list_ex (\<lambda>l. ld_dest_hash l = dh \<and> is_single (ld_kind l)) (nd_locals nd)
      then ([], nd, r)
      else case parse_link_request (data p) of
        Inl _ \<Rightarrow> ([], nd, r)
      | Inr (peer_x25519_pub, _) \<Rightarrow>
          let link_id = link_id_from_request X p in
          if links_get link_id (nd_links nd) \<noteq> None then ([], nd, r)
          else let (xprv, r) = E r 32;
                   (eprv, r) = E r 32;
                   ephemeral = ephemeral_from_private_bytes X xprv eprv;
                   key = derive_link_key X (x25519_prv ephemeral) peer_x25519_pub link_id;
                   prf = build_link_proof X (nd_identity nd) link_id ephemeral;
                   now = nd_clock nd;
                   nd = nd\<lparr>nd_links := links_insert link_id
                          \<lparr>le_status = Active, le_initiator = False, le_ephemeral = ephemeral,
                           le_peer_x25519_pub = Some peer_x25519_pub, le_destination_public = None,
                           le_derived_key = Some key, le_interface = i,
                           le_last_activity = now, le_last_keepalive = now\<rparr> (nd_links nd)\<rparr>
               in ([LinkEstablished link_id],
                   push_out i (packet_encode (packet_proof link_id prf LRPROOF)) nd, r))"

definition handle_link_proof ::
    "ext \<Rightarrow> 'r entropy \<Rightarrow> packet \<Rightarrow> bytes \<Rightarrow> 'r option \<Rightarrow> node \<Rightarrow> event list \<times> node \<times> 'r option" where
  "handle_link_proof X E p link_id rng nd =
     (case links_get link_id (nd_links nd) of
        None \<Rightarrow> ([], nd, rng)
      | Some link \<Rightarrow>
          if \<not> (le_status link = Pending \<and> le_initiator link) then ([], nd, rng)
          else case le_destination_public link of
            None \<Rightarrow> ([], nd, rng)
          | Some destination_public \<Rightarrow>
              (case verify_link_proof X destination_public link_id (data p) of
                 Inl e \<Rightarrow> ([Error (Core e)], nd, rng)
               | Inr peer_x25519_pub \<Rightarrow>
                   let key = derive_link_key X (x25519_prv (le_ephemeral link)) peer_x25519_pub link_id;
                       i = le_interface link;
                       now = nd_clock nd;
                       nd = nd\<lparr>nd_links := links_update link_id
                              (\<lambda>l. l\<lparr>le_status := Active, le_peer_x25519_pub := Some peer_x25519_pub,
                                    le_derived_key := Some key, le_last_activity := now\<rparr>) (nd_links nd)\<rparr>;
                       (nd, rng) = (case rng of
                           None \<Rightarrow> (nd, None)
                         | Some r \<Rightarrow>
                             let (iv, r) = E r 16;
                                 rtt = [0xCB, 0, 0, 0, 0, 0, 0, 0, 0];
                                 encrypted = seal_with_key X key rtt iv
                             in (push_out i (packet_encode
                                   (link_data_with_context link_id encrypted LRRTT)) nd, Some r))
                   in ([LinkEstablished link_id], nd, rng)))"

text \<open>\<open>RESOURCE_ADV\<close>: \<open>next_request\<close> on the entry just inserted.\<close>

definition request_next ::
    "ext \<Rightarrow> 'r entropy \<Rightarrow> bytes \<Rightarrow> bytes \<Rightarrow> u16 \<Rightarrow> bytes \<Rightarrow> 'r \<Rightarrow> node \<Rightarrow> node \<times> 'r" where
  "request_next X E link_id hash i key r nd =
     (case bt_get (link_id, hash) (nd_inbound_resources nd) of
        None \<Rightarrow> (nd, r)
      | Some resource \<Rightarrow>
          let (request, resource) = next_request (nd_clock nd) resource;
              nd = nd\<lparr>nd_inbound_resources := bt_insert (link_id, hash) resource (nd_inbound_resources nd)\<rparr>
          in (case request of
                None \<Rightarrow> (nd, r)
              | Some request \<Rightarrow> enqueue_encrypted_link_context X E link_id i RESOURCE_REQ request key r nd))"

definition resource_answer ::
    "ext \<Rightarrow> 'r entropy \<Rightarrow> bytes \<Rightarrow> u16 \<Rightarrow> bytes \<Rightarrow> resource_output \<Rightarrow> node \<times> 'r \<Rightarrow> node \<times> 'r" where
  "resource_answer X E link_id i key output s =
     (case s of (nd, r) \<Rightarrow>
      (case output of
         Part part \<Rightarrow> (push_out i (packet_encode (link_context link_id RESOURCE part)) nd, r)
       | HashmapUpdate update \<Rightarrow>
           enqueue_encrypted_link_context X E link_id i RESOURCE_HMU update key r nd))"

definition handle_resource_context ::
    "ext \<Rightarrow> 'r entropy \<Rightarrow> bytes \<Rightarrow> u16 \<Rightarrow> bytes \<Rightarrow> u8 \<Rightarrow> bytes \<Rightarrow> 'r \<Rightarrow> node
      \<Rightarrow> event list \<times> node \<times> 'r" where
  "handle_resource_context X E link_id i key c plaintext r nd =
     (if c = RESOURCE_ADV then
        (case adv_unpack X plaintext of
           Inl e \<Rightarrow> ([Error (Core e)], nd, r)
         | Inr advertisement \<Rightarrow>
             (case inbound_from_advertisement advertisement of
                Inl e \<Rightarrow> ([Error (Core e)], nd, r)
              | Inr resource \<Rightarrow>
                  let hash = ib_hash resource; size = ib_total_size resource;
                      nd = nd\<lparr>nd_inbound_resources :=
                               bt_insert (link_id, hash) resource (nd_inbound_resources nd)\<rparr>;
                      (nd, r) = request_next X E link_id hash i key r nd
                  in ([ResourceStarted link_id hash size], nd, r)))
      else if c = RESOURCE_REQ then
        (case (if plaintext \<noteq> [] \<and> hd plaintext = 0xFF then array_at 5 37 plaintext
               else array_at 1 33 plaintext) of
           None \<Rightarrow> ([], nd, r)
         | Some hash \<Rightarrow>
             (case bt_get (link_id, hash) (nd_outbound_resources nd) of
                None \<Rightarrow> ([], nd, r)
              | Some resource \<Rightarrow>
                  let (outputs, resource) = on_request X plaintext (nd_clock nd) resource;
                      nd = nd\<lparr>nd_outbound_resources :=
                               bt_insert (link_id, hash) resource (nd_outbound_resources nd)\<rparr>;
                      (nd, r) = fold (resource_answer X E link_id i key) outputs (nd, r)
                  in ([], nd, r)))
      else if c = RESOURCE_HMU then
        (case array_at 0 32 plaintext of
           None \<Rightarrow> ([], nd, r)
         | Some hash \<Rightarrow>
             (case bt_get (link_id, hash) (nd_inbound_resources nd) of
                None \<Rightarrow> ([], nd, r)
              | Some resource \<Rightarrow>
                  let (res, resource) = on_hashmap_update X plaintext resource;
                      nd = nd\<lparr>nd_inbound_resources :=
                               bt_insert (link_id, hash) resource (nd_inbound_resources nd)\<rparr>
                  in (case res of
                        Inl _ \<Rightarrow> ([], nd, r)
                      | Inr _ \<Rightarrow>
                          let (nd, r) = request_next X E link_id hash i key r nd in ([], nd, r))))
      else if c = RESOURCE_ICL \<or> c = RESOURCE_RCL then
        (case array_at 0 32 plaintext of
           None \<Rightarrow> ([], nd, r)
         | Some hash \<Rightarrow>
             ([ResourceFailed link_id hash],
              nd\<lparr>nd_inbound_resources := bt_remove (link_id, hash) (nd_inbound_resources nd),
                 nd_outbound_resources := bt_remove (link_id, hash) (nd_outbound_resources nd)\<rparr>, r))
      else ([], nd, r))"

text \<open>The branch of the part handler for a resource that is not complete: the next request is
  computed (which changes the resource) and sent only when no retry is outstanding.\<close>

definition part_request ::
    "ext \<Rightarrow> 'r entropy \<Rightarrow> bytes \<times> bytes \<Rightarrow> u16 \<Rightarrow> bytes \<Rightarrow> 'r option \<Rightarrow> node \<Rightarrow> node \<times> 'r option" where
  "part_request X E rk i key rng nd =
     (case (rng, bt_get rk (nd_inbound_resources nd)) of
        (Some r, Some resource) \<Rightarrow>
          if ready_for_request resource then
            let (request, resource) = next_request (nd_clock nd) resource;
                nd = nd\<lparr>nd_inbound_resources := bt_insert rk resource (nd_inbound_resources nd)\<rparr>
            in (case request of
                  None \<Rightarrow> (nd, Some r)
                | Some request \<Rightarrow>
                    if ib_retries resource = 0 then
                      let (nd, r) = enqueue_encrypted_link_context X E (fst rk) i RESOURCE_REQ request key r nd
                      in (nd, Some r)
                    else (nd, Some r))
          else (nd, Some r)
      | _ \<Rightarrow> (nd, rng))"

text \<open>The branch for a complete one: it is removed, then proved or reported as failed.\<close>

definition part_complete ::
    "ext \<Rightarrow> bytes \<times> bytes \<Rightarrow> u16 \<Rightarrow> bytes \<Rightarrow> inbound_resource \<Rightarrow> node \<Rightarrow> event list \<times> node" where
  "part_complete X rk i key resource nd =
     (let nd = nd\<lparr>nd_inbound_resources := bt_remove rk (nd_inbound_resources nd)\<rparr>
      in case finalize X key resource of
           Inr d \<Rightarrow>
             ([ResourceComplete (fst rk) (snd rk) d],
              push_out i (packet_encode
                (packet_proof (fst rk) (proof_packet X d resource) RESOURCE_PRF)) nd)
         | Inl _ \<Rightarrow> ([ResourceFailed (fst rk) (snd rk)], nd))"

fun handle_part_candidates ::
    "ext \<Rightarrow> 'r entropy \<Rightarrow> (bytes \<times> bytes) list \<Rightarrow> u16 \<Rightarrow> bytes \<Rightarrow> bytes \<Rightarrow> 'r option \<Rightarrow> node
      \<Rightarrow> event list \<times> node \<times> 'r option" where
  "handle_part_candidates X E [] i key part rng nd = ([], nd, rng)"
| "handle_part_candidates X E (rk # rest) i key part rng nd =
     (case bt_get rk (nd_inbound_resources nd) of
        None \<Rightarrow> handle_part_candidates X E rest i key part rng nd
      | Some resource \<Rightarrow>
          (case on_part X part resource of
             (False, _) \<Rightarrow> handle_part_candidates X E rest i key part rng nd
           | (True, resource) \<Rightarrow>
               let nd = nd\<lparr>nd_inbound_resources := bt_insert rk resource (nd_inbound_resources nd)\<rparr>;
                   progress = ResourceProgress (fst rk) (snd rk) (received_parts resource, total_parts resource)
               in if is_complete resource then
                    let (evs, nd) = part_complete X rk i key resource nd in (progress # evs, nd, rng)
                  else
                    let (nd, rng) = part_request X E rk i key rng nd in ([progress], nd, rng)))"

definition handle_resource_part ::
    "ext \<Rightarrow> 'r entropy \<Rightarrow> bytes \<Rightarrow> u16 \<Rightarrow> bytes \<Rightarrow> bytes \<Rightarrow> 'r option \<Rightarrow> node
      \<Rightarrow> event list \<times> node \<times> 'r option" where
  "handle_resource_part X E link_id i key part rng nd =
     handle_part_candidates X E
       (filter (\<lambda>(candidate_link, _). candidate_link = link_id) (bt_keys (nd_inbound_resources nd)))
       i key part rng nd"

definition handle_link_data ::
    "ext \<Rightarrow> 'r entropy \<Rightarrow> packet \<Rightarrow> bytes \<Rightarrow> u16 \<Rightarrow> 'r option \<Rightarrow> node \<Rightarrow> event list \<times> node \<times> 'r option" where
  "handle_link_data X E p link_id i rng nd =
     (case links_get link_id (nd_links nd) of
        None \<Rightarrow> ([], nd, rng)
      | Some link \<Rightarrow>
          if \<not> (le_status link = Active \<and> le_interface link = i) then ([], nd, rng)
          else case le_derived_key link of
            None \<Rightarrow> ([], nd, rng)
          | Some key \<Rightarrow>
              if ctx p = RESOURCE then handle_resource_part X E link_id i key (data p) rng nd
              else if ctx p = KEEPALIVE then
                ([], touch_link link_id
                       (if data p = [0xFF]
                        then push_out i (packet_encode (link_data_with_context link_id [0xFE] KEEPALIVE)) nd
                        else nd), rng)
              else (case open_with_key X key (data p) of
                 Inl e \<Rightarrow> ([Error (Core e)], nd, rng)
               | Inr plaintext \<Rightarrow>
                   let nd = touch_link link_id nd in
                   if ctx p = LRRTT then ([], nd, rng)
                   else if ctx p = LINKCLOSE then
                     (if plaintext = link_id
                      then let (evs, nd) = tick X (close_link link_id nd) in (evs, nd, rng)
                      else ([], nd, rng))
                   else if ctx p = 0 then ([LinkData link_id plaintext], nd, rng)
                   else if ctx p \<in> {RESOURCE_ADV, RESOURCE_REQ, RESOURCE_HMU, RESOURCE_ICL, RESOURCE_RCL} then
                     (case rng of
                        None \<Rightarrow> ([], nd, None)
                      | Some r \<Rightarrow>
                          let (evs, nd, r) = handle_resource_context X E link_id i key (ctx p) plaintext r nd
                          in (evs, nd, Some r))
                   else ([], nd, rng)))"

definition handle_resource_proof :: "packet \<Rightarrow> bytes \<Rightarrow> node \<Rightarrow> event list \<times> node" where
  "handle_resource_proof p link_id nd =
     (case array_at 0 32 (data p) of
        None \<Rightarrow> ([], nd)
      | Some hash \<Rightarrow>
          (case bt_get (link_id, hash) (nd_outbound_resources nd) of
             None \<Rightarrow> ([], nd)
           | Some resource \<Rightarrow>
               let (completed, resource) = on_proof (data p) resource;
                   nd = nd\<lparr>nd_outbound_resources :=
                            bt_insert (link_id, hash) resource (nd_outbound_resources nd)\<rparr>
               in if completed
                  then ([ResourceComplete link_id hash []],
                        nd\<lparr>nd_outbound_resources := bt_remove (link_id, hash) (nd_outbound_resources nd)\<rparr>)
                  else ([], nd)))"

section \<open>Routing and delivery\<close>

definition handle_delivery_proof :: "ext \<Rightarrow> packet \<Rightarrow> bytes \<Rightarrow> node \<Rightarrow> event list \<times> node" where
  "handle_delivery_proof X p proof_destination nd =
     (case array_at 0 32 (data p) of
        None \<Rightarrow> ([], nd)
      | Some ph \<Rightarrow>
          if proof_destination_hash ph \<noteq> proof_destination then ([], nd)
          else case bt_get ph (nd_pending_receipts nd) of
            None \<Rightarrow> ([], nd)
          | Some receipt \<Rightarrow>
              if verify_proof X (pr_destination_public receipt) (data p) \<noteq> Inr ph then ([], nd)
              else ([Delivered ph],
                    nd\<lparr>nd_pending_receipts := bt_remove ph (nd_pending_receipts nd)\<rparr>))"

definition announce_timestamp :: "bytes \<Rightarrow> u64" where
  "announce_timestamp rh = foldl (\<lambda>v b. push_bit 8 v OR ucast b) 0 (drop 5 rh)"

text \<open>The announce a transport node passes on.\<close>

definition forwarded_announce :: "ext \<Rightarrow> packet \<Rightarrow> node \<Rightarrow> packet" where
  "forwarded_announce X p nd =
     p\<lparr>header_type := HEADER_2, propagation := TRANSPORT,
       transport_id := Some (id_hash X (nd_identity nd))\<rparr>"

definition handle_announce :: "ext \<Rightarrow> packet \<Rightarrow> bytes \<Rightarrow> u16 \<Rightarrow> node \<Rightarrow> event list \<times> node" where
  "handle_announce X p dh i nd =
     (if list_ex (\<lambda>l. ld_dest_hash l = dh) (nd_locals nd) then ([], nd)
      else case announce_parse (data p) (context_flag p) of
        Inl _ \<Rightarrow> ([], nd)
      | Inr a \<Rightarrow>
          (case announce_verify X a dh of
             Inl e \<Rightarrow> ([Error (Core e)], nd)
           | Inr _ \<Rightarrow>
               let now = nd_clock nd; seen_key = (dh, an_random_hash a) in
               if bt_contains seen_key (nd_seen_announces nd) then ([], nd)
               else let nd = nd\<lparr>nd_seen_announces :=
                              bt_insert seen_key (sat_add now PATH_EXPIRY_SECS) (nd_seen_announces nd)\<rparr>
                 in (case pub_from_bytes (an_public a) of
                       Inl e \<Rightarrow> ([Error (Core e)], nd)
                     | Inr public \<Rightarrow>
                         let entry = \<lparr>pe_interface = i,
                               pe_next_hop = (if header_type p = HEADER_2 then transport_id p else None),
                               pe_hops = hops p, pe_expires_at = sat_add now PATH_EXPIRY_SECS,
                               pe_timestamp = announce_timestamp (an_random_hash a),
                               pe_public = public, pe_ratchet = an_ratchet a\<rparr>;
                             (t, accepted) = path_update dh entry now (nd_paths nd);
                             nd = nd\<lparr>nd_paths := t\<rparr>
                         in if \<not> accepted then ([], nd)
                            else let nd = nd\<lparr>nd_cached_announces := bt_insert dh p (nd_cached_announces nd)\<rparr>;
                                     nd = (if nd_transport_enabled nd \<and> hops p < PATHFINDER_MAX_HOPS
                                              \<and> ctx p \<noteq> PATH_RESPONSE
                                           then push_all (filter (\<lambda>j. j \<noteq> i) (nd_interfaces nd))
                                                  (packet_encode (forwarded_announce X p nd)) nd
                                           else nd)
                              in ([Announce dh (hops p)], nd))))"

definition handle_path_request :: "ext \<Rightarrow> packet \<Rightarrow> u16 \<Rightarrow> node \<Rightarrow> node" where
  "handle_path_request X p i nd =
     (if length (data p) < 32 then nd
      else let target = take 16 (data p);
               (requester, tag_offset) = (if length (data p) \<ge> 48 then (Some (sub 16 32 (data p)), 32)
                                          else (None, 16));
               tag = sub tag_offset (tag_offset + 16) (data p);
               now = nd_clock nd
        in if bt_contains (target, tag) (nd_seen_path_requests nd) then nd
           else let nd = nd\<lparr>nd_seen_path_requests :=
                            bt_insert (target, tag) (sat_add now 15) (nd_seen_path_requests nd)\<rparr>;
                    is_local = list_ex (\<lambda>l. ld_dest_hash l = target) (nd_locals nd);
                    path = path_get target (nd_paths nd)
             in if \<not> is_local \<and> (\<not> nd_transport_enabled nd \<or> path = None) then nd
                else if (case (requester, path) of
                           (Some rq, Some e) \<Rightarrow> pe_next_hop e = Some rq | _ \<Rightarrow> False) then nd
                else case bt_get target (nd_cached_announces nd) of
                  None \<Rightarrow> nd
                | Some response \<Rightarrow>
                    let response = response\<lparr>ctx := PATH_RESPONSE\<rparr>;
                        response =
                          (if is_local then response\<lparr>header_type := HEADER_1, propagation := BROADCAST,
                                                     hops := 0, transport_id := None\<rparr>
                           else case path of
                             Some e \<Rightarrow> response\<lparr>header_type := HEADER_2, propagation := TRANSPORT,
                                         hops := pe_hops e,
                                         transport_id := Some (id_hash X (nd_identity nd))\<rparr>
                           | None \<Rightarrow> response)
                    in push_out i (packet_encode response) nd)"

text \<open>A data packet of a destination that is not local, in transport.\<close>

definition forward_data :: "packet \<Rightarrow> bytes \<Rightarrow> u16 \<Rightarrow> node \<Rightarrow> node" where
  "forward_data p dh i nd =
     (let nd = node_prune nd in
      case path_get dh (nd_paths nd) of
        None \<Rightarrow> nd
      | Some path \<Rightarrow>
          if pe_interface path = i then nd
          else if pe_hops path > 1 then
            (case pe_next_hop path of
               None \<Rightarrow> nd
             | Some next_hop \<Rightarrow>
                 push_out (pe_interface path) (packet_encode (p\<lparr>transport_id := Some next_hop\<rparr>)) nd)
          else push_out (pe_interface path) (packet_encode
                 (p\<lparr>header_type := HEADER_1, propagation := BROADCAST, transport_id := None\<rparr>)) nd)"

definition handle_data :: "ext \<Rightarrow> packet \<Rightarrow> bytes \<Rightarrow> u16 \<Rightarrow> node \<Rightarrow> event list \<times> node" where
  "handle_data X p dh i nd =
     (if header_type p = HEADER_2
         \<and> (\<not> nd_transport_enabled nd \<or> transport_id p \<noteq> Some (id_hash X (nd_identity nd)))
      then ([], nd)
      else case find_local dh nd of
        None \<Rightarrow>
          ([], if header_type p = HEADER_2 \<and> hops p < PATHFINDER_MAX_HOPS then forward_data p dh i nd else nd)
      | Some l \<Rightarrow>
          (case (case ld_kind l of
                   Single prv \<Rightarrow> if dest_type p = SINGLE
                     then Some (token_decrypt X (nd_identity nd) (data p), prv) else None
                 | Group key \<Rightarrow> if dest_type p = GROUP
                     then Some (open_with_key X key (data p), False) else None
                 | Plain \<Rightarrow> if dest_type p = PLAIN then Some (Inr (data p), False) else None) of
             None \<Rightarrow> ([], nd)
           | Some (Inl e, _) \<Rightarrow> ([Error (Core e)], nd)
           | Some (Inr plaintext, prv) \<Rightarrow>
               ([Message dh plaintext],
                if prv then
                  let ph = full_packet_hash X p; prf = build_proof X (nd_identity nd) ph
                  in push_out i (packet_encode (explicit_proof (proof_destination_hash ph) prf)) nd
                else nd)))"

section \<open>The dispatcher\<close>

text \<open>The packet as the handlers see it: decoded and counted one hop further.\<close>

definition dispatch ::
    "ext \<Rightarrow> 'r entropy \<Rightarrow> packet \<Rightarrow> u16 \<Rightarrow> 'r option \<Rightarrow> node \<Rightarrow> event list \<times> node \<times> 'r option" where
  "dispatch X E p i rng nd =
     (case try_array 16 (dest_hash p) of
        None \<Rightarrow> ([], nd, rng)
      | Some dh \<Rightarrow>
          if packet_type p = DATA \<and> dest_type p = PLAIN \<and> dh = path_request_destination_hash X then
            ([], handle_path_request X p i nd, rng)
          else if packet_type p = LINKREQUEST then
            (case rng of
               None \<Rightarrow> ([], nd, None)
             | Some r \<Rightarrow> let (evs, nd, r) = handle_link_request X E p dh i r nd in (evs, nd, Some r))
          else if packet_type p = PROOF \<and> dest_type p = LINK \<and> ctx p = LRPROOF then
            handle_link_proof X E p dh rng nd
          else if packet_type p = PROOF \<and> dest_type p = SINGLE then
            (let (evs, nd) = handle_delivery_proof X p dh nd in (evs, nd, rng))
          else if packet_type p = PROOF \<and> dest_type p = LINK \<and> ctx p = RESOURCE_PRF then
            (let (evs, nd) = handle_resource_proof p dh nd in (evs, nd, rng))
          else if packet_type p = DATA \<and> dest_type p = LINK then
            handle_link_data X E p dh i rng nd
          else if packet_type p = ANNOUNCE then
            (let (evs, nd) = handle_announce X p dh i nd in (evs, nd, rng))
          else if packet_type p = DATA then
            (let (evs, nd) = handle_data X p dh i nd in (evs, nd, rng))
          else ([], nd, rng))"

definition handle_inbound_inner ::
    "ext \<Rightarrow> 'r entropy \<Rightarrow> bytes \<Rightarrow> u16 \<Rightarrow> 'r option \<Rightarrow> node \<Rightarrow> event list \<times> node \<times> 'r option" where
  "handle_inbound_inner X E bs i rng nd =
     (case packet_decode bs of
        Inl _ \<Rightarrow> ([], nd, rng)
      | Inr p \<Rightarrow>
          if hops p \<ge> PATHFINDER_MAX_HOPS then ([], nd, rng)
          else let now = nd_clock nd;
                   nd = maybe_prune now nd;
                   ph = packet_hash X p
            in if bt_contains ph (nd_seen_packets nd) then ([], nd, rng)
               else let nd = nd\<lparr>nd_seen_packets :=
                              bt_insert ph (sat_add now PACKET_HASH_TTL_SECS) (nd_seen_packets nd)\<rparr>
                 in dispatch X E (p\<lparr>hops := sat_add (hops p) 1\<rparr>) i rng nd)"

definition handle_inbound :: "ext \<Rightarrow> bytes \<Rightarrow> u16 \<Rightarrow> node \<Rightarrow> event list \<times> node" where
  "handle_inbound X bs i nd =
     (let (evs, nd, _) = handle_inbound_inner X seeded_fill bs i None nd in (evs, nd))"

definition handle_inbound_with_entropy ::
    "ext \<Rightarrow> 'r entropy \<Rightarrow> bytes \<Rightarrow> u16 \<Rightarrow> 'r \<Rightarrow> node \<Rightarrow> event list \<times> node \<times> 'r" where
  "handle_inbound_with_entropy X E bs i r nd =
     (let (evs, nd, rng) = handle_inbound_inner X E bs i (Some r) nd
      in (evs, nd, case rng of Some r \<Rightarrow> r | None \<Rightarrow> r))"

end
