(* ===== verification/Streams.thy ===== *)
theory Streams
  imports Framing Ifac Node_Inbound
begin

text \<open>
  Byte streams and packet interfaces: the incremental KISS decoder and the pump of
  reticulum-embedded/src/uart.rs, the HDLC splitter of reticulum-tokio/src/tcp.rs and the IFAC wrapper
  of reticulum-tokio/src/interface.rs. Asynchronous reads are the list of what they return; an empty
  read, or the end of the list, is the end of the stream.
\<close>

section \<open>The KISS stream decoder\<close>

record kiss_decoder =
  kd_packet :: bytes
  kd_max_packet_len :: nat
  kd_in_frame :: bool
  kd_has_command :: bool
  kd_escaped :: bool
  kd_invalid :: bool

definition kiss_decoder_new :: "nat \<Rightarrow> kiss_decoder" where
  "kiss_decoder_new max_len = \<lparr>kd_packet = [], kd_max_packet_len = max_len, kd_in_frame = False,
     kd_has_command = False, kd_escaped = False, kd_invalid = False\<rparr>"

definition kiss_push :: "u8 \<Rightarrow> kiss_decoder \<Rightarrow> bytes option \<times> kiss_decoder" where
  "kiss_push b d =
     (if b = FEND then
        let whole = (if kd_in_frame d \<and> kd_has_command d \<and> \<not> kd_escaped d \<and> \<not> kd_invalid d
                           \<and> kd_packet d \<noteq> [] then Some (kd_packet d) else None)
        in (whole, d\<lparr>kd_packet := [], kd_in_frame := True, kd_has_command := False,
                        kd_escaped := False, kd_invalid := False\<rparr>)
      else if \<not> kd_in_frame d \<or> kd_invalid d then (None, d)
      else if \<not> kd_has_command d then
        (None, d\<lparr>kd_has_command := True, kd_invalid := (b AND 0x0F \<noteq> CMD_DATA)\<rparr>)
      else if kd_escaped d \<and> b \<noteq> TFEND \<and> b \<noteq> TFESC then
        (None, d\<lparr>kd_escaped := False, kd_invalid := True\<rparr>)
      else if \<not> kd_escaped d \<and> b = FESC then (None, d\<lparr>kd_escaped := True\<rparr>)
      else let decoded = (if kd_escaped d then (if b = TFEND then FEND else FESC) else b);
               d = d\<lparr>kd_escaped := False\<rparr>
           in if length (kd_packet d) = kd_max_packet_len d
              then (None, d\<lparr>kd_packet := [], kd_invalid := True\<rparr>)
              else (None, d\<lparr>kd_packet := kd_packet d @ [decoded]\<rparr>))"

fun kiss_feed :: "bytes \<Rightarrow> kiss_decoder \<Rightarrow> bytes list \<times> kiss_decoder" where
  "kiss_feed [] d = ([], d)"
| "kiss_feed (b # bs) d =
     (case kiss_push b d of (whole, d) \<Rightarrow>
       case kiss_feed bs d of (ps, d) \<Rightarrow>
         ((case whole of None \<Rightarrow> ps | Some p \<Rightarrow> p # ps), d))"

fun pump_inbound ::
    "ext \<Rightarrow> 'r entropy \<Rightarrow> 'r \<Rightarrow> kiss_decoder \<Rightarrow> u16 \<Rightarrow> bytes \<Rightarrow> node
      \<Rightarrow> event list \<times> node \<times> kiss_decoder \<times> 'r" where
  "pump_inbound X E r d i [] nd = ([], nd, d, r)"
| "pump_inbound X E r d i (b # bs) nd =
     (case kiss_push b d of
        (None, d) \<Rightarrow> pump_inbound X E r d i bs nd
      | (Some packet, d) \<Rightarrow>
          (case handle_inbound_with_entropy X E packet i r nd of (evs, nd, r) \<Rightarrow>
            (case pump_inbound X E r d i bs nd of (evs', nd, d, r) \<Rightarrow> (evs @ evs', nd, d, r))))"

section \<open>The HDLC splitter\<close>

definition READ_CHUNK :: nat where "READ_CHUNK = 4096"
definition MAX_BUFFER :: nat where "MAX_BUFFER = 512 * 1024"

function (sequential) take_packet :: "bytes \<Rightarrow> bytes option \<times> bytes" where
  "take_packet buf =
     (case position (\<lambda>b. b = FLAG) buf of
        None \<Rightarrow> (None, buf)
      | Some start \<Rightarrow>
          (case position (\<lambda>b. b = FLAG) (drop (start + 1) buf) of
             None \<Rightarrow> (None, drop start buf)
           | Some offset \<Rightarrow>
               let buf = drop start buf;
                   end' = offset + 1;
                   framed = take (end' + 1) buf;
                   rest = drop end' buf
               in if length framed = 2 then take_packet rest
                  else (case hdlc_deframe framed of
                          Some packet \<Rightarrow> (Some packet, rest)
                        | None \<Rightarrow> take_packet rest)))"
  by pat_completeness auto
termination
  by (relation "measure length") (auto simp: position_Some)

declare take_packet.simps [simp del]

function tcp_recv :: "bytes list \<Rightarrow> bytes \<Rightarrow> bytes option \<times> bytes \<times> bytes list" where
  "tcp_recv reads buf =
     (case take_packet buf of
        (Some packet, buf) \<Rightarrow> (Some packet, buf, reads)
      | (None, buf) \<Rightarrow>
          (case reads of
             [] \<Rightarrow> (None, buf, [])
           | chunk # reads \<Rightarrow>
               if chunk = [] then (None, buf, reads)
               else let buf = buf @ chunk
                 in tcp_recv reads (if length buf > MAX_BUFFER then [] else buf)))"
  by pat_completeness auto
termination
  by (relation "measure (\<lambda>(reads, _). length reads)") auto

declare tcp_recv.simps [simp del]

definition tcp_send :: "bytes \<Rightarrow> bytes" where
  "tcp_send raw = hdlc_frame raw"

section \<open>The IFAC wrapper\<close>

record ifac_config =
  ic_key :: bytes
  ic_size :: nat

definition ifac_config_new :: "ext \<Rightarrow> bytes \<Rightarrow> bytes \<Rightarrow> ifac_config option" where
  "ifac_config_new X network_name passphrase =
     map_option (\<lambda>k. \<lparr>ic_key = k, ic_size = DEFAULT_IFAC_SIZE\<rparr>) (ifac_derive_key X network_name passphrase)"

definition ifac_config_with_size :: "nat \<Rightarrow> ifac_config \<Rightarrow> ifac_config option" where
  "ifac_config_with_size sz c = (if 1 \<le> sz \<and> sz \<le> 64 then Some (c\<lparr>ic_size := sz\<rparr>) else None)"

text \<open>The packets the inner interface yields until its end; the wrapper passes over what does not strip.\<close>

fun ifac_recv :: "ext \<Rightarrow> ifac_config \<Rightarrow> bytes list \<Rightarrow> bytes option \<times> bytes list" where
  "ifac_recv X c [] = (None, [])"
| "ifac_recv X c (wire # rest) =
     (case ifac_strip_with_size X wire (ic_key c) (ic_size c) of
        Inr plain \<Rightarrow> (Some plain, rest)
      | Inl _ \<Rightarrow> ifac_recv X c rest)"

definition ifac_send :: "ext \<Rightarrow> ifac_config \<Rightarrow> bytes \<Rightarrow> bytes option" where
  "ifac_send X c raw = res_ok (ifac_apply_with_size X raw (ic_key c) (ic_size c))"

section \<open>What the KISS decoder yields\<close>

lemma kiss_push_bound:
  "length (kd_packet d) \<le> kd_max_packet_len d \<Longrightarrow>
     length (kd_packet (snd (kiss_push b d))) \<le> kd_max_packet_len (snd (kiss_push b d)) \<and>
     kd_max_packet_len (snd (kiss_push b d)) = kd_max_packet_len d"
  by (simp add: kiss_push_def Let_def)

lemma kiss_feed_bound:
  "length (kd_packet d) \<le> kd_max_packet_len d \<Longrightarrow>
     length (kd_packet (snd (kiss_feed bs d))) \<le> kd_max_packet_len d \<and>
     kd_max_packet_len (snd (kiss_feed bs d)) = kd_max_packet_len d"
proof (induction bs arbitrary: d)
  case Nil
  then show ?case by simp
next
  case (Cons b bs)
  then show ?case using kiss_push_bound [of d b] Cons.IH [of "snd (kiss_push b d)"]
    by (simp add: case_prod_beta)
qed

lemma kiss_feed_append:
  "kiss_feed (a @ b) d = (fst (kiss_feed a d) @ fst (kiss_feed b (snd (kiss_feed a d))),
     snd (kiss_feed b (snd (kiss_feed a d))))"
  by (induction a arbitrary: d) (simp_all split: prod.splits option.splits)

text \<open>Inside a frame, the escaped body of a packet adds exactly its bytes.\<close>

definition in_data :: "kiss_decoder \<Rightarrow> bytes \<Rightarrow> bool" where
  "in_data d acc \<longleftrightarrow> kd_in_frame d \<and> kd_has_command d \<and> \<not> kd_escaped d \<and> \<not> kd_invalid d \<and> kd_packet d = acc"

lemma kiss_feed_body:
  "in_data d acc \<Longrightarrow> length acc + length p \<le> kd_max_packet_len d \<Longrightarrow>
     kiss_feed (kiss_escape p) d = ([], d\<lparr>kd_packet := acc @ p\<rparr>)"
proof (induction p arbitrary: d acc)
  case Nil
  then show ?case by (simp add: in_data_def)
next
  case (Cons b p)
  have "in_data (d\<lparr>kd_packet := acc @ [b]\<rparr>) (acc @ [b])" using Cons.prems by (simp add: in_data_def)
  then have IH: "kiss_feed (kiss_escape p) (d\<lparr>kd_packet := acc @ [b]\<rparr>) = ([], d\<lparr>kd_packet := acc @ b # p\<rparr>)"
    using Cons.IH [of "d\<lparr>kd_packet := acc @ [b]\<rparr>" "acc @ [b]"] Cons.prems by simp
  have e: "d\<lparr>kd_escaped := False\<rparr> = d" using Cons.prems by (simp add: in_data_def)
  have step: "kiss_feed (if b = FEND then [FESC, TFEND] else if b = FESC then [FESC, TFESC] else [b]) d =
      ([], d\<lparr>kd_packet := acc @ [b]\<rparr>)"
    using Cons.prems e by (auto simp: in_data_def kiss_push_def Let_def kiss_consts)
  then show ?case using IH by (simp add: kiss_feed_append)
qed

lemma kiss_feed_frame:
  assumes "kd_max_packet_len d \<ge> length p" and "p \<noteq> []"
  shows "\<exists>before d'. kiss_feed (kiss_frame p) d = (before @ [p], d') \<and> length before \<le> 1 \<and>
    kd_in_frame d' \<and> \<not> kd_has_command d' \<and> kd_packet d' = [] \<and> kd_max_packet_len d' = kd_max_packet_len d \<and>
    (kd_packet d = [] \<longrightarrow> before = [])"
proof -
  obtain c d1 where c: "kiss_push FEND d = (c, d1)" by fastforce
  then have d1: "d1 = d\<lparr>kd_packet := [], kd_in_frame := True, kd_has_command := False,
      kd_escaped := False, kd_invalid := False\<rparr>" and cn: "kd_packet d = [] \<longrightarrow> c = None"
    by (auto simp: kiss_push_def Let_def)
  have cmd: "kiss_push CMD_DATA d1 = (None, d1\<lparr>kd_has_command := True\<rparr>)"
    by (simp add: kiss_push_def d1 kiss_consts)
  let ?d2 = "d1\<lparr>kd_has_command := True\<rparr>"
  have "in_data ?d2 []" by (simp add: in_data_def d1)
  then have body: "kiss_feed (kiss_escape p) ?d2 = ([], ?d2\<lparr>kd_packet := p\<rparr>)"
    using kiss_feed_body [of ?d2 "[]" p] assms(1) by (simp add: d1)
  have fin: "kiss_feed [FEND] (?d2\<lparr>kd_packet := p\<rparr>) = ([p], d1)"
    using assms(2) by (simp add: kiss_push_def d1 Let_def)
  have "kiss_feed (kiss_frame p) d = ((case c of None \<Rightarrow> [] | Some q \<Rightarrow> [q]) @ [p], d1)"
    using c cmd body fin by (simp add: kiss_frame_def kiss_feed_append split: option.splits)
  then show ?thesis using cn by (intro exI [of _ "case c of None \<Rightarrow> [] | Some q \<Rightarrow> [q]"] exI [of _ d1])
      (auto simp: d1 split: option.splits)
qed

lemma kiss_feed_frames:
  assumes "kd_packet d = []" and "\<forall>p \<in> set ps. p \<noteq> [] \<and> length p \<le> kd_max_packet_len d"
  shows "fst (kiss_feed (concat (map kiss_frame ps)) d) = ps"
  using assms
proof (induction ps arbitrary: d)
  case Nil
  then show ?case by simp
next
  case (Cons p ps)
  obtain d' where d': "kiss_feed (kiss_frame p) d = ([p], d')" "kd_packet d' = []"
      "kd_max_packet_len d' = kd_max_packet_len d"
    using kiss_feed_frame [of p d] Cons.prems by auto
  then show ?case using Cons.IH [of d'] Cons.prems by (simp add: kiss_feed_append)
qed

text \<open>The pump is the decoder followed by the node.\<close>

fun handle_all :: "ext \<Rightarrow> 'r entropy \<Rightarrow> bytes list \<Rightarrow> u16 \<Rightarrow> 'r \<Rightarrow> node \<Rightarrow> event list \<times> node \<times> 'r" where
  "handle_all X E [] i r nd = ([], nd, r)"
| "handle_all X E (p # ps) i r nd =
     (case handle_inbound_with_entropy X E p i r nd of (evs, nd, r) \<Rightarrow>
       case handle_all X E ps i r nd of (evs', nd, r) \<Rightarrow> (evs @ evs', nd, r))"

lemma pump_inbound_eq:
  "pump_inbound X E r d i bs nd =
     (case kiss_feed bs d of (ps, d') \<Rightarrow>
      case handle_all X E ps i r nd of (evs, nd', r') \<Rightarrow> (evs, nd', d', r'))"
  by (induction X E r d i bs nd rule: pump_inbound.induct) (simp_all split: prod.splits option.splits)

section \<open>What the HDLC splitter yields\<close>

text \<open>More input never changes a packet already complete, and nothing is lost while waiting.\<close>

lemma position_append_Some: "position P xs = Some i \<Longrightarrow> position P (xs @ ys) = Some i"
  by (auto simp: position_Some nth_append)

lemma take_packet_shrinks:
  "take_packet buf = (r, rest) \<Longrightarrow> length rest \<le> length buf \<and> (r \<noteq> None \<longrightarrow> length rest < length buf)"
proof (induction buf arbitrary: r rest rule: take_packet.induct)
  case (1 buf)
  show ?case
  proof (cases "position (\<lambda>b. b = FLAG) buf")
    case None
    then show ?thesis using "1.prems" by (simp add: take_packet.simps [of buf])
  next
    case s: (Some start)
    show ?thesis
    proof (cases "position (\<lambda>b. b = FLAG) (drop (start + 1) buf)")
      case None
      then show ?thesis using "1.prems" s by (auto simp: take_packet.simps [of buf])
    next
      case o: (Some offset)
      let ?rest = "drop (offset + 1) (drop start buf)"
      have lt: "length ?rest < length buf" using s o by (auto simp: position_Some)
      show ?thesis
        using "1.prems" "1.IH" [OF s o refl refl refl refl] lt s o
        by (fastforce simp: take_packet.simps [of buf] Let_def split: if_splits option.splits)
    qed
  qed
qed

lemma position_drop: "position P xs = Some i \<Longrightarrow> position P (drop i xs) = Some 0"
  by (auto simp: position_Some)

text \<open>What precedes the first flag does not matter.\<close>

lemma take_packet_sync:
  assumes "position (\<lambda>b. b = FLAG) buf = Some i"
  shows "take_packet (drop i buf) = take_packet buf"
proof -
  have z: "drop 0 (drop i buf) = drop i buf" by simp
  have e: "drop (0 + 1) (drop i buf) = drop (i + 1) buf" by simp
  show ?thesis
    unfolding take_packet.simps [of "drop i buf"] take_packet.simps [of buf] assms position_drop [OF assms]
      option.case z e by (rule refl)
qed

lemma take_packet_append:
  "(take_packet buf = (Some p, r) \<longrightarrow> take_packet (buf @ c) = (Some p, r @ c)) \<and>
   (take_packet buf = (None, r) \<longrightarrow> take_packet (buf @ c) = take_packet (r @ c))"
proof (induction buf arbitrary: p r rule: take_packet.induct)
  case (1 buf)
  show ?case
  proof (cases "position (\<lambda>b. b = FLAG) buf")
    case None
    then show ?thesis by (auto simp: take_packet.simps [of buf])
  next
    case s: (Some start)
    have s': "position (\<lambda>b. b = FLAG) (buf @ c) = Some start" by (rule position_append_Some [OF s])
    have l: "start < length buf" using s by (simp add: position_Some)
    show ?thesis
    proof (cases "position (\<lambda>b. b = FLAG) (drop (start + 1) buf)")
      case None
      have "take_packet (drop start (buf @ c)) = take_packet (buf @ c)" by (rule take_packet_sync [OF s'])
      then show ?thesis using s None l by (auto simp: take_packet.simps [of buf])
    next
      case o: (Some offset)
      let ?rest = "drop (offset + 1) (drop start buf)"
      let ?framed = "take (offset + 1 + 1) (drop start buf)"
      have ol: "offset + 1 < length (drop start buf)" using o by (auto simp: position_Some)
      have o': "position (\<lambda>b. b = FLAG) (drop (start + 1) (buf @ c)) = Some offset"
        using position_append_Some [OF o] l by simp
      have split: "take (offset + 1 + 1) (drop start (buf @ c)) = ?framed"
        "drop (offset + 1) (drop start (buf @ c)) = ?rest @ c"
        using ol l by simp_all
      have one: "take_packet buf = (if length ?framed = 2 then take_packet ?rest
          else case hdlc_deframe ?framed of Some packet \<Rightarrow> (Some packet, ?rest) | None \<Rightarrow> take_packet ?rest)"
        unfolding take_packet.simps [of buf] s o option.case Let_def by (rule refl)
      have two: "take_packet (buf @ c) = (if length ?framed = 2 then take_packet (?rest @ c)
          else case hdlc_deframe ?framed of Some packet \<Rightarrow> (Some packet, ?rest @ c)
            | None \<Rightarrow> take_packet (?rest @ c))"
        unfolding take_packet.simps [of "buf @ c"] s' o' option.case Let_def split by (rule refl)
      show ?thesis unfolding one two
        using "1.IH" [OF s o refl refl refl refl]
        by (cases "length ?framed = 2"; cases "hdlc_deframe ?framed") auto
    qed
  qed
qed

text \<open>All the packets a buffer holds.\<close>

function pull :: "bytes \<Rightarrow> bytes list" where
  "pull buf = (case take_packet buf of (None, _) \<Rightarrow> [] | (Some p, rest) \<Rightarrow> p # pull rest)"
  by pat_completeness auto
termination
  by (relation "measure length") (auto dest!: take_packet_shrinks [OF sym])

declare pull.simps [simp del]

lemma take_packet_frame:
  assumes "p \<noteq> []"
  shows "take_packet (hdlc_frame p @ z) = (Some p, FLAG # z)"
proof -
  let ?b = "hdlc_escape p"
  have b: "?b \<noteq> []" using assms by (cases p) auto
  have f: "hdlc_frame p @ z = FLAG # ?b @ FLAG # z" by (simp add: hdlc_frame_def)
  have p1: "position (\<lambda>b. b = FLAG) (FLAG # ?b @ FLAG # z) = Some 0" by simp
  have p2: "position (\<lambda>b. b = FLAG) (?b @ FLAG # z) = Some (length ?b)" by (rule hdlc.body_position)
  have fr: "take (length ?b + 1 + 1) (FLAG # ?b @ FLAG # z) = hdlc_frame p"
    by (simp add: hdlc_frame_def)
  show ?thesis
    unfolding f using b p2 fr hdlc.deframe_frame [of p]
    by (simp add: take_packet.simps [of "FLAG # ?b @ FLAG # z"] Let_def hdlc_frame_def)
qed

lemma take_packet_doubled_flag: "take_packet (FLAG # FLAG # z) = take_packet (FLAG # z)"
  by (simp add: take_packet.simps [of "FLAG # FLAG # z"] Let_def)

lemma pull_frames:
  assumes "\<forall>p \<in> set ps. p \<noteq> []"
  shows "pull (concat (map hdlc_frame ps)) = ps" and "pull (FLAG # concat (map hdlc_frame ps)) = ps"
proof -
  have "pull (concat (map hdlc_frame ps)) = ps \<and> pull (FLAG # concat (map hdlc_frame ps)) = ps"
    using assms
  proof (induction ps)
    case Nil
    have "take_packet [FLAG] = (None, [FLAG])" "take_packet [] = (None, [])"
      by (simp_all add: take_packet.simps)
    then show ?case by (simp add: pull.simps)
  next
    case (Cons p ps)
    let ?z = "concat (map hdlc_frame ps)"
    have t: "take_packet (hdlc_frame p @ ?z) = (Some p, FLAG # ?z)"
      using Cons.prems by (intro take_packet_frame) simp
    moreover have "take_packet (FLAG # hdlc_frame p @ ?z) = take_packet (hdlc_frame p @ ?z)"
      by (simp add: hdlc_frame_def take_packet_doubled_flag)
    ultimately show ?case
      using Cons by (simp add: pull.simps [of "hdlc_frame p @ ?z"] pull.simps [of "FLAG # hdlc_frame p @ ?z"])
  qed
  then show "pull (concat (map hdlc_frame ps)) = ps" "pull (FLAG # concat (map hdlc_frame ps)) = ps"
    by simp_all
qed

text \<open>Receiving does not depend on how the stream was cut into reads.\<close>

fun tcp_recvs :: "nat \<Rightarrow> bytes list \<Rightarrow> bytes \<Rightarrow> bytes list" where
  "tcp_recvs 0 reads buf = []"
| "tcp_recvs (Suc n) reads buf =
     (case tcp_recv reads buf of
        (None, _, _) \<Rightarrow> []
      | (Some p, buf, reads) \<Rightarrow> p # tcp_recvs n reads buf)"

lemma tcp_recv_whole:
  "\<forall>c \<in> set reads. c \<noteq> [] \<Longrightarrow> length buf + length (concat reads) \<le> MAX_BUFFER \<Longrightarrow>
     tcp_recv reads buf = (r, buf', reads') \<Longrightarrow>
     (case r of None \<Rightarrow> fst (take_packet (buf @ concat reads)) = None
      | Some p \<Rightarrow> take_packet (buf @ concat reads) = (Some p, buf' @ concat reads') \<and>
          (\<forall>c \<in> set reads'. c \<noteq> []) \<and> length buf' + length (concat reads') \<le> MAX_BUFFER)"
proof (induction reads buf arbitrary: r buf' reads' rule: tcp_recv.induct)
  case (1 reads buf)
  obtain q rest where t: "take_packet buf = (q, rest)" by fastforce
  have short: "length rest \<le> length buf" using take_packet_shrinks [OF t] by simp
  show ?case
  proof (cases q)
    case (Some p)
    then have "tcp_recv reads buf = (Some p, rest, reads)" using t by (simp add: tcp_recv.simps [of reads buf])
    then have "r = Some p" "buf' = rest" "reads' = reads" using "1.prems"(3) by simp_all
    then show ?thesis
      using "1.prems"(1,2) t Some short take_packet_append [of buf p rest "concat reads"] by simp
  next
    case None
    have app: "take_packet (buf @ c) = take_packet (rest @ c)" for c
      using take_packet_append [of buf _ rest c] t None by simp
    show ?thesis
    proof (cases reads)
      case Nil
      then have "tcp_recv reads buf = (None, rest, [])" using t None by (simp add: tcp_recv.simps [of "[]" buf])
      then have "r = None" using "1.prems"(3) by simp
      then show ?thesis using t None Nil by simp
    next
      case (Cons c cs)
      have fits: "\<not> length (rest @ c) > MAX_BUFFER" using "1.prems"(2) short Cons by simp
      have ne: "c \<noteq> []" using "1.prems"(1) Cons by simp
      have rec: "tcp_recv reads buf = tcp_recv cs (rest @ c)"
        using t None Cons ne fits by (simp add: tcp_recv.simps [of "c # cs" buf])
      have "case r of None \<Rightarrow> fst (take_packet ((rest @ c) @ concat cs)) = None
        | Some p \<Rightarrow> take_packet ((rest @ c) @ concat cs) = (Some p, buf' @ concat reads') \<and>
          (\<forall>c \<in> set reads'. c \<noteq> []) \<and> length buf' + length (concat reads') \<le> MAX_BUFFER"
        using "1.IH" [of None rest c cs "rest @ c" r buf' reads'] t [symmetric] None Cons ne fits "1.prems" rec short
        by (cases r) simp_all
      then show ?thesis using app [of "c @ concat cs"] Cons by (cases r) simp_all
    qed
  qed
qed

lemma tcp_recvs_pull:
  "\<forall>c \<in> set reads. c \<noteq> [] \<Longrightarrow> length buf + length (concat reads) \<le> MAX_BUFFER \<Longrightarrow>
     tcp_recvs n reads buf = take n (pull (buf @ concat reads))"
proof (induction n arbitrary: reads buf)
  case 0
  then show ?case by simp
next
  case (Suc n)
  obtain r buf' reads' where t: "tcp_recv reads buf = (r, buf', reads')"
    by (cases "tcp_recv reads buf") auto
  note w = tcp_recv_whole [OF Suc.prems t]
  show ?case
  proof (cases r)
    case None
    then have "fst (take_packet (buf @ concat reads)) = None" using w by simp
    then have "pull (buf @ concat reads) = []"
      by (cases "take_packet (buf @ concat reads)") (simp add: pull.simps [of "buf @ concat reads"])
    then show ?thesis using t None by simp
  next
    case (Some p)
    then show ?thesis using w t Suc.IH [of reads' buf'] by (simp add: pull.simps [of "buf @ concat reads"])
  qed
qed

section \<open>A stream of any length\<close>

text \<open>The limit of the buffer does not touch a stream of frames that fit it: what is kept between reads is
  never more than the beginning of one frame.\<close>

lemma take_packet_partial:
  assumes "FLAG \<notin> set b"
  shows "take_packet b = (None, b)" "take_packet (FLAG # b) = (None, FLAG # b)"
    "take_packet (FLAG # FLAG # b) = (None, FLAG # b)"
proof -
  have n: "position (\<lambda>b. b = FLAG) b = None" using assms unfolding position_None by auto
  then show "take_packet b = (None, b)" by (simp add: take_packet.simps [of b])
  show "take_packet (FLAG # b) = (None, FLAG # b)" using n by (simp add: take_packet.simps [of "FLAG # b"])
  then show "take_packet (FLAG # FLAG # b) = (None, FLAG # b)" by (simp add: take_packet_doubled_flag)
qed

text \<open>The beginning of a frame is kept, less a doubled flag.\<close>

lemma take_packet_prefix:
  assumes "b @ y = pre @ hdlc_frame p" and "y \<noteq> []" and "pre = [] \<or> pre = [FLAG]"
  obtains b' pre' where "take_packet b = (None, b')" "b' @ y = pre' @ hdlc_frame p" "pre' = [] \<or> pre' = [FLAG]"
proof -
  let ?B = "hdlc_escape p"
  have c: "FLAG \<notin> set ?B" by (rule hdlc.body_clean)
  have f: "hdlc_frame p = FLAG # ?B @ [FLAG]" by (simp add: hdlc_frame_def)
  obtain y' where y: "y = y' @ [FLAG]" and b: "b @ y' = pre @ FLAG # ?B"
    using assms(1,2) unfolding f by (cases y rule: rev_cases) auto
  have sub: "FLAG \<notin> set t" if "t @ y' = ?B" for t using c that by (metis Un_iff set_append)
  consider "b = []" | t where "b = FLAG # t" "t @ y' = ?B" "pre = []" | "b = [FLAG]" "y' = FLAG # ?B" "pre = [FLAG]"
    | t where "b = FLAG # FLAG # t" "t @ y' = ?B" "pre = [FLAG]"
    using b assms(3) by (cases b; cases "tl b") (auto simp: append_eq_Cons_conv)
  then show thesis
  proof cases
    case 1
    then show ?thesis using that [of "[]" pre] take_packet_partial(1) [of "[]"] assms(1,3) by simp
  next
    case 2
    then show ?thesis using that [of b "[]"] take_packet_partial(2) [OF sub] y f by simp
  next
    case 3
    then show ?thesis using that [of b pre] take_packet_partial(2) [of "[]"] assms(1,3) by simp
  next
    case 4
    then show ?thesis using that [of "FLAG # t" "[]"] take_packet_partial(3) [OF sub] y f by simp
  qed
qed

text \<open>A stream of frames, from anywhere in it: the next packet, and the stream from there.\<close>

definition chunked :: "bytes list \<Rightarrow> bool" where
  "chunked reads \<longleftrightarrow> (\<forall>c \<in> set reads. c \<noteq> [] \<and> length c \<le> READ_CHUNK)"

lemma append_longer: "a @ b = f @ z \<Longrightarrow> length a < length f \<Longrightarrow> \<exists>y. a @ y = f \<and> y \<noteq> [] \<and> b = y @ z"
  by (auto simp: append_eq_append_conv2)

lemma append_shorter: "a @ b = f @ z \<Longrightarrow> \<not> length a < length f \<Longrightarrow> \<exists>y. a = f @ y \<and> y @ b = z"
  by (auto simp: append_eq_append_conv2)

lemma tcp_recv_next:
  assumes "buf @ concat reads = pre @ hdlc_frame p @ z" and "pre = [] \<or> pre = [FLAG]" and "p \<noteq> []"
    and "chunked reads" and "length (hdlc_frame p) + READ_CHUNK < MAX_BUFFER"
  shows "\<exists>buf' reads'. tcp_recv reads buf = (Some p, buf', reads') \<and> buf' @ concat reads' = FLAG # z \<and> chunked reads'"
  using assms(1,2,4)
proof (induction reads arbitrary: buf pre)
  case Nil
  then have "take_packet buf = (Some p, FLAG # z)"
    using take_packet_frame [OF assms(3)] take_packet_doubled_flag by (auto simp: hdlc_frame_def)
  then show ?case by (simp add: tcp_recv.simps [of "[]" buf] chunked_def)
next
  case (Cons c reads)
  show ?case
  proof (cases "length buf < length (pre @ hdlc_frame p)")
    case True
    obtain y where y: "buf @ y = pre @ hdlc_frame p" "y \<noteq> []" and c: "c @ concat reads = y @ z"
      using append_longer [of buf "concat (c # reads)" "pre @ hdlc_frame p" z] Cons.prems(1) True by auto
    obtain b' pre' where t: "take_packet buf = (None, b')" "b' @ y = pre' @ hdlc_frame p" "pre' = [] \<or> pre' = [FLAG]"
      using take_packet_prefix [OF y Cons.prems(2)] by blast
    have "length (b' @ y) \<le> 1 + length (hdlc_frame p)" using t(2,3) by auto
    then have "length b' \<le> length (hdlc_frame p)" using y(2) by (cases y) auto
    then have fits: "length (b' @ c) \<le> MAX_BUFFER" and ne: "c \<noteq> []"
      using assms(5) Cons.prems(3) by (auto simp: chunked_def)
    have "tcp_recv (c # reads) buf = tcp_recv reads (b' @ c)"
      using t(1) fits ne by (simp add: tcp_recv.simps [of "c # reads" buf] Let_def)
    moreover have "(b' @ c) @ concat reads = pre' @ hdlc_frame p @ z" using c t(2) by (metis append.assoc)
    ultimately show ?thesis using Cons.IH [of "b' @ c" pre'] t(3) Cons.prems(3) by (simp add: chunked_def)
  next
    case False
    obtain z1 where z1: "buf = pre @ hdlc_frame p @ z1" "z1 @ concat (c # reads) = z"
      using append_shorter [of buf "concat (c # reads)" "pre @ hdlc_frame p" z] Cons.prems(1) False by auto
    then have "take_packet buf = (Some p, FLAG # z1)"
      using take_packet_frame [OF assms(3)] take_packet_doubled_flag Cons.prems(2) by (auto simp: hdlc_frame_def)
    then show ?thesis using z1(2) Cons.prems(3) by (simp add: tcp_recv.simps [of "c # reads" buf])
  qed
qed

lemma tcp_recv_idle:
  assumes "buf @ concat reads = pre" and "pre = [] \<or> pre = [FLAG]" and "chunked reads"
  shows "fst (tcp_recv reads buf) = None"
proof -
  have idle: "take_packet [] = (None, [])" "take_packet [FLAG] = (None, [FLAG])"
    using take_packet_partial(1,2) [of "[]"] by simp_all
  consider "reads = []" "buf = [] \<or> buf = [FLAG]" | "reads = [[FLAG]]" "buf = []"
  proof (cases reads)
    case (Cons c cs)
    then have "c \<noteq> []" "chunked cs" using assms(3) by (auto simp: chunked_def)
    then have "buf = [] \<and> c = [FLAG] \<and> concat cs = []" using assms(1,2) Cons by (cases buf; cases c) auto
    then have "cs = []" using \<open>chunked cs\<close> by (cases cs) (auto simp: chunked_def)
    then show ?thesis using that Cons \<open>buf = [] \<and> c = [FLAG] \<and> concat cs = []\<close> by simp
  qed (use assms that in auto)
  then show ?thesis
  proof cases
    case 1
    then show ?thesis using idle by (auto simp: tcp_recv.simps [of "[]"])
  next
    case 2
    then show ?thesis using idle
      by (simp add: tcp_recv.simps [of "[]"] tcp_recv.simps [of "[[FLAG]]"] MAX_BUFFER_def)
  qed
qed

lemma tcp_recvs_stream:
  assumes "buf @ concat reads = pre @ concat (map hdlc_frame ps)" and "pre = [] \<or> pre = [FLAG]" and "chunked reads"
    and "\<forall>p \<in> set ps. p \<noteq> [] \<and> length (hdlc_frame p) + READ_CHUNK < MAX_BUFFER"
  shows "tcp_recvs n reads buf = take n ps"
  using assms
proof (induction n arbitrary: buf reads pre ps)
  case (Suc n)
  show ?case
  proof (cases ps)
    case Nil
    then show ?thesis using tcp_recv_idle [of buf reads pre] Suc.prems(1-3) by (auto split: prod.split)
  next
    case (Cons p qs)
    obtain buf' reads' where "tcp_recv reads buf = (Some p, buf', reads')" "buf' @ concat reads' = FLAG # concat (map hdlc_frame qs)"
      "chunked reads'"
      using tcp_recv_next [of buf reads pre p "concat (map hdlc_frame qs)"] Suc.prems Cons by auto
    then show ?thesis using Suc.IH [of buf' reads' "[FLAG]" qs] Suc.prems(4) Cons by simp
  qed
qed simp

section \<open>What passes the IFAC wrapper\<close>

lemma ifac_recv_authentic:
  assumes "ifac_recv X c wires = (Some p, rest)"
  obtains w where "w \<in> set wires" and "sub 2 (2 + ic_size c) w = ifac_code X p (ic_key c) (ic_size c)"
proof -
  have "\<exists>w \<in> set wires. ifac_strip_with_size X w (ic_key c) (ic_size c) = Inr p"
    using assms by (induction X c wires rule: ifac_recv.induct) (auto split: sum.splits)
  then show thesis using that ifac_strip_authentic(1) by blast
qed

end
