(* ===== verification/Toy_Ext.thy ===== *)
theory Toy_Ext
  imports Ext Entropy
begin

text \<open>
  A concrete record of functions that has all the documented behaviour of Ext: the witnesses
  evaluate the properties at it. Its cryptography is a placeholder of the right lengths (the
  padding and the MessagePack readers and writers are the real formats); nothing outside the
  witnesses mentions it.
\<close>

definition fit :: "nat \<Rightarrow> bytes \<Rightarrow> bytes" where
  "fit n xs = take n (xs @ replicate n 0)"

lemma length_fit [simp]: "length (fit n xs) = n"
  by (simp add: fit_def)

lemma fit_id [simp]: "length xs = n \<Longrightarrow> fit n xs = xs"
  by (simp add: fit_def)

definition pkcs7 :: "bytes \<Rightarrow> bytes" where
  "pkcs7 p = (let n = 16 - length p mod 16 in p @ replicate n (word_of_nat n))"

definition unpkcs7 :: "bytes \<Rightarrow> bytes option" where
  "unpkcs7 c = (if c = [] then None
     else let n = unat (last c)
       in if 1 \<le> n \<and> n \<le> 16 \<and> n \<le> length c \<and> drop (length c - n) c = replicate n (last c)
          then Some (take (length c - n) c) else None)"

definition toy_read_len :: "u8 \<Rightarrow> u8 \<Rightarrow> u8 option \<Rightarrow> u8 \<Rightarrow> bytes \<Rightarrow> (u32 \<times> bytes) option" where
  "toy_read_len base width m8 m16 bs = (case bs of [] \<Rightarrow> None
     | m # r \<Rightarrow>
       if base \<le> m \<and> m - base < width then Some (ucast (m - base), r)
       else if Some m = m8 then (case r of [] \<Rightarrow> None | n # r' \<Rightarrow> Some (ucast n, r'))
       else if m = m16 then (if length r < 2 then None
         else Some (ucast (be_word (take 2 r) :: u16), drop 2 r))
       else if m = m16 + 1 then (if length r < 4 then None
         else Some (be_word (take 4 r), drop 4 r))
       else None)"

definition toy_read_int :: "bytes \<Rightarrow> (u64 \<times> bytes) option" where
  "toy_read_int bs = (case bs of [] \<Rightarrow> None
     | m # r \<Rightarrow>
       if m < 0x80 then Some (ucast m, r)
       else if m = 0xCC \<and> 1 \<le> length r then Some (ucast (hd r), tl r)
       else if m = 0xCD \<and> 2 \<le> length r then Some (ucast (be_word (take 2 r) :: u16), drop 2 r)
       else if m = 0xCE \<and> 4 \<le> length r then Some (ucast (be_word (take 4 r) :: u32), drop 4 r)
       else if m = 0xCF \<and> 8 \<le> length r then Some (be_word (take 8 r), drop 8 r)
       else None)"

definition toy_ext :: ext where
  "toy_ext = \<lparr>
     x_sha256 = fit 32,
     x_x25519_public = fit 32,
     x_x25519_dh = (\<lambda>a b. map2 (XOR) (fit 32 a) (fit 32 b)),
     x_ed25519_public = fit 32,
     x_ed25519_key_ok = (\<lambda>k. length k = 32),
     x_ed25519_sign = (\<lambda>s m. fit 64 (rev m @ fit 32 s)),
     x_ed25519_verify = (\<lambda>p m sg. sg = fit 64 (rev m @ fit 32 p)),
     x_hkdf = (\<lambda>salt ikm n. if n \<le> 8160 then Some (fit n (ikm @ salt)) else None),
     x_hmac = (\<lambda>k. Some (\<lambda>m. fit 32 (rev m @ k))),
     x_aes_encrypt = (\<lambda>k iv p. pkcs7 p),
     x_aes_decrypt = (\<lambda>k iv c. unpkcs7 c),
     x_bzip2 = None,
     x_rd_array_len = toy_read_len 0x90 16 None 0xDC,
     x_rd_map_len = toy_read_len 0x80 16 None 0xDE,
     x_rd_str_len = toy_read_len 0xA0 32 (Some 0xD9) 0xDA,
     x_rd_bin_len = toy_read_len 0 0 (Some 0xC4) 0xC5,
     x_rd_int = toy_read_int,
     x_wr_array_len = (\<lambda>n. mp_array (unat n)),
     x_wr_map_len = (\<lambda>n. mp_map (unat n)),
     x_wr_str = (\<lambda>s. mp_str (length s) @ s),
     x_wr_bin = (\<lambda>b. mp_bin (length b) @ b),
     x_wr_uint = mp_uint,
     x_wr_nil = [0xC0],
     x_wr_f64 = mp_f64 \<rparr>"

section \<open>It behaves as documented\<close>

lemma length_pkcs7: "length (pkcs7 p) = 16 * (length p div 16 + 1)"
proof -
  have "length p mod 16 < 16" by simp
  then have "length p + (16 - length p mod 16) = 16 * (length p div 16 + 1)"
    using mult_div_mod_eq [of 16 "length p"] by arith
  then show ?thesis by (simp add: pkcs7_def Let_def)
qed

lemma unpkcs7_pkcs7: "unpkcs7 (pkcs7 p) = Some p"
proof -
  define n where "n = 16 - length p mod 16"
  have n: "1 \<le> n" "n \<le> 16" "n < 256"
    unfolding n_def using mod_less_divisor [of 16 "length p"] by simp_all
  have u: "unat (word_of_nat n :: 8 word) = n"
    using n(3) by (simp add: unat_of_nat take_bit_nat_eq_self)
  have l: "last (p @ replicate n (word_of_nat n :: 8 word)) = word_of_nat n"
    using n(1) by (simp add: last_append)
  show ?thesis
    unfolding pkcs7_def Let_def n_def [symmetric] unpkcs7_def l u
    using n by simp
qed

lemma small_header:
  assumes "n < w" "w \<le> 32" "b \<le> 0xA0"
  shows "b \<le> b + word_of_nat n" "b + word_of_nat n - b < (word_of_nat w :: u8)"
proof -
  have u: "unat (word_of_nat n :: u8) = n" "unat (word_of_nat w :: u8) = w"
    using assms by (simp_all add: unat_of_nat take_bit_nat_eq_self)
  have b: "unat b \<le> 160" using assms(3) by (simp add: word_le_nat_alt)
  show "b \<le> b + word_of_nat n"
    using assms b by (simp add: word_le_nat_alt unat_word_ariths u)
  show "b + word_of_nat n - b < (word_of_nat w :: u8)"
    using assms by (simp add: word_less_nat_alt u)
qed

lemma toy_ok: "crypto_ok toy_ext"
proof -
  have dh: "map2 (XOR) xs ys = map2 (XOR) ys (xs :: bytes)" for xs ys
    by (induction xs ys rule: list_induct2') (auto simp: xor.commute)
  show ?thesis
    unfolding crypto_ok_def cipher_ok_def sha_ok_def x25519_ok_def ed25519_ok_def hkdf_ok_def
      hmac_ok_def aes_ok_def
    by (simp add: toy_ext_def length_pkcs7 unpkcs7_pkcs7 dh)
qed

section \<open>The MessagePack readers read the headers\<close>

lemma u16_of_unat: "unat n < 65536 \<Longrightarrow> (ucast (ucast n :: u16) :: u32) = n" for n :: u32
  by (simp add: word_unat_eq_iff unsigned_ucast_eq unsigned_take_bit_eq take_bit_nat_eq_self)

lemma u8_of_unat: "unat n < 256 \<Longrightarrow> (ucast (ucast n :: u8) :: u32) = n" for n :: u32
  by (simp add: word_unat_eq_iff unsigned_ucast_eq unsigned_take_bit_eq take_bit_nat_eq_self)

lemma toy_read_small:
  assumes "unat n < w" "w \<le> 32" "b \<le> 0xA0"
  shows "toy_read_len b (word_of_nat w) m8 m16 ((b + word_of_nat (unat n)) # r) = Some (n, r)"
  using small_header [OF assms] assms by (simp add: toy_read_len_def u8_of_unat)

lemma toy_read_u16:
  "unat n < 65536 \<Longrightarrow> \<not> (b \<le> m \<and> m - b < w) \<Longrightarrow> Some m \<noteq> m8 \<Longrightarrow>
   toy_read_len b w m8 m (m # be_bytes 2 (word_of_nat (unat n) :: u16) @ r) = Some (n, r)"
  by (auto simp: toy_read_len_def u16_of_unat)

lemma toy_read_u32:
  "\<not> (b \<le> m + 1 \<and> m + 1 - b < w) \<Longrightarrow> Some (m + 1) \<noteq> m8 \<Longrightarrow>
   toy_read_len b w m8 m ((m + 1) # be_bytes 4 n @ r) = Some (n, r)"
  by (auto simp: toy_read_len_def)

lemma toy_read_u8:
  "unat n < 256 \<Longrightarrow> \<not> (b \<le> m8 \<and> m8 - b < w) \<Longrightarrow>
   toy_read_len b w (Some m8) m (m8 # word_of_nat (unat n) # r) = Some (n, r)"
  by (auto simp: toy_read_len_def u8_of_unat)

lemma toy_array: "toy_read_len 0x90 16 None 0xDC (mp_array (unat n) @ r) = Some (n, r)"
  using toy_read_small [of n 16 "0x90" None "0xDC" r] toy_read_u16 [of n "0x90" "0xDC" 16 None r]
    toy_read_u32 [of "0x90" "0xDC" 16 None n r]
  by (simp add: mp_array_def)

lemma toy_map: "toy_read_len 0x80 16 None 0xDE (mp_map (unat n) @ r) = Some (n, r)"
  using toy_read_small [of n 16 "0x80" None "0xDE" r] toy_read_u16 [of n "0x80" "0xDE" 16 None r]
    toy_read_u32 [of "0x80" "0xDE" 16 None n r]
  by (simp add: mp_map_def)

lemma toy_str: "toy_read_len 0xA0 32 (Some 0xD9) 0xDA (mp_str (unat n) @ r) = Some (n, r)"
  using toy_read_small [of n 32 "0xA0" "Some 0xD9" "0xDA" r]
    toy_read_u8 [of n "0xA0" "0xD9" 32 "0xDA" r]
    toy_read_u16 [of n "0xA0" "0xDA" 32 "Some 0xD9" r]
    toy_read_u32 [of "0xA0" "0xDA" 32 "Some 0xD9" n r]
  by (simp add: mp_str_def)

lemma toy_bin: "toy_read_len 0 0 (Some 0xC4) 0xC5 (mp_bin (unat n) @ r) = Some (n, r)"
  using toy_read_u8 [of n 0 "0xC4" 0 "0xC5" r] toy_read_u16 [of n 0 "0xC5" 0 "Some 0xC4" r]
    toy_read_u32 [of 0 "0xC5" 0 "Some 0xC4" n r]
  by (simp add: mp_bin_def)

lemma toy_int: "toy_read_int (mp_uint v @ r) = Some (v, r)"
proof -
  have cast: "w = v" if "unat w = unat v" for w :: u64 using that by (simp add: word_unat_eq_iff)
  have 8: "unat (ucast v :: u8) = unat v" if "unat v < 256"
    using that by (simp add: unsigned_ucast_eq take_bit_nat_eq_self)
  have 16: "unat (ucast v :: u16) = unat v" if "unat v < 65536"
    using that by (simp add: unsigned_ucast_eq take_bit_nat_eq_self)
  have 32: "unat (ucast v :: u32) = unat v" if "unat v < 4294967296"
    using that by (simp add: unsigned_ucast_eq take_bit_nat_eq_self)
  have u: "unat (ucast w :: u64) = unat w" if "LENGTH('a) \<le> 64" for w :: "'a::len word"
  proof -
    have "unat w < 2 ^ 64"
      using unat_bound [of w] power_increasing [OF that, of "2 :: nat"] by linarith
    then have "take_bit LENGTH(64) (unat w) = unat w"
      by (simp add: take_bit_nat_eq_self)
    then show ?thesis by (simp only: unsigned_ucast_eq)
  qed
  show ?thesis
    by (auto simp: mp_uint_def toy_read_int_def word_less_nat_alt 8 16 32 u intro!: cast)
qed

lemma toy_rmp_ok: "rmp_ok toy_ext"
  unfolding rmp_ok_def rmp_write_ok_def rmp_read_ok_def
  by (simp add: toy_ext_def toy_array toy_map toy_str toy_bin toy_int)

lemma toy_bzip2_ok: "bzip2_ok toy_ext"
  by (simp add: bzip2_ok_def toy_ext_def)

section \<open>An entropy source\<close>

definition zeros :: "unit entropy" where
  "zeros r n = (replicate n 0, r)"

lemma zeros_ok: "entropy_ok zeros"
  by (simp add: entropy_ok_def zeros_def)

end
