(* ===== verification/Wire_Properties.thy ===== *)
theory Wire_Properties
  imports Streams Announces Path_Table Toy_Ext
begin

text \<open>
  The properties of the wire formats, the framings, the authenticated encryption, the link key
  exchange and the path table. Each rests on the lemmas of the component's theory; the witnesses
  evaluate them at \<open>toy_ext\<close>.
\<close>

section \<open>Packets and announces\<close>

text \<open>C12: Decoding and encoding a packet are inverse to each other: a byte string decodes to a
  packet exactly when the packet is well formed (two-byte header, 16-byte addresses, a transport
  identity exactly in HEADER_2 packets) and encodes to those bytes. So no two byte strings decode to
  the same packet, and every well-formed packet survives the wire.\<close>

theorem packet_wire_bijection: "packet_decode bs = Inr p \<longleftrightarrow> packet_ok p \<and> packet_encode p = bs"
  using packet_decode_encode packet_decode_ok packet_decode_bytes by blast

text \<open>Parsing an announce payload and serialising it are inverse to each other; the context flag
  of the packet says whether the 32-byte ratchet is there, and parsing fails exactly on payloads
  shorter than the fixed fields, with Truncated.\<close>

theorem announce_wire_bijection:
  "(announce_parse payload flag = Inr a) = (announce_ok a \<and> to_payload a = payload \<and> (an_ratchet a \<noteq> None) = flag) \<and>
   (announce_parse payload flag = Inl e) = (e = Truncated \<and> length payload < 148 + (if flag then 32 else 0))"
proof
  show "(announce_parse payload flag = Inr a) = (announce_ok a \<and> to_payload a = payload \<and> (an_ratchet a \<noteq> None) = flag)"
    using announce_payload_parse [of payload flag a] announce_parse_payload [of a] by blast
qed (rule announce_parse_error)

text \<open>The hash that identifies a packet (and the link id of a link request) is the same before and
  after a relay changes the hop count, the header type, the propagation type or the transport
  identity, whatever hash function is used.\<close>

theorem packet_hash_survives_relays:
  "packet_hash X (p\<lparr>hops := h, header_type := t, propagation := g, transport_id := i\<rparr>) = packet_hash X p \<and>
   link_id_from_request X (p\<lparr>hops := h, header_type := t, propagation := g, transport_id := i\<rparr>) = link_id_from_request X p"
  by (simp only: packet_hash_routing_indep link_id_routing_indep simp_thms)

section \<open>Encryption and links\<close>

text \<open>C11: What is encrypted to an identity decrypts, with its private keys, to the plaintext; whatever decrypts
  is at least 96 bytes long and ends in the HMAC of the initialisation vector and the ciphertext, everything
  between the ephemeral public key (the first 32 bytes) and the tag. The ephemeral key itself is not under
  the HMAC: it enters only through the key of the HMAC, which is derived from it.\<close>

theorem token_sealed:
  assumes "crypto_ok X"
  shows "(length iv = 16 \<longrightarrow> token_decrypt X i (token_encrypt X (id_public X i) p eph iv) = Inr p) \<and>
    (token_decrypt X i t = Inr q \<longrightarrow> 96 \<le> length t \<and>
      hmac_tag_ok X (fst (derive_keys X (id_diffie_hellman X i (take 32 t)) (id_hash X i))) (drop 32 t))"
proof (intro conjI impI)
  show "token_decrypt X i (token_encrypt X (id_public X i) p eph iv) = Inr p" if "length iv = 16"
    using token_decrypt_encrypt [OF assms that] .
  assume t: "token_decrypt X i t = Inr q"
  then show "96 \<le> length t" using token_decrypt_short [of t X i] by fastforce
  show "hmac_tag_ok X (fst (derive_keys X (id_diffie_hellman X i (take 32 t)) (id_hash X i))) (drop 32 t)"
    by (rule token_decrypt_authentic [OF t])
qed

theorem token_sealed_witness:
  "token_decrypt toy_ext (from_private_bytes [1] [2])
     (token_encrypt toy_ext (id_public toy_ext (from_private_bytes [1] [2])) [7, 8, 9] [3] (replicate 16 0)) = Inr [7, 8, 9] \<and>
   96 \<le> length (token_encrypt toy_ext (id_public toy_ext (from_private_bytes [1] [2])) [7, 8, 9] [3] (replicate 16 0))"
  using token_sealed [OF toy_ok, of "replicate 16 0" "from_private_bytes [1] [2]" "[7, 8, 9]" "[3]"
    "token_encrypt toy_ext (id_public toy_ext (from_private_bytes [1] [2])) [7, 8, 9] [3] (replicate 16 0)" "[7, 8, 9]"]
  by simp

text \<open>After a link request and its proof both ends hold the same key. The responder parses the
  initiator's ephemeral key out of the request; the initiator verifies the responder's proof with the
  destination's public identity; and the two keys derived with the link id are equal and 64 bytes
  long, so what one end seals the other opens.\<close>

theorem link_key_agreement:
  assumes "crypto_ok X"
    and "ini = ephemeral_from_private_bytes X a b" and "resp = ephemeral_from_private_bytes X c d"
  shows "\<exists>peer. parse_link_request (link_request_payload ini) = Inr (peer, ed25519_pub ini) \<and>
    verify_link_proof X (id_public X i) lid (build_link_proof X i lid resp) = Inr (x25519_pub resp) \<and>
    derive_link_key X (x25519_prv resp) peer lid = derive_link_key X (x25519_prv ini) (x25519_pub resp) lid \<and>
    length (derive_link_key X (x25519_prv resp) peer lid) = 64"
  using parse_link_request_payload [OF assms(1), of a b] crypto_okD [OF assms(1)]
    verify_build_link_proof [OF assms(1), of resp i lid] derive_link_key_agree [of X c a lid] assms(2,3)
  by simp

theorem link_key_agreement_witness:
  "\<exists>peer. parse_link_request (link_request_payload (ephemeral_from_private_bytes toy_ext [1] [2])) =
      Inr (peer, ed25519_pub (ephemeral_from_private_bytes toy_ext [1] [2])) \<and>
    derive_link_key toy_ext [3] peer [9] = derive_link_key toy_ext [1] (x_x25519_public toy_ext [3]) [9]"
  using link_key_agreement [OF toy_ok refl refl, of "[1]" "[2]" "from_private_bytes [5] [6]" "[9]" "[3]" "[4]"]
  by auto

text \<open>A link proof is accepted only when the destination's own key signed exactly this link id,
  the responder's ephemeral key, the destination's public signing key and the signalling bytes.\<close>

theorem link_proof_authentic:
  "verify_link_proof X dest lid d = Inr peer \<longleftrightarrow>
     (length d = 96 \<or> length d = 99) \<and> peer = sub 64 96 d \<and> x_ed25519_key_ok X (sig_pub dest) \<and>
     x_ed25519_verify X (sig_pub dest) (lid @ peer @ sig_pub dest @ drop 96 d) (take 64 d)"
  by (rule verify_link_proof_Inr)

section \<open>Framing and streams\<close>

text \<open>C13: A TCP stream of any length yields exactly the packets sent, whatever the reads cut it into: if
  the reads, each of at most the chunk the code reads at a time, concatenate to the HDLC frames of a list
  of nonempty packets, each of which fits the receive buffer beside one chunk, then n calls of recv return
  the first n packets in order, and the calls after the last packet none.\<close>

theorem tcp_stream_delivers:
  assumes "concat reads = concat (map tcp_send ps)" and "chunked reads"
    and "\<forall>p \<in> set ps. p \<noteq> [] \<and> length (tcp_send p) + READ_CHUNK < MAX_BUFFER"
  shows "tcp_recvs n reads [] = take n ps"
proof -
  have "tcp_send = hdlc_frame" by (simp add: fun_eq_iff tcp_send_def)
  then show ?thesis using assms tcp_recvs_stream [of "[]" reads "[]" ps n] by simp
qed

theorem tcp_stream_delivers_witness:
  "tcp_recvs 3 [[0x7E], [1, 0x7D, 0x5E], [0x7E, 0x7E, 2], [0x7E]] [] = [[1, 0x7E], [2]]"
  using tcp_stream_delivers [of "[[0x7E], [1, 0x7D, 0x5E], [0x7E, 0x7E, 2], [0x7E]]" "[[1, 0x7E], [2]]" 3]
  by (simp add: tcp_send_def hdlc_frame_def hdlc_consts MAX_BUFFER_def READ_CHUNK_def chunked_def)

text \<open>The serial decoder yields exactly the packets sent, never holds more than the maximum packet
  length, and does not depend on how the bytes arrive: fed the KISS frames of nonempty packets that
  fit, it emits them in order; on any bytes its buffer stays within the maximum.\<close>

theorem kiss_stream_delivers:
  "((\<forall>p \<in> set ps. p \<noteq> [] \<and> length p \<le> m) \<longrightarrow>
      fst (kiss_feed (concat (map kiss_frame ps)) (kiss_decoder_new m)) = ps) \<and>
    length (kd_packet (snd (kiss_feed bs (kiss_decoder_new m)))) \<le> m \<and>
    kiss_feed (bs @ cs) d = (fst (kiss_feed bs d) @ fst (kiss_feed cs (snd (kiss_feed bs d))),
      snd (kiss_feed cs (snd (kiss_feed bs d))))"
  using kiss_feed_frames [of "kiss_decoder_new m" ps] kiss_feed_bound [of "kiss_decoder_new m" bs]
    kiss_feed_append [of bs cs d]
  by (simp_all add: kiss_decoder_new_def)

theorem kiss_stream_delivers_witness:
  "fst (kiss_feed [0xC0, 0, 0xDB, 0xDC, 5, 0xC0, 0xC0, 0, 9, 0xC0] (kiss_decoder_new 500)) = [[0xC0, 5], [9]]"
  using kiss_stream_delivers [of "[[0xC0, 5], [9]]" 500]
  by (simp add: kiss_frame_def kiss_consts)

text \<open>HDLC and KISS framing are lossless and self-delimiting: deframing a frame gives the packet
  back, the frame starts and ends with its delimiter, and the delimiter occurs nowhere between.\<close>

theorem framing_lossless:
  "hdlc_deframe (hdlc_frame d) = Some d \<and> kiss_deframe (kiss_frame d) = Some d \<and>
   (\<exists>b. hdlc_frame d = FLAG # b @ [FLAG] \<and> FLAG \<notin> set b) \<and>
   (\<exists>b. kiss_frame d = FEND # b @ [FEND] \<and> FEND \<notin> set b)"
  using hdlc.deframe_frame kiss.deframe_frame hdlc.frame_body hdlc.body_clean kiss.frame_body kiss.body_clean
  by blast

text \<open>C29: An interface access code lets through exactly what was sealed with the interface's key. A frame of at
  least three bytes whose first byte has the access flag clear and which is at most 8160 bytes long with a
  code of 1 to 64 bytes is recovered by the receiver once sealed; and whatever the receiver accepts has the
  flag set and carries, in the clear, the last bytes of the interface key's signature over the recovered
  frame, which is shorter by the code.\<close>

theorem ifac_sealed:
  assumes "crypto_ok X" and "length key = 64" and "1 \<le> n" "n \<le> 64"
  shows "(3 \<le> length f \<and> length f + n \<le> 8160 \<and> f ! 0 AND IFAC_FLAG = 0 \<longrightarrow>
      (\<exists>w. ifac_apply_with_size X f key n = Inr w \<and> ifac_strip_with_size X w key n = Inr f)) \<and>
    (ifac_strip_with_size X v key n = Inr g \<longrightarrow>
      sub 2 (2 + n) v = ifac_code X g key n \<and> v ! 0 AND IFAC_FLAG \<noteq> 0 \<and> length v = length g + n)"
  using ifac_strip_apply [OF assms] ifac_strip_authentic(1,2,3) [of X v key n g] by blast

theorem ifac_sealed_witness:
  "\<exists>w. ifac_apply_with_size toy_ext [1, 2, 3, 4] (replicate 64 7) 16 = Inr w \<and>
     ifac_strip_with_size toy_ext w (replicate 64 7) 16 = Inr [1, 2, 3, 4]"
  using ifac_sealed [OF toy_ok, of "replicate 64 7" 16 "[1, 2, 3, 4]"] by (simp add: IFAC_FLAG_def)

section \<open>The path table\<close>

lemma path_prune_lengths: "path_len (fst (path_prune now t)) + snd (path_prune now t) = path_len t"
  by (simp add: path_prune_def path_len_def bt_retain_def Let_def)

text \<open>The path table keeps the best route offered: after any sequence of insertions, a
  destination that was offered has an entry at least as good as every offer made for it (fewer hops,
  or as many with a later timestamp) and the entry is one of the offers or the one it had before.\<close>

theorem path_table_best:
  assumes "(dh, e) \<in> set offered"
  shows "\<exists>d. path_get dh (path_ins.offers offered t) = Some d \<and> \<not> path_replaces e d \<and>
    (path_get dh t = Some d \<or> (dh, d) \<in> set offered)"
proof -
  obtain d where "path_get dh (path_ins.offers offered t) = Some d" "path_rank d \<le> path_rank e"
    using path_ins.best_offered [OF assms] by blast
  then show ?thesis using path_ins.look_offers_subset [of dh offered t d] path_replaces_rank [of e d] by fastforce
qed

definition demo_entry :: "u16 \<Rightarrow> u8 \<Rightarrow> u64 \<Rightarrow> path_entry" where
  "demo_entry i h t = \<lparr>pe_interface = i, pe_next_hop = None, pe_hops = h, pe_expires_at = 100,
     pe_timestamp = t, pe_public = \<lparr>enc_pub = [], sig_pub = []\<rparr>, pe_ratchet = None\<rparr>"

theorem path_table_best_witness:
  "\<exists>d. path_get [1] (path_ins.offers [([1], demo_entry 0 5 1), ([1], demo_entry 1 2 1)] []) = Some d \<and>
     \<not> path_replaces (demo_entry 1 2 1) d"
  using path_table_best [of "[1]" "demo_entry 1 2 1" "[([1], demo_entry 0 5 1), ([1], demo_entry 1 2 1)]" "[]"]
  by auto

text \<open>Pruning the path table removes exactly the expired routes: on an ordered table, a route is
  found afterwards exactly when it was there and expires after the given time, the count returned is
  the number removed, and pruning again removes nothing.\<close>

theorem path_prune_exact:
  assumes "bt_ok t"
  shows "(path_get dh (fst (path_prune now t)) = Some e \<longleftrightarrow> path_get dh t = Some e \<and> pe_expires_at e > now) \<and>
    path_len (fst (path_prune now t)) + snd (path_prune now t) = path_len t \<and>
    path_prune now (fst (path_prune now t)) = (fst (path_prune now t), 0)"
  using path_get_prune_Some [OF assms] path_prune_idem path_prune_lengths by blast

theorem path_prune_exact_witness:
  "path_prune 100 (fst (path_prune 100 [([1], demo_entry 0 5 1)])) = ([], 0)"
proof -
  have "fst (path_prune 100 [([1], demo_entry 0 5 1)]) = []"
    by (simp add: path_prune_def bt_retain_def demo_entry_def)
  then show ?thesis using path_prune_exact [of "[([1], demo_entry 0 5 1)]" _ 100] by (simp add: bt_ok_def bt_keys_def)
qed

end
