(* ===== verification/Resource_Transfer.thy ===== *)
theory Resource_Transfer
  imports Resource_State
begin

text \<open>
  What the two ends of a transfer (Resource_State) do together. First the receiver alone: the
  invariant of its window, retries and tables, kept by every operation. Then the retry timer, which
  gives up after 16 unanswered requests. Then the exchange of requests and answers, one round at a
  time, as in the loop of the source's own round-trip test, shown to deliver the payload.
\<close>

section \<open>The receiver's invariant\<close>

definition ib_ok :: "inbound_resource \<Rightarrow> bool" where
  "ib_ok ib \<longleftrightarrow> length (ib_map ib) = length (ib_parts ib) \<and> ib_parts ib \<noteq> [] \<and>
     WINDOW_MIN \<le> ib_window ib \<and> ib_window ib \<le> WINDOW_MAX \<and> ib_retries ib \<le> MAX_RETRIES \<and>
     length (ib_hash ib) = 32 \<and> length (ib_random_hash ib) = 4 \<and>
     (\<forall>h. Some h \<in> set (ib_map ib) \<longrightarrow> length h = 4) \<and> (\<forall>h \<in> set (ib_outstanding ib). length h = 4)"

lemma fill_map_length [simp]: "length (snd (fill_map i es m)) = length m"
  by (induction i es m rule: fill_map.induct) auto

lemma fill_map_entries: "Some h \<in> set (snd (fill_map i es m)) \<Longrightarrow> h \<in> set es \<or> Some h \<in> set m"
proof (induction i es m rule: fill_map.induct)
  case (1 i m)
  then show ?case by simp
next
  case (2 i e es m)
  show ?case
  proof (cases "length m \<le> i")
    case True
    with "2.prems" show ?thesis by simp
  next
    case False
    with 2 have "h \<in> set es \<or> Some h \<in> set (m[i := Some e])" by simp
    then show ?thesis using set_update_subset_insert [of m i "Some e"] by auto
  qed
qed

lemma fill_map_fits:
  "i + length es \<le> length m \<Longrightarrow>
     fill_map i es m = (Inr (), take i m @ map Some es @ drop (i + length es) m)"
proof (induction i es m rule: fill_map.induct)
  case (1 i m)
  then show ?case by simp
next
  case (2 i e es m)
  then have l: "i < length m" and IH: "fill_map (i + 1) es (m[i := Some e]) =
      (Inr (), take (i + 1) (m[i := Some e]) @ map Some es @ drop (i + 1 + length es) (m[i := Some e]))"
    by auto
  have "take (i + 1) (m[i := Some e]) = take i m @ [Some e]"
    using l by (simp add: take_Suc_conv_app_nth)
  then show ?case using IH l by simp
qed

lemma fill_map_overflow:
  "length m < i + length es \<Longrightarrow> i \<le> length m \<or> es \<noteq> [] \<Longrightarrow> fst (fill_map i es m) = Inl InvalidField"
  by (induction i es m rule: fill_map.induct) auto

lemma fill_map_error: "fst (fill_map i es m) = Inl e \<Longrightarrow> e = InvalidField"
  by (induction i es m rule: fill_map.induct) (auto split: if_splits)

lemma set_map_filter: "set (List.map_filter f xs) = {y. \<exists>x \<in> set xs. f x = Some y}"
  by (induction xs) (auto simp: List.map_filter_simps split: option.splits)

lemma window_hashes_len:
  assumes "ib_ok ib" and "h \<in> set (window_hashes ib k)"
  shows "length h = 4"
proof -
  obtain i where "i < length (ib_parts ib)" "ib_map ib ! i = Some h"
    using assms(2) by (auto simp: window_hashes_def set_map_filter split: if_splits)
  then have "Some h \<in> set (ib_map ib)" using assms(1) by (metis ib_ok_def nth_mem)
  then show ?thesis using assms(1) by (simp add: ib_ok_def)
qed

text \<open>The four outcomes of asking for more.\<close>

lemma next_request_outcomes:
  assumes "next_request now ib = (r, ib')"
  obtains (quiet) "r = None" "ib' = ib"
  | (empty) "r = None" "ib' = ib\<lparr>ib_outstanding := []\<rparr>"
  | (map) i known rest where "position (\<lambda>p. p = None) (ib_parts ib) = Some i" "ib_map ib ! i = None"
      "List.map_filter id (rev (take i (ib_map ib))) = known # rest"
      "r = Some ([HASHMAP_IS_EXHAUSTED] @ known @ ib_hash ib)"
      "ib' = ib\<lparr>ib_waiting_for_hmu := True, ib_last_request := now\<rparr>"
  | (parts) i where "position (\<lambda>p. p = None) (ib_parts ib) = Some i" "ib_map ib ! i \<noteq> None"
      "window_hashes ib i \<noteq> []"
      "r = Some ([HASHMAP_IS_NOT_EXHAUSTED] @ ib_hash ib @ concat (window_hashes ib i))"
      "ib' = ib\<lparr>ib_outstanding := window_hashes ib i, ib_last_request := now\<rparr>"
proof (cases "is_complete ib")
  case True
  with assms show thesis by (intro quiet) (simp_all add: next_request_def)
next
  case nc: False
  show thesis
  proof (cases "position (\<lambda>p. p = None) (ib_parts ib)")
    case None
    with assms nc show thesis by (intro quiet) (simp_all add: next_request_def)
  next
    case i: (Some i)
    show thesis
    proof (cases "ib_map ib ! i")
      case None
      show thesis
      proof (cases "List.map_filter id (rev (take i (ib_map ib)))")
        case Nil
        with assms nc i None show thesis by (intro quiet) (simp_all add: next_request_def)
      next
        case (Cons known rest)
        with assms nc i None show thesis by (intro map [OF i]) (auto simp: next_request_def)
      qed
    next
      case (Some h)
      show thesis
      proof (cases "window_hashes ib i")
        case Nil
        with assms nc i Some show thesis by (intro empty) (simp_all add: next_request_def Let_def)
      next
        case (Cons x xs)
        with assms nc i Some show thesis
          by (intro parts [OF i]) (auto simp: next_request_def Let_def)
      qed
    qed
  qed
qed

lemma inbound_new_ok:
  assumes "inbound_from_advertisement a = Inr ib"
  shows "ib_ok ib \<and> ib_retries ib = 0 \<and> ib_window ib = WINDOW \<and> received_parts ib = 0 \<and>
    total_parts ib = unat (ra_n a) \<and> ib_hash ib = ra_h a"
proof -
  let ?f = "fill_map 0 (chunks_exact 4 (ra_m a)) (replicate (unat (ra_n a)) None)"
  have ib: "ib = \<lparr>ib_hash = ra_h a, ib_size = ra_t a, ib_total_size = ra_d a, ib_random_hash = ra_r a,
      ib_compressed = adv_compressed a, ib_map = snd ?f, ib_parts = replicate (unat (ra_n a)) None,
      ib_outstanding = [], ib_window = WINDOW, ib_retries = 0, ib_last_request = 0,
      ib_waiting_for_hmu = False\<rparr>" and len: "length (ra_h a) = 32" "length (ra_r a) = 4" "ra_n a \<noteq> 0"
    using assms by (auto simp: inbound_from_advertisement_def rbind_Inr_iff MAPHASH_LEN_def
        RANDOM_HASH_SIZE_def Let_def split: if_splits prod.splits)
  have n: "0 < unat (ra_n a)" using len(3) by (simp add: unat_gt_0)
  have "\<forall>h. Some h \<in> set (snd ?f) \<longrightarrow> length h = 4"
    using fill_map_entries [of _ 0 "chunks_exact 4 (ra_m a)" "replicate (unat (ra_n a)) None"]
    by (auto dest: length_chunks_exact_elem)
  then show ?thesis using len n
    by (simp add: ib ib_ok_def received_parts_def total_parts_def transfer_consts filter_replicate)
qed


lemma inbound_new_fields:
  assumes "inbound_from_advertisement a = Inr ib"
  shows "ib_size ib = ra_t a" "ib_total_size ib = ra_d a" "ib_random_hash ib = ra_r a" "ib_compressed ib = adv_compressed a"
  using assms by (auto simp: inbound_from_advertisement_def rbind_Inr_iff RANDOM_HASH_SIZE_def Let_def
      split: if_splits prod.splits)
lemma next_request_ok:
  assumes "ib_ok ib" shows "ib_ok (snd (next_request now ib))"
proof -
  obtain r ib' where n: "next_request now ib = (r, ib')" by fastforce
  from n show ?thesis
    by (cases rule: next_request_outcomes) (use n assms window_hashes_len [OF assms] in \<open>auto simp: ib_ok_def\<close>)
qed

lemma on_part_ok:
  assumes "ib_ok ib" shows "ib_ok (snd (on_part X p ib))"
  using assms
  by (auto simp: on_part_def ib_ok_def Let_def transfer_consts split: option.splits)

lemma on_hashmap_update_ok:
  assumes "ib_ok ib" shows "ib_ok (snd (on_hashmap_update X d ib))"
proof -
  have "length h = 4" if "Some h \<in> set (snd (fill_map i (chunks_exact 4 u) (ib_map ib)))" for h i u
    using fill_map_entries [OF that] assms by (auto simp: ib_ok_def dest: length_chunks_exact_elem)
  moreover have "length (snd (fill_map i es (ib_map ib))) = length (ib_parts ib)" for i es
    using assms by (simp add: ib_ok_def)
  ultimately show ?thesis using assms
    by (auto simp: on_hashmap_update_def ib_ok_def Let_def MAPHASH_LEN_def case_prod_beta
        split: sum.splits prod.splits)
qed

lemma retry_due_ok:
  assumes "ib_ok ib" shows "ib_ok (snd (retry_due now ib))"
proof -
  have "ib_ok (ib\<lparr>ib_retries := ib_retries ib + 1, ib_window := max (ib_window ib - 1) WINDOW_MIN\<rparr>)"
    if "\<not> MAX_RETRIES \<le> ib_retries ib"
  proof -
    have "unat (ib_retries ib) < 16" using that by (simp add: MAX_RETRIES_def word_le_nat_alt)
    then have "ib_retries ib + 1 \<le> MAX_RETRIES"
      by (simp add: MAX_RETRIES_def word_le_nat_alt unat_word_ariths)
    then show ?thesis using assms by (auto simp: ib_ok_def)
  qed
  then show ?thesis using assms next_request_ok
    by (auto simp: retry_due_def case_prod_beta Let_def)
qed

text \<open>All that can happen to a receiver, and the states it can reach.\<close>

datatype ib_event = GetPart bytes | GetUpdate bytes | AskNext u64 | RetryAt u64

definition ib_step :: "ext \<Rightarrow> ib_event \<Rightarrow> inbound_resource \<Rightarrow> inbound_resource" where
  "ib_step X e ib = (case e of GetPart p \<Rightarrow> snd (on_part X p ib)
     | GetUpdate d \<Rightarrow> snd (on_hashmap_update X d ib)
     | AskNext now \<Rightarrow> snd (next_request now ib)
     | RetryAt now \<Rightarrow> snd (retry_due now ib))"

inductive inbound_reach :: "ext \<Rightarrow> resource_advertisement \<Rightarrow> inbound_resource \<Rightarrow> bool" for X a where
  start: "inbound_from_advertisement a = Inr ib \<Longrightarrow> inbound_reach X a ib"
| step: "inbound_reach X a ib \<Longrightarrow> inbound_reach X a (ib_step X e ib)"

inductive_cases inbound_reach_cases: "inbound_reach X a ib"

lemma ib_step_ok: "ib_ok ib \<Longrightarrow> ib_ok (ib_step X e ib)"
  by (cases e) (simp_all add: ib_step_def on_part_ok on_hashmap_update_ok next_request_ok retry_due_ok)

lemma inbound_reach_ok: "inbound_reach X a ib \<Longrightarrow> ib_ok ib"
  by (induction rule: inbound_reach.induct) (auto dest: inbound_new_ok intro: ib_step_ok)

text \<open>What the transfer is about never changes: its hashes, its sizes, whether it is compressed, its number of parts.\<close>

definition ib_same :: "inbound_resource \<Rightarrow> inbound_resource \<Rightarrow> bool" where
  "ib_same ib ib' \<longleftrightarrow> ib_hash ib' = ib_hash ib \<and> ib_random_hash ib' = ib_random_hash ib \<and>
     ib_size ib' = ib_size ib \<and> ib_total_size ib' = ib_total_size ib \<and> ib_compressed ib' = ib_compressed ib \<and>
     length (ib_parts ib') = length (ib_parts ib) \<and> length (ib_map ib') = length (ib_map ib)"

lemma next_request_same: "ib_same ib (snd (next_request now ib))"
proof -
  obtain r ib' where n: "next_request now ib = (r, ib')" by fastforce
  from n show ?thesis by (cases rule: next_request_outcomes) (use n in \<open>auto simp: ib_same_def\<close>)
qed

lemma ib_step_same: "ib_same ib (ib_step X e ib)"
proof (cases e)
  case (GetPart p)
  then show ?thesis
    by (auto simp: ib_step_def on_part_def ib_same_def Let_def split: option.splits)
next
  case (GetUpdate d)
  then show ?thesis
    by (auto simp: ib_step_def on_hashmap_update_def ib_same_def Let_def case_prod_beta
        split: sum.splits)
next
  case (AskNext now)
  then show ?thesis using next_request_same by (simp add: ib_step_def)
next
  case (RetryAt now)
  have "ib_same ib (snd (next_request now (ib\<lparr>ib_retries := q, ib_window := w\<rparr>)))" for q w
    using next_request_same [of "ib\<lparr>ib_retries := q, ib_window := w\<rparr>" now] by (simp add: ib_same_def)
  with RetryAt show ?thesis
    by (auto simp: ib_step_def retry_due_def case_prod_beta Let_def) (simp_all add: ib_same_def)
qed

text \<open>Parts are only ever added.\<close>

lemma on_part_progress:
  assumes "ib_ok ib" and "on_part X p ib = (True, ib')"
  shows "received_parts ib' = received_parts ib + 1"
proof -
  obtain i where i: "find (\<lambda>i. ib_map ib ! i = Some (map_hash X p (ib_random_hash ib)) \<and> ib_parts ib ! i = None)
      [0..<length (ib_map ib)] = Some i" and parts: "ib_parts ib' = (ib_parts ib)[i := Some p]"
    using assms(2) by (auto simp: on_part_def Let_def split: option.splits if_splits)
  have l: "i < length (ib_parts ib)" "ib_parts ib ! i = None"
    using i assms(1) by (auto simp: find_Some_iff ib_ok_def)
  have *: "length (filter (\<lambda>p. p \<noteq> None) (xs[i := Some p])) = length (filter (\<lambda>p. p \<noteq> None) xs) + 1"
    if "i < length xs" "xs ! i = None" for xs :: "bytes option list"
    using that by (induction xs arbitrary: i) (auto split: nat.splits)
  show ?thesis unfolding received_parts_def parts using l by (simp only: *)
qed

lemma on_part_refused:
  assumes "on_part X p ib = (False, ib')"
  shows "ib' = ib \<and> (\<forall>i<length (ib_map ib). ib_map ib ! i = Some (map_hash X p (ib_random_hash ib)) \<longrightarrow>
    ib_parts ib ! i \<noteq> None)"
  using assms
  by (auto simp: on_part_def Let_def find_None_iff split: option.splits)

lemma finalize_sound:
  assumes "finalize X key ib = Inr d"
  shows "is_complete ib" and "resource_hash X d (ib_random_hash ib) = ib_hash ib"
    and "word_of_nat (length d) = ib_total_size ib"
    and "hmac_tag_ok X (take 32 key) (reassemble (List.map_filter id (ib_parts ib)))"
  using assms open_with_key_tag
  by (auto simp: finalize_def Let_def rbind_Inr_iff split: if_splits)

text \<open>The payload is the plaintext of all parts, after its random prefix, decompressed when it was compressed.\<close>

lemma finalize_payload:
  assumes "finalize X key ib = Inr d"
  obtains stream where "open_with_key X key (reassemble (List.map_filter id (ib_parts ib))) = Inr stream" "4 \<le> length stream"
    "if ib_compressed ib then decompress_payload X (drop 4 stream) = Inr d else d = drop 4 stream"
  using assms by (auto simp: finalize_def Let_def rbind_Inr_iff RANDOM_HASH_SIZE_def split: if_splits)

section \<open>The retry timer\<close>

text \<open>The timer fires at the times of the list until it fails.\<close>

fun retry_run :: "u64 list \<Rightarrow> inbound_resource \<Rightarrow> (core_error + unit) \<times> inbound_resource" where
  "retry_run [] ib = (Inr (), ib)"
| "retry_run (t # ts) ib =
     (case retry_due t ib of (Inl e, ib) \<Rightarrow> (Inl e, ib) | (Inr _, ib) \<Rightarrow> retry_run ts ib)"

text \<open>Times at least the timeout apart, the first that long after the given one.\<close>

fun spaced :: "u64 \<Rightarrow> u64 list \<Rightarrow> bool" where
  "spaced l0 [] = True"
| "spaced l0 (t # ts) = (unat l0 + unat REQUEST_TIMEOUT_SECS \<le> unat t \<and> spaced t ts)"

lemma spaced_earlier: "spaced t ts \<Longrightarrow> unat l \<le> unat t \<Longrightarrow> spaced l ts"
  by (cases ts) auto

lemma retry_due_fires:
  assumes "ib_last_request ib \<noteq> 0" "\<not> is_complete ib"
    and "unat (ib_last_request ib) + unat REQUEST_TIMEOUT_SECS \<le> unat now"
  shows "retry_due now ib =
    (if ib_retries ib \<ge> MAX_RETRIES then (Inl Unsupported, ib)
     else (Inr (fst (next_request now (ib\<lparr>ib_retries := ib_retries ib + 1, ib_window := max (ib_window ib - 1) WINDOW_MIN\<rparr>))),
           snd (next_request now (ib\<lparr>ib_retries := ib_retries ib + 1, ib_window := max (ib_window ib - 1) WINDOW_MIN\<rparr>))))"
proof -
  have "\<not> sat_sub now (ib_last_request ib) < REQUEST_TIMEOUT_SECS"
    using assms(3) by (simp add: word_less_nat_alt unat_sat_sub)
  then show ?thesis using assms by (simp add: retry_due_def case_prod_beta Let_def)
qed

lemma next_request_timer:
  assumes "next_request now ib = (r, ib')"
  shows "ib_retries ib' = ib_retries ib" and "is_complete ib' = is_complete ib"
    and "ib_last_request ib' = now \<or> ib_last_request ib' = ib_last_request ib"
    and "ib_parts ib' = ib_parts ib"
  using assms by (cases rule: next_request_outcomes; simp add: is_complete_def)+

lemma retry_run_gives_up:
  "ib_last_request ib \<noteq> 0 \<Longrightarrow> \<not> is_complete ib \<Longrightarrow> spaced (ib_last_request ib) ts \<Longrightarrow>
     unat (ib_retries ib) \<le> 16 \<Longrightarrow> 16 - unat (ib_retries ib) < length ts \<Longrightarrow>
     fst (retry_run ts ib) = Inl Unsupported"
proof (induction ts arbitrary: ib)
  case Nil
  then show ?case by simp
next
  case (Cons t ts)
  let ?ib = "ib\<lparr>ib_retries := ib_retries ib + 1, ib_window := max (ib_window ib - 1) WINDOW_MIN\<rparr>"
  obtain r ib' where n: "next_request t ?ib = (r, ib')" by fastforce
  have fires: "retry_due t ib = (if ib_retries ib \<ge> MAX_RETRIES then (Inl Unsupported, ib) else (Inr r, ib'))"
    using retry_due_fires [of ib t] Cons.prems n by simp
  show ?case
  proof (cases "ib_retries ib \<ge> MAX_RETRIES")
    case True
    then show ?thesis by (simp add: fires)
  next
    case False
    then have lt: "unat (ib_retries ib) < 16" by (simp add: MAX_RETRIES_def word_le_nat_alt)
    then have ret: "unat (ib_retries ib') = unat (ib_retries ib) + 1"
      using next_request_timer(1) [OF n] by (simp add: unat_word_ariths)
    have t: "unat (ib_last_request ib) + 2 \<le> unat t" and sp: "spaced t ts"
      using Cons.prems(3) by (simp_all add: REQUEST_TIMEOUT_SECS_def)
    then have "t \<noteq> 0" by auto
    have last: "ib_last_request ib' = t \<or> ib_last_request ib' = ib_last_request ib"
      using next_request_timer(3) [OF n] by simp
    have "fst (retry_run ts ib') = Inl Unsupported"
    proof (rule Cons.IH)
      show "ib_last_request ib' \<noteq> 0" using last \<open>t \<noteq> 0\<close> Cons.prems(1) by auto
      show "\<not> is_complete ib'"
        using next_request_timer(2) [OF n] Cons.prems(2) by (simp add: is_complete_def)
      show "spaced (ib_last_request ib') ts"
        using last sp spaced_earlier [OF sp, of "ib_last_request ib"] t by auto
    qed (use ret lt Cons.prems in auto)
    then show ?thesis using False by (simp add: fires)
  qed
qed

text \<open>An advertisement without map hashes starts a transfer that asks for nothing and never times out.\<close>

definition silent :: "inbound_resource \<Rightarrow> bool" where
  "silent ib \<longleftrightarrow> ib_last_request ib = 0 \<and> \<not> is_complete ib \<and> (\<forall>m \<in> set (ib_map ib). m = None)
     \<and> length (ib_map ib) = length (ib_parts ib)"

lemma silent_stuck:
  assumes "silent ib"
  shows "next_request now ib = (None, ib)" and "retry_due now ib = (Inr None, ib)"
    and "on_part X p ib = (False, ib)"
proof -
  have none: "ib_map ib ! i = None" if "i < length (ib_map ib)" for i
    using assms that by (simp add: silent_def)
  have f: "List.map_filter id (rev (take i (ib_map ib))) = []" for i
  proof -
    have "\<forall>m \<in> set (take i (ib_map ib)). m = None"
      using assms set_take_subset [of i "ib_map ib"] by (auto simp: silent_def)
    then have "set (List.map_filter id (rev (take i (ib_map ib)))) = {}"
      by (auto simp: set_map_filter)
    then show ?thesis by simp
  qed
  have nc: "\<not> is_complete ib" using assms by (simp add: silent_def)
  show "next_request now ib = (None, ib)"
  proof (cases "position (\<lambda>p. p = None) (ib_parts ib)")
    case None
    then show ?thesis by (simp add: next_request_def)
  next
    case (Some i)
    then have "ib_map ib ! i = None" using assms none by (simp add: silent_def position_Some)
    then show ?thesis using Some f by (simp add: next_request_def)
  qed
  show "retry_due now ib = (Inr None, ib)"
    using assms by (simp add: retry_due_def silent_def)
  have "find (\<lambda>i. ib_map ib ! i = Some h \<and> ib_parts ib ! i = None) [0..<length (ib_map ib)] = None" for h
    unfolding find_None_iff by (metis atLeastLessThan_iff none option.distinct(1) set_upt)
  then show "on_part X p ib = (False, ib)" by (simp add: on_part_def Let_def)
qed

section \<open>A round of the exchange\<close>

definition deliver :: "ext \<Rightarrow> resource_output \<Rightarrow> inbound_resource \<Rightarrow> inbound_resource" where
  "deliver X output ib = (case output of Part p \<Rightarrow> snd (on_part X p ib)
     | HashmapUpdate u \<Rightarrow> snd (on_hashmap_update X u ib))"

definition exchange ::
    "ext \<Rightarrow> u64 \<Rightarrow> outbound_resource \<times> inbound_resource \<Rightarrow> outbound_resource \<times> inbound_resource" where
  "exchange X now s =
     (case next_request now (snd s) of
        (None, ib) \<Rightarrow> (fst s, ib)
      | (Some request, ib) \<Rightarrow>
          (case on_request X request now (fst s) of (outs, ob) \<Rightarrow> (ob, fold (deliver X) outs ib)))"

definition part_hash :: "ext \<Rightarrow> outbound_resource \<Rightarrow> nat \<Rightarrow> bytes" where
  "part_hash X ob i = map_hash X (ob_parts ob ! i) (ob_random_hash ob)"

definition ob_ok :: "ext \<Rightarrow> outbound_resource \<Rightarrow> bool" where
  "ob_ok X ob \<longleftrightarrow> ob_map ob = hashmap X (ob_parts ob) (ob_random_hash ob) \<and> length (ob_hash ob) = 32 \<and>
     length (ob_parts ob) < 2 ^ 28 \<and> distinct (ob_map_hashes ob)"

text \<open>The receiver knows the hashes of the first \<open>k\<close> parts and holds some of those parts.\<close>

definition paired :: "ext \<Rightarrow> outbound_resource \<Rightarrow> nat \<Rightarrow> inbound_resource \<Rightarrow> bool" where
  "paired X ob k ib \<longleftrightarrow> ib_hash ib = ob_hash ob \<and> ib_random_hash ib = ob_random_hash ob \<and>
     length (ib_parts ib) = length (ob_parts ob) \<and> length (ib_map ib) = length (ob_parts ob) \<and>
     0 < ib_window ib \<and> k \<le> length (ob_parts ob) \<and>
     (k = length (ob_parts ob) \<or> 0 < k \<and> k mod HASHMAP_MAX_LEN = 0) \<and>
     (\<forall>i<length (ob_parts ob). ib_map ib ! i = (if i < k then Some (part_hash X ob i) else None)) \<and>
     (\<forall>i<length (ob_parts ob). ib_parts ib ! i = None \<or> ib_parts ib ! i = Some (ob_parts ob ! i) \<and> i < k)"

lemma ob_map_hashes_eq:
  "ob_ok X ob \<Longrightarrow> ob_map_hashes ob = map (part_hash X ob) [0..<length (ob_parts ob)]"
proof -
  assume "ob_ok X ob"
  then have "ob_map_hashes ob = map (\<lambda>p. map_hash X p (ob_random_hash ob)) (ob_parts ob)"
    by (simp only: ob_map_hashes_def ob_ok_def MAPHASH_LEN_def chunks_exact_hashmap)
  also have "\<dots> = map (part_hash X ob) [0..<length (ob_parts ob)]"
    by (rule nth_equalityI) (simp_all add: part_hash_def)
  finally show ?thesis .
qed

lemma part_hash_inj:
  assumes "ob_ok X ob" "i < length (ob_parts ob)" "j < length (ob_parts ob)"
  shows "part_hash X ob i = part_hash X ob j \<longleftrightarrow> i = j"
proof -
  have "inj_on (part_hash X ob) {0..<length (ob_parts ob)}"
    using assms(1) ob_map_hashes_eq [OF assms(1)] by (simp add: ob_ok_def distinct_map)
  then show ?thesis using assms(2,3) by (auto dest: inj_onD)
qed

lemma part_hash_position:
  assumes "ob_ok X ob" "i < length (ob_parts ob)"
  shows "position (\<lambda>h. h = part_hash X ob i) (ob_map_hashes ob) = Some i"
  using assms part_hash_inj [OF assms(1)]
  by (auto simp: position_Some ob_map_hashes_eq)

lemma length_part_hash [simp]: "length (part_hash X ob i) = 4"
  by (simp add: part_hash_def)

text \<open>A part that is asked for is served, and a served part is accepted.\<close>

lemma requested_parts_served:
  assumes "ob_ok X ob" and "\<forall>i \<in> set is. i < length (ob_parts ob)"
  shows "requested_parts ob (concat (map (part_hash X ob) is)) = map (\<lambda>i. Part (ob_parts ob ! i)) is"
proof -
  have "chunks_exact 4 (concat (map (part_hash X ob) is)) = map (part_hash X ob) is"
    by (rule chunks_exact_concat) auto
  moreover have "List.map_filter (\<lambda>h. map_option (\<lambda>i. Part (ob_parts ob ! i))
      (position (\<lambda>h'. h' = h) (ob_map_hashes ob))) (map (part_hash X ob) is) =
      map (\<lambda>i. Part (ob_parts ob ! i)) is"
    using assms(2) by (induction "is") (simp_all add: part_hash_position [OF assms(1)])
  ultimately show ?thesis by (simp add: requested_parts_def MAPHASH_LEN_def)
qed

lemma on_part_accepted:
  assumes ob: "ob_ok X ob" and p: "paired X ob k ib" and i: "i < k" and none: "ib_parts ib ! i = None"
  obtains ib' where "on_part X (ob_parts ob ! i) ib = (True, ib')" and "paired X ob k ib'"
    and "ib_parts ib' = (ib_parts ib)[i := Some (ob_parts ob ! i)]"
proof -
  have l: "i < length (ob_parts ob)" using p i by (simp add: paired_def)
  have h: "map_hash X (ob_parts ob ! i) (ib_random_hash ib) = part_hash X ob i"
    using p by (simp add: paired_def part_hash_def)
  have "find (\<lambda>j. ib_map ib ! j = Some (part_hash X ob i) \<and> ib_parts ib ! j = None) [0..<length (ib_map ib)] = Some i"
    unfolding find_Some_iff using p i l none part_hash_inj [OF ob]
    by (intro exI [of _ i]) (auto simp: paired_def split: if_splits)
  then obtain ib' where ib': "on_part X (ob_parts ob ! i) ib = (True, ib')"
      "ib_parts ib' = (ib_parts ib)[i := Some (ob_parts ob ! i)]" "ib_map ib' = ib_map ib"
      "ib_hash ib' = ib_hash ib" "ib_random_hash ib' = ib_random_hash ib" "0 < ib_window ib'"
    using p by (auto simp: on_part_def Let_def h paired_def transfer_consts)
  moreover have "paired X ob k ib'"
    using p i ib' by (auto simp: paired_def nth_list_update)
  ultimately show thesis using that by blast
qed

section \<open>Every round makes progress\<close>

lemma map_filter_if: "List.map_filter (\<lambda>x. if P x then Some (g x) else None) xs = map g (filter P xs)"
  by (induction xs) auto

lemma map_filter_cong: "(\<And>x. x \<in> set xs \<Longrightarrow> f x = g x) \<Longrightarrow> List.map_filter f xs = List.map_filter g xs"
  by (induction xs) (auto split: option.splits)

lemma map_filter_id_Some: "List.map_filter id (map Some xs) = xs"
  by (induction xs) auto

definition wanted :: "inbound_resource \<Rightarrow> nat \<Rightarrow> nat \<Rightarrow> nat list" where
  "wanted ib k i = filter (\<lambda>j. ib_parts ib ! j = None \<and> j < k) [i ..< min (i + ib_window ib) (length (ib_parts ib))]"

lemma window_hashes_wanted:
  assumes "paired X ob k ib"
  shows "window_hashes ib i = map (part_hash X ob) (wanted ib k i)"
  unfolding window_hashes_def wanted_def map_filter_if [symmetric]
  using assms by (intro map_filter_cong) (auto simp: paired_def)

lemma request_parts_answer:
  assumes ob: "ob_ok X ob" and "\<forall>i \<in> set is. i < length (ob_parts ob)"
  shows "on_request X ([HASHMAP_IS_NOT_EXHAUSTED] @ ob_hash ob @ concat (map (part_hash X ob) is)) now ob =
    (map (\<lambda>i. Part (ob_parts ob ! i)) is, ob\<lparr>ob_last_activity := now\<rparr>)"
proof -
  have "length (concat (map (part_hash X ob) is)) = 4 * length is"
    by (induction "is") auto
  then show ?thesis using assms requested_parts_served [OF assms]
    by (simp add: on_request_def transfer_consts MAPHASH_LEN_def ob_ok_def sub_def Let_def)
qed

lemma concat_hashes_length: "length (concat (map (part_hash X ob) is)) = 4 * length is"
  by (induction "is") auto

text \<open>The segment of the map after the \<open>k\<close>-th hash.\<close>

lemma requested_map_answer:
  assumes ob: "ob_ok X ob" and k: "0 < k" "k mod HASHMAP_MAX_LEN = 0" "k < length (ob_parts ob)"
  defines "e \<equiv> min (k + HASHMAP_MAX_LEN) (length (ob_parts ob))"
  shows "requested_map X ob (part_hash X ob (k - 1)) =
    [HashmapUpdate (pack_hashmap_update X (ob_hash ob) (word_of_nat (k div HASHMAP_MAX_LEN))
       (concat (map (part_hash X ob) [k..<e])))]"
proof -
  let ?n = "length (ob_parts ob)"
  have q: "k div 74 * 74 = k" "k mod 74 = 0" using k(2) by (auto simp: HASHMAP_MAX_LEN_def)
  have n: "?n < 2 ^ 28" using ob by (simp add: ob_ok_def)
  have pos: "position (\<lambda>h. h = part_hash X ob (k - 1)) (ob_map_hashes ob) = Some (k - 1)"
    using part_hash_position [OF ob, of "k - 1"] k(3) by simp
  have m: "ob_map ob = concat (map (part_hash X ob) [0..<?n])"
  proof -
    have "map (\<lambda>p. map_hash X p (ob_random_hash ob)) (ob_parts ob) = map (part_hash X ob) [0..<?n]"
      by (rule nth_equalityI) (simp_all add: part_hash_def)
    then show ?thesis using ob by (simp add: ob_ok_def hashmap_concat)
  qed
  have "[0..<?n] = [0..<k] @ [k..<e] @ [e..<?n]"
    using k(3) upt_add_eq_append [of 0 k "?n - k"] upt_add_eq_append [of k e "?n - e"]
    by (simp add: e_def)
  then have sub: "sub (k * 4) (e * 4) (ob_map ob) = concat (map (part_hash X ob) [k..<e])"
    unfolding m by (simp del: concat_append add: concat_append [symmetric])
      (simp add: sub_def concat_hashes_length)
  have "length (ob_map ob) = 4 * ?n" by (simp add: m concat_hashes_length)
  moreover have "Suc (k - 1) = k" using k(1) by simp
  moreover have "min ((k div 74 + 1) * 74 * 4) (4 * ?n) = e * 4"
    using q(1) by (simp add: e_def HASHMAP_MAX_LEN_def min_def algebra_simps)
  moreover have "k * 4 < e * 4" using k(3) by (simp add: e_def HASHMAP_MAX_LEN_def)
  moreover have "k div 74 < 2 ^ 32" using n k(3) le_less_trans [OF div_le_dividend, of k "2 ^ 32" 74] by simp
  ultimately show ?thesis
    using sub k(1) q unfolding requested_map_def pos HASHMAP_MAX_LEN_def MAPHASH_LEN_def Let_def
    by (simp del: One_nat_def)
qed

lemma request_map_answer:
  assumes ob: "ob_ok X ob" and k: "0 < k" "k mod HASHMAP_MAX_LEN = 0" "k < length (ob_parts ob)"
  shows "on_request X ([HASHMAP_IS_EXHAUSTED] @ part_hash X ob (k - 1) @ ob_hash ob) now ob =
    (requested_map X ob (part_hash X ob (k - 1)), ob\<lparr>ob_last_activity := now\<rparr>)"
  using ob by (simp add: on_request_def transfer_consts MAPHASH_LEN_def ob_ok_def sub_def Let_def requested_parts_def)

lemma update_accepted:
  assumes X: "rmp_ok X" and ob: "ob_ok X ob" and p: "paired X ob k ib"
    and k: "0 < k" "k mod HASHMAP_MAX_LEN = 0" "k < length (ob_parts ob)"
  defines "e \<equiv> min (k + HASHMAP_MAX_LEN) (length (ob_parts ob))"
  obtains ib' where
    "on_hashmap_update X (pack_hashmap_update X (ob_hash ob) (word_of_nat (k div HASHMAP_MAX_LEN))
       (concat (map (part_hash X ob) [k..<e]))) ib = (Inr (), ib')"
    and "paired X ob e ib'" and "ib_parts ib' = ib_parts ib"
proof -
  let ?n = "length (ob_parts ob)"
  let ?u = "concat (map (part_hash X ob) [k..<e])"
  let ?m = "take k (ib_map ib) @ map Some (map (part_hash X ob) [k..<e]) @ drop e (ib_map ib)"
  have e: "k < e" "e \<le> ?n" "e \<le> k + 74" using k(3) by (auto simp: e_def HASHMAP_MAX_LEN_def)
  have len: "length ?u = 4 * (e - k)" by (simp add: concat_hashes_length)
  have ne: "?u \<noteq> []" using e len by (metis length_0_conv mult_is_0 not_less zero_neq_numeral diff_is_0_eq)
  have seg: "unat (word_of_nat (k div 74) :: u32) * 74 = k"
  proof -
    have "k < 2 ^ 32" using ob k(3) by (auto simp: ob_ok_def)
    then have "k div 74 < 2 ^ 32" by (rule le_less_trans [OF div_le_dividend])
    then show ?thesis using k(2) div_mult_mod_eq [of k 74]
      by (simp add: unat_of_nat take_bit_nat_eq_self HASHMAP_MAX_LEN_def)
  qed
  have "unpack_hashmap_update X (pack_hashmap_update X (ob_hash ob) (word_of_nat (k div 74)) ?u) =
      Inr (ob_hash ob, word_of_nat (k div 74), ?u)"
    using ob ne len e by (intro hashmap_update_roundtrip [OF X]) (simp_all add: ob_ok_def)
  moreover have "chunks_exact 4 ?u = map (part_hash X ob) [k..<e]"
    by (rule chunks_exact_concat) auto
  moreover have "fill_map k (map (part_hash X ob) [k..<e]) (ib_map ib) = (Inr (), ?m)"
    using p e fill_map_fits [of k "map (part_hash X ob) [k..<e]" "ib_map ib"] by (simp add: paired_def)
  ultimately have upd: "on_hashmap_update X (pack_hashmap_update X (ob_hash ob)
      (word_of_nat (k div HASHMAP_MAX_LEN)) ?u) ib = (Inr (), ib\<lparr>ib_map := ?m, ib_waiting_for_hmu := False\<rparr>)"
    using p by (simp add: on_hashmap_update_def paired_def HASHMAP_MAX_LEN_def MAPHASH_LEN_def seg)
  have entries: "?m ! i = (if i < e then Some (part_hash X ob i) else None)" if "i < ?n" for i
    using that p e by (auto simp: paired_def nth_append)
  have mod: "e = ?n \<or> 0 < e \<and> e mod HASHMAP_MAX_LEN = 0"
    using k by (auto simp: e_def HASHMAP_MAX_LEN_def min_def)
  have "paired X ob e (ib\<lparr>ib_map := ?m, ib_waiting_for_hmu := False\<rparr>)"
    unfolding paired_def using p e mod entries by (auto simp: paired_def)
  then show thesis using upd that by simp
qed

lemma first_missing_unknown:
  assumes p: "paired X ob k ib" and i: "position (\<lambda>p. p = None) (ib_parts ib) = Some i" "ib_map ib ! i = None"
  shows "i = k" "k < length (ob_parts ob)" "0 < k" "k mod HASHMAP_MAX_LEN = 0"
proof -
  have il: "i < length (ob_parts ob)" and before: "\<forall>j<i. ib_parts ib ! j \<noteq> None"
    using i p by (auto simp: position_Some paired_def)
  have "k \<le> i" using i(2) il p by (auto simp: paired_def not_less split: if_splits)
  moreover have "\<not> k < i"
  proof
    assume "k < i"
    then have "ib_parts ib ! k \<noteq> None" "k < length (ob_parts ob)" using before il by auto
    then show False using p by (auto simp: paired_def)
  qed
  ultimately show "i = k" by simp
  then show "k < length (ob_parts ob)" "0 < k" "k mod HASHMAP_MAX_LEN = 0"
    using il p by (auto simp: paired_def)
qed

lemma last_known_hash:
  assumes p: "paired X ob k ib" and k: "0 < k"
  shows "\<exists>rest. List.map_filter id (rev (take k (ib_map ib))) = part_hash X ob (k - 1) # rest"
proof -
  have "take k (ib_map ib) = map Some (map (part_hash X ob) [0..<k])"
    using p by (intro nth_equalityI) (auto simp: paired_def)
  then have "List.map_filter id (rev (take k (ib_map ib))) = rev (map (part_hash X ob) [0..<k])"
    by (metis map_filter_id_Some rev_map)
  moreover have "[0..<k] = [0..<k - 1] @ [k - 1]" using k by (cases k) simp_all
  ultimately show ?thesis by simp
qed

definition todo :: "inbound_resource \<Rightarrow> nat" where
  "todo ib = card {i. i < length (ib_parts ib) \<and> ib_parts ib ! i = None}
     + card {i. i < length (ib_map ib) \<and> ib_map ib ! i = None}"

lemma todo_bound: "todo ib \<le> length (ib_parts ib) + length (ib_map ib)"
proof -
  have "card {i. i < n \<and> P i} \<le> n" for n and P :: "nat \<Rightarrow> bool"
    using card_mono [of "{..<n}" "{i. i < n \<and> P i}"] by auto
  then show ?thesis by (simp add: todo_def add_mono)
qed

lemma next_missing:
  assumes "paired X ob k ib" and "\<not> is_complete ib"
  obtains i where "position (\<lambda>p. p = None) (ib_parts ib) = Some i" and "i < length (ob_parts ob)" and "ib_parts ib ! i = None"
proof -
  have "\<exists>x \<in> set (ib_parts ib). x = None" using assms(2) by (auto simp: is_complete_def list_all_iff)
  then obtain i where "position (\<lambda>p. p = None) (ib_parts ib) = Some i"
    by (metis (mono_tags) option.exhaust position_None)
  then show thesis using assms(1) by (intro that) (auto simp: position_Some paired_def)
qed

text \<open>What an incomplete receiver asks for, and what the sender answers: the next segment of the map, or
  parts the receiver misses and knows the hashes of.\<close>

lemma request_cases:
  assumes ob: "ob_ok X ob" and p: "paired X ob k ib" and nc: "\<not> is_complete ib"
  obtains (map) "0 < k" "k mod HASHMAP_MAX_LEN = 0" "k < length (ob_parts ob)"
      "\<And>now. next_request now ib = (Some ([HASHMAP_IS_EXHAUSTED] @ part_hash X ob (k - 1) @ ob_hash ob),
         ib\<lparr>ib_waiting_for_hmu := True, ib_last_request := now\<rparr>)"
      "\<And>t. on_request X ([HASHMAP_IS_EXHAUSTED] @ part_hash X ob (k - 1) @ ob_hash ob) t ob =
         ([HashmapUpdate (pack_hashmap_update X (ob_hash ob) (word_of_nat (k div HASHMAP_MAX_LEN))
             (concat (map (part_hash X ob) [k ..< min (k + HASHMAP_MAX_LEN) (length (ob_parts ob))])))],
          ob\<lparr>ob_last_activity := t\<rparr>)"
  | (parts) "is" where "is \<noteq> []" "distinct is" "\<forall>x \<in> set is. x < k \<and> ib_parts ib ! x = None"
      "\<And>now. next_request now ib = (Some ([HASHMAP_IS_NOT_EXHAUSTED] @ ob_hash ob @ concat (map (part_hash X ob) is)),
         ib\<lparr>ib_outstanding := map (part_hash X ob) is, ib_last_request := now\<rparr>)"
      "\<And>t. on_request X ([HASHMAP_IS_NOT_EXHAUSTED] @ ob_hash ob @ concat (map (part_hash X ob) is)) t ob =
         (map (\<lambda>x. Part (ob_parts ob ! x)) is, ob\<lparr>ob_last_activity := t\<rparr>)"
proof -
  obtain i where i: "position (\<lambda>p. p = None) (ib_parts ib) = Some i" "i < length (ob_parts ob)" "ib_parts ib ! i = None"
    by (rule next_missing [OF p nc])
  show thesis
  proof (cases "ib_map ib ! i = None")
    case True
    note k = first_missing_unknown [OF p i(1) True]
    obtain rest where rest: "List.map_filter id (rev (take k (ib_map ib))) = part_hash X ob (k - 1) # rest"
      using last_known_hash [OF p k(3)] by blast
    show thesis
      by (rule map [OF k(3,4,2)])
        (use nc i k(1) True rest p request_map_answer [OF ob k(3,4,2)] requested_map_answer [OF ob k(3,4,2)]
          in \<open>simp_all add: next_request_def paired_def del: One_nat_def\<close>)
  next
    case False
    let ?is = "wanted ib k i"
    obtain h where known: "ib_map ib ! i = Some h" using False by blast
    have ik: "i < k" using False i(2) p by (auto simp: paired_def split: if_splits)
    then have "i \<in> set ?is" using p i by (simp add: wanted_def paired_def)
    then have ne: "?is \<noteq> []" by auto
    have lt: "\<forall>j \<in> set ?is. j < length (ob_parts ob)" using p by (auto simp: wanted_def paired_def)
    have d: "distinct ?is" "\<forall>j \<in> set ?is. j < k \<and> ib_parts ib ! j = None" by (simp_all add: wanted_def)
    have "next_request now ib = (Some ([HASHMAP_IS_NOT_EXHAUSTED] @ ob_hash ob @ concat (map (part_hash X ob) ?is)),
        ib\<lparr>ib_outstanding := map (part_hash X ob) ?is, ib_last_request := now\<rparr>)" for now
      using nc i ne p window_hashes_wanted [OF p] known by (simp add: next_request_def paired_def Let_def)
    then show thesis by (rule parts [OF ne d _ request_parts_answer [OF ob lt]])
  qed
qed

lemma requested_activity [simp]:
  "requested_parts (ob\<lparr>ob_last_activity := u\<rparr>) req = requested_parts ob req"
  "requested_map X (ob\<lparr>ob_last_activity := u\<rparr>) h = requested_map X ob h"
  by (simp_all add: requested_parts_def requested_map_def ob_map_hashes_def Let_def split: option.split)

lemma on_request_activity:
  assumes "on_request X req t ob = (outs, ob\<lparr>ob_last_activity := t\<rparr>)" and "outs \<noteq> []"
  shows "on_request X req t (ob\<lparr>ob_last_activity := u\<rparr>) = (outs, ob\<lparr>ob_last_activity := t\<rparr>)"
  using assms
  by (auto simp: on_request_def Let_def split: if_splits)

lemma todo_part:
  assumes "paired X ob k ib" "x < k" "ib_parts ib ! x = None" "ib_parts ib' = (ib_parts ib)[x := Some p]" "ib_map ib' = ib_map ib"
  shows "todo ib' < todo ib"
proof -
  have l: "x < length (ib_parts ib)" using assms(1,2) by (simp add: paired_def)
  have "{i. i < length (ib_parts ib') \<and> ib_parts ib' ! i = None} \<subset> {i. i < length (ib_parts ib) \<and> ib_parts ib ! i = None}"
    using l assms(3) by (auto simp: assms(4) nth_list_update split: if_splits)
  then show ?thesis using assms(5) by (simp add: todo_def psubset_card_mono)
qed

text \<open>The next part of those that are outstanding.\<close>

lemma on_part_awaited:
  assumes ob: "ob_ok X ob" and p: "paired X ob k ib" and d: "distinct (x # is)"
    and "is": "\<forall>y \<in> set (x # is). y < k \<and> ib_parts ib ! y = None"
    and out: "ib_outstanding ib = map (part_hash X ob) (x # is)"
  obtains ib' where "on_part X (ob_parts ob ! x) ib = (True, ib')" and "paired X ob k ib'"
    and "\<forall>y \<in> set is. y < k \<and> ib_parts ib' ! y = None" and "todo ib' < todo ib"
    and "ib_outstanding ib' = map (part_hash X ob) is" and "ib_waiting_for_hmu ib' = ib_waiting_for_hmu ib"
    and "ib_retries ib' = (if is = [] then 0 else ib_retries ib)"
proof -
  have xk: "x < k" "ib_parts ib ! x = None" using "is" by simp_all
  obtain ib' where ib': "on_part X (ob_parts ob ! x) ib = (True, ib')" "paired X ob k ib'"
      "ib_parts ib' = (ib_parts ib)[x := Some (ob_parts ob ! x)]"
    using on_part_accepted [OF ob p xk] by blast
  have h: "map_hash X (ob_parts ob ! x) (ib_random_hash ib) = part_hash X ob x"
    using p by (simp add: paired_def part_hash_def)
  have lt: "\<forall>y \<in> set (x # is). y < length (ob_parts ob)" using "is" p by (auto simp: paired_def)
  have "filter (\<lambda>e. e \<noteq> part_hash X ob x) (map (part_hash X ob) is) = map (part_hash X ob) is"
    using d lt part_hash_inj [OF ob] by (auto simp: filter_id_conv)
  then have o: "ib_outstanding ib' = map (part_hash X ob) is" "ib_waiting_for_hmu ib' = ib_waiting_for_hmu ib"
      "ib_retries ib' = (if is = [] then 0 else ib_retries ib)" "ib_map ib' = ib_map ib"
    using ib'(1) out by (auto simp: on_part_def Let_def h split: option.splits if_splits)
  have "\<forall>y \<in> set is. y < k \<and> ib_parts ib' ! y = None" unfolding ib'(3)
    using d "is" by (metis distinct.simps(2) list.set_intros(2) nth_list_update_neq)
  then show thesis using ib' o todo_part [OF p xk ib'(3)] by (intro that) simp_all
qed

lemma todo_map:
  assumes "paired X ob k ib" "paired X ob e ib'" "k < e" "ib_parts ib' = ib_parts ib"
  shows "todo ib' < todo ib"
proof -
  have "{i. i < length (ib_map ib') \<and> ib_map ib' ! i = None} \<subset> {i. i < length (ib_map ib) \<and> ib_map ib ! i = None}"
  proof (rule psubsetI)
    show "{i. i < length (ib_map ib') \<and> ib_map ib' ! i = None} \<subseteq> {i. i < length (ib_map ib) \<and> ib_map ib ! i = None}"
      using assms by (auto simp: paired_def split: if_splits)
    have "k \<in> {i. i < length (ib_map ib) \<and> ib_map ib ! i = None}" using assms by (simp add: paired_def)
    moreover have "k \<notin> {i. i < length (ib_map ib') \<and> ib_map ib' ! i = None}"
      using assms by (simp add: paired_def)
    ultimately show "{i. i < length (ib_map ib') \<and> ib_map ib' ! i = None} \<noteq> {i. i < length (ib_map ib) \<and> ib_map ib ! i = None}"
      by blast
  qed
  then show ?thesis using assms(4) by (simp add: todo_def psubset_card_mono)
qed

lemma todo_start:
  assumes "paired X ob k ib" and "ob_parts ob \<noteq> []"
  shows "todo ib < 2 * length (ob_parts ob)"
proof -
  let ?n = "length (ob_parts ob)"
  have "0 < k" "0 < ?n" using assms by (auto simp: paired_def)
  then have "{i. i < ?n \<and> ib_map ib ! i = None} \<subseteq> {1..<?n}" using assms(1) by (auto simp: paired_def Suc_le_eq split: if_splits)
  then have "card {i. i < ?n \<and> ib_map ib ! i = None} \<le> ?n - 1" using card_mono [of "{1..<?n}"] by fastforce
  moreover have "card {i. i < ?n \<and> ib_parts ib ! i = None} \<le> ?n"
    using card_mono [of "{..<?n}" "{i. i < ?n \<and> ib_parts ib ! i = None}"] by auto
  moreover have "todo ib = card {i. i < ?n \<and> ib_parts ib ! i = None} + card {i. i < ?n \<and> ib_map ib ! i = None}"
    using assms(1) by (simp add: todo_def paired_def)
  ultimately show ?thesis using \<open>0 < ?n\<close> by linarith
qed

text \<open>All that are outstanding, in order.\<close>

lemma deliver_parts:
  assumes ob: "ob_ok X ob"
  shows "paired X ob k ib \<Longrightarrow> is \<noteq> [] \<Longrightarrow> distinct is \<Longrightarrow> \<forall>i \<in> set is. i < k \<and> ib_parts ib ! i = None \<Longrightarrow>
    ib_outstanding ib = map (part_hash X ob) is \<Longrightarrow>
    paired X ob k (fold (deliver X) (map (\<lambda>i. Part (ob_parts ob ! i)) is) ib) \<and>
    todo (fold (deliver X) (map (\<lambda>i. Part (ob_parts ob ! i)) is) ib) < todo ib"
proof (induction "is" arbitrary: ib)
  case (Cons j js)
  obtain ib' where ib': "on_part X (ob_parts ob ! j) ib = (True, ib')" "paired X ob k ib'"
      "\<forall>i \<in> set js. i < k \<and> ib_parts ib' ! i = None" "todo ib' < todo ib"
      "ib_outstanding ib' = map (part_hash X ob) js"
    using on_part_awaited [OF ob Cons.prems(1,3-5)] by blast
  with Cons.IH [OF ib'(2)] Cons.prems(3) ib' show ?case
    by (cases "js = []") (auto simp: deliver_def)
qed simp

lemma round_progress:
  assumes X: "rmp_ok X" and ob: "ob_ok X ob" and p: "paired X ob k ib" and nc: "\<not> is_complete ib"
  obtains k' ib' where "exchange X now (ob, ib) = (ob\<lparr>ob_last_activity := now\<rparr>, ib')"
    and "paired X ob k' ib'" and "todo ib' < todo ib"
  using ob p nc
proof (cases rule: request_cases)
  case map
  let ?e = "min (k + HASHMAP_MAX_LEN) (length (ob_parts ob))"
  let ?ib = "ib\<lparr>ib_waiting_for_hmu := True, ib_last_request := now\<rparr>"
  have p': "paired X ob k ?ib" using p by (simp add: paired_def)
  obtain ib' where ib': "on_hashmap_update X (pack_hashmap_update X (ob_hash ob)
      (word_of_nat (k div HASHMAP_MAX_LEN)) (concat (List.map (part_hash X ob) [k..<?e]))) ?ib = (Inr (), ib')"
      "paired X ob ?e ib'" "ib_parts ib' = ib_parts ?ib"
    using update_accepted [OF X ob p' map(1-3)] by blast
  have ex: "exchange X now (ob, ib) = (ob\<lparr>ob_last_activity := now\<rparr>, ib')"
    using map(4,5) ib'(1) by (simp add: exchange_def deliver_def del: One_nat_def)
  have "todo ib' < todo ib" using todo_map [OF p ib'(2)] ib'(3) map by (simp add: HASHMAP_MAX_LEN_def)
  then show thesis using that ex ib'(2) by blast
next
  case (parts "is")
  let ?ib = "ib\<lparr>ib_outstanding := map (part_hash X ob) is, ib_last_request := now\<rparr>"
  let ?ib' = "fold (deliver X) (map (\<lambda>i. Part (ob_parts ob ! i)) is) ?ib"
  have p': "paired X ob k ?ib" using p by (simp add: paired_def)
  have "paired X ob k ?ib' \<and> todo ?ib' < todo ?ib"
    by (rule deliver_parts [OF ob p' parts(1,2)]) (use parts(3) in simp_all)
  moreover have "todo ?ib = todo ib" by (simp add: todo_def)
  moreover have "exchange X now (ob, ib) = (ob\<lparr>ob_last_activity := now\<rparr>, ?ib')"
    using parts(4,5) by (simp add: exchange_def)
  ultimately show thesis using that by metis
qed

section \<open>The exchange ends\<close>

locale measured_loop =
  fixes step :: "'s \<Rightarrow> 's" and stop :: "'s \<Rightarrow> bool" and inv :: "'s \<Rightarrow> bool" and left :: "'s \<Rightarrow> nat"
  assumes inv_step: "inv s \<Longrightarrow> \<not> stop s \<Longrightarrow> inv (step s)"
    and left_step: "inv s \<Longrightarrow> \<not> stop s \<Longrightarrow> left (step s) < left s"
begin

lemma loop_ends: "inv s \<Longrightarrow> \<exists>n \<le> left s. stop ((step ^^ n) s) \<and> inv ((step ^^ n) s)"
proof (induction "left s" arbitrary: s rule: less_induct)
  case less
  show ?case
  proof (cases "stop s")
    case True
    then show ?thesis using less.prems by (intro exI [of _ 0]) simp
  next
    case False
    then obtain n where "n \<le> left (step s)" "stop ((step ^^ n) (step s))" "inv ((step ^^ n) (step s))"
      using less inv_step left_step by blast
    then show ?thesis using left_step [OF less.prems False]
      by (intro exI [of _ "Suc n"]) (simp add: funpow_swap1)
  qed
qed

end

text \<open>The sender may differ from the one that started only in the time of its last activity.\<close>

definition exchange_inv ::
    "ext \<Rightarrow> outbound_resource \<Rightarrow> outbound_resource \<times> inbound_resource \<Rightarrow> bool" where
  "exchange_inv X ob0 s \<longleftrightarrow> rmp_ok X \<and> ob_ok X (fst s) \<and> (\<exists>t. fst s = ob0\<lparr>ob_last_activity := t\<rparr>) \<and>
     (\<exists>k. paired X (fst s) k (snd s)) \<and> ib_total_size (snd s) = ob_total_size ob0"

lemma deliver_same: "ib_same ib (deliver X o1 ib)"
  using ib_step_same [of ib X "GetPart _"] ib_step_same [of ib X "GetUpdate _"]
  by (cases o1) (simp_all add: deliver_def ib_step_def)

lemma ib_same_trans: "ib_same a b \<Longrightarrow> ib_same b c \<Longrightarrow> ib_same a c"
  by (simp add: ib_same_def)

lemma ib_same_refl: "ib_same ib ib"
  by (simp add: ib_same_def)

lemma fold_deliver_same: "ib_same ib (fold (deliver X) os ib)"
  by (induction os arbitrary: ib) (auto intro: ib_same_refl ib_same_trans deliver_same)

lemma exchange_same: "ib_same (snd s) (snd (exchange X now s))"
proof -
  obtain r ib where n: "next_request now (snd s) = (r, ib)" by fastforce
  have "ib_same (snd s) ib" using next_request_same [of "snd s" now] n by simp
  then show ?thesis using ib_same_trans [OF _ fold_deliver_same]
    by (auto simp: exchange_def n split: option.splits prod.splits)
qed

lemma ob_activity [simp]:
  "ob_ok X (ob\<lparr>ob_last_activity := t\<rparr>) = ob_ok X ob"
  "paired X (ob\<lparr>ob_last_activity := t\<rparr>) k ib = paired X ob k ib"
  by (simp_all add: ob_ok_def paired_def part_hash_def ob_map_hashes_def)

interpretation exchange_loop: measured_loop "exchange X now" "\<lambda>s. is_complete (snd s)"
  "\<lambda>s. exchange_inv X ob0 s" "\<lambda>s. todo (snd s)"
  for X now ob0
proof unfold_locales
  fix s assume inv: "exchange_inv X ob0 s" and nc: "\<not> is_complete (snd s)"
  obtain ob ib where s: "s = (ob, ib)" by (cases s)
  obtain k where k: "rmp_ok X" "ob_ok X ob" "paired X ob k ib" using inv by (auto simp: exchange_inv_def s)
  have nc': "\<not> is_complete ib" using nc s by simp
  obtain k' ib' where ex: "exchange X now (ob, ib) = (ob\<lparr>ob_last_activity := now\<rparr>, ib')"
      "paired X ob k' ib'" "todo ib' < todo ib"
    by (rule round_progress [OF k nc', where now = now])
  have "ib_total_size ib' = ib_total_size ib"
    using exchange_same [of "(ob, ib)" X now] ex by (simp add: ib_same_def)
  then show "exchange_inv X ob0 (exchange X now s)"
    using inv ex k by (auto simp: exchange_inv_def s)
  show "todo (snd (exchange X now s)) < todo (snd s)" using ex by (simp add: s)
qed

lemma paired_complete:
  assumes "paired X ob k ib" and "is_complete ib"
  shows "List.map_filter id (ib_parts ib) = ob_parts ob"
proof -
  have "ib_parts ib = map Some (ob_parts ob)"
    using assms unfolding paired_def is_complete_def list_all_length
    by (intro nth_equalityI) (metis length_map, metis nth_map)
  then show ?thesis by (simp add: map_filter_id_Some)
qed

section \<open>From a new transfer to the delivered payload\<close>

lemma choose_map_tuple:
  assumes "choose_map X E parts r = Some y"
  shows "fst (snd y) = hashmap X parts (fst y) \<and>
     \<not> map_collision [] (chunks_exact MAPHASH_LEN (fst (snd y))) \<and> length (fst y) = 4"
proof (rule choose_map.raw_induct [where P = "\<lambda>X E parts r y. fst (snd y) = hashmap X parts (fst y) \<and>
     \<not> map_collision [] (chunks_exact MAPHASH_LEN (fst (snd y))) \<and> length (fst y) = 4", OF _ assms])
  fix rec X y and E :: "'d entropy" and parts r
  assume IH: "\<And>X E parts r y. rec X E parts r = Some y \<Longrightarrow> fst (snd y) = hashmap X parts (fst y) \<and>
     \<not> map_collision [] (chunks_exact MAPHASH_LEN (fst (snd y))) \<and> length (fst y) = 4"
    and step: "(let hr = fst (random_hash X E r); r' = snd (random_hash X E r); m = hashmap X parts hr
      in if map_collision [] (chunks_exact MAPHASH_LEN m) then rec X E parts r' else Some (hr, m, r')) = Some y"
  from step show "fst (snd y) = hashmap X parts (fst y) \<and>
     \<not> map_collision [] (chunks_exact MAPHASH_LEN (fst (snd y))) \<and> length (fst y) = 4"
    using IH [of X E parts "snd (random_hash X E r)" y] length_random_hash [of X E r]
    by (auto simp: Let_def split: if_splits)
qed

lemma choose_map_result:
  "choose_map X E parts r = Some (hr, m, r') \<Longrightarrow>
     m = hashmap X parts hr \<and> \<not> map_collision [] (chunks_exact MAPHASH_LEN m) \<and> length hr = 4"
  using choose_map_tuple [of X E parts r "(hr, m, r')"] by auto

text \<open>No two equal hashes in any stretch the scan remembers: up to 225 parts, none at all.\<close>

lemma map_collision_distinct:
  "\<not> map_collision hs es \<Longrightarrow> length hs + length es \<le> 225 \<Longrightarrow> distinct hs \<Longrightarrow> distinct (hs @ es)"
proof (induction es arbitrary: hs)
  case Nil
  then show ?case by simp
next
  case (Cons e es)
  show ?case
  proof (cases "es = []")
    case True
    then show ?thesis using Cons.prems by (auto split: if_splits)
  next
    case False
    then have "length (hs @ [e]) \<le> 224" using Cons.prems(2) by (cases es) auto
    then have "\<not> map_collision (hs @ [e]) es" "e \<notin> set hs"
      using Cons.prems(1) by (auto simp: transfer_consts Let_def split: if_splits)
    with Cons.IH [of "hs @ [e]"] Cons.prems show ?thesis by simp
  qed
qed

definition new_stream :: "ext \<Rightarrow> bytes \<Rightarrow> bytes \<Rightarrow> bytes" where
  "new_stream X prefix d = prefix @ fst (compress_if_useful X d)"

text \<open>What a successful \<open>new\<close> has built.\<close>

lemma outbound_new_result:
  assumes "outbound_new X E d key r now = Some (Inr (ob, adv), r')"
  obtains prefix iv r1 where "length prefix = 4" and "iv = fst (E r1 16)"
    and "ob_parts ob = split_parts (seal_with_key X key (new_stream X prefix d) iv) RESOURCE_SDU"
    and "ob_map ob = hashmap X (ob_parts ob) (ob_random_hash ob)"
    and "\<not> map_collision [] (ob_map_hashes ob)" and "length (ob_random_hash ob) = 4"
    and "ob_hash ob = resource_hash X d (ob_random_hash ob)"
    and "ob_expected_proof ob = resource_proof X d (ob_hash ob)"
    and "ob_total_size ob = word_of_nat (length d)" and "\<not> ob_completed ob"
    and "d \<noteq> []" and "length d \<le> MAX_EFFICIENT_SIZE"
    and "adv = adv_pack X \<lparr>ra_t = word_of_nat (length (seal_with_key X key (new_stream X prefix d) iv)),
          ra_d = word_of_nat (length d), ra_n = word_of_nat (length (ob_parts ob)), ra_h = ob_hash ob,
          ra_r = ob_random_hash ob, ra_o = ob_hash ob, ra_i = 1, ra_l = 1, ra_q = None,
          ra_f = 0x01 OR push_bit 1 (of_bool (snd (compress_if_useful X d))),
          ra_m = take (min (length (ob_parts ob)) HASHMAP_MAX_LEN * MAPHASH_LEN) (ob_map ob)\<rparr>"
proof -
  have d: "d \<noteq> []" "length d \<le> MAX_EFFICIENT_SIZE"
    using assms by (auto simp: outbound_new_def split: if_splits)
  obtain t c where tc: "compress_if_useful X d = (t, c)" by fastforce
  obtain prefix r1 where p: "random_hash X E r = (prefix, r1)" by fastforce
  obtain iv r2 where iv: "E r1 16 = (iv, r2)" by fastforce
  let ?parts = "split_parts (seal_with_key X key (prefix @ t) iv) RESOURCE_SDU"
  obtain hr m r3 where cm: "choose_map X E ?parts r2 = Some (hr, m, r3)"
    using assms d by (auto simp: outbound_new_def tc p iv Let_def split: option.splits)
  have "length prefix = 4" using length_random_hash [of X E r] p by simp
  note res = choose_map_result [OF cm]
  show thesis
    by (rule that [of prefix iv r1])
      (use assms d res \<open>length prefix = 4\<close> in \<open>auto simp: outbound_new_def tc p iv cm Let_def new_stream_def
         rbind_Inr_iff try_u64_def try_u32_def ob_map_hashes_def split: if_splits\<close>)
qed

text \<open>The sizes of a new transfer: its parts and its advertisement are within the limits.\<close>

lemma new_sizes:
  fixes key :: bytes
  assumes X: "cipher_ok X" and iv: "length iv = 16" and d: "length d \<le> MAX_EFFICIENT_SIZE"
    and pre: "length prefix = 4"
  defines "enc \<equiv> seal_with_key X key (new_stream X prefix d) iv"
  shows "64 \<le> length enc" and "length enc \<le> 1048644"
    and "0 < length (split_parts enc RESOURCE_SDU)" and "length (split_parts enc RESOURCE_SDU) \<le> 2261"
proof -
  have "length (fst (compress_if_useful X d)) \<le> length d"
    by (auto simp: compress_if_useful_def split: option.splits)
  then have s: "length (new_stream X prefix d) \<le> 1048579"
    using d pre by (simp add: new_stream_def MAX_EFFICIENT_SIZE_def)
  have len: "length enc = 16 * (length (new_stream X prefix d) div 16) + 64"
    unfolding enc_def by (rule length_seal_with_key [OF X iv])
  show 1: "64 \<le> length enc" "length enc \<le> 1048644"
    using s len times_div_less_eq_dividend [of 16 "length (new_stream X prefix d)"] by linarith+
  have n: "length (split_parts enc RESOURCE_SDU) = (length enc + 463) div 464"
    by (simp add: length_split_parts RESOURCE_SDU_def)
  show "0 < length (split_parts enc RESOURCE_SDU)" using 1 unfolding n by (simp add: div_greater_zero_iff)
  have "(length enc + 463) div 464 \<le> (1048644 + 463) div 464" using 1 by (intro div_le_mono) simp
  then show "length (split_parts enc RESOURCE_SDU) \<le> 2261" unfolding n by simp
qed

lemma small_words:
  "n \<le> 1048644 \<Longrightarrow> unat (word_of_nat n :: u64) = n"
  "n \<le> 2261 \<Longrightarrow> unat (word_of_nat n :: u32) = n"
  by (simp_all add: unat_of_nat take_bit_nat_eq_self)

lemma adv_flags:
  "(0x01 OR push_bit 1 (of_bool c)) AND (0x01 :: u8) \<noteq> 0"
  "(0x01 OR push_bit 1 (of_bool c)) AND (0x02 :: u8) \<noteq> 0 \<longleftrightarrow> c"
  by (cases c; simp)+

text \<open>The receiver that the advertisement of a new transfer starts is paired with the sender.\<close>

lemma new_transfer_paired:
  assumes X: "crypto_ok X" "rmp_ok X" and E: "entropy_ok E"
    and new: "outbound_new X E d key r t0 = Some (Inr (ob, adv), r')"
    and dist: "distinct (ob_map_hashes ob)"
  obtains a ib where "adv_unpack X adv = Inr a" and "inbound_from_advertisement a = Inr ib"
    and "exchange_inv X ob (ob, ib)" and "ib_compressed ib = snd (compress_if_useful X d)"
proof -
  note ok = crypto_okD [OF X(1)]
  from new show thesis
  proof (cases rule: outbound_new_result)
    case (1 prefix iv r1)
    let ?enc = "seal_with_key X key (new_stream X prefix d) iv"
    let ?n = "length (ob_parts ob)"
    let ?a = "\<lparr>ra_t = word_of_nat (length ?enc), ra_d = word_of_nat (length d), ra_n = word_of_nat ?n,
          ra_h = ob_hash ob, ra_r = ob_random_hash ob, ra_o = ob_hash ob, ra_i = 1, ra_l = 1, ra_q = None,
          ra_f = 0x01 OR push_bit 1 (of_bool (snd (compress_if_useful X d))),
          ra_m = take (min ?n HASHMAP_MAX_LEN * MAPHASH_LEN) (ob_map ob)\<rparr>"
    have iv: "length iv = 16" using 1(2) E by simp
    note sz = new_sizes [OF ok(5) iv 1(12) 1(1), of key]
    have n: "0 < ?n" "?n \<le> 2261" "unat (word_of_nat ?n :: u32) = ?n"
      using sz(3,4) 1(3) small_words(2) [of ?n] by simp_all
    have hash: "length (ob_hash ob) = 32" using 1(7) ok(1) by simp
    have ob: "ob_ok X ob" using 1(4) hash n(2) dist by (simp add: ob_ok_def)
    have ml: "length (ra_m ?a) = min ?n 74 * 4"
      using 1(4) by (simp add: transfer_consts MAPHASH_LEN_def)
    have "adv_sizes_ok ?a"
      using sz(2) n hash 1(6) ml small_words(1) [of "length ?enc"]
      by (auto simp: adv_sizes_ok_def adv_valid_def resource_consts word_unat_eq_iff)
    then have un: "adv_unpack X adv = Inr ?a" using adv_unpack_pack [OF X(2)] 1(13) by simp
    let ?e = "min ?n HASHMAP_MAX_LEN"
    have hs: "chunks_exact 4 (ra_m ?a) = map (part_hash X ob) [0..<?e]"
    proof -
      have "map (\<lambda>p. map_hash X p (ob_random_hash ob)) (ob_parts ob) = map (part_hash X ob) [0..<?n]"
        by (rule nth_equalityI) (simp_all add: part_hash_def)
      then have "ob_map ob = concat (map (part_hash X ob) [0..<?n])"
        using 1(4) by (simp add: hashmap_concat)
      moreover have "[0..<?n] = [0..<?e] @ [?e..<?n]"
        using upt_add_eq_append [of 0 ?e "?n - ?e"] by simp
      ultimately have "ra_m ?a = concat (map (part_hash X ob) [0..<?e])"
        by (simp add: concat_hashes_length MAPHASH_LEN_def)
      then show ?thesis by (simp only:) (rule chunks_exact_concat, auto)
    qed
    let ?m = "map Some (map (part_hash X ob) [0..<?e]) @ replicate (?n - ?e) None"
    have fill: "fill_map 0 (chunks_exact 4 (ra_m ?a)) (replicate ?n None) = (Inr (), ?m)"
      using fill_map_fits [of 0 "map (part_hash X ob) [0..<?e]" "replicate ?n None"] by (simp only: hs) simp
    let ?ib = "\<lparr>ib_hash = ob_hash ob, ib_size = ra_t ?a, ib_total_size = ra_d ?a,
        ib_random_hash = ob_random_hash ob, ib_compressed = snd (compress_if_useful X d), ib_map = ?m,
        ib_parts = replicate ?n None, ib_outstanding = [], ib_window = WINDOW, ib_retries = 0,
        ib_last_request = 0, ib_waiting_for_hmu = False\<rparr>"
    have "inbound_from_advertisement ?a = Inr ?ib"
      using hash 1(6) n fill
      by (simp add: inbound_from_advertisement_def adv_encrypted_def adv_compressed_def adv_flags
          resource_consts word_unat_eq_iff Let_def del: One_nat_def)
    moreover have "paired X ob ?e ?ib"
      using n(1) by (auto simp: paired_def transfer_consts nth_append min_def)
    ultimately show thesis
      using un ob X(2) 1(9) by (intro that [of ?a ?ib]) (auto simp: exchange_inv_def intro: exI [of _ "ob_last_activity ob"])
  qed
qed

text \<open>What the receiver rebuilds from all the parts, and what the sender makes of its proof.\<close>

lemma finalize_complete:
  assumes X: "crypto_ok X" "bzip2_ok X" and E: "entropy_ok E"
    and new: "outbound_new X E d key r t0 = Some (Inr (ob, adv), r')"
    and p: "paired X ob k ib" and c: "is_complete ib" and size: "ib_total_size ib = ob_total_size ob"
    and comp: "ib_compressed ib = snd (compress_if_useful X d)"
  shows "finalize X key ib = Inr d" and "fst (on_proof (proof_packet X d ib) ob)"
proof -
  note ok = crypto_okD [OF X(1)]
  have "finalize X key ib = Inr d \<and> fst (on_proof (proof_packet X d ib) ob)"
    using new
  proof (cases rule: outbound_new_result)
    case (1 prefix iv r1)
    have iv: "length iv = 16" using 1(2) E by simp
    have "reassemble (ob_parts ob) = seal_with_key X key (new_stream X prefix d) iv"
      unfolding 1(3) by (rule reassemble_split) (simp add: RESOURCE_SDU_def)
    then have opened: "open_with_key X key (concat (List.map_filter id (ib_parts ib))) = Inr (new_stream X prefix d)"
      using paired_complete [OF p c] ok(5) iv by simp
    obtain z b where z: "compress_if_useful X d = (z, b)" by fastforce
    have payload: "(if b then decompress_payload X z else Inr z) = Inr d"
      using decompress_compressed [OF X(2)] compress_not_useful z by (cases b) auto
    have ids: "ib_hash ib = resource_hash X d (ob_random_hash ob)" "ib_random_hash ib = ob_random_hash ob"
      using p 1(7) by (simp_all add: paired_def)
    have "finalize X key ib = Inr d"
      using c opened payload size comp ids 1(1,9) z
      by (simp add: finalize_def new_stream_def RANDOM_HASH_SIZE_def Let_def)
    moreover have "fst (on_proof (proof_packet X d ib) ob)"
      using ids 1(7,8) ok(1) by (simp add: on_proof_def proof_packet_def Let_def)
    ultimately show ?thesis by simp
  qed
  then show "finalize X key ib = Inr d" "fst (on_proof (proof_packet X d ib) ob)" by simp_all
qed

lemma on_proof_activity: "fst (on_proof p (ob\<lparr>ob_last_activity := t\<rparr>)) = fst (on_proof p ob)"
  by (simp add: on_proof_def Let_def)

lemma funpow_exchange_compressed:
  "ib_compressed (snd ((exchange X now ^^ n) s)) = ib_compressed (snd s)"
  using exchange_same by (induction n) (auto simp: ib_same_def)

lemma transfer_delivers:
  assumes X: "crypto_ok X" "rmp_ok X" "bzip2_ok X" and E: "entropy_ok E"
    and new: "outbound_new X E d key r t0 = Some (Inr (ob, adv), r')"
    and dist: "distinct (ob_map_hashes ob)"
  obtains a ib n ob' ib' where "adv_unpack X adv = Inr a" and "inbound_from_advertisement a = Inr ib"
    and "n \<le> 2 * length (ob_parts ob)" and "(exchange X now ^^ n) (ob, ib) = (ob', ib')"
    and "finalize X key ib' = Inr d" and "fst (on_proof (proof_packet X d ib') ob')"
proof -
  obtain a ib where start: "adv_unpack X adv = Inr a" "inbound_from_advertisement a = Inr ib"
    "exchange_inv X ob (ob, ib)" "ib_compressed ib = snd (compress_if_useful X d)"
    using new_transfer_paired [OF X(1,2) E new dist] by blast
  obtain n where n: "n \<le> todo ib" and stop: "is_complete (snd ((exchange X now ^^ n) (ob, ib)))"
    and inv: "exchange_inv X ob ((exchange X now ^^ n) (ob, ib))"
    using exchange_loop.loop_ends [OF start(3), of now] by auto
  obtain ob' ib' where s: "(exchange X now ^^ n) (ob, ib) = (ob', ib')" by fastforce
  obtain t k where ob': "ob' = ob\<lparr>ob_last_activity := t\<rparr>" and p: "paired X ob k ib'"
    and size: "ib_total_size ib' = ob_total_size ob"
    using inv by (auto simp: exchange_inv_def s)
  have comp: "ib_compressed ib' = snd (compress_if_useful X d)"
    using funpow_exchange_compressed [of n X now "(ob, ib)"] s start(4) by simp
  have c: "is_complete ib'" using stop s by simp
  note fin = finalize_complete [OF X(1,3) E new p c size comp]
  have "n \<le> 2 * length (ob_parts ob)"
    using n todo_bound [of ib] start(3) by (auto simp: exchange_inv_def paired_def)
  then show thesis
    using that [OF start(1,2) _ s] fin ob' by (simp add: on_proof_activity)
qed

lemma small_transfer_distinct:
  assumes "outbound_new X E d key r t0 = Some (Inr (ob, adv), r')" and "length (ob_parts ob) \<le> 225"
  shows "distinct (ob_map_hashes ob)"
  using assms(1)
proof (cases rule: outbound_new_result)
  case (1 prefix iv r1)
  have "length (ob_map_hashes ob) = length (ob_parts ob)"
    using 1(4) by (simp add: ob_map_hashes_def MAPHASH_LEN_def chunks_exact_hashmap)
  then show ?thesis using map_collision_distinct [of "[]" "ob_map_hashes ob"] 1(5) assms(2) by simp
qed

end
