(* ===== verification/Resource_Properties.thy ===== *)
theory Resource_Properties
  imports Resource_Transfer Toy_Ext
begin

text \<open>
  The properties of resource transfers: the wire forms of resource.rs and the two state machines of
  resource_state.rs, alone and together.
\<close>

section \<open>A transfer to witness the properties\<close>

text \<open>A payload small enough for one part: the first random hash is taken.\<close>

lemma single_part_sent:
  assumes X: "cipher_ok X" and d: "d \<noteq> []" "length d \<le> 300" and b: "x_bzip2 X = None"
  shows "\<exists>ob adv. outbound_new X zeros d key () now = Some (Inr (ob, adv), ()) \<and> length (ob_parts ob) = 1"
proof -
  define pre where "pre = fst (random_hash X zeros ())"
  define enc where "enc = seal_with_key X key (pre @ d) (replicate 16 0)"
  have "length pre = 4" unfolding pre_def by (rule length_random_hash)
  then have l: "length enc = 16 * ((4 + length d) div 16) + 64"
    using length_seal_with_key [OF X, of "replicate 16 0"] by (simp add: enc_def)
  have le: "length enc \<le> 464" "0 < length enc" using d(2) unfolding l by linarith+
  have "length (split_parts enc RESOURCE_SDU) = (length enc + 464 - 1) div 464"
    using length_split_parts [of RESOURCE_SDU enc] by (simp add: RESOURCE_SDU_def)
  also have "\<dots> = 1" using le by (intro div_nat_eqI) arith+
  finally have one: "length (split_parts enc RESOURCE_SDU) = 1" .
  then obtain p where p: "split_parts enc RESOURCE_SDU = [p]" by (auto simp: length_Suc_conv)
  have c: "choose_map X zeros [p] () = Some (pre, hashmap X [p] pre, ())"
    by (subst choose_map.simps) (simp add: Let_def pre_def chunks_exact_hashmap MAPHASH_LEN_def del: hashmap.simps)
  have rh: "random_hash X zeros () = (pre, ())" by (simp add: pre_def prod_eq_iff)
  have z: "zeros () 16 = (replicate 16 0, ())" by (simp add: zeros_def)
  have small: "length d < 2 ^ 64" "length enc < 2 ^ 64" using d(2) le(1) by simp_all
  have "\<not> (d = [] \<or> length d > MAX_EFFICIENT_SIZE)" using d by (simp add: MAX_EFFICIENT_SIZE_def)
  then show ?thesis
    using rh z c p small
    by (simp add: outbound_new_def compress_if_useful_def b Let_def enc_def [symmetric] try_u64_def try_u32_def)
qed

lemma toy_sent:
  obtains ob adv where "outbound_new toy_ext zeros [7, 8, 9] key () 5 = Some (Inr (ob, adv), ())"
    and "length (ob_parts ob) = 1"
  using single_part_sent [of toy_ext "[7, 8, 9]" key 5] crypto_okD(5) [OF toy_ok] by (auto simp: toy_ext_def)

section \<open>The transfer as a whole\<close>

text \<open>C1: A resource transfer delivers. When the sender has set up a transfer and the map hashes of
  its parts are distinct (they always are up to 225 parts), the receiver accepts the advertisement,
  and after at most two rounds of request and answer per part, with nothing lost, it rebuilds exactly
  the payload sent, and the proof it answers with makes the sender complete.\<close>

theorem resource_transfer_delivers:
  assumes "crypto_ok X" "rmp_ok X" "bzip2_ok X" and "entropy_ok E"
    and "outbound_new X E d key r t0 = Some (Inr (ob, adv), r')"
    and "distinct (ob_map_hashes ob) \<or> length (ob_parts ob) \<le> 225"
  shows "\<exists>a ib n ob' ib'. adv_unpack X adv = Inr a \<and> inbound_from_advertisement a = Inr ib \<and>
    n \<le> 2 * length (ob_parts ob) \<and> (exchange X now ^^ n) (ob, ib) = (ob', ib') \<and>
    finalize X key ib' = Inr d \<and> fst (on_proof (proof_packet X d ib') ob')"
proof -
  have "distinct (ob_map_hashes ob)" using assms(6) small_transfer_distinct [OF assms(5)] by blast
  then show ?thesis
    by (rule transfer_delivers [OF assms(1-5)]) blast
qed

theorem resource_transfer_delivers_witness:
  "\<exists>ob adv a ib n. outbound_new toy_ext zeros [7, 8, 9] [] () 5 = Some (Inr (ob, adv), ()) \<and>
     adv_unpack toy_ext adv = Inr a \<and> inbound_from_advertisement a = Inr ib \<and> n \<le> 2 \<and>
     finalize toy_ext [] (snd ((exchange toy_ext 9 ^^ n) (ob, ib))) = Inr [7, 8, 9]"
proof -
  obtain ob adv where new: "outbound_new toy_ext zeros [7, 8, 9] [] () 5 = Some (Inr (ob, adv), ())"
    and one: "length (ob_parts ob) = 1" by (rule toy_sent)
  show ?thesis
    using resource_transfer_delivers [OF toy_ok toy_rmp_ok toy_bzip2_ok zeros_ok new, of 9] new one by fastforce
qed

section \<open>The receiver\<close>

text \<open>C25: Whatever arrives in whatever order, a receiver stays well formed: its window stays between 2 and 75, it
  retries at most 16 times, map and parts keep the advertised length, every known hash has 4 bytes, and the
  hash, the random hash, the sizes before and after packing and the compression are at all times those the
  advertisement named. The states are those reachable from an accepted advertisement by parts, hashmap
  updates, requests and retry timers.\<close>

theorem inbound_bounds:
  assumes "inbound_reach X a ib"
  shows "2 \<le> ib_window ib \<and> ib_window ib \<le> 75 \<and> ib_retries ib \<le> 16 \<and>
    length (ib_map ib) = length (ib_parts ib) \<and> (\<forall>h. Some h \<in> set (ib_map ib) \<longrightarrow> length h = 4) \<and>
    total_parts ib = unat (ra_n a) \<and> ib_hash ib = ra_h a \<and> ib_random_hash ib = ra_r a \<and>
    ib_size ib = ra_t a \<and> ib_total_size ib = ra_d a \<and> ib_compressed ib = adv_compressed a"
proof -
  have "total_parts ib = unat (ra_n a) \<and> ib_hash ib = ra_h a \<and> ib_random_hash ib = ra_r a \<and>
      ib_size ib = ra_t a \<and> ib_total_size ib = ra_d a \<and> ib_compressed ib = adv_compressed a"
    using assms
  proof (induction rule: inbound_reach.induct)
    case (start ib)
    then show ?case using inbound_new_ok inbound_new_fields by blast
  next
    case (step ib e)
    then show ?case using ib_step_same [of ib X e] by (simp add: ib_same_def total_parts_def)
  qed
  then show ?thesis using inbound_reach_ok [OF assms] by (simp add: ib_ok_def transfer_consts)
qed

definition demo_adv :: resource_advertisement where
  "demo_adv = \<lparr>ra_t = 64, ra_d = 3, ra_n = 2, ra_h = replicate 32 1, ra_r = [1, 2, 3, 4],
     ra_o = replicate 32 1, ra_i = 1, ra_l = 1, ra_q = None, ra_f = 1, ra_m = [1, 2, 3, 4, 5, 6, 7, 8]\<rparr>"

definition demo_inbound :: inbound_resource where
  "demo_inbound = \<lparr>ib_hash = replicate 32 1, ib_size = 64, ib_total_size = 3, ib_random_hash = [1, 2, 3, 4],
     ib_compressed = False, ib_map = [Some [1, 2, 3, 4], Some [5, 6, 7, 8]], ib_parts = [None, None],
     ib_outstanding = [], ib_window = 4, ib_retries = 0, ib_last_request = 0, ib_waiting_for_hmu = False\<rparr>"

lemma two_missing: "replicate 2 (None :: bytes option) = [None, None]"
  by (simp add: numeral_2_eq_2)

lemma demo_accepted: "inbound_from_advertisement demo_adv = Inr demo_inbound"
proof -
  have "chunks_exact 4 [1, 2, 3, 4, 5, 6, 7, 8 :: u8] = [[1, 2, 3, 4], [5, 6, 7, 8]]"
    by (simp add: chunks_exact.simps)
  then show ?thesis
    by (simp add: inbound_from_advertisement_def demo_adv_def demo_inbound_def adv_encrypted_def
        adv_compressed_def resource_consts transfer_consts Let_def two_missing)
qed

theorem inbound_bounds_witness:
  "ib_window (ib_step toy_ext (AskNext 9) demo_inbound) \<le> 75 \<and> total_parts (ib_step toy_ext (AskNext 9) demo_inbound) = 2 \<and>
   ib_size (ib_step toy_ext (AskNext 9) demo_inbound) = 64 \<and> ib_total_size (ib_step toy_ext (AskNext 9) demo_inbound) = 3"
  using inbound_bounds [OF inbound_reach.step [OF inbound_reach.start [OF demo_accepted]], of toy_ext "AskNext 9"]
  by (simp add: demo_adv_def)

text \<open>C27: A completed transfer is authentic: whenever finalize returns a payload, every part was
  received, the parts together carry the tag of the link's key, and the payload has the advertised
  length and hash.\<close>

theorem finalize_authentic:
  assumes "finalize X key ib = Inr d"
  shows "is_complete ib \<and> resource_hash X d (ib_random_hash ib) = ib_hash ib \<and>
    word_of_nat (length d) = ib_total_size ib \<and>
    hmac_tag_ok X (take 32 key) (reassemble (List.map_filter id (ib_parts ib)))"
  using finalize_sound [OF assms] by blast

theorem finalize_authentic_witness:
  "\<exists>ib. finalize toy_ext [] ib = Inr [7, 8, 9] \<and> is_complete ib \<and>
     resource_hash toy_ext [7, 8, 9] (ib_random_hash ib) = ib_hash ib"
proof -
  obtain ob adv where new: "outbound_new toy_ext zeros [7, 8, 9] [] () 5 = Some (Inr (ob, adv), ())"
    and one: "length (ob_parts ob) = 1" by (rule toy_sent)
  have dist: "distinct (ob_map_hashes ob)" using small_transfer_distinct [OF new] one by simp
  obtain ib where "finalize toy_ext [] ib = Inr [7, 8, 9]"
    using transfer_delivers [OF toy_ok toy_rmp_ok toy_bzip2_ok zeros_ok new dist] by metis
  then show ?thesis using finalize_authentic by blast
qed

text \<open>C33: A receiver that hears nothing gives up: when it has made a request (the time of its last one is not
  zero), some part is still missing and it has retried at most 16 times so far, 17 retry timers at least two
  seconds apart, with nothing coming in between, end in the error, whatever the state of the window and the
  map.\<close>

theorem retries_give_up:
  assumes "ib_last_request ib \<noteq> 0" and "\<not> is_complete ib" and "ib_retries ib \<le> 16"
    and "spaced (ib_last_request ib) ts" and "17 \<le> length ts"
  shows "fst (retry_run ts ib) = Inl Unsupported"
proof -
  have "unat (ib_retries ib) \<le> 16" using assms(3) by (simp add: word_le_nat_alt)
  then show ?thesis using retry_run_gives_up [OF assms(1,2,4)] assms(5) by simp
qed

theorem retries_give_up_witness:
  "fst (retry_run (map (\<lambda>k. word_of_nat (10 + 2 * k)) [0..<17]) (demo_inbound\<lparr>ib_last_request := 1\<rparr>)) = Inl Unsupported"
  using retries_give_up [of "demo_inbound\<lparr>ib_last_request := 1\<rparr>" "map (\<lambda>k. word_of_nat (10 + 2 * k)) [0..<17]"]
  by (simp add: demo_inbound_def is_complete_def upt_rec REQUEST_TIMEOUT_SECS_def)

text \<open>An advertisement whose map is empty is accepted by the reader, and the transfer it starts is
  stuck: it asks for nothing, no timer ever fires for it, and it refuses every part. Only a later
  hashmap update or the end of the link removes it.\<close>

theorem empty_map_stuck:
  assumes "adv_unpack X bs = Inr a" and "ra_m a = []" and "inbound_from_advertisement a = Inr ib"
  shows "next_request now ib = (None, ib) \<and> retry_due now ib = (Inr None, ib) \<and> on_part X p ib = (False, ib)"
proof -
  have "0 < unat (ra_n a)"
    using adv_unpack_valid [OF assms(1)] by (auto simp: adv_valid_def unat_gt_0)
  then have "silent ib"
    using assms(2,3)
    by (auto simp: inbound_from_advertisement_def rbind_Inr_iff silent_def is_complete_def
        list_all_iff Let_def MAPHASH_LEN_def split: if_splits)
  then show ?thesis using silent_stuck by blast
qed

theorem empty_map_stuck_witness:
  "\<exists>a ib. adv_unpack toy_ext (adv_pack toy_ext (demo_adv\<lparr>ra_m := []\<rparr>)) = Inr a \<and>
     inbound_from_advertisement a = Inr ib \<and> retry_due 100 ib = (Inr None, ib)"
proof -
  have u: "adv_unpack toy_ext (adv_pack toy_ext (demo_adv\<lparr>ra_m := []\<rparr>)) = Inr (demo_adv\<lparr>ra_m := []\<rparr>)"
    by (rule adv_unpack_pack [OF toy_rmp_ok])
      (simp add: adv_sizes_ok_def adv_valid_def demo_adv_def resource_consts)
  have i: "inbound_from_advertisement (demo_adv\<lparr>ra_m := []\<rparr>) =
      Inr (demo_inbound\<lparr>ib_map := [None, None]\<rparr>)"
    by (simp add: inbound_from_advertisement_def demo_adv_def demo_inbound_def adv_encrypted_def
        adv_compressed_def resource_consts transfer_consts Let_def two_missing)
  show ?thesis using empty_map_stuck [OF u _ i, of 100] u i by auto
qed

section \<open>The wire forms\<close>

text \<open>Advertisements survive the wire: every advertisement within the sizes unpacks from its packed
  form to itself, and whatever unpacks has valid sizes.\<close>

theorem advertisement_roundtrip:
  assumes "rmp_ok X"
  shows "(adv_sizes_ok a \<longrightarrow> adv_unpack X (adv_pack X a) = Inr a) \<and> (adv_unpack X bs = Inr b \<longrightarrow> adv_valid b)"
  using adv_unpack_pack [OF assms] adv_unpack_valid by blast

theorem advertisement_roundtrip_witness:
  "adv_unpack toy_ext (adv_pack toy_ext demo_adv) = Inr demo_adv"
  using advertisement_roundtrip [OF toy_rmp_ok, of demo_adv]
  by (simp add: adv_sizes_ok_def adv_valid_def demo_adv_def resource_consts)

text \<open>Splitting a payload loses nothing: joining the parts gives it back, no part is empty or longer
  than the unit, and there are as few parts as possible.\<close>

theorem split_lossless:
  assumes "0 < sdu"
  shows "reassemble (split_parts d sdu) = d \<and> (\<forall>p \<in> set (split_parts d sdu). p \<noteq> [] \<and> length p \<le> sdu) \<and>
    length (split_parts d sdu) = (length d + sdu - 1) div sdu"
  using reassemble_split [OF assms] split_parts_bounds length_split_parts [OF assms] by blast

theorem split_lossless_witness: "reassemble (split_parts [1, 2, 3, 4, 5] 2) = [1, 2, 3, 4, 5] \<and>
    length (split_parts [1, 2, 3, 4, 5] 2) = 3"
  using split_lossless [of 2 "[1, 2, 3, 4, 5]"] by simp

end
