(* ===== verification/Lxmf_Message.thy ===== *)
theory Lxmf_Message
  imports Identities
begin

text \<open>
  reticulum-lxmf/src/message.rs: LXMF messages, their wire form and their signature. The decoder walks
  the input with a position; each reader returns its value with the new position, or the error.
  \<open>skip_value\<close> passes over one MessagePack value; its first argument counts what is left of the 64
  levels of nesting it allows (64 less the source's \<open>depth\<close>).
\<close>

section \<open>Readers at a position\<close>

definition DESTINATION_LENGTH :: nat where "DESTINATION_LENGTH = 16"
definition SIGNATURE_LENGTH :: nat where "SIGNATURE_LENGTH = 64"
definition HASH_LENGTH :: nat where "HASH_LENGTH = 32"
definition HEADER_LENGTH :: nat where "HEADER_LENGTH = DESTINATION_LENGTH * 2 + SIGNATURE_LENGTH"

lemmas lxmf_lens = DESTINATION_LENGTH_def SIGNATURE_LENGTH_def HASH_LENGTH_def HEADER_LENGTH_def

definition lx_take_byte :: "bytes \<Rightarrow> nat \<Rightarrow> core_error + (u8 \<times> nat)" where
  "lx_take_byte input pos = (if pos < length input then Inr (input ! pos, pos + 1) else Inl Truncated)"

definition lx_take :: "bytes \<Rightarrow> nat \<Rightarrow> nat \<Rightarrow> core_error + (bytes \<times> nat)" where
  "lx_take input pos len =
     (if pos + len \<ge> 2 ^ 64 then Inl InvalidField
      else rbind (ok_or Truncated (get_range pos (pos + len) input)) (\<lambda>v. Inr (v, pos + len)))"

definition lx_read_u16 :: "bytes \<Rightarrow> nat \<Rightarrow> core_error + (u16 \<times> nat)" where
  "lx_read_u16 input pos = rbind (lx_take input pos 2) (\<lambda>(v, pos). Inr (be_word v, pos))"

definition lx_read_u32 :: "bytes \<Rightarrow> nat \<Rightarrow> core_error + (u32 \<times> nat)" where
  "lx_read_u32 input pos = rbind (lx_take input pos 4) (\<lambda>(v, pos). Inr (be_word v, pos))"

definition lx_read_u64 :: "bytes \<Rightarrow> nat \<Rightarrow> core_error + (u64 \<times> nat)" where
  "lx_read_u64 input pos = rbind (lx_take input pos 8) (\<lambda>(v, pos). Inr (be_word v, pos))"

definition lx_read_len8 :: "bytes \<Rightarrow> nat \<Rightarrow> core_error + (nat \<times> nat)" where
  "lx_read_len8 input pos = rbind (lx_take_byte input pos) (\<lambda>(v, pos). Inr (unat v, pos))"

definition lx_read_len16 :: "bytes \<Rightarrow> nat \<Rightarrow> core_error + (nat \<times> nat)" where
  "lx_read_len16 input pos = rbind (lx_read_u16 input pos) (\<lambda>(v, pos). Inr (unat v, pos))"

definition lx_read_len32 :: "bytes \<Rightarrow> nat \<Rightarrow> core_error + (nat \<times> nat)" where
  "lx_read_len32 input pos = rbind (lx_read_u32 input pos) (\<lambda>(v, pos). Inr (unat v, pos))"

definition lx_read_binary :: "bytes \<Rightarrow> nat \<Rightarrow> core_error + (bytes \<times> nat)" where
  "lx_read_binary input pos =
     rbind (lx_take_byte input pos) (\<lambda>(marker, pos).
     rbind (if marker = 0xC4 then lx_read_len8 input pos
            else if marker = 0xC5 then lx_read_len16 input pos
            else if marker = 0xC6 then lx_read_len32 input pos
            else Inl InvalidField) (\<lambda>(len, pos).
     lx_take input pos len))"

definition read_collection_len :: "bytes \<Rightarrow> nat \<Rightarrow> u8 \<Rightarrow> u8 \<Rightarrow> u8 \<Rightarrow> core_error + (u32 \<times> nat)" where
  "read_collection_len input pos fixed_base marker16 marker32 =
     rbind (lx_take_byte input pos) (\<lambda>(marker, pos).
       if marker AND 0xF0 = fixed_base then Inr (ucast (marker AND 0x0F), pos)
       else if marker = marker16 then rbind (lx_read_u16 input pos) (\<lambda>(v, pos). Inr (ucast v, pos))
       else if marker = marker32 then lx_read_u32 input pos
       else Inl InvalidField)"

section \<open>Passing over one value\<close>

text \<open>Passing over a counted payload and over fixed bytes.\<close>

definition skip_bytes :: "bytes \<Rightarrow> nat \<Rightarrow> nat \<Rightarrow> core_error + nat" where
  "skip_bytes input pos n = rbind (lx_take input pos n) (\<lambda>(_, pos). Inr pos)"

text \<open>\<open>skip_values\<close>: \<open>count\<close> rounds of the given one-value step.\<close>

fun skip_values :: "(nat \<Rightarrow> core_error + nat) \<Rightarrow> nat \<Rightarrow> nat \<Rightarrow> core_error + nat" where
  "skip_values one 0 pos = Inr pos"
| "skip_values one (Suc count) pos = rbind (one pos) (skip_values one count)"

text \<open>What a marker announces: nothing more, bytes to pass over, or values to pass over.\<close>

datatype skip_plan = SkipBytes nat nat | SkipValues nat nat

definition skip_marker :: "bytes \<Rightarrow> u8 \<Rightarrow> nat \<Rightarrow> core_error + skip_plan" where
  "skip_marker input m pos =
     (if m \<le> 0x7F \<or> m = 0xC0 \<or> m = 0xC2 \<or> m = 0xC3 \<or> 0xE0 \<le> m then Inr (SkipBytes pos 0)
      else if m \<le> 0x8F then Inr (SkipValues pos (unat (m AND 0x0F) * 2))
      else if m \<le> 0x9F then Inr (SkipValues pos (unat (m AND 0x0F)))
      else if m \<le> 0xBF then Inr (SkipBytes pos (unat (m AND 0x1F)))
      else if m = 0xC4 \<or> m = 0xD9 then rbind (lx_read_len8 input pos) (\<lambda>(n, pos). Inr (SkipBytes pos n))
      else if m = 0xC5 \<or> m = 0xDA then rbind (lx_read_len16 input pos) (\<lambda>(n, pos). Inr (SkipBytes pos n))
      else if m = 0xC6 \<or> m = 0xDB then rbind (lx_read_len32 input pos) (\<lambda>(n, pos). Inr (SkipBytes pos n))
      else if m = 0xC7 then rbind (lx_read_len8 input pos) (\<lambda>(n, pos). Inr (SkipBytes pos (n + 1)))
      else if m = 0xC8 then rbind (lx_read_len16 input pos) (\<lambda>(n, pos). Inr (SkipBytes pos (n + 1)))
      else if m = 0xC9 then rbind (lx_read_len32 input pos) (\<lambda>(n, pos). Inr (SkipBytes pos (n + 1)))
      else if m = 0xCA \<or> m = 0xCE \<or> m = 0xD2 then Inr (SkipBytes pos 4)
      else if m = 0xCB \<or> m = 0xCF \<or> m = 0xD3 then Inr (SkipBytes pos 8)
      else if m = 0xCC \<or> m = 0xD0 then Inr (SkipBytes pos 1)
      else if m = 0xCD \<or> m = 0xD1 then Inr (SkipBytes pos 2)
      else if m = 0xD4 then Inr (SkipBytes pos 2)
      else if m = 0xD5 then Inr (SkipBytes pos 3)
      else if m = 0xD6 then Inr (SkipBytes pos 5)
      else if m = 0xD7 then Inr (SkipBytes pos 9)
      else if m = 0xD8 then Inr (SkipBytes pos 17)
      else if m = 0xDC then rbind (lx_read_len16 input pos) (\<lambda>(n, pos). Inr (SkipValues pos n))
      else if m = 0xDD then rbind (lx_read_len32 input pos) (\<lambda>(n, pos). Inr (SkipValues pos n))
      else if m = 0xDE then rbind (lx_read_len16 input pos) (\<lambda>(n, pos). Inr (SkipValues pos (n * 2)))
      else if m = 0xDF then rbind (lx_read_len32 input pos) (\<lambda>(n, pos). Inr (SkipValues pos (n * 2)))
      else Inl InvalidField)"

fun skip_value :: "nat \<Rightarrow> bytes \<Rightarrow> nat \<Rightarrow> core_error + nat" where
  "skip_value 0 input pos = Inl InvalidField"
| "skip_value (Suc left) input pos =
     rbind (lx_take_byte input pos) (\<lambda>(marker, pos).
     rbind (skip_marker input marker pos) (\<lambda>plan.
       case plan of SkipBytes pos n \<Rightarrow> skip_bytes input pos n
       | SkipValues pos n \<Rightarrow> skip_values (skip_value left input) n pos))"

section \<open>Payloads\<close>

text \<open>\<open>f64::is_finite\<close>: the exponent is not all ones.\<close>

definition f64_is_finite :: "u64 \<Rightarrow> bool" where
  "f64_is_finite bits = (drop_bit 52 bits AND 0x7FF \<noteq> 0x7FF)"

record decoded_payload =
  dp_timestamp :: u64
  dp_title :: bytes
  dp_content :: bytes
  dp_fields :: bytes
  dp_stamp :: "bytes option"

definition encode_payload :: "ext \<Rightarrow> u64 \<Rightarrow> bytes \<Rightarrow> bytes \<Rightarrow> bytes \<Rightarrow> bytes" where
  "encode_payload X timestamp title content flds =
     x_wr_array_len X 4 @ x_wr_f64 X timestamp @ x_wr_bin X title @ x_wr_bin X content @ flds"

definition map_marker :: "u8 \<Rightarrow> bool" where
  "map_marker b = ((0x80 \<le> b \<and> b \<le> 0x8F) \<or> b = 0xDE \<or> b = 0xDF)"

definition decode_payload :: "bytes \<Rightarrow> core_error + decoded_payload" where
  "decode_payload payload =
     rbind (read_collection_len payload 0 0x90 0xDC 0xDD) (\<lambda>(len, pos).
     if \<not> (len = 4 \<or> len = 5) then Inl InvalidField
     else rbind (lx_take_byte payload pos) (\<lambda>(b, pos).
     if b \<noteq> 0xCB then Inl InvalidField
     else rbind (lx_read_u64 payload pos) (\<lambda>(timestamp, pos).
     if \<not> f64_is_finite timestamp then Inl InvalidField
     else rbind (lx_read_binary payload pos) (\<lambda>(title, pos).
     rbind (lx_read_binary payload pos) (\<lambda>(content, pos).
     let fields_start = pos in
     if \<not> (fields_start < length payload \<and> map_marker (payload ! fields_start)) then Inl InvalidField
     else rbind (skip_value 64 payload pos) (\<lambda>pos.
     let fields_end = pos in
     rbind (if len = 5 then rbind (lx_read_binary payload pos) (\<lambda>(stamp, pos).
              if \<not> (length stamp = 16 \<or> length stamp = 32) then Inl InvalidField
              else Inr (Some stamp, pos))
            else Inr (None, pos)) (\<lambda>(stamp, pos).
     if pos \<noteq> length payload then Inl InvalidField
     else Inr \<lparr>dp_timestamp = timestamp, dp_title = title, dp_content = content,
            dp_fields = sub fields_start fields_end payload, dp_stamp = stamp\<rparr>)))))))"

section \<open>Messages\<close>

record lxmf_message =
  lm_destination :: bytes
  lm_source :: bytes
  lm_timestamp :: u64
  lm_title :: bytes
  lm_content :: bytes
  lm_fields :: bytes
  lm_stamp :: "bytes option"
  lm_signature :: bytes
  lm_hash :: bytes

definition hashed_part :: "bytes \<Rightarrow> bytes \<Rightarrow> bytes \<Rightarrow> bytes" where
  "hashed_part destination source payload = destination @ source @ payload"

definition lm_payload :: "ext \<Rightarrow> lxmf_message \<Rightarrow> bytes" where
  "lm_payload X m = encode_payload X (lm_timestamp m) (lm_title m) (lm_content m) (lm_fields m)"

definition wire_payload :: "ext \<Rightarrow> lxmf_message \<Rightarrow> bytes" where
  "wire_payload X m =
     (case lm_stamp m of
        None \<Rightarrow> lm_payload X m
      | Some stamp \<Rightarrow> x_wr_array_len X 5 @ x_wr_f64 X (lm_timestamp m) @ x_wr_bin X (lm_title m)
          @ x_wr_bin X (lm_content m) @ lm_fields m @ x_wr_bin X stamp)"

definition lxmf_build ::
    "ext \<Rightarrow> identity \<Rightarrow> bytes \<Rightarrow> bytes \<Rightarrow> u64 \<Rightarrow> bytes \<Rightarrow> bytes \<Rightarrow> bytes \<Rightarrow> lxmf_message" where
  "lxmf_build X i destination source timestamp title content flds =
     (let payload = encode_payload X timestamp title content flds;
          hashed = hashed_part destination source payload;
          hash = full_hash X hashed;
          signed = hashed @ hash
      in \<lparr>lm_destination = destination, lm_source = source, lm_timestamp = timestamp,
          lm_title = title, lm_content = content, lm_fields = flds, lm_stamp = None,
          lm_signature = id_sign X i signed, lm_hash = hash\<rparr>)"

definition lxmf_pack :: "ext \<Rightarrow> lxmf_message \<Rightarrow> bytes" where
  "lxmf_pack X m = lm_destination m @ lm_source m @ lm_signature m @ wire_payload X m"

definition lxmf_unpack :: "ext \<Rightarrow> bytes \<Rightarrow> core_error + lxmf_message" where
  "lxmf_unpack X bs =
     (if length bs < HEADER_LENGTH then Inl Truncated
      else rbind (ok_or Truncated (try_array 16 (take DESTINATION_LENGTH bs))) (\<lambda>destination.
           rbind (ok_or Truncated (try_array 16 (sub DESTINATION_LENGTH (DESTINATION_LENGTH * 2) bs))) (\<lambda>source.
           rbind (ok_or Truncated (try_array 64 (sub (DESTINATION_LENGTH * 2) HEADER_LENGTH bs))) (\<lambda>signature.
           rbind (decode_payload (drop HEADER_LENGTH bs)) (\<lambda>d.
             let payload = encode_payload X (dp_timestamp d) (dp_title d) (dp_content d) (dp_fields d);
                 hash = full_hash X (hashed_part destination source payload)
             in Inr \<lparr>lm_destination = destination, lm_source = source, lm_timestamp = dp_timestamp d,
                  lm_title = dp_title d, lm_content = dp_content d, lm_fields = dp_fields d,
                  lm_stamp = dp_stamp d, lm_signature = signature, lm_hash = hash\<rparr>)))))"

definition lxmf_verify :: "ext \<Rightarrow> lxmf_message \<Rightarrow> public_identity \<Rightarrow> core_error + unit" where
  "lxmf_verify X m source_public =
     (let payload = lm_payload X m;
          hashed = hashed_part (lm_destination m) (lm_source m) payload;
          hash = full_hash X hashed
      in if hash \<noteq> lm_hash m then Inl BadSignature
         else pub_verify X source_public (hashed @ hash) (lm_signature m))"

section \<open>Readers are local and advance\<close>

text \<open>Reading inside a longer input at a shifted position gives the same value.\<close>

lemma lx_take_byte_shift:
  "lx_take_byte x p = Inr (v, q) \<Longrightarrow> lx_take_byte (a @ x @ b) (length a + p) = Inr (v, length a + q)"
  by (auto simp: lx_take_byte_def nth_append split: if_splits)

lemma lx_take_Inr:
  "lx_take x p n = Inr (v, q) \<longleftrightarrow> p + n < 2 ^ 64 \<and> p + n \<le> length x \<and> v = sub p (p + n) x \<and> q = p + n"
  by (auto simp: lx_take_def rbind_Inr_iff)

lemma lx_take_shift:
  "lx_take x p n = Inr (v, q) \<Longrightarrow> length (a @ x @ b) < 2 ^ 64 \<Longrightarrow>
     lx_take (a @ x @ b) (length a + p) n = Inr (v, length a + q)"
  by (auto simp: lx_take_Inr sub_def)

lemmas lx_reads = lx_read_u16_def lx_read_u32_def lx_read_u64_def lx_read_len8_def lx_read_len16_def
  lx_read_len32_def

lemma lx_read_len_shift:
  assumes "length (a @ x @ b) < 2 ^ 64"
  shows "lx_read_len8 x p = Inr (n, q) \<Longrightarrow> lx_read_len8 (a @ x @ b) (length a + p) = Inr (n, length a + q)"
    and "lx_read_len16 x p = Inr (n, q) \<Longrightarrow> lx_read_len16 (a @ x @ b) (length a + p) = Inr (n, length a + q)"
    and "lx_read_len32 x p = Inr (n, q) \<Longrightarrow> lx_read_len32 (a @ x @ b) (length a + p) = Inr (n, length a + q)"
  using lx_take_shift [OF _ assms] lx_take_byte_shift [of x p _ _ a b]
  by (fastforce simp: lx_reads rbind_Inr_iff)+

lemma lx_read_len_adv:
  "lx_read_len8 x p = Inr (n, q) \<Longrightarrow> p < q \<and> q \<le> length x"
  "lx_read_len16 x p = Inr (n, q) \<Longrightarrow> p < q \<and> q \<le> length x"
  "lx_read_len32 x p = Inr (n, q) \<Longrightarrow> p < q \<and> q \<le> length x"
  by (auto simp: lx_reads rbind_Inr_iff lx_take_Inr lx_take_byte_def split: if_splits)

fun shift_plan :: "nat \<Rightarrow> skip_plan \<Rightarrow> skip_plan" where
  "shift_plan k (SkipBytes p n) = SkipBytes (k + p) n"
| "shift_plan k (SkipValues p n) = SkipValues (k + p) n"

fun plan_pos :: "skip_plan \<Rightarrow> nat" where
  "plan_pos (SkipBytes p n) = p"
| "plan_pos (SkipValues p n) = p"

definition shifts :: "nat \<Rightarrow> core_error + skip_plan \<Rightarrow> core_error + skip_plan \<Rightarrow> bool" where
  "shifts k r r' \<longleftrightarrow> (\<forall>plan. r = Inr plan \<longrightarrow> r' = Inr (shift_plan k plan))"

lemma shifts_basic:
  "shifts k (Inl e) r'"
  "shifts k (Inr (SkipBytes p n)) (Inr (SkipBytes (k + p) n))"
  "shifts k (Inr (SkipValues p n)) (Inr (SkipValues (k + p) n))"
  "(c \<Longrightarrow> shifts k r r') \<Longrightarrow> (\<not> c \<Longrightarrow> shifts k s s') \<Longrightarrow> shifts k (if c then r else s) (if c then r' else s')"
  by (auto simp: shifts_def)

lemma shifts_bind:
  assumes "\<And>n q. r = Inr (n, q) \<Longrightarrow> r' = Inr (n, k + q)"
  shows "shifts k (rbind r (\<lambda>(n, q). Inr (SkipBytes q (g n)))) (rbind r' (\<lambda>(n, q). Inr (SkipBytes q (g n))))"
    and "shifts k (rbind r (\<lambda>(n, q). Inr (SkipValues q (g n)))) (rbind r' (\<lambda>(n, q). Inr (SkipValues q (g n))))"
  using assms by (auto simp: shifts_def rbind_Inr_iff)

lemma skip_marker_shift:
  assumes "length (a @ x @ b) < 2 ^ 64" and "skip_marker x m p = Inr plan"
  shows "skip_marker (a @ x @ b) m (length a + p) = Inr (shift_plan (length a) plan)"
proof -
  note len = lx_read_len_shift [OF assms(1)]
  have "shifts (length a) (skip_marker x m p) (skip_marker (a @ x @ b) m (length a + p))"
    unfolding skip_marker_def
    by (intro shifts_basic shifts_bind len)
  then show ?thesis using assms(2) by (simp add: shifts_def)
qed

lemma skip_marker_adv: "skip_marker x m p = Inr plan \<Longrightarrow> p \<le> length x \<Longrightarrow> p \<le> plan_pos plan \<and> plan_pos plan \<le> length x"
  unfolding skip_marker_def
  by (auto split: if_splits simp: rbind_Inr_iff dest!: lx_read_len_adv)

text \<open>\<open>skip_value\<close> moves forward, by at least one byte, and not past the end.\<close>

lemma skip_values_adv:
  assumes "\<And>p q. one p = Inr q \<Longrightarrow> p < q \<and> q \<le> l"
  shows "skip_values one n p = Inr q \<Longrightarrow> p + n \<le> q \<and> (q = p \<or> q \<le> l)"
proof (induction n arbitrary: p)
  case 0
  then show ?case by simp
next
  case (Suc n)
  then obtain r where "one p = Inr r" "skip_values one n r = Inr q" by (auto simp: rbind_Inr_iff)
  then show ?case using Suc.IH [of r] assms [of p r] by auto
qed

lemma skip_value_adv: "skip_value k x p = Inr q \<Longrightarrow> p < q \<and> q \<le> length x"
proof (induction k x p arbitrary: q rule: skip_value.induct)
  case (1 x p)
  then show ?case by simp
next
  case (2 left x p)
  from "2.prems" obtain m plan where b: "lx_take_byte x p = Inr (m, p + 1)"
    and pl: "skip_marker x m (p + 1) = Inr plan"
    and rest: "(case plan of SkipBytes p n \<Rightarrow> skip_bytes x p n
       | SkipValues p n \<Rightarrow> skip_values (skip_value left x) n p) = Inr q"
    by (auto simp: rbind_Inr_iff lx_take_byte_def split: if_splits)
  have p: "p + 1 \<le> length x" using b by (auto simp: lx_take_byte_def split: if_splits)
  note adv = skip_marker_adv [OF pl p]
  show ?case
  proof (cases plan)
    case (SkipBytes p' n)
    then show ?thesis using rest adv by (auto simp: skip_bytes_def rbind_Inr_iff lx_take_Inr)
  next
    case (SkipValues p' n)
    have one: "\<And>p q. skip_value left x p = Inr q \<Longrightarrow> p < q \<and> q \<le> length x"
      using "2.IH" b pl SkipValues by auto
    have "skip_values (skip_value left x) n p' = Inr q" using rest SkipValues by simp
    from skip_values_adv [OF one this] show ?thesis using adv SkipValues by auto
  qed
qed

lemma skip_values_shift:
  assumes "\<And>p q. one p = Inr q \<Longrightarrow> one' (k + p) = Inr (k + q)"
  shows "skip_values one n p = Inr q \<Longrightarrow> skip_values one' n (k + p) = Inr (k + q)"
  by (induction n arbitrary: p) (auto simp: rbind_Inr_iff assms)

lemma skip_value_shift:
  "length (a @ x @ b) < 2 ^ 64 \<Longrightarrow> skip_value k x p = Inr q \<Longrightarrow>
     skip_value k (a @ x @ b) (length a + p) = Inr (length a + q)"
proof (induction k x p arbitrary: q rule: skip_value.induct)
  case (1 x p)
  then show ?case by simp
next
  case (2 left x p)
  from "2.prems"(2) obtain m r plan where b: "lx_take_byte x p = Inr (m, r)"
    and pl: "skip_marker x m r = Inr plan"
    and rest: "(case plan of SkipBytes p n \<Rightarrow> skip_bytes x p n
       | SkipValues p n \<Rightarrow> skip_values (skip_value left x) n p) = Inr q"
    by (auto simp: rbind_Inr_iff)
  note b' = lx_take_byte_shift [OF b, of a b]
  note pl' = skip_marker_shift [OF "2.prems"(1) pl]
  show ?case
  proof (cases plan)
    case (SkipBytes p' n)
    then obtain v where v: "lx_take x p' n = Inr (v, q)" using rest by (auto simp: skip_bytes_def rbind_Inr_iff)
    have "lx_take (a @ x @ b) (length a + p') n = Inr (v, length a + q)"
      using lx_take_shift [OF v "2.prems"(1)] .
    then show ?thesis using b' pl' SkipBytes by (simp add: skip_bytes_def)
  next
    case (SkipValues p' n)
    have one: "\<And>p q. skip_value left x p = Inr q \<Longrightarrow> skip_value left (a @ x @ b) (length a + p) = Inr (length a + q)"
      using "2.IH" b pl SkipValues "2.prems"(1) by auto
    have "skip_values (skip_value left x) n p' = Inr q" using rest SkipValues by simp
    then have "skip_values (skip_value left (a @ x @ b)) n (length a + p') = Inr (length a + q)"
      by (rule skip_values_shift [rotated]) (rule one)
    then show ?thesis using b' pl' SkipValues by simp
  qed
qed

text \<open>A counted loop cannot run further than the input: the count a header claims is paid in bytes.\<close>

lemma skip_values_bounded:
  "skip_values (skip_value k x) n p = Inr q \<Longrightarrow> n \<le> length x"
proof -
  assume s: "skip_values (skip_value k x) n p = Inr q"
  have one: "\<And>p q. skip_value k x p = Inr q \<Longrightarrow> p < q \<and> q \<le> length x" by (rule skip_value_adv)
  have "p + n \<le> q \<and> (q = p \<or> q \<le> length x)" using skip_values_adv [OF one s] .
  then show ?thesis by (cases n) auto
qed

section \<open>Messages survive the wire\<close>

text \<open>The fields are one complete MessagePack map.\<close>

definition fields_ok :: "bytes \<Rightarrow> bool" where
  "fields_ok f \<longleftrightarrow> f \<noteq> [] \<and> map_marker (f ! 0) \<and> skip_value 64 f 0 = Inr (length f)"

lemma lx_read_binary_wr:
  assumes X: "rmp_ok X" and l: "length v < 2 ^ 32" and p: "p = length a" and big: "length (a @ x_wr_bin X v @ b) < 2 ^ 64"
  shows "lx_read_binary (a @ x_wr_bin X v @ b) p = Inr (v, p + length (x_wr_bin X v))"
proof -
  have w: "x_wr_bin X v = mp_bin (length v) @ v" using rmp_write(4) [OF X l] .
  consider "length v < 256" | "256 \<le> length v" "length v < 65536" | "65536 \<le> length v" by linarith
  then show ?thesis
  proof cases
    case 1
    then have u: "unat (word_of_nat (length v) :: u8) = length v" by (simp add: unat_of_nat take_bit_nat_eq_self)
    show ?thesis using 1 p big
      by (simp add: w mp_bin_def lx_read_binary_def lx_take_byte_def lx_read_len8_def nth_append u
          lx_take_def get_range_def sub_def)
  next
    case 2
    then have u: "unat (word_of_nat (length v) :: u16) = length v" by (simp add: unat_of_nat take_bit_nat_eq_self)
    show ?thesis using 2 p big
      by (simp add: w mp_bin_def lx_read_binary_def lx_take_byte_def lx_read_len16_def lx_read_u16_def nth_append u
          lx_take_def get_range_def sub_def)
  next
    case 3
    then have u: "unat (word_of_nat (length v) :: u32) = length v" using l by (simp add: unat_of_nat take_bit_nat_eq_self)
    show ?thesis using 3 p big
      by (simp add: w mp_bin_def lx_read_binary_def lx_take_byte_def lx_read_len32_def lx_read_u32_def nth_append u
          lx_take_def get_range_def sub_def)
  qed
qed

definition message_ok :: "lxmf_message \<Rightarrow> bool" where
  "message_ok m \<longleftrightarrow> length (lm_destination m) = 16 \<and> length (lm_source m) = 16 \<and>
     length (lm_signature m) = 64 \<and> f64_is_finite (lm_timestamp m) \<and>
     length (lm_title m) < 2 ^ 32 \<and> length (lm_content m) < 2 ^ 32 \<and> length (lm_fields m) < 2 ^ 62 \<and>
     fields_ok (lm_fields m) \<and> (case lm_stamp m of None \<Rightarrow> True | Some s \<Rightarrow> length s = 16 \<or> length s = 32)"

lemma length_wr_bin: "rmp_ok X \<Longrightarrow> length v < 2 ^ 32 \<Longrightarrow> length (x_wr_bin X v) \<le> length v + 5"
  by (simp add: rmp_write mp_bin_def)

text \<open>The decoder on a payload of 4 or 5 elements.\<close>

lemma decode_wire:
  assumes X: "rmp_ok X" and fin: "f64_is_finite t" and l: "length ti < 2 ^ 32" "length co < 2 ^ 32" "length f < 2 ^ 62"
    and f: "fields_ok f" and st: "case st of None \<Rightarrow> True | Some s \<Rightarrow> length s = 16 \<or> length s = 32"
  shows "decode_payload (x_wr_array_len X (case st of None \<Rightarrow> 4 | Some _ \<Rightarrow> 5) @ x_wr_f64 X t @ x_wr_bin X ti
      @ x_wr_bin X co @ f @ (case st of None \<Rightarrow> [] | Some s \<Rightarrow> x_wr_bin X s)) =
    Inr \<lparr>dp_timestamp = t, dp_title = ti, dp_content = co, dp_fields = f, dp_stamp = st\<rparr>"
proof -
  let ?n = "case st of None \<Rightarrow> 4 | Some _ \<Rightarrow> (5 :: u32)"
  let ?tail = "case st of None \<Rightarrow> [] | Some s \<Rightarrow> x_wr_bin X s"
  let ?m = "case st of None \<Rightarrow> 0x94 | Some _ \<Rightarrow> (0x95 :: u8)"
  let ?h = "[?m, 0xCB] @ be_bytes 8 t"
  let ?b1 = "x_wr_bin X ti" and ?b2 = "x_wr_bin X co"
  let ?all = "?h @ ?b1 @ ?b2 @ f @ ?tail"
  have arr: "x_wr_array_len X ?n = [?m]"
    by (cases st) (simp_all add: rmp_write(1) [OF X] mp_array_def)
  have f64: "x_wr_f64 X t = 0xCB # be_bytes 8 t" using rmp_write(7) [OF X] by (simp add: mp_f64_def)
  have tail: "length ?tail \<le> 37" proof (cases st)
    case (Some s)
    then have "length s \<le> 32" using st by auto
    then show ?thesis using Some length_wr_bin [OF X, of s] by simp
  qed simp
  have big: "length ?all < 2 ^ 64"
    using length_wr_bin [OF X l(1)] length_wr_bin [OF X l(2)] l tail by simp
  have coll: "read_collection_len ?all 0 0x90 0xDC 0xDD = Inr (?n, 1)"
    by (cases st) (simp_all add: read_collection_len_def lx_take_byte_def)
  have byte: "lx_take_byte ?all 1 = Inr (0xCB, 2)" by (simp add: lx_take_byte_def)
  have time: "lx_read_u64 ?all 2 = Inr (t, 10)"
    using big by (simp add: lx_read_u64_def lx_take_def get_range_def sub_def)
  have title: "lx_read_binary ?all 10 = Inr (ti, 10 + length ?b1)"
    using lx_read_binary_wr [OF X l(1), of 10 ?h "?b2 @ f @ ?tail"] big by simp
  have content: "lx_read_binary ?all (10 + length ?b1) = Inr (co, 10 + length ?b1 + length ?b2)"
    using lx_read_binary_wr [OF X l(2), of "10 + length ?b1" "?h @ ?b1" "f @ ?tail"] big by simp
  let ?p = "10 + length ?b1 + length ?b2"
  have all: "?all = (?h @ ?b1 @ ?b2) @ f @ ?tail" by simp
  have hl: "length (?h @ ?b1 @ ?b2) = ?p" by simp
  have at: "?all ! ?p = f ! 0" "?p < length ?all"
  proof -
    have "?all ! ?p = (f @ ?tail) ! 0" unfolding all nth_append hl by simp
    then show "?all ! ?p = f ! 0" using f by (auto simp: fields_ok_def nth_append)
    show "?p < length ?all" using f by (auto simp: fields_ok_def)
  qed
  have skip: "skip_value 64 ?all ?p = Inr (?p + length f)"
    using skip_value_shift [of "?h @ ?b1 @ ?b2" f ?tail 64 0 "length f"] big f unfolding all hl
    by (simp add: fields_ok_def)
  have fld: "sub ?p (?p + length f) ?all = f"
    unfolding all using hl by (intro sub_appendI) simp_all
  have stamp: "(if ?n = 5 then rbind (lx_read_binary ?all (?p + length f)) (\<lambda>(stamp, pos).
      if \<not> (length stamp = 16 \<or> length stamp = 32) then Inl InvalidField else Inr (Some stamp, pos))
      else Inr (None, ?p + length f)) = Inr (st, length ?all)"
  proof (cases st)
    case None
    then show ?thesis by simp
  next
    case (Some s)
    then have ls: "length s < 2 ^ 32" using st by auto
    have "lx_read_binary ?all (?p + length f) = Inr (s, ?p + length f + length (x_wr_bin X s))"
      using lx_read_binary_wr [OF X ls, of "?p + length f" "?h @ ?b1 @ ?b2 @ f" "[]"] big Some by simp
    then show ?thesis using Some st by simp
  qed
  have n: "?n = 4 \<or> ?n = 5" by (cases st) simp_all
  have shape: "x_wr_array_len X ?n @ x_wr_f64 X t @ ?b1 @ ?b2 @ f @ ?tail = ?all"
    using arr f64 by simp
  show ?thesis
    unfolding shape decode_payload_def coll rbind.simps case_prod_conv byte time title content Let_def skip fld stamp
    using n fin at f by (simp add: fields_ok_def)
qed

lemma lxmf_unpack_pack:
  assumes X: "rmp_ok X" and m: "message_ok m" and h: "lm_hash m = full_hash X
      (hashed_part (lm_destination m) (lm_source m) (lm_payload X m))"
  shows "lxmf_unpack X (lxmf_pack X m) = Inr m"
proof -
  have w: "wire_payload X m = x_wr_array_len X (case lm_stamp m of None \<Rightarrow> 4 | Some _ \<Rightarrow> 5) @ x_wr_f64 X (lm_timestamp m)
      @ x_wr_bin X (lm_title m) @ x_wr_bin X (lm_content m) @ lm_fields m
      @ (case lm_stamp m of None \<Rightarrow> [] | Some s \<Rightarrow> x_wr_bin X s)"
    by (cases "lm_stamp m") (simp_all add: wire_payload_def lm_payload_def encode_payload_def)
  have "decode_payload (wire_payload X m) = Inr \<lparr>dp_timestamp = lm_timestamp m, dp_title = lm_title m,
      dp_content = lm_content m, dp_fields = lm_fields m, dp_stamp = lm_stamp m\<rparr>"
    unfolding w using m by (intro decode_wire [OF X]) (auto simp: message_ok_def split: option.splits)
  then show ?thesis using m h
    by (simp add: lxmf_unpack_def lxmf_pack_def message_ok_def lxmf_lens sub_def lm_payload_def)
qed

lemma lxmf_unpack_hash:
  "lxmf_unpack X bs = Inr m \<Longrightarrow> lm_hash m = full_hash X (hashed_part (lm_destination m) (lm_source m) (lm_payload X m))"
  by (auto simp: lxmf_unpack_def rbind_Inr_iff lm_payload_def Let_def split: if_splits)

text \<open>Which bytes unpack to which message.\<close>

lemma lxmf_unpack_iff:
  "lxmf_unpack X bs = Inr m \<longleftrightarrow> 96 \<le> length bs \<and>
     lm_destination m = take 16 bs \<and> lm_source m = take 16 (drop 16 bs) \<and> lm_signature m = take 64 (drop 32 bs) \<and>
     (\<exists>d. decode_payload (drop 96 bs) = Inr d \<and> lm_timestamp m = dp_timestamp d \<and> lm_title m = dp_title d \<and>
        lm_content m = dp_content d \<and> lm_fields m = dp_fields d \<and> lm_stamp m = dp_stamp d) \<and>
     lm_hash m = full_hash X (hashed_part (lm_destination m) (lm_source m) (lm_payload X m))"
proof (cases "length bs < 96")
  case False
  then have l: "try_array 16 (take 16 bs) = Some (take 16 bs)" "try_array 16 (sub 16 32 bs) = Some (take 16 (drop 16 bs))"
    "try_array 64 (sub 32 96 bs) = Some (take 64 (drop 32 bs))"
    by (simp_all add: try_array_def sub_def)
  show ?thesis using False l
    by (cases m; cases "decode_payload (drop 96 bs)")
      (auto simp: lxmf_unpack_def lm_payload_def Let_def HEADER_LENGTH_def DESTINATION_LENGTH_def SIGNATURE_LENGTH_def)
qed (simp add: lxmf_unpack_def HEADER_LENGTH_def DESTINATION_LENGTH_def SIGNATURE_LENGTH_def)

lemma lxmf_build_hash:
  "lm_hash (lxmf_build X i d s t ti co f) = full_hash X (hashed_part d s (lm_payload X (lxmf_build X i d s t ti co f)))"
  by (simp add: lxmf_build_def lm_payload_def Let_def)

lemma lxmf_verify_build:
  "ed25519_ok X \<Longrightarrow> lxmf_verify X (lxmf_build X i d s t ti co f) (id_public X i) = Inr ()"
  by (simp add: lxmf_verify_def lxmf_build_def lm_payload_def Let_def id_sign_def)

lemma lxmf_verify_Inr:
  "lxmf_verify X m p = Inr () \<longleftrightarrow>
     lm_hash m = full_hash X (hashed_part (lm_destination m) (lm_source m) (lm_payload X m)) \<and>
     x_ed25519_key_ok X (sig_pub p) \<and>
     x_ed25519_verify X (sig_pub p)
       (hashed_part (lm_destination m) (lm_source m) (lm_payload X m) @ lm_hash m) (lm_signature m)"
  by (auto simp: lxmf_verify_def Let_def)

end
