(* ===== verification/Lxmf_Stamp.thy ===== *)
theory Lxmf_Stamp
  imports Identities Ifac
begin

text \<open>
  reticulum-lxmf/src/stamp.rs: proof-of-work and ticket stamps of LXMF messages. A digest is read as a
  big-endian number; a stamp of cost \<open>c\<close> is accepted when it is at most \<open>2 ^ (256 - c)\<close>, its value is
  the number of leading zero bits.
\<close>

definition STAMP_SIZE :: nat where "STAMP_SIZE = 32"
definition TICKET_STAMP_SIZE :: nat where "TICKET_STAMP_SIZE = 16"
definition DELIVERY_WORKBLOCK_ROUNDS :: u32 where "DELIVERY_WORKBLOCK_ROUNDS = 3000"
definition PROPAGATION_WORKBLOCK_ROUNDS :: u32 where "PROPAGATION_WORKBLOCK_ROUNDS = 1000"

datatype stamp_validation = NotRequired | Ticket | ProofOfWork (pow_value: u16)

definition encode_unsigned :: "u64 \<Rightarrow> bytes" where
  "encode_unsigned v =
     (if v \<le> 0x7F then [ucast v]
      else if v \<le> 0xFF then [0xCC, ucast v]
      else if v \<le> 0xFFFF then 0xCD # be_bytes 2 (ucast v :: u16)
      else if v \<le> 0xFFFFFFFF then 0xCE # be_bytes 4 (ucast v :: u32)
      else 0xCF # be_bytes 8 v)"

text \<open>The rounds of the work block from the given one on, \<open>left\<close> of them.\<close>

fun workblock_rounds :: "ext \<Rightarrow> bytes \<Rightarrow> nat \<Rightarrow> nat \<Rightarrow> bytes \<Rightarrow> core_error + bytes" where
  "workblock_rounds X material rnd 0 workblock = Inr workblock"
| "workblock_rounds X material rnd (Suc left) workblock =
     (let salt = full_hash X (material @ encode_unsigned (word_of_nat rnd))
      in rbind (ok_or InvalidField (x_hkdf X salt material 256)) (\<lambda>block.
           workblock_rounds X material (rnd + 1) left (workblock @ block)))"

definition stamp_workblock :: "ext \<Rightarrow> bytes \<Rightarrow> u32 \<Rightarrow> core_error + bytes" where
  "stamp_workblock X material expand_rounds =
     (if material = [] then Inl InvalidField
      else if unat expand_rounds * 256 \<ge> 2 ^ 64 then Inl InvalidField
      else workblock_rounds X material 0 (unat expand_rounds) [])"

text \<open>\<open>leading_zeros\<close> of a byte.\<close>

definition leading_zeros8 :: "u8 \<Rightarrow> nat" where
  "leading_zeros8 b =
     (if b \<ge> 128 then 0 else if b \<ge> 64 then 1 else if b \<ge> 32 then 2 else if b \<ge> 16 then 3
      else if b \<ge> 8 then 4 else if b \<ge> 4 then 5 else if b \<ge> 2 then 6 else if b \<ge> 1 then 7 else 8)"

definition stamp_digest :: "ext \<Rightarrow> bytes \<Rightarrow> bytes \<Rightarrow> bytes" where
  "stamp_digest X workblock stamp = x_sha256 X (workblock @ stamp)"

definition digest_value :: "bytes \<Rightarrow> nat" where
  "digest_value digest =
     sum_list (takeWhile (\<lambda>z. z = 8) (map leading_zeros8 digest))
     + (case find (\<lambda>b. b \<noteq> 0) digest of None \<Rightarrow> 0 | Some b \<Rightarrow> leading_zeros8 b)"

definition stamp_value :: "ext \<Rightarrow> bytes \<Rightarrow> bytes \<Rightarrow> u16" where
  "stamp_value X workblock stamp = word_of_nat (digest_value (stamp_digest X workblock stamp))"

text \<open>The comparison of two byte arrays of one length is lexicographic.\<close>

definition stamp_target :: "nat \<Rightarrow> bytes" where
  "stamp_target exponent = (replicate 32 0)[31 - exponent div 8 := push_bit (exponent mod 8) 1]"

definition verify_stamp :: "ext \<Rightarrow> bytes \<Rightarrow> bytes \<Rightarrow> u16 \<Rightarrow> bool" where
  "verify_stamp X workblock stamp target_cost =
     (if length stamp \<noteq> STAMP_SIZE \<or> target_cost > 256 then False
      else if target_cost = 0 then True
      else stamp_digest X workblock stamp \<le> stamp_target (256 - unat target_cost))"

definition verify_ticket_stamp :: "ext \<Rightarrow> bytes \<Rightarrow> bytes \<Rightarrow> bytes \<Rightarrow> bool" where
  "verify_ticket_stamp X ticket message_id stamp =
     (if length stamp \<noteq> TICKET_STAMP_SIZE then False
      else constant_time_eq (truncated_hash X (ticket @ message_id)) stamp)"

definition verify_optional_stamp ::
    "ext \<Rightarrow> bytes \<Rightarrow> bytes option \<Rightarrow> u16 option \<Rightarrow> bytes list \<Rightarrow> core_error + stamp_validation" where
  "verify_optional_stamp X message_id stamp target_cost tickets =
     (case target_cost of
        None \<Rightarrow> Inr NotRequired
      | Some cost \<Rightarrow>
          if cost = 0 then Inr NotRequired
          else rbind (ok_or InvalidField stamp) (\<lambda>stamp.
            if list_ex (\<lambda>ticket. verify_ticket_stamp X ticket message_id stamp) tickets then Inr Ticket
            else rbind (stamp_workblock X message_id DELIVERY_WORKBLOCK_ROUNDS) (\<lambda>workblock.
              if \<not> verify_stamp X workblock stamp cost then Inl InvalidField
              else Inr (ProofOfWork (stamp_value X workblock stamp)))))"

section \<open>The work block\<close>

lemma workblock_rounds_length:
  assumes "hkdf_ok X"
  shows "\<exists>w. workblock_rounds X m r n acc = Inr w \<and> length w = length acc + 256 * n"
proof (induction n arbitrary: r acc)
  case 0
  then show ?case by simp
next
  case (Suc n)
  obtain k where "x_hkdf X (full_hash X (m @ encode_unsigned (word_of_nat r))) m 256 = Some k" "length k = 256"
    by (rule hkdf_Some [OF assms, of 256]) simp_all
  then show ?case using Suc.IH [of "r + 1" "acc @ k"] by (auto simp: Let_def)
qed

lemma stamp_workblock_total:
  assumes "hkdf_ok X" and "m \<noteq> []"
  shows "\<exists>w. stamp_workblock X m n = Inr w \<and> length w = 256 * unat n"
proof -
  have "unat n * 256 < 2 ^ 64" using unat_bound [of n] by simp
  then show ?thesis using workblock_rounds_length [OF assms(1), of m 0 "unat n" "[]"] assms(2)
    by (simp add: stamp_workblock_def)
qed

lemma encode_unsigned_mp: "encode_unsigned v = mp_uint v"
proof -
  have "v \<le> 0x7F \<longleftrightarrow> v < 0x80" "v \<le> 0xFF \<longleftrightarrow> v < 0x100" "v \<le> 0xFFFF \<longleftrightarrow> v < 0x10000"
    "v \<le> 0xFFFFFFFF \<longleftrightarrow> v < 0x100000000"
    by (simp_all add: word_le_nat_alt word_less_nat_alt) linarith+
  then show ?thesis by (simp add: encode_unsigned_def mp_uint_def)
qed

section \<open>Stamp values and accepted stamps\<close>

text \<open>The digest as a number, most significant byte first.\<close>

fun be_nat :: "bytes \<Rightarrow> nat" where
  "be_nat [] = 0"
| "be_nat (b # bs) = unat b * 256 ^ length bs + be_nat bs"

lemma be_nat_bound: "be_nat bs < 256 ^ length bs"
proof (induction bs)
  case Nil
  then show ?case by simp
next
  case (Cons b bs)
  have "unat b + 1 \<le> 256" using unat_bound [of b] by simp
  then have *: "(unat b + 1) * 256 ^ length bs \<le> 256 * 256 ^ length bs" by (rule mult_le_mono1)
  have "be_nat (b # bs) < (unat b + 1) * 256 ^ length bs" using Cons by (simp add: distrib_right)
  also note *
  finally show ?case by simp
qed

lemma bytes_le_be_nat: "length a = length b \<Longrightarrow> a \<le> b \<longleftrightarrow> be_nat a \<le> be_nat b"
proof (induction a b rule: list_induct2)
  case Nil
  then show ?case by simp
next
  case (Cons x xs y ys)
  have bx: "be_nat xs < 256 ^ length ys" "be_nat ys < 256 ^ length ys"
    using be_nat_bound [of xs] be_nat_bound [of ys] Cons.hyps by simp_all
  consider "x = y" | "unat x < unat y" | "unat y < unat x"
    by (metis linorder_neqE_nat word_unat_eq_iff)
  then show ?case
  proof cases
    case 1
    then show ?thesis using Cons by simp
  next
    case 2
    then have "(unat x + 1) * 256 ^ length ys \<le> unat y * 256 ^ length ys" by (intro mult_le_mono1) simp
    moreover have "x < y" using 2 by (simp add: word_less_nat_alt)
    ultimately show ?thesis using bx Cons.hyps by (simp add: algebra_simps)
  next
    case 3
    then have "(unat y + 1) * 256 ^ length ys \<le> unat x * 256 ^ length ys" by (intro mult_le_mono1) simp
    moreover have "y < x" using 3 by (simp add: word_less_nat_alt)
    ultimately show ?thesis using bx Cons.hyps by (auto simp: algebra_simps)
  qed
qed

lemma leading_zeros8_bounds:
  assumes "b \<noteq> 0"
  shows "leading_zeros8 b \<le> 7" and "2 ^ (7 - leading_zeros8 b) \<le> unat b" and "unat b < 2 ^ (8 - leading_zeros8 b)"
proof -
  have pos: "0 < unat b" using assms by (simp add: unat_gt_0)
  have big: "unat b < 256" using unat_bound [of b] by simp
  show "leading_zeros8 b \<le> 7" using pos by (simp add: leading_zeros8_def word_le_nat_alt)
  show "2 ^ (7 - leading_zeros8 b) \<le> unat b" using pos by (simp add: leading_zeros8_def word_le_nat_alt)
  show "unat b < 2 ^ (8 - leading_zeros8 b)" using big by (simp add: leading_zeros8_def word_le_nat_alt)
qed

lemma leading_zeros8_zero [simp]: "leading_zeros8 0 = 8"
  by (simp add: leading_zeros8_def)

lemma digest_value_simps:
  "digest_value [] = 0"
  "digest_value (0 # bs) = 8 + digest_value bs"
  "b \<noteq> 0 \<Longrightarrow> digest_value (b # bs) = leading_zeros8 b"
  using leading_zeros8_bounds(1) [of b] by (auto simp: digest_value_def)

lemma digest_value_le: "digest_value bs \<le> 8 * length bs"
proof (induction bs)
  case Nil
  then show ?case by (simp add: digest_value_simps)
next
  case (Cons b bs)
  then show ?case using leading_zeros8_bounds(1) [of b] by (cases "b = 0") (auto simp: digest_value_simps)
qed

text \<open>The value is at least \<open>c\<close> exactly when the digest is below \<open>2\<close> to the bits left.\<close>

lemma digest_value_iff:
  "c \<le> 8 * length bs \<Longrightarrow> c \<le> digest_value bs \<longleftrightarrow> be_nat bs < 2 ^ (8 * length bs - c)"
proof (induction bs arbitrary: c)
  case Nil
  then show ?case by (simp add: digest_value_simps)
next
  case (Cons b bs)
  let ?n = "8 * length bs"
  have p: "256 ^ length bs = (2 :: nat) ^ ?n" by (simp add: power_mult)
  have r: "be_nat bs < 2 ^ ?n" using be_nat_bound [of bs] by (simp add: p)
  show ?case
  proof (cases "b = 0")
    case True
    show ?thesis
    proof (cases "c \<le> 8")
      case c: True
      have "(2 :: nat) ^ ?n \<le> 2 ^ (8 * length (b # bs) - c)" using c by (intro power_increasing) auto
      with r have "be_nat bs < 2 ^ (8 * length (b # bs) - c)" by (rule less_le_trans)
      then show ?thesis using True c by (simp add: digest_value_simps)
    next
      case False
      then show ?thesis using True Cons.IH [of "c - 8"] Cons.prems
        by (simp add: digest_value_simps) (metis (no_types, opaque_lifting) add.commute diff_diff_eq
            le_diff_conv nat_le_linear diff_add_inverse add_diff_inverse_nat not_less)
    qed
  next
    case False
    note lz = leading_zeros8_bounds [OF False]
    let ?v = "unat b * 2 ^ ?n + be_nat bs"
    have up: "?v < 2 ^ (8 - leading_zeros8 b) * 2 ^ ?n"
    proof -
      have "(unat b + 1) * 2 ^ ?n \<le> 2 ^ (8 - leading_zeros8 b) * 2 ^ ?n" using lz(3) by (intro mult_le_mono1) simp
      then show ?thesis using r by (simp add: algebra_simps)
    qed
    have lo: "2 ^ (7 - leading_zeros8 b) * 2 ^ ?n \<le> ?v"
      using mult_le_mono1 [OF lz(2), of "2 ^ ?n"] by linarith
    show ?thesis
    proof (cases "c \<le> leading_zeros8 b")
      case True
      have "(2 :: nat) ^ (8 - leading_zeros8 b) * 2 ^ ?n \<le> 2 ^ (8 * length (b # bs) - c)"
        unfolding power_add [symmetric] using True lz(1) by (intro power_increasing) auto
      then show ?thesis using up True False by (simp add: digest_value_simps p)
    next
      case c: False
      have "(2 :: nat) ^ (8 * length (b # bs) - c) \<le> 2 ^ (7 - leading_zeros8 b) * 2 ^ ?n"
        unfolding power_add [symmetric] using c lz(1) by (intro power_increasing) auto
      then show ?thesis using lo c False by (simp add: digest_value_simps p)
    qed
  qed
qed

lemma be_nat_append: "be_nat (xs @ ys) = be_nat xs * 256 ^ length ys + be_nat ys"
  by (induction xs) (simp_all add: algebra_simps power_add)

lemma be_nat_zeros [simp]: "be_nat (replicate n 0) = 0"
  by (induction n) simp_all

lemma be_nat_target:
  assumes "e < 256"
  shows "be_nat (stamp_target e) = 2 ^ e" and "length (stamp_target e) = 32"
proof -
  let ?k = "e div 8"
  have k: "?k < 32" using assms by simp
  have v: "unat (push_bit (e mod 8) 1 :: u8) = 2 ^ (e mod 8)"
  proof -
    have "e mod 8 < 8" by simp
    then consider "e mod 8 = 0" | "e mod 8 = 1" | "e mod 8 = 2" | "e mod 8 = 3" | "e mod 8 = 4"
      | "e mod 8 = 5" | "e mod 8 = 6" | "e mod 8 = 7" by linarith
    then show ?thesis by cases simp_all
  qed
  have "stamp_target e = replicate (31 - ?k) 0 @ push_bit (e mod 8) 1 # replicate ?k 0"
    unfolding stamp_target_def
    by (rule nth_equalityI) (use k in \<open>auto simp: nth_append nth_list_update nth_Cons'\<close>)
  then have "be_nat (stamp_target e) = 2 ^ (e mod 8) * 256 ^ ?k"
    by (simp only: be_nat_append be_nat.simps v be_nat_zeros length_replicate length_Cons)
  also have "\<dots> = 2 ^ (e mod 8 + 8 * ?k)" by (simp only: power_add power_mult) simp
  also have "e mod 8 + 8 * ?k = e" by (rule mod_mult_div_eq)
  finally show "be_nat (stamp_target e) = 2 ^ e" .
  show "length (stamp_target e) = 32" by (simp add: stamp_target_def)
qed

lemma verify_stamp_iff:
  assumes "sha_ok X" and "1 \<le> unat c" "unat c \<le> 256"
  shows "verify_stamp X w s c \<longleftrightarrow> length s = 32 \<and> be_nat (stamp_digest X w s) \<le> 2 ^ (256 - unat c)"
proof -
  have c: "c \<noteq> 0" "\<not> c > 256" using assms(2,3) by (auto simp: word_less_nat_alt)
  have l: "length (stamp_digest X w s) = 32" using assms(1) by (simp add: stamp_digest_def)
  note t = be_nat_target [of "256 - unat c"]
  have "stamp_digest X w s \<le> stamp_target (256 - unat c) \<longleftrightarrow>
      be_nat (stamp_digest X w s) \<le> 2 ^ (256 - unat c)"
    using bytes_le_be_nat [of "stamp_digest X w s" "stamp_target (256 - unat c)"] l t assms(2) by simp
  then show ?thesis using c by (auto simp: verify_stamp_def STAMP_SIZE_def)
qed

lemma stamp_value_iff:
  assumes "sha_ok X" and "c \<le> 256"
  shows "c \<le> unat (stamp_value X w s) \<longleftrightarrow> be_nat (stamp_digest X w s) < 2 ^ (256 - c)"
proof -
  have l: "length (stamp_digest X w s) = 32" using assms(1) by (simp add: stamp_digest_def)
  have "digest_value (stamp_digest X w s) \<le> 256" using digest_value_le [of "stamp_digest X w s"] l by simp
  then have "unat (stamp_value X w s) = digest_value (stamp_digest X w s)"
    by (simp add: stamp_value_def unat_of_nat take_bit_nat_eq_self)
  then show ?thesis using digest_value_iff [of c "stamp_digest X w s"] l assms(2) by simp
qed

text \<open>A stamp worth its cost is accepted; an accepted one is worth at least the cost less one, and less
  than the cost only when the digest is the target itself.\<close>

lemma verify_stamp_value:
  assumes "sha_ok X" and "1 \<le> unat c" "unat c \<le> 256" and "length s = 32"
  shows "unat c \<le> unat (stamp_value X w s) \<Longrightarrow> verify_stamp X w s c"
    and "verify_stamp X w s c \<Longrightarrow> unat c - 1 \<le> unat (stamp_value X w s)"
    and "verify_stamp X w s c \<Longrightarrow> unat c \<le> unat (stamp_value X w s) \<or>
      be_nat (stamp_digest X w s) = 2 ^ (256 - unat c)"
proof -
  note v = verify_stamp_iff [OF assms(1-3), of w s] and i = stamp_value_iff [OF assms(1), of _ w s]
  show "unat c \<le> unat (stamp_value X w s) \<Longrightarrow> verify_stamp X w s c"
    using v i [of "unat c"] assms by simp
  show "verify_stamp X w s c \<Longrightarrow> unat c - 1 \<le> unat (stamp_value X w s)"
  proof -
    assume "verify_stamp X w s c"
    then have "be_nat (stamp_digest X w s) \<le> 2 ^ (256 - unat c)" using v by simp
    also have "\<dots> < 2 ^ (256 - (unat c - 1))" using assms by (intro power_strict_increasing) auto
    finally show ?thesis using i [of "unat c - 1"] assms by simp
  qed
  show "verify_stamp X w s c \<Longrightarrow> unat c \<le> unat (stamp_value X w s) \<or>
      be_nat (stamp_digest X w s) = 2 ^ (256 - unat c)"
    using v i [of "unat c"] assms by auto
qed

section \<open>The policy\<close>

lemma verify_optional_none [simp]:
  "verify_optional_stamp X h s None ts = Inr NotRequired"
  "verify_optional_stamp X h s (Some 0) ts = Inr NotRequired"
  by (simp_all add: verify_optional_stamp_def)

text \<open>Without tickets, what the policy asks for: nothing when the cost is zero or not set, else a stamp of 32
  bytes whose digest over the message's own work block is within the target.\<close>

lemma verify_optional_iff:
  assumes "sha_ok X"
  shows "(\<exists>v. verify_optional_stamp X h s cost [] = Inr v) \<longleftrightarrow>
    (\<forall>c. cost = Some c \<and> c \<noteq> 0 \<longrightarrow> unat c \<le> 256 \<and>
      (\<exists>st w. s = Some st \<and> length st = 32 \<and> stamp_workblock X h DELIVERY_WORKBLOCK_ROUNDS = Inr w \<and>
         be_nat (stamp_digest X w st) \<le> 2 ^ (256 - unat c)))"
proof (cases "\<exists>c. cost = Some c \<and> c \<noteq> 0")
  case True
  then obtain c where c: "cost = Some c" "c \<noteq> 0" by blast
  then have p: "1 \<le> unat c" by (simp add: Suc_le_eq unat_gt_0)
  have big: "verify_stamp X w st c \<Longrightarrow> unat c \<le> 256" for w st
    by (auto simp: verify_stamp_def word_less_nat_alt split: if_splits)
  have v: "verify_stamp X w st c \<longleftrightarrow> unat c \<le> 256 \<and> length st = 32 \<and> be_nat (stamp_digest X w st) \<le> 2 ^ (256 - unat c)" for w st
    using verify_stamp_iff [OF assms p, of w st] big by blast
  have "(\<exists>v. verify_optional_stamp X h s cost [] = Inr v) \<longleftrightarrow>
      (\<exists>st w. s = Some st \<and> stamp_workblock X h DELIVERY_WORKBLOCK_ROUNDS = Inr w \<and> verify_stamp X w st c)"
    using c by (cases s) (auto simp: verify_optional_stamp_def rbind_Inr_iff)
  then show ?thesis by (auto simp: c v)
next
  case False
  then show ?thesis by (cases cost) auto
qed

lemma verify_optional_required:
  assumes "verify_optional_stamp X h s (Some c) ts = Inr v" and "c \<noteq> 0"
  obtains st where "s = Some st"
    and "(\<exists>t \<in> set ts. length st = 16 \<and> truncated_hash X (t @ h) = st) \<or>
      (\<exists>w. stamp_workblock X h DELIVERY_WORKBLOCK_ROUNDS = Inr w \<and> verify_stamp X w st c)"
proof -
  obtain st where s: "s = Some st"
    using assms by (auto simp: verify_optional_stamp_def rbind_Inr_iff)
  show thesis
    using assms that [OF s]
    by (auto simp: verify_optional_stamp_def s rbind_Inr_iff list_ex_iff verify_ticket_stamp_def
        TICKET_STAMP_SIZE_def split: if_splits)
qed

end
