(* ===== verification/Lxmf_Router.thy ===== *)
theory Lxmf_Router
  imports Lxmf_Message Lxmf_Stamp Node_Send
begin

text \<open>
  reticulum-lxmf: router.rs, which delivers messages over a node and accepts received ones for the
  local destination, and propagation.rs, the containers uploaded to propagation nodes. The readers of
  propagation.rs repeat those of message.rs line for line; here they are the same definitions.
\<close>

section \<open>The router\<close>

definition delivery_destination_hash :: "ext \<Rightarrow> public_identity \<Rightarrow> bytes" where
  "delivery_destination_hash X p =
     destination_hash X (name_hash X (str ''lxmf'') [str ''delivery'']) (pub_hash X p)"

record lxmf_router =
  lr_local_destination :: bytes
  lr_source_identities :: "(bytes, public_identity) btree"
  lr_stamp_cost :: "u16 option"

definition router_new :: "ext \<Rightarrow> public_identity \<Rightarrow> lxmf_router" where
  "router_new X local_identity = \<lparr>lr_local_destination = delivery_destination_hash X local_identity,
     lr_source_identities = [], lr_stamp_cost = None\<rparr>"

definition remember_source :: "ext \<Rightarrow> public_identity \<Rightarrow> lxmf_router \<Rightarrow> bytes \<times> lxmf_router" where
  "remember_source X source router =
     (let destination = delivery_destination_hash X source
      in (destination, router\<lparr>lr_source_identities :=
            bt_insert destination source (lr_source_identities router)\<rparr>))"

definition set_stamp_cost :: "u16 option \<Rightarrow> lxmf_router \<Rightarrow> lxmf_router" where
  "set_stamp_cost cost router = router\<lparr>lr_stamp_cost := cost\<rparr>"

definition unpack_for_local_destination :: "ext \<Rightarrow> bytes \<Rightarrow> lxmf_router \<Rightarrow> core_error + lxmf_message" where
  "unpack_for_local_destination X bs router =
     rbind (lxmf_unpack X bs) (\<lambda>m.
     if lm_destination m \<noteq> lr_local_destination router then Inl InvalidField
     else rbind (ok_or InvalidField (bt_get (lm_source m) (lr_source_identities router))) (\<lambda>source.
          rbind (lxmf_verify X m source) (\<lambda>_.
          rbind (verify_optional_stamp X (lm_hash m) (lm_stamp m) (lr_stamp_cost router) []) (\<lambda>_.
          Inr m))))"

definition send_direct ::
    "ext \<Rightarrow> 'r entropy \<Rightarrow> bytes \<Rightarrow> lxmf_message \<Rightarrow> 'r \<Rightarrow> node \<Rightarrow> (node_error + unit) \<times> node \<times> 'r" where
  "send_direct X E link_id m r nd = link_send X E link_id (lxmf_pack X m) r nd"

definition receive_direct :: "ext \<Rightarrow> bytes \<Rightarrow> lxmf_router \<Rightarrow> core_error + lxmf_message" where
  "receive_direct X bs router = unpack_for_local_destination X bs router"

definition send_opportunistic ::
    "ext \<Rightarrow> 'r entropy \<Rightarrow> lxmf_message \<Rightarrow> 'r \<Rightarrow> node \<Rightarrow> (node_error + unit) \<times> node \<times> 'r" where
  "send_opportunistic X E m r nd =
     (let packed = lxmf_pack X m in send_message X E (lm_destination m) (drop 16 packed) r nd)"

definition receive_opportunistic :: "ext \<Rightarrow> bytes \<Rightarrow> bytes \<Rightarrow> lxmf_router \<Rightarrow> core_error + lxmf_message" where
  "receive_opportunistic X destination bs router =
     (if destination \<noteq> lr_local_destination router then Inl InvalidField
      else unpack_for_local_destination X (destination @ bs) router)"

definition send_propagation_upload ::
    "ext \<Rightarrow> 'r entropy \<Rightarrow> bytes \<Rightarrow> bytes \<Rightarrow> 'r \<Rightarrow> node \<Rightarrow> (node_error + unit) \<times> node \<times> 'r" where
  "send_propagation_upload X E link_id propagation_packed r nd = link_send X E link_id propagation_packed r nd"

section \<open>Propagation containers\<close>

record propagation_upload =
  pu_transient_id :: bytes
  pu_lxmf_data :: bytes
  pu_packed :: bytes

record propagation_container =
  pc_timestamp :: u64
  pc_messages :: "bytes list"

definition propagation_destination_hash :: "ext \<Rightarrow> public_identity \<Rightarrow> bytes" where
  "propagation_destination_hash X p =
     destination_hash X (name_hash X (str ''lxmf'') [str ''propagation'']) (pub_hash X p)"

fun pack_messages :: "ext \<Rightarrow> bytes list \<Rightarrow> bytes" where
  "pack_messages X [] = []"
| "pack_messages X (m # ms) = x_wr_bin X m @ pack_messages X ms"

definition pack_propagation_container :: "ext \<Rightarrow> u64 \<Rightarrow> bytes list \<Rightarrow> bytes" where
  "pack_propagation_container X timestamp messages =
     x_wr_array_len X 2 @ x_wr_f64 X timestamp
     @ x_wr_array_len X (if length messages < 2 ^ 32 then word_of_nat (length messages) else - 1)
     @ pack_messages X messages"

definition build_propagation_upload ::
    "ext \<Rightarrow> 'r entropy \<Rightarrow> lxmf_message \<Rightarrow> public_identity \<Rightarrow> u64 \<Rightarrow> bytes option \<Rightarrow> 'r
      \<Rightarrow> (core_error + propagation_upload) \<times> 'r" where
  "build_propagation_upload X E m recipient timestamp stamp r =
     (if \<not> f64_is_finite timestamp then (Inl InvalidField, r)
      else let (ephemeral, r) = E r 32;
               (iv, r) = E r 16;
               packed_message = lxmf_pack X m;
               encrypted = token_encrypt X recipient (drop DESTINATION_LENGTH packed_message) ephemeral iv;
               unstamped = lm_destination m @ encrypted;
               transient_id = full_hash X unstamped;
               lxmf_data = unstamped @ (case stamp of Some s \<Rightarrow> s | None \<Rightarrow> []);
               packed = pack_propagation_container X timestamp [lxmf_data]
           in (Inr \<lparr>pu_transient_id = transient_id, pu_lxmf_data = lxmf_data, pu_packed = packed\<rparr>, r))"

definition prop_read_array_len :: "bytes \<Rightarrow> nat \<Rightarrow> core_error + (u32 \<times> nat)" where
  "prop_read_array_len input pos =
     rbind (lx_take_byte input pos) (\<lambda>(marker, pos).
       if 0x90 \<le> marker \<and> marker \<le> 0x9F then Inr (ucast (marker AND 0x0F), pos)
       else if marker = 0xDC then rbind (lx_read_u16 input pos) (\<lambda>(v, pos). Inr (ucast v, pos))
       else if marker = 0xDD then lx_read_u32 input pos
       else Inl InvalidField)"

fun read_messages :: "bytes \<Rightarrow> nat \<Rightarrow> nat \<Rightarrow> bytes list \<Rightarrow> core_error + (bytes list \<times> nat)" where
  "read_messages input 0 pos messages = Inr (messages, pos)"
| "read_messages input (Suc count) pos messages =
     rbind (lx_read_binary input pos) (\<lambda>(m, pos). read_messages input count pos (messages @ [m]))"

definition unpack_propagation_container :: "bytes \<Rightarrow> core_error + propagation_container" where
  "unpack_propagation_container bs =
     rbind (prop_read_array_len bs 0) (\<lambda>(n, pos).
     if n \<noteq> 2 then Inl InvalidField
     else rbind (lx_take_byte bs pos) (\<lambda>(b, pos).
     if b \<noteq> 0xCB then Inl InvalidField
     else rbind (lx_read_u64 bs pos) (\<lambda>(timestamp, pos).
     if \<not> f64_is_finite timestamp then Inl InvalidField
     else rbind (prop_read_array_len bs pos) (\<lambda>(count, pos).
     if unat count > length bs then Inl InvalidField
     else rbind (read_messages bs (unat count) pos []) (\<lambda>(messages, pos).
     if pos \<noteq> length bs then Inl InvalidField
     else Inr \<lparr>pc_timestamp = timestamp, pc_messages = messages\<rparr>)))))"

definition decrypt_propagated_message :: "ext \<Rightarrow> identity \<Rightarrow> bytes \<Rightarrow> nat \<Rightarrow> core_error + lxmf_message" where
  "decrypt_propagated_message X recipient lxmf_data stamp_length =
     (if length lxmf_data < stamp_length then Inl Truncated
      else let encrypted_end = length lxmf_data - stamp_length in
        if encrypted_end \<le> DESTINATION_LENGTH then Inl Truncated
        else rbind (ok_or Truncated (try_array 16 (take DESTINATION_LENGTH lxmf_data))) (\<lambda>destination.
          if destination \<noteq> delivery_destination_hash X (id_public X recipient) then Inl InvalidField
          else rbind (token_decrypt X recipient (sub DESTINATION_LENGTH encrypted_end lxmf_data)) (\<lambda>decrypted.
               lxmf_unpack X (destination @ decrypted))))"

section \<open>What the router accepts\<close>

lemma router_accepts_iff:
  "unpack_for_local_destination X bs router = Inr m \<longleftrightarrow>
     lxmf_unpack X bs = Inr m \<and> lm_destination m = lr_local_destination router \<and>
     (\<exists>source. bt_get (lm_source m) (lr_source_identities router) = Some source \<and>
        lxmf_verify X m source = Inr ()) \<and>
     (\<exists>v. verify_optional_stamp X (lm_hash m) (lm_stamp m) (lr_stamp_cost router) [] = Inr v)"
  by (auto simp: unpack_for_local_destination_def rbind_Inr_iff)

lemma remember_source_get:
  "bt_get (delivery_destination_hash X p) (lr_source_identities (snd (remember_source X p router))) = Some p"
  by (simp add: remember_source_def bt_simps Let_def)

lemma length_delivery [simp]: "sha_ok X \<Longrightarrow> length (delivery_destination_hash X p) = 16"
  by (simp add: delivery_destination_hash_def)

text \<open>A message built by a remembered source reaches its destination's router unchanged.\<close>

lemma router_delivers:
  assumes X: "crypto_ok X" "rmp_ok X"
    and known: "bt_get src (lr_source_identities router) = Some (id_public X i)"
    and dest: "dst = lr_local_destination router" "length dst = 16" "length src = 16"
    and cost: "lr_stamp_cost router = None"
    and parts: "f64_is_finite t" "length ti < 2 ^ 32" "length co < 2 ^ 32" "length f < 2 ^ 62" "fields_ok f"
  shows "receive_direct X (lxmf_pack X (lxmf_build X i dst src t ti co f)) router =
    Inr (lxmf_build X i dst src t ti co f)"
proof -
  note ok = crypto_okD [OF X(1)]
  let ?m = "lxmf_build X i dst src t ti co f"
  have f: "lm_destination ?m = dst" "lm_source ?m = src" "lm_stamp ?m = None" "message_ok ?m"
    using dest parts ok by (simp_all add: lxmf_build_def message_ok_def Let_def)
  have "lm_hash ?m = full_hash X (hashed_part (lm_destination ?m) (lm_source ?m) (lm_payload X ?m))"
    using f lxmf_build_hash [of X i dst src t ti co f] by simp
  then have "lxmf_unpack X (lxmf_pack X ?m) = Inr ?m" by (rule lxmf_unpack_pack [OF X(2) f(4)])
  then show ?thesis
    using f known dest cost lxmf_verify_build [OF ok(3)]
    by (simp add: receive_direct_def unpack_for_local_destination_def)
qed

lemma lxmf_pack_split: "length (lm_destination m) = 16 \<Longrightarrow> lm_destination m @ drop 16 (lxmf_pack X m) = lxmf_pack X m"
  by (simp add: lxmf_pack_def)

section \<open>Containers\<close>

lemma read_messages_pack:
  assumes X: "rmp_ok X" and big: "length (a @ pack_messages X ms @ b) < 2 ^ 64" and ms: "\<forall>m \<in> set ms. length m < 2 ^ 32"
  shows "read_messages (a @ pack_messages X ms @ b) (length ms) (length a) acc =
    Inr (acc @ ms, length a + length (pack_messages X ms))"
  using big ms
proof (induction ms arbitrary: a acc)
  case Nil
  then show ?case by simp
next
  case (Cons m ms)
  have "lx_read_binary (a @ x_wr_bin X m @ pack_messages X ms @ b) (length a) = Inr (m, length a + length (x_wr_bin X m))"
    using Cons.prems by (intro lx_read_binary_wr [OF X]) simp_all
  then show ?case
    using Cons.IH [of "a @ x_wr_bin X m" "acc @ [m]"] Cons.prems by simp
qed

lemma pack_messages_length: "rmp_ok X \<Longrightarrow> \<forall>m \<in> set ms. length m < 2 ^ 32 \<Longrightarrow> length ms \<le> length (pack_messages X ms)"
proof (induction ms)
  case Nil
  then show ?case by simp
next
  case (Cons m ms)
  have "1 \<le> length (x_wr_bin X m)" using Cons.prems by (simp add: rmp_write mp_bin_def)
  with Cons show ?case by simp
qed

text \<open>An array header read back at its position.\<close>

lemma prop_read_array_wr:
  assumes X: "rmp_ok X" and big: "length (a @ x_wr_array_len X n @ b) < 2 ^ 64" and p: "p = length a"
  shows "prop_read_array_len (a @ x_wr_array_len X n @ b) p = Inr (n, p + length (x_wr_array_len X n))"
proof -
  have w: "x_wr_array_len X n = mp_array (unat n)" using rmp_write(1) [OF X] .
  consider "unat n < 16" | "16 \<le> unat n" "unat n < 65536" | "65536 \<le> unat n" by linarith
  then show ?thesis
  proof cases
    case 1
    let ?k = "ucast n :: u8"
    have u: "unat ?k = unat n" using 1 by (simp add: unsigned_ucast_eq take_bit_nat_eq_self)
    have k: "?k < 16" using 1 u by (simp add: word_less_nat_alt)
    then have r: "0x90 \<le> 0x90 + ?k" "0x90 + ?k \<le> 0x9F"
      using u 1 by (simp_all add: word_le_nat_alt word_less_nat_alt unat_word_ariths)
    have m: "unat n < 16" "(144 + unat n) mod 16 = unat n" using 1 by presburger+
    have "(0x90 + ?k) AND 0x0F = ?k"
    proof -
      have "(0x90 + ?k) AND 0x0F = take_bit 4 (0x90 + ?k)" by (simp add: take_bit_eq_mask mask_eq_exp_minus_1)
      also have "\<dots> = ?k"
        using u m by (simp add: word_unat_eq_iff unsigned_take_bit_eq unat_word_ariths take_bit_eq_mod)
      finally show ?thesis .
    qed
    moreover have "(ucast ?k :: u32) = n"
      using 1 by (simp add: word_unat_eq_iff unsigned_ucast_eq unsigned_take_bit_eq take_bit_nat_eq_self)
    ultimately show ?thesis using 1 p r
      by (simp add: w mp_array_def prop_read_array_len_def lx_take_byte_def nth_append)
  next
    case 2
    have "(ucast (word_of_nat (unat n) :: u16) :: u32) = n"
      using 2 by (simp add: word_unat_eq_iff unsigned_ucast_eq unsigned_take_bit_eq take_bit_nat_eq_self unat_of_nat)
    then show ?thesis using 2 p big
      by (simp add: w mp_array_def prop_read_array_len_def lx_take_byte_def lx_read_u16_def nth_append lx_take_def
          get_range_def sub_def)
  next
    case 3
    then show ?thesis using p big
      by (simp add: w mp_array_def prop_read_array_len_def lx_take_byte_def lx_read_u32_def nth_append lx_take_def
          get_range_def sub_def)
  qed
qed

lemma container_roundtrip:
  assumes X: "rmp_ok X" and fin: "f64_is_finite t" and ms: "\<forall>m \<in> set ms. length m < 2 ^ 32"
    and n: "length ms < 2 ^ 32" and big: "length (pack_propagation_container X t ms) < 2 ^ 64"
  shows "unpack_propagation_container (pack_propagation_container X t ms) =
    Inr \<lparr>pc_timestamp = t, pc_messages = ms\<rparr>"
proof -
  let ?c = "word_of_nat (length ms) :: u32"
  let ?all = "pack_propagation_container X t ms"
  have two: "x_wr_array_len X 2 = [0x92]" by (simp add: rmp_write(1) [OF X] mp_array_def)
  have f64: "x_wr_f64 X t = 0xCB # be_bytes 8 t" using rmp_write(7) [OF X] by (simp add: mp_f64_def)
  have c: "unat ?c = length ms" using n by (simp add: unat_of_nat take_bit_nat_eq_self)
  let ?h = "[0x92, 0xCB] @ be_bytes 8 t"
  have all: "?all = ?h @ x_wr_array_len X ?c @ pack_messages X ms"
    using n two f64 by (simp add: pack_propagation_container_def)
  have bigall: "length (?h @ x_wr_array_len X ?c @ pack_messages X ms) < 2 ^ 64" using big by (simp only: all)
  have arr: "prop_read_array_len ?all 0 = Inr (2, 1)"
    using prop_read_array_wr [OF X, of "[]" 2 "drop 1 ?all" 0] big two all by simp
  have byte: "lx_take_byte ?all 1 = Inr (0xCB, 2)" by (simp add: all lx_take_byte_def)
  have time: "lx_read_u64 ?all 2 = Inr (t, 10)"
    using big unfolding all by (simp add: lx_read_u64_def lx_take_def get_range_def sub_def)
  have cnt: "prop_read_array_len ?all 10 = Inr (?c, 10 + length (x_wr_array_len X ?c))"
    unfolding all by (rule prop_read_array_wr [OF X bigall]) simp
  have "read_messages ?all (length ms) (10 + length (x_wr_array_len X ?c)) [] = Inr (ms, length ?all)"
    using read_messages_pack [OF X _ ms, of "?h @ x_wr_array_len X ?c" "[]" "[]"] bigall
    unfolding all by (simp only: append_assoc append_Nil append_Nil2 length_append) simp
  moreover have "length ms \<le> length ?all"
    using pack_messages_length [OF X ms] unfolding all by simp
  ultimately show ?thesis
    unfolding unpack_propagation_container_def arr rbind.simps case_prod_conv byte time cnt c
    using fin by simp
qed

text \<open>The recipient recovers the message from an uploaded entry, its stamp cut off.\<close>

lemma propagated_message_recovered:
  assumes X: "crypto_ok X" "rmp_ok X" and E: "entropy_ok E"
    and up: "build_propagation_upload X E m (id_public X i) t st r = (Inr u, r')"
    and m: "message_ok m" "lm_destination m = delivery_destination_hash X (id_public X i)"
      "lm_hash m = full_hash X (hashed_part (lm_destination m) (lm_source m) (lm_payload X m))"
  shows "decrypt_propagated_message X i (pu_lxmf_data u) (case st of None \<Rightarrow> 0 | Some s \<Rightarrow> length s) = Inr m"
proof -
  obtain eph r1 where e: "E r 32 = (eph, r1)" by fastforce
  obtain iv r2 where iv: "E r1 16 = (iv, r2)" by fastforce
  have liv: "length iv = 16" using entropy_filled [OF E iv] .
  let ?p = "drop 16 (lxmf_pack X m)"
  let ?enc = "token_encrypt X (id_public X i) ?p eph iv"
  let ?st = "case st of None \<Rightarrow> [] | Some s \<Rightarrow> s"
  have u: "pu_lxmf_data u = lm_destination m @ ?enc @ ?st"
    using up by (auto simp: build_propagation_upload_def e iv Let_def DESTINATION_LENGTH_def split: if_splits)
  have dec: "token_decrypt X i ?enc = Inr ?p" by (rule token_decrypt_encrypt [OF X(1) liv])
  then have ne: "96 \<le> length ?enc" "?enc \<noteq> []" by (auto simp: token_decrypt_def split: if_splits)
  have ld: "length (lm_destination m) = 16" using m(1) by (simp add: message_ok_def)
  have ls: "length ?st = (case st of None \<Rightarrow> 0 | Some s \<Rightarrow> length s)" by (cases st) simp_all
  have "sub 16 (16 + length ?enc) (pu_lxmf_data u) = ?enc"
    unfolding u using ld by (intro sub_appendI) simp_all
  moreover have "length (pu_lxmf_data u) - length ?st = 16 + length ?enc" "take 16 (pu_lxmf_data u) = lm_destination m"
    "length ?st \<le> length (pu_lxmf_data u)"
    using ld by (simp_all add: u)
  ultimately show ?thesis
    using ls dec ne m ld lxmf_unpack_pack [OF X(2) m(1) m(3)] lxmf_pack_split [OF ld, of X]
    by (simp add: decrypt_propagated_message_def DESTINATION_LENGTH_def Let_def)
qed

text \<open>An identity with another destination address is refused before anything is decrypted.\<close>

lemma propagated_message_foreign:
  assumes up: "build_propagation_upload X E m p t st r = (Inr u, r')" and ld: "length (lm_destination m) = 16"
    and ne: "\<And>eph iv d. token_encrypt X p d eph iv \<noteq> []"
    and j: "delivery_destination_hash X (id_public X j) \<noteq> lm_destination m"
  shows "decrypt_propagated_message X j (pu_lxmf_data u) (case st of None \<Rightarrow> 0 | Some s \<Rightarrow> length s) = Inl InvalidField"
proof -
  let ?st = "case st of None \<Rightarrow> [] | Some s \<Rightarrow> s"
  obtain enc where u: "pu_lxmf_data u = lm_destination m @ enc @ ?st" "enc \<noteq> []"
    using up ne by (auto simp: build_propagation_upload_def Let_def DESTINATION_LENGTH_def split: if_splits prod.splits)
  have ls: "length ?st = (case st of None \<Rightarrow> 0 | Some s \<Rightarrow> length s)" by (cases st) simp_all
  have "length (pu_lxmf_data u) - length ?st = 16 + length enc" "take 16 (pu_lxmf_data u) = lm_destination m"
    "length ?st \<le> length (pu_lxmf_data u)" "0 < length enc"
    using ld u by simp_all
  then show ?thesis using ls j ld
    by (simp add: decrypt_propagated_message_def DESTINATION_LENGTH_def Let_def try_array_def)
qed

end
