(* ===== verification/Lxmf_Properties.thy ===== *)
theory Lxmf_Properties
  imports Lxmf_Router Toy_Ext
begin

text \<open>
  The properties of the messaging layer (reticulum-lxmf): the wire form of messages, the router that
  accepts them, propagation containers and stamps.
\<close>

section \<open>Messages\<close>

definition demo_message :: lxmf_message where
  "demo_message = lxmf_build toy_ext (from_private_bytes [1] [2]) (replicate 16 3) (replicate 16 4)
     0x3FF0000000000000 [104, 105] [1, 2, 3] [0x80]"

lemma empty_fields: "fields_ok [0x80]"
proof -
  have "skip_value (Suc 63) [0x80] 0 = Inr 1"
    unfolding skip_value.simps by (simp add: skip_marker_def lx_take_byte_def)
  then show ?thesis by (simp add: fields_ok_def map_marker_def)
qed

lemma one_is_finite: "f64_is_finite 0x3FF0000000000000"
  by (simp add: f64_is_finite_def)

lemma demo_message_simps:
  "lm_destination demo_message = replicate 16 3" "lm_source demo_message = replicate 16 4"
  "lm_title demo_message = [104, 105]" "lm_content demo_message = [1, 2, 3]"
  "lm_fields demo_message = [0x80]" "lm_stamp demo_message = None"
  "lm_timestamp demo_message = 0x3FF0000000000000"
  by (simp_all add: demo_message_def lxmf_build_def Let_def)

lemma demo_message_ok: "message_ok demo_message"
  using crypto_okD(3) [OF toy_ok] empty_fields one_is_finite
  by (simp add: message_ok_def demo_message_simps) (simp add: demo_message_def lxmf_build_def Let_def)

text \<open>C30: LXMF messages survive the wire: every well-formed message whose hash is the hash of its
  parts unpacks from its packed form to itself, with or without a stamp; and the hash an unpacked
  message carries is always recomputed from its destination, source and payload, never read.\<close>

theorem lxmf_roundtrip:
  assumes "rmp_ok X"
  shows "(message_ok m \<and> lm_hash m = full_hash X (hashed_part (lm_destination m) (lm_source m) (lm_payload X m)) \<longrightarrow>
      lxmf_unpack X (lxmf_pack X m) = Inr m) \<and>
    (lxmf_unpack X bs = Inr m' \<longrightarrow>
      lm_hash m' = full_hash X (hashed_part (lm_destination m') (lm_source m') (lm_payload X m')))"
  using lxmf_unpack_pack [OF assms] lxmf_unpack_hash by blast

theorem lxmf_roundtrip_witness: "lxmf_unpack toy_ext (lxmf_pack toy_ext demo_message) = Inr demo_message"
  using lxmf_roundtrip [OF toy_rmp_ok, of demo_message] demo_message_ok
    lxmf_build_hash [of toy_ext "from_private_bytes [1] [2]" "replicate 16 3" "replicate 16 4"
      "0x3FF0000000000000" "[104, 105]" "[1, 2, 3]" "[0x80]"]
  by (simp add: demo_message_def lxmf_build_def Let_def)

text \<open>The reader of message fields terminates within its input whatever the bytes claim: a value
  skipped ends strictly later and inside the input, and a collection that claims n values can only be
  skipped when the input has at least n bytes.\<close>

theorem skip_value_within_input:
  "(skip_value depth input pos = Inr pos' \<longrightarrow> pos < pos' \<and> pos' \<le> length input) \<and>
   (skip_values (skip_value depth input) n pos = Inr pos' \<longrightarrow> n \<le> length input)"
  using skip_value_adv skip_values_bounded by blast

theorem skip_value_within_input_witness:
  "skip_value 64 [0x80] 0 = Inr 1 \<and> (0 :: nat) < 1 \<and> 1 \<le> length [0x80 :: u8]"
proof -
  have "skip_value 64 [0x80] 0 = Inr 1" using empty_fields by (simp add: fields_ok_def)
  then show ?thesis using skip_value_within_input [of 64 "[0x80]" 0 1] by simp
qed

section \<open>The router\<close>

text \<open>C26: The router accepts exactly the bytes it should, as exactly the message they spell: at least 96 bytes,
  the destination in the first 16 (the local one), the source in the next 16 (a remembered one), the
  signature in the next 64, then a payload that decodes to the message's time, title, content, fields and
  stamp; the source's key verifies the signature over the hashed part and its hash; and when the router
  requires a nonzero cost, the message carries a stamp of 32 bytes whose SHA-256 over the message's own work
  block of 3000 rounds is at most 2^(256 - cost), and the cost is at most 256. Without a required cost any
  stamp, or none, will do.\<close>

theorem router_accepts_exactly:
  assumes "sha_ok X"
  shows "receive_direct X bs router = Inr m \<longleftrightarrow>
    96 \<le> length bs \<and> lm_destination m = take 16 bs \<and> lm_source m = take 16 (drop 16 bs) \<and> lm_signature m = take 64 (drop 32 bs) \<and>
    (\<exists>d. decode_payload (drop 96 bs) = Inr d \<and> lm_timestamp m = dp_timestamp d \<and> lm_title m = dp_title d \<and>
       lm_content m = dp_content d \<and> lm_fields m = dp_fields d \<and> lm_stamp m = dp_stamp d) \<and>
    lm_hash m = full_hash X (hashed_part (lm_destination m) (lm_source m) (lm_payload X m)) \<and>
    lm_destination m = lr_local_destination router \<and>
    (\<exists>source. bt_get (lm_source m) (lr_source_identities router) = Some source \<and> x_ed25519_key_ok X (sig_pub source) \<and>
       x_ed25519_verify X (sig_pub source)
         (hashed_part (lm_destination m) (lm_source m) (lm_payload X m) @ lm_hash m) (lm_signature m)) \<and>
    (\<forall>cost. lr_stamp_cost router = Some cost \<and> cost \<noteq> 0 \<longrightarrow> unat cost \<le> 256 \<and>
       (\<exists>stamp w. lm_stamp m = Some stamp \<and> length stamp = 32 \<and> stamp_workblock X (lm_hash m) 3000 = Inr w \<and>
          be_nat (x_sha256 X (w @ stamp)) \<le> 2 ^ (256 - unat cost)))"
  unfolding receive_direct_def router_accepts_iff lxmf_verify_Inr verify_optional_iff [OF assms] lxmf_unpack_iff
    stamp_digest_def DELIVERY_WORKBLOCK_ROUNDS_def
  by auto

text \<open>A built message is accepted by a router that asks for no stamp, so the bytes have the form stated.\<close>

theorem router_accepts_exactly_witness:
  "\<exists>bs router m. receive_direct toy_ext bs router = Inr m \<and> lm_content m = [1, 2, 3] \<and>
     lm_destination m = take 16 bs \<and> lm_signature m = take 64 (drop 32 bs)"
proof -
  let ?s = "from_private_bytes [1] [2]"
  let ?p = "id_public toy_ext (from_private_bytes [3] [4])"
  let ?m = "lxmf_build toy_ext ?s (delivery_destination_hash toy_ext ?p)
      (delivery_destination_hash toy_ext (id_public toy_ext ?s)) 0x3FF0000000000000 [104, 105] [1, 2, 3] [0x80]"
  let ?r = "snd (remember_source toy_ext (id_public toy_ext ?s) (router_new toy_ext ?p))"
  have "receive_direct toy_ext (lxmf_pack toy_ext ?m) ?r = Inr ?m"
    by (rule router_delivers [OF toy_ok toy_rmp_ok])
      (use one_is_finite empty_fields crypto_okD(1) [OF toy_ok] in
        \<open>simp_all add: remember_source_get, simp_all add: remember_source_def router_new_def Let_def\<close>)
  moreover have "lm_content ?m = [1, 2, 3]" by (simp add: lxmf_build_def Let_def)
  ultimately obtain bs r m where a: "receive_direct toy_ext bs r = Inr m" "lm_content m = [1, 2, 3]" by blast
  then show ?thesis using iffD1 [OF router_accepts_exactly [OF crypto_okD(1) [OF toy_ok]] a(1)] by blast
qed

text \<open>A message built for the router's destination by a remembered source is delivered: packed,
  sent over a link and received, it comes out as it was built.\<close>

theorem router_delivers_message:
  assumes "crypto_ok X" "rmp_ok X"
    and "router = snd (remember_source X (id_public X sender) (router_new X receiver))"
    and "m = lxmf_build X sender (delivery_destination_hash X receiver)
      (delivery_destination_hash X (id_public X sender)) t title content f"
    and "f64_is_finite t" "length title < 2 ^ 32" "length content < 2 ^ 32" "length f < 2 ^ 62" "fields_ok f"
  shows "receive_direct X (lxmf_pack X m) router = Inr m"
  unfolding assms(4)
  by (rule router_delivers [OF assms(1,2)])
    (use assms(3,5-9) crypto_okD(1) [OF assms(1)] in
      \<open>simp_all add: remember_source_get, simp_all add: remember_source_def router_new_def Let_def\<close>)

theorem router_delivers_message_witness:
  "\<exists>router m. receive_direct toy_ext (lxmf_pack toy_ext m) router = Inr m \<and> lm_content m = [1, 2, 3]"
proof -
  let ?s = "from_private_bytes [1] [2]"
  let ?p = "id_public toy_ext (from_private_bytes [3] [4])"
  let ?m = "lxmf_build toy_ext ?s (delivery_destination_hash toy_ext ?p)
      (delivery_destination_hash toy_ext (id_public toy_ext ?s)) 0x3FF0000000000000 [104, 105] [1, 2, 3] [0x80]"
  have "lm_content ?m = [1, 2, 3]" by (simp add: lxmf_build_def Let_def)
  then show ?thesis
    using router_delivers_message [OF toy_ok toy_rmp_ok refl refl one_is_finite, of "[104, 105]" "[1, 2, 3]" "[0x80]" ?s ?p]
      empty_fields by auto
qed

lemma upload_unpacks:
  assumes X: "rmp_ok X" and up: "build_propagation_upload X E m p t st r = (Inr u, r')"
    and len: "length (pu_lxmf_data u) < 2 ^ 32"
  shows "unpack_propagation_container (pu_packed u) = Inr \<lparr>pc_timestamp = t, pc_messages = [pu_lxmf_data u]\<rparr>"
proof -
  have u: "f64_is_finite t" "pu_packed u = pack_propagation_container X t [pu_lxmf_data u]"
    using up by (auto simp: build_propagation_upload_def Let_def split: if_splits prod.splits)
  have "length (pu_packed u) \<le> 10 + 1 + (length (pu_lxmf_data u) + 5)"
    using length_wr_bin [OF X len]
    by (simp add: u(2) pack_propagation_container_def rmp_write(1,7) [OF X] mp_array_def mp_f64_def)
  then have "length (pu_packed u) < 2 ^ 64" using len by simp
  then show ?thesis using container_roundtrip [OF X u(1), of "[pu_lxmf_data u]"] len u(2) by simp
qed

lemma length_token_encrypt:
  assumes X: "crypto_ok X" and iv: "length iv = 16"
  shows "length (token_encrypt X p d eph iv) = 16 * (length d div 16) + 96"
proof -
  note ok = crypto_okD [OF X]
  obtain hk ak where k: "derive_keys X (x_x25519_dh X eph (enc_pub p)) (pub_hash X p) = (hk, ak)" by fastforce
  obtain mac where "x_hmac X hk = Some mac" "\<And>m. length (mac m) = 32" using hmac_Some [OF ok(6)] by metis
  then show ?thesis using ok iv by (simp add: token_encrypt_def Let_def k seal_parts_Some)
qed

lemma token_encrypt_nonempty:
  assumes "crypto_ok X" shows "token_encrypt X p d eph iv \<noteq> []"
proof -
  have "length (x_x25519_public X eph) = 32" using crypto_okD(2) [OF assms] unfolding x25519_ok_def by blast
  then have "x_x25519_public X eph \<noteq> []" by auto
  then show ?thesis by (simp add: token_encrypt_def Let_def split: prod.split)
qed

lemma upload_length:
  assumes X: "crypto_ok X" "rmp_ok X" and E: "entropy_ok E"
    and up: "build_propagation_upload X E m p t None r = (Inr u, r')" and m: "message_ok m" "lm_stamp m = None"
  shows "length (pu_lxmf_data u) \<le> length (lm_title m) + length (lm_content m) + length (lm_fields m) + 400"
proof -
  define d where "d = drop DESTINATION_LENGTH (lxmf_pack X m)"
  obtain eph r1 iv r2 where e: "E r 32 = (eph, r1)" "E r1 16 = (iv, r2)" by fastforce
  have "length iv = 16" by (rule entropy_filled [OF E e(2)])
  moreover have "pu_lxmf_data u = lm_destination m @ token_encrypt X p d eph iv"
    using up e by (auto simp: build_propagation_upload_def Let_def d_def split: if_splits)
  ultimately have u: "length (pu_lxmf_data u) = 16 * (length d div 16) + 112"
    using length_token_encrypt [OF X(1)] m(1) by (simp add: message_ok_def)
  have "length d \<le> 100 + length (x_wr_bin X (lm_title m)) + length (x_wr_bin X (lm_content m)) + length (lm_fields m)"
    using m by (simp add: d_def lxmf_pack_def wire_payload_def lm_payload_def encode_payload_def message_ok_def
        DESTINATION_LENGTH_def rmp_write(1,7) [OF X(2)] mp_array_def mp_f64_def)
  then have "length d \<le> length (lm_title m) + length (lm_content m) + length (lm_fields m) + 110"
    using length_wr_bin [OF X(2), of "lm_title m"] length_wr_bin [OF X(2), of "lm_content m"] m(1)
    by (simp add: message_ok_def)
  then show ?thesis using u by linarith
qed

text \<open>C31: A message left at a propagation node reaches its recipient: the container unpacks to the entry it was
  packed from, with its time; the entry, which the uploader encrypted to the recipient, decrypts with the
  recipient's identity, its stamp cut off, to the message sent; and every identity whose delivery address is
  another is refused with InvalidField.\<close>

theorem propagation_delivers:
  assumes "crypto_ok X" "rmp_ok X" "entropy_ok E"
    and "build_propagation_upload X E m (id_public X i) t st r = (Inr u, r')"
    and "message_ok m" "lm_destination m = delivery_destination_hash X (id_public X i)"
    and "lm_hash m = full_hash X (hashed_part (lm_destination m) (lm_source m) (lm_payload X m))"
    and "length (pu_lxmf_data u) < 2 ^ 32"
  shows "unpack_propagation_container (pu_packed u) = Inr \<lparr>pc_timestamp = t, pc_messages = [pu_lxmf_data u]\<rparr> \<and>
    decrypt_propagated_message X i (pu_lxmf_data u) (case st of None \<Rightarrow> 0 | Some s \<Rightarrow> length s) = Inr m \<and>
    (\<forall>j. delivery_destination_hash X (id_public X j) \<noteq> delivery_destination_hash X (id_public X i) \<longrightarrow>
       decrypt_propagated_message X j (pu_lxmf_data u) (case st of None \<Rightarrow> 0 | Some s \<Rightarrow> length s) = Inl InvalidField)"
proof -
  have "length (lm_destination m) = 16" using assms(5) by (simp add: message_ok_def)
  from propagated_message_foreign [OF assms(4) this token_encrypt_nonempty [OF assms(1)]] show ?thesis
    using propagated_message_recovered [OF assms(1-7)] upload_unpacks [OF assms(2,4,8)] assms(6) by simp
qed

theorem propagation_delivers_witness:
  "\<exists>(u :: propagation_upload) (m :: lxmf_message). unpack_propagation_container (pu_packed u) = Inr \<lparr>pc_timestamp = 0, pc_messages = [pu_lxmf_data u]\<rparr> \<and>
     decrypt_propagated_message toy_ext (from_private_bytes [3] [4]) (pu_lxmf_data u) 0 = Inr m \<and> lm_content m = [1, 2, 3]"
proof -
  let ?i = "from_private_bytes [3] [4]"
  define m where "m = lxmf_build toy_ext (from_private_bytes [1] [2])
     (delivery_destination_hash toy_ext (id_public toy_ext ?i)) (replicate 16 4)
     0x3FF0000000000000 [104, 105] [1, 2, 3] [0x80]"
  have m: "lm_destination m = delivery_destination_hash toy_ext (id_public toy_ext ?i)"
    "lm_source m = replicate 16 4" "lm_stamp m = None" "lm_content m = [1, 2, 3]" "lm_title m = [104, 105]"
    "lm_fields m = [0x80]" "lm_timestamp m = 0x3FF0000000000000" "length (lm_signature m) = 64"
    using crypto_okD(3) [OF toy_ok] by (simp_all add: m_def lxmf_build_def Let_def)
  have ok: "message_ok m" using m empty_fields one_is_finite crypto_okD(1) [OF toy_ok]
    by (simp add: message_ok_def)
  have hash: "lm_hash m = full_hash toy_ext (hashed_part (lm_destination m) (lm_source m) (lm_payload toy_ext m))"
    using lxmf_build_hash m(1,2) unfolding m_def by (simp add: lxmf_build_def Let_def)
  define z :: "unit entropy" where "z = (\<lambda>r n. (replicate n 0, r))"
  have z: "entropy_ok z" by (simp add: entropy_ok_def z_def)
  have fin: "f64_is_finite 0" by (simp add: f64_is_finite_def)
  obtain u where u: "build_propagation_upload toy_ext z m (id_public toy_ext ?i) 0 None () = (Inr u, ())"
    using fin by (simp add: build_propagation_upload_def z_def Let_def)
  have "length (pu_lxmf_data u) < 2 ^ 32" using upload_length [OF toy_ok toy_rmp_ok z u ok m(3)] m by simp
  then show ?thesis using propagation_delivers [OF toy_ok toy_rmp_ok z u ok m(1) hash] m(4)
    by (intro exI [of _ u] exI [of _ m]) simp
qed

section \<open>Stamps\<close>

text \<open>C32: A stamp's value is the number of leading zero bits of its digest, and a stamp is accepted for a
  cost from 1 to 256 exactly when its digest is at most 2^(256 - cost): every stamp of at least that
  value is accepted, and an accepted one of lower value has precisely that digest and value cost - 1.\<close>

theorem stamp_acceptance:
  assumes "sha_ok X" and "1 \<le> unat c" "unat c \<le> 256" and "length s = 32"
  shows "(verify_stamp X w s c \<longleftrightarrow> be_nat (stamp_digest X w s) \<le> 2 ^ (256 - unat c)) \<and>
    (unat c \<le> unat (stamp_value X w s) \<longleftrightarrow> be_nat (stamp_digest X w s) < 2 ^ (256 - unat c)) \<and>
    (verify_stamp X w s c \<longrightarrow> unat c - 1 \<le> unat (stamp_value X w s))"
  using verify_stamp_iff [OF assms(1-3)] stamp_value_iff [OF assms(1,3)] verify_stamp_value(2) [OF assms] assms(4)
  by blast

theorem stamp_acceptance_witness:
  "verify_stamp toy_ext [] (replicate 32 0) 256 \<and> 255 \<le> unat (stamp_value toy_ext [] (replicate 32 0))"
proof -
  have "be_nat (stamp_digest toy_ext [] (replicate 32 0)) = 0" by (simp add: stamp_digest_def toy_ext_def)
  then show ?thesis
    using stamp_acceptance [OF crypto_okD(1) [OF toy_ok], of 256 "replicate 32 0" "[]"] by simp
qed

text \<open>A required stamp cannot be skipped: when a nonzero cost is set, a message is accepted only with
  a stamp that is the ticket's hash of the message id or that passes the proof of work over the
  message's own work block.\<close>

theorem required_stamp_enforced:
  assumes "verify_optional_stamp X h s (Some c) ts = Inr v" and "c \<noteq> 0"
  shows "\<exists>st. s = Some st \<and>
    ((\<exists>t \<in> set ts. length st = 16 \<and> truncated_hash X (t @ h) = st) \<or>
     (\<exists>w. stamp_workblock X h DELIVERY_WORKBLOCK_ROUNDS = Inr w \<and> verify_stamp X w st c))"
  using verify_optional_required [OF assms] by metis

theorem required_stamp_enforced_witness:
  "verify_optional_stamp toy_ext [1] (Some (truncated_hash toy_ext [9, 1])) (Some 8) [[9]] = Inr Ticket \<and>
   (\<exists>st. Some (truncated_hash toy_ext [9, 1]) = Some st)"
proof -
  have "length (truncated_hash toy_ext [9, 1]) = 16" using crypto_okD(1) [OF toy_ok] by simp
  then have v: "verify_optional_stamp toy_ext [1] (Some (truncated_hash toy_ext [9, 1])) (Some 8) [[9]] = Inr Ticket"
    by (simp add: verify_optional_stamp_def verify_ticket_stamp_def TICKET_STAMP_SIZE_def)
  show ?thesis using required_stamp_enforced [OF v] v by auto
qed

end
