(* ===== verification/Driver_Handle.thy ===== *)
theory Driver_Handle
  imports Node_State
begin

text \<open>
  reticulum-tokio/src/driver.rs, the side of the application: the commands, the handle that posts them to
  the driver's channel and waits for replies, and the snapshots the driver answers with.
\<close>

section \<open>Commands, handles and snapshots\<close>

text \<open>The one-shot reply channels of the commands are the replies of \<open>driver_step\<close>.\<close>

datatype driver_command =
    CmdAnnounceAll bytes
  | CmdSend bytes bytes
  | CmdSendWithReceipt bytes bytes
  | CmdSendGroup bytes bytes
  | CmdSendPlain bytes bytes
  | CmdEstablishLink bytes
  | CmdLinkSend bytes bytes
  | CmdSendResource bytes bytes
  | CmdLxmfSendOpportunistic bytes bytes bytes bytes
  | CmdLxmfSendDirect bytes bytes bytes bytes
  | CmdSnapshot
  | CmdRequestPath bytes
  | CmdCloseLink bytes
  | CmdShutdown

datatype driver_error = DriverClosed | DriverNode node_error

record interface_snapshot =
  is_id :: u16
  is_online :: bool
  is_rx_packets :: u64
  is_rx_bytes :: u64
  is_tx_packets :: u64
  is_tx_bytes :: u64

record path_snapshot_entry =
  ps_destination :: bytes
  ps_interface :: u16
  ps_next_hop :: "bytes option"
  ps_hops :: u8
  ps_expires_at :: u64
  ps_timestamp :: u64

record driver_snapshot =
  ds_identity_hash :: bytes
  ds_interfaces :: "interface_snapshot list"
  ds_paths :: "path_snapshot_entry list"

text \<open>A handle is a sender of the command channel: \<open>None\<close> when the driver is gone. A call with a reply
  waits for it; the reply is absent when the driver drops its sender.\<close>

type_synonym driver_handle = "driver_command list option"

definition handle_post :: "driver_command \<Rightarrow> driver_handle \<Rightarrow> (driver_error + unit) \<times> driver_handle" where
  "handle_post c q = (case q of None \<Rightarrow> (Inl DriverClosed, None) | Some cs \<Rightarrow> (Inr (), Some (cs @ [c])))"

definition handle_reply :: "(node_error + 'a) option \<Rightarrow> driver_error + 'a" where
  "handle_reply response = (case response of
       None \<Rightarrow> Inl DriverClosed | Some (Inl e) \<Rightarrow> Inl (DriverNode e) | Some (Inr v) \<Rightarrow> Inr v)"

definition handle_announce_all :: "bytes \<Rightarrow> driver_handle \<Rightarrow> (driver_error + unit) \<times> driver_handle" where
  "handle_announce_all app_data q = handle_post (CmdAnnounceAll app_data) q"

definition handle_send :: "bytes \<Rightarrow> bytes \<Rightarrow> driver_handle \<Rightarrow> (driver_error + unit) \<times> driver_handle" where
  "handle_send dh plaintext q = handle_post (CmdSend dh plaintext) q"

definition handle_send_with_receipt ::
    "bytes \<Rightarrow> bytes \<Rightarrow> (node_error + bytes) option \<Rightarrow> driver_handle \<Rightarrow> (driver_error + bytes) \<times> driver_handle" where
  "handle_send_with_receipt dh plaintext response q =
     (let (sent, q) = handle_post (CmdSendWithReceipt dh plaintext) q
      in (rbind sent (\<lambda>_. handle_reply response), q))"

definition handle_send_group :: "bytes \<Rightarrow> bytes \<Rightarrow> driver_handle \<Rightarrow> (driver_error + unit) \<times> driver_handle" where
  "handle_send_group dh plaintext q = handle_post (CmdSendGroup dh plaintext) q"

definition handle_send_plain :: "bytes \<Rightarrow> bytes \<Rightarrow> driver_handle \<Rightarrow> (driver_error + unit) \<times> driver_handle" where
  "handle_send_plain dh plaintext q = handle_post (CmdSendPlain dh plaintext) q"

definition handle_establish_link ::
    "bytes \<Rightarrow> (node_error + bytes) option \<Rightarrow> driver_handle \<Rightarrow> (driver_error + bytes) \<times> driver_handle" where
  "handle_establish_link dh response q =
     (let (sent, q) = handle_post (CmdEstablishLink dh) q in (rbind sent (\<lambda>_. handle_reply response), q))"

definition handle_link_send :: "bytes \<Rightarrow> bytes \<Rightarrow> driver_handle \<Rightarrow> (driver_error + unit) \<times> driver_handle" where
  "handle_link_send link_id plaintext q = handle_post (CmdLinkSend link_id plaintext) q"

definition handle_close_link :: "bytes \<Rightarrow> driver_handle \<Rightarrow> (driver_error + unit) \<times> driver_handle" where
  "handle_close_link link_id q = handle_post (CmdCloseLink link_id) q"

definition handle_send_resource ::
    "bytes \<Rightarrow> bytes \<Rightarrow> (node_error + bytes) option \<Rightarrow> driver_handle \<Rightarrow> (driver_error + bytes) \<times> driver_handle" where
  "handle_send_resource link_id d response q =
     (let (sent, q) = handle_post (CmdSendResource link_id d) q in (rbind sent (\<lambda>_. handle_reply response), q))"

definition handle_lxmf_send_opportunistic ::
    "bytes \<Rightarrow> bytes \<Rightarrow> bytes \<Rightarrow> bytes \<Rightarrow> (node_error + unit) option \<Rightarrow> driver_handle
      \<Rightarrow> (driver_error + unit) \<times> driver_handle" where
  "handle_lxmf_send_opportunistic dh title content fields_msgpack response q =
     (let (sent, q) = handle_post (CmdLxmfSendOpportunistic dh title content fields_msgpack) q
      in (rbind sent (\<lambda>_. handle_reply response), q))"

definition handle_lxmf_send_direct ::
    "bytes \<Rightarrow> bytes \<Rightarrow> bytes \<Rightarrow> bytes \<Rightarrow> (node_error + bytes) option \<Rightarrow> driver_handle
      \<Rightarrow> (driver_error + bytes) \<times> driver_handle" where
  "handle_lxmf_send_direct dh title content fields_msgpack response q =
     (let (sent, q) = handle_post (CmdLxmfSendDirect dh title content fields_msgpack) q
      in (rbind sent (\<lambda>_. handle_reply response), q))"

definition handle_snapshot ::
    "driver_snapshot option \<Rightarrow> driver_handle \<Rightarrow> (driver_error + driver_snapshot) \<times> driver_handle" where
  "handle_snapshot response q =
     (let (sent, q) = handle_post CmdSnapshot q in (rbind sent (\<lambda>_. ok_or DriverClosed response), q))"

definition handle_request_path :: "bytes \<Rightarrow> driver_handle \<Rightarrow> (driver_error + unit) \<times> driver_handle" where
  "handle_request_path dh q = handle_post (CmdRequestPath dh) q"

definition handle_shutdown :: "driver_handle \<Rightarrow> (driver_error + unit) \<times> driver_handle" where
  "handle_shutdown q = handle_post CmdShutdown q"

end
