(* ===== verification/Driver.thy ===== *)
theory Driver
  imports Driver_Handle Lxmf_Router Node_Inbound
begin

text \<open>
  reticulum-tokio/src/driver.rs: the task that owns a node. It takes commands from its handles, packets
  and failures from the interface tasks, new interfaces from the registrar and the ticks of a timer, one
  at a time, and hands the packets the node queues to the interfaces and the events to the application.
  \<open>driver_step\<close> is one round of the \<open>select!\<close> loop: the branch that fired, run to its end.

  The channels. Events sent to the application are the list \<open>dr_events\<close>, packets accepted by an
  interface's channel the list \<open>dr_sent\<close>. The sender of an interface is the number of packets its task
  still takes before it is gone (\<open>None\<close>: it stays); the environment chooses it, so a task may end at
  any point of a step. The clock is the node's.
\<close>

section \<open>The driver\<close>

text \<open>How many more packets the interface's task takes.\<close>

type_synonym channel = "nat option"

definition channel_send :: "channel \<Rightarrow> channel option" where
  "channel_send c = (case c of None \<Rightarrow> Some None | Some 0 \<Rightarrow> None | Some (Suc n) \<Rightarrow> Some (Some n))"

record lxmf_runtime =
  rt_router :: lxmf_router
  rt_pending_direct :: "(bytes, lxmf_message) btree"

record 'r driver =
  dr_node :: node
  dr_interfaces :: "(u16, channel) btree"
  dr_interface_stats :: "(u16, interface_snapshot) btree"
  dr_registrations :: bool
  dr_keep_alive :: bool
  dr_announce_data :: "bytes option"
  dr_entropy :: 'r
  dr_lxmf :: "lxmf_runtime option"
  dr_events :: "event list"
  dr_sent :: "(u16 \<times> bytes) list"

definition interface_snapshot_new :: "u16 \<Rightarrow> interface_snapshot" where
  "interface_snapshot_new i = \<lparr>is_id = i, is_online = True, is_rx_packets = 0, is_rx_bytes = 0,
     is_tx_packets = 0, is_tx_bytes = 0\<rparr>"

text \<open>The registrar: identifiers are drawn from a 32-bit counter and must fit 16 bits.\<close>

definition allocate_id :: "u32 \<Rightarrow> (unit + u16) \<times> u32" where
  "allocate_id next_id =
     (if unat next_id < 2 ^ 16 then Inr (ucast next_id) else Inl (), next_id + 1)"

text \<open>Registering posts to the driver's registration channel (\<open>None\<close>: the driver stopped).\<close>

definition registrar_register ::
    "u16 \<times> channel \<Rightarrow> (u16 \<times> channel) list option \<Rightarrow> (unit + unit) \<times> (u16 \<times> channel) list option" where
  "registrar_register ic q = (case q of None \<Rightarrow> (Inl (), None) | Some ics \<Rightarrow> (Inr (), Some (ics @ [ic])))"

definition register_iface :: "u16 \<times> channel \<Rightarrow> 'r driver \<Rightarrow> 'r driver" where
  "register_iface ic d = d\<lparr>dr_node := register_interface (fst ic) (dr_node d),
     dr_interfaces := bt_insert (fst ic) (snd ic) (dr_interfaces d),
     dr_interface_stats := bt_insert (fst ic) (interface_snapshot_new (fst ic)) (dr_interface_stats d)\<rparr>"

definition highest_id :: "(u16 \<times> channel) list \<Rightarrow> u16 option" where
  "highest_id interfaces = fold (\<lambda>(i, _) h. Some (case h of None \<Rightarrow> i | Some highest \<Rightarrow> max highest i)) interfaces None"

text \<open>The driver, its (empty) command queue and the registrar's counter. Without \<open>keep_alive\<close> the
  caller drops the registrar.\<close>

definition driver_build ::
    "node \<Rightarrow> (u16 \<times> channel) list \<Rightarrow> bool \<Rightarrow> 'r \<Rightarrow> 'r driver \<times> driver_handle \<times> u32" where
  "driver_build nd interfaces keep_alive r =
     (let d = \<lparr>dr_node = nd, dr_interfaces = [], dr_interface_stats = [], dr_registrations = True,
                dr_keep_alive = keep_alive, dr_announce_data = None, dr_entropy = r, dr_lxmf = None,
                dr_events = [], dr_sent = []\<rparr>;
          next_id = (case highest_id interfaces of None \<Rightarrow> 0 | Some i \<Rightarrow> ucast i + 1)
      in (fold register_iface interfaces d, Some [], next_id))"

definition enable_lxmf :: "ext \<Rightarrow> 'r driver \<Rightarrow> bytes \<times> 'r driver" where
  "enable_lxmf X d =
     (let router = router_new X (id_public X (nd_identity (dr_node d)));
          (destination, nd) = register_single_destination X (str ''lxmf'') [str ''delivery''] (dr_node d)
      in (destination, d\<lparr>dr_node := nd,
            dr_lxmf := Some \<lparr>rt_router = router, rt_pending_direct = []\<rparr>\<rparr>))"

text \<open>The constructors. Those without a registrar drop it; \<open>driver_new\<close> numbers its only interface 0.\<close>

definition INTERFACE_ID :: u16 where "INTERFACE_ID = 0"

definition driver_new_interfaces :: "node \<Rightarrow> (u16 \<times> channel) list \<Rightarrow> 'r \<Rightarrow> 'r driver \<times> driver_handle" where
  "driver_new_interfaces nd interfaces r = (let (d, handle, _) = driver_build nd interfaces False r in (d, handle))"

definition driver_new_multi :: "node \<Rightarrow> (u16 \<times> channel) list \<Rightarrow> 'r \<Rightarrow> 'r driver \<times> driver_handle" where
  "driver_new_multi nd interfaces r = driver_new_interfaces nd interfaces r"

definition driver_new :: "node \<Rightarrow> channel \<Rightarrow> 'r \<Rightarrow> 'r driver \<times> driver_handle" where
  "driver_new nd c r = driver_new_multi nd [(INTERFACE_ID, c)] r"

definition driver_new_lxmf_interfaces ::
    "ext \<Rightarrow> node \<Rightarrow> (u16 \<times> channel) list \<Rightarrow> 'r \<Rightarrow> 'r driver \<times> driver_handle \<times> bytes" where
  "driver_new_lxmf_interfaces X nd interfaces r =
     (let (d, handle, _) = driver_build nd interfaces False r; (destination, d) = enable_lxmf X d
      in (d, handle, destination))"

definition driver_new_lxmf :: "ext \<Rightarrow> node \<Rightarrow> u16 \<times> channel \<Rightarrow> 'r \<Rightarrow> 'r driver \<times> driver_handle \<times> bytes" where
  "driver_new_lxmf X nd ic r = driver_new_lxmf_interfaces X nd [ic] r"

definition driver_new_dynamic :: "node \<Rightarrow> (u16 \<times> channel) list \<Rightarrow> 'r \<Rightarrow> 'r driver \<times> driver_handle \<times> u32" where
  "driver_new_dynamic nd interfaces r = driver_build nd interfaces True r"

definition driver_new_lxmf_dynamic ::
    "ext \<Rightarrow> node \<Rightarrow> (u16 \<times> channel) list \<Rightarrow> 'r \<Rightarrow> 'r driver \<times> driver_handle \<times> u32 \<times> bytes" where
  "driver_new_lxmf_dynamic X nd interfaces r =
     (let (d, handle, registrar) = driver_build nd interfaces True r; (destination, d) = enable_lxmf X d
      in (d, handle, registrar, destination))"

definition emit :: "event \<Rightarrow> 'r driver \<Rightarrow> 'r driver" where
  "emit ev d = d\<lparr>dr_events := dr_events d @ [ev]\<rparr>"

text \<open>\<open>if let Some(stats) = self.interface_stats.get_mut(&id)\<close> with its update.\<close>

definition update_stats :: "u16 \<Rightarrow> (interface_snapshot \<Rightarrow> interface_snapshot) \<Rightarrow> 'r driver \<Rightarrow> 'r driver" where
  "update_stats i f d = d\<lparr>dr_interface_stats := bt_update i f (dr_interface_stats d)\<rparr>"

definition len64 :: "bytes \<Rightarrow> u64" where
  "len64 bs = (if length bs < 2 ^ 64 then word_of_nat (length bs) else - 1)"

definition count_tx :: "bytes \<Rightarrow> interface_snapshot \<Rightarrow> interface_snapshot" where
  "count_tx packet s = s\<lparr>is_tx_packets := sat_add (is_tx_packets s) 1,
     is_tx_bytes := sat_add (is_tx_bytes s) (len64 packet)\<rparr>"

definition count_rx :: "bytes \<Rightarrow> interface_snapshot \<Rightarrow> interface_snapshot" where
  "count_rx packet s = s\<lparr>is_rx_packets := sat_add (is_rx_packets s) 1,
     is_rx_bytes := sat_add (is_rx_bytes s) (len64 packet)\<rparr>"

text \<open>One packet of the queue, and the loop over all of them; the result is always \<open>Ok(())\<close>.\<close>

definition send_out :: "u16 \<Rightarrow> bytes \<Rightarrow> 'r driver \<Rightarrow> 'r driver" where
  "send_out i packet d =
     (case bt_get i (dr_interfaces d) of
        None \<Rightarrow> emit (Error Unknown) d
      | Some sender \<Rightarrow>
          (case channel_send sender of
             None \<Rightarrow> emit (Error Unknown) (update_stats i (\<lambda>s. s\<lparr>is_online := False\<rparr>)
                       (d\<lparr>dr_interfaces := bt_remove i (dr_interfaces d)\<rparr>))
           | Some sender \<Rightarrow> update_stats i (count_tx packet)
                 (d\<lparr>dr_interfaces := bt_insert i sender (dr_interfaces d), dr_sent := dr_sent d @ [(i, packet)]\<rparr>)))"

lemma send_out_node [simp]: "dr_node (send_out i packet d) = dr_node d"
  by (simp add: send_out_def emit_def update_stats_def split: option.split)

function drain_outbound :: "'r driver \<Rightarrow> 'r driver" where
  "drain_outbound d =
     (case poll_outbound (dr_node d) of
        (None, _) \<Rightarrow> d
      | (Some (i, packet), nd) \<Rightarrow> drain_outbound (send_out i packet (d\<lparr>dr_node := nd\<rparr>)))"
  by pat_completeness auto
termination
  by (relation "measure (\<lambda>d. length (nd_outbound (dr_node d)))") (auto simp: poll_outbound_def split: list.splits)

declare drain_outbound.simps [simp del]

section \<open>Events of the node\<close>

text \<open>\<open>u64 as f64\<close>: the bit pattern of the nearest double, ties to even.\<close>

fun log2_floor :: "nat \<Rightarrow> nat" where
  "log2_floor n = (if n < 2 then 0 else Suc (log2_floor (n div 2)))"

declare log2_floor.simps [simp del]

definition f64_of_nat :: "nat \<Rightarrow> nat" where
  "f64_of_nat n =
     (if n = 0 then 0
      else let e = log2_floor n in
        if e \<le> 52 then (1023 + e) * 2 ^ 52 + (n * 2 ^ (52 - e) - 2 ^ 52)
        else let shift = e - 52; q = n div 2 ^ shift; r = n mod 2 ^ shift; half = 2 ^ (shift - 1);
                 q = (if r > half \<or> r = half \<and> odd q then q + 1 else q)
             in (1023 + e) * 2 ^ 52 + (q - 2 ^ 52))"

definition f64_of_u64 :: "u64 \<Rightarrow> u64" where
  "f64_of_u64 v = word_of_nat (f64_of_nat (unat v))"

definition lxmf_event :: "lxmf_message \<Rightarrow> event" where
  "lxmf_event m = LxmfMessage (lm_destination m) (lm_source m) (lm_timestamp m) (lm_title m) (lm_content m) (lm_fields m)"

definition driver_lxmf_message ::
    "ext \<Rightarrow> bytes \<Rightarrow> bytes \<Rightarrow> bytes \<Rightarrow> bytes \<Rightarrow> 'r driver \<Rightarrow> node_error + lxmf_message" where
  "driver_lxmf_message X destination title content flds d =
     rbind (ok_or Unknown (dr_lxmf d)) (\<lambda>lxmf.
       Inr (lxmf_build X (nd_identity (dr_node d)) destination (lr_local_destination (rt_router lxmf))
              (f64_of_u64 (nd_clock (dr_node d))) title content flds))"

text \<open>An announce makes the router remember the announcer, by the key the route holds.\<close>

definition learn_source :: "ext \<Rightarrow> event \<Rightarrow> 'r driver \<Rightarrow> 'r driver" where
  "learn_source X ev d =
     (case ev of
        Announce dh _ \<Rightarrow>
          (case (path_public dh (dr_node d), dr_lxmf d) of
             (Some public, Some lxmf) \<Rightarrow>
               d\<lparr>dr_lxmf := Some (lxmf\<lparr>rt_router := snd (remember_source X public (rt_router lxmf))\<rparr>)\<rparr>
           | _ \<Rightarrow> d)
      | _ \<Rightarrow> d)"

text \<open>An established link releases the message that waits for it.\<close>

definition send_pending :: "ext \<Rightarrow> 'r entropy \<Rightarrow> event \<Rightarrow> 'r driver \<Rightarrow> node_error option \<times> 'r driver" where
  "send_pending X E ev d =
     (case ev of
        LinkEstablished link_id \<Rightarrow>
          (case dr_lxmf d of
             None \<Rightarrow> (None, d)
           | Some lxmf \<Rightarrow>
               (case bt_get link_id (rt_pending_direct lxmf) of
                  None \<Rightarrow> (None, d)
                | Some m \<Rightarrow>
                    let d = d\<lparr>dr_lxmf := Some (lxmf\<lparr>rt_pending_direct := bt_remove link_id (rt_pending_direct lxmf)\<rparr>)\<rparr>;
                        (res, nd, r) = send_direct X E link_id m (dr_entropy d) (dr_node d);
                        d = d\<lparr>dr_node := nd, dr_entropy := r\<rparr>
                    in (case res of Inl e \<Rightarrow> (Some e, d) | Inr _ \<Rightarrow> (None, d))))
      | _ \<Rightarrow> (None, d))"

text \<open>A message or link data that is an LXMF message for the local destination is reported as one.\<close>

definition translate_event :: "ext \<Rightarrow> event \<Rightarrow> lxmf_runtime option \<Rightarrow> event" where
  "translate_event X ev lxmf =
     (case ev of
        Message dh plaintext \<Rightarrow>
          (case lxmf of
             None \<Rightarrow> Message dh plaintext
           | Some lxmf \<Rightarrow> (case receive_opportunistic X dh plaintext (rt_router lxmf) of
               Inr m \<Rightarrow> lxmf_event m | Inl _ \<Rightarrow> Message dh plaintext))
      | LinkData link_id plaintext \<Rightarrow>
          (case lxmf of
             None \<Rightarrow> LinkData link_id plaintext
           | Some lxmf \<Rightarrow> (case receive_direct X plaintext (rt_router lxmf) of
               Inr m \<Rightarrow> lxmf_event m | Inl _ \<Rightarrow> LinkData link_id plaintext))
      | ev \<Rightarrow> ev)"

definition emit_node_event :: "ext \<Rightarrow> 'r entropy \<Rightarrow> event \<Rightarrow> 'r driver \<Rightarrow> 'r driver" where
  "emit_node_event X E ev d =
     (let d = learn_source X ev d;
          (send_error, d) = send_pending X E ev d;
          d = emit (translate_event X ev (dr_lxmf d)) d
      in (case send_error of None \<Rightarrow> d | Some e \<Rightarrow> emit (Error e) d))"

definition emit_node_events :: "ext \<Rightarrow> 'r entropy \<Rightarrow> event list \<Rightarrow> 'r driver \<Rightarrow> 'r driver" where
  "emit_node_events X E evs d = fold (emit_node_event X E) evs d"

section \<open>One round of the loop\<close>

definition path_snapshot_of :: "bytes \<times> path_entry \<Rightarrow> path_snapshot_entry" where
  "path_snapshot_of p = (case p of (destination, entry) \<Rightarrow>
     \<lparr>ps_destination = destination, ps_interface = pe_interface entry, ps_next_hop = pe_next_hop entry,
      ps_hops = pe_hops entry, ps_expires_at = pe_expires_at entry, ps_timestamp = pe_timestamp entry\<rparr>)"

definition snapshot_state :: "ext \<Rightarrow> 'r driver \<Rightarrow> driver_snapshot" where
  "snapshot_state X d = \<lparr>ds_identity_hash = id_hash X (nd_identity (dr_node d)),
     ds_interfaces = sort_key is_id (map snd (dr_interface_stats d)),
     ds_paths = sort_key ps_destination (map path_snapshot_of (paths_snapshot (dr_node d)))\<rparr>"

datatype driver_reply =
    NoReply
  | HashReply "node_error + bytes"
  | UnitReply "node_error + unit"
  | SnapshotReply driver_snapshot

datatype 'r driver_outcome =
    Running "'r driver" driver_reply
  | Returned "'r driver" bool \<comment> \<open>\<open>run\<close> returns: \<open>Ok(())\<close> when true, the interface's error when false\<close>

definition announce_on :: "ext \<Rightarrow> 'r entropy \<Rightarrow> bytes \<Rightarrow> bytes list \<Rightarrow> u16 \<Rightarrow> 'r driver \<Rightarrow> 'r driver" where
  "announce_on X E app_data destinations i d =
     fold (\<lambda>dh d. let (nd, r) = send_announce X E dh app_data (dr_entropy d) i (dr_node d)
                  in d\<lparr>dr_node := nd, dr_entropy := r\<rparr>) destinations d"

text \<open>The node and the entropy source after a call; an error without a reply channel is an event.\<close>

definition after_call :: "(node_error + 'a) \<times> node \<times> 'r \<Rightarrow> 'r driver \<Rightarrow> 'r driver" where
  "after_call res d = d\<lparr>dr_node := fst (snd res), dr_entropy := snd (snd res)\<rparr>"

definition report_call :: "(node_error + unit) \<times> node \<times> 'r \<Rightarrow> 'r driver \<Rightarrow> 'r driver" where
  "report_call res d =
     (let d = after_call res d in case fst res of Inl e \<Rightarrow> emit (Error e) d | Inr _ \<Rightarrow> d)"

definition lxmf_opportunistic ::
    "ext \<Rightarrow> 'r entropy \<Rightarrow> bytes \<Rightarrow> bytes \<Rightarrow> bytes \<Rightarrow> bytes \<Rightarrow> 'r driver \<Rightarrow> (node_error + unit) \<times> 'r driver" where
  "lxmf_opportunistic X E dh title content flds d =
     (case driver_lxmf_message X dh title content flds d of
        Inl e \<Rightarrow> (Inl e, d)
      | Inr m \<Rightarrow>
          if dr_lxmf d = None then (Inl Unknown, d)
          else let res = send_opportunistic X E m (dr_entropy d) (dr_node d)
            in (fst res, after_call res d))"

definition lxmf_direct ::
    "ext \<Rightarrow> 'r entropy \<Rightarrow> bytes \<Rightarrow> bytes \<Rightarrow> bytes \<Rightarrow> bytes \<Rightarrow> 'r driver \<Rightarrow> (node_error + bytes) \<times> 'r driver" where
  "lxmf_direct X E dh title content flds d =
     (case driver_lxmf_message X dh title content flds d of
        Inl e \<Rightarrow> (Inl e, d)
      | Inr m \<Rightarrow>
          let res = establish_link X E dh (dr_entropy d) (dr_node d); d = after_call res d
          in (case fst res of
                Inl e \<Rightarrow> (Inl e, d)
              | Inr link_id \<Rightarrow>
                  (case dr_lxmf d of
                     None \<Rightarrow> (Inl Unknown, d)
                   | Some lxmf \<Rightarrow>
                       (Inr link_id, d\<lparr>dr_lxmf := Some (lxmf\<lparr>rt_pending_direct :=
                          bt_insert link_id m (rt_pending_direct lxmf)\<rparr>)\<rparr>))))"

text \<open>A command; \<open>None\<close> when choosing a resource's random hash runs for ever (see \<open>choose_map\<close>).\<close>

fun exec_command ::
    "ext \<Rightarrow> 'r entropy \<Rightarrow> driver_command \<Rightarrow> 'r driver \<Rightarrow> 'r driver_outcome option" where
  "exec_command X E (CmdAnnounceAll app_data) d =
     (let d = d\<lparr>dr_announce_data := Some app_data\<rparr>;
          destinations = local_destinations (dr_node d);
          interfaces = bt_keys (dr_interfaces d)
      in Some (Running (drain_outbound (fold (announce_on X E app_data destinations) interfaces d)) NoReply))"
| "exec_command X E (CmdSend dh plaintext) d =
     Some (Running (drain_outbound (report_call (send_message X E dh plaintext (dr_entropy d) (dr_node d)) d)) NoReply)"
| "exec_command X E (CmdSendWithReceipt dh plaintext) d =
     (let res = send_message_with_receipt X E dh plaintext (dr_entropy d) (dr_node d)
      in Some (Running (drain_outbound (after_call res d)) (HashReply (fst res))))"
| "exec_command X E (CmdSendGroup dh plaintext) d =
     Some (Running (drain_outbound (report_call (send_group_message X E dh plaintext (dr_entropy d) (dr_node d)) d)) NoReply)"
| "exec_command X E (CmdSendPlain dh plaintext) d =
     (let (res, nd) = send_plain_message dh plaintext (dr_node d)
      in Some (Running (drain_outbound (report_call (res, nd, dr_entropy d) d)) NoReply))"
| "exec_command X E (CmdEstablishLink dh) d =
     (let res = establish_link X E dh (dr_entropy d) (dr_node d)
      in Some (Running (drain_outbound (after_call res d)) (HashReply (fst res))))"
| "exec_command X E (CmdLinkSend link_id plaintext) d =
     Some (Running (drain_outbound (report_call (link_send X E link_id plaintext (dr_entropy d) (dr_node d)) d)) NoReply)"
| "exec_command X E (CmdSendResource link_id bs) d =
     (case send_resource X E link_id bs (dr_entropy d) (dr_node d) of
        None \<Rightarrow> None
      | Some res \<Rightarrow> Some (Running (drain_outbound (after_call res d)) (HashReply (fst res))))"
| "exec_command X E (CmdLxmfSendOpportunistic dh title content flds) d =
     (let (res, d) = lxmf_opportunistic X E dh title content flds d
      in Some (Running (drain_outbound d) (UnitReply res)))"
| "exec_command X E (CmdLxmfSendDirect dh title content flds) d =
     (let (res, d) = lxmf_direct X E dh title content flds d
      in Some (Running (drain_outbound d) (HashReply res)))"
| "exec_command X E CmdSnapshot d = Some (Running d (SnapshotReply (snapshot_state X d)))"
| "exec_command X E (CmdRequestPath dh) d =
     (let (nd, r) = request_path X E dh (dr_entropy d) (dr_node d)
      in Some (Running (drain_outbound (d\<lparr>dr_node := nd, dr_entropy := r\<rparr>)) NoReply))"
| "exec_command X E (CmdCloseLink link_id) d =
     (let (evs, nd) = tick X (close_link link_id (dr_node d))
      in Some (Running (drain_outbound (emit_node_events X E evs (d\<lparr>dr_node := nd\<rparr>))) NoReply))"
| "exec_command X E CmdShutdown d = Some (Returned d True)"

text \<open>What wakes the loop. \<open>None\<close> is a channel whose other ends are gone.\<close>

datatype inbound = Packet u16 bytes | ClosedIface u16 | FailedIface u16

datatype driver_input =
    Command "driver_command option"
  | Inbound "inbound option"
  | Registration "(u16 \<times> channel) option"
  | TickFired

definition interface_gone :: "u16 \<Rightarrow> 'r driver \<Rightarrow> 'r driver" where
  "interface_gone i d =
     (let d = update_stats i (\<lambda>s. s\<lparr>is_online := False\<rparr>) (d\<lparr>dr_interfaces := bt_remove i (dr_interfaces d)\<rparr>)
      in d\<lparr>dr_node := unregister_interface i (dr_node d)\<rparr>)"

definition driver_inbound :: "ext \<Rightarrow> 'r entropy \<Rightarrow> inbound \<Rightarrow> 'r driver \<Rightarrow> 'r driver_outcome" where
  "driver_inbound X E inb d =
     (case inb of
        Packet i bs \<Rightarrow>
          let d = update_stats i (count_rx bs) d;
              (evs, nd, r) = handle_inbound_with_entropy X E bs i (dr_entropy d) (dr_node d);
              d = emit_node_events X E evs (d\<lparr>dr_node := nd, dr_entropy := r\<rparr>)
          in Running (drain_outbound d) NoReply
      | ClosedIface i \<Rightarrow>
          let d = interface_gone i d
          in if dr_interfaces d = [] \<and> \<not> dr_keep_alive d then Returned d True else Running d NoReply
      | FailedIface i \<Rightarrow>
          let d = interface_gone i d
          in if dr_interfaces d = [] \<and> \<not> dr_keep_alive d then Returned d False
             else Running (emit (Error Unknown) d) NoReply)"

definition driver_registration ::
    "ext \<Rightarrow> 'r entropy \<Rightarrow> (u16 \<times> channel) option \<Rightarrow> 'r driver \<Rightarrow> 'r driver_outcome" where
  "driver_registration X E reg d =
     (case reg of
        Some (i, c) \<Rightarrow>
          if bt_contains i (dr_interfaces d) then Running (emit (Error Unknown) d) NoReply
          else let d = register_iface (i, c) d
            in (case dr_announce_data d of
                  None \<Rightarrow> Running d NoReply
                | Some app_data \<Rightarrow>
                    Running (drain_outbound (announce_on X E app_data (local_destinations (dr_node d)) i d)) NoReply)
      | None \<Rightarrow>
          let d = d\<lparr>dr_registrations := False\<rparr>
          in if dr_interfaces d = [] then Returned d True else Running d NoReply)"

definition driver_tick :: "ext \<Rightarrow> 'r entropy \<Rightarrow> 'r driver \<Rightarrow> 'r driver_outcome" where
  "driver_tick X E d =
     (let (evs, nd, r) = tick_with_entropy X E (dr_entropy d) (dr_node d);
          d = emit_node_events X E evs (d\<lparr>dr_node := nd, dr_entropy := r\<rparr>)
      in Running (drain_outbound d) NoReply)"

text \<open>The closed registration channel is not polled again (\<open>receive_registration\<close>).\<close>

definition driver_step ::
    "ext \<Rightarrow> 'r entropy \<Rightarrow> driver_input \<Rightarrow> 'r driver \<Rightarrow> 'r driver_outcome option" where
  "driver_step X E input d =
     (case input of
        Command None \<Rightarrow> Some (Returned d True)
      | Command (Some c) \<Rightarrow> exec_command X E c d
      | Inbound None \<Rightarrow> Some (Returned d True)
      | Inbound (Some inb) \<Rightarrow> Some (driver_inbound X E inb d)
      | Registration reg \<Rightarrow> if dr_registrations d then Some (driver_registration X E reg d) else Some (Running d NoReply)
      | TickFired \<Rightarrow> Some (driver_tick X E d))"

section \<open>The task of an interface\<close>

text \<open>One round of its loop: what the driver's channel or the wire yields (\<open>Inl\<close> is an I/O error), and
  whether the interface's own send and the send to the driver succeed. The result is what goes to the
  wire, what goes to the driver, and whether the task goes on.\<close>

datatype iface_input = FromDriver "bytes option" | FromWire "unit + bytes option"

definition run_interface ::
    "u16 \<Rightarrow> bool \<Rightarrow> bool \<Rightarrow> iface_input \<Rightarrow> bytes list \<times> inbound list \<times> bool" where
  "run_interface i wire_ok driver_ok input =
     (case input of
        FromDriver None \<Rightarrow> ([], [], False)
      | FromDriver (Some packet) \<Rightarrow> if wire_ok then ([packet], [], True) else ([], if driver_ok then [FailedIface i] else [], False)
      | FromWire (Inr (Some bs)) \<Rightarrow> ([], if driver_ok then [Packet i bs] else [], driver_ok)
      | FromWire (Inr None) \<Rightarrow> ([], if driver_ok then [ClosedIface i] else [], False)
      | FromWire (Inl _) \<Rightarrow> ([], if driver_ok then [FailedIface i] else [], False))"

end
