(* ===== verification/Node_Frames.thy ===== *)
theory Node_Frames
  imports Node_Inbound Resource_Transfer
begin

text \<open>
  What each operation of a node leaves alone. \<open>steady\<close> relates two states that agree on the identity,
  the clock, the local destinations, the interfaces, the duplicate map of packets and the time of the
  last sweep, the queue of the second extending that of the first; \<open>transfer_frame\<close> relates states that
  differ only in the queue and the resources; \<open>links_le\<close> is the order in which links evolve.
\<close>

section \<open>States that agree on the node's own data\<close>

definition steady :: "node \<Rightarrow> node \<Rightarrow> bool" where
  "steady nd nd' \<longleftrightarrow> nd_identity nd' = nd_identity nd \<and> nd_clock nd' = nd_clock nd \<and>
     nd_locals nd' = nd_locals nd \<and> nd_interfaces nd' = nd_interfaces nd \<and>
     nd_transport_enabled nd' = nd_transport_enabled nd \<and> nd_seen_packets nd' = nd_seen_packets nd \<and>
     nd_last_prune nd' = nd_last_prune nd \<and> (\<exists>q. nd_outbound nd' = nd_outbound nd @ q)"

lemma steady_refl [simp, intro]: "steady nd nd"
  by (simp add: steady_def)

lemma steady_trans [trans]: "steady a b \<Longrightarrow> steady b c \<Longrightarrow> steady a c"
  by (auto simp: steady_def)

lemma steady_push [simp]: "steady nd (push_out i b nd)"
  by (simp add: steady_def)

lemma steady_push_all [simp]: "steady nd (push_all is b nd)"
  by (simp add: steady_def push_all_eq)

lemma steady_fields [simp]:
  "steady nd (nd\<lparr>nd_paths := a\<rparr>)" "steady nd (nd\<lparr>nd_links := b\<rparr>)"
  "steady nd (nd\<lparr>nd_cached_announces := c\<rparr>)" "steady nd (nd\<lparr>nd_seen_announces := d\<rparr>)"
  "steady nd (nd\<lparr>nd_seen_path_requests := d\<rparr>)" "steady nd (nd\<lparr>nd_pending_events := e\<rparr>)"
  "steady nd (nd\<lparr>nd_pending_receipts := f\<rparr>)" "steady nd (nd\<lparr>nd_inbound_resources := g\<rparr>)"
  "steady nd (nd\<lparr>nd_outbound_resources := h\<rparr>)"
  by (simp_all add: steady_def)

lemma steady_steps:
  "steady nd (nd1\<lparr>nd_paths := a\<rparr>) = steady nd nd1" "steady nd (nd1\<lparr>nd_links := b\<rparr>) = steady nd nd1"
  "steady nd (nd1\<lparr>nd_cached_announces := c\<rparr>) = steady nd nd1" "steady nd (nd1\<lparr>nd_seen_announces := d\<rparr>) = steady nd nd1"
  "steady nd (nd1\<lparr>nd_seen_path_requests := d\<rparr>) = steady nd nd1" "steady nd (nd1\<lparr>nd_pending_events := e\<rparr>) = steady nd nd1"
  "steady nd (nd1\<lparr>nd_pending_receipts := f\<rparr>) = steady nd nd1" "steady nd (nd1\<lparr>nd_inbound_resources := g\<rparr>) = steady nd nd1"
  "steady nd (nd1\<lparr>nd_outbound_resources := h\<rparr>) = steady nd nd1"
  by (simp_all add: steady_def)

lemma steady_then_push [simp]: "steady nd nd1 \<Longrightarrow> steady nd (push_out i b nd1)"
  by (rule steady_trans [OF _ steady_push])

lemma steady_then_push_all [simp]: "steady nd nd1 \<Longrightarrow> steady nd (push_all is b nd1)"
  by (rule steady_trans [OF _ steady_push_all])

lemma steady_node_prune [simp]: "steady nd (node_prune nd)"
  by (simp add: node_prune_eq)

section \<open>States that differ in the queue and the resources only\<close>

definition transfer_frame :: "node \<Rightarrow> node \<Rightarrow> bool" where
  "transfer_frame nd nd' \<longleftrightarrow> (\<exists>q ir orr. nd' = nd\<lparr>nd_outbound := nd_outbound nd @ q,
     nd_inbound_resources := ir, nd_outbound_resources := orr\<rparr>)"

lemma transfer_frameI:
  "nd' = nd\<lparr>nd_outbound := nd_outbound nd @ q, nd_inbound_resources := ir, nd_outbound_resources := orr\<rparr>
     \<Longrightarrow> transfer_frame nd nd'"
  unfolding transfer_frame_def by blast

lemma transfer_frame_refl [simp, intro]: "transfer_frame nd nd"
  by (rule transfer_frameI [where q = "[]" and ir = "nd_inbound_resources nd" and orr = "nd_outbound_resources nd"]) simp

lemma transfer_frame_trans [trans]:
  assumes "transfer_frame a b" and "transfer_frame b c" shows "transfer_frame a c"
proof -
  obtain q ir orr q' ir' orr' where
    "b = a\<lparr>nd_outbound := nd_outbound a @ q, nd_inbound_resources := ir, nd_outbound_resources := orr\<rparr>"
    "c = b\<lparr>nd_outbound := nd_outbound b @ q', nd_inbound_resources := ir', nd_outbound_resources := orr'\<rparr>"
    using assms unfolding transfer_frame_def by blast
  then show ?thesis by (intro transfer_frameI [where q = "q @ q'"]) simp
qed

lemma transfer_frame_steps [simp]:
  "transfer_frame nd (push_out i b nd)"
  "transfer_frame nd (nd\<lparr>nd_inbound_resources := ir\<rparr>)"
  "transfer_frame nd (nd\<lparr>nd_outbound_resources := orr\<rparr>)"
  "transfer_frame nd (nd\<lparr>nd_inbound_resources := ir, nd_outbound_resources := orr\<rparr>)"
proof -
  show "transfer_frame nd (push_out i b nd)"
    by (rule transfer_frameI [where q = "[(i, b)]" and ir = "nd_inbound_resources nd" and orr = "nd_outbound_resources nd"])
      (simp add: push_out_def)
  show "transfer_frame nd (nd\<lparr>nd_inbound_resources := ir\<rparr>)"
    by (rule transfer_frameI [where q = "[]" and ir = ir and orr = "nd_outbound_resources nd"]) simp
  show "transfer_frame nd (nd\<lparr>nd_outbound_resources := orr\<rparr>)"
    by (rule transfer_frameI [where q = "[]" and ir = "nd_inbound_resources nd" and orr = orr]) simp
  show "transfer_frame nd (nd\<lparr>nd_inbound_resources := ir, nd_outbound_resources := orr\<rparr>)"
    by (rule transfer_frameI [where q = "[]" and ir = ir and orr = orr]) simp
qed

lemma transfer_frame_then_push: "transfer_frame nd nd1 \<Longrightarrow> transfer_frame nd (push_out i b nd1)"
  by (rule transfer_frame_trans [OF _ transfer_frame_steps(1)])

lemma transfer_frame_then_set:
  "transfer_frame nd nd1 \<Longrightarrow> transfer_frame nd (nd1\<lparr>nd_inbound_resources := ir\<rparr>)"
  "transfer_frame nd nd1 \<Longrightarrow> transfer_frame nd (nd1\<lparr>nd_outbound_resources := orr\<rparr>)"
  "transfer_frame nd nd1 \<Longrightarrow> transfer_frame nd (nd1\<lparr>nd_inbound_resources := ir, nd_outbound_resources := orr\<rparr>)"
  by (rule transfer_frame_trans, assumption, simp)+

lemma transfer_frame_steady: "transfer_frame nd nd' \<Longrightarrow> steady nd nd'"
  by (auto simp: transfer_frame_def steady_def)

lemma transfer_frame_same:
  assumes "transfer_frame nd nd'"
  shows "nd_links nd' = nd_links nd" "nd_pending_events nd' = nd_pending_events nd"
    "nd_paths nd' = nd_paths nd" "nd_pending_receipts nd' = nd_pending_receipts nd"
    "nd_cached_announces nd' = nd_cached_announces nd" "nd_clock nd' = nd_clock nd"
    "nd_seen_announces nd' = nd_seen_announces nd" "nd_seen_path_requests nd' = nd_seen_path_requests nd"
  using assms by (auto simp: transfer_frame_def)

lemma enqueue_frame [simp]:
  "transfer_frame nd nd1 \<Longrightarrow> transfer_frame nd (fst (enqueue_encrypted_link_context X E lid i c pt key r nd1))"
  by (simp add: enqueue_encrypted_link_context_def case_prod_beta transfer_frame_then_push)

lemma request_next_frame [simp]:
  "transfer_frame nd nd1 \<Longrightarrow> transfer_frame nd (fst (request_next X E lid h i key r nd1))"
  by (simp add: request_next_def Let_def case_prod_beta transfer_frame_then_set split: option.split)

lemma resource_answer_frame [simp]:
  "transfer_frame nd (fst s) \<Longrightarrow> transfer_frame nd (fst (resource_answer X E lid i key out1 s))"
  by (cases s) (simp add: resource_answer_def transfer_frame_then_push split: resource_output.split)

lemma resource_answers_frame [simp]:
  "transfer_frame nd (fst s) \<Longrightarrow> transfer_frame nd (fst (fold (resource_answer X E lid i key) outs s))"
  by (induction outs arbitrary: s) simp_all

lemma part_request_frame [simp]:
  "transfer_frame nd nd1 \<Longrightarrow> transfer_frame nd (fst (part_request X E rk i key rng nd1))"
  by (simp add: part_request_def Let_def case_prod_beta transfer_frame_then_set split: option.split)

lemma part_complete_frame [simp]:
  "transfer_frame nd nd1 \<Longrightarrow> transfer_frame nd (snd (part_complete X rk i key res nd1))"
  by (simp add: part_complete_def Let_def transfer_frame_then_push transfer_frame_then_set split: sum.split)

lemma handle_part_candidates_frame [simp]:
  "transfer_frame nd nd1 \<Longrightarrow> transfer_frame nd (fst (snd (handle_part_candidates X E ks i key part rng nd1)))"
proof (induction ks)
  case (Cons rk ks)
  then show ?case
    by (cases "bt_get rk (nd_inbound_resources nd1)"; cases "on_part X part (the (bt_get rk (nd_inbound_resources nd1)))")
      (simp_all add: Let_def case_prod_beta transfer_frame_then_set split: bool.split)
qed simp

lemma handle_resource_part_frame [simp]:
  "transfer_frame nd nd1 \<Longrightarrow> transfer_frame nd (fst (snd (handle_resource_part X E lid i key part rng nd1)))"
  by (simp add: handle_resource_part_def)

lemma handle_resource_context_frame [simp]:
  assumes "transfer_frame nd nd1"
  shows "transfer_frame nd (fst (snd (handle_resource_context X E lid i key c pt r nd1)))"
proof -
  note h = handle_resource_context_def contexts Let_def case_prod_beta transfer_frame_then_set [OF assms] assms
  consider "c = RESOURCE_ADV" | "c = RESOURCE_REQ" | "c = RESOURCE_HMU" | "c = RESOURCE_ICL \<or> c = RESOURCE_RCL"
    | "c \<notin> {RESOURCE_ADV, RESOURCE_REQ, RESOURCE_HMU, RESOURCE_ICL, RESOURCE_RCL}" by auto
  then show ?thesis
  proof cases
    case 1
    show ?thesis
    proof (cases "adv_unpack X pt")
      case (Inr a)
      then show ?thesis using 1 by (cases "inbound_from_advertisement a") (simp_all add: h)
    qed (simp add: 1 h)
  next
    case 2
    show ?thesis
    proof (cases "if pt \<noteq> [] \<and> hd pt = 0xFF then array_at 5 37 pt else array_at 1 33 pt")
      case (Some hash)
      then show ?thesis using 2
        by (cases "bt_get (lid, hash) (nd_outbound_resources nd1)") (simp_all add: h del: if_split)
    qed (simp add: 2 h del: if_split)
  next
    case 3
    show ?thesis
    proof (cases "array_at 0 32 pt")
      case (Some hash)
      show ?thesis
      proof (cases "bt_get (lid, hash) (nd_inbound_resources nd1)")
        case s: (Some res)
        then show ?thesis using 3 Some by (cases "fst (on_hashmap_update X pt res)") (simp_all add: h)
      qed (simp add: 3 Some h)
    qed (simp add: 3 h)
  next
    case 4
    then show ?thesis by (cases "array_at 0 32 pt") (auto simp: h)
  next
    case 5
    then show ?thesis by (simp add: h)
  qed
qed

lemma handle_resource_proof_frame [simp]:
  "transfer_frame nd nd1 \<Longrightarrow> transfer_frame nd (snd (handle_resource_proof p lid nd1))"
  by (simp add: handle_resource_proof_def Let_def case_prod_beta transfer_frame_then_set split: option.split)

end
