(* ===== verification/Node_Links.thy ===== *)
theory Node_Links
  imports Node_Frames
begin

text \<open>
  How links evolve, what a tick does to them, and what every operation of the node keeps:
  \<open>steady\<close> (its own data) and \<open>links_le\<close> (no link is forgotten, reopened or given another key).
\<close>

section \<open>The order of link states\<close>

fun link_rank :: "link_status \<Rightarrow> nat" where
  "link_rank Pending = 0"
| "link_rank Handshake = 1"
| "link_rank Active = 2"
| "link_rank Closed = 3"

definition link_le :: "link_entry \<Rightarrow> link_entry \<Rightarrow> bool" where
  "link_le l l' \<longleftrightarrow> link_rank (le_status l) \<le> link_rank (le_status l') \<and>
     le_initiator l' = le_initiator l \<and> le_ephemeral l' = le_ephemeral l \<and>
     le_destination_public l' = le_destination_public l \<and> le_interface l' = le_interface l \<and>
     (2 \<le> link_rank (le_status l) \<longrightarrow> le_derived_key l' = le_derived_key l)"

definition links_le :: "node \<Rightarrow> node \<Rightarrow> bool" where
  "links_le nd nd' \<longleftrightarrow> (\<forall>i l. links_get i (nd_links nd) = Some l \<longrightarrow>
     (\<exists>l'. links_get i (nd_links nd') = Some l' \<and> link_le l l'))"

lemma link_le_refl [simp]: "link_le l l"
  by (simp add: link_le_def)

lemma link_le_trans: "link_le a b \<Longrightarrow> link_le b c \<Longrightarrow> link_le a c"
  by (auto simp: link_le_def)

lemma links_le_refl [simp]: "links_le nd nd"
  by (simp add: links_le_def)

lemma links_le_trans: "links_le a b \<Longrightarrow> links_le b c \<Longrightarrow> links_le a c"
  unfolding links_le_def by (meson link_le_trans)

lemma links_le_same: "nd_links nd' = nd_links nd1 \<Longrightarrow> links_le nd nd1 \<Longrightarrow> links_le nd nd'"
  by (simp add: links_le_def)

lemma links_le_update:
  assumes "links_le nd nd1" and "nd_links nd' = links_update i f (nd_links nd1)"
    and "\<And>l. links_get i (nd_links nd1) = Some l \<Longrightarrow> link_le l (f l)"
  shows "links_le nd nd'"
proof -
  have "links_le nd1 nd'" using assms(2,3) by (auto simp: links_le_def)
  then show ?thesis using links_le_trans [OF assms(1)] by blast
qed

lemma links_le_insert:
  assumes "links_le nd nd1" and "nd_links nd' = links_insert i l (nd_links nd1)"
    and "links_get i (nd_links nd1) = None"
  shows "links_le nd nd'"
proof -
  have "links_le nd1 nd'" using assms(2,3) by (auto simp: links_le_def)
  then show ?thesis using links_le_trans [OF assms(1)] by blast
qed

lemma transfer_frame_links: "transfer_frame nd nd' \<Longrightarrow> links_le nd nd'"
  by (simp add: links_le_def transfer_frame_same)

section \<open>Both together\<close>

text \<open>\<open>keeps nd nd'\<close>: the node's own data is the same and its links have only moved forward.\<close>

definition keeps :: "node \<Rightarrow> node \<Rightarrow> bool" where
  "keeps nd nd' \<longleftrightarrow> steady nd nd' \<and> links_le nd nd'"

lemma keeps_refl [simp]: "keeps nd nd"
  by (simp add: keeps_def)

lemma keeps_trans: "keeps a b \<Longrightarrow> keeps b c \<Longrightarrow> keeps a c"
  unfolding keeps_def using steady_trans links_le_trans by blast

lemma keeps_transfer: "transfer_frame nd nd' \<Longrightarrow> keeps nd nd'"
  by (simp add: keeps_def transfer_frame_steady transfer_frame_links)

lemma keeps_then_transfer: "keeps nd nd1 \<Longrightarrow> transfer_frame nd1 nd' \<Longrightarrow> keeps nd nd'"
  using keeps_trans keeps_transfer by blast

lemma keeps_push [simp]: "keeps nd nd1 \<Longrightarrow> keeps nd (push_out i b nd1)"
  by (erule keeps_then_transfer) simp

lemma keeps_push_all [simp]: "keeps nd nd1 \<Longrightarrow> keeps nd (push_all is b nd1)"
  by (simp add: keeps_def push_all_eq steady_def links_le_def) auto

lemma keeps_fields [simp]:
  "keeps nd nd1 \<Longrightarrow> keeps nd (nd1\<lparr>nd_paths := a\<rparr>)"
  "keeps nd nd1 \<Longrightarrow> keeps nd (nd1\<lparr>nd_cached_announces := c\<rparr>)"
  "keeps nd nd1 \<Longrightarrow> keeps nd (nd1\<lparr>nd_seen_announces := d\<rparr>)"
  "keeps nd nd1 \<Longrightarrow> keeps nd (nd1\<lparr>nd_seen_path_requests := d\<rparr>)"
  "keeps nd nd1 \<Longrightarrow> keeps nd (nd1\<lparr>nd_pending_events := e\<rparr>)"
  "keeps nd nd1 \<Longrightarrow> keeps nd (nd1\<lparr>nd_pending_receipts := f\<rparr>)"
  "keeps nd nd1 \<Longrightarrow> keeps nd (nd1\<lparr>nd_inbound_resources := g\<rparr>)"
  "keeps nd nd1 \<Longrightarrow> keeps nd (nd1\<lparr>nd_outbound_resources := h\<rparr>)"
  by (simp_all add: keeps_def steady_steps links_le_def)

lemma keeps_prune [simp]: "keeps nd nd1 \<Longrightarrow> keeps nd (node_prune nd1)"
  by (simp add: node_prune_eq)

lemma keeps_update:
  assumes "keeps nd nd1" and "\<And>l. links_get i (nd_links nd1) = Some l \<Longrightarrow> link_le l (f l)"
  shows "keeps nd (nd1\<lparr>nd_links := links_update i f (nd_links nd1)\<rparr>)"
proof -
  have "links_le nd nd1" using assms(1) by (simp add: keeps_def)
  then have "links_le nd (nd1\<lparr>nd_links := links_update i f (nd_links nd1)\<rparr>)"
    by (rule links_le_update [where i = i and f = f]) (simp_all add: assms(2))
  then show ?thesis using assms(1) by (simp add: keeps_def steady_steps)
qed

lemma keeps_insert:
  assumes "keeps nd nd1" and "links_get i (nd_links nd1) = None"
  shows "keeps nd (nd1\<lparr>nd_links := links_insert i l (nd_links nd1)\<rparr>)"
  using assms links_le_insert [of nd nd1 "nd1\<lparr>nd_links := links_insert i l (nd_links nd1)\<rparr>" i l]
  by (simp add: keeps_def steady_steps)

lemma keeps_touch [simp]: "keeps nd nd1 \<Longrightarrow> keeps nd (touch_link i nd1)"
  unfolding touch_link_def by (rule keeps_update) (simp_all add: link_le_def)

lemma keeps_close [simp]: "keeps nd nd1 \<Longrightarrow> keeps nd (close_link i nd1)"
proof (cases "links_get i (nd_links nd1)")
  case (Some l)
  assume k: "keeps nd nd1"
  have "link_rank s \<le> 3" for s by (cases s) auto
  then have "keeps nd (nd1\<lparr>nd_links := links_update i (\<lambda>l. l\<lparr>le_status := Closed\<rparr>) (nd_links nd1)\<rparr>)"
    by (intro keeps_update [OF k]) (simp add: link_le_def)
  then show ?thesis using k Some keeps_fields(5) by (simp add: close_link_def)
qed (simp add: close_link_def)

section \<open>The tick\<close>

definition tick_link :: "u64 \<Rightarrow> link_entry \<Rightarrow> link_entry" where
  "tick_link now l =
     (if le_status l \<noteq> Active then l
      else if sat_sub now (le_last_activity l) \<ge> LINK_STALE_SECS then l\<lparr>le_status := Closed\<rparr>
      else if le_initiator l \<and> sat_sub now (le_last_keepalive l) \<ge> LINK_KEEPALIVE_SECS
      then l\<lparr>le_last_keepalive := now\<rparr> else l)"

definition stale :: "u64 \<Rightarrow> link_entry \<Rightarrow> bool" where
  "stale now l \<longleftrightarrow> le_status l = Active \<and> sat_sub now (le_last_activity l) \<ge> LINK_STALE_SECS"

definition keepalive_due :: "u64 \<Rightarrow> link_entry \<Rightarrow> bool" where
  "keepalive_due now l \<longleftrightarrow> le_status l = Active \<and> \<not> stale now l \<and> le_initiator l \<and>
     sat_sub now (le_last_keepalive l) \<ge> LINK_KEEPALIVE_SECS"

lemma tick_links_eq:
  "tick_links now t = (links_map (\<lambda>_. tick_link now) t,
     map (\<lambda>(i, l). (le_interface l, i)) (filter (\<lambda>(i, l). keepalive_due now l) t),
     map fst (filter (\<lambda>(i, l). stale now l) t))"
  by (induction t) (auto simp: links_map_def tick_link_def stale_def keepalive_due_def Let_def split: if_splits)

lemma tick_link_le: "link_le l (tick_link now l)"
  by (simp add: tick_link_def link_le_def)

lemma keeps_map:
  assumes "keeps nd nd1" and "\<And>i l. link_le l (f i l)"
  shows "keeps nd (nd1\<lparr>nd_links := links_map f (nd_links nd1)\<rparr>)"
proof -
  have "links_le nd1 (nd1\<lparr>nd_links := links_map f (nd_links nd1)\<rparr>)" using assms(2) by (auto simp: links_le_def)
  then show ?thesis using assms(1) links_le_trans unfolding keeps_def by (auto simp: steady_steps)
qed

lemma keeps_fold_push: "keeps nd nd1 \<Longrightarrow> keeps nd (fold (\<lambda>(i, l). push_out i (b l)) ks nd1)"
  by (induction ks arbitrary: nd1) (auto simp: case_prod_beta)

lemma keeps_enqueue [simp]:
  "keeps nd nd1 \<Longrightarrow> keeps nd (fst (enqueue_encrypted_link_context X E lid i c pt key r nd1))"
  by (erule keeps_then_transfer) simp

lemma keeps_tick_resource [simp]:
  "keeps nd (fst s) \<Longrightarrow> keeps nd (fst (tick_resource X E now k s))"
proof -
  assume k: "keeps nd (fst s)"
  obtain nd1 rng where s: "s = (nd1, rng)" by fastforce
  show ?thesis
  proof (cases "bt_get k (nd_inbound_resources nd1)")
    case (Some res)
    obtain retry res' where r: "retry_due now res = (retry, res')" by fastforce
    show ?thesis
    proof (cases retry)
      case (Inl e)
      then show ?thesis using k s Some r keeps_fields by (simp add: tick_resource_def Let_def)
    next
      case (Inr q)
      show ?thesis
      proof (cases "q = None \<or> rng = None \<or> links_get (fst k) (nd_links nd1) = None
          \<or> le_derived_key (the (links_get (fst k) (nd_links nd1))) = None")
        case True
        then show ?thesis using k s Some r Inr
          by (cases q; cases rng; cases "links_get (fst k) (nd_links nd1)") (auto simp: tick_resource_def Let_def)
      next
        case False
        then show ?thesis using k s Some r Inr
          by (auto simp: tick_resource_def Let_def case_prod_beta)
      qed
    qed
  qed (use k s in \<open>simp add: tick_resource_def\<close>)
qed

lemma keeps_tick_resources: "keeps nd (fst s) \<Longrightarrow> keeps nd (fst (fold (tick_resource X E now) ks s))"
  by (induction ks arbitrary: s) simp_all

end
