(* ===== verification/Node_Keeps.thy ===== *)
theory Node_Keeps
  imports Node_Links
begin

text \<open>
  Every operation of the node and every handler, one lemma each, keeps the node's own data and moves
  links forward only (\<open>keeps\<close>). \<open>establish_link\<close> alone may replace a link, the one whose id it returns.
\<close>

section \<open>Sending\<close>

lemma keeps_tick_inner [simp]:
  assumes "keeps nd nd1" shows "keeps nd (fst (snd (tick_inner X E rng nd1)))"
proof -
  let ?now = "nd_clock nd1"
  define a where "a = nd1\<lparr>nd_pending_receipts := bt_retain (\<lambda>_ receipt. pr_expires_at receipt > ?now) (nd_pending_receipts nd1)\<rparr>"
  define b where "b = a\<lparr>nd_links := links_map (\<lambda>_. tick_link ?now) (nd_links a)\<rparr>"
  define ks where "ks = map (\<lambda>(i, l). (le_interface l, i)) (filter (\<lambda>(i, l). keepalive_due ?now l) (nd_links nd1))"
  define c where "c = fold (\<lambda>(i, link_id). push_out i
     (packet_encode (link_data_with_context link_id [0xFF] KEEPALIVE))) ks b"
  define d where "d = c\<lparr>nd_pending_events := nd_pending_events c @
     map LinkClosed (map fst (filter (\<lambda>(i, l). stale ?now l) (nd_links nd1)))\<rparr>"
  have "keeps nd a" using assms by (simp add: a_def)
  then have "keeps nd b" unfolding b_def by (rule keeps_map) (rule tick_link_le)
  then have "keeps nd c" unfolding c_def by (rule keeps_fold_push)
  then have "keeps nd d" by (simp add: d_def)
  then have "keeps nd (fst (fold (tick_resource X E ?now) (bt_keys (nd_inbound_resources d)) (d, rng)))"
    by (intro keeps_tick_resources) simp
  moreover have "fst (snd (tick_inner X E rng nd1)) =
      fst (fold (tick_resource X E ?now) (bt_keys (nd_inbound_resources d)) (d, rng))\<lparr>nd_pending_events := []\<rparr>"
    by (simp add: tick_inner_def tick_links_eq Let_def case_prod_beta a_def [symmetric] d_def c_def ks_def b_def)
      (simp add: a_def)
  ultimately show ?thesis by simp
qed

lemma keeps_tick [simp]: "keeps nd nd1 \<Longrightarrow> keeps nd (snd (tick X nd1))"
  by (simp add: tick_def case_prod_beta)

lemma keeps_send_announce [simp]: "keeps nd nd1 \<Longrightarrow> keeps nd (fst (send_announce X E dh app r i nd1))"
  by (simp add: send_announce_def Let_def case_prod_beta split: option.split)

lemma keeps_request_path [simp]: "keeps nd nd1 \<Longrightarrow> keeps nd (fst (request_path X E dh r nd1))"
  by (simp add: request_path_def Let_def case_prod_beta)

lemma keeps_send_single [simp]:
  "keeps nd nd1 \<Longrightarrow> keeps nd (fst (snd (send_single_message X E dh pt r b nd1)))"
  by (simp add: send_single_message_def Let_def case_prod_beta split: option.split)

lemma keeps_send_message [simp]:
  "keeps nd nd1 \<Longrightarrow> keeps nd (fst (snd (send_message X E dh pt r nd1)))"
  "keeps nd nd1 \<Longrightarrow> keeps nd (fst (snd (send_message_with_receipt X E dh pt r nd1)))"
  by (simp_all add: send_message_def send_message_with_receipt_def Let_def case_prod_beta)

lemma keeps_enqueue_destination [simp]: "keeps nd nd1 \<Longrightarrow> keeps nd (snd (enqueue_destination_packet p dh nd1))"
  by (simp add: enqueue_destination_packet_def Let_def split: option.split)

lemma keeps_send_group [simp]:
  "keeps nd nd1 \<Longrightarrow> keeps nd (fst (snd (send_group_message X E dh pt r nd1)))"
  "keeps nd nd1 \<Longrightarrow> keeps nd (snd (send_plain_message dh pt nd1))"
  by (simp_all add: send_group_message_def send_plain_message_def Let_def case_prod_beta split: option.split)

lemma keeps_link_send [simp]: "keeps nd nd1 \<Longrightarrow> keeps nd (fst (snd (link_send X E lid pt r nd1)))"
  by (simp add: link_send_def Let_def case_prod_beta split: option.split)

lemma keeps_send_resource:
  assumes "send_resource X E lid d r nd1 = Some (res, nd', r')" and "keeps nd nd1" shows "keeps nd nd'"
proof (cases "active_key lid nd1")
  case None
  then show ?thesis using assms by (simp add: send_resource_def)
next
  case (Some ki)
  obtain key i where ki: "ki = (key, i)" by fastforce
  obtain x r1 where o: "outbound_new X E d key r (nd_clock nd1) = Some (x, r1)"
    using assms Some ki by (cases "outbound_new X E d key r (nd_clock nd1)") (auto simp: send_resource_def)
  show ?thesis
  proof (cases x)
    case (Inl e)
    then show ?thesis using assms Some ki o by (simp add: send_resource_def)
  next
    case (Inr ra)
    let ?nd = "nd1\<lparr>nd_outbound_resources := bt_insert (lid, ob_hash (fst ra)) (fst ra) (nd_outbound_resources nd1)\<rparr>"
    have "nd' = fst (enqueue_encrypted_link_context X E lid i RESOURCE_ADV (snd ra) key r1 ?nd)"
      using assms(1) Some ki o Inr by (auto simp: send_resource_def Let_def case_prod_beta)
    then show ?thesis using assms(2) by simp
  qed
qed

section \<open>Receiving\<close>

lemma keeps_link_request [simp]:
  assumes k: "keeps nd nd1" shows "keeps nd (fst (snd (handle_link_request X E p dh i r nd1)))"
proof (cases "parse_link_request (data p)")
  case (Inl e)
  then show ?thesis using k by (simp add: handle_link_request_def)
next
  case (Inr q)
  show ?thesis
  proof (cases "links_get (link_id_from_request X p) (nd_links nd1) = None")
    case True
    then show ?thesis
      using Inr k keeps_insert [OF k True] by (simp add: handle_link_request_def Let_def case_prod_beta)
  next
    case False
    then show ?thesis using Inr k by (cases q) (simp add: handle_link_request_def Let_def)
  qed
qed

text \<open>The link after an accepted proof.\<close>

definition activated :: "bytes \<Rightarrow> bytes \<Rightarrow> u64 \<Rightarrow> link_entry \<Rightarrow> link_entry" where
  "activated peer key now l = l\<lparr>le_status := Active, le_peer_x25519_pub := Some peer,
     le_derived_key := Some key, le_last_activity := now\<rparr>"

lemma activated_fun: "activated peer key now = (\<lambda>l. l\<lparr>le_status := Active, le_peer_x25519_pub := Some peer,
     le_derived_key := Some key, le_last_activity := now\<rparr>)"
  by (rule ext) (simp add: activated_def)

lemma keeps_link_proof [simp]:
  assumes k: "keeps nd nd1" shows "keeps nd (fst (snd (handle_link_proof X E p lid rng nd1)))"
proof (cases "\<exists>l pub peer. links_get lid (nd_links nd1) = Some l \<and> le_status l = Pending \<and> le_initiator l \<and>
    le_destination_public l = Some pub \<and> verify_link_proof X pub lid (data p) = Inr peer")
  case False
  then show ?thesis using k
    by (auto simp: handle_link_proof_def split: option.split sum.split)
next
  case True
  then obtain l pub peer where l: "links_get lid (nd_links nd1) = Some l" "le_status l = Pending" "le_initiator l"
    "le_destination_public l = Some pub" "verify_link_proof X pub lid (data p) = Inr peer" by blast
  have "keeps nd (nd1\<lparr>nd_links := links_update lid
      (activated peer (derive_link_key X (x25519_prv (le_ephemeral l)) peer lid) (nd_clock nd1)) (nd_links nd1)\<rparr>)"
    using l by (intro keeps_update [OF k]) (simp add: link_le_def activated_def)
  then show ?thesis using l
    by (cases rng) (simp_all add: handle_link_proof_def Let_def case_prod_beta activated_fun)
qed

lemma keeps_resource_handlers [simp]:
  "keeps nd nd1 \<Longrightarrow> keeps nd (fst (snd (handle_resource_part X E lid i key part rng nd1)))"
  "keeps nd nd1 \<Longrightarrow> keeps nd (fst (snd (handle_resource_context X E lid i key c pt r nd1)))"
  "keeps nd nd1 \<Longrightarrow> keeps nd (snd (handle_resource_proof p lid nd1))"
  by (erule keeps_then_transfer, simp)+

lemma keeps_link_data [simp]:
  assumes k: "keeps nd nd1" shows "keeps nd (fst (snd (handle_link_data X E p lid i rng nd1)))"
proof (cases "\<exists>l key. links_get lid (nd_links nd1) = Some l \<and> le_status l = Active \<and> le_interface l = i \<and> le_derived_key l = Some key")
  case False
  then show ?thesis using k by (auto simp: handle_link_data_def split: option.split)
next
  case True
  then obtain l key where l: "links_get lid (nd_links nd1) = Some l" "le_status l = Active" "le_interface l = i"
    "le_derived_key l = Some key" by blast
  show ?thesis
  proof (cases "ctx p = RESOURCE \<or> ctx p = KEEPALIVE")
    case True
    then show ?thesis using k l by (auto simp: handle_link_data_def contexts)
  next
    case False
    show ?thesis
    proof (cases "open_with_key X key (data p)")
      case (Inl e)
      then show ?thesis using k l False by (simp add: handle_link_data_def)
    next
      case (Inr pt)
      then show ?thesis using k l False
        by (cases rng) (simp_all add: handle_link_data_def Let_def case_prod_beta)
    qed
  qed
qed

lemma keeps_delivery_proof [simp]:
  "keeps nd nd1 \<Longrightarrow> keeps nd (snd (handle_delivery_proof X p d nd1))"
  by (simp add: handle_delivery_proof_def split: option.split)

lemma keeps_announce [simp]:
  assumes k: "keeps nd nd1" shows "keeps nd (snd (handle_announce X p dh i nd1))"
proof (cases "announce_parse (data p) (context_flag p)")
  case (Inl e)
  then show ?thesis using k by (simp add: handle_announce_def)
next
  case (Inr a)
  show ?thesis
  proof (cases "announce_verify X a dh")
    case (Inl e)
    then show ?thesis using k Inr by (simp add: handle_announce_def)
  next
    case v: (Inr u)
    show ?thesis
      using k by (cases "pub_from_bytes (an_public a)")
        (simp_all add: handle_announce_def Inr v Let_def case_prod_beta)
  qed
qed

lemma keeps_path_request [simp]:
  assumes k: "keeps nd nd1" shows "keeps nd (handle_path_request X p i nd1)"
  using k by (simp add: handle_path_request_def Let_def case_prod_beta split: option.split)

lemma keeps_data [simp]:
  assumes k: "keeps nd nd1" shows "keeps nd (snd (handle_data X p dh i nd1))"
proof -
  have f: "keeps nd (forward_data p dh i nd1)"
    using k by (simp add: forward_data_def Let_def split: option.split)
  show ?thesis using k f
    by (simp add: handle_data_def Let_def split: option.split sum.split local_kind.split)
qed

lemma keeps_dispatch [simp]:
  assumes k: "keeps nd nd1" shows "keeps nd (fst (snd (dispatch X E p i rng nd1)))"
proof (cases "length (dest_hash p) = 16")
  case False
  then show ?thesis using k by (simp add: dispatch_def try_array_def)
next
  case True
  then show ?thesis using k
    by (cases rng) (simp_all add: dispatch_def try_array_def case_prod_beta)
qed

end
