(* ===== verification/Node_System.thy ===== *)
theory Node_System
  imports Node_Keeps
begin

text \<open>
  The node as a transition system: \<open>node_exec\<close> performs one operation of its interface (a received
  packet, a tick, a request of the application, the passing of time), \<open>node_run\<close> a sequence of them,
  \<open>node_reach\<close> the states reached from a fresh node. \<open>send_resource\<close> may run for ever (see
  \<open>choose_map\<close>), so an operation returns an option. The invariant \<open>node_ok\<close> holds in every reachable
  state.
\<close>

datatype node_op =
    Receive bytes u16 bool \<comment> \<open>with entropy, or \<open>handle_inbound\<close>\<close>
  | Tick bool
  | Wait u64
  | SendAnnounce bytes bytes u16
  | RequestPath bytes
  | SendMessage bytes bytes bool \<comment> \<open>with a receipt or without\<close>
  | SendGroup bytes bytes
  | SendPlain bytes bytes
  | Establish bytes
  | LinkSend bytes bytes
  | SendResource bytes bytes
  | CloseLink bytes
  | Poll
  | PrunePaths
  | EnableTransport bool
  | AddInterface u16
  | DropInterface u16
  | RegisterSingle bytes "bytes list"
  | RegisterGroup bytes "bytes list" bytes
  | RegisterPlain bytes "bytes list"
  | SetProve bytes bool

text \<open>Events, the node and the entropy source afterwards; the results of the calls are not kept.\<close>

fun node_exec :: "ext \<Rightarrow> 'r entropy \<Rightarrow> node_op \<Rightarrow> node \<times> 'r \<Rightarrow> (event list \<times> node \<times> 'r) option" where
  "node_exec X E (Receive bs i True) (nd, r) = Some (handle_inbound_with_entropy X E bs i r nd)"
| "node_exec X E (Receive bs i False) (nd, r) = (let (evs, nd) = handle_inbound X bs i nd in Some (evs, nd, r))"
| "node_exec X E (Tick True) (nd, r) = Some (tick_with_entropy X E r nd)"
| "node_exec X E (Tick False) (nd, r) = (let (evs, nd) = tick X nd in Some (evs, nd, r))"
| "node_exec X E (Wait d) (nd, r) = Some ([], nd\<lparr>nd_clock := sat_add (nd_clock nd) d\<rparr>, r)"
| "node_exec X E (SendAnnounce dh app i) (nd, r) = Some ([], send_announce X E dh app r i nd)"
| "node_exec X E (RequestPath dh) (nd, r) = Some ([], request_path X E dh r nd)"
| "node_exec X E (SendMessage dh pt False) (nd, r) = Some ([], snd (send_message X E dh pt r nd))"
| "node_exec X E (SendMessage dh pt True) (nd, r) = Some ([], snd (send_message_with_receipt X E dh pt r nd))"
| "node_exec X E (SendGroup dh pt) (nd, r) = Some ([], snd (send_group_message X E dh pt r nd))"
| "node_exec X E (SendPlain dh pt) (nd, r) = Some ([], snd (send_plain_message dh pt nd), r)"
| "node_exec X E (Establish dh) (nd, r) = Some ([], snd (establish_link X E dh r nd))"
| "node_exec X E (LinkSend lid pt) (nd, r) = Some ([], snd (link_send X E lid pt r nd))"
| "node_exec X E (SendResource lid d) (nd, r) = map_option (\<lambda>(_, nd, r). ([], nd, r)) (send_resource X E lid d r nd)"
| "node_exec X E (CloseLink lid) (nd, r) = Some ([], close_link lid nd, r)"
| "node_exec X E Poll (nd, r) = Some ([], snd (poll_outbound nd), r)"
| "node_exec X E PrunePaths (nd, r) = Some ([], snd (prune_paths nd), r)"
| "node_exec X E (EnableTransport b) (nd, r) = Some ([], enable_transport b nd, r)"
| "node_exec X E (AddInterface i) (nd, r) = Some ([], register_interface i nd, r)"
| "node_exec X E (DropInterface i) (nd, r) = Some ([], unregister_interface i nd, r)"
| "node_exec X E (RegisterSingle app asp) (nd, r) = Some ([], snd (register_single_destination X app asp nd), r)"
| "node_exec X E (RegisterGroup app asp key) (nd, r) = Some ([], snd (register_group_destination X app asp key nd), r)"
| "node_exec X E (RegisterPlain app asp) (nd, r) = Some ([], snd (register_plain_destination X app asp nd), r)"
| "node_exec X E (SetProve dh b) (nd, r) = Some ([], snd (set_prove dh b nd), r)"

inductive node_run :: "ext \<Rightarrow> 'r entropy \<Rightarrow> node \<times> 'r \<Rightarrow> event list \<Rightarrow> node \<times> 'r \<Rightarrow> bool" for X E where
  refl: "node_run X E s [] s"
| step: "node_exec X E op1 s = Some (evs, s') \<Longrightarrow> node_run X E s' evs' s'' \<Longrightarrow> node_run X E s (evs @ evs') s''"

inductive_cases node_run_cases: "node_run X E s evs s'"

definition node_reach :: "ext \<Rightarrow> 'r entropy \<Rightarrow> node \<Rightarrow> bool" where
  "node_reach X E nd \<longleftrightarrow> (\<exists>i c r evs r'. node_run X E (node_with_clock i c, r) evs (nd, r'))"

section \<open>What single operations leave of the packets seen\<close>

text \<open>A packet counts as seen at a time when its hash is in the map with a later expiry.\<close>

definition seen_until :: "u64 \<Rightarrow> bytes \<Rightarrow> node \<Rightarrow> bool" where
  "seen_until e h nd \<longleftrightarrow> bt_ok (nd_seen_packets nd) \<and> (\<exists>e'. bt_get h (nd_seen_packets nd) = Some e' \<and> e \<le> e')"

lemma keeps_seen: "keeps nd nd' \<Longrightarrow> nd_seen_packets nd' = nd_seen_packets nd"
  by (simp add: keeps_def steady_def)

lemma keeps_clock: "keeps nd nd' \<Longrightarrow> nd_clock nd' = nd_clock nd"
  by (simp add: keeps_def steady_def)

end
