(* ===== verification/Node_Invariant.thy ===== *)
theory Node_Invariant
  imports Node_System
begin

text \<open>
  The invariant \<open>node_ok\<close> of a node: its maps are ordered, its interfaces distinct, every link is in a
  state the protocol allows, every resource is filed under its own hash and well formed. One lemma per
  operation shows that it is kept; \<open>node_reach_ok\<close> is the summary.
\<close>

definition link_ok :: "link_entry \<Rightarrow> bool" where
  "link_ok l \<longleftrightarrow> le_status l \<noteq> Handshake \<and>
     (le_status l = Active \<longrightarrow> (\<exists>k. le_derived_key l = Some k \<and> length k = 64)) \<and>
     (le_initiator l \<longrightarrow> le_destination_public l \<noteq> None) \<and>
     (le_status l = Pending \<longrightarrow> le_initiator l \<and> le_derived_key l = None)"

definition node_ok :: "node \<Rightarrow> bool" where
  "node_ok nd \<longleftrightarrow> distinct (nd_interfaces nd) \<and>
     bt_ok (nd_paths nd) \<and> bt_ok (nd_seen_announces nd) \<and> bt_ok (nd_seen_path_requests nd) \<and>
     bt_ok (nd_seen_packets nd) \<and> bt_ok (nd_cached_announces nd) \<and> bt_ok (nd_links nd) \<and>
     bt_ok (nd_pending_receipts nd) \<and> bt_ok (nd_outbound_resources nd) \<and> bt_ok (nd_inbound_resources nd) \<and>
     (\<forall>i l. links_get i (nd_links nd) = Some l \<longrightarrow> link_ok l) \<and>
     (\<forall>k res. bt_get k (nd_inbound_resources nd) = Some res \<longrightarrow> ib_ok res \<and> snd k = ib_hash res) \<and>
     (\<forall>k res. bt_get k (nd_outbound_resources nd) = Some res \<longrightarrow> snd k = ob_hash res \<and> \<not> ob_completed res)"

lemma node_okD:
  assumes "node_ok nd"
  shows "distinct (nd_interfaces nd)" "bt_ok (nd_paths nd)" "bt_ok (nd_seen_announces nd)"
    "bt_ok (nd_seen_path_requests nd)" "bt_ok (nd_seen_packets nd)" "bt_ok (nd_cached_announces nd)"
    "bt_ok (nd_links nd)" "bt_ok (nd_pending_receipts nd)" "bt_ok (nd_outbound_resources nd)"
    "bt_ok (nd_inbound_resources nd)"
    "links_get i (nd_links nd) = Some l \<Longrightarrow> link_ok l"
    "bt_get k (nd_inbound_resources nd) = Some ib \<Longrightarrow> ib_ok ib \<and> snd k = ib_hash ib"
    "bt_get k (nd_outbound_resources nd) = Some ob \<Longrightarrow> snd k = ob_hash ob \<and> \<not> ob_completed ob"
  using assms unfolding node_ok_def by blast+

section \<open>Updates of single fields\<close>

lemma node_ok_simple [simp]:
  "node_ok (push_out i b nd) = node_ok nd"
  "node_ok (push_all is b nd) = node_ok nd"
  "node_ok (nd\<lparr>nd_outbound := q\<rparr>) = node_ok nd"
  "node_ok (nd\<lparr>nd_clock := c\<rparr>) = node_ok nd"
  "node_ok (nd\<lparr>nd_locals := ls\<rparr>) = node_ok nd"
  "node_ok (nd\<lparr>nd_pending_events := es\<rparr>) = node_ok nd"
  "node_ok (nd\<lparr>nd_transport_enabled := b'\<rparr>) = node_ok nd"
  by (simp_all add: node_ok_def push_all_eq)

lemma node_ok_maps [simp]:
  "node_ok nd \<Longrightarrow> bt_ok a \<Longrightarrow> node_ok (nd\<lparr>nd_paths := a\<rparr>)"
  "node_ok nd \<Longrightarrow> bt_ok b \<Longrightarrow> node_ok (nd\<lparr>nd_cached_announces := b\<rparr>)"
  "node_ok nd \<Longrightarrow> bt_ok c \<Longrightarrow> node_ok (nd\<lparr>nd_seen_announces := c\<rparr>)"
  "node_ok nd \<Longrightarrow> bt_ok c \<Longrightarrow> node_ok (nd\<lparr>nd_seen_path_requests := c\<rparr>)"
  "node_ok nd \<Longrightarrow> bt_ok d \<Longrightarrow> node_ok (nd\<lparr>nd_seen_packets := d\<rparr>)"
  "node_ok nd \<Longrightarrow> bt_ok e \<Longrightarrow> node_ok (nd\<lparr>nd_pending_receipts := e\<rparr>)"
  by (simp_all add: node_ok_def)

lemma node_ok_links:
  assumes "node_ok nd" and "bt_ok t" and "\<And>i l. links_get i t = Some l \<Longrightarrow> link_ok l"
  shows "node_ok (nd\<lparr>nd_links := t\<rparr>)"
  using assms unfolding node_ok_def by simp

lemma node_ok_link_insert:
  "node_ok nd \<Longrightarrow> link_ok l \<Longrightarrow> node_ok (nd\<lparr>nd_links := links_insert i l (nd_links nd)\<rparr>)"
  by (rule node_ok_links) (auto simp: node_okD split: if_splits)

lemma node_ok_link_update:
  assumes "node_ok nd" and "\<And>l. links_get i (nd_links nd) = Some l \<Longrightarrow> link_ok (f l)"
  shows "node_ok (nd\<lparr>nd_links := links_update i f (nd_links nd)\<rparr>)"
  using assms node_okD(11) [OF assms(1)] by (intro node_ok_links) (auto simp: node_okD split: if_splits)

lemma node_ok_link_map:
  assumes "node_ok nd" and "\<And>i l. link_ok l \<Longrightarrow> link_ok (f i l)"
  shows "node_ok (nd\<lparr>nd_links := links_map f (nd_links nd)\<rparr>)"
  using assms node_okD(11) [OF assms(1)] by (intro node_ok_links) (auto simp: node_okD)

lemma node_ok_inbound [simp]:
  "node_ok nd \<Longrightarrow> ib_ok res \<Longrightarrow> snd k = ib_hash res \<Longrightarrow>
     node_ok (nd\<lparr>nd_inbound_resources := bt_insert k res (nd_inbound_resources nd)\<rparr>)"
  "node_ok nd \<Longrightarrow> node_ok (nd\<lparr>nd_inbound_resources := bt_remove k (nd_inbound_resources nd)\<rparr>)"
  by (auto simp: node_ok_def bt_oks bt_simps)

lemma node_ok_outbound [simp]:
  "node_ok nd \<Longrightarrow> snd k = ob_hash ob \<Longrightarrow> \<not> ob_completed ob \<Longrightarrow>
     node_ok (nd\<lparr>nd_outbound_resources := bt_insert k ob (nd_outbound_resources nd)\<rparr>)"
  "node_ok nd \<Longrightarrow> node_ok (nd\<lparr>nd_outbound_resources := bt_remove k (nd_outbound_resources nd)\<rparr>)"
  by (auto simp: node_ok_def bt_oks bt_simps)

lemma node_ok_cancel [simp]:
  "node_ok nd \<Longrightarrow> node_ok (nd\<lparr>nd_inbound_resources := bt_remove k (nd_inbound_resources nd),
     nd_outbound_resources := bt_remove k (nd_outbound_resources nd)\<rparr>)"
  by (auto simp: node_ok_def bt_oks bt_simps)

lemma node_ok_prune [simp]: "node_ok nd \<Longrightarrow> node_ok (node_prune nd)"
  by (simp add: node_prune_eq path_prune_ok node_okD)

lemma node_ok_maybe_prune [simp]: "node_ok nd \<Longrightarrow> node_ok (maybe_prune now nd)"
  by (simp add: maybe_prune_def node_ok_def bt_oks)

lemma node_ok_touch [simp]: "node_ok nd \<Longrightarrow> node_ok (touch_link i nd)"
  unfolding touch_link_def by (rule node_ok_link_update) (auto simp: link_ok_def dest: node_okD(11))

lemma node_ok_close [simp]:
  assumes "node_ok nd" shows "node_ok (close_link i nd)"
proof (cases "links_get i (nd_links nd)")
  case (Some l)
  have "node_ok (nd\<lparr>nd_links := links_update i (\<lambda>l. l\<lparr>le_status := Closed\<rparr>) (nd_links nd)\<rparr>)"
    using assms by (rule node_ok_link_update) (auto simp: link_ok_def dest: node_okD(11) [OF assms])
  then have "node_ok (nd\<lparr>nd_links := links_update i (\<lambda>l. l\<lparr>le_status := Closed\<rparr>) (nd_links nd),
      nd_pending_events := nd_pending_events nd @ [LinkClosed i]\<rparr>)" by (simp add: node_ok_def)
  then show ?thesis using assms Some by (simp add: close_link_def)
qed (use assms in \<open>simp add: close_link_def\<close>)

lemma node_ok_enqueue [simp]:
  "node_ok nd \<Longrightarrow> node_ok (fst (enqueue_encrypted_link_context X E lid i c pt key r nd))"
  by (simp add: enqueue_encrypted_link_context_def case_prod_beta)

section \<open>Resources\<close>

lemma ib_hash_same [simp]:
  "ib_hash (snd (next_request now ib)) = ib_hash ib"
  "ib_hash (snd (on_part X p ib)) = ib_hash ib"
  "ib_hash (snd (on_hashmap_update X d ib)) = ib_hash ib"
  "ib_hash (snd (retry_due now ib)) = ib_hash ib"
  using ib_step_same [of ib X "AskNext now"] ib_step_same [of ib X "GetPart p"]
    ib_step_same [of ib X "GetUpdate d"] ib_step_same [of ib X "RetryAt now"]
  by (simp_all add: ib_step_def ib_same_def)

lemma on_request_same [simp]:
  "ob_hash (snd (on_request X q now ob)) = ob_hash ob"
  "ob_completed (snd (on_request X q now ob)) = ob_completed ob"
  by (simp_all add: on_request_def Let_def)

lemma on_proof_same [simp]: "ob_hash (snd (on_proof q ob)) = ob_hash ob"
  "ob_completed (snd (on_proof q ob)) = fst (on_proof q ob)"
  by (simp_all add: on_proof_def Let_def)

lemmas ib_oks [simp] = next_request_ok on_part_ok on_hashmap_update_ok retry_due_ok

lemma node_ok_request_next [simp]:
  assumes "node_ok nd" shows "node_ok (fst (request_next X E lid h i key r nd))"
proof (cases "bt_get (lid, h) (nd_inbound_resources nd)")
  case None
  then show ?thesis using assms by (simp add: request_next_def)
next
  case (Some res)
  then have "ib_ok res" "h = ib_hash res" using node_okD(12) [OF assms Some] by simp_all
  then show ?thesis using assms Some
    by (cases "fst (next_request (nd_clock nd) res)") (simp_all add: request_next_def Let_def case_prod_beta)
qed

lemma node_ok_answers [simp]:
  "node_ok (fst s) \<Longrightarrow> node_ok (fst (fold (resource_answer X E lid i key) outs s))"
proof (induction outs arbitrary: s)
  case (Cons out1 outs)
  have "node_ok (fst (resource_answer X E lid i key out1 s))"
    using Cons.prems by (cases s; cases out1) (simp_all add: resource_answer_def)
  then show ?case using Cons.IH by simp
qed simp

lemma node_ok_part_request [simp]:
  assumes "node_ok nd" shows "node_ok (fst (part_request X E rk i key rng nd))"
proof (cases "rng = None \<or> bt_get rk (nd_inbound_resources nd) = None")
  case True
  then show ?thesis using assms by (auto simp: part_request_def split: option.split)
next
  case False
  then obtain r res where s: "rng = Some r" "bt_get rk (nd_inbound_resources nd) = Some res" by auto
  have "ib_ok res" "snd rk = ib_hash res" using node_okD(12) [OF assms s(2)] by simp_all
  then show ?thesis using assms s
    by (cases "fst (next_request (nd_clock nd) res)") (simp_all add: part_request_def Let_def case_prod_beta)
qed

lemma node_ok_part_complete [simp]:
  "node_ok nd \<Longrightarrow> node_ok (snd (part_complete X rk i key res nd))"
  by (cases "finalize X key res") (simp_all add: part_complete_def Let_def)

lemma node_ok_candidates [simp]:
  assumes "node_ok nd" shows "node_ok (fst (snd (handle_part_candidates X E ks i key part rng nd)))"
proof (induction ks)
  case (Cons rk ks)
  show ?case
  proof (cases "bt_get rk (nd_inbound_resources nd)")
    case None
    then show ?thesis using Cons by simp
  next
    case (Some res)
    have r: "ib_ok (snd (on_part X part res))" "snd rk = ib_hash (snd (on_part X part res))"
      using node_okD(12) [OF assms Some] by simp_all
    obtain b res' where p: "on_part X part res = (b, res')" by fastforce
    then show ?thesis using r Some Cons assms by (cases b) (simp_all add: Let_def case_prod_beta)
  qed
qed (simp add: assms)

lemma node_ok_resource_part [simp]:
  "node_ok nd \<Longrightarrow> node_ok (fst (snd (handle_resource_part X E lid i key part rng nd)))"
  by (simp add: handle_resource_part_def)

lemma node_ok_resource_context [simp]:
  assumes ok: "node_ok nd" shows "node_ok (fst (snd (handle_resource_context X E lid i key c pt r nd)))"
proof -
  note h = handle_resource_context_def contexts Let_def case_prod_beta ok
  consider "c = RESOURCE_ADV" | "c = RESOURCE_REQ" | "c = RESOURCE_HMU" | "c = RESOURCE_ICL \<or> c = RESOURCE_RCL"
    | "c \<notin> {RESOURCE_ADV, RESOURCE_REQ, RESOURCE_HMU, RESOURCE_ICL, RESOURCE_RCL}" by auto
  then show ?thesis
  proof cases
    case 1
    show ?thesis
    proof (cases "adv_unpack X pt")
      case a: (Inr a)
      show ?thesis
      proof (cases "inbound_from_advertisement a")
        case (Inr ib)
        then show ?thesis using 1 a inbound_new_ok [OF Inr] by (simp add: h)
      qed (simp add: 1 a h)
    qed (simp add: 1 h)
  next
    case 2
    show ?thesis
    proof (cases "if pt \<noteq> [] \<and> hd pt = 0xFF then array_at 5 37 pt else array_at 1 33 pt")
      case (Some hash)
      show ?thesis
      proof (cases "bt_get (lid, hash) (nd_outbound_resources nd)")
        case s: (Some ob)
        then show ?thesis using 2 Some node_okD(13) [OF ok s] by (simp add: h del: if_split)
      qed (simp add: 2 Some h del: if_split)
    qed (simp add: 2 h del: if_split)
  next
    case 3
    show ?thesis
    proof (cases "array_at 0 32 pt")
      case (Some hash)
      show ?thesis
      proof (cases "bt_get (lid, hash) (nd_inbound_resources nd)")
        case s: (Some res)
        then show ?thesis using 3 Some node_okD(12) [OF ok s]
          by (cases "fst (on_hashmap_update X pt res)") (simp_all add: h)
      qed (simp add: 3 Some h)
    qed (simp add: 3 h)
  next
    case 4
    then show ?thesis by (cases "array_at 0 32 pt") (auto simp: h)
  next
    case 5
    then show ?thesis by (simp add: h)
  qed
qed

lemma node_ok_resource_proof [simp]:
  assumes ok: "node_ok nd" shows "node_ok (snd (handle_resource_proof p lid nd))"
proof (cases "array_at 0 32 (data p)")
  case (Some hash)
  show ?thesis
  proof (cases "bt_get (lid, hash) (nd_outbound_resources nd)")
    case s: (Some ob)
    have o: "hash = ob_hash ob" using node_okD(13) [OF ok s] by simp
    show ?thesis
    proof (cases "fst (on_proof (data p) ob)")
      case True
      then show ?thesis using ok Some s
        by (simp add: handle_resource_proof_def Let_def case_prod_beta node_ok_def bt_oks bt_simps)
    next
      case False
      then show ?thesis using ok Some s o by (simp add: handle_resource_proof_def Let_def case_prod_beta)
    qed
  qed (simp add: handle_resource_proof_def Some ok)
qed (simp add: handle_resource_proof_def ok)

section \<open>The tick and the handlers\<close>

lemma node_ok_tick_resource [simp]:
  assumes ok: "node_ok (fst s)" shows "node_ok (fst (tick_resource X E now k s))"
proof -
  obtain nd rng where s: "s = (nd, rng)" by fastforce
  show ?thesis
  proof (cases "bt_get k (nd_inbound_resources nd)")
    case (Some res)
    obtain retry res' where r: "retry_due now res = (retry, res')" by fastforce
    have "ib_ok res'" "snd k = ib_hash res'"
      using node_okD(12) [of nd k res] ok s Some retry_due_ok [of res now] ib_hash_same(4) [of now res] r by simp_all
    then have n: "node_ok (nd\<lparr>nd_inbound_resources := bt_insert k res' (nd_inbound_resources nd)\<rparr>)"
      using ok s by simp
    show ?thesis
    proof (cases retry)
      case (Inl e)
      then show ?thesis using ok s Some r
        by (simp add: tick_resource_def Let_def node_ok_def bt_oks bt_simps)
    next
      case (Inr q)
      show ?thesis
      proof (cases "q = None \<or> rng = None \<or> links_get (fst k) (nd_links nd) = None
          \<or> le_derived_key (the (links_get (fst k) (nd_links nd))) = None")
        case True
        then show ?thesis using n s Some r Inr
          by (cases q; cases rng; cases "links_get (fst k) (nd_links nd)") (auto simp: tick_resource_def Let_def)
      next
        case False
        then show ?thesis using n s Some r Inr by (auto simp: tick_resource_def Let_def case_prod_beta)
      qed
    qed
  qed (use ok s in \<open>simp add: tick_resource_def\<close>)
qed

lemma node_ok_tick_resources: "node_ok (fst s) \<Longrightarrow> node_ok (fst (fold (tick_resource X E now) ks s))"
  by (induction ks arbitrary: s) simp_all

lemma node_ok_fold_push: "node_ok (fold (\<lambda>(i, l). push_out i (b l)) ks nd) = node_ok nd"
  by (induction ks arbitrary: nd) (auto simp: case_prod_beta)

lemma tick_link_ok: "link_ok l \<Longrightarrow> link_ok (tick_link now l)"
  by (auto simp: tick_link_def link_ok_def)

text \<open>The stages of a tick: receipts dropped, links advanced, keepalives queued, closures reported.\<close>

definition tick_receipts :: "node \<Rightarrow> node" where
  "tick_receipts nd = nd\<lparr>nd_pending_receipts :=
     bt_retain (\<lambda>_ receipt. pr_expires_at receipt > nd_clock nd) (nd_pending_receipts nd)\<rparr>"

definition tick_advance :: "node \<Rightarrow> node" where
  "tick_advance nd = nd\<lparr>nd_links := links_map (\<lambda>_. tick_link (nd_clock nd)) (nd_links nd)\<rparr>"

definition tick_keepalives :: "(u16 \<times> bytes) list \<Rightarrow> node \<Rightarrow> node" where
  "tick_keepalives ks nd = fold (\<lambda>(i, link_id). push_out i
     (packet_encode (link_data_with_context link_id [0xFF] KEEPALIVE))) ks nd"

definition tick_before :: "node \<Rightarrow> node" where
  "tick_before nd =
     (let c = tick_keepalives (map (\<lambda>(i, l). (le_interface l, i)) (filter (\<lambda>(i, l). keepalive_due (nd_clock nd) l) (nd_links nd)))
                (tick_advance (tick_receipts nd))
      in c\<lparr>nd_pending_events := nd_pending_events nd @ map LinkClosed (map fst (filter (\<lambda>(i, l). stale (nd_clock nd) l) (nd_links nd)))\<rparr>)"

lemma tick_keepalives_eq:
  "tick_keepalives ks nd = nd\<lparr>nd_outbound := nd_outbound nd @
     map (\<lambda>(i, link_id). (i, packet_encode (link_data_with_context link_id [0xFF] KEEPALIVE))) ks\<rparr>"
  by (induction ks arbitrary: nd) (auto simp: tick_keepalives_def push_out_def)

lemma tick_inner_eq:
  "tick_inner X E rng nd =
     (case fold (tick_resource X E (nd_clock nd)) (bt_keys (nd_inbound_resources nd)) (tick_before nd, rng) of
        (nd', rng') \<Rightarrow> (nd_pending_events nd', nd'\<lparr>nd_pending_events := []\<rparr>, rng'))"
  by (simp add: tick_inner_def tick_links_eq Let_def tick_before_def tick_keepalives_eq
      tick_keepalives_eq [unfolded tick_keepalives_def] tick_advance_def tick_receipts_def)

lemma node_ok_tick_before [simp]: "node_ok nd \<Longrightarrow> node_ok (tick_before nd)"
proof -
  assume "node_ok nd"
  then have "node_ok (tick_receipts nd)" by (simp add: tick_receipts_def bt_oks node_okD)
  then have "node_ok (tick_advance (tick_receipts nd))"
    unfolding tick_advance_def by (rule node_ok_link_map) (rule tick_link_ok)
  then show ?thesis by (simp add: tick_before_def tick_keepalives_eq Let_def node_ok_def)
qed

lemma node_ok_tick_inner [simp]: "node_ok nd \<Longrightarrow> node_ok (fst (snd (tick_inner X E rng nd)))"
  using node_ok_tick_resources [of "(tick_before nd, rng)" X E "nd_clock nd" "bt_keys (nd_inbound_resources nd)"]
  by (simp add: tick_inner_eq case_prod_beta)

lemma node_ok_tick [simp]: "node_ok nd \<Longrightarrow> node_ok (snd (tick X nd))"
  by (simp add: tick_def case_prod_beta)

end
