(* ===== verification/Node_Reach.thy ===== *)
theory Node_Reach
  imports Node_Invariant
begin

text \<open>
  The invariant is kept by every handler and every operation (HKDF-SHA256 yields 64 bytes, which makes
  link keys that long), so every reachable node satisfies it.
\<close>

section \<open>Handlers\<close>

lemma node_ok_link_request [simp]:
  assumes X: "hkdf_ok X" and ok: "node_ok nd" shows "node_ok (fst (snd (handle_link_request X E p dh i r nd)))"
proof (cases "parse_link_request (data p)")
  case (Inl e)
  then show ?thesis using ok by (simp add: handle_link_request_def)
next
  case (Inr q)
  show ?thesis
  proof (cases "links_get (link_id_from_request X p) (nd_links nd) = None")
    case True
    then show ?thesis using Inr ok X
      by (simp add: handle_link_request_def Let_def case_prod_beta node_ok_link_insert link_ok_def)
  next
    case False
    then show ?thesis using Inr ok by (cases q) (simp add: handle_link_request_def Let_def)
  qed
qed

lemma node_ok_link_proof [simp]:
  assumes X: "hkdf_ok X" and ok: "node_ok nd" shows "node_ok (fst (snd (handle_link_proof X E p lid rng nd)))"
proof (cases "\<exists>l pub peer. links_get lid (nd_links nd) = Some l \<and> le_status l = Pending \<and> le_initiator l \<and>
    le_destination_public l = Some pub \<and> verify_link_proof X pub lid (data p) = Inr peer")
  case False
  then show ?thesis using ok by (auto simp: handle_link_proof_def split: option.split sum.split)
next
  case True
  then obtain l pub peer where l: "links_get lid (nd_links nd) = Some l" "le_status l = Pending" "le_initiator l"
    "le_destination_public l = Some pub" "verify_link_proof X pub lid (data p) = Inr peer" by blast
  have "node_ok (nd\<lparr>nd_links := links_update lid
      (activated peer (derive_link_key X (x25519_prv (le_ephemeral l)) peer lid) (nd_clock nd)) (nd_links nd)\<rparr>)"
    using l X ok by (intro node_ok_link_update) (simp_all add: link_ok_def activated_def)
  then show ?thesis using l
    by (cases rng) (simp_all add: handle_link_proof_def Let_def case_prod_beta activated_fun)
qed

lemma node_ok_link_data [simp]:
  assumes ok: "node_ok nd" shows "node_ok (fst (snd (handle_link_data X E p lid i rng nd)))"
proof (cases "\<exists>l key. links_get lid (nd_links nd) = Some l \<and> le_status l = Active \<and> le_interface l = i \<and> le_derived_key l = Some key")
  case False
  then show ?thesis using ok by (auto simp: handle_link_data_def split: option.split)
next
  case True
  then obtain l key where l: "links_get lid (nd_links nd) = Some l" "le_status l = Active" "le_interface l = i"
    "le_derived_key l = Some key" by blast
  show ?thesis
  proof (cases "ctx p = RESOURCE \<or> ctx p = KEEPALIVE")
    case True
    then show ?thesis using ok l by (auto simp: handle_link_data_def contexts)
  next
    case False
    show ?thesis
    proof (cases "open_with_key X key (data p)")
      case (Inl e)
      then show ?thesis using ok l False by (simp add: handle_link_data_def)
    next
      case (Inr pt)
      then show ?thesis using ok l False
        by (cases rng) (simp_all add: handle_link_data_def Let_def case_prod_beta)
    qed
  qed
qed

lemma node_ok_delivery_proof [simp]: "node_ok nd \<Longrightarrow> node_ok (snd (handle_delivery_proof X p d nd))"
  by (simp add: handle_delivery_proof_def bt_oks node_okD split: option.split)

lemma node_ok_announce [simp]:
  assumes ok: "node_ok nd" shows "node_ok (snd (handle_announce X p dh i nd))"
proof (cases "announce_parse (data p) (context_flag p)")
  case (Inl e)
  then show ?thesis using ok by (simp add: handle_announce_def)
next
  case (Inr a)
  show ?thesis
  proof (cases "announce_verify X a dh")
    case (Inl e)
    then show ?thesis using ok Inr by (simp add: handle_announce_def)
  next
    case v: (Inr u)
    show ?thesis
      using ok by (cases "pub_from_bytes (an_public a)")
        (simp_all add: handle_announce_def Inr v Let_def case_prod_beta bt_oks node_okD path_update_ok)
  qed
qed

lemma node_ok_path_request [simp]: "node_ok nd \<Longrightarrow> node_ok (handle_path_request X p i nd)"
  by (simp add: handle_path_request_def Let_def case_prod_beta bt_oks node_okD split: option.split)

lemma node_ok_data [simp]:
  assumes ok: "node_ok nd" shows "node_ok (snd (handle_data X p dh i nd))"
proof -
  have f: "node_ok (forward_data p dh i nd)"
    using ok by (simp add: forward_data_def Let_def split: option.split)
  show ?thesis using ok f
    by (simp add: handle_data_def Let_def split: option.split sum.split local_kind.split)
qed

lemma node_ok_dispatch [simp]:
  assumes "hkdf_ok X" and "node_ok nd" shows "node_ok (fst (snd (dispatch X E p i rng nd)))"
proof (cases "length (dest_hash p) = 16")
  case False
  then show ?thesis using assms by (simp add: dispatch_def try_array_def)
next
  case True
  then show ?thesis using assms
    by (cases rng) (simp_all add: dispatch_def try_array_def case_prod_beta)
qed

text \<open>A received packet is dropped, known already, or handed to its handler.\<close>

definition noted :: "bytes \<Rightarrow> node \<Rightarrow> node" where
  "noted ph nd = maybe_prune (nd_clock nd) nd\<lparr>nd_seen_packets :=
     bt_insert ph (sat_add (nd_clock nd) PACKET_HASH_TTL_SECS) (nd_seen_packets (maybe_prune (nd_clock nd) nd))\<rparr>"

lemma handle_inbound_inner_eq:
  "handle_inbound_inner X E bs i rng nd =
     (case packet_decode bs of
        Inl _ \<Rightarrow> ([], nd, rng)
      | Inr p \<Rightarrow>
          if hops p \<ge> PATHFINDER_MAX_HOPS then ([], nd, rng)
          else if bt_contains (packet_hash X p) (nd_seen_packets (maybe_prune (nd_clock nd) nd))
          then ([], maybe_prune (nd_clock nd) nd, rng)
          else dispatch X E (p\<lparr>hops := sat_add (hops p) 1\<rparr>) i rng (noted (packet_hash X p) nd))"
  by (simp add: handle_inbound_inner_def noted_def Let_def cong: if_cong split: sum.split)

lemma noted_simps [simp]:
  "nd_clock (noted h nd) = nd_clock nd" "nd_links (noted h nd) = nd_links nd"
  "nd_outbound (noted h nd) = nd_outbound nd" "nd_locals (noted h nd) = nd_locals nd"
  "nd_identity (noted h nd) = nd_identity nd" "nd_interfaces (noted h nd) = nd_interfaces nd"
  "nd_transport_enabled (noted h nd) = nd_transport_enabled nd" "nd_paths (noted h nd) = nd_paths nd"
  "nd_pending_receipts (noted h nd) = nd_pending_receipts nd"
  "nd_pending_events (noted h nd) = nd_pending_events nd"
  "nd_inbound_resources (noted h nd) = nd_inbound_resources nd"
  "nd_outbound_resources (noted h nd) = nd_outbound_resources nd"
  "nd_cached_announces (noted h nd) = nd_cached_announces nd"
  "nd_seen_announces (noted h nd) = nd_seen_announces (maybe_prune (nd_clock nd) nd)"
  "nd_seen_path_requests (noted h nd) = nd_seen_path_requests (maybe_prune (nd_clock nd) nd)"
  by (simp_all add: noted_def)

lemma node_ok_noted [simp]: "node_ok nd \<Longrightarrow> node_ok (noted h nd)"
  unfolding noted_def by (intro node_ok_maps) (simp_all add: bt_oks node_okD)

lemma node_ok_inbound_inner [simp]:
  "hkdf_ok X \<Longrightarrow> node_ok nd \<Longrightarrow> node_ok (fst (snd (handle_inbound_inner X E bs i rng nd)))"
  by (simp add: handle_inbound_inner_eq split: sum.split)

section \<open>Operations of the application\<close>

lemma node_ok_send_announce [simp]: "node_ok nd \<Longrightarrow> node_ok (fst (send_announce X E dh app r i nd))"
  by (simp add: send_announce_def Let_def case_prod_beta bt_oks node_okD split: option.split)

lemma node_ok_request_path [simp]: "node_ok nd \<Longrightarrow> node_ok (fst (request_path X E dh r nd))"
  by (simp add: request_path_def Let_def case_prod_beta)

lemma node_ok_send_single [simp]: "node_ok nd \<Longrightarrow> node_ok (fst (snd (send_single_message X E dh pt r b nd)))"
  by (simp add: send_single_message_def Let_def case_prod_beta bt_oks node_okD split: option.split)

lemma node_ok_send_message [simp]:
  "node_ok nd \<Longrightarrow> node_ok (fst (snd (send_message X E dh pt r nd)))"
  "node_ok nd \<Longrightarrow> node_ok (fst (snd (send_message_with_receipt X E dh pt r nd)))"
  by (simp_all add: send_message_def send_message_with_receipt_def Let_def case_prod_beta)

lemma node_ok_enqueue_destination [simp]: "node_ok nd \<Longrightarrow> node_ok (snd (enqueue_destination_packet p dh nd))"
  by (simp add: enqueue_destination_packet_def Let_def split: option.split)

lemma node_ok_send_group [simp]:
  "node_ok nd \<Longrightarrow> node_ok (fst (snd (send_group_message X E dh pt r nd)))"
  "node_ok nd \<Longrightarrow> node_ok (snd (send_plain_message dh pt nd))"
  by (simp_all add: send_group_message_def send_plain_message_def Let_def case_prod_beta split: option.split)

lemma node_ok_establish [simp]: "node_ok nd \<Longrightarrow> node_ok (fst (snd (establish_link X E dh r nd)))"
  by (simp add: establish_link_def Let_def case_prod_beta link_ok_def node_ok_link_insert split: option.split)

lemma node_ok_link_send [simp]: "node_ok nd \<Longrightarrow> node_ok (fst (snd (link_send X E lid pt r nd)))"
  by (simp add: link_send_def Let_def case_prod_beta split: option.split)

lemma node_ok_send_resource:
  assumes "send_resource X E lid d r nd = Some (res, nd', r')" and "node_ok nd" shows "node_ok nd'"
proof (cases "active_key lid nd")
  case None
  then show ?thesis using assms by (simp add: send_resource_def)
next
  case (Some ki)
  obtain key i where ki: "ki = (key, i)" by fastforce
  obtain x r1 where o: "outbound_new X E d key r (nd_clock nd) = Some (x, r1)"
    using assms Some ki by (cases "outbound_new X E d key r (nd_clock nd)") (auto simp: send_resource_def)
  show ?thesis
  proof (cases x)
    case (Inl e)
    then show ?thesis using assms Some ki o by (simp add: send_resource_def)
  next
    case (Inr ra)
    obtain ob adv where ra: "ra = (ob, adv)" by fastforce
    have "\<not> ob_completed ob" using outbound_new_result [of X E d key r "nd_clock nd" ob adv r1] o Inr ra by blast
    moreover have "nd' = fst (enqueue_encrypted_link_context X E lid i RESOURCE_ADV adv key r1
        (nd\<lparr>nd_outbound_resources := bt_insert (lid, ob_hash ob) ob (nd_outbound_resources nd)\<rparr>))"
      using assms(1) Some ki o Inr ra by (auto simp: send_resource_def Let_def case_prod_beta)
    ultimately show ?thesis using assms(2) by simp
  qed
qed

lemma node_ok_interfaces [simp]:
  "node_ok nd \<Longrightarrow> node_ok (register_interface i nd)"
  "node_ok nd \<Longrightarrow> node_ok (unregister_interface i nd)"
  by (simp_all add: register_interface_def unregister_interface_def node_ok_def)

lemma node_ok_registration [simp]:
  "node_ok nd \<Longrightarrow> node_ok (enable_transport b nd)"
  "node_ok nd \<Longrightarrow> node_ok (snd (register_single_destination X app asp nd))"
  "node_ok nd \<Longrightarrow> node_ok (snd (register_group_destination X app asp key nd))"
  "node_ok nd \<Longrightarrow> node_ok (snd (register_plain_destination X app asp nd))"
  by (simp_all add: enable_transport_def push_local_def register_single_destination_def
      register_group_destination_def register_plain_destination_def
      register_group_destination_with_identity_def Let_def)

lemma node_ok_set_prove [simp]: "node_ok nd \<Longrightarrow> node_ok (snd (set_prove dh b nd))"
  by (simp add: set_prove_def split: option.split local_kind.split)

lemma node_ok_poll [simp]: "node_ok nd \<Longrightarrow> node_ok (snd (poll_outbound nd))"
  by (simp add: poll_outbound_def split: list.split)

lemma node_ok_prune_paths [simp]: "node_ok nd \<Longrightarrow> node_ok (snd (prune_paths nd))"
  using node_ok_prune [of nd] by (simp add: node_prune_def)

section \<open>Every reachable node\<close>

lemma node_exec_ok:
  assumes X: "hkdf_ok X" and e: "node_exec X E op1 (nd, r) = Some (evs, nd', r')" and ok: "node_ok nd"
  shows "node_ok nd'"
proof -
  have f: "fst (snd (the (node_exec X E op1 (nd, r)))) = nd'" using e by simp
  show ?thesis
  proof (cases op1)
    case (Receive bs i b)
    then show ?thesis using f ok X
      by (cases b) (auto simp: handle_inbound_with_entropy_def handle_inbound_def case_prod_beta)
  next
    case (Tick b)
    then show ?thesis using f ok by (cases b) (auto simp: tick_with_entropy_def case_prod_beta)
  next
    case (SendMessage dh pt b)
    then show ?thesis using f ok by (cases b) auto
  next
    case (SendResource lid d)
    then show ?thesis using e ok by (auto intro: node_ok_send_resource)
  qed (use f ok in auto)
qed

lemma node_run_ok:
  "node_run X E s evs s' \<Longrightarrow> hkdf_ok X \<Longrightarrow> node_ok (fst s) \<Longrightarrow> node_ok (fst s')"
proof (induction rule: node_run.induct)
  case (step op1 s evs s' evs' s'')
  then show ?case using node_exec_ok [of X E op1 "fst s" "snd s" evs "fst s'" "snd s'"] by simp
qed simp

lemma node_fresh_ok [simp]: "node_ok (node_with_clock i c)"
  by (simp add: node_ok_def node_with_clock_def path_new_def links_get_def bt_get_def)

lemma node_reach_ok: "hkdf_ok X \<Longrightarrow> node_reach X E nd \<Longrightarrow> node_ok nd"
  unfolding node_reach_def using node_run_ok by fastforce

end
