(* ===== verification/Driver_System.thy ===== *)
theory Driver_System
  imports Driver Node_Reach
begin

text \<open>
  The driver as a transition system and what relates it to its node. \<open>served\<close> says that a piece of the
  driver's code moves the node by operations of its interface only (\<open>node_run\<close>), which events these
  cause and which events the driver reports; \<open>driver_run\<close> is a sequence of rounds of the loop, with time
  passing in between. \<open>driver_ok\<close> is the invariant of the interface tables.
\<close>

section \<open>The driver performs operations of the node\<close>

definition served :: "ext \<Rightarrow> 'r entropy \<Rightarrow> 'r driver \<Rightarrow> event list \<Rightarrow> event list \<Rightarrow> 'r driver \<Rightarrow> bool" where
  "served X E d evs out d' \<longleftrightarrow>
     node_run X E (dr_node d, dr_entropy d) evs (dr_node d', dr_entropy d') \<and> dr_events d' = dr_events d @ out"

lemma node_run_trans:
  "node_run X E s evs s' \<Longrightarrow> node_run X E s' evs' s'' \<Longrightarrow> node_run X E s (evs @ evs') s''"
proof (induction rule: node_run.induct)
  case (refl s)
  then show ?case by simp
next
  case (step oper s evs s' evs1 s1)
  then show ?case using node_run.step [OF step.hyps(1)] by simp
qed

lemma served_trans: "served X E d evs out d' \<Longrightarrow> served X E d' evs' out' d'' \<Longrightarrow> served X E d (evs @ evs') (out @ out') d''"
  by (auto simp: served_def intro: node_run_trans)

text \<open>Code that leaves the node and the entropy source alone.\<close>

lemma served_idle:
  assumes "dr_node d' = dr_node d" "dr_entropy d' = dr_entropy d" "dr_events d' = dr_events d @ out"
  shows "served X E d [] out d'"
  using assms by (simp add: served_def node_run.refl)

lemma served_refl: "served X E d [] [] d"
  by (rule served_idle) simp_all

lemma served_emit: "served X E d [] [ev] (emit ev d)"
  by (rule served_idle) (simp_all add: emit_def)

text \<open>Code that is one operation of the node.\<close>

lemma served_op:
  assumes "node_exec X E oper (dr_node d, dr_entropy d) = Some (evs, nd, r)"
    and "dr_node d' = nd" "dr_entropy d' = r" "dr_events d' = dr_events d"
  shows "served X E d evs [] d'"
  using node_run.step [OF assms(1) node_run.refl] assms(2-4) by (simp add: served_def)

lemma served_call:
  assumes "node_exec X E oper (dr_node d, dr_entropy d) = Some ([], snd res)"
  shows "served X E d [] [] (after_call res d)"
  by (rule served_op [of X E oper d "[]" "fst (snd res)" "snd (snd res)"]) (simp_all add: assms after_call_def)

lemma served_report:
  assumes "node_exec X E oper (dr_node d, dr_entropy d) = Some ([], snd res)"
  obtains out where "served X E d [] out (report_call res d)" "\<forall>ev \<in> set out. \<exists>e. ev = Error e"
proof (cases "fst res")
  case (Inl e)
  have "served X E d ([] @ []) ([] @ [Error e]) (report_call res d)"
    by (rule served_trans [OF served_call [OF assms]]) (simp add: report_call_def Inl served_emit)
  then show ?thesis using that by simp
next
  case (Inr u)
  have "served X E d [] [] (report_call res d)" using served_call [OF assms] by (simp add: report_call_def Inr)
  then show ?thesis using that by simp
qed

section \<open>What is reported\<close>

definition is_error :: "event \<Rightarrow> bool" where "is_error ev \<longleftrightarrow> (\<exists>e. ev = Error e)"

text \<open>The events reported are those of the node, errors included, each once and in order, an LXMF message in
  place of the message or link data it came in; what is added between them are errors.\<close>

inductive reports :: "ext \<Rightarrow> event list \<Rightarrow> event list \<Rightarrow> bool" for X where
  none [simp]: "reports X [] []"
| event: "reports X evs out \<Longrightarrow> reports X (ev # evs) (translate_event X ev lxmf # out)"
| added: "is_error err \<Longrightarrow> reports X evs out \<Longrightarrow> reports X evs (err # out)"

lemma reports_append: "reports X evs out \<Longrightarrow> reports X evs' out' \<Longrightarrow> reports X (evs @ evs') (out @ out')"
  by (induction rule: reports.induct) (auto intro: reports.event reports.added)

lemma reports_errors: "\<forall>ev \<in> set out. is_error ev \<Longrightarrow> reports X [] out"
  by (induction out) (auto intro: reports.added)

lemma reports_one: "reports X [ev] [translate_event X ev lxmf]"
  by (rule reports.event [OF reports.none])

text \<open>A piece of the driver's code that reports what its node operations cause.\<close>

definition faithful :: "ext \<Rightarrow> 'r entropy \<Rightarrow> 'r driver \<Rightarrow> 'r driver \<Rightarrow> bool" where
  "faithful X E d d' \<longleftrightarrow> (\<exists>evs out. served X E d evs out d' \<and> reports X evs out)"

lemma faithful_trans: "faithful X E d d' \<Longrightarrow> faithful X E d' d'' \<Longrightarrow> faithful X E d d''"
  unfolding faithful_def using served_trans reports_append by blast

lemma faithful_call: "served X E d [] out d' \<Longrightarrow> \<forall>ev \<in> set out. is_error ev \<Longrightarrow> faithful X E d d'"
  unfolding faithful_def using reports_errors by blast

lemma faithful_quiet: "served X E d [] [] d' \<Longrightarrow> faithful X E d d'"
  unfolding faithful_def using reports.none by blast

lemma faithful_refl [simp]: "faithful X E d d"
  by (rule faithful_quiet [OF served_refl])

lemma faithful_emit_error [simp]: "faithful X E d (emit (Error e) d)"
  by (rule faithful_call [OF served_emit]) (simp add: is_error_def)

lemma faithful_update_stats [simp]: "faithful X E d (update_stats i f d)"
  by (rule faithful_quiet [OF served_idle]) (simp_all add: update_stats_def)

lemma faithful_report:
  "node_exec X E oper (dr_node d, dr_entropy d) = Some ([], snd res) \<Longrightarrow> faithful X E d (report_call res d)"
  by (metis served_report faithful_call is_error_def)

lemma faithful_after:
  "node_exec X E oper (dr_node d, dr_entropy d) = Some ([], snd res) \<Longrightarrow> faithful X E d (after_call res d)"
  by (rule faithful_quiet [OF served_call])

lemma faithful_fold: "(\<And>x d. faithful X E d (f x d)) \<Longrightarrow> faithful X E d (fold f xs d)"
  by (induction xs arbitrary: d) (auto intro: faithful_trans)

section \<open>Draining the queue\<close>

lemma faithful_send_out: "faithful X E d (send_out i packet d)"
proof -
  have "dr_events (send_out i packet d) \<in> {dr_events d @ [], dr_events d @ [Error Unknown]}"
    "dr_entropy (send_out i packet d) = dr_entropy d"
    by (simp_all add: send_out_def emit_def update_stats_def split: option.split)
  then obtain out where "dr_events (send_out i packet d) = dr_events d @ out" "\<forall>ev \<in> set out. is_error ev"
    by (force simp: is_error_def)
  then show ?thesis
    by (intro faithful_call [OF served_idle]) (simp_all add: \<open>dr_entropy (send_out i packet d) = dr_entropy d\<close>)
qed

lemma faithful_drain [simp]: "faithful X E d (drain_outbound d)"
proof (induction d rule: drain_outbound.induct)
  case (1 d)
  show ?case
  proof (cases "poll_outbound (dr_node d)")
    case (Pair x nd)
    then show ?thesis
    proof (cases x)
      case None
      then show ?thesis using Pair by (subst drain_outbound.simps) simp
    next
      case (Some ip)
      obtain i packet where ip: "ip = (i, packet)" by fastforce
      let ?d = "d\<lparr>dr_node := nd\<rparr>"
      have "served X E d [] [] ?d" by (rule served_op [where oper = Poll]) (use Pair in simp_all)
      then have "faithful X E d (drain_outbound (send_out i packet ?d))"
        using faithful_quiet faithful_send_out faithful_trans 1 [OF Pair [symmetric] Some ip [symmetric]]
        by metis
      then show ?thesis using Pair Some ip by (subst drain_outbound.simps) simp
    qed
  qed
qed

lemma faithful_drained: "faithful X E d d' \<Longrightarrow> faithful X E d (drain_outbound d')"
  by (rule faithful_trans [OF _ faithful_drain])

section \<open>Reporting events\<close>

lemma learn_source_idle [simp]:
  "dr_node (learn_source X ev d) = dr_node d" "dr_entropy (learn_source X ev d) = dr_entropy d"
  "dr_events (learn_source X ev d) = dr_events d" "dr_sent (learn_source X ev d) = dr_sent d"
  "dr_interfaces (learn_source X ev d) = dr_interfaces d" "dr_interface_stats (learn_source X ev d) = dr_interface_stats d"
  by (simp_all add: learn_source_def split: event.split option.split)

lemma served_send_pending: "served X E d [] [] (snd (send_pending X E ev d))"
proof -
  have "served X E d [] [] d'" if "dr_events d' = dr_events d"
    "(dr_node d', dr_entropy d') = snd (link_send X E lid pt (dr_entropy d) (dr_node d))" for lid pt d'
    by (rule served_op [where oper = "LinkSend lid pt"]) (use that in \<open>simp_all add: prod_eq_iff\<close>)
  then show ?thesis
    by (auto simp: send_pending_def send_direct_def Let_def case_prod_beta served_refl split: event.split option.split sum.split)
qed

lemma emit_event_served:
  obtains out where "served X E d [] out (emit_node_event X E ev d)" "reports X [ev] out"
proof -
  obtain err d1 where p: "send_pending X E ev (learn_source X ev d) = (err, d1)" by fastforce
  let ?t = "translate_event X ev (dr_lxmf d1)"
  have l: "served X E d [] [] (learn_source X ev d)" by (rule served_idle) simp_all
  have s: "served X E (learn_source X ev d) [] [] d1" using served_send_pending [of X E "learn_source X ev d" ev] p by simp
  have "served X E d [] [?t] (emit ?t d1)"
    using served_trans [OF served_trans [OF l s] served_emit] by simp
  then have r: "served X E d [] [?t] (emit ?t d1)" "served X E d [] [?t, Error e] (emit (Error e) (emit ?t d1))" for e
    using served_trans [OF _ served_emit] by fastforce+
  have m: "reports X [ev] [?t]" "reports X [ev] [?t, Error e]" for e
    using reports_one reports_append [OF reports_one reports_errors, of "[Error e]" X ev] by (auto simp: is_error_def)
  show thesis
  proof (cases err)
    case None
    then show ?thesis using that [of "[?t]"] r m p by (simp add: emit_node_event_def Let_def)
  next
    case (Some e)
    then show ?thesis using that [of "[?t, Error e]"] r m p by (simp add: emit_node_event_def Let_def)
  qed
qed

lemma emit_events_served:
  "\<exists>out. served X E d [] out (emit_node_events X E evs d) \<and> reports X evs out"
proof (induction evs arbitrary: d)
  case Nil
  then show ?case using served_refl reports.none by (auto simp: emit_node_events_def intro!: exI [of _ "[]"])
next
  case (Cons ev evs)
  obtain out where o: "served X E d [] out (emit_node_event X E ev d)" "reports X [ev] out" by (rule emit_event_served)
  obtain out' where o': "served X E (emit_node_event X E ev d) [] out' (emit_node_events X E evs (emit_node_event X E ev d))"
    "reports X evs out'" using Cons.IH by blast
  show ?case using served_trans [OF o(1) o'(1)] reports_append [OF o(2) o'(2)] by (auto simp: emit_node_events_def)
qed

text \<open>The pattern of every branch with events: an operation, its events, the queue.\<close>

lemma faithful_events:
  assumes "served X E d evs [] d'"
  shows "faithful X E d (drain_outbound (emit_node_events X E evs d'))"
proof -
  obtain out where "served X E d' [] out (emit_node_events X E evs d')" "reports X evs out"
    using emit_events_served by blast
  then have "faithful X E d (emit_node_events X E evs d')"
    unfolding faithful_def using served_trans [OF assms] by fastforce
  then show ?thesis by (rule faithful_drained)
qed


section \<open>One round of the loop\<close>

fun outcome_driver :: "'r driver_outcome \<Rightarrow> 'r driver" where
  "outcome_driver (Running d _) = d"
| "outcome_driver (Returned d _) = d"

lemma faithful_set: "faithful X E d (d\<lparr>dr_announce_data := a\<rparr>)" "faithful X E d (d\<lparr>dr_lxmf := l\<rparr>)"
  "faithful X E d (d\<lparr>dr_registrations := b\<rparr>)"
  by (rule faithful_quiet [OF served_idle]; simp)+

lemma faithful_announce_on: "faithful X E d (announce_on X E app dests i d)"
  unfolding announce_on_def
proof (rule faithful_fold)
  fix dh and d :: "'a driver"
  show "faithful X E d (let (nd, r) = send_announce X E dh app (dr_entropy d) i (dr_node d) in d\<lparr>dr_node := nd, dr_entropy := r\<rparr>)"
    by (rule faithful_quiet [OF served_op [where oper = "SendAnnounce dh app i" and evs = "[]" and
            nd = "fst (send_announce X E dh app (dr_entropy d) i (dr_node d))" and
            r = "snd (send_announce X E dh app (dr_entropy d) i (dr_node d))"]])
      (simp_all add: case_prod_beta)
qed

lemma faithful_opportunistic: "faithful X E d (snd (lxmf_opportunistic X E dh ti co f d))"
proof -
  have "faithful X E d (after_call (send_opportunistic X E m (dr_entropy d) (dr_node d)) d)" for m
    by (rule faithful_after [where oper = "SendMessage (lm_destination m) (drop 16 (lxmf_pack X m)) False"])
      (simp add: send_opportunistic_def Let_def)
  then show ?thesis by (simp add: lxmf_opportunistic_def Let_def split: sum.split)
qed

lemma faithful_establish: "faithful X E d (after_call (establish_link X E dh (dr_entropy d) (dr_node d)) d)"
  by (rule faithful_after [where oper = "Establish dh"]) simp

lemma faithful_direct: "faithful X E d (snd (lxmf_direct X E dh ti co f d))"
proof -
  have "faithful X E d ((after_call (establish_link X E dh (dr_entropy d) (dr_node d)) d)\<lparr>dr_lxmf := l\<rparr>)" for l
    by (rule faithful_trans [OF faithful_establish faithful_set(2)])
  then show ?thesis by (simp add: lxmf_direct_def Let_def faithful_establish split: sum.split option.split)
qed

lemma faithful_command: "exec_command X E c d = Some out \<Longrightarrow> faithful X E d (outcome_driver out)"
proof (cases c)
  case (CmdAnnounceAll app)
  have "faithful X E d (fold (announce_on X E app dests) is (d\<lparr>dr_announce_data := Some app\<rparr>))" for dests "is"
    by (rule faithful_trans [OF faithful_set(1) faithful_fold [OF faithful_announce_on]])
  then show "exec_command X E c d = Some out \<Longrightarrow> faithful X E d (outcome_driver out)"
    using CmdAnnounceAll by (auto simp: Let_def intro!: faithful_drained)
next
  case (CmdSend dh pt)
  have "faithful X E d (report_call (send_message X E dh pt (dr_entropy d) (dr_node d)) d)"
    by (rule faithful_report [where oper = "SendMessage dh pt False"]) simp
  then show "exec_command X E c d = Some out \<Longrightarrow> faithful X E d (outcome_driver out)"
    using CmdSend by (auto intro: faithful_drained)
next
  case (CmdSendWithReceipt dh pt)
  have "faithful X E d (after_call (send_message_with_receipt X E dh pt (dr_entropy d) (dr_node d)) d)"
    by (rule faithful_after [where oper = "SendMessage dh pt True"]) simp
  then show "exec_command X E c d = Some out \<Longrightarrow> faithful X E d (outcome_driver out)"
    using CmdSendWithReceipt by (auto simp: Let_def intro: faithful_drained)
next
  case (CmdSendGroup dh pt)
  have "faithful X E d (report_call (send_group_message X E dh pt (dr_entropy d) (dr_node d)) d)"
    by (rule faithful_report [where oper = "SendGroup dh pt"]) simp
  then show "exec_command X E c d = Some out \<Longrightarrow> faithful X E d (outcome_driver out)"
    using CmdSendGroup by (auto intro: faithful_drained)
next
  case (CmdSendPlain dh pt)
  obtain res nd where p: "send_plain_message dh pt (dr_node d) = (res, nd)" by fastforce
  have "faithful X E d (report_call (res, nd, dr_entropy d) d)"
    by (rule faithful_report [where oper = "SendPlain dh pt"]) (simp add: p)
  then show "exec_command X E c d = Some out \<Longrightarrow> faithful X E d (outcome_driver out)"
    using CmdSendPlain p by (auto intro: faithful_drained)
next
  case (CmdEstablishLink dh)
  then show "exec_command X E c d = Some out \<Longrightarrow> faithful X E d (outcome_driver out)"
    by (auto simp: Let_def faithful_drained [OF faithful_establish])
next
  case (CmdLinkSend lid pt)
  have "faithful X E d (report_call (link_send X E lid pt (dr_entropy d) (dr_node d)) d)"
    by (rule faithful_report [where oper = "LinkSend lid pt"]) simp
  then show "exec_command X E c d = Some out \<Longrightarrow> faithful X E d (outcome_driver out)"
    using CmdLinkSend by (auto intro: faithful_drained)
next
  case (CmdSendResource lid bs)
  have "faithful X E d (after_call res d)" if "send_resource X E lid bs (dr_entropy d) (dr_node d) = Some res" for res
    by (rule faithful_after [where oper = "SendResource lid bs"]) (simp add: that case_prod_beta)
  then show "exec_command X E c d = Some out \<Longrightarrow> faithful X E d (outcome_driver out)"
    using CmdSendResource by (auto split: option.splits intro: faithful_drained)
next
  case (CmdLxmfSendOpportunistic dh ti co f)
  then show "exec_command X E c d = Some out \<Longrightarrow> faithful X E d (outcome_driver out)"
    by (auto simp: case_prod_beta faithful_drained [OF faithful_opportunistic])
next
  case (CmdLxmfSendDirect dh ti co f)
  then show "exec_command X E c d = Some out \<Longrightarrow> faithful X E d (outcome_driver out)"
    by (auto simp: case_prod_beta faithful_drained [OF faithful_direct])
next
  case (CmdRequestPath dh)
  obtain nd r where p: "request_path X E dh (dr_entropy d) (dr_node d) = (nd, r)" by fastforce
  have "faithful X E d (d\<lparr>dr_node := nd, dr_entropy := r\<rparr>)"
    by (rule faithful_quiet [OF served_op [where oper = "RequestPath dh"]]) (simp_all add: p)
  then show "exec_command X E c d = Some out \<Longrightarrow> faithful X E d (outcome_driver out)"
    using CmdRequestPath p by (auto intro: faithful_drained)
next
  case (CmdCloseLink lid)
  obtain evs nd where t: "tick X (close_link lid (dr_node d)) = (evs, nd)" by fastforce
  let ?d = "d\<lparr>dr_node := close_link lid (dr_node d)\<rparr>"
  have "served X E d [] [] ?d" by (rule served_op [where oper = "CloseLink lid"]) simp_all
  moreover have "served X E ?d evs [] (d\<lparr>dr_node := nd\<rparr>)"
    by (rule served_op [where oper = "Tick False"]) (simp_all add: t)
  ultimately have "served X E d evs [] (d\<lparr>dr_node := nd\<rparr>)" using served_trans by fastforce
  then show "exec_command X E c d = Some out \<Longrightarrow> faithful X E d (outcome_driver out)"
    using CmdCloseLink t by (auto intro: faithful_events)
qed auto

lemma faithful_gone: "faithful X E d (interface_gone i d)"
  by (rule faithful_quiet [OF served_op [where oper = "DropInterface i" and evs = "[]"]])
    (simp_all add: interface_gone_def update_stats_def Let_def)

lemma faithful_register: "faithful X E d (register_iface ic d)"
  by (rule faithful_quiet [OF served_op [where oper = "AddInterface (fst ic)" and evs = "[]"]])
    (simp_all add: register_iface_def)

lemma faithful_inbound: "faithful X E d (outcome_driver (driver_inbound X E inb d))"
proof (cases inb)
  case (Packet i bs)
  let ?d = "update_stats i (count_rx bs) d"
  obtain evs nd r where h: "handle_inbound_with_entropy X E bs i (dr_entropy ?d) (dr_node ?d) = (evs, nd, r)"
    by (metis prod_cases3)
  have "served X E ?d evs [] (?d\<lparr>dr_node := nd, dr_entropy := r\<rparr>)"
    by (rule served_op [where oper = "Receive bs i True"]) (simp_all add: h)
  then have "faithful X E d (drain_outbound (emit_node_events X E evs (?d\<lparr>dr_node := nd, dr_entropy := r\<rparr>)))"
    by (rule faithful_trans [OF faithful_update_stats faithful_events])
  then show ?thesis using h by (simp add: Packet driver_inbound_def Let_def)
next
  case (ClosedIface i)
  then show ?thesis by (simp add: driver_inbound_def Let_def faithful_gone)
next
  case (FailedIface i)
  then show ?thesis
    by (simp add: driver_inbound_def Let_def faithful_gone faithful_trans [OF faithful_gone faithful_emit_error])
qed

lemma faithful_registration: "faithful X E d (outcome_driver (driver_registration X E reg d))"
proof (cases reg)
  case None
  then show ?thesis by (simp add: faithful_set driver_registration_def Let_def)
next
  case (Some ic)
  obtain i c where ic: "ic = (i, c)" by fastforce
  have "faithful X E d (drain_outbound (announce_on X E app dests i (register_iface (i, c) d)))" for app dests
    by (rule faithful_drained [OF faithful_trans [OF faithful_register faithful_announce_on]])
  then show ?thesis
    using Some ic by (simp add: driver_registration_def Let_def faithful_register split: option.split)
qed

lemma faithful_tick: "faithful X E d (outcome_driver (driver_tick X E d))"
proof -
  obtain evs nd r where t: "tick_with_entropy X E (dr_entropy d) (dr_node d) = (evs, nd, r)" by (metis prod_cases3)
  have "served X E d evs [] (d\<lparr>dr_node := nd, dr_entropy := r\<rparr>)"
    by (rule served_op [where oper = "Tick True"]) (simp_all add: t)
  then have "faithful X E d (drain_outbound (emit_node_events X E evs (d\<lparr>dr_node := nd, dr_entropy := r\<rparr>)))"
    by (rule faithful_events)
  then show ?thesis using t by (simp add: driver_tick_def)
qed

lemma step_faithful: "driver_step X E input d = Some out \<Longrightarrow> faithful X E d (outcome_driver out)"
  using faithful_command faithful_inbound faithful_registration faithful_tick
  by (auto simp: driver_step_def split: driver_input.splits option.splits if_splits)

section \<open>Runs\<close>

text \<open>Rounds of the loop that do not end it, and time passing between them.\<close>

inductive driver_run :: "ext \<Rightarrow> 'r entropy \<Rightarrow> 'r driver \<Rightarrow> 'r driver \<Rightarrow> bool" for X E where
  start: "driver_run X E d d"
| wait: "driver_run X E d d' \<Longrightarrow>
    driver_run X E d (d'\<lparr>dr_node := (dr_node d')\<lparr>nd_clock := sat_add (nd_clock (dr_node d')) t\<rparr>\<rparr>)"
| round: "driver_run X E d d' \<Longrightarrow> driver_step X E input d' = Some (Running d'' reply) \<Longrightarrow> driver_run X E d d''"

lemma run_faithful: "driver_run X E d d' \<Longrightarrow> faithful X E d d'"
proof (induction rule: driver_run.induct)
  case (start d)
  then show ?case by simp
next
  case (wait d d' t)
  have "faithful X E d' (d'\<lparr>dr_node := (dr_node d')\<lparr>nd_clock := sat_add (nd_clock (dr_node d')) t\<rparr>\<rparr>)"
    by (rule faithful_quiet [OF served_op [where oper = "Wait t"]]) simp_all
  then show ?case by (rule faithful_trans [OF wait.IH])
next
  case (round d d' input d'' reply)
  show ?case using faithful_trans [OF round.IH step_faithful [OF round.hyps(2)]] by simp
qed

lemma faithful_build: "faithful X E (fst (driver_build nd [] ka r)) (fst (driver_build nd interfaces ka r))"
  unfolding driver_build_def by (simp add: Let_def faithful_fold [OF faithful_register])

lemma faithful_lxmf: "faithful X E d (snd (enable_lxmf X d))"
  by (rule faithful_quiet [OF served_op [where oper = "RegisterSingle (str ''lxmf'') [str ''delivery'']" and evs = "[]"]])
    (simp_all add: enable_lxmf_def Let_def case_prod_beta)


text \<open>The drivers a node can be started in, with or without messaging.\<close>

definition driver_starts :: "ext \<Rightarrow> node \<Rightarrow> (u16 \<times> channel) list \<Rightarrow> bool \<Rightarrow> 'r \<Rightarrow> 'r driver set" where
  "driver_starts X nd interfaces keep_alive r =
     {fst (driver_build nd interfaces keep_alive r), snd (enable_lxmf X (fst (driver_build nd interfaces keep_alive r)))}"

lemma driver_starts_new:
  "fst (driver_new_interfaces nd interfaces r) \<in> driver_starts X nd interfaces False r"
  "fst (driver_new_lxmf_interfaces X nd interfaces r) \<in> driver_starts X nd interfaces False r"
  "fst (driver_new_dynamic nd interfaces r) \<in> driver_starts X nd interfaces True r"
  "fst (driver_new_lxmf_dynamic X nd interfaces r) \<in> driver_starts X nd interfaces True r"
  by (simp_all add: driver_starts_def driver_new_interfaces_def driver_new_lxmf_interfaces_def driver_new_dynamic_def
      driver_new_lxmf_dynamic_def Let_def case_prod_beta)

lemma faithful_start: "d \<in> driver_starts X nd interfaces ka r \<Longrightarrow> faithful X E (fst (driver_build nd [] ka r)) d"
  by (auto simp: driver_starts_def intro: faithful_build faithful_trans [OF faithful_build faithful_lxmf])


lemma faithful_node_ok:
  assumes "faithful X E d d'" and "hkdf_ok X" and "node_ok (dr_node d)"
  shows "node_ok (dr_node d')"
proof -
  obtain evs where "node_run X E (dr_node d, dr_entropy d) evs (dr_node d', dr_entropy d')"
    using assms(1) by (auto simp: faithful_def served_def)
  from node_run_ok [OF this assms(2)] assms(3) show ?thesis by simp
qed

end
