(* ===== verification/Driver_Tables.thy ===== *)
theory Driver_Tables
  imports Driver_System
begin

text \<open>
  The invariant of the driver's tables between two rounds of its loop: an interface has a channel exactly
  when its statistics say it is online, the statistics of every interface carry its own number, and
  nothing is left in the node's queue.
\<close>

definition tables_ok :: "'r driver \<Rightarrow> bool" where
  "tables_ok d \<longleftrightarrow> bt_ok (dr_interfaces d) \<and> bt_ok (dr_interface_stats d) \<and>
     (\<forall>i. bt_contains i (dr_interfaces d) \<longleftrightarrow> (\<exists>s. bt_get i (dr_interface_stats d) = Some s \<and> is_online s)) \<and>
     (\<forall>i s. bt_get i (dr_interface_stats d) = Some s \<longrightarrow> is_id s = i)"

definition driver_ok :: "'r driver \<Rightarrow> bool" where
  "driver_ok d \<longleftrightarrow> tables_ok d \<and> nd_outbound (dr_node d) = []"

section \<open>What touches the tables\<close>

definition same_tables :: "'r driver \<Rightarrow> 'r driver \<Rightarrow> bool" where
  "same_tables d d' \<longleftrightarrow> dr_interfaces d' = dr_interfaces d \<and> dr_interface_stats d' = dr_interface_stats d"

lemma same_tables_refl [simp]: "same_tables d d"
  by (simp add: same_tables_def)

lemma same_tables_trans: "same_tables a b \<Longrightarrow> same_tables b c \<Longrightarrow> same_tables a c"
  by (simp add: same_tables_def)

lemma same_tables_ok: "same_tables d d' \<Longrightarrow> tables_ok d' = tables_ok d"
  by (simp add: same_tables_def tables_ok_def)

lemma same_tables_fold: "(\<And>x d. same_tables d (f x d)) \<Longrightarrow> same_tables d (fold f xs d)"
  by (induction xs arbitrary: d) (auto intro: same_tables_trans)

lemma same_fields [simp]:
  "same_tables d (d'\<lparr>dr_node := nd\<rparr>) = same_tables d d'" "same_tables d (d'\<lparr>dr_entropy := r\<rparr>) = same_tables d d'"
  "same_tables d (d'\<lparr>dr_lxmf := l\<rparr>) = same_tables d d'" "same_tables d (d'\<lparr>dr_announce_data := a\<rparr>) = same_tables d d'"
  "same_tables d (d'\<lparr>dr_events := evs\<rparr>) = same_tables d d'"
  by (simp_all add: same_tables_def)

lemma same_calls [simp]:
  "same_tables d (after_call res d') = same_tables d d'" "same_tables d (report_call res' d') = same_tables d d'"
  "same_tables d (emit ev d') = same_tables d d'" "same_tables d (learn_source X ev d') = same_tables d d'"
  by (simp_all add: same_tables_def after_call_def report_call_def emit_def Let_def split: sum.split)

lemma same_send_pending [simp]: "same_tables d (snd (send_pending X E ev d')) = same_tables d d'"
  by (simp add: same_tables_def send_pending_def Let_def case_prod_beta split: event.split option.split sum.split)

lemma same_emit_event [simp]: "same_tables d (emit_node_event X E ev d') = same_tables d d'"
  by (simp add: emit_node_event_def Let_def case_prod_beta split: option.split)

lemma same_emit_events [simp]: "same_tables d (emit_node_events X E evs d') = same_tables d d'"
  unfolding emit_node_events_def by (induction evs arbitrary: d') simp_all

lemma same_announce [simp]: "same_tables d (announce_on X E app dests i d')  = same_tables d d'"
  unfolding announce_on_def by (induction dests arbitrary: d') (simp_all add: case_prod_beta)

lemma same_announces [simp]: "same_tables d (fold (announce_on X E app dests) is d')  = same_tables d d'"
  by (induction "is" arbitrary: d') simp_all

lemma same_lxmf [simp]:
  "same_tables d (snd (lxmf_opportunistic X E dh ti co f d')) = same_tables d d'"
  "same_tables d (snd (lxmf_direct X E dh ti co f d')) = same_tables d d'"
  by (simp_all add: lxmf_opportunistic_def lxmf_direct_def Let_def split: sum.split option.split)

lemma tables_fields:
  "tables_ok (d\<lparr>dr_node := nd\<rparr>) = tables_ok d" "tables_ok (d\<lparr>dr_lxmf := l\<rparr>) = tables_ok d"
  "tables_ok (d\<lparr>dr_registrations := b\<rparr>) = tables_ok d"
  by (rule same_tables_ok, simp add: same_tables_def)+

lemma tables_emit [simp]: "tables_ok (emit ev d) = tables_ok d"
  by (rule same_tables_ok) simp

section \<open>The invariant\<close>

lemma tables_update:
  assumes "tables_ok d" and "\<And>s. is_id (f s) = is_id s" "\<And>s. is_online (f s) = is_online s"
  shows "tables_ok (update_stats i f d)"
  using assms by (fastforce simp: tables_ok_def update_stats_def bt_simps bt_oks)

lemma tables_offline:
  assumes "tables_ok d"
  shows "tables_ok (update_stats i (\<lambda>s. s\<lparr>is_online := False\<rparr>) (d\<lparr>dr_interfaces := bt_remove i (dr_interfaces d)\<rparr>))"
  using assms by (fastforce simp: tables_ok_def update_stats_def bt_simps bt_oks bt_contains_def)

lemma tables_send_out:
  assumes "tables_ok d"
  shows "tables_ok (send_out i packet d)"
proof (cases "bt_get i (dr_interfaces d)")
  case None
  then show ?thesis using assms by (simp add: send_out_def)
next
  case (Some c)
  show ?thesis
  proof (cases "channel_send c")
    case None
    then show ?thesis using Some tables_offline [OF assms] by (simp add: send_out_def)
  next
    case (Some c')
    have "tables_ok (d\<lparr>dr_interfaces := bt_insert i c' (dr_interfaces d), dr_sent := dr_sent d @ [(i, packet)]\<rparr>)"
      using assms \<open>bt_get i (dr_interfaces d) = Some c\<close>
      by (auto simp: tables_ok_def bt_simps bt_oks bt_contains_def)
    then show ?thesis
      using Some \<open>bt_get i (dr_interfaces d) = Some c\<close> by (simp add: send_out_def tables_update count_tx_def)
  qed
qed

lemma driver_ok_drain: "tables_ok d \<Longrightarrow> driver_ok (drain_outbound d)"
proof (induction d rule: drain_outbound.induct)
  case (1 d)
  show ?case
  proof (cases "nd_outbound (dr_node d)")
    case Nil
    then show ?thesis using 1(2) by (subst drain_outbound.simps) (simp add: poll_outbound_def driver_ok_def)
  next
    case (Cons ip rest)
    obtain i packet where ip: "ip = (i, packet)" by fastforce
    let ?d = "d\<lparr>dr_node := (dr_node d)\<lparr>nd_outbound := rest\<rparr>\<rparr>"
    have p: "poll_outbound (dr_node d) = (Some (i, packet), (dr_node d)\<lparr>nd_outbound := rest\<rparr>)"
      using Cons ip by (simp add: poll_outbound_def)
    have "tables_ok ?d" using 1(2) same_tables_ok [of d ?d] by (simp add: same_tables_def)
    then have "driver_ok (drain_outbound (send_out i packet ?d))"
      using 1(1) [OF p [symmetric] HOL.refl HOL.refl] tables_send_out by blast
    then show ?thesis by (subst drain_outbound.simps) (simp add: p)
  qed
qed

lemma driver_ok_drained: "tables_ok d \<Longrightarrow> same_tables d d' \<Longrightarrow> driver_ok (drain_outbound d')"
  using driver_ok_drain same_tables_ok by blast

lemma driver_ok_command:
  assumes "exec_command X E c d = Some out" and "driver_ok d"
  shows "driver_ok (outcome_driver out)"
proof -
  have t: "tables_ok d" using assms(2) by (simp add: driver_ok_def)
  show ?thesis
    using assms by (cases c) (auto simp: Let_def case_prod_beta split: option.splits intro!: driver_ok_drained [OF t])
qed

lemma driver_ok_gone:
  assumes "driver_ok d"
  shows "driver_ok (interface_gone i d)"
proof -
  let ?d = "update_stats i (\<lambda>s. s\<lparr>is_online := False\<rparr>) (d\<lparr>dr_interfaces := bt_remove i (dr_interfaces d)\<rparr>)"
  have "tables_ok (interface_gone i d)"
    using assms tables_offline [of d i] same_tables_ok [of ?d "interface_gone i d"]
    by (simp add: driver_ok_def interface_gone_def Let_def)
  then show ?thesis
    using assms by (simp add: driver_ok_def interface_gone_def update_stats_def unregister_interface_def Let_def)
qed

lemma driver_ok_emit [simp]: "driver_ok (emit ev d) = driver_ok d"
  by (simp add: driver_ok_def) (simp add: emit_def)

lemma driver_ok_inbound: "driver_ok d \<Longrightarrow> driver_ok (outcome_driver (driver_inbound X E inb d))"
proof (cases inb)
  case (Packet i bs)
  assume "driver_ok d"
  then have t: "tables_ok (update_stats i (count_rx bs) d)" by (simp add: driver_ok_def tables_update count_rx_def)
  have "same_tables (update_stats i (count_rx bs) d)
      (emit_node_events X E evs ((update_stats i (count_rx bs) d)\<lparr>dr_node := nd, dr_entropy := r\<rparr>))" for evs nd r
    by simp
  then show ?thesis using Packet driver_ok_drained [OF t] by (simp add: driver_inbound_def Let_def case_prod_beta)
qed (simp_all add: driver_inbound_def Let_def driver_ok_gone)

lemma tables_register: "tables_ok d \<Longrightarrow> tables_ok (register_iface ic d)"
  by (auto simp: tables_ok_def register_iface_def interface_snapshot_new_def bt_simps bt_oks bt_contains_def)

lemma register_queue [simp]: "nd_outbound (dr_node (register_iface ic d)) = nd_outbound (dr_node d)"
  by (simp add: register_iface_def register_interface_def)

lemma driver_ok_registration: "driver_ok d \<Longrightarrow> driver_ok (outcome_driver (driver_registration X E reg d))"
proof (cases reg)
  case None
  assume d: "driver_ok d"
  then have "driver_ok (d\<lparr>dr_registrations := False\<rparr>)" by (simp add: driver_ok_def tables_fields)
  then show ?thesis using None by (simp add: driver_registration_def Let_def)
next
  case (Some ic)
  assume d: "driver_ok d"
  have "driver_ok (register_iface ic d)" using d by (simp add: driver_ok_def tables_register)
  moreover have "driver_ok (drain_outbound (announce_on X E app dests i (register_iface ic d)))" for app dests i
    by (rule driver_ok_drained [of "register_iface ic d"]) (use calculation in \<open>simp_all add: driver_ok_def\<close>)
  ultimately show ?thesis
    using Some d by (simp add: driver_registration_def Let_def case_prod_beta split: option.split prod.split)
qed

lemma driver_ok_tick: "driver_ok d \<Longrightarrow> driver_ok (outcome_driver (driver_tick X E d))"
  using driver_ok_drained [of d] by (simp add: driver_ok_def [of d] driver_tick_def case_prod_beta)

lemma driver_ok_step: "driver_step X E input d = Some out \<Longrightarrow> driver_ok d \<Longrightarrow> driver_ok (outcome_driver out)"
  by (cases input)
    (auto simp: driver_step_def driver_ok_command driver_ok_inbound driver_ok_registration driver_ok_tick
      split: option.splits if_splits)

lemma driver_ok_run: "driver_run X E d d' \<Longrightarrow> driver_ok d \<Longrightarrow> driver_ok d'"
proof (induction rule: driver_run.induct)
  case (wait d d' t)
  then show ?case by (simp add: driver_ok_def tables_fields)
next
  case (round d d' input d'' reply)
  then show ?case using driver_ok_step [OF round.hyps(2)] by simp
qed

lemma driver_ok_build:
  assumes "nd_outbound nd = []"
  shows "driver_ok (fst (driver_build nd interfaces ka r))"
proof -
  have "driver_ok (fold register_iface ics d)" if "driver_ok d" for ics :: "(u16 \<times> channel) list" and d :: "'a driver"
    using that by (induction ics arbitrary: d) (simp_all add: driver_ok_def tables_register)
  moreover have "driver_ok (fst (driver_build nd [] ka r))"
    using assms by (simp add: driver_build_def driver_ok_def tables_ok_def bt_contains_def bt_get_def Let_def)
  ultimately show ?thesis by (simp add: driver_build_def Let_def)
qed

lemma driver_ok_lxmf: "driver_ok d \<Longrightarrow> driver_ok (snd (enable_lxmf X d))"
  by (simp add: enable_lxmf_def driver_ok_def tables_ok_def register_single_destination_def push_local_def Let_def case_prod_beta)

lemma driver_ok_start: "nd_outbound nd = [] \<Longrightarrow> d \<in> driver_starts X nd interfaces ka r \<Longrightarrow> driver_ok d"
  by (auto simp: driver_starts_def intro: driver_ok_build driver_ok_lxmf)

section \<open>What a snapshot shows\<close>

lemma sorted_stats:
  assumes "tables_ok d"
  shows "sort_key is_id (map snd (dr_interface_stats d)) = map snd (dr_interface_stats d)"
    and "map is_id (map snd (dr_interface_stats d)) = bt_keys (dr_interface_stats d)"
proof -
  have "is_id (snd p) = fst p" if "p \<in> set (dr_interface_stats d)" for p
    using assms that by (cases p) (simp add: tables_ok_def bt_get_in_set)
  then show m: "map is_id (map snd (dr_interface_stats d)) = bt_keys (dr_interface_stats d)" by (simp add: bt_keys_def)
  have "sorted (map is_id (map snd (dr_interface_stats d)))"
    unfolding m using assms by (simp add: tables_ok_def bt_ok_def strict_sorted_imp_sorted)
  then show "sort_key is_id (map snd (dr_interface_stats d)) = map snd (dr_interface_stats d)" by (rule sort_key_id_if_sorted)
qed

lemma snapshot_interfaces:
  assumes "tables_ok d"
  shows "sorted_wrt (<) (map is_id (ds_interfaces (snapshot_state X d)))"
    and "{is_id s | s. s \<in> set (ds_interfaces (snapshot_state X d)) \<and> is_online s} = set (bt_keys (dr_interfaces d))"
proof -
  note s = sorted_stats [OF assms]
  have i: "ds_interfaces (snapshot_state X d) = map snd (dr_interface_stats d)" by (simp add: snapshot_state_def s(1))
  show "sorted_wrt (<) (map is_id (ds_interfaces (snapshot_state X d)))"
    using assms unfolding i s(2) by (simp add: tables_ok_def bt_ok_def)
  have mem: "s \<in> set (map snd (dr_interface_stats d)) \<longleftrightarrow> bt_get (is_id s) (dr_interface_stats d) = Some s" for s
  proof -
    have ok: "bt_ok (dr_interface_stats d)" using assms by (simp add: tables_ok_def)
    have "s \<in> set (map snd (dr_interface_stats d)) \<longleftrightarrow> (\<exists>i. (i, s) \<in> set (dr_interface_stats d))" by force
    also have "\<dots> \<longleftrightarrow> (\<exists>i. bt_get i (dr_interface_stats d) = Some s)" by (simp add: bt_get_in_set [OF ok])
    finally have "s \<in> set (map snd (dr_interface_stats d)) \<longleftrightarrow> (\<exists>i. bt_get i (dr_interface_stats d) = Some s)" .
    moreover have "bt_get i (dr_interface_stats d) = Some s \<Longrightarrow> is_id s = i" for i using assms by (simp add: tables_ok_def)
    ultimately show ?thesis by blast
  qed
  have online: "bt_contains i (dr_interfaces d) \<longleftrightarrow> (\<exists>s. bt_get i (dr_interface_stats d) = Some s \<and> is_online s)"
    and ids: "bt_get i (dr_interface_stats d) = Some s \<Longrightarrow> is_id s = i" for i s
    using assms by (simp_all add: tables_ok_def)
  show "{is_id s | s. s \<in> set (ds_interfaces (snapshot_state X d)) \<and> is_online s} = set (bt_keys (dr_interfaces d))"
  proof (rule set_eqI)
    fix k
    have "k \<in> set (bt_keys (dr_interfaces d)) \<longleftrightarrow> (\<exists>s. bt_get k (dr_interface_stats d) = Some s \<and> is_online s)"
      using online [of k] by (simp add: bt_keys_get bt_contains_def)
    then show "k \<in> {is_id s | s. s \<in> set (ds_interfaces (snapshot_state X d)) \<and> is_online s} \<longleftrightarrow>
        k \<in> set (bt_keys (dr_interfaces d))"
      unfolding i mem mem_Collect_eq using ids by blast
  qed
qed

end
