(* ===== verification/Node_Runs.thy ===== *)
theory Node_Runs
  imports Node_Reach
begin

text \<open>
  What an operation leaves of the clock, the packets seen and the links, and what a run of operations
  therefore leaves of them.
\<close>

section \<open>Received packets\<close>

lemma inbound_inner_keeps:
  "keeps nd (fst (snd (handle_inbound_inner X E bs i rng nd))) \<or>
   keeps (maybe_prune (nd_clock nd) nd) (fst (snd (handle_inbound_inner X E bs i rng nd))) \<or>
   (\<exists>h. keeps (noted h nd) (fst (snd (handle_inbound_inner X E bs i rng nd))))"
proof (cases "packet_decode bs")
  case (Inr p)
  let ?h = "packet_hash X p"
  show ?thesis
  proof (cases "hops p \<ge> PATHFINDER_MAX_HOPS \<or> bt_contains ?h (nd_seen_packets (maybe_prune (nd_clock nd) nd))")
    case True
    then show ?thesis using Inr by (auto simp: handle_inbound_inner_eq)
  next
    case False
    have "keeps (noted ?h nd) (fst (snd (dispatch X E (p\<lparr>hops := sat_add (hops p) 1\<rparr>) i rng (noted ?h nd))))"
      by simp
    then have "keeps (noted ?h nd) (fst (snd (handle_inbound_inner X E bs i rng nd)))"
      using Inr False by (simp add: handle_inbound_inner_eq)
    then show ?thesis by blast
  qed
qed (simp add: handle_inbound_inner_eq)

lemma links_le_prune: "links_le (maybe_prune now nd) nd' = links_le nd nd'"
  by (simp add: links_le_def)

lemma links_le_noted: "links_le (noted h nd) nd' = links_le nd nd'"
  by (simp add: links_le_def)

lemma inbound_inner_links: "links_le nd (fst (snd (handle_inbound_inner X E bs i rng nd)))"
  using inbound_inner_keeps [of nd X E bs i rng] by (auto simp: keeps_def links_le_prune links_le_noted)

lemma inbound_inner_clock [simp]: "nd_clock (fst (snd (handle_inbound_inner X E bs i rng nd))) = nd_clock nd"
  using inbound_inner_keeps [of nd X E bs i rng] by (auto dest: keeps_clock)

lemma seen_prune: "seen_until e h nd \<Longrightarrow> nd_clock nd < e \<Longrightarrow> seen_until e h (maybe_prune (nd_clock nd) nd)"
proof -
  assume s: "seen_until e h nd" and c: "nd_clock nd < e"
  then obtain e' where e': "bt_get h (nd_seen_packets nd) = Some e'" "e \<le> e'" and ok: "bt_ok (nd_seen_packets nd)"
    by (auto simp: seen_until_def)
  have "bt_get h (nd_seen_packets (maybe_prune (nd_clock nd) nd)) = Some e'"
    by (rule maybe_prune_keeps [OF ok e'(1)]) (use c e'(2) in simp)
  moreover have "bt_ok (nd_seen_packets (maybe_prune (nd_clock nd) nd))"
    using ok by (simp add: maybe_prune_def bt_oks)
  ultimately show ?thesis using e'(2) by (auto simp: seen_until_def)
qed

lemma inbound_inner_seen:
  assumes s: "seen_until e h nd" and c: "nd_clock nd < e"
  shows "seen_until e h (fst (snd (handle_inbound_inner X E bs i rng nd)))"
proof (cases "packet_decode bs")
  case (Inl err)
  then show ?thesis using s by (simp add: handle_inbound_inner_eq)
next
  case (Inr p)
  let ?h = "packet_hash X p"
  note sp = seen_prune [OF s c]
  show ?thesis
  proof (cases "hops p \<ge> PATHFINDER_MAX_HOPS \<or> bt_contains ?h (nd_seen_packets (maybe_prune (nd_clock nd) nd))")
    case True
    then show ?thesis using s sp Inr by (auto simp: handle_inbound_inner_eq)
  next
    case False
    then have "h \<noteq> ?h" using sp by (auto simp: seen_until_def bt_contains_def)
    then have "seen_until e h (noted ?h nd)"
      using sp by (simp add: seen_until_def noted_def bt_oks bt_simps)
    moreover have "nd_seen_packets (fst (snd (dispatch X E (p\<lparr>hops := sat_add (hops p) 1\<rparr>) i rng (noted ?h nd)))) =
        nd_seen_packets (noted ?h nd)" by (rule keeps_seen) simp
    ultimately show ?thesis using False Inr by (simp add: handle_inbound_inner_eq seen_until_def)
  qed
qed

text \<open>An accepted packet is seen from then on.\<close>

lemma noted_seen:
  "bt_ok (nd_seen_packets nd) \<Longrightarrow> seen_until (sat_add (nd_clock nd) PACKET_HASH_TTL_SECS) h (noted h nd)"
  by (simp add: seen_until_def noted_def bt_oks bt_simps maybe_prune_def)

section \<open>Single operations\<close>

lemma exec_cases:
  assumes "node_exec X E op1 (nd, r) = Some (evs, nd', r')"
  shows "keeps nd nd' \<or> (\<exists>bs i rng. nd' = fst (snd (handle_inbound_inner X E bs i rng nd))) \<or>
    (\<exists>bs i rng. nd' = fst (snd (handle_inbound_inner X seeded_fill bs i rng nd))) \<or>
    (\<exists>dh. op1 = Establish dh \<and> nd' = fst (snd (establish_link X E dh r nd))) \<or>
    (nd_seen_packets nd' = nd_seen_packets nd \<and> nd_links nd' = nd_links nd \<and> nd_clock nd \<le> nd_clock nd')"
    (is "?k \<or> ?i \<or> ?j \<or> ?e \<or> ?s")
proof -
  have f: "fst (snd (the (node_exec X E op1 (nd, r)))) = nd'" using assms by simp
  show ?thesis
  proof (cases op1)
    case (Receive bs i b)
    show ?thesis
    proof (cases b)
      case True
      then have "nd' = fst (snd (handle_inbound_inner X E bs i (Some r) nd))" using f Receive
        by (auto simp: handle_inbound_with_entropy_def case_prod_beta)
      then show ?thesis by blast
    next
      case False
      then have "nd' = fst (snd (handle_inbound_inner X seeded_fill bs i None nd))" using f Receive
        by (auto simp: handle_inbound_def case_prod_beta)
      then show ?thesis by blast
    qed
  next
    case (Tick b)
    then have "?k" using f by (cases b) (auto simp: tick_with_entropy_def case_prod_beta)
    then show ?thesis ..
  next
    case (SendMessage dh pt b)
    then have "?k" using f by (cases b) auto
    then show ?thesis ..
  next
    case (SendResource lid d)
    then have "?k" using assms by (auto intro: keeps_send_resource [where nd = nd])
    then show ?thesis ..
  next
    case (Establish dh)
    then have "?e" using f by auto
    then show ?thesis by blast
  next
    case (Wait d)
    then have "?s" using f by (auto simp: sat_add_ge)
    then show ?thesis by blast
  next
    case (PrunePaths)
    then have "nd' = node_prune nd" using f by (auto simp: node_prune_def)
    then have "?k" by simp
    then show ?thesis ..
  next
    case (SetProve dh b)
    then have "?s" using f by (auto simp: set_prove_def split: option.splits local_kind.splits)
    then show ?thesis by blast
  next
    case Poll
    then have "?s" using f by (auto simp: poll_outbound_def split: list.splits)
    then show ?thesis by blast
  qed (use f in \<open>auto simp: enable_transport_def register_interface_def unregister_interface_def
      register_single_destination_def register_group_destination_def register_plain_destination_def
      register_group_destination_with_identity_def push_local_def Let_def\<close>)
qed

lemma establish_keeps:
  "keeps nd (fst (snd (establish_link X E dh r nd))) \<or>
   (\<exists>lid l nd1. fst (establish_link X E dh r nd) = Inr lid \<and> keeps nd nd1 \<and>
      nd_links (fst (snd (establish_link X E dh r nd))) = links_insert lid l (nd_links nd1) \<and>
      steady nd (fst (snd (establish_link X E dh r nd))))"
proof (cases "path_get dh (nd_paths (node_prune nd))")
  case (Some entry)
  obtain eph r1 where e: "ephemeral_generate X E r = (eph, r1)" by fastforce
  let ?lid = "link_id_from_request X (link_request dh (link_request_payload eph))"
  show ?thesis
  proof (cases "pe_hops entry > 1 \<and> pe_next_hop entry = None")
    case True
    then show ?thesis using Some e by (simp add: establish_link_def Let_def)
  next
    case False
    have s: "steady nd (node_prune nd)" by simp
    show ?thesis
      by (rule disjI2, rule exI [of _ ?lid], rule exI, rule exI [of _ "node_prune nd"])
        (use False Some e s in \<open>auto simp: establish_link_def Let_def steady_steps\<close>)
  qed
qed (simp add: establish_link_def)

lemma exec_seen:
  assumes e: "node_exec X E op1 (nd, r) = Some (evs, nd', r')" and s: "seen_until t h nd" and c: "nd_clock nd < t"
  shows "seen_until t h nd'"
proof -
  have k: "seen_until t h m" if "nd_seen_packets m = nd_seen_packets nd" for m
    using s that by (simp add: seen_until_def)
  have "steady nd (fst (snd (establish_link X E dh r nd)))" for dh
    using establish_keeps [of nd X E dh r] by (auto simp: keeps_def)
  then have "nd_seen_packets (fst (snd (establish_link X E dh r nd))) = nd_seen_packets nd" for dh
    by (simp add: steady_def)
  then show ?thesis
    using exec_cases [OF e] inbound_inner_seen [OF s c] inbound_inner_seen [OF s c, of X seeded_fill] k keeps_seen
    by (elim disjE) auto
qed

lemma exec_clock:
  assumes e: "node_exec X E op1 (nd, r) = Some (evs, nd', r')" shows "nd_clock nd \<le> nd_clock nd'"
proof -
  have "steady nd (fst (snd (establish_link X E dh r nd)))" for dh
    using establish_keeps [of nd X E dh r] by (auto simp: keeps_def)
  then have "nd_clock (fst (snd (establish_link X E dh r nd))) = nd_clock nd" for dh
    by (simp add: steady_def)
  then show ?thesis using exec_cases [OF e] keeps_clock by fastforce
qed

text \<open>An operation moves links forward; only \<open>establish_link\<close> may replace one, that of the id it returns.\<close>

lemma exec_links:
  assumes e: "node_exec X E op1 (nd, r) = Some (evs, nd', r')"
    and l: "links_get i (nd_links nd) = Some l"
  shows "(\<exists>l'. links_get i (nd_links nd') = Some l' \<and> link_le l l') \<or>
    (\<exists>dh. op1 = Establish dh \<and> fst (establish_link X E dh r nd) = Inr i)"
proof -
  have g: "\<exists>l'. links_get i (nd_links m) = Some l' \<and> link_le l l'" if "links_le nd m" for m
    using l that by (simp add: links_le_def)
  from exec_cases [OF e] show ?thesis
  proof (elim disjE)
    assume "keeps nd nd'"
    then show ?thesis using g by (simp add: keeps_def)
  next
    assume "\<exists>dh. op1 = Establish dh \<and> nd' = fst (snd (establish_link X E dh r nd))"
    then obtain dh where dh: "op1 = Establish dh" "nd' = fst (snd (establish_link X E dh r nd))" by blast
    from establish_keeps [of nd X E dh r] show ?thesis
    proof
      assume "keeps nd (fst (snd (establish_link X E dh r nd)))"
      then show ?thesis using g dh by (simp add: keeps_def)
    next
      assume "\<exists>lid l nd1. fst (establish_link X E dh r nd) = Inr lid \<and> keeps nd nd1 \<and>
        nd_links (fst (snd (establish_link X E dh r nd))) = links_insert lid l (nd_links nd1) \<and>
        steady nd (fst (snd (establish_link X E dh r nd)))"
      then obtain lid l1 nd1 where x: "fst (establish_link X E dh r nd) = Inr lid" "keeps nd nd1"
        "nd_links nd' = links_insert lid l1 (nd_links nd1)" using dh by blast
      then show ?thesis using g [of nd1] dh by (cases "lid = i") (auto simp: keeps_def)
    qed
  next
    assume "\<exists>bs i rng. nd' = fst (snd (handle_inbound_inner X E bs i rng nd))"
    then show ?thesis using g [OF inbound_inner_links] by blast
  next
    assume "\<exists>bs i rng. nd' = fst (snd (handle_inbound_inner X seeded_fill bs i rng nd))"
    then show ?thesis using g [OF inbound_inner_links] by blast
  qed (use g [of nd] l in auto)
qed

section \<open>Runs\<close>

lemma run_clock: "node_run X E s evs s' \<Longrightarrow> nd_clock (fst s) \<le> nd_clock (fst s')"
proof (induction rule: node_run.induct)
  case (step op1 s evs s' evs' s'')
  then show ?case using exec_clock [of X E op1 "fst s" "snd s" evs "fst s'" "snd s'"] by simp
qed simp

lemma run_seen:
  "node_run X E s evs s' \<Longrightarrow> seen_until t h (fst s) \<Longrightarrow> nd_clock (fst s') < t \<Longrightarrow> seen_until t h (fst s')"
proof (induction rule: node_run.induct)
  case (step op1 s evs s' evs' s'')
  have "nd_clock (fst s) < t"
    using exec_clock [of X E op1 "fst s" "snd s" evs "fst s'" "snd s'"] run_clock [OF step.hyps(2)] step by simp
  then show ?case
    using exec_seen [of X E op1 "fst s" "snd s" evs "fst s'" "snd s'" t h] step by simp
qed

end
