(* ===== verification/Node_Minor.thy ===== *)
theory Node_Minor
  imports Node_Runs
begin

text \<open>
  What the operations leave of the routes, the pending receipts, the outbound resources and the pending
  events: \<open>minor nd nd'\<close> says that the second state has no route, no receipt and no outbound resource (or
  the proof it expects) the first does not have, and that its pending events are those of the first and
  closures of links and failures of resources. Only an accepted announce adds a route (Node_Events), only
  \<open>send_message_with_receipt\<close> a receipt, only \<open>send_resource\<close> an outbound resource.
\<close>

definition minor_event :: "event \<Rightarrow> bool" where
  "minor_event ev \<longleftrightarrow> (\<exists>l. ev = LinkClosed l) \<or> (\<exists>l h. ev = ResourceFailed l h)"

lemma minor_event_simps [simp]: "minor_event (LinkClosed l)" "minor_event (ResourceFailed l h)"
  by (simp_all add: minor_event_def)

definition maps_ok :: "node \<Rightarrow> bool" where
  "maps_ok nd \<longleftrightarrow> bt_ok (nd_paths nd) \<and> bt_ok (nd_pending_receipts nd) \<and> bt_ok (nd_outbound_resources nd)"

text \<open>The proof an outbound resource waits for.\<close>

definition expects :: "bytes \<times> bytes \<Rightarrow> bytes \<Rightarrow> node \<Rightarrow> bool" where
  "expects k x nd \<longleftrightarrow> (\<exists>ob. bt_get k (nd_outbound_resources nd) = Some ob \<and> ob_expected_proof ob = x)"

definition shrinks :: "node \<Rightarrow> node \<Rightarrow> bool" where
  "shrinks nd nd' \<longleftrightarrow> (\<forall>dh e. path_get dh (nd_paths nd') = Some e \<longrightarrow> path_get dh (nd_paths nd) = Some e) \<and>
     (\<forall>h rc. bt_get h (nd_pending_receipts nd') = Some rc \<longrightarrow> bt_get h (nd_pending_receipts nd) = Some rc) \<and>
     (\<forall>k x. expects k x nd' \<longrightarrow> expects k x nd)"

definition minor :: "node \<Rightarrow> node \<Rightarrow> bool" where
  "minor nd nd' \<longleftrightarrow> (maps_ok nd \<longrightarrow> maps_ok nd' \<and> shrinks nd nd') \<and>
     (\<forall>ev \<in> set (nd_pending_events nd'). ev \<in> set (nd_pending_events nd) \<or> minor_event ev)"

lemma minor_refl [simp]: "minor nd nd"
  by (simp add: minor_def shrinks_def)

lemma minor_trans: "minor a b \<Longrightarrow> minor b c \<Longrightarrow> minor a c"
  unfolding minor_def shrinks_def by blast

lemma minor_same:
  assumes "minor nd nd1" and "nd_paths nd' = nd_paths nd1" and "nd_pending_receipts nd' = nd_pending_receipts nd1"
    and "nd_outbound_resources nd' = nd_outbound_resources nd1"
    and "\<And>ev. ev \<in> set (nd_pending_events nd') \<Longrightarrow> ev \<in> set (nd_pending_events nd1) \<or> minor_event ev"
  shows "minor nd nd'"
  using assms unfolding minor_def shrinks_def maps_ok_def expects_def by auto

lemma minor_fields [simp]:
  "minor nd (push_out i b nd1) = minor nd nd1"
  "minor nd (push_all is b nd1) = minor nd nd1"
  "minor nd (nd1\<lparr>nd_links := ls\<rparr>) = minor nd nd1"
  "minor nd (nd1\<lparr>nd_cached_announces := c\<rparr>) = minor nd nd1"
  "minor nd (nd1\<lparr>nd_seen_announces := d\<rparr>) = minor nd nd1"
  "minor nd (nd1\<lparr>nd_seen_path_requests := d\<rparr>) = minor nd nd1"
  "minor nd (nd1\<lparr>nd_inbound_resources := g\<rparr>) = minor nd nd1"
  "minor nd (touch_link j nd1) = minor nd nd1"
  by (simp_all add: minor_def shrinks_def maps_ok_def expects_def push_all_eq touch_link_def)

lemma minor_transfer:
  "minor nd nd1 \<Longrightarrow> transfer_frame nd1 nd' \<Longrightarrow> nd_outbound_resources nd' = nd_outbound_resources nd1 \<Longrightarrow> minor nd nd'"
  by (erule minor_same) (simp_all add: transfer_frame_same)

lemma minor_prune [simp]: "minor nd nd1 \<Longrightarrow> minor nd (node_prune nd1)"
proof -
  have "minor nd1 (node_prune nd1)"
    by (simp add: minor_def maps_ok_def shrinks_def expects_def node_prune_eq path_prune_ok path_get_prune_Some)
  then show "minor nd nd1 \<Longrightarrow> minor nd (node_prune nd1)" using minor_trans by blast
qed

lemma minor_receipts:
  assumes "minor nd nd1" and "bt_ok (nd_pending_receipts nd1) \<Longrightarrow> bt_ok t"
    and "\<And>h rc. bt_ok (nd_pending_receipts nd1) \<Longrightarrow> bt_get h t = Some rc \<Longrightarrow> bt_get h (nd_pending_receipts nd1) = Some rc"
  shows "minor nd (nd1\<lparr>nd_pending_receipts := t\<rparr>)"
proof -
  have "minor nd1 (nd1\<lparr>nd_pending_receipts := t\<rparr>)"
    using assms(2,3) by (simp add: minor_def maps_ok_def shrinks_def expects_def)
  then show ?thesis using minor_trans assms(1) by blast
qed

lemma minor_outbound:
  assumes "minor nd nd1" and "bt_ok (nd_outbound_resources nd1) \<Longrightarrow> bt_ok t"
    and "\<And>k ob. bt_ok (nd_outbound_resources nd1) \<Longrightarrow> bt_get k t = Some ob \<Longrightarrow> expects k (ob_expected_proof ob) nd1"
  shows "minor nd (nd1\<lparr>nd_outbound_resources := t\<rparr>)"
proof -
  have "minor nd1 (nd1\<lparr>nd_outbound_resources := t\<rparr>)"
    using assms(2,3) by (auto simp: minor_def maps_ok_def shrinks_def expects_def)
  then show ?thesis using minor_trans assms(1) by blast
qed

lemma minor_outbound_insert:
  assumes "minor nd nd1" and "bt_get k (nd_outbound_resources nd1) = Some ob" and "ob_expected_proof ob' = ob_expected_proof ob"
  shows "minor nd (nd1\<lparr>nd_outbound_resources := bt_insert k ob' (nd_outbound_resources nd1)\<rparr>)"
  using assms(2,3) by (intro minor_outbound [OF assms(1)]) (auto simp: bt_oks bt_simps expects_def split: if_splits)

lemma minor_outbound_remove:
  "minor nd nd1 \<Longrightarrow> minor nd (nd1\<lparr>nd_outbound_resources := bt_remove k (nd_outbound_resources nd1)\<rparr>)"
  by (erule minor_outbound) (auto simp: bt_oks bt_simps expects_def split: if_splits)

lemma minor_pending [simp]:
  assumes "minor nd nd1" and "\<forall>ev \<in> set es. minor_event ev"
  shows "minor nd (nd1\<lparr>nd_pending_events := nd_pending_events nd1 @ es\<rparr>)"
    and "minor nd (nd1\<lparr>nd_pending_events := es\<rparr>)"
  by (rule minor_same [OF assms(1)]; use assms(2) in auto)+

lemma minor_close [simp]: "minor nd nd1 \<Longrightarrow> minor nd (close_link i nd1)"
  by (erule minor_same) (auto simp: close_link_def split: option.splits if_splits)

section \<open>The tick\<close>

lemma minor_enqueue [simp]:
  "minor nd nd1 \<Longrightarrow> minor nd (fst (enqueue_encrypted_link_context X E lid i c pt key r nd1))"
  by (erule minor_transfer) (simp, simp add: enqueue_encrypted_link_context_def case_prod_beta)

lemma minor_tick_resource [simp]:
  assumes k: "minor nd (fst s)" shows "minor nd (fst (tick_resource X E now key s))"
proof -
  obtain nd1 rng where s: "s = (nd1, rng)" by fastforce
  have k1: "minor nd nd1" using k s by simp
  show ?thesis
  proof (cases "bt_get key (nd_inbound_resources nd1)")
    case (Some res)
    obtain retry res' where r: "retry_due now res = (retry, res')" by fastforce
    show ?thesis
    proof (cases retry)
      case (Inl e)
      let ?nd = "nd1\<lparr>nd_inbound_resources := bt_remove key (bt_insert key res' (nd_inbound_resources nd1))\<rparr>"
      have "minor nd (?nd\<lparr>nd_pending_events := nd_pending_events ?nd @ [ResourceFailed (fst key) (snd key)]\<rparr>)"
        by (rule minor_pending) (simp_all add: k1)
      then show ?thesis using s Some r Inl by (simp add: tick_resource_def Let_def)
    next
      case (Inr q)
      show ?thesis
      proof (cases "q = None \<or> rng = None \<or> links_get (fst key) (nd_links nd1) = None
          \<or> le_derived_key (the (links_get (fst key) (nd_links nd1))) = None")
        case True
        then show ?thesis using k1 s Some r Inr
          by (cases q; cases rng; cases "links_get (fst key) (nd_links nd1)") (auto simp: tick_resource_def Let_def)
      next
        case False
        then show ?thesis using k1 s Some r Inr
          by (auto simp: tick_resource_def Let_def case_prod_beta)
      qed
    qed
  qed (use k s in \<open>simp add: tick_resource_def\<close>)
qed

lemma minor_tick_resources: "minor nd (fst s) \<Longrightarrow> minor nd (fst (fold (tick_resource X E now) ks s))"
  by (induction ks arbitrary: s) simp_all

lemma minor_tick_before [simp]: "minor nd nd1 \<Longrightarrow> minor nd (tick_before nd1)"
proof -
  assume k: "minor nd nd1"
  have "minor nd (tick_receipts nd1)"
    unfolding tick_receipts_def by (rule minor_receipts [OF k]) (auto simp: bt_oks dest: bt.retain_subset)
  then show ?thesis
    by (rule minor_same) (auto simp: tick_before_def tick_keepalives_eq tick_advance_def Let_def tick_receipts_def)
qed

text \<open>The events a tick returns are those left pending, closures and failures.\<close>

lemma tick_inner_minor:
  assumes k: "minor nd nd1"
  shows "minor nd (fst (snd (tick_inner X E rng nd1)))"
    and "ev \<in> set (fst (tick_inner X E rng nd1)) \<Longrightarrow> ev \<in> set (nd_pending_events nd) \<or> minor_event ev"
proof -
  let ?s = "fold (tick_resource X E (nd_clock nd1)) (bt_keys (nd_inbound_resources nd1)) (tick_before nd1, rng)"
  have m: "minor nd (fst ?s)" using k by (intro minor_tick_resources) simp
  have e: "fst (tick_inner X E rng nd1) = nd_pending_events (fst ?s)"
    "fst (snd (tick_inner X E rng nd1)) = fst ?s\<lparr>nd_pending_events := []\<rparr>"
    by (simp_all add: tick_inner_eq case_prod_beta)
  show "minor nd (fst (snd (tick_inner X E rng nd1)))" using m by (simp add: e)
  show "ev \<in> set (fst (tick_inner X E rng nd1)) \<Longrightarrow> ev \<in> set (nd_pending_events nd) \<or> minor_event ev"
    using m by (auto simp: e minor_def)
qed

lemma tick_minor [simp]: "minor nd nd1 \<Longrightarrow> minor nd (snd (tick X nd1))"
  by (simp add: tick_def case_prod_beta tick_inner_minor(1))

lemma tick_events:
  "minor nd nd1 \<Longrightarrow> ev \<in> set (fst (tick X nd1)) \<Longrightarrow> ev \<in> set (nd_pending_events nd) \<or> minor_event ev"
  by (simp add: tick_def case_prod_beta tick_inner_minor(2))

end
