(* ===== verification/Node_Events.thy ===== *)
theory Node_Events
  imports Node_Minor
begin

text \<open>
  Why a node reports what it reports: \<open>event_due\<close> says for each kind of event what must have held of
  the packet and of the node for the event to be justified, and each handler is shown to report
  justified events only (or, through the tick of a LINKCLOSE, events left pending). Along with it, what
  the handlers leave of routes, receipts and pending events.
\<close>

section \<open>Justified events\<close>

definition live_link :: "bytes \<Rightarrow> u16 \<Rightarrow> bytes \<Rightarrow> node \<Rightarrow> bool" where
  "live_link lid i key nd \<longleftrightarrow> (\<exists>l. links_get lid (nd_links nd) = Some l \<and> le_status l = Active \<and>
     le_interface l = i \<and> le_derived_key l = Some key)"

fun event_due :: "ext \<Rightarrow> packet \<Rightarrow> u16 \<Rightarrow> node \<Rightarrow> event \<Rightarrow> bool" where
  "event_due X p i nd (Message dh pt) \<longleftrightarrow> packet_type p = DATA \<and> dest_hash p = dh \<and>
     (\<exists>l. find_local dh nd = Some l \<and>
       (case ld_kind l of
          Single _ \<Rightarrow> dest_type p = SINGLE \<and> token_decrypt X (nd_identity nd) (data p) = Inr pt
        | Group key \<Rightarrow> dest_type p = GROUP \<and> open_with_key X key (data p) = Inr pt
        | Plain \<Rightarrow> dest_type p = PLAIN \<and> data p = pt))"
| "event_due X p i nd (LinkData lid pt) \<longleftrightarrow> packet_type p = DATA \<and> dest_type p = LINK \<and> dest_hash p = lid \<and>
     ctx p = 0 \<and> (\<exists>key. live_link lid i key nd \<and> open_with_key X key (data p) = Inr pt)"
| "event_due X p i nd (Delivered ph) \<longleftrightarrow> packet_type p = PROOF \<and> dest_type p = SINGLE \<and>
     (\<exists>rc. bt_get ph (nd_pending_receipts nd) = Some rc \<and>
        verify_proof X (pr_destination_public rc) (data p) = Inr ph)"
| "event_due X p i nd (LinkEstablished lid) \<longleftrightarrow>
     packet_type p = LINKREQUEST \<and> lid = link_id_from_request X p \<and> links_get lid (nd_links nd) = None \<and>
       (\<exists>l \<in> set (nd_locals nd). ld_dest_hash l = dest_hash p \<and> is_single (ld_kind l)) \<or>
     packet_type p = PROOF \<and> dest_type p = LINK \<and> dest_hash p = lid \<and>
       (\<exists>l pub peer. links_get lid (nd_links nd) = Some l \<and> le_status l = Pending \<and> le_initiator l \<and>
          le_destination_public l = Some pub \<and> verify_link_proof X pub lid (data p) = Inr peer)"
| "event_due X p i nd (ResourceComplete lid h d) \<longleftrightarrow> dest_type p = LINK \<and> dest_hash p = lid \<and>
     ((\<exists>ib key. bt_get (lid, h) (nd_inbound_resources nd) = Some ib \<and> live_link lid i key nd \<and>
         fst (on_part X (data p) ib) \<and> finalize X key (snd (on_part X (data p) ib)) = Inr d) \<or>
      (d = [] \<and> packet_type p = PROOF \<and>
         (\<exists>ob. bt_get (lid, h) (nd_outbound_resources nd) = Some ob \<and> fst (on_proof (data p) ob))))"
| "event_due X p i nd (Announce dh n) \<longleftrightarrow> packet_type p = ANNOUNCE \<and> dest_hash p = dh \<and> n = hops p \<and>
     (\<exists>a. announce_parse (data p) (context_flag p) = Inr a \<and> announce_verify X a dh = Inr ())"
| "event_due X p i nd (ResourceStarted lid h n) \<longleftrightarrow> dest_hash p = lid \<and> (\<exists>key. live_link lid i key nd)"
| "event_due X p i nd (ResourceProgress lid h q) \<longleftrightarrow> dest_hash p = lid \<and> (\<exists>key. live_link lid i key nd)"
| "event_due X p i nd (LxmfMessage a b c d e f) \<longleftrightarrow> False"
| "event_due X p i nd (LinkClosed lid) \<longleftrightarrow> True"
| "event_due X p i nd (ResourceFailed lid h) \<longleftrightarrow> True"
| "event_due X p i nd (Error e) \<longleftrightarrow> True"

lemma minor_event_due [simp]: "minor_event ev \<Longrightarrow> event_due X p i nd ev"
  by (auto simp: minor_event_def)

section \<open>Handlers\<close>

lemma link_request_events:
  assumes "ev \<in> set (fst (handle_link_request X E p (dest_hash p) i r nd))" and "packet_type p = LINKREQUEST"
  shows "event_due X p i nd ev"
proof (cases "parse_link_request (data p)")
  case (Inl e)
  then show ?thesis using assms by (simp add: handle_link_request_def split: if_splits)
next
  case (Inr q)
  then show ?thesis using assms
    by (cases q) (auto simp: handle_link_request_def Let_def case_prod_beta list_ex_iff split: if_splits)
qed

lemma link_proof_events:
  assumes "ev \<in> set (fst (handle_link_proof X E p (dest_hash p) rng nd))" and "packet_type p = PROOF" "dest_type p = LINK"
  shows "event_due X p i nd ev"
proof (cases "\<exists>l pub peer. links_get (dest_hash p) (nd_links nd) = Some l \<and> le_status l = Pending \<and> le_initiator l \<and>
    le_destination_public l = Some pub \<and> verify_link_proof X pub (dest_hash p) (data p) = Inr peer")
  case False
  then show ?thesis using assms
    by (auto simp: handle_link_proof_def split: option.splits sum.splits if_splits)
next
  case True
  then show ?thesis using assms
    by (auto simp: handle_link_proof_def Let_def case_prod_beta)
qed

lemma delivery_proof_events:
  assumes "ev \<in> set (fst (handle_delivery_proof X p d nd))" and "packet_type p = PROOF" "dest_type p = SINGLE"
  shows "event_due X p i nd ev"
  using assms by (auto simp: handle_delivery_proof_def split: option.splits if_splits)

lemma resource_proof_events:
  assumes "ev \<in> set (fst (handle_resource_proof p (dest_hash p) nd))" and "packet_type p = PROOF" "dest_type p = LINK"
  shows "event_due X p i nd ev"
  using assms
  by (auto simp: handle_resource_proof_def Let_def case_prod_beta split: option.splits if_splits)

lemma announce_events:
  assumes "ev \<in> set (fst (handle_announce X p (dest_hash p) i nd))" and "packet_type p = ANNOUNCE"
  shows "event_due X p i nd ev"
  using assms
  by (auto simp: handle_announce_def Let_def case_prod_beta split: sum.splits if_splits)

lemma data_events:
  assumes "ev \<in> set (fst (handle_data X p (dest_hash p) i nd))" and "packet_type p = DATA"
  shows "event_due X p i nd ev"
proof (cases "find_local (dest_hash p) nd")
  case None
  then show ?thesis using assms by (simp add: handle_data_def split: if_splits)
next
  case (Some l)
  then show ?thesis using assms
    by (cases "ld_kind l") (auto simp: handle_data_def Let_def split: if_splits sum.splits)
qed

lemma candidates_events:
  assumes "ev \<in> set (fst (handle_part_candidates X E ks i key part rng nd))"
  shows "\<exists>rk \<in> set ks. \<exists>ib. bt_get rk (nd_inbound_resources nd) = Some ib \<and> fst (on_part X part ib) \<and>
    (minor_event ev \<or> (\<exists>q. ev = ResourceProgress (fst rk) (snd rk) q) \<or>
     (\<exists>d. ev = ResourceComplete (fst rk) (snd rk) d \<and> finalize X key (snd (on_part X part ib)) = Inr d))"
  using assms
proof (induction ks)
  case (Cons rk ks)
  show ?case
  proof (cases "bt_get rk (nd_inbound_resources nd)")
    case None
    then show ?thesis using Cons by auto
  next
    case (Some ib)
    obtain b ib' where p: "on_part X part ib = (b, ib')" by fastforce
    show ?thesis
    proof (cases b)
      case False
      then show ?thesis using Cons Some p by auto
    next
      case True
      let ?nd = "nd\<lparr>nd_inbound_resources := bt_insert rk ib' (nd_inbound_resources nd)\<rparr>"
      have "ev = ResourceProgress (fst rk) (snd rk) (received_parts ib', total_parts ib') \<or>
          is_complete ib' \<and> ev \<in> set (fst (part_complete X rk i key ib' ?nd))"
        using Cons.prems Some p True by (auto simp: Let_def case_prod_beta split: if_splits)
      then have "minor_event ev \<or> (\<exists>q. ev = ResourceProgress (fst rk) (snd rk) q) \<or>
          (\<exists>d. ev = ResourceComplete (fst rk) (snd rk) d \<and> finalize X key ib' = Inr d)"
        by (cases "finalize X key ib'") (auto simp: part_complete_def Let_def)
      then show ?thesis using Some p True by auto
    qed
  qed
qed simp

lemma resource_part_events:
  assumes "ev \<in> set (fst (handle_resource_part X E (dest_hash p) i key (data p) rng nd))"
    and "dest_type p = LINK" and "live_link (dest_hash p) i key nd"
  shows "event_due X p i nd ev"
proof -
  obtain rk ib where rk: "rk \<in> set (bt_keys (nd_inbound_resources nd))" "fst rk = dest_hash p"
    "bt_get rk (nd_inbound_resources nd) = Some ib" "fst (on_part X (data p) ib)"
    "minor_event ev \<or> (\<exists>q. ev = ResourceProgress (fst rk) (snd rk) q) \<or>
     (\<exists>d. ev = ResourceComplete (fst rk) (snd rk) d \<and> finalize X key (snd (on_part X (data p) ib)) = Inr d)"
    using candidates_events [OF assms(1) [unfolded handle_resource_part_def]] by auto
  have "rk = (dest_hash p, snd rk)" using rk(2) by (simp add: prod_eq_iff)
  then have g: "bt_get (dest_hash p, snd rk) (nd_inbound_resources nd) = Some ib" using rk(3) by simp
  from rk(5) show ?thesis
  proof (elim disjE exE conjE)
    fix d assume "ev = ResourceComplete (fst rk) (snd rk) d" "finalize X key (snd (on_part X (data p) ib)) = Inr d"
    then show ?thesis using g rk(2,4) assms(2,3) by auto
  qed (use rk(2) assms(3) in auto)
qed

lemma resource_context_events:
  assumes "ev \<in> set (fst (handle_resource_context X E (dest_hash p) i key c pt r nd))"
    and "live_link (dest_hash p) i key nd"
  shows "event_due X p i nd ev"
proof -
  note h = handle_resource_context_def contexts Let_def case_prod_beta
  consider "c = RESOURCE_ADV" | "c = RESOURCE_REQ" | "c = RESOURCE_HMU" | "c = RESOURCE_ICL \<or> c = RESOURCE_RCL"
    | "c \<notin> {RESOURCE_ADV, RESOURCE_REQ, RESOURCE_HMU, RESOURCE_ICL, RESOURCE_RCL}" by auto
  then show ?thesis
  proof cases
    case 1
    then show ?thesis using assms by (auto simp: h split: sum.splits)
  next
    case 2
    then show ?thesis using assms(1) by (simp add: h split: option.splits)
  next
    case 3
    then show ?thesis using assms(1) by (simp add: h split: option.splits sum.splits)
  next
    case 4
    then show ?thesis using assms by (auto simp: h split: option.splits)
  next
    case 5
    then show ?thesis using assms by (simp add: h)
  qed
qed

lemma link_data_events:
  assumes e: "ev \<in> set (fst (handle_link_data X E p (dest_hash p) i rng nd))"
    and t: "packet_type p = DATA" "dest_type p = LINK"
  shows "event_due X p i nd ev \<or> ev \<in> set (nd_pending_events nd)"
proof (cases "\<exists>l key. links_get (dest_hash p) (nd_links nd) = Some l \<and> le_status l = Active \<and> le_interface l = i \<and> le_derived_key l = Some key")
  case False
  then show ?thesis using e by (auto simp: handle_link_data_def split: option.splits if_splits)
next
  case True
  then obtain l key where l: "links_get (dest_hash p) (nd_links nd) = Some l" "le_status l = Active" "le_interface l = i"
    "le_derived_key l = Some key" by blast
  then have live: "live_link (dest_hash p) i key nd" by (simp add: live_link_def)
  consider "ctx p = RESOURCE" | "ctx p = KEEPALIVE" | "ctx p \<noteq> RESOURCE" "ctx p \<noteq> KEEPALIVE" by blast
  then show ?thesis
  proof cases
    case 1
    then show ?thesis using e l t(2) live resource_part_events [of ev X E p i key rng nd] by (simp add: handle_link_data_def)
  next
    case 2
    then show ?thesis using e l by (simp add: handle_link_data_def contexts)
  next
    case 3
    show ?thesis
    proof (cases "open_with_key X key (data p)")
      case (Inl err)
      then show ?thesis using e l 3 by (simp add: handle_link_data_def)
    next
      case (Inr pt)
      let ?nd = "touch_link (dest_hash p) nd"
      have live': "live_link (dest_hash p) i key ?nd"
        using l by (simp add: live_link_def touch_link_def)
      have same: "event_due X p i ?nd ev \<Longrightarrow> \<not> minor_event ev \<Longrightarrow>
          (\<exists>h n. ev = ResourceStarted (dest_hash p) h n) \<or> (\<exists>e. ev = Error e) \<Longrightarrow> event_due X p i nd ev"
        using live by auto
      have ctxev: "event_due X p i nd ev" if "ev \<in> set (fst (handle_resource_context X E (dest_hash p) i key (ctx p) pt r ?nd))" for r
      proof -
        have "minor_event ev \<or> (\<exists>h n. ev = ResourceStarted (dest_hash p) h n) \<or> (\<exists>e. ev = Error e)"
          using that
          by (auto simp: handle_resource_context_def Let_def case_prod_beta
              split: if_splits option.splits sum.splits)
        then show ?thesis using resource_context_events [OF that live'] same by (cases "minor_event ev") auto
      qed
      have tickev: "ev \<in> set (nd_pending_events nd) \<or> minor_event ev" if "ev \<in> set (fst (tick X (close_link (dest_hash p) ?nd)))"
        by (rule tick_events [OF _ that]) simp
      show ?thesis
        using e l 3 Inr live t ctxev tickev
        by (cases rng) (auto simp: handle_link_data_def Let_def case_prod_beta split: if_splits)
    qed
  qed
qed

lemma dispatch_events:
  assumes "ev \<in> set (fst (dispatch X E p i rng nd))"
  shows "event_due X p i nd ev \<or> ev \<in> set (nd_pending_events nd)"
proof (cases "length (dest_hash p) = 16")
  case False
  then show ?thesis using assms by (simp add: dispatch_def try_array_def)
next
  case True
  have r: "try_array 16 (dest_hash p) = Some (dest_hash p)" using True by (simp add: try_array_def)
  consider "packet_type p = DATA \<and> dest_type p = PLAIN \<and> dest_hash p = path_request_destination_hash X"
    | "packet_type p = LINKREQUEST" | "packet_type p = PROOF" "dest_type p = LINK" "ctx p = LRPROOF"
    | "packet_type p = PROOF" "dest_type p = SINGLE" | "packet_type p = PROOF" "dest_type p = LINK" "ctx p = RESOURCE_PRF"
    | "packet_type p = DATA" "dest_type p = LINK" | "packet_type p = ANNOUNCE"
    | "packet_type p = DATA" "dest_type p \<noteq> LINK" "\<not> (dest_type p = PLAIN \<and> dest_hash p = path_request_destination_hash X)"
    | "packet_type p = PROOF" "dest_type p \<noteq> SINGLE" "dest_type p = LINK \<longrightarrow> ctx p \<noteq> LRPROOF \<and> ctx p \<noteq> RESOURCE_PRF"
    | "packet_type p \<notin> {DATA, LINKREQUEST, PROOF, ANNOUNCE}"
    by blast
  then show ?thesis
  proof cases
    case 1
    then show ?thesis using assms True by (simp add: dispatch_def try_array_def)
  next
    case 2
    then show ?thesis using assms link_request_events [of ev X E p i _ nd]
      by (cases rng) (auto simp: dispatch_def r case_prod_beta packet_types)
  next
    case 3
    then show ?thesis using assms link_proof_events [of ev X E p rng nd i]
      by (simp add: dispatch_def r packet_types)
  next
    case 4
    then show ?thesis using assms delivery_proof_events [of ev X p "dest_hash p" nd i]
      by (simp add: dispatch_def r case_prod_beta packet_types dest_types)
  next
    case 5
    then show ?thesis using assms resource_proof_events [of ev p nd X i]
      by (simp add: dispatch_def r case_prod_beta packet_types dest_types contexts)
  next
    case 6
    then show ?thesis using assms link_data_events [of ev X E p i rng nd]
      by (simp add: dispatch_def r packet_types dest_types)
  next
    case 7
    then show ?thesis using assms announce_events [of ev X p i nd]
      by (simp add: dispatch_def r case_prod_beta packet_types)
  next
    case 8
    then show ?thesis using assms data_events [of ev X p i nd]
      by (auto simp: dispatch_def r case_prod_beta packet_types split: if_splits)
  next
    case 9
    then show ?thesis using assms by (auto simp: dispatch_def r packet_types split: if_splits)
  next
    case 10
    then show ?thesis using assms by (simp add: dispatch_def r)
  qed
qed

lemma event_due_noted [simp]: "event_due X p i (noted h nd) ev = event_due X p i nd ev"
  by (cases ev) (simp_all add: find_local_def live_link_def cong: local_kind.case_cong)

lemma event_due_hops:
  "event_due X (p\<lparr>hops := h\<rparr>) i nd ev =
     (case ev of Announce dh n \<Rightarrow> n = h \<and> event_due X p i nd (Announce dh (hops p)) | _ \<Rightarrow> event_due X p i nd ev)"
  by (cases ev) (simp_all cong: local_kind.case_cong, auto)

text \<open>A received packet is well formed, new and within the hop limit when anything is reported of it.\<close>

lemma inbound_events:
  assumes "ev \<in> set (fst (handle_inbound_inner X E bs i rng nd))"
  shows "ev \<in> set (nd_pending_events nd) \<or>
    (\<exists>p. packet_decode bs = Inr p \<and> hops p < PATHFINDER_MAX_HOPS \<and>
       \<not> bt_contains (packet_hash X p) (nd_seen_packets (maybe_prune (nd_clock nd) nd)) \<and>
       event_due X (p\<lparr>hops := sat_add (hops p) 1\<rparr>) i nd ev)"
proof (cases "packet_decode bs")
  case (Inl e)
  then show ?thesis using assms by (simp add: handle_inbound_inner_eq)
next
  case (Inr p)
  show ?thesis
  proof (cases "hops p \<ge> PATHFINDER_MAX_HOPS \<or>
      bt_contains (packet_hash X p) (nd_seen_packets (maybe_prune (nd_clock nd) nd))")
    case True
    then show ?thesis using Inr assms by (auto simp: handle_inbound_inner_eq split: if_splits)
  next
    case False
    then show ?thesis
      using Inr assms dispatch_events [of ev X E "p\<lparr>hops := sat_add (hops p) 1\<rparr>" i rng "noted (packet_hash X p) nd"]
      by (auto simp: handle_inbound_inner_eq)
  qed
qed

section \<open>Routes, receipts and pending events after a handler\<close>

text \<open>What the handlers of the receiving side leave of the outbound resources: everything.\<close>

lemma receiving_outbound [simp]:
  "nd_outbound_resources (fst (enqueue_encrypted_link_context X E lid i c pt key r nd)) = nd_outbound_resources nd"
  "nd_outbound_resources (fst (request_next X E lid h i key r nd)) = nd_outbound_resources nd"
  "nd_outbound_resources (fst (part_request X E rk i key rng nd)) = nd_outbound_resources nd"
  "nd_outbound_resources (snd (part_complete X rk i key res nd)) = nd_outbound_resources nd"
  by (simp_all add: enqueue_encrypted_link_context_def request_next_def part_request_def part_complete_def Let_def
      case_prod_beta split: option.split sum.split)

lemma candidates_outbound [simp]:
  "nd_outbound_resources (fst (snd (handle_part_candidates X E ks i key part rng nd))) = nd_outbound_resources nd"
  by (induction ks) (simp_all add: Let_def case_prod_beta split: option.split bool.split)

lemma answers_outbound [simp]:
  "nd_outbound_resources (fst (fold (resource_answer X E lid i key) outs s)) = nd_outbound_resources (fst s)"
proof (induction outs arbitrary: s)
  case (Cons out1 outs)
  have "nd_outbound_resources (fst (resource_answer X E lid i key out1 s)) = nd_outbound_resources (fst s)"
    by (cases s) (simp add: resource_answer_def split: resource_output.split)
  then show ?case using Cons by simp
qed simp

lemma on_request_expects: "ob_expected_proof (snd (on_request X req now ob)) = ob_expected_proof ob"
  by (simp add: on_request_def Let_def)

lemma on_proof_expects: "ob_expected_proof (snd (on_proof pf ob)) = ob_expected_proof ob"
  by (simp add: on_proof_def Let_def)

lemma minor_resource_part [simp]:
  "minor nd nd1 \<Longrightarrow> minor nd (fst (snd (handle_resource_part X E lid i key part rng nd1)))"
  by (erule minor_transfer) (simp_all add: handle_resource_part_def)

lemma minor_resource_request:
  assumes k: "minor nd nd1" and c: "c = RESOURCE_REQ"
  shows "minor nd (fst (snd (handle_resource_context X E lid i key c pt r nd1)))"
proof (cases "if pt \<noteq> [] \<and> hd pt = 0xFF then array_at 5 37 pt else array_at 1 33 pt")
  case None
  then show ?thesis using k c by (simp add: handle_resource_context_def contexts del: if_split)
next
  case (Some h)
  show ?thesis
  proof (cases "bt_get (lid, h) (nd_outbound_resources nd1)")
    case None
    then show ?thesis using k c Some by (simp add: handle_resource_context_def contexts del: if_split)
  next
    case ob: (Some ob)
    let ?nd = "nd1\<lparr>nd_outbound_resources :=
      bt_insert (lid, h) (snd (on_request X pt (nd_clock nd1) ob)) (nd_outbound_resources nd1)\<rparr>"
    let ?f = "fst (fold (resource_answer X E lid i key) (fst (on_request X pt (nd_clock nd1) ob)) (?nd, r))"
    have "minor nd ?nd" by (rule minor_outbound_insert [OF k ob on_request_expects])
    then have "minor nd ?f" by (rule minor_transfer) simp_all
    moreover have "fst (snd (handle_resource_context X E lid i key c pt r nd1)) = ?f"
      using Some ob c by (simp add: handle_resource_context_def contexts Let_def case_prod_beta del: if_split)
    ultimately show ?thesis by simp
  qed
qed

lemma receiving_context_outbound:
  assumes "c \<notin> {RESOURCE_REQ, RESOURCE_ICL, RESOURCE_RCL}"
  shows "nd_outbound_resources (fst (snd (handle_resource_context X E lid i key c pt r nd))) = nd_outbound_resources nd"
proof -
  note h = handle_resource_context_def contexts Let_def case_prod_beta
  consider "c = RESOURCE_ADV" | "c = RESOURCE_HMU" | "c \<notin> {RESOURCE_ADV, RESOURCE_HMU}" by auto
  then show ?thesis
  proof cases
    case 1
    show ?thesis
    proof (cases "adv_unpack X pt")
      case (Inr a)
      then show ?thesis using 1 by (cases "inbound_from_advertisement a") (simp_all add: h)
    qed (simp add: 1 h)
  next
    case 2
    show ?thesis
    proof (cases "\<exists>hash res. array_at 0 32 pt = Some hash \<and> bt_get (lid, hash) (nd_inbound_resources nd) = Some res")
      case True
      then obtain hash res where "array_at 0 32 pt = Some hash" "bt_get (lid, hash) (nd_inbound_resources nd) = Some res" by blast
      then show ?thesis using 2 by (cases "fst (on_hashmap_update X pt res)") (simp_all add: h)
    next
      case False
      then show ?thesis using 2 by (cases "array_at 0 32 pt") (auto simp: h)
    qed
  next
    case 3
    then show ?thesis using assms by (simp add: h)
  qed
qed

lemma minor_resource_context [simp]:
  assumes k: "minor nd nd1"
  shows "minor nd (fst (snd (handle_resource_context X E lid i key c pt r nd1)))"
proof -
  let ?n = "fst (snd (handle_resource_context X E lid i key c pt r nd1))"
  note h = handle_resource_context_def contexts Let_def case_prod_beta
  consider "c = RESOURCE_REQ" | "c = RESOURCE_ICL \<or> c = RESOURCE_RCL" | "c \<notin> {RESOURCE_REQ, RESOURCE_ICL, RESOURCE_RCL}" by auto
  then show ?thesis
  proof cases
    case 1
    then show ?thesis by (rule minor_resource_request [OF k])
  next
    case 3
    then show ?thesis by (intro minor_transfer [OF k] receiving_context_outbound) simp_all
  next
    case 2
    show ?thesis
    proof (cases "array_at 0 32 pt")
      case None
      then show ?thesis using 2 k by (elim disjE) (simp_all add: h)
    next
      case (Some hash)
      let ?nd = "nd1\<lparr>nd_inbound_resources := bt_remove (lid, hash) (nd_inbound_resources nd1)\<rparr>"
      have "?n = ?nd\<lparr>nd_outbound_resources := bt_remove (lid, hash) (nd_outbound_resources ?nd)\<rparr>"
        using 2 Some by (elim disjE) (simp_all add: h)
      moreover have "minor nd ?nd" using k by simp
      ultimately show ?thesis using minor_outbound_remove [of nd ?nd "(lid, hash)"] by metis
    qed
  qed
qed

lemma minor_resource_proof [simp]:
  assumes k: "minor nd nd1" shows "minor nd (snd (handle_resource_proof p lid nd1))"
proof (cases "\<exists>h ob. array_at 0 32 (data p) = Some h \<and> bt_get (lid, h) (nd_outbound_resources nd1) = Some ob")
  case True
  then obtain h ob where h: "array_at 0 32 (data p) = Some h" "bt_get (lid, h) (nd_outbound_resources nd1) = Some ob" by blast
  let ?nd = "nd1\<lparr>nd_outbound_resources := bt_insert (lid, h) (snd (on_proof (data p) ob)) (nd_outbound_resources nd1)\<rparr>"
  have m: "minor nd ?nd" by (rule minor_outbound_insert [OF k h(2) on_proof_expects])
  show ?thesis using m minor_outbound_remove [OF m, of "(lid, h)"] h
    by (simp add: handle_resource_proof_def Let_def case_prod_beta)
next
  case False
  then show ?thesis using k by (auto simp: handle_resource_proof_def split: option.split)
qed

lemma minor_link_request [simp]:
  assumes k: "minor nd nd1" shows "minor nd (fst (snd (handle_link_request X E p dh i r nd1)))"
proof (cases "parse_link_request (data p)")
  case (Inl e)
  then show ?thesis using k by (simp add: handle_link_request_def)
next
  case (Inr q)
  then show ?thesis using k
    by (cases q) (simp add: handle_link_request_def Let_def case_prod_beta)
qed

lemma minor_link_proof [simp]:
  assumes k: "minor nd nd1" shows "minor nd (fst (snd (handle_link_proof X E p lid rng nd1)))"
proof (cases "\<exists>l pub peer. links_get lid (nd_links nd1) = Some l \<and> le_status l = Pending \<and> le_initiator l \<and>
    le_destination_public l = Some pub \<and> verify_link_proof X pub lid (data p) = Inr peer")
  case False
  then show ?thesis using k
    by (auto simp: handle_link_proof_def split: option.split sum.split)
next
  case True
  then show ?thesis using k
    by (cases rng) (auto simp: handle_link_proof_def Let_def case_prod_beta)
qed

lemma minor_link_data [simp]:
  assumes k: "minor nd nd1" shows "minor nd (fst (snd (handle_link_data X E p lid i rng nd1)))"
proof (cases "\<exists>l key. links_get lid (nd_links nd1) = Some l \<and> le_status l = Active \<and> le_interface l = i \<and> le_derived_key l = Some key")
  case False
  then show ?thesis using k by (auto simp: handle_link_data_def split: option.split)
next
  case True
  then obtain l key where l: "links_get lid (nd_links nd1) = Some l" "le_status l = Active" "le_interface l = i"
    "le_derived_key l = Some key" by blast
  show ?thesis
  proof (cases "ctx p = RESOURCE \<or> ctx p = KEEPALIVE")
    case True
    then show ?thesis using k l by (auto simp: handle_link_data_def contexts)
  next
    case False
    show ?thesis
    proof (cases "open_with_key X key (data p)")
      case (Inl e)
      then show ?thesis using k l False by (simp add: handle_link_data_def)
    next
      case (Inr pt)
      then show ?thesis using k l False
        by (cases rng) (simp_all add: handle_link_data_def Let_def case_prod_beta)
    qed
  qed
qed

lemma minor_delivery_proof [simp]:
  assumes k: "minor nd nd1" shows "minor nd (snd (handle_delivery_proof X p d nd1))"
proof -
  have "minor nd (nd1\<lparr>nd_pending_receipts := bt_remove h (nd_pending_receipts nd1)\<rparr>)" for h
    by (rule minor_receipts [OF k]) (auto simp: bt_oks bt_simps split: if_splits)
  then show ?thesis using k by (simp add: handle_delivery_proof_def split: option.split)
qed

lemma minor_path_request [simp]: "minor nd nd1 \<Longrightarrow> minor nd (handle_path_request X p i nd1)"
  by (simp add: handle_path_request_def Let_def case_prod_beta split: option.split)

lemma minor_data [simp]:
  assumes k: "minor nd nd1" shows "minor nd (snd (handle_data X p dh i nd1))"
proof -
  have f: "minor nd (forward_data p dh i nd1)"
    using k by (simp add: forward_data_def Let_def split: option.split)
  show ?thesis using k f
    by (simp add: handle_data_def Let_def split: option.split sum.split local_kind.split)
qed

lemma minor_dispatch:
  assumes k: "minor nd nd1" and a: "packet_type p \<noteq> ANNOUNCE"
  shows "minor nd (fst (snd (dispatch X E p i rng nd1)))"
proof (cases "length (dest_hash p) = 16")
  case False
  then show ?thesis using k by (simp add: dispatch_def try_array_def)
next
  case True
  then show ?thesis using k a
    by (cases rng) (simp_all add: dispatch_def try_array_def case_prod_beta)
qed

end
