(* ===== verification/Node_Routes.thy ===== *)
theory Node_Routes
  imports Node_Events
begin

text \<open>
  Where routes and receipts come from: every operation of a node is \<open>minor\<close> except the receipt of an
  announce, which may add the route it announces, \<open>send_message_with_receipt\<close>, which may add the
  receipt it returns, and \<open>send_resource\<close>, which may add the outbound resource it returns. In every reachable state the pending events are closures and failures.
\<close>

section \<open>Operations that are minor\<close>

lemma minor_send_announce [simp]: "minor nd nd1 \<Longrightarrow> minor nd (fst (send_announce X E dh app r i nd1))"
  by (simp add: send_announce_def Let_def case_prod_beta split: option.split)

lemma minor_request_path [simp]: "minor nd nd1 \<Longrightarrow> minor nd (fst (request_path X E dh r nd1))"
  by (simp add: request_path_def Let_def case_prod_beta)

lemma minor_send_message [simp]: "minor nd nd1 \<Longrightarrow> minor nd (fst (snd (send_message X E dh pt r nd1)))"
  by (simp add: send_message_def send_single_message_def Let_def case_prod_beta split: option.split)

lemma minor_enqueue_destination [simp]: "minor nd nd1 \<Longrightarrow> minor nd (snd (enqueue_destination_packet p dh nd1))"
  by (simp add: enqueue_destination_packet_def Let_def split: option.split)

lemma minor_send_group [simp]:
  "minor nd nd1 \<Longrightarrow> minor nd (fst (snd (send_group_message X E dh pt r nd1)))"
  "minor nd nd1 \<Longrightarrow> minor nd (snd (send_plain_message dh pt nd1))"
  by (simp_all add: send_group_message_def send_plain_message_def Let_def case_prod_beta split: option.split)

lemma minor_link_send [simp]: "minor nd nd1 \<Longrightarrow> minor nd (fst (snd (link_send X E lid pt r nd1)))"
  by (simp add: link_send_def Let_def case_prod_beta split: option.split)

lemma minor_establish [simp]: "minor nd nd1 \<Longrightarrow> minor nd (fst (snd (establish_link X E dh r nd1)))"
  by (simp add: establish_link_def Let_def case_prod_beta split: option.split)

lemma send_resource_effect:
  assumes "send_resource X E lid d r nd = Some (res, nd', r')"
  shows "minor nd nd' \<or>
    (\<exists>key ob adv r1 nd1. outbound_new X E d key r (nd_clock nd) = Some (Inr (ob, adv), r1) \<and> res = Inr (ob_hash ob) \<and>
      minor nd nd1 \<and> nd' = nd1\<lparr>nd_outbound_resources := bt_insert (lid, ob_hash ob) ob (nd_outbound_resources nd1)\<rparr>)"
proof (cases "active_key lid nd")
  case None
  then show ?thesis using assms by (simp add: send_resource_def)
next
  case (Some ki)
  obtain key i where ki: "ki = (key, i)" by fastforce
  obtain x r1 where o: "outbound_new X E d key r (nd_clock nd) = Some (x, r1)"
    using assms Some ki by (cases "outbound_new X E d key r (nd_clock nd)") (auto simp: send_resource_def)
  show ?thesis
  proof (cases x)
    case (Inl e)
    then show ?thesis using assms Some ki o by (simp add: send_resource_def)
  next
    case (Inr ra)
    obtain ob adv where ra: "ra = (ob, adv)" by fastforce
    let ?nd = "fst (enqueue_encrypted_link_context X E lid i RESOURCE_ADV adv key r1 nd)"
    have "res = Inr (ob_hash ob)" "nd' = ?nd\<lparr>nd_outbound_resources := bt_insert (lid, ob_hash ob) ob (nd_outbound_resources ?nd)\<rparr>"
      using assms Some ki o Inr ra
      by (auto simp: send_resource_def Let_def case_prod_beta enqueue_encrypted_link_context_def push_out_def)
    moreover have "minor nd ?nd" by simp
    ultimately show ?thesis using o Inr ra by blast
  qed
qed

lemma minor_noted: "minor nd (noted h nd)"
  by (rule minor_same [OF minor_refl]) simp_all

lemma minor_maybe_prune: "minor nd (maybe_prune now nd)"
  by (rule minor_same [OF minor_refl]) simp_all

section \<open>Announces\<close>

text \<open>What an announce must be for the route it adds.\<close>

definition route_due :: "ext \<Rightarrow> packet \<Rightarrow> u16 \<Rightarrow> node \<Rightarrow> bytes \<Rightarrow> path_entry \<Rightarrow> bool" where
  "route_due X p i nd dh e \<longleftrightarrow> packet_type p = ANNOUNCE \<and> dest_hash p = dh \<and>
     (\<forall>l \<in> set (nd_locals nd). ld_dest_hash l \<noteq> dh) \<and>
     (\<exists>a. announce_parse (data p) (context_flag p) = Inr a \<and> announce_verify X a dh = Inr () \<and>
        pub_from_bytes (an_public a) = Inr (pe_public e) \<and> pe_ratchet e = an_ratchet a) \<and>
     pe_interface e = i \<and> pe_hops e = hops p \<and>
     pe_next_hop e = (if header_type p = HEADER_2 then transport_id p else None) \<and>
     pe_expires_at e = sat_add (nd_clock nd) PATH_EXPIRY_SECS"

lemma announce_effect:
  assumes t: "packet_type p = ANNOUNCE"
  shows "nd_pending_receipts (snd (handle_announce X p (dest_hash p) i nd)) = nd_pending_receipts nd"
    and "nd_pending_events (snd (handle_announce X p (dest_hash p) i nd)) = nd_pending_events nd"
    and "path_get dh (nd_paths (snd (handle_announce X p (dest_hash p) i nd))) = Some e \<Longrightarrow>
      path_get dh (nd_paths nd) = Some e \<or> route_due X p i nd dh e"
    and "nd_outbound_resources (snd (handle_announce X p (dest_hash p) i nd)) = nd_outbound_resources nd"
proof -
  let ?n = "snd (handle_announce X p (dest_hash p) i nd)"
  have "nd_pending_receipts ?n = nd_pending_receipts nd \<and> nd_pending_events ?n = nd_pending_events nd \<and>
    nd_outbound_resources ?n = nd_outbound_resources nd \<and>
    (path_get dh (nd_paths ?n) = Some e \<longrightarrow> path_get dh (nd_paths nd) = Some e \<or> route_due X p i nd dh e)" for dh e
  proof (cases "\<exists>a pub. announce_parse (data p) (context_flag p) = Inr a \<and> announce_verify X a (dest_hash p) = Inr () \<and>
      pub_from_bytes (an_public a) = Inr pub")
    case False
    then show ?thesis by (auto simp: handle_announce_def Let_def split: sum.splits)
  next
    case True
    then obtain a pub where a: "announce_parse (data p) (context_flag p) = Inr a" "announce_verify X a (dest_hash p) = Inr ()"
      "pub_from_bytes (an_public a) = Inr pub" by blast
    show ?thesis
    proof (cases "(\<exists>l \<in> set (nd_locals nd). ld_dest_hash l = dest_hash p)
        \<or> bt_contains (dest_hash p, an_random_hash a) (nd_seen_announces nd)")
      case True
      then show ?thesis using a by (auto simp: handle_announce_def Let_def list_ex_iff)
    next
      case False
      then show ?thesis using a t
        by (auto simp: handle_announce_def Let_def list_ex_iff case_prod_beta path_upd.look_offer route_due_def
            push_all_eq split: if_splits)
    qed
  qed
  then show "nd_pending_receipts ?n = nd_pending_receipts nd" "nd_pending_events ?n = nd_pending_events nd"
    "path_get dh (nd_paths ?n) = Some e \<Longrightarrow> path_get dh (nd_paths nd) = Some e \<or> route_due X p i nd dh e"
    "nd_outbound_resources ?n = nd_outbound_resources nd" by blast+
qed

lemma dispatch_announce:
  "packet_type p = ANNOUNCE \<Longrightarrow> fst (snd (dispatch X E p i rng nd)) =
     (if length (dest_hash p) = 16 then snd (handle_announce X p (dest_hash p) i nd) else nd)"
  by (simp add: dispatch_def try_array_def case_prod_beta packet_types)

lemma inbound_minor:
  "minor nd (fst (snd (handle_inbound_inner X E bs i rng nd))) \<or>
   (\<exists>p. packet_decode bs = Inr p \<and> hops p < PATHFINDER_MAX_HOPS \<and> packet_type p = ANNOUNCE \<and>
      fst (snd (handle_inbound_inner X E bs i rng nd)) =
        snd (handle_announce X (p\<lparr>hops := sat_add (hops p) 1\<rparr>) (dest_hash p) i (noted (packet_hash X p) nd)))"
proof (cases "packet_decode bs")
  case (Inl e)
  then show ?thesis by (simp add: handle_inbound_inner_eq)
next
  case (Inr p)
  show ?thesis
  proof (cases "hops p \<ge> PATHFINDER_MAX_HOPS \<or>
      bt_contains (packet_hash X p) (nd_seen_packets (maybe_prune (nd_clock nd) nd))")
    case True
    then show ?thesis using Inr minor_maybe_prune by (auto simp: handle_inbound_inner_eq)
  next
    case False
    let ?p = "p\<lparr>hops := sat_add (hops p) 1\<rparr>"
    have f: "fst (snd (handle_inbound_inner X E bs i rng nd)) =
        fst (snd (dispatch X E ?p i rng (noted (packet_hash X p) nd)))"
      using Inr False by (simp add: handle_inbound_inner_eq)
    show ?thesis
    proof (cases "packet_type p = ANNOUNCE")
      case True
      have "length (dest_hash p) = 16" using packet_decode_ok [OF Inr] by (simp add: packet_ok_def)
      then show ?thesis using True Inr False f dispatch_announce [of ?p X E i rng "noted (packet_hash X p) nd"] by auto
    next
      case False
      then have "minor nd (fst (snd (dispatch X E ?p i rng (noted (packet_hash X p) nd))))"
        by (intro minor_dispatch minor_noted) simp
      then show ?thesis using f by simp
    qed
  qed
qed

lemma route_due_noted [simp]: "route_due X p i (noted h nd) dh e = route_due X p i nd dh e"
  by (simp add: route_due_def)

lemma inbound_routes:
  assumes ok: "node_ok nd" and g: "path_get dh (nd_paths (fst (snd (handle_inbound_inner X E bs i rng nd)))) = Some e"
  shows "path_get dh (nd_paths nd) = Some e \<or>
    (\<exists>p. packet_decode bs = Inr p \<and> hops p < PATHFINDER_MAX_HOPS \<and>
       route_due X (p\<lparr>hops := sat_add (hops p) 1\<rparr>) i nd dh e)"
  using inbound_minor [of nd X E bs i rng]
proof (elim disjE exE conjE)
  assume "minor nd (fst (snd (handle_inbound_inner X E bs i rng nd)))"
  then show ?thesis using g ok by (auto simp: minor_def maps_ok_def shrinks_def node_okD)
next
  fix p
  assume p: "packet_decode bs = Inr p" "hops p < PATHFINDER_MAX_HOPS" "packet_type p = ANNOUNCE"
    "fst (snd (handle_inbound_inner X E bs i rng nd)) =
        snd (handle_announce X (p\<lparr>hops := sat_add (hops p) 1\<rparr>) (dest_hash p) i (noted (packet_hash X p) nd))"
  then show ?thesis
    using g announce_effect(3) [of "p\<lparr>hops := sat_add (hops p) 1\<rparr>" dh X i "noted (packet_hash X p) nd" e] by auto
qed

section \<open>Receipts\<close>

text \<open>The packet a message travels in, and the state after it is queued.\<close>

definition sent_packet :: "ext \<Rightarrow> path_entry \<Rightarrow> bytes \<Rightarrow> bytes \<Rightarrow> bytes \<Rightarrow> bytes \<Rightarrow> packet" where
  "sent_packet X entry dh pt e iv =
     (if pe_hops entry > 1
      then (data_single dh (token_encrypt X (pe_public entry) pt e iv))
        \<lparr>header_type := HEADER_2, propagation := TRANSPORT, transport_id := pe_next_hop entry\<rparr>
      else data_single dh (token_encrypt X (pe_public entry) pt e iv))"

definition receipt_for :: "path_entry \<Rightarrow> node \<Rightarrow> pending_receipt" where
  "receipt_for entry nd = \<lparr>pr_destination_public = pe_public entry,
     pr_expires_at = sat_add (nd_clock nd) RECEIPT_TIMEOUT_SECS\<rparr>"

lemma single_sent:
  assumes "path_get dh (nd_paths (node_prune nd)) = Some entry" and "\<not> (pe_hops entry > 1 \<and> pe_next_hop entry = None)"
    and "E r 32 = (e, r1)" and "E r1 16 = (iv, r2)"
  shows "send_single_message X E dh pt r True nd =
    (Inr (Some (full_packet_hash X (sent_packet X entry dh pt e iv))),
     (push_out (pe_interface entry) (packet_encode (sent_packet X entry dh pt e iv)) (node_prune nd))
       \<lparr>nd_pending_receipts := bt_insert (full_packet_hash X (sent_packet X entry dh pt e iv))
          (receipt_for entry nd) (nd_pending_receipts nd)\<rparr>, r2)"
proof -
  have c: "nd_clock (node_prune nd) = nd_clock nd" "nd_pending_receipts (node_prune nd) = nd_pending_receipts nd"
    by (simp_all add: node_prune_eq)
  show ?thesis using assms
    by (simp add: send_single_message_def sent_packet_def receipt_for_def Let_def c)
qed

lemma single_refused:
  assumes "path_get dh (nd_paths (node_prune nd)) = None \<or>
    path_get dh (nd_paths (node_prune nd)) = Some entry \<and> pe_hops entry > 1 \<and> pe_next_hop entry = None"
  shows "fst (send_single_message X E dh pt r b nd) = Inl Unknown \<and>
    fst (snd (send_single_message X E dh pt r b nd)) = node_prune nd"
  using assms by (auto simp: send_single_message_def Let_def case_prod_beta)

lemma receipt_effect:
  "minor nd (fst (snd (send_message_with_receipt X E dh pt r nd))) \<or>
   (\<exists>h entry nd1. fst (send_message_with_receipt X E dh pt r nd) = Inr h \<and> minor nd nd1 \<and>
      path_get dh (nd_paths (node_prune nd)) = Some entry \<and>
      fst (snd (send_message_with_receipt X E dh pt r nd)) =
        nd1\<lparr>nd_pending_receipts := bt_insert h (receipt_for entry nd) (nd_pending_receipts nd1)\<rparr>)"
proof -
  obtain e r1 where e: "E r 32 = (e, r1)" by fastforce
  obtain iv r2 where iv: "E r1 16 = (iv, r2)" by fastforce
  show ?thesis
  proof (cases "\<exists>entry. path_get dh (nd_paths (node_prune nd)) = Some entry \<and> \<not> (pe_hops entry > 1 \<and> pe_next_hop entry = None)")
    case True
    then obtain entry where p: "path_get dh (nd_paths (node_prune nd)) = Some entry"
      "\<not> (pe_hops entry > 1 \<and> pe_next_hop entry = None)" by blast
    let ?p = "sent_packet X entry dh pt e iv"
    let ?nd = "push_out (pe_interface entry) (packet_encode ?p) (node_prune nd)"
    have "minor nd ?nd" by simp
    moreover have "nd_pending_receipts ?nd = nd_pending_receipts nd" by (simp add: node_prune_eq)
    ultimately show ?thesis
      using p single_sent [OF p e iv, of X pt]
      by (intro disjI2 exI [of _ "full_packet_hash X ?p"] exI [of _ entry] exI [of _ ?nd])
        (simp add: send_message_with_receipt_def)
  next
    case False
    then have "fst (snd (send_single_message X E dh pt r True nd)) = node_prune nd"
      using single_refused [of dh nd _ X E pt r True] by (cases "path_get dh (nd_paths (node_prune nd))") auto
    then show ?thesis by (simp add: send_message_with_receipt_def case_prod_beta)
  qed
qed

section \<open>Every operation\<close>

lemma exec_minor:
  assumes "node_exec X E op1 (nd, r) = Some (evs, nd', r')"
  shows "minor nd nd' \<or> (\<exists>bs i b. op1 = Receive bs i b) \<or> (\<exists>dh pt. op1 = SendMessage dh pt True) \<or>
    (\<exists>lid d. op1 = SendResource lid d)" (is "?k \<or> ?i \<or> ?m \<or> ?s")
proof -
  have f: "fst (snd (the (node_exec X E op1 (nd, r)))) = nd'" using assms by simp
  show ?thesis
  proof (cases op1)
    case (Tick b)
    then have "?k" using f by (cases b) (auto simp: tick_with_entropy_def case_prod_beta tick_inner_minor)
    then show ?thesis ..
  next
    case (SendMessage dh pt b)
    then show ?thesis using f by (cases b) auto
  next
    case (Wait d)
    then have "?k" using f by (intro minor_same [OF minor_refl]) auto
    then show ?thesis ..
  next
    case (PrunePaths)
    then have "nd' = node_prune nd" using f by (auto simp: node_prune_def)
    then have "?k" by simp
    then show ?thesis ..
  next
    case (SetProve dh b)
    then have "?k" using f by (intro minor_same [OF minor_refl]) (auto simp: set_prove_def split: option.splits local_kind.splits)
    then show ?thesis ..
  next
    case Poll
    then have "?k" using f by (intro minor_same [OF minor_refl]) (auto simp: poll_outbound_def split: list.splits)
    then show ?thesis ..
  next
    case (EnableTransport b)
    then have "?k" using f by (intro minor_same [OF minor_refl]) (auto simp: enable_transport_def)
    then show ?thesis ..
  next
    case (AddInterface i)
    then have "?k" using f by (intro minor_same [OF minor_refl]) (auto simp: register_interface_def split: if_splits)
    then show ?thesis ..
  next
    case (DropInterface i)
    then have "?k" using f by (intro minor_same [OF minor_refl]) (auto simp: unregister_interface_def)
    then show ?thesis ..
  next
    case (RegisterSingle app asp)
    then have "?k" using f by (intro minor_same [OF minor_refl]) (auto simp: register_single_destination_def push_local_def Let_def)
    then show ?thesis ..
  next
    case (RegisterGroup app asp key)
    then have "?k" using f
      by (intro minor_same [OF minor_refl]) (auto simp: register_group_destination_def
          register_group_destination_with_identity_def push_local_def Let_def)
    then show ?thesis ..
  next
    case (RegisterPlain app asp)
    then have "?k" using f by (intro minor_same [OF minor_refl]) (auto simp: register_plain_destination_def push_local_def Let_def)
    then show ?thesis ..
  qed (use f in auto)
qed

text \<open>A receive is one of the two forms of \<open>handle_inbound_inner\<close>.\<close>

lemma receive_cases:
  assumes "node_exec X E (Receive bs i b) (nd, r) = Some (evs, nd', r')"
  obtains "b" "(evs, nd') = (fst (handle_inbound_inner X E bs i (Some r) nd), fst (snd (handle_inbound_inner X E bs i (Some r) nd)))"
  | "\<not> b" "(evs, nd') = (fst (handle_inbound_inner X seeded_fill bs i None nd), fst (snd (handle_inbound_inner X seeded_fill bs i None nd)))"
  using assms by (cases b) (auto simp: handle_inbound_with_entropy_def handle_inbound_def case_prod_beta)

lemma exec_routes:
  assumes e: "node_exec X E op1 (nd, r) = Some (evs, nd', r')" and ok: "node_ok nd"
    and g: "path_get dh (nd_paths nd') = Some e1" and n: "path_get dh (nd_paths nd) \<noteq> Some e1"
  shows "\<exists>bs i b p. op1 = Receive bs i b \<and> packet_decode bs = Inr p \<and> hops p < PATHFINDER_MAX_HOPS \<and>
    route_due X (p\<lparr>hops := sat_add (hops p) 1\<rparr>) i nd dh e1"
proof -
  have s: "\<not> minor nd nd'" using g n ok by (auto simp: minor_def maps_ok_def shrinks_def node_okD)
  from exec_minor [OF e] s consider bs i b where "op1 = Receive bs i b" | d pt where "op1 = SendMessage d pt True"
    | lid d where "op1 = SendResource lid d" by blast
  then show ?thesis
  proof cases
    case op: 1
    have "\<exists>p. packet_decode bs = Inr p \<and> hops p < PATHFINDER_MAX_HOPS \<and>
        route_due X (p\<lparr>hops := sat_add (hops p) 1\<rparr>) i nd dh e1"
      using e [unfolded op]
    proof (cases rule: receive_cases)
      case 1
      then show ?thesis using inbound_routes [OF ok, of dh X E bs i "Some r" e1] g n by simp
    next
      case 2
      then show ?thesis using inbound_routes [OF ok, of dh X seeded_fill bs i None e1] g n by simp
    qed
    then show ?thesis using op by blast
  next
    case 2
    then have nd': "nd' = fst (snd (send_message_with_receipt X E d pt r nd))" using e by auto
    from receipt_effect [of nd X E d pt r] s obtain nd1 t where "minor nd nd1" "nd' = nd1\<lparr>nd_pending_receipts := t\<rparr>"
      using nd' by auto
    then show ?thesis using g n ok by (auto simp: minor_def maps_ok_def shrinks_def node_okD)
  next
    case 3
    then obtain res where "send_resource X E lid d r nd = Some (res, nd', r')" using e by auto
    from send_resource_effect [OF this] s obtain nd1 t where "minor nd nd1" "nd' = nd1\<lparr>nd_outbound_resources := t\<rparr>" by blast
    then show ?thesis using g n ok by (auto simp: minor_def maps_ok_def shrinks_def node_okD)
  qed
qed

section \<open>Pending events\<close>

definition quiet :: "node \<Rightarrow> bool" where
  "quiet nd \<longleftrightarrow> (\<forall>ev \<in> set (nd_pending_events nd). minor_event ev)"

lemma minor_quiet: "minor nd nd' \<Longrightarrow> quiet nd \<Longrightarrow> quiet nd'"
  unfolding minor_def quiet_def by blast

lemma inbound_quiet: "quiet nd \<Longrightarrow> quiet (fst (snd (handle_inbound_inner X E bs i rng nd)))"
  using inbound_minor [of nd X E bs i rng]
proof (elim disjE exE conjE)
  fix p
  assume q: "quiet nd" and p: "packet_type p = ANNOUNCE" "fst (snd (handle_inbound_inner X E bs i rng nd)) =
        snd (handle_announce X (p\<lparr>hops := sat_add (hops p) 1\<rparr>) (dest_hash p) i (noted (packet_hash X p) nd))"
  then show ?thesis
    using announce_effect(2) [of "p\<lparr>hops := sat_add (hops p) 1\<rparr>" X i "noted (packet_hash X p) nd"] by (simp add: quiet_def)
qed (rule minor_quiet)

lemma exec_quiet:
  assumes e: "node_exec X E op1 (nd, r) = Some (evs, nd', r')" and q: "quiet nd" shows "quiet nd'"
proof -
  from exec_minor [OF e] consider "minor nd nd'" | bs i b where "op1 = Receive bs i b"
    | d pt where "op1 = SendMessage d pt True" | lid d where "op1 = SendResource lid d" by blast
  then show ?thesis
  proof cases
    case 1
    then show ?thesis using q by (rule minor_quiet)
  next
    case 2
    from e [unfolded 2] show ?thesis by (cases rule: receive_cases) (use q inbound_quiet in auto)
  next
    case 3
    then have nd': "nd' = fst (snd (send_message_with_receipt X E d pt r nd))" using e by auto
    from receipt_effect [of nd X E d pt r] show ?thesis
      using nd' q minor_quiet by (auto simp: quiet_def)
  next
    case 4
    then obtain res where "send_resource X E lid d r nd = Some (res, nd', r')" using e by auto
    from send_resource_effect [OF this] show ?thesis using q minor_quiet by (auto simp: quiet_def)
  qed
qed

lemma run_quiet: "node_run X E s evs s' \<Longrightarrow> quiet (fst s) \<Longrightarrow> quiet (fst s')"
proof (induction rule: node_run.induct)
  case (step op1 s evs s' evs' s'')
  then show ?case using exec_quiet [of X E op1 "fst s" "snd s" evs "fst s'" "snd s'"] by simp
qed simp

lemma node_reach_quiet: "node_reach X E nd \<Longrightarrow> quiet nd"
  unfolding node_reach_def using run_quiet by (fastforce simp: quiet_def node_with_clock_def)

end
