(* ===== verification/Node_Exchange.thy ===== *)
theory Node_Exchange
  imports Node_Routes
begin

text \<open>
  Two nodes talking to each other: what the packet queued by one does at the other, for link
  establishment, data over a link, and messages with delivery proofs.
\<close>

section \<open>Receiving a packet that is new\<close>

definition unseen :: "ext \<Rightarrow> bytes \<Rightarrow> node \<Rightarrow> bool" where
  "unseen X bs nd \<longleftrightarrow> (case packet_decode bs of Inl _ \<Rightarrow> True
     | Inr p \<Rightarrow> \<not> bt_contains (packet_hash X p) (nd_seen_packets nd))"

lemma unseen_encoded: "packet_ok p \<Longrightarrow> unseen X (packet_encode p) nd = (\<not> bt_contains (packet_hash X p) (nd_seen_packets nd))"
  by (simp add: unseen_def packet_decode_encode)

lemma unseen_prune:
  "bt_ok (nd_seen_packets nd) \<Longrightarrow> \<not> bt_contains h (nd_seen_packets nd) \<Longrightarrow>
     \<not> bt_contains h (nd_seen_packets (maybe_prune now nd))"
  by (auto simp: maybe_prune_def bt_contains_def bt.get_retain)

lemma inbound_encoded:
  assumes "packet_ok p" and "hops p < PATHFINDER_MAX_HOPS" and "node_ok nd" and "unseen X (packet_encode p) nd"
  shows "handle_inbound_inner X E (packet_encode p) i rng nd =
    dispatch X E (p\<lparr>hops := sat_add (hops p) 1\<rparr>) i rng (noted (packet_hash X p) nd)"
proof -
  have "\<not> hops p \<ge> PATHFINDER_MAX_HOPS" using assms(2) by simp
  then show ?thesis
    using assms unseen_prune [of nd "packet_hash X p" "nd_clock nd"] node_okD(5) [OF assms(3)]
    by (simp add: handle_inbound_inner_eq packet_decode_encode unseen_encoded)
qed

lemma new_header1_ok:
  "pt \<le> 3 \<Longrightarrow> dt \<le> 3 \<Longrightarrow> length dh = 16 \<Longrightarrow> packet_ok (new_header1 dt pt dh c d)"
  by (simp add: packet_ok_def new_header1_def header_consts)

lemma new_header1_simps [simp]:
  "header_type (new_header1 dt pt dh c d) = HEADER_1" "packet_type (new_header1 dt pt dh c d) = pt"
  "dest_type (new_header1 dt pt dh c d) = dt" "dest_hash (new_header1 dt pt dh c d) = dh"
  "ctx (new_header1 dt pt dh c d) = c" "data (new_header1 dt pt dh c d) = d" "hops (new_header1 dt pt dh c d) = 0"
  "context_flag (new_header1 dt pt dh c d) = False" "transport_id (new_header1 dt pt dh c d) = None"
  by (simp_all add: new_header1_def)

text \<open>A packet fresh from its constructor, received: counted one hop and dispatched.\<close>

lemma inbound_fresh:
  assumes "pt \<le> 3" "dt \<le> 3" "length dh = 16" "node_ok nd" "unseen X (packet_encode (new_header1 dt pt dh c d)) nd"
  shows "handle_inbound_inner X E (packet_encode (new_header1 dt pt dh c d)) i rng nd =
    dispatch X E ((new_header1 dt pt dh c d)\<lparr>hops := 1\<rparr>) i rng
      (noted (packet_hash X (new_header1 dt pt dh c d)) nd)"
proof -
  have "sat_add 0 1 = (1 :: u8)" by (simp add: sat_add_def)
  then show ?thesis
    using inbound_encoded [OF new_header1_ok [OF assms(1-3)] _ assms(4,5), of E i rng]
    by (simp add: PATHFINDER_MAX_HOPS_def)
qed

section \<open>Establishing a link\<close>

lemma establish_sent:
  assumes p: "path_get dh (nd_paths nd) = Some entry" "nd_clock nd < pe_expires_at entry" "pe_hops entry \<le> 1"
    and ok: "node_ok nd" and g: "ephemeral_generate X E r = (eph, r')"
    and lid: "lid = link_id_from_request X (link_request dh (link_request_payload eph))"
  shows "fst (establish_link X E dh r nd) = Inr lid"
    and "snd (snd (establish_link X E dh r nd)) = r'"
    and "nd_outbound (fst (snd (establish_link X E dh r nd))) = nd_outbound nd @
      [(pe_interface entry, packet_encode (link_request dh (link_request_payload eph)))]"
    and "links_get lid (nd_links (fst (snd (establish_link X E dh r nd)))) =
      Some \<lparr>le_status = Pending, le_initiator = True, le_ephemeral = eph,
        le_peer_x25519_pub = None, le_destination_public = Some (pe_public entry),
        le_derived_key = None, le_interface = pe_interface entry,
        le_last_activity = nd_clock nd, le_last_keepalive = nd_clock nd\<rparr>"
proof -
  have n: "nd_paths (node_prune nd) = fst (path_prune (nd_clock nd) (nd_paths nd))"
    "nd_clock (node_prune nd) = nd_clock nd" "nd_outbound (node_prune nd) = nd_outbound nd"
    by (simp_all add: node_prune_eq)
  have "path_get dh (nd_paths (node_prune nd)) = Some entry"
    using p node_okD(2) [OF ok] by (simp add: n path_get_prune_Some)
  moreover have "\<not> pe_hops entry > 1" using p(3) by (simp add: not_less)
  ultimately show "fst (establish_link X E dh r nd) = Inr lid"
    and "snd (snd (establish_link X E dh r nd)) = r'"
    and "nd_outbound (fst (snd (establish_link X E dh r nd))) = nd_outbound nd @
      [(pe_interface entry, packet_encode (link_request dh (link_request_payload eph)))]"
    and "links_get lid (nd_links (fst (snd (establish_link X E dh r nd)))) =
      Some \<lparr>le_status = Pending, le_initiator = True, le_ephemeral = eph,
        le_peer_x25519_pub = None, le_destination_public = Some (pe_public entry),
        le_derived_key = None, le_interface = pe_interface entry,
        le_last_activity = nd_clock nd, le_last_keepalive = nd_clock nd\<rparr>"
    using g lid by (simp_all add: establish_link_def Let_def n)
qed

lemma request_answered:
  assumes X: "crypto_ok X" and ok: "node_ok nd" and dh: "length dh = 16"
    and l: "l \<in> set (nd_locals nd)" "ld_dest_hash l = dh" "is_single (ld_kind l)"
    and eph: "eph = ephemeral_from_private_bytes X a b"
    and lid: "lid = link_id_from_request X (link_request dh (link_request_payload eph))"
    and new: "links_get lid (nd_links nd) = None"
    and u: "unseen X (packet_encode (link_request dh (link_request_payload eph))) nd"
    and h: "handle_inbound_inner X E (packet_encode (link_request dh (link_request_payload eph))) i (Some s) nd = (evs, nd', s')"
  obtains c d where "evs = [LinkEstablished lid]"
    and "nd_outbound nd' = nd_outbound nd @ [(i, packet_encode (packet_proof lid
      (build_link_proof X (nd_identity nd) lid (ephemeral_from_private_bytes X c d)) LRPROOF))]"
    and "live_link lid i (derive_link_key X c (x25519_pub eph) lid) nd'"
proof -
  let ?q = "link_request dh (link_request_payload eph)"
  let ?n = "noted (packet_hash X ?q) nd"
  obtain c s1 where c: "E s 32 = (c, s1)" by fastforce
  obtain d s2 where d: "E s1 32 = (d, s2)" by fastforce
  have q: "?q = new_header1 SINGLE LINKREQUEST dh 0 (link_request_payload eph)" by (simp add: link_request_def)
  have "handle_inbound_inner X E (packet_encode ?q) i (Some s) nd =
      dispatch X E (?q\<lparr>hops := 1\<rparr>) i (Some s) ?n"
    unfolding q by (rule inbound_fresh) (use dh ok u q in \<open>simp_all add: dest_types packet_types\<close>)
  also have "\<dots> = (let (evs, nd, r) = handle_link_request X E (?q\<lparr>hops := 1\<rparr>) dh i s ?n in (evs, nd, Some r))"
    using dh by (simp add: q dispatch_def try_array_def packet_types)
  finally have e: "(let (evs, nd, r) = handle_link_request X E (?q\<lparr>hops := 1\<rparr>) dh i s ?n in (evs, nd, Some r)) = (evs, nd', s')"
    using h by simp
  have f: "list_ex (\<lambda>l. ld_dest_hash l = dh \<and> is_single (ld_kind l)) (nd_locals ?n)"
    using l by (auto simp: list_ex_iff)
  have pl: "parse_link_request (link_request_payload eph) = Inr (x25519_pub eph, ed25519_pub eph)"
    using parse_link_request_payload [OF X, of a b] eph by simp
  have k: "link_id_from_request X (?q\<lparr>hops := 1\<rparr>) = lid" using lid by simp
  show thesis
    by (rule that [of c d])
      (use e f pl k new c d q in \<open>auto simp: handle_link_request_def Let_def live_link_def header_consts\<close>)
qed

lemma proof_accepted:
  assumes X: "crypto_ok X" and ok: "node_ok nd" and lid: "length lid = 16"
    and l: "links_get lid (nd_links nd) = Some l" "le_status l = Pending" "le_initiator l"
      "le_destination_public l = Some (id_public X ident)"
    and resp: "resp = ephemeral_from_private_bytes X c d"
    and pf: "pf = packet_encode (packet_proof lid (build_link_proof X ident lid resp) LRPROOF)"
    and u: "unseen X pf nd"
    and h: "handle_inbound_inner X E pf i rng nd = (evs, nd', rng')"
  shows "evs = [LinkEstablished lid]"
    and "live_link lid (le_interface l) (derive_link_key X (x25519_prv (le_ephemeral l)) (x25519_pub resp) lid) nd'"
    and "\<exists>q. nd_outbound nd' = nd_outbound nd @ q \<and> fst ` set q \<subseteq> {le_interface l}"
proof -
  let ?d = "build_link_proof X ident lid resp"
  let ?q = "new_header1 LINK PROOF lid LRPROOF ?d"
  let ?n = "noted (packet_hash X ?q) nd"
  have v: "verify_link_proof X (id_public X ident) lid ?d = Inr (x25519_pub resp)"
    using verify_build_link_proof [OF X] crypto_okD(2) [OF X] resp by simp
  have "handle_inbound_inner X E pf i rng nd = dispatch X E (?q\<lparr>hops := 1\<rparr>) i rng ?n"
    unfolding pf packet_proof_def by (rule inbound_fresh)
      (use lid ok u pf in \<open>simp_all add: dest_types packet_types packet_proof_def\<close>)
  also have "\<dots> = handle_link_proof X E (?q\<lparr>hops := 1\<rparr>) lid rng ?n"
    using lid by (simp add: dispatch_def try_array_def packet_types)
  finally have e: "handle_link_proof X E (?q\<lparr>hops := 1\<rparr>) lid rng ?n = (evs, nd', rng')" using h by simp
  show "evs = [LinkEstablished lid]"
    and "live_link lid (le_interface l) (derive_link_key X (x25519_prv (le_ephemeral l)) (x25519_pub resp) lid) nd'"
    and "\<exists>q. nd_outbound nd' = nd_outbound nd @ q \<and> fst ` set q \<subseteq> {le_interface l}"
    using e l v by (cases rng; auto simp: handle_link_proof_def Let_def live_link_def split: prod.splits)+
qed

section \<open>Data over a link\<close>

lemma link_sent:
  assumes "live_link lid j key nd" and "E r 16 = (iv, r')"
  shows "link_send X E lid pt r nd = (Inr (), touch_link lid
    (push_out j (packet_encode (link_data lid (seal_with_key X key pt iv))) nd), r')"
  using assms by (auto simp: link_send_def active_key_def live_link_def Let_def)

lemma link_data_received:
  assumes X: "cipher_ok X" and ok: "node_ok nd" and lid: "length lid = 16" and iv: "length iv = 16"
    and live: "live_link lid i key nd"
    and u: "unseen X (packet_encode (link_data lid (seal_with_key X key pt iv))) nd"
  shows "fst (handle_inbound_inner X E (packet_encode (link_data lid (seal_with_key X key pt iv))) i rng nd) = [LinkData lid pt]"
    and "nd_outbound (fst (snd (handle_inbound_inner X E (packet_encode (link_data lid (seal_with_key X key pt iv))) i rng nd))) = nd_outbound nd"
proof -
  let ?d = "seal_with_key X key pt iv"
  let ?q = "new_header1 LINK DATA lid 0 ?d"
  let ?n = "noted (packet_hash X ?q) nd"
  have q: "link_data lid ?d = ?q" by (simp add: link_data_def link_data_with_context_def)
  have "handle_inbound_inner X E (packet_encode ?q) i rng nd = dispatch X E (?q\<lparr>hops := 1\<rparr>) i rng ?n"
    by (rule inbound_fresh) (use lid ok u q in \<open>simp_all add: dest_types packet_types\<close>)
  also have "\<dots> = handle_link_data X E (?q\<lparr>hops := 1\<rparr>) lid i rng ?n"
    using lid by (simp add: dispatch_def try_array_def packet_types dest_types)
  finally have e: "handle_inbound_inner X E (packet_encode ?q) i rng nd = handle_link_data X E (?q\<lparr>hops := 1\<rparr>) lid i rng ?n" .
  obtain l where "links_get lid (nd_links nd) = Some l" "le_status l = Active" "le_interface l = i" "le_derived_key l = Some key"
    using live by (auto simp: live_link_def)
  then show "fst (handle_inbound_inner X E (packet_encode (link_data lid ?d)) i rng nd) = [LinkData lid pt]"
    and "nd_outbound (fst (snd (handle_inbound_inner X E (packet_encode (link_data lid ?d)) i rng nd))) = nd_outbound nd"
    unfolding q e using X iv by (simp_all add: handle_link_data_def contexts touch_link_def Let_def)
qed

section \<open>Messages and delivery proofs\<close>

lemma message_received:
  assumes X: "crypto_ok X" and ok: "node_ok nd" and dh: "length dh = 16" and iv: "length iv = 16"
    and l: "find_local dh nd = Some l" "ld_kind l = Single b"
    and q: "q = data_single dh (token_encrypt X (id_public X (nd_identity nd)) pt e iv)"
    and u: "unseen X (packet_encode q) nd"
  shows "fst (handle_inbound_inner X E (packet_encode q) i rng nd) = [Message dh pt]"
    and "nd_outbound (fst (snd (handle_inbound_inner X E (packet_encode q) i rng nd))) = nd_outbound nd @
      (if b then [(i, packet_encode (explicit_proof (proof_destination_hash (full_packet_hash X q))
         (build_proof X (nd_identity nd) (full_packet_hash X q))))] else [])"
proof -
  let ?d = "token_encrypt X (id_public X (nd_identity nd)) pt e iv"
  have q1: "q = new_header1 SINGLE DATA dh 0 ?d" by (simp add: q data_single_def data_for_def)
  let ?n = "noted (packet_hash X q) nd"
  have "handle_inbound_inner X E (packet_encode q) i rng nd = dispatch X E (q\<lparr>hops := 1\<rparr>) i rng ?n"
    unfolding q1 by (rule inbound_fresh) (use dh ok u q1 in \<open>simp_all add: dest_types packet_types\<close>)
  also have "\<dots> = (let (evs, nd) = handle_data X (q\<lparr>hops := 1\<rparr>) dh i ?n in (evs, nd, rng))"
    using dh by (simp add: q1 dispatch_def try_array_def packet_types dest_types)
  finally have h: "handle_inbound_inner X E (packet_encode q) i rng nd =
    (let (evs, nd) = handle_data X (q\<lparr>hops := 1\<rparr>) dh i ?n in (evs, nd, rng))" .
  have f: "find_local dh ?n = Some l" using l(1) by (simp add: find_local_def)
  have "full_packet_hash X (q\<lparr>hops := 1\<rparr>) = full_packet_hash X q" by (simp add: full_packet_hash_def)
  then have "handle_data X (q\<lparr>hops := 1\<rparr>) dh i ?n = ([Message dh pt], if b then
      push_out i (packet_encode (explicit_proof (proof_destination_hash (full_packet_hash X q))
         (build_proof X (nd_identity nd) (full_packet_hash X q)))) ?n else ?n)"
    using f l(2) token_decrypt_encrypt [OF X iv, of "nd_identity nd" pt e] q1
    by (simp add: handle_data_def header_consts Let_def)
  then show "fst (handle_inbound_inner X E (packet_encode q) i rng nd) = [Message dh pt]"
    and "nd_outbound (fst (snd (handle_inbound_inner X E (packet_encode q) i rng nd))) = nd_outbound nd @
      (if b then [(i, packet_encode (explicit_proof (proof_destination_hash (full_packet_hash X q))
         (build_proof X (nd_identity nd) (full_packet_hash X q))))] else [])"
    by (simp_all add: h)
qed

lemma delivery_acknowledged:
  assumes X: "ed25519_ok X" and ok: "node_ok nd" and ph: "length ph = 32"
    and rc: "bt_get ph (nd_pending_receipts nd) = Some rc" "pr_destination_public rc = id_public X ident"
    and u: "unseen X (packet_encode (explicit_proof (proof_destination_hash ph) (build_proof X ident ph))) nd"
  shows "fst (handle_inbound_inner X E (packet_encode (explicit_proof (proof_destination_hash ph) (build_proof X ident ph))) i rng nd) = [Delivered ph]"
    and "bt_get ph (nd_pending_receipts (fst (snd (handle_inbound_inner X E
      (packet_encode (explicit_proof (proof_destination_hash ph) (build_proof X ident ph))) i rng nd)))) = None"
    and "nd_outbound (fst (snd (handle_inbound_inner X E
      (packet_encode (explicit_proof (proof_destination_hash ph) (build_proof X ident ph))) i rng nd))) = nd_outbound nd"
proof -
  let ?d = "build_proof X ident ph"
  let ?q = "new_header1 SINGLE PROOF (proof_destination_hash ph) 0 ?d"
  let ?n = "noted (packet_hash X ?q) nd"
  have len: "length (proof_destination_hash ph) = 16" using ph by (simp add: proof_destination_hash_def)
  have q: "explicit_proof (proof_destination_hash ph) ?d = ?q" by (simp add: explicit_proof_def)
  have "handle_inbound_inner X E (packet_encode ?q) i rng nd = dispatch X E (?q\<lparr>hops := 1\<rparr>) i rng ?n"
    by (rule inbound_fresh) (use len ok u q in \<open>simp_all add: dest_types packet_types\<close>)
  also have "\<dots> = (let (evs, nd) = handle_delivery_proof X (?q\<lparr>hops := 1\<rparr>) (proof_destination_hash ph) ?n in (evs, nd, rng))"
    using len by (simp add: dispatch_def try_array_def packet_types dest_types)
  finally have h: "handle_inbound_inner X E (packet_encode ?q) i rng nd =
    (let (evs, nd) = handle_delivery_proof X (?q\<lparr>hops := 1\<rparr>) (proof_destination_hash ph) ?n in (evs, nd, rng))" .
  have a: "array_at 0 32 ?d = Some ph"
    using ph by (simp add: array_at_def build_proof_def get_range_def sub_def try_array_def)
  have "handle_delivery_proof X (?q\<lparr>hops := 1\<rparr>) (proof_destination_hash ph) ?n =
    ([Delivered ph], ?n\<lparr>nd_pending_receipts := bt_remove ph (nd_pending_receipts nd)\<rparr>)"
    using rc a verify_build_proof [OF X ph, of ident] by (simp add: handle_delivery_proof_def)
  then show "fst (handle_inbound_inner X E (packet_encode (explicit_proof (proof_destination_hash ph) ?d)) i rng nd) = [Delivered ph]"
    and "bt_get ph (nd_pending_receipts (fst (snd (handle_inbound_inner X E
      (packet_encode (explicit_proof (proof_destination_hash ph) ?d)) i rng nd)))) = None"
    and "nd_outbound (fst (snd (handle_inbound_inner X E
      (packet_encode (explicit_proof (proof_destination_hash ph) ?d)) i rng nd))) = nd_outbound nd"
    by (simp_all add: h q bt_simps)
qed

end
