(* ===== verification/Driver_Exchange.thy ===== *)
theory Driver_Exchange
  imports Driver_System Node_Exchange Lxmf_Router
begin

text \<open>
  The queue and the tables of the driver, and the steps by which two drivers exchange an LXMF message
  over a link: the request that starts it, the answer, the proof that releases the waiting message, and
  the message reported at the other end.
\<close>

section \<open>Timestamps\<close>

lemma log2_floor_bounds: "0 < n \<Longrightarrow> 2 ^ log2_floor n \<le> n \<and> n < 2 * 2 ^ log2_floor n"
proof (induction n rule: log2_floor.induct)
  case (1 n)
  then show ?case
  proof (cases "n < 2")
    case True
    then show ?thesis using 1(2) by (simp add: log2_floor.simps [of n])
  next
    case False
    then have "2 ^ log2_floor (n div 2) \<le> n div 2 \<and> n div 2 < 2 * 2 ^ log2_floor (n div 2)" using 1(1) by simp
    then show ?thesis using False by (simp add: log2_floor.simps [of n]) linarith
  qed
qed

lemma significand_bounds:
  assumes "0 < n" "log2_floor n \<le> 52"
  shows "2 ^ 52 \<le> n * 2 ^ (52 - log2_floor n)" and "n * 2 ^ (52 - log2_floor n) < 2 * 2 ^ 52"
proof -
  let ?e = "log2_floor n"
  have p: "(2 :: nat) ^ ?e * 2 ^ (52 - ?e) = 2 ^ 52" unfolding power_add [symmetric] using assms(2) by simp
  have "2 ^ ?e * 2 ^ (52 - ?e) \<le> n * 2 ^ (52 - ?e)" using log2_floor_bounds [OF assms(1)] by (intro mult_le_mono1) simp
  then show "2 ^ 52 \<le> n * 2 ^ (52 - ?e)" unfolding p .
  have "n * 2 ^ (52 - ?e) < (2 * 2 ^ ?e) * 2 ^ (52 - ?e)"
    using log2_floor_bounds [OF assms(1)] by (intro mult_strict_right_mono) simp_all
  then show "n * 2 ^ (52 - ?e) < 2 * 2 ^ 52" unfolding mult.assoc p .
qed

text \<open>Below 2^53 the conversion is exact: the significand, scaled by the exponent, is the number.\<close>

lemma f64_of_nat_exact:
  assumes "0 < n" "n < 2 ^ 53"
  defines "b \<equiv> f64_of_nat n"
  shows "(2 ^ 52 + b mod 2 ^ 52) * 2 ^ (b div 2 ^ 52 - 1023) = n * 2 ^ 52"
proof -
  let ?e = "log2_floor n"
  note bounds = log2_floor_bounds [OF assms(1)]
  have "(2 :: nat) ^ ?e < 2 ^ 53" using bounds assms(2) by linarith
  then have "?e < 53" by (rule power_less_imp_less_exp [rotated]) simp
  then have e: "?e \<le> 52" by simp
  define m where "m = n * 2 ^ (52 - ?e) - 2 ^ 52"
  have p: "(2 :: nat) ^ ?e * 2 ^ (52 - ?e) = 2 ^ 52" unfolding power_add [symmetric] using e by simp
  have l: "2 ^ 52 \<le> n * 2 ^ (52 - ?e)" and m: "m < 2 ^ 52"
    using significand_bounds [OF assms(1) e] unfolding m_def by linarith+
  have b: "b = (1023 + ?e) * 2 ^ 52 + m" using assms(1) e by (simp add: b_def f64_of_nat_def m_def Let_def)
  then have "b mod 2 ^ 52 = m" "b div 2 ^ 52 = 1023 + ?e"
    using m by (simp_all only: b add.commute [of _ m] mod_mult_self2 mod_mult_self1 div_mult_self1 div_mult_self2 mod_less div_less)
  moreover have "(2 ^ 52 + m) * 2 ^ ?e = n * 2 ^ 52"
  proof -
    have "(2 ^ 52 + m) * 2 ^ ?e = n * 2 ^ (52 - ?e) * 2 ^ ?e" using l by (simp add: m_def)
    then show ?thesis using p by (simp add: mult.assoc mult.commute [of "2 ^ (52 - ?e)"])
  qed
  ultimately show ?thesis by simp
qed

lemma f64_of_nat_below:
  assumes "n < 2 ^ 64"
  shows "f64_of_nat n < 1100 * 2 ^ 52"
proof (cases "n = 0")
  case True
  then show ?thesis by (simp add: f64_of_nat_def)
next
  case False
  let ?e = "log2_floor n"
  have bounds: "2 ^ ?e \<le> n" "n < 2 * 2 ^ ?e" using log2_floor_bounds [of n] False by simp_all
  have "(2 :: nat) ^ ?e < 2 ^ 64" using bounds assms by linarith
  then have "?e < 64" by (rule power_less_imp_less_exp [rotated]) simp
  then have e: "?e \<le> 63" by simp
  show ?thesis
  proof (cases "?e \<le> 52")
    case True
    have "n * 2 ^ (52 - ?e) < 2 * 2 ^ 52" using significand_bounds(2) True False by simp
    then show ?thesis using True False by (simp add: f64_of_nat_def Let_def)
  next
    case e52: False
    define q where "q = n div 2 ^ (?e - 52)"
    have "(2 :: nat) ^ ?e = 2 ^ (?e - 52) * 2 ^ 52" unfolding power_add [symmetric] using e52 by simp
    then have "q < 2 * 2 ^ 52" using bounds by (simp add: q_def less_mult_imp_div_less mult.commute mult.left_commute)
    then have "f64_of_nat n \<le> (1023 + ?e) * 2 ^ 52 + 2 ^ 52"
      using e52 False by (auto simp: f64_of_nat_def Let_def q_def [symmetric])
    also have "\<dots> \<le> 1086 * 2 ^ 52 + 2 ^ 52" using e by (intro add_mono mult_le_mono1) simp_all
    finally show ?thesis by simp
  qed
qed

lemma f64_of_u64_finite: "f64_is_finite (f64_of_u64 v)"
proof -
  let ?w = "f64_of_u64 v"
  have "f64_of_nat (unat v) < 1100 * 2 ^ 52" using f64_of_nat_below [of "unat v"] unsigned_less [of v] by simp
  then have "unat ?w < 1100 * 2 ^ 52" by (simp add: f64_of_u64_def unat_of_nat)
  then have "drop_bit 52 (unat ?w) < 1100" unfolding drop_bit_eq_div by (rule less_mult_imp_div_less)
  then have "unat (drop_bit 52 ?w) < 1100" by (simp only: unat_drop_bit_eq)
  moreover have "unat (drop_bit 52 ?w AND 0x7FF) \<le> unat (drop_bit 52 ?w)"
    by (metis word_le_nat_alt word_and_le2)
  ultimately have "unat (drop_bit 52 ?w AND 0x7FF) \<noteq> unat (0x7FF :: u64)" by simp
  then show ?thesis unfolding f64_is_finite_def by metis
qed

section \<open>Draining the queue\<close>

lemma drain_empty: "nd_outbound (dr_node d) = [] \<Longrightarrow> drain_outbound d = d"
  by (subst drain_outbound.simps) (simp add: poll_outbound_def)

text \<open>With the tasks of all interfaces alive, the whole queue is handed over in order.\<close>

lemma drain_delivers:
  assumes "\<forall>ip \<in> set (nd_outbound (dr_node d)). bt_get (fst ip) (dr_interfaces d) = Some None"
  shows "dr_sent (drain_outbound d) = dr_sent d @ nd_outbound (dr_node d) \<and>
    dr_events (drain_outbound d) = dr_events d \<and> dr_node (drain_outbound d) = (dr_node d)\<lparr>nd_outbound := []\<rparr> \<and>
    dr_entropy (drain_outbound d) = dr_entropy d \<and> dr_lxmf (drain_outbound d) = dr_lxmf d \<and>
    (\<forall>j. bt_get j (dr_interfaces (drain_outbound d)) = bt_get j (dr_interfaces d))"
  using assms
proof (induction d rule: drain_outbound.induct)
  case (1 d)
  show ?case
  proof (cases "nd_outbound (dr_node d)")
    case Nil
    then show ?thesis by (simp add: drain_empty)
  next
    case (Cons ip rest)
    obtain i packet where ip: "ip = (i, packet)" by fastforce
    let ?nd = "(dr_node d)\<lparr>nd_outbound := rest\<rparr>"
    let ?d = "send_out i packet (d\<lparr>dr_node := ?nd\<rparr>)"
    have p: "poll_outbound (dr_node d) = (Some (i, packet), ?nd)" using Cons ip by (simp add: poll_outbound_def)
    have d: "drain_outbound d = drain_outbound ?d" by (subst drain_outbound.simps) (simp add: p)
    have "bt_get i (dr_interfaces d) = Some None" using 1(2) Cons ip by simp
    then have s: "dr_sent ?d = dr_sent d @ [(i, packet)]" "dr_events ?d = dr_events d" "dr_entropy ?d = dr_entropy d"
      "dr_lxmf ?d = dr_lxmf d" "bt_get j (dr_interfaces ?d) = bt_get j (dr_interfaces d)" for j
      by (simp_all add: send_out_def channel_send_def update_stats_def bt_simps)
    then show ?thesis using 1(1) [OF p [symmetric] HOL.refl HOL.refl] 1(2) d Cons ip by simp
  qed
qed


section \<open>An LXMF message over a new link\<close>

text \<open>The command: the message waits under the new link's identifier, the request is sent.\<close>

lemma direct_requested:
  fixes ti co f :: bytes
  assumes ok: "node_ok (dr_node d)" "nd_outbound (dr_node d) = []" "dr_lxmf d = Some rt"
    and p: "path_get dh (nd_paths (dr_node d)) = Some entry" "nd_clock (dr_node d) < pe_expires_at entry" "pe_hops entry \<le> 1"
    and live: "bt_get (pe_interface entry) (dr_interfaces d) = Some None"
    and g: "ephemeral_generate X E (dr_entropy d) = (eph, r')"
  defines "req \<equiv> link_request dh (link_request_payload eph)"
  defines "lid \<equiv> link_id_from_request X req"
  defines "m \<equiv> lxmf_build X (nd_identity (dr_node d)) dh (lr_local_destination (rt_router rt))
    (f64_of_u64 (nd_clock (dr_node d))) ti co f"
  defines "nd \<equiv> fst (snd (establish_link X E dh (dr_entropy d) (dr_node d)))"
  obtains d' where "driver_step X E (Command (Some (CmdLxmfSendDirect dh ti co f))) d = Some (Running d' (HashReply (Inr lid)))"
    and "dr_sent d' = dr_sent d @ [(pe_interface entry, packet_encode req)]" "dr_events d' = dr_events d"
    and "dr_node d' = nd\<lparr>nd_outbound := []\<rparr>" "\<forall>j. bt_get j (dr_interfaces d') = bt_get j (dr_interfaces d)"
    and "dr_lxmf d' = Some (rt\<lparr>rt_pending_direct := bt_insert lid m (rt_pending_direct rt)\<rparr>)"
proof -
  note es = establish_sent [OF p ok(1) g HOL.refl, folded req_def, folded lid_def]
  let ?d1 = "(after_call (establish_link X E dh (dr_entropy d) (dr_node d)) d)
      \<lparr>dr_lxmf := Some (rt\<lparr>rt_pending_direct := bt_insert lid m (rt_pending_direct rt)\<rparr>)\<rparr>"
  have m: "driver_lxmf_message X dh ti co f d = Inr m" using ok(3) by (simp add: driver_lxmf_message_def m_def)
  have c: "lxmf_direct X E dh ti co f d = (Inr lid, ?d1)"
    using m es(1) ok(3) by (simp add: lxmf_direct_def Let_def after_call_def)
  have n: "dr_node ?d1 = nd" "nd_outbound nd = [(pe_interface entry, packet_encode req)]"
    using es(3) ok(2) by (simp_all add: after_call_def nd_def)
  have "\<forall>ip \<in> set (nd_outbound (dr_node ?d1)). bt_get (fst ip) (dr_interfaces ?d1) = Some None"
    unfolding n using live by (simp add: after_call_def)
  note dr = drain_delivers [OF this]
  show thesis
    by (rule that [of "drain_outbound ?d1"])
      (use dr n c in \<open>simp_all add: driver_step_def, simp_all add: after_call_def\<close>)
qed

lemma packet_round:
  assumes "handle_inbound_inner X E bs i (Some (dr_entropy d)) (dr_node d) = (evs, nd, rng)"
  shows "driver_step X E (Inbound (Some (Packet i bs))) d = Some (Running (drain_outbound (emit_node_events X E evs
    ((update_stats i (count_rx bs) d)\<lparr>dr_node := nd, dr_entropy := case rng of Some r \<Rightarrow> r | None \<Rightarrow> dr_entropy d\<rparr>))) NoReply)"
  using assms by (simp add: driver_step_def driver_inbound_def handle_inbound_with_entropy_def update_stats_def Let_def split: option.split)

text \<open>A received packet whose event the router has no message waiting for.\<close>

lemma inbound_round:
  assumes h: "handle_inbound_inner X E bs i (Some (dr_entropy d)) (dr_node d) = ([ev], nd, rng)"
    and ev: "\<And>dh hops. ev \<noteq> Announce dh hops"
      "\<And>lid rt. ev = LinkEstablished lid \<Longrightarrow> dr_lxmf d = Some rt \<Longrightarrow> bt_get lid (rt_pending_direct rt) = None"
    and q: "\<forall>ip \<in> set (nd_outbound nd). bt_get (fst ip) (dr_interfaces d) = Some None"
  obtains d' where "driver_step X E (Inbound (Some (Packet i bs))) d = Some (Running d' NoReply)"
    and "dr_sent d' = dr_sent d @ nd_outbound nd" "dr_events d' = dr_events d @ [translate_event X ev (dr_lxmf d)]"
    and "dr_node d' = nd\<lparr>nd_outbound := []\<rparr>" "dr_lxmf d' = dr_lxmf d" "\<forall>j. bt_get j (dr_interfaces d') = bt_get j (dr_interfaces d)"
proof -
  let ?r = "case rng of Some r \<Rightarrow> r | None \<Rightarrow> dr_entropy d"
  let ?d = "(update_stats i (count_rx bs) d)\<lparr>dr_node := nd, dr_entropy := ?r\<rparr>"
  have "learn_source X ev ?d = ?d" using ev(1) by (cases ev) (auto simp: learn_source_def)
  moreover have "send_pending X E ev ?d = (None, ?d)"
    using ev(2) by (cases ev) (auto simp: send_pending_def update_stats_def split: option.split)
  ultimately have e: "emit_node_events X E [ev] ?d = emit (translate_event X ev (dr_lxmf d)) ?d"
    by (simp add: emit_node_events_def emit_node_event_def update_stats_def)
  have "\<forall>ip \<in> set (nd_outbound (dr_node (emit (translate_event X ev (dr_lxmf d)) ?d))).
      bt_get (fst ip) (dr_interfaces (emit (translate_event X ev (dr_lxmf d)) ?d)) = Some None"
    using q by (simp add: emit_def update_stats_def)
  note dr = drain_delivers [OF this]
  show thesis
    by (rule that [of "drain_outbound (emit (translate_event X ev (dr_lxmf d)) ?d)"])
      (use dr packet_round [OF h] e in \<open>simp_all, simp_all add: update_stats_def emit_def\<close>)
qed

text \<open>The established link releases the message that waits for it.\<close>

lemma message_released:
  assumes h: "handle_inbound_inner X E bs i (Some (dr_entropy d)) (dr_node d) = ([LinkEstablished lid], nd, rng)"
    and rt: "dr_lxmf d = Some rt" "bt_get lid (rt_pending_direct rt) = Some m"
    and live: "live_link lid k key nd" "bt_get k (dr_interfaces d) = Some None" and q: "fst ` set (nd_outbound nd) \<subseteq> {k}"
  obtains d' iv where "driver_step X E (Inbound (Some (Packet i bs))) d = Some (Running d' NoReply)"
    and "dr_sent d' = dr_sent d @ nd_outbound nd @ [(k, packet_encode (link_data lid (seal_with_key X key (lxmf_pack X m) iv)))]"
    and "dr_events d' = dr_events d @ [LinkEstablished lid]"
    and "dr_lxmf d' = Some (rt\<lparr>rt_pending_direct := bt_remove lid (rt_pending_direct rt)\<rparr>)"
    and "entropy_ok E \<Longrightarrow> length iv = 16"
proof -
  let ?r = "case rng of Some r \<Rightarrow> r | None \<Rightarrow> dr_entropy d"
  let ?d = "(update_stats i (count_rx bs) d)\<lparr>dr_node := nd, dr_entropy := ?r\<rparr>"
  obtain iv r2 where iv: "E ?r 16 = (iv, r2)" by fastforce
  let ?bs = "packet_encode (link_data lid (seal_with_key X key (lxmf_pack X m) iv))"
  let ?nd = "touch_link lid (push_out k ?bs nd)"
  let ?d1 = "emit (LinkEstablished lid) (?d\<lparr>dr_lxmf := Some (rt\<lparr>rt_pending_direct := bt_remove lid (rt_pending_direct rt)\<rparr>),
    dr_node := ?nd, dr_entropy := r2\<rparr>)"
  have "send_direct X E lid m ?r nd = (Inr (), ?nd, r2)" using link_sent [where E = E and r = ?r, OF live(1) iv] by (simp add: send_direct_def)
  then have "emit_node_events X E [LinkEstablished lid] ?d = ?d1"
    using rt by (simp add: emit_node_events_def emit_node_event_def learn_source_def send_pending_def update_stats_def translate_event_def)
  then have s: "driver_step X E (Inbound (Some (Packet i bs))) d = Some (Running (drain_outbound ?d1) NoReply)"
    using packet_round [OF h] by simp
  have out: "nd_outbound (dr_node ?d1) = nd_outbound nd @ [(k, ?bs)]" by (simp add: emit_def touch_link_def)
  have "\<forall>ip \<in> set (nd_outbound (dr_node ?d1)). bt_get (fst ip) (dr_interfaces ?d1) = Some None"
    unfolding out using q live(2) by (auto simp: emit_def update_stats_def)
  note dr = drain_delivers [OF this]
  show thesis
    by (rule that [OF s, of iv])
      (use dr out entropy_filled [where fill = E and r = ?r, OF _ iv] in \<open>simp_all, simp_all add: emit_def update_stats_def\<close>)
qed


text \<open>The request answered, and the proof that releases the message.\<close>

lemma request_round:
  assumes X: "crypto_ok X" and ok: "node_ok (dr_node d)" "nd_outbound (dr_node d) = []" and dh: "length dh = 16"
    and l: "l \<in> set (nd_locals (dr_node d))" "ld_dest_hash l = dh" "is_single (ld_kind l)"
    and rt: "dr_lxmf d = Some rt" "bt_get lid (rt_pending_direct rt) = None" "bt_get i (dr_interfaces d) = Some None"
    and eph: "eph = ephemeral_from_private_bytes X a b"
    and lid: "lid = link_id_from_request X (link_request dh (link_request_payload eph))"
    and new: "links_get lid (nd_links (dr_node d)) = None"
    and req: "req = packet_encode (link_request dh (link_request_payload eph))" "unseen X req (dr_node d)"
  obtains d' c e where "driver_step X E (Inbound (Some (Packet i req))) d = Some (Running d' NoReply)"
    and "dr_sent d' = dr_sent d @ [(i, packet_encode (packet_proof lid
      (build_link_proof X (nd_identity (dr_node d)) lid (ephemeral_from_private_bytes X c e)) LRPROOF))]"
    and "dr_events d' = dr_events d @ [LinkEstablished lid]" "dr_lxmf d' = dr_lxmf d"
    and "live_link lid i (derive_link_key X c (x25519_pub eph) lid) (dr_node d')"
proof -
  obtain evs nd rng where h: "handle_inbound_inner X E req i (Some (dr_entropy d)) (dr_node d) = (evs, nd, rng)"
    by (metis prod_cases3)
  obtain c e where a: "evs = [LinkEstablished lid]" "nd_outbound nd = nd_outbound (dr_node d) @ [(i, packet_encode (packet_proof lid
      (build_link_proof X (nd_identity (dr_node d)) lid (ephemeral_from_private_bytes X c e)) LRPROOF))]"
    "live_link lid i (derive_link_key X c (x25519_pub eph) lid) nd"
    by (rule request_answered [OF X ok(1) dh l eph lid new req(2) [unfolded req(1)] h [unfolded req(1)]])
  obtain d' where "driver_step X E (Inbound (Some (Packet i req))) d = Some (Running d' NoReply)"
    "dr_sent d' = dr_sent d @ nd_outbound nd" "dr_events d' = dr_events d @ [translate_event X (LinkEstablished lid) (dr_lxmf d)]"
    "dr_node d' = nd\<lparr>nd_outbound := []\<rparr>" "dr_lxmf d' = dr_lxmf d"
    by (rule inbound_round [OF h [unfolded a(1)]]) (use rt a(2) ok(2) in \<open>auto simp: bt_simps\<close>)
  then show thesis using that [of d' c e] a(2,3) ok(2) by (simp add: translate_event_def live_link_def)
qed

lemma proof_round:
  assumes X: "crypto_ok X" "entropy_ok E" and ok: "node_ok (dr_node d)" "nd_outbound (dr_node d) = []" "length lid = 16"
    and l: "links_get lid (nd_links (dr_node d)) = Some l" "le_status l = Pending" "le_initiator l"
      "le_destination_public l = Some (id_public X ident)" "bt_get (le_interface l) (dr_interfaces d) = Some None"
    and resp: "resp = ephemeral_from_private_bytes X c e"
    and pf: "pf = packet_encode (packet_proof lid (build_link_proof X ident lid resp) LRPROOF)" "unseen X pf (dr_node d)"
    and rt: "dr_lxmf d = Some rt" "bt_get lid (rt_pending_direct rt) = Some m"
  obtains d' q iv where "driver_step X E (Inbound (Some (Packet j pf))) d = Some (Running d' NoReply)"
    and "dr_sent d' = dr_sent d @ q @ [(le_interface l, packet_encode (link_data lid (seal_with_key X
      (derive_link_key X (x25519_prv (le_ephemeral l)) (x25519_pub resp) lid) (lxmf_pack X m) iv)))]"
    and "dr_events d' = dr_events d @ [LinkEstablished lid]" "length iv = 16"
proof -
  obtain evs nd rng where h: "handle_inbound_inner X E pf j (Some (dr_entropy d)) (dr_node d) = (evs, nd, rng)"
    by (metis prod_cases3)
  note pa = proof_accepted [OF X(1) ok(1,3) l(1-4) resp pf h]
  have q: "fst ` set (nd_outbound nd) \<subseteq> {le_interface l}" using pa(3) ok(2) by auto
  show thesis
    by (rule message_released [OF h [unfolded pa(1)] rt pa(2) l(5) q]) (use that X(2) in blast)
qed

text \<open>The peer, whose router knows the sender, reports the message.\<close>

lemma message_reported:
  assumes X: "crypto_ok X" "rmp_ok X"
    and ok: "node_ok (dr_node d)" "nd_outbound (dr_node d) = []" "live_link lid i key (dr_node d)" "length lid = 16"
    and rt: "dr_lxmf d = Some rt" "lr_local_destination (rt_router rt) = dh" "lr_stamp_cost (rt_router rt) = None"
      "bt_get src (lr_source_identities (rt_router rt)) = Some (id_public X ident)"
    and parts: "length dh = 16" "length src = 16" "f64_is_finite t" "length ti < 2 ^ 32" "length co < 2 ^ 32"
      "length f < 2 ^ 62" "fields_ok f"
    and bs: "bs = packet_encode (link_data lid (seal_with_key X key (lxmf_pack X (lxmf_build X ident dh src t ti co f)) iv))"
      "length iv = 16" "unseen X bs (dr_node d)"
  shows "\<exists>d'. driver_step X E (Inbound (Some (Packet i bs))) d = Some (Running d' NoReply) \<and>
    dr_events d' = dr_events d @ [LxmfMessage dh src t ti co f] \<and> dr_sent d' = dr_sent d"
proof -
  let ?m = "lxmf_build X ident dh src t ti co f"
  obtain evs nd rng where h: "handle_inbound_inner X E bs i (Some (dr_entropy d)) (dr_node d) = (evs, nd, rng)"
    by (metis prod_cases3)
  have e: "evs = [LinkData lid (lxmf_pack X ?m)]" and q: "nd_outbound nd = []"
    using link_data_received [OF crypto_okD(5) [OF X(1)] ok(1,4) bs(2) ok(3), of "lxmf_pack X ?m" E "Some (dr_entropy d)"]
      bs(1,3) h ok(2) by simp_all
  have "receive_direct X (lxmf_pack X ?m) (rt_router rt) = Inr ?m"
    by (rule router_delivers [OF X rt(4) _ parts(1,2) rt(3) parts(3-7)]) (simp add: rt(2))
  moreover have "lxmf_event ?m = LxmfMessage dh src t ti co f" by (simp add: lxmf_event_def lxmf_build_def Let_def)
  ultimately have t: "translate_event X (LinkData lid (lxmf_pack X ?m)) (dr_lxmf d) = LxmfMessage dh src t ti co f"
    using rt(1) by (simp add: translate_event_def)
  obtain d' where "driver_step X E (Inbound (Some (Packet i bs))) d = Some (Running d' NoReply)"
    "dr_sent d' = dr_sent d @ nd_outbound nd" "dr_events d' = dr_events d @ [translate_event X (LinkData lid (lxmf_pack X ?m)) (dr_lxmf d)]"
    by (rule inbound_round [OF h [unfolded e]]) (simp_all add: q)
  then show ?thesis using t q by auto
qed

end
