(* ===== verification/Node_Discovery.thy ===== *)
theory Node_Discovery
  imports Node_Exchange
begin

text \<open>
  How routes are found and used: an announce that arrives, the answer to a path request, the relaying
  of data, and what a tick does to links and receipts.
\<close>

section \<open>An announce arrives\<close>

definition route_open :: "bytes \<Rightarrow> node \<Rightarrow> bool" where
  "route_open dh nd \<longleftrightarrow> (case path_get dh (nd_paths nd) of None \<Rightarrow> True
     | Some e \<Rightarrow> pe_expires_at e \<le> nd_clock nd \<or> 1 < pe_hops e)"

definition announced_route :: "ext \<Rightarrow> identity \<Rightarrow> bytes \<Rightarrow> u16 \<Rightarrow> u64 \<Rightarrow> path_entry" where
  "announced_route X who rh i now = \<lparr>pe_interface = i, pe_next_hop = None, pe_hops = 1,
     pe_expires_at = sat_add now PATH_EXPIRY_SECS, pe_timestamp = announce_timestamp rh,
     pe_public = id_public X who, pe_ratchet = None\<rparr>"

lemma announce_parses:
  assumes "crypto_ok X" "length nh = 10" "length rh = 10"
  shows "announce_parse (to_payload (announce_build X who dh nh rh app)) False = Inr (announce_build X who dh nh rh app)"
  using announce_parse_payload [OF announce_build_ok [OF assms, of who dh app]] by simp

lemma announce_handled:
  assumes X: "crypto_ok X" and len: "length nh = 10" "length rh = 10"
    and q: "data q = to_payload (announce_build X who dh nh rh app)" "context_flag q = False" "hops q = 1"
      "header_type q = HEADER_1"
    and new: "\<forall>l \<in> set (nd_locals nd). ld_dest_hash l \<noteq> dh"
      "\<not> bt_contains (dh, rh) (nd_seen_announces nd)" "route_open dh nd"
  shows "fst (handle_announce X q dh i nd) = [Announce dh 1]"
    and "path_get dh (nd_paths (snd (handle_announce X q dh i nd))) = Some (announced_route X who rh i (nd_clock nd))"
proof -
  let ?a = "announce_build X who dh nh rh app"
  let ?e = "announced_route X who rh i (nd_clock nd)"
  have e: "\<lparr>pe_interface = i, pe_next_hop = None, pe_hops = 1, pe_expires_at = sat_add (nd_clock nd) PATH_EXPIRY_SECS,
      pe_timestamp = announce_timestamp rh, pe_public = id_public X who, pe_ratchet = None\<rparr> = ?e"
    by (simp add: announced_route_def)
  have p: "pub_from_bytes (pub_to_bytes (id_public X who)) = Inr (id_public X who)"
    using crypto_okD [OF X] by (simp add: pub_roundtrip)
  have t: "snd (path_update dh ?e (nd_clock nd) (nd_paths nd))"
    using new(3) path_upd.offer_taken [of dh ?e "nd_clock nd" "nd_paths nd"]
    by (auto simp: route_open_def announced_route_def path_replaces_def split: option.splits)
  have l: "\<not> list_ex (\<lambda>l. ld_dest_hash l = dh) (nd_locals nd)" using new(1) by (auto simp: list_ex_iff)
  show "fst (handle_announce X q dh i nd) = [Announce dh 1]"
    and "path_get dh (nd_paths (snd (handle_announce X q dh i nd))) = Some ?e"
    using q p new(2) l t announce_parses [OF X len, of who dh app] announce_verify_build [OF X, of who dh nh rh app]
    by (simp_all add: handle_announce_def Let_def case_prod_beta header_consts e path_upd.look_offer push_all_eq)
qed

lemma announce_received:
  assumes X: "crypto_ok X" and ok: "node_ok nd" and len: "length nh = 10" "length rh = 10" "length dh = 16"
    and bs: "bs = packet_encode (new_header1 SINGLE ANNOUNCE dh c (to_payload (announce_build X who dh nh rh app)))"
    and u: "unseen X bs nd"
    and new: "\<forall>l \<in> set (nd_locals nd). ld_dest_hash l \<noteq> dh"
      "\<not> bt_contains (dh, rh) (nd_seen_announces nd)" "route_open dh nd"
  shows "fst (handle_inbound_inner X E bs i rng nd) = [Announce dh 1]"
    and "path_get dh (nd_paths (fst (snd (handle_inbound_inner X E bs i rng nd)))) =
      Some (announced_route X who rh i (nd_clock nd))"
proof -
  let ?q = "new_header1 SINGLE ANNOUNCE dh c (to_payload (announce_build X who dh nh rh app))"
  let ?n = "noted (packet_hash X ?q) nd"
  have "handle_inbound_inner X E bs i rng nd = dispatch X E (?q\<lparr>hops := 1\<rparr>) i rng ?n"
    unfolding bs by (rule inbound_fresh) (use len ok u bs in \<open>simp_all add: dest_types packet_types\<close>)
  also have "\<dots> = (let (evs, nd) = handle_announce X (?q\<lparr>hops := 1\<rparr>) dh i ?n in (evs, nd, rng))"
    using len by (simp add: dispatch_def try_array_def packet_types dest_types)
  finally have h: "handle_inbound_inner X E bs i rng nd =
    (let (evs, nd) = handle_announce X (?q\<lparr>hops := 1\<rparr>) dh i ?n in (evs, nd, rng))" .
  have s: "\<not> bt_contains (dh, rh) (nd_seen_announces ?n)"
    using new(2) node_okD(3) [OF ok] by (auto simp: maybe_prune_def bt_contains_def bt.get_retain)
  have r: "route_open dh ?n" using new(3) by (simp add: route_open_def cong: option.case_cong)
  have l: "\<forall>l \<in> set (nd_locals ?n). ld_dest_hash l \<noteq> dh" using new(1) by simp
  have "data (?q\<lparr>hops := 1\<rparr>) = to_payload (announce_build X who dh nh rh app)" "\<not> context_flag (?q\<lparr>hops := 1\<rparr>)"
    "hops (?q\<lparr>hops := 1\<rparr>) = 1" "header_type (?q\<lparr>hops := 1\<rparr>) = HEADER_1" by (simp_all add: new_header1_def)
  then have "fst (handle_announce X (?q\<lparr>hops := 1\<rparr>) dh i ?n) = [Announce dh 1]"
    "path_get dh (nd_paths (snd (handle_announce X (?q\<lparr>hops := 1\<rparr>) dh i ?n))) = Some (announced_route X who rh i (nd_clock ?n))"
    using announce_handled [OF X len(1,2) _ _ _ _ l s r] by simp_all
  then show "fst (handle_inbound_inner X E bs i rng nd) = [Announce dh 1]"
    and "path_get dh (nd_paths (fst (snd (handle_inbound_inner X E bs i rng nd)))) =
      Some (announced_route X who rh i (nd_clock nd))"
    by (simp_all add: h case_prod_beta)
qed

lemma packet_announce_header1: "packet_announce dh payload = new_header1 SINGLE ANNOUNCE dh 0 payload"
  by (simp add: packet_announce_def new_header1_def header_consts)

section \<open>A path request is answered\<close>

lemma response_header1:
  "packet_announce dh payload\<lparr>ctx := PATH_RESPONSE, header_type := HEADER_1, propagation := BROADCAST, hops := 0, transport_id := None\<rparr>
     = new_header1 SINGLE ANNOUNCE dh PATH_RESPONSE payload"
  by (simp add: packet_announce_def new_header1_def)

lemma request_header1:
  "path_request X target None tag = new_header1 PLAIN DATA (path_request_destination_hash X) 0 (target @ tag)"
  by (simp add: path_request_def new_header1_def)

lemma path_request_answered:
  assumes X: "sha_ok X" and ok: "node_ok nd" and len: "length dh = 16" "length tag = 16"
    and l: "\<exists>l \<in> set (nd_locals nd). ld_dest_hash l = dh"
    and c: "bt_get dh (nd_cached_announces nd) = Some (packet_announce dh payload)"
    and new: "\<not> bt_contains (dh, tag) (nd_seen_path_requests nd)"
    and u: "unseen X (packet_encode (path_request X dh None tag)) nd"
  shows "fst (handle_inbound_inner X E (packet_encode (path_request X dh None tag)) i rng nd) = []"
    and "nd_outbound (fst (snd (handle_inbound_inner X E (packet_encode (path_request X dh None tag)) i rng nd))) =
      nd_outbound nd @ [(i, packet_encode (new_header1 SINGLE ANNOUNCE dh PATH_RESPONSE payload))]"
proof -
  let ?q = "new_header1 PLAIN DATA (path_request_destination_hash X) 0 (dh @ tag)"
  let ?n = "noted (packet_hash X ?q) nd"
  have pl: "length (path_request_destination_hash X) = 16" using X by (simp add: path_request_destination_hash_def)
  have "handle_inbound_inner X E (packet_encode ?q) i rng nd = dispatch X E (?q\<lparr>hops := 1\<rparr>) i rng ?n"
    by (rule inbound_fresh) (use pl ok u in \<open>simp_all add: dest_types packet_types request_header1\<close>)
  also have "\<dots> = ([], handle_path_request X (?q\<lparr>hops := 1\<rparr>) i ?n, rng)"
    using pl by (simp add: dispatch_def try_array_def)
  finally have h: "handle_inbound_inner X E (packet_encode ?q) i rng nd =
    ([], handle_path_request X (?q\<lparr>hops := 1\<rparr>) i ?n, rng)" .
  have s: "\<not> bt_contains (dh, tag) (nd_seen_path_requests ?n)"
    using new node_okD(4) [OF ok] by (auto simp: maybe_prune_def bt_contains_def bt.get_retain)
  have ll: "list_ex (\<lambda>l. ld_dest_hash l = dh) (nd_locals ?n)" using l by (auto simp: list_ex_iff)
  have "nd_outbound (handle_path_request X (?q\<lparr>hops := 1\<rparr>) i ?n) =
      nd_outbound nd @ [(i, packet_encode (new_header1 SINGLE ANNOUNCE dh PATH_RESPONSE payload))]"
    using len s ll c response_header1 [of dh payload]
    by (simp add: handle_path_request_def Let_def sub_def)
  then show "fst (handle_inbound_inner X E (packet_encode (path_request X dh None tag)) i rng nd) = []"
    and "nd_outbound (fst (snd (handle_inbound_inner X E (packet_encode (path_request X dh None tag)) i rng nd))) =
      nd_outbound nd @ [(i, packet_encode (new_header1 SINGLE ANNOUNCE dh PATH_RESPONSE payload))]"
    by (simp_all add: h request_header1)
qed

section \<open>Data in transit\<close>

text \<open>The packet a relay passes on, and the route it takes.\<close>

definition relayed :: "packet \<Rightarrow> path_entry \<Rightarrow> packet" where
  "relayed p e = (if pe_hops e > 1 then p\<lparr>transport_id := pe_next_hop e\<rparr>
     else p\<lparr>header_type := HEADER_1, propagation := BROADCAST, transport_id := None\<rparr>)"

definition relay_route :: "ext \<Rightarrow> packet \<Rightarrow> u16 \<Rightarrow> node \<Rightarrow> path_entry \<Rightarrow> bool" where
  "relay_route X p i nd e \<longleftrightarrow> nd_transport_enabled nd \<and> header_type p = HEADER_2 \<and>
     transport_id p = Some (id_hash X (nd_identity nd)) \<and> hops p < PATHFINDER_MAX_HOPS \<and>
     path_get (dest_hash p) (nd_paths nd) = Some e \<and> pe_expires_at e > nd_clock nd \<and>
     pe_interface e \<noteq> i \<and> (pe_hops e > 1 \<longrightarrow> pe_next_hop e \<noteq> None)"

lemma relay_effect:
  assumes ok: "node_ok nd" and f: "find_local (dest_hash p) nd = None"
  shows "fst (handle_data X p (dest_hash p) i nd) = []"
    and "relay_route X p i nd e \<Longrightarrow> nd_outbound (snd (handle_data X p (dest_hash p) i nd)) =
      nd_outbound nd @ [(pe_interface e, packet_encode (relayed p e))]"
    and "(\<And>e. \<not> relay_route X p i nd e) \<Longrightarrow> nd_outbound (snd (handle_data X p (dest_hash p) i nd)) = nd_outbound nd"
proof -
  show "fst (handle_data X p (dest_hash p) i nd) = []" using f by (simp add: handle_data_def)
  have n: "nd_outbound (node_prune nd) = nd_outbound nd" by (simp add: node_prune_eq)
  have g: "path_get (dest_hash p) (nd_paths (node_prune nd)) = Some e \<longleftrightarrow>
      path_get (dest_hash p) (nd_paths nd) = Some e \<and> pe_expires_at e > nd_clock nd" for e
    using node_okD(2) [OF ok] by (simp add: node_prune_eq path_get_prune_Some)
  show "nd_outbound (snd (handle_data X p (dest_hash p) i nd)) =
      nd_outbound nd @ [(pe_interface e, packet_encode (relayed p e))]" if r: "relay_route X p i nd e"
  proof -
    have "path_get (dest_hash p) (nd_paths (node_prune nd)) = Some e" using r by (simp add: g relay_route_def)
    then show ?thesis using r f
      by (auto simp: relay_route_def handle_data_def forward_data_def relayed_def n Let_def)
  qed
  show "nd_outbound (snd (handle_data X p (dest_hash p) i nd)) = nd_outbound nd" if r: "\<And>e. \<not> relay_route X p i nd e"
  proof (cases "path_get (dest_hash p) (nd_paths (node_prune nd))")
    case None
    then show ?thesis using f by (simp add: handle_data_def forward_data_def n Let_def)
  next
    case (Some e)
    then show ?thesis using r [of e] f g [of e]
      by (auto simp: relay_route_def handle_data_def forward_data_def n Let_def split: option.split)
  qed
qed

section \<open>The tick\<close>

text \<open>The retry loop over the resources leaves links and receipts, and adds to the queue and the events.\<close>

definition tick_frame :: "node \<Rightarrow> node \<Rightarrow> bool" where
  "tick_frame nd nd' \<longleftrightarrow> nd_links nd' = nd_links nd \<and> nd_pending_receipts nd' = nd_pending_receipts nd \<and>
     nd_clock nd' = nd_clock nd \<and> (\<exists>q. nd_outbound nd' = nd_outbound nd @ q) \<and>
     (\<exists>es. nd_pending_events nd' = nd_pending_events nd @ es)"

lemma tick_frame_refl [simp]: "tick_frame nd nd"
  by (simp add: tick_frame_def)

lemma tick_frame_steps [simp]:
  "tick_frame nd nd1 \<Longrightarrow> tick_frame nd (push_out i b nd1)"
  "tick_frame nd nd1 \<Longrightarrow> tick_frame nd (nd1\<lparr>nd_inbound_resources := t\<rparr>)"
  "tick_frame nd nd1 \<Longrightarrow> tick_frame nd (nd1\<lparr>nd_inbound_resources := t, nd_pending_events := nd_pending_events nd1 @ es\<rparr>)"
  "tick_frame nd nd1 \<Longrightarrow> tick_frame nd (fst (enqueue_encrypted_link_context X E lid i c pt key r nd1))"
  by (auto simp: tick_frame_def enqueue_encrypted_link_context_def case_prod_beta)

lemma tick_resource_frame:
  assumes k: "tick_frame nd (fst s)" shows "tick_frame nd (fst (tick_resource X E now key s))"
proof -
  obtain nd1 rng where s: "s = (nd1, rng)" by fastforce
  have k1: "tick_frame nd nd1" using k s by simp
  show ?thesis
  proof (cases "bt_get key (nd_inbound_resources nd1)")
    case (Some res)
    obtain retry res' where r: "retry_due now res = (retry, res')" by fastforce
    show ?thesis
    proof (cases retry)
      case (Inl e)
      then show ?thesis using s Some r k1 by (simp add: tick_resource_def Let_def)
    next
      case (Inr q)
      show ?thesis
      proof (cases "q = None \<or> rng = None \<or> links_get (fst key) (nd_links nd1) = None
          \<or> le_derived_key (the (links_get (fst key) (nd_links nd1))) = None")
        case True
        then show ?thesis using k1 s Some r Inr
          by (cases q; cases rng; cases "links_get (fst key) (nd_links nd1)") (auto simp: tick_resource_def Let_def)
      next
        case False
        then show ?thesis using k1 s Some r Inr
          by (auto simp: tick_resource_def Let_def case_prod_beta)
      qed
    qed
  qed (use k s in \<open>simp add: tick_resource_def\<close>)
qed

lemma tick_resources_frame:
  "tick_frame nd (fst s) \<Longrightarrow> tick_frame nd (fst (fold (tick_resource X E now) ks s))"
  by (induction ks arbitrary: s) (simp_all add: tick_resource_frame)

lemma tick_inner_parts:
  obtains q es where
    "nd_links (fst (snd (tick_inner X E rng nd))) = links_map (\<lambda>_. tick_link (nd_clock nd)) (nd_links nd)"
    "nd_pending_receipts (fst (snd (tick_inner X E rng nd))) =
       bt_retain (\<lambda>_ receipt. pr_expires_at receipt > nd_clock nd) (nd_pending_receipts nd)"
    "nd_pending_events (fst (snd (tick_inner X E rng nd))) = []"
    "fst (tick_inner X E rng nd) = nd_pending_events nd
       @ map LinkClosed (map fst (filter (\<lambda>(i, l). stale (nd_clock nd) l) (nd_links nd))) @ es"
    "nd_outbound (fst (snd (tick_inner X E rng nd))) = nd_outbound nd
       @ map (\<lambda>(i, l). (le_interface l, packet_encode (link_data_with_context i [0xFF] KEEPALIVE)))
           (filter (\<lambda>(i, l). keepalive_due (nd_clock nd) l) (nd_links nd)) @ q"
proof -
  let ?s = "fold (tick_resource X E (nd_clock nd)) (bt_keys (nd_inbound_resources nd)) (tick_before nd, rng)"
  have f: "tick_frame (tick_before nd) (fst ?s)" by (rule tick_resources_frame) simp
  have e: "fst (tick_inner X E rng nd) = nd_pending_events (fst ?s)"
    "fst (snd (tick_inner X E rng nd)) = fst ?s\<lparr>nd_pending_events := []\<rparr>"
    by (simp_all add: tick_inner_eq case_prod_beta)
  have b: "nd_links (tick_before nd) = links_map (\<lambda>_. tick_link (nd_clock nd)) (nd_links nd)"
    "nd_pending_receipts (tick_before nd) = bt_retain (\<lambda>_ receipt. pr_expires_at receipt > nd_clock nd) (nd_pending_receipts nd)"
    "nd_pending_events (tick_before nd) = nd_pending_events nd
       @ map LinkClosed (map fst (filter (\<lambda>(i, l). stale (nd_clock nd) l) (nd_links nd)))"
    "nd_outbound (tick_before nd) = nd_outbound nd
       @ map (\<lambda>(i, l). (le_interface l, packet_encode (link_data_with_context i [0xFF] KEEPALIVE)))
           (filter (\<lambda>(i, l). keepalive_due (nd_clock nd) l) (nd_links nd))"
    by (simp_all add: tick_before_def tick_keepalives_eq tick_advance_def tick_receipts_def Let_def case_prod_beta comp_def)
  show thesis
    using f that by (auto simp: tick_frame_def e b)
qed

end
