(* ===== verification/Node_History.thy ===== *)
theory Node_History
  imports Node_Routes
begin

text \<open>
  What happened before: a pending receipt was issued by a \<open>send_message_with_receipt\<close> of the past, to the
  key of the route then held, for the packet then queued; and what an outbound resource expects as its proof
  was computed by a \<open>send_resource\<close> of the past from the payload it was given.
\<close>

section \<open>Runs into a property\<close>

text \<open>A run that leads to a property leads through the operation that brought it about.\<close>

lemma run_cause:
  assumes "node_run X E s evs s'" and "Q (fst s')" "\<not> Q (fst s)"
  shows "\<exists>e1 s1 op1 e s2 e2. node_run X E s e1 s1 \<and> \<not> Q (fst s1) \<and> node_exec X E op1 s1 = Some (e, s2) \<and>
    Q (fst s2) \<and> node_run X E s2 e2 s'"
  using assms
proof (induction rule: node_run.induct)
  case (step op1 s evs s' evs' s'')
  show ?case
  proof (cases "Q (fst s')")
    case True
    then show ?thesis using step.hyps step.prems node_run.refl [of X E s] by blast
  next
    case False
    then obtain e1 s1 op2 e s2 e2 where "node_run X E s' e1 s1" "\<not> Q (fst s1)" "node_exec X E op2 s1 = Some (e, s2)"
        "Q (fst s2)" "node_run X E s2 e2 s''"
      using step.IH step.prems by blast
    then show ?thesis using node_run.step [OF step.hyps(1)] by blast
  qed
qed simp

lemma node_reach_cause:
  assumes "node_reach X E nd" and "Q nd" and "\<And>i c. \<not> Q (node_with_clock i c)"
  obtains n1 r1 op1 e n2 r2 evs r where "node_reach X E n1" "\<not> Q n1" "node_exec X E op1 (n1, r1) = Some (e, n2, r2)"
    "Q n2" "node_run X E (n2, r2) evs (nd, r)"
proof -
  obtain i c r0 evs r where "node_run X E (node_with_clock i c, r0) evs (nd, r)"
    using assms(1) unfolding node_reach_def by blast
  from run_cause [OF this, of Q] assms(2,3) obtain e1 s1 op1 e s2 e2 where
    h: "node_run X E (node_with_clock i c, r0) e1 s1" "\<not> Q (fst s1)" "node_exec X E op1 s1 = Some (e, s2)"
      "Q (fst s2)" "node_run X E s2 e2 (nd, r)" by auto
  have "node_reach X E (fst s1)" using h(1) unfolding node_reach_def by (metis prod.collapse)
  then show thesis using that [of "fst s1" op1 "snd s1" e "fst s2" "snd s2" e2 r] h by simp
qed

section \<open>Receipts\<close>

lemma exec_receipts:
  assumes e: "node_exec X E op1 (nd, r) = Some (evs, nd', r')" and ok: "node_ok nd"
    and g: "bt_get h (nd_pending_receipts nd') = Some rc" and n: "bt_get h (nd_pending_receipts nd) \<noteq> Some rc"
  shows "\<exists>dh pt entry. op1 = SendMessage dh pt True \<and> send_message_with_receipt X E dh pt r nd = (Inr h, nd', r') \<and>
    path_get dh (nd_paths (node_prune nd)) = Some entry \<and> rc = receipt_for entry nd"
proof -
  have m: "bt_get h (nd_pending_receipts nd1) \<noteq> Some rc" if "minor nd nd1" for nd1
    using that n ok by (auto simp: minor_def maps_ok_def shrinks_def node_okD)
  then have s: "\<not> minor nd nd'" using g by blast
  from exec_minor [OF e] s consider bs i b where "op1 = Receive bs i b" | d pt where "op1 = SendMessage d pt True"
    | lid d where "op1 = SendResource lid d" by blast
  then show ?thesis
  proof cases
    case op: 1
    have i: "bt_get h (nd_pending_receipts (fst (snd (handle_inbound_inner X F bs i rng nd)))) \<noteq> Some rc"
      for F :: "'x entropy" and rng
      using inbound_minor [of nd X F bs i rng]
    proof (elim disjE exE conjE)
      fix p assume "packet_type p = ANNOUNCE" "fst (snd (handle_inbound_inner X F bs i rng nd)) =
        snd (handle_announce X (p\<lparr>hops := sat_add (hops p) 1\<rparr>) (dest_hash p) i (noted (packet_hash X p) nd))"
      then show ?thesis
        using n announce_effect(1) [of "p\<lparr>hops := sat_add (hops p) 1\<rparr>" X i "noted (packet_hash X p) nd"] by simp
    qed (rule m)
    from e [unfolded op] have False
    proof (cases rule: receive_cases)
      case 1
      then show ?thesis using i [of E "Some r"] g by simp
    next
      case 2
      then show ?thesis using i [of seeded_fill None] g by simp
    qed
    then show ?thesis ..
  next
    case 2
    then have nd': "snd (send_message_with_receipt X E d pt r nd) = (nd', r')" using e by simp
    with receipt_effect [of nd X E d pt r] s obtain h' entry nd1 where
      "fst (send_message_with_receipt X E d pt r nd) = Inr h'" "minor nd nd1" "path_get d (nd_paths (node_prune nd)) = Some entry"
      "nd' = nd1\<lparr>nd_pending_receipts := bt_insert h' (receipt_for entry nd) (nd_pending_receipts nd1)\<rparr>" by auto
    moreover from this have "h = h' \<and> rc = receipt_for entry nd" using g m [of nd1] by (simp add: bt_simps split: if_splits)
    ultimately show ?thesis using 2 nd' by (auto simp: prod_eq_iff)
  next
    case 3
    then obtain res where "send_resource X E lid d r nd = Some (res, nd', r')" using e by auto
    from send_resource_effect [OF this] s obtain nd1 t where "minor nd nd1" "nd' = nd1\<lparr>nd_outbound_resources := t\<rparr>" by blast
    then show ?thesis using g m [of nd1] by simp
  qed
qed

text \<open>A message sent with a receipt: the packet queued, sealed for the key of the route, and its hash.\<close>

lemma receipt_packet:
  assumes "send_message_with_receipt X E dh pt r nd = (Inr h, nd', r')"
    and "path_get dh (nd_paths (node_prune nd)) = Some entry"
  obtains q eph iv where "dest_hash q = dh" "data q = token_encrypt X (pe_public entry) pt eph iv" "h = full_packet_hash X q"
    "nd_outbound nd' = nd_outbound nd @ [(pe_interface entry, packet_encode q)]"
proof -
  obtain e r1 where e: "E r 32 = (e, r1)" by fastforce
  obtain iv r2 where iv: "E r1 16 = (iv, r2)" by fastforce
  have "\<not> (pe_hops entry > 1 \<and> pe_next_hop entry = None)"
  proof
    assume "pe_hops entry > 1 \<and> pe_next_hop entry = None"
    then have "fst (send_single_message X E dh pt r True nd) = Inl Unknown"
      using single_refused [of dh nd entry X E pt r True] assms(2) by blast
    then show False using assms(1) by (simp add: send_message_with_receipt_def case_prod_beta)
  qed
  from single_sent [OF assms(2) this e iv, of X pt] assms(1)
  have "h = full_packet_hash X (sent_packet X entry dh pt e iv)"
    "nd_outbound nd' = nd_outbound nd @ [(pe_interface entry, packet_encode (sent_packet X entry dh pt e iv))]"
    by (auto simp: send_message_with_receipt_def node_prune_eq push_out_def)
  moreover have "dest_hash (sent_packet X entry dh pt e iv) = dh"
    "data (sent_packet X entry dh pt e iv) = token_encrypt X (pe_public entry) pt e iv"
    by (simp_all add: sent_packet_def data_single_def data_for_def new_header1_def)
  ultimately show thesis using that by blast
qed

section \<open>Outbound resources\<close>

lemma exec_expects:
  assumes e: "node_exec X E op1 (nd, r) = Some (evs, nd', r')" and ok: "node_ok nd"
    and g: "expects (lid, h) x nd'" and n: "\<not> expects (lid, h) x nd"
  shows "\<exists>d. op1 = SendResource lid d \<and> send_resource X E lid d r nd = Some (Inr h, nd', r') \<and>
    x = resource_proof X d h \<and> (\<exists>rh. length rh = 4 \<and> h = resource_hash X d rh)"
proof -
  have m: "\<not> expects (lid, h) x nd1" if "minor nd nd1" for nd1
    using that n ok by (auto simp: minor_def maps_ok_def shrinks_def node_okD)
  then have s: "\<not> minor nd nd'" using g by blast
  have same: "expects k y a = expects k y b" if "nd_outbound_resources a = nd_outbound_resources b" for k y a b
    using that by (simp add: expects_def)
  from exec_minor [OF e] s consider bs i b where "op1 = Receive bs i b" | d pt where "op1 = SendMessage d pt True"
    | l d where "op1 = SendResource l d" by blast
  then show ?thesis
  proof cases
    case op: 1
    have i: "\<not> expects (lid, h) x (fst (snd (handle_inbound_inner X F bs i rng nd)))" for F :: "'x entropy" and rng
      using inbound_minor [of nd X F bs i rng]
    proof (elim disjE exE conjE)
      fix p assume p: "packet_type p = ANNOUNCE" "fst (snd (handle_inbound_inner X F bs i rng nd)) =
        snd (handle_announce X (p\<lparr>hops := sat_add (hops p) 1\<rparr>) (dest_hash p) i (noted (packet_hash X p) nd))"
      then show ?thesis
        using n same announce_effect(4) [of "p\<lparr>hops := sat_add (hops p) 1\<rparr>" X i "noted (packet_hash X p) nd"]
        by (simp add: expects_def)
    qed (rule m)
    from e [unfolded op] have False
    proof (cases rule: receive_cases)
      case 1
      then show ?thesis using i [of E "Some r"] g by simp
    next
      case 2
      then show ?thesis using i [of seeded_fill None] g by simp
    qed
    then show ?thesis ..
  next
    case 2
    then have nd': "snd (send_message_with_receipt X E d pt r nd) = (nd', r')" using e by simp
    with receipt_effect [of nd X E d pt r] s obtain nd1 t where "minor nd nd1" "nd' = nd1\<lparr>nd_pending_receipts := t\<rparr>" by auto
    then show ?thesis using g m [of nd1] by (simp add: expects_def)
  next
    case 3
    then obtain res where res: "send_resource X E l d r nd = Some (res, nd', r')" using e by auto
    from send_resource_effect [OF this] s obtain key ob adv r1 nd1 where
      ob: "outbound_new X E d key r (nd_clock nd) = Some (Inr (ob, adv), r1)" "res = Inr (ob_hash ob)" and
      nd1: "minor nd nd1" "nd' = nd1\<lparr>nd_outbound_resources := bt_insert (l, ob_hash ob) ob (nd_outbound_resources nd1)\<rparr>" by blast
    have k: "(lid, h) = (l, ob_hash ob) \<and> x = ob_expected_proof ob"
      using g m [OF nd1(1)] nd1(2) by (auto simp: expects_def bt_simps split: if_splits)
    have new: "ob_hash ob = resource_hash X d (ob_random_hash ob)" "ob_expected_proof ob = resource_proof X d (ob_hash ob)"
      "length (ob_random_hash ob) = 4"
      by (rule outbound_new_result [OF ob(1)], assumption)+
    then show ?thesis using 3 res ob(2) k by auto
  qed
qed

end
