(* ===== verification/Node_Properties.thy ===== *)
theory Node_Properties
  imports Node_Discovery Node_History Resource_Properties
begin

text \<open>
  The properties of a node: what holds in every state it can reach, what it accepts and refuses, why it
  reports what it reports, and what two nodes achieve together. The witnesses run two demo nodes.
\<close>

section \<open>Demo nodes to witness the properties\<close>

definition demo_identity :: identity where "demo_identity = from_private_bytes [1] [2]"

definition demo_dest :: bytes where
  "demo_dest = fst (register_single_destination toy_ext [97] [] (node_with_clock demo_identity 5))"

text \<open>The receiver has one SINGLE destination and proves deliveries; the sender knows a route to it.\<close>

definition demo_receiver :: node where
  "demo_receiver = snd (set_prove demo_dest True
     (snd (register_single_destination toy_ext [97] [] (node_with_clock demo_identity 5))))"

definition demo_route :: path_entry where
  "demo_route = announced_route toy_ext demo_identity [] 3 5"

definition demo_sender :: node where
  "demo_sender = (node_with_clock (from_private_bytes [3] [4]) 5)\<lparr>nd_paths := [(demo_dest, demo_route)]\<rparr>"

lemma demo_dest_length: "length demo_dest = 16"
  using crypto_okD(1) [OF toy_ok] by (simp add: demo_dest_def register_single_destination_def Let_def)

lemma demo_reach: "node_reach toy_ext zeros demo_receiver"
proof -
  let ?a = "node_with_clock demo_identity 5"
  let ?b = "snd (register_single_destination toy_ext [97] [] ?a)"
  have 1: "node_exec toy_ext zeros (RegisterSingle [97] []) (?a, ()) = Some ([], ?b, ())" by simp
  have 2: "node_exec toy_ext zeros (SetProve demo_dest True) (?b, ()) = Some ([], demo_receiver, ())"
    by (simp add: demo_receiver_def)
  have "node_run toy_ext zeros (?a, ()) ([] @ [] @ []) (demo_receiver, ())"
    by (rule node_run.step [OF 1 node_run.step [OF 2 node_run.refl]])
  then show ?thesis unfolding node_reach_def by blast
qed

lemma demo_receiver_ok: "node_ok demo_receiver"
  by (rule node_reach_ok [OF crypto_okD(4) [OF toy_ok] demo_reach])

lemma demo_receiver_simps:
  "nd_locals demo_receiver = [\<lparr>ld_name_hash = name_hash toy_ext [97] [], ld_dest_hash = demo_dest, ld_kind = Single True\<rparr>]"
  "nd_links demo_receiver = []" "nd_seen_packets demo_receiver = []" "nd_identity demo_receiver = demo_identity"
  "nd_outbound demo_receiver = []" "nd_clock demo_receiver = 5" "nd_seen_path_requests demo_receiver = []"
  "nd_seen_announces demo_receiver = []" "nd_paths demo_receiver = []"
  "nd_inbound_resources demo_receiver = []"
  by (simp_all add: demo_receiver_def demo_dest_def register_single_destination_def set_prove_def find_local_def
      push_local_def node_with_clock_def Let_def path_new_def)

lemma demo_receiver_find: "find_local demo_dest demo_receiver =
    Some \<lparr>ld_name_hash = name_hash toy_ext [97] [], ld_dest_hash = demo_dest, ld_kind = Single True\<rparr>"
  by (simp add: find_local_def demo_receiver_simps)

lemma demo_sender_simps:
  "path_get demo_dest (nd_paths demo_sender) = Some demo_route" "nd_clock demo_sender = 5"
  "nd_links demo_sender = []" "nd_seen_packets demo_sender = []" "nd_outbound demo_sender = []"
  "pe_public demo_route = id_public toy_ext demo_identity" "pe_hops demo_route = 1" "pe_interface demo_route = 3"
  "5 < pe_expires_at demo_route"
  by (simp_all add: demo_sender_def demo_route_def announced_route_def path_get_def bt_get_def node_with_clock_def
      less_sat_add PATH_EXPIRY_SECS_def)

lemma demo_sender_ok: "node_ok demo_sender"
  unfolding demo_sender_def by (rule node_ok_maps(1)) (simp_all add: bt_ok_def bt_keys_def)

text \<open>A node with an active link, and a node that knows nothing.\<close>

definition demo_link :: link_entry where
  "demo_link = \<lparr>le_status = Active, le_initiator = True,
     le_ephemeral = ephemeral_from_private_bytes toy_ext [5] [6], le_peer_x25519_pub = None,
     le_destination_public = Some (id_public toy_ext demo_identity),
     le_derived_key = Some (replicate 64 0), le_interface = 2, le_last_activity = 5, le_last_keepalive = 5\<rparr>"

definition demo_linked :: node where
  "demo_linked = demo_receiver\<lparr>nd_links := [(replicate 16 0, demo_link)]\<rparr>"

definition demo_fresh :: node where "demo_fresh = node_with_clock (from_private_bytes [3] [4]) 5"

lemma demo_linked_get: "links_get (replicate 16 0) (nd_links demo_linked) = Some demo_link"
  by (simp add: demo_linked_def links_get_def bt_get_def)

lemma demo_linked_ok: "node_ok demo_linked"
  unfolding demo_linked_def
  by (rule node_ok_links [OF demo_receiver_ok])
    (auto simp: links_get_def bt_get_def bt_ok_def bt_keys_def link_ok_def demo_link_def split: if_splits)

lemma demo_linked_simps: "nd_seen_packets demo_linked = []" "nd_clock demo_linked = 5" "nd_outbound demo_linked = []"
  by (simp_all add: demo_linked_def demo_receiver_simps)

lemma demo_fresh_simps: "node_ok demo_fresh" "nd_locals demo_fresh = []" "nd_seen_packets demo_fresh = []"
  "nd_seen_announces demo_fresh = []" "path_get dh (nd_paths demo_fresh) = None" "nd_clock demo_fresh = 5"
  "nd_outbound demo_fresh = []" "nd_interfaces demo_fresh = []" "\<not> nd_transport_enabled demo_fresh"
  unfolding demo_fresh_def by (rule node_fresh_ok) (simp_all add: node_with_clock_def path_new_def path_get_def bt_get_def)

lemma nothing_seen [simp]: "nd_seen_packets nd = [] \<Longrightarrow> unseen X bs nd"
  by (simp add: unseen_def bt_contains_def bt_get_def split: sum.split)

section \<open>Demo nodes that have run\<close>

lemma run_snoc:
  "node_run X E s evs s' \<Longrightarrow> node_exec X E op1 s' = Some (evs1, s'') \<Longrightarrow> node_run X E s (evs @ evs1) s''"
proof (induction rule: node_run.induct)
  case (refl s)
  then show ?case using node_run.step [OF refl node_run.refl] by simp
next
  case (step op2 s evs s' evs' s1)
  then show ?case using node_run.step [OF step.hyps(1)] by simp
qed

lemma demo_step:
  assumes "node_reach toy_ext zeros nd" and "node_exec toy_ext zeros op1 (nd, ()) = Some (evs, nd', u)"
  shows "node_reach toy_ext zeros nd'"
  using assms run_snoc [of toy_ext zeros _ _ "(nd, ())" op1 evs "(nd', u)"] unfolding node_reach_def by fastforce

lemma demo_receive:
  assumes "node_reach toy_ext zeros nd"
  shows "node_reach toy_ext zeros (fst (snd (handle_inbound_inner toy_ext zeros bs i (Some ()) nd)))"
  using demo_step [OF assms, of "Receive bs i True"] by (simp add: handle_inbound_with_entropy_def case_prod_beta)

text \<open>Packets of different kinds have different toy hashes: the first byte tells them apart.\<close>

lemma toy_hash_kind:
  "packet_hash toy_ext p = packet_hash toy_ext q \<Longrightarrow> hd (hashable_part p) = hd (hashable_part q)"
  by (simp add: packet_hash_def full_packet_hash_def full_hash_def toy_ext_def fit_def hashable_part_def)

lemma unseen_after:
  assumes "nd_seen_packets nd = []" "packet_ok p" "packet_ok q" "hops p < PATHFINDER_MAX_HOPS"
    and "hd (hashable_part p) \<noteq> hd (hashable_part q)" "node_ok nd"
  shows "unseen toy_ext (packet_encode q) (fst (snd (handle_inbound_inner toy_ext E (packet_encode p) i rng nd)))"
proof -
  let ?n = "noted (packet_hash toy_ext p) nd"
  have "handle_inbound_inner toy_ext E (packet_encode p) i rng nd = dispatch toy_ext E (p\<lparr>hops := sat_add (hops p) 1\<rparr>) i rng ?n"
    by (rule inbound_encoded [OF assms(2,4,6)]) (simp add: assms(1))
  then have "nd_seen_packets (fst (snd (handle_inbound_inner toy_ext E (packet_encode p) i rng nd))) = nd_seen_packets ?n"
    by (metis keeps_seen keeps_dispatch keeps_refl)
  moreover have "\<not> bt_contains (packet_hash toy_ext q) (nd_seen_packets ?n)"
    using assms(1,5) toy_hash_kind [of q p]
    by (auto simp: noted_def bt_contains_def bt_simps maybe_prune_def bt_retain_def bt_get_def)
  ultimately show ?thesis using assms(3) by (simp add: unseen_encoded)
qed

lemma receipt_sent:
  assumes "sha_ok X" and p: "path_get dh (nd_paths (node_prune nd)) = Some entry" "\<not> (pe_hops entry > 1 \<and> pe_next_hop entry = None)"
  shows "\<exists>h n2 r2. send_message_with_receipt X E dh pt r nd = (Inr h, n2, r2) \<and>
    bt_get h (nd_pending_receipts n2) = Some (receipt_for entry nd) \<and> nd_seen_packets n2 = nd_seen_packets nd \<and> length h = 32"
proof -
  obtain e r1 where e: "E r 32 = (e, r1)" by fastforce
  obtain iv r2 where iv: "E r1 16 = (iv, r2)" by fastforce
  show ?thesis
    using single_sent [OF p e iv, of X pt] assms(1)
    by (simp add: send_message_with_receipt_def bt_simps node_prune_eq full_packet_hash_def)
qed

text \<open>A node reached with an active link: the receiver after a link request.\<close>

lemma link_request_inbound:
  "nd_inbound_resources (fst (snd (handle_link_request X E p dh i r nd))) = nd_inbound_resources nd"
  by (simp add: handle_link_request_def Let_def case_prod_beta split: sum.split)

lemma demo_live:
  obtains nd lid key where "node_reach toy_ext zeros nd" "live_link lid 1 key nd" "length lid = 16"
    "\<And>pt dt c d. dt = LINK \<Longrightarrow> pt \<le> 3 \<Longrightarrow> unseen toy_ext (packet_encode (new_header1 dt pt lid c d)) nd"
    "nd_inbound_resources nd = []"
proof -
  let ?eph = "ephemeral_from_private_bytes toy_ext [5] [6]"
  let ?q = "link_request demo_dest (link_request_payload ?eph)"
  let ?lid = "link_id_from_request toy_ext ?q"
  let ?nd = "fst (snd (handle_inbound_inner toy_ext zeros (packet_encode ?q) 1 (Some ()) demo_receiver))"
  obtain evs nd' s' where h: "handle_inbound_inner toy_ext zeros (packet_encode ?q) 1 (Some ()) demo_receiver = (evs, nd', s')"
    by (metis prod_cases3)
  obtain key where k: "live_link ?lid 1 key nd'"
    by (rule request_answered [OF toy_ok demo_receiver_ok demo_dest_length _ _ _ HOL.refl HOL.refl _ _ h])
      (auto simp: demo_receiver_simps is_single_def links_get_def bt_get_def)
  have q: "packet_ok ?q" "hops ?q = 0"
    unfolding link_request_def by (rule new_header1_ok) (simp_all add: demo_dest_length packet_consts)
  have len: "length ?lid = 16" using crypto_okD(1) [OF toy_ok] by simp
  have u: "unseen toy_ext (packet_encode (new_header1 dt pt ?lid c d)) nd'" if "dt = LINK" "pt \<le> 3" for dt pt c d
  proof -
    have "packet_ok (new_header1 dt pt ?lid c d)" using that len by (intro new_header1_ok) (simp_all add: dest_types)
    moreover have "hd (hashable_part ?q) \<noteq> hd (hashable_part (new_header1 dt pt ?lid c d))"
    proof -
      have "hd (hashable_part ?q) = 2" by (simp add: hashable_part_def link_request_def low2_def packet_consts)
      moreover have "hd (hashable_part (new_header1 dt pt ?lid c d)) = 12 OR pt"
        using that low2_id [OF that(2)] by (simp add: hashable_part_def low2_def dest_types)
      moreover have "bit (12 OR pt) 3" by (simp add: bit_simps)
      moreover have "\<not> bit (2 :: u8) 3" by simp
      ultimately show ?thesis by auto
    qed
    ultimately show ?thesis
      using unseen_after [of demo_receiver ?q "new_header1 dt pt ?lid c d" zeros 1 "Some ()"] q h
      by (simp add: demo_receiver_simps demo_receiver_ok PATHFINDER_MAX_HOPS_def)
  qed
  have d: "handle_inbound_inner toy_ext zeros (packet_encode ?q) 1 (Some ()) demo_receiver =
      dispatch toy_ext zeros (?q\<lparr>hops := sat_add (hops ?q) 1\<rparr>) 1 (Some ()) (noted (packet_hash toy_ext ?q) demo_receiver)"
    by (rule inbound_encoded [OF q(1) _ demo_receiver_ok]) (simp_all add: q(2) PATHFINDER_MAX_HOPS_def demo_receiver_simps)
  have "nd_inbound_resources (fst (snd (dispatch toy_ext zeros (?q\<lparr>hops := sat_add (hops ?q) 1\<rparr>) 1 (Some ())
      (noted (packet_hash toy_ext ?q) demo_receiver)))) = nd_inbound_resources demo_receiver"
    by (simp add: dispatch_def link_request_def packet_consts try_array_def demo_dest_length case_prod_beta link_request_inbound)
  then have "nd_inbound_resources nd' = []" unfolding d [symmetric] h by (simp add: demo_receiver_simps)
  moreover have "node_reach toy_ext zeros nd'" using demo_receive [OF demo_reach, of "packet_encode ?q" 1] h by simp
  ultimately show thesis using that k len u by blast
qed

text \<open>The same node after it has sent a resource over the link.\<close>

lemma demo_sending:
  obtains nd lid key ob where "node_reach toy_ext zeros nd" "live_link lid 1 key nd" "length lid = 16"
    "bt_get (lid, ob_hash ob) (nd_outbound_resources nd) = Some ob"
    "length (ob_hash ob) = 32" "length (ob_expected_proof ob) = 32"
    "\<And>pt dt c d. dt = LINK \<Longrightarrow> pt \<le> 3 \<Longrightarrow> unseen toy_ext (packet_encode (new_header1 dt pt lid c d)) nd"
    "nd_inbound_resources nd = []"
proof -
  obtain nd lid key where d: "node_reach toy_ext zeros nd" "live_link lid 1 key nd" "length lid = 16"
    "\<And>pt dt c d. dt = LINK \<Longrightarrow> pt \<le> 3 \<Longrightarrow> unseen toy_ext (packet_encode (new_header1 dt pt lid c d)) nd" "nd_inbound_resources nd = []"
    by (rule demo_live) blast
  obtain ob adv where o: "outbound_new toy_ext zeros [7, 8, 9] key () (nd_clock nd) = Some (Inr (ob, adv), ())"
    using single_part_sent [of toy_ext "[7, 8, 9]" key "nd_clock nd"] crypto_okD(5) [OF toy_ok] by (auto simp: toy_ext_def)
  let ?nd = "nd\<lparr>nd_outbound_resources := bt_insert (lid, ob_hash ob) ob (nd_outbound_resources nd)\<rparr>"
  let ?nd' = "fst (enqueue_encrypted_link_context toy_ext zeros lid 1 RESOURCE_ADV adv key () ?nd)"
  have s: "send_resource toy_ext zeros lid [7, 8, 9] () nd = Some (Inr (ob_hash ob), ?nd', ())"
    using d(2) o by (auto simp: send_resource_def active_key_def live_link_def Let_def case_prod_beta)
  then have r: "node_reach toy_ext zeros ?nd'" using demo_step [OF d(1), of "SendResource lid [7, 8, 9]"] by simp
  have g: "bt_get (lid, ob_hash ob) (nd_outbound_resources ?nd') = Some ob" "nd_seen_packets ?nd' = nd_seen_packets nd"
    by (simp_all add: enqueue_encrypted_link_context_def case_prod_beta bt_simps)
  have live: "live_link lid 1 key ?nd'" using d(2) by (simp add: live_link_def enqueue_encrypted_link_context_def case_prod_beta)
  have "ob_hash ob = resource_hash toy_ext [7, 8, 9] (ob_random_hash ob)"
    "ob_expected_proof ob = resource_proof toy_ext [7, 8, 9] (ob_hash ob)"
    by (rule outbound_new_result [OF o], assumption)+
  then have len: "length (ob_hash ob) = 32" "length (ob_expected_proof ob) = 32"
    using crypto_okD(1) [OF toy_ok] by (simp_all add: resource_hash_def resource_proof_def)
  have u: "unseen toy_ext (packet_encode (new_header1 dt pt lid c d)) ?nd'" if "dt = LINK" "pt \<le> 3" for pt dt c d
    using d(4) [OF that, of c d] g(2) by (simp add: unseen_def split: sum.splits)
  have "nd_inbound_resources ?nd' = []" using d(5) by (simp add: enqueue_encrypted_link_context_def case_prod_beta)
  then show thesis using that [OF r live d(3) g(1) len u] by blast
qed

section \<open>What is refused\<close>

text \<open>C7: A packet is processed once: after a packet was accepted, whatever the node does and receives
  in the meantime, a packet with the same hash (a relay may have changed its header) that arrives within
  60 seconds causes no event, draws no entropy and changes nothing but the sweep of expired entries in
  the duplicate-detection maps.\<close>

theorem duplicates_suppressed:
  assumes "node_ok nd" and "packet_decode bs = Inr p" "hops p < PATHFINDER_MAX_HOPS"
    and "\<not> bt_contains (packet_hash X p) (nd_seen_packets nd)"
    and "handle_inbound_with_entropy X E bs i r nd = (evs, nd1, r1)"
    and "node_run X E (nd1, r1) evs' (nd2, r2)"
    and "nd_clock nd2 < sat_add (nd_clock nd) PACKET_HASH_TTL_SECS"
    and "packet_decode bs' = Inr q" "packet_hash X q = packet_hash X p"
  shows "handle_inbound_with_entropy X E bs' j r2 nd2 \<in> {([], nd2, r2), ([], maybe_prune (nd_clock nd2) nd2, r2)}"
proof -
  let ?h = "packet_hash X p" and ?t = "sat_add (nd_clock nd) PACKET_HASH_TTL_SECS"
  have bs: "bs = packet_encode p" using packet_decode_bytes [OF assms(2)] by simp
  have "nd1 = fst (snd (dispatch X E (p\<lparr>hops := sat_add (hops p) 1\<rparr>) i (Some r) (noted ?h nd)))"
    using assms(5) inbound_encoded [OF packet_decode_ok [OF assms(2)] assms(3) assms(1), of X E i "Some r"] assms(4)
    by (simp add: bs handle_inbound_with_entropy_def unseen_encoded [OF packet_decode_ok [OF assms(2)]] case_prod_beta)
  then have "nd_seen_packets nd1 = nd_seen_packets (noted ?h nd)"
    using keeps_seen [of "noted ?h nd" nd1] by simp
  then have "seen_until ?t ?h nd1"
    using noted_seen [of nd ?h] node_okD(5) [OF assms(1)] by (simp add: seen_until_def)
  then have "seen_until ?t ?h nd2" using run_seen [OF assms(6), of ?t ?h] assms(7) by simp
  then have "bt_contains ?h (nd_seen_packets (maybe_prune (nd_clock nd2) nd2))"
    using seen_prune [of ?t ?h nd2] assms(7) by (auto simp: seen_until_def bt_contains_def)
  then show ?thesis
    using assms(8,9) by (simp add: handle_inbound_with_entropy_def handle_inbound_inner_eq)
qed

theorem duplicates_suppressed_witness:
  "(case handle_inbound_with_entropy toy_ext zeros (packet_encode (data_single demo_dest [9])) 1 () demo_receiver of
     (_, nd1, _) \<Rightarrow> fst (handle_inbound_with_entropy toy_ext zeros
       (packet_encode ((data_single demo_dest [9])\<lparr>hops := 3\<rparr>)) 2 () nd1)) = []"
proof -
  let ?p = "data_single demo_dest [9]"
  have p: "packet_ok ?p" "packet_ok (?p\<lparr>hops := 3\<rparr>)" "hops ?p = 0"
    by (simp_all add: packet_ok_def data_single_def data_for_def new_header1_def demo_dest_length packet_consts)
  obtain evs nd1 where h: "handle_inbound_with_entropy toy_ext zeros (packet_encode ?p) 1 () demo_receiver = (evs, nd1, ())"
    by (metis prod_cases3 unit.exhaust)
  have "nd1 = fst (snd (handle_inbound_inner toy_ext zeros (packet_encode ?p) 1 (Some ()) demo_receiver))"
    using h by (simp add: handle_inbound_with_entropy_def case_prod_beta)
  then have c: "nd_clock nd1 = 5" by (simp add: demo_receiver_simps)
  show ?thesis
    using duplicates_suppressed [OF demo_receiver_ok packet_decode_encode [OF p(1)] _ _ h node_run.refl,
        of "packet_encode (?p\<lparr>hops := 3\<rparr>)" "?p\<lparr>hops := 3\<rparr>" 2] p(3) c packet_decode_encode [OF p(2)] h
    by (auto simp: demo_receiver_simps PATHFINDER_MAX_HOPS_def PACKET_HASH_TTL_SECS_def sat_add_def
        bt_contains_def bt_get_def packet_hash_def full_packet_hash_def)
qed

text \<open>Bytes that are not a packet are ignored without a trace: too short for their header (19
  bytes, 35 with a transport identity) or already at the hop limit of 128, they cause no event, change
  nothing in the node and draw no entropy.\<close>

theorem garbage_ignored:
  assumes "length bs < 19 \<or> low1 (drop_bit 6 (bs ! 0)) = 1 \<and> length bs < 35 \<or> 128 \<le> bs ! 1"
  shows "handle_inbound_with_entropy X E bs i r nd = ([], nd, r) \<and> handle_inbound X bs i nd = ([], nd)"
proof -
  have "(\<exists>e. packet_decode bs = Inl e) \<or> (\<exists>p. packet_decode bs = Inr p \<and> PATHFINDER_MAX_HOPS \<le> hops p)"
  proof (cases "packet_decode bs")
    case (Inr p)
    have "length bs \<ge> (if low1 (drop_bit 6 (bs ! 0)) = 0 then 19 else 35)"
      using packet_decode_error [of bs Truncated] Inr by (auto split: if_splits)
    then have "128 \<le> bs ! 1" using assms by (auto split: if_splits)
    moreover have "hops p = bs ! 1"
      using packet_decode_bytes [OF Inr] by (simp add: packet_encode_def [of p, symmetric] flip: packet_decode_bytes [OF Inr])
        (simp add: packet_encode_def)
    ultimately show ?thesis using Inr by (simp add: PATHFINDER_MAX_HOPS_def)
  qed simp
  then show ?thesis
    by (auto simp: handle_inbound_with_entropy_def handle_inbound_def handle_inbound_inner_eq)
qed

theorem garbage_ignored_witness:
  "handle_inbound_with_entropy toy_ext zeros [0x40, 0] 1 () demo_receiver = ([], demo_receiver, ())"
  using garbage_ignored [of "[0x40, 0]" toy_ext zeros 1 "()" demo_receiver] by simp

text \<open>C23: Link data of a context other than RESOURCE and KEEPALIVE that reaches a node new and below the hop
  limit, on an active link over that link's interface, and does not carry the HMAC tag of the link's key, is
  rejected with an error event and changes nothing but the duplicate-detection maps: no data is reported,
  the link is not refreshed and no entropy is drawn. The two contexts left out are not sealed one by one: a
  resource part is checked by its map hash and, once all have arrived, under the tag and the hash of the
  whole; a keepalive is not authenticated.\<close>

theorem forged_link_data_rejected:
  assumes "node_ok nd" and "packet_decode bs = Inr p" "hops p < PATHFINDER_MAX_HOPS" "unseen X bs nd"
    and "packet_type p = DATA" "dest_type p = LINK" "ctx p \<noteq> RESOURCE" "ctx p \<noteq> KEEPALIVE"
    and "links_get (dest_hash p) (nd_links nd) = Some l" "le_status l = Active" "le_interface l = i"
      "le_derived_key l = Some key" "\<not> hmac_tag_ok X (take 32 key) (data p)"
  shows "\<exists>e. handle_inbound_inner X E bs i rng nd = ([Error (Core e)], noted (packet_hash X p) nd, rng)"
proof -
  have bs: "bs = packet_encode p" using packet_decode_bytes [OF assms(2)] by simp
  have len: "length (dest_hash p) = 16" using packet_decode_ok [OF assms(2)] by (simp add: packet_ok_def)
  obtain e where e: "open_with_key X key (data p) = Inl e"
    using open_with_key_tag [of X key "data p"] assms(13) by (cases "open_with_key X key (data p)") auto
  have "handle_inbound_inner X E bs i rng nd =
      dispatch X E (p\<lparr>hops := sat_add (hops p) 1\<rparr>) i rng (noted (packet_hash X p) nd)"
    unfolding bs by (rule inbound_encoded [OF packet_decode_ok [OF assms(2)] assms(3,1)]) (use assms(4) bs in simp)
  also have "\<dots> = handle_link_data X E (p\<lparr>hops := sat_add (hops p) 1\<rparr>) (dest_hash p) i rng (noted (packet_hash X p) nd)"
    using len assms(5,6) by (simp add: dispatch_def try_array_def packet_types dest_types)
  also have "\<dots> = ([Error (Core e)], noted (packet_hash X p) nd, rng)"
    using assms(7-12) e by (simp add: handle_link_data_def)
  finally show ?thesis by blast
qed

theorem forged_link_data_rejected_witness:
  "\<exists>e. handle_inbound_inner toy_ext zeros (packet_encode (link_data (replicate 16 0) [1, 2, 3])) 2 (Some ()) demo_linked =
     ([Error (Core e)], noted (packet_hash toy_ext (link_data (replicate 16 0) [1, 2, 3])) demo_linked, Some ())"
proof -
  let ?p = "link_data (replicate 16 0) [1, 2, 3]"
  have "packet_decode (packet_encode ?p) = Inr ?p"
    by (rule packet_decode_encode) (simp add: packet_ok_def link_data_def link_data_with_context_def new_header1_def packet_consts)
  then show ?thesis
    by (rule forged_link_data_rejected [OF demo_linked_ok, where l = demo_link and key = "replicate 64 0"])
      (simp_all add: link_data_def link_data_with_context_def demo_linked_get demo_linked_simps
        demo_link_def hmac_tag_ok_def packet_consts PATHFINDER_MAX_HOPS_def)
qed

section \<open>The states a node can reach\<close>

text \<open>C8: In every state a node can reach, through any operations and any received bytes, the
  interfaces are distinct, a link is pending only at its initiator, which knows the destination's
  identity and has no key yet, an active link has a key of 64 bytes, no link is left in the handshake
  state, every resource is filed under its own hash, and an inbound resource's window is between 2
  and 75.\<close>

theorem reachable_node_wellformed:
  assumes "hkdf_ok X" and "node_reach X E nd"
  shows "distinct (nd_interfaces nd) \<and>
    (\<forall>i l. links_get i (nd_links nd) = Some l \<longrightarrow> le_status l \<noteq> Handshake \<and>
      (le_status l = Pending \<longrightarrow> le_initiator l \<and> le_destination_public l \<noteq> None \<and> le_derived_key l = None) \<and>
      (le_status l = Active \<longrightarrow> (\<exists>k. le_derived_key l = Some k \<and> length k = 64))) \<and>
    (\<forall>i h ib. bt_get (i, h) (nd_inbound_resources nd) = Some ib \<longrightarrow> ib_hash ib = h \<and> 2 \<le> ib_window ib \<and> ib_window ib \<le> 75) \<and>
    (\<forall>i h ob. bt_get (i, h) (nd_outbound_resources nd) = Some ob \<longrightarrow> ob_hash ob = h \<and> \<not> ob_completed ob)"
proof -
  have ok: "node_ok nd" by (rule node_reach_ok [OF assms])
  have w: "ib_ok ib \<Longrightarrow> 2 \<le> ib_window ib \<and> ib_window ib \<le> 75" for ib by (auto simp: ib_ok_def WINDOW_MIN_def WINDOW_MAX_def)
  have l: "link_ok l" if "links_get i (nd_links nd) = Some l" for i l by (rule node_okD(11) [OF ok that])
  have ib: "ib_hash b = h \<and> 2 \<le> ib_window b \<and> ib_window b \<le> 75" if "bt_get (i, h) (nd_inbound_resources nd) = Some b" for i h b
    using node_okD(12) [OF ok that] w by simp
  have ob: "ob_hash b = h \<and> \<not> ob_completed b" if "bt_get (i, h) (nd_outbound_resources nd) = Some b" for i h b
    using node_okD(13) [OF ok that] by simp
  show ?thesis using node_okD(1) [OF ok] l ib ob by (auto simp: link_ok_def)
qed

text \<open>A reached node with an active link and an outbound resource.\<close>

theorem reachable_node_wellformed_witness:
  "\<exists>nd lid l k h ob. node_reach toy_ext zeros nd \<and> links_get lid (nd_links nd) = Some l \<and>
     le_status l = Active \<and> le_derived_key l = Some k \<and> length k = 64 \<and>
     bt_get (lid, h) (nd_outbound_resources nd) = Some ob \<and> ob_hash ob = h \<and> \<not> ob_completed ob"
proof -
  obtain nd lid key ob where d: "node_reach toy_ext zeros nd" "live_link lid 1 key nd"
    "bt_get (lid, ob_hash ob) (nd_outbound_resources nd) = Some ob" by (rule demo_sending) blast
  obtain l where "links_get lid (nd_links nd) = Some l" "le_status l = Active" using d(2) by (auto simp: live_link_def)
  with d(1,3) reachable_node_wellformed [OF crypto_okD(4) [OF toy_ok] d(1)] show ?thesis by blast
qed

text \<open>C19: Links only move forward: no operation and no received packet forgets a link, reopens a closed
  one, takes an active one back to pending, or changes the key, the interface or the role of an
  active one; only establishing a link whose request hashes to the same id replaces it.\<close>

theorem links_move_forward:
  assumes "node_exec X E op1 (nd, r) = Some (evs, nd', r')" and "links_get i (nd_links nd) = Some l"
    and "\<forall>dh. op1 = Establish dh \<longrightarrow> fst (establish_link X E dh r nd) \<noteq> Inr i"
  shows "\<exists>l'. links_get i (nd_links nd') = Some l' \<and>
    (le_status l = Closed \<longrightarrow> le_status l' = Closed) \<and>
    (le_status l = Active \<longrightarrow> le_status l' \<in> {Active, Closed} \<and> le_derived_key l' = le_derived_key l) \<and>
    le_initiator l' = le_initiator l \<and> le_interface l' = le_interface l"
proof -
  obtain l' where l': "links_get i (nd_links nd') = Some l'" "link_le l l'"
    using exec_links [OF assms(1,2)] assms(3) by blast
  then show ?thesis
    by (cases "le_status l'") (auto simp: link_le_def)
qed

theorem links_move_forward_witness:
  "\<exists>l'. links_get (replicate 16 0) (nd_links (close_link (replicate 16 0) demo_linked)) = Some l' \<and>
     le_derived_key l' = Some (replicate 64 0)"
  using links_move_forward [of toy_ext zeros "CloseLink (replicate 16 0)" demo_linked "()" "[]"
      "close_link (replicate 16 0) demo_linked" "()" "replicate 16 0" demo_link]
  by (auto simp: demo_linked_get demo_link_def)

text \<open>C18: Routes come from announces only: if an operation makes the node know a route it did not know,
  the operation was the receipt of an announce of that address, within the hop limit, for an address
  that is not local, whose signature by the key it carries verifies; the route then carries that key,
  the interface of arrival, one hop more than the packet, and expires a week later.\<close>

theorem routes_only_from_announces:
  assumes "node_ok nd" and "node_exec X E op1 (nd, r) = Some (evs, nd', r')"
    and "path_get dh (nd_paths nd') = Some e" and "path_get dh (nd_paths nd) \<noteq> Some e"
  shows "\<exists>bs i b p a. op1 = Receive bs i b \<and> packet_decode bs = Inr p \<and> hops p < 128 \<and>
    packet_type p = ANNOUNCE \<and> dest_hash p = dh \<and> (\<forall>l \<in> set (nd_locals nd). ld_dest_hash l \<noteq> dh) \<and>
    announce_parse (data p) (context_flag p) = Inr a \<and> announce_verify X a dh = Inr () \<and>
    pub_from_bytes (an_public a) = Inr (pe_public e) \<and> pe_interface e = i \<and> pe_hops e = sat_add (hops p) 1 \<and>
    pe_expires_at e = sat_add (nd_clock nd) 604800"
proof -
  obtain bs i b p where "op1 = Receive bs i b" "packet_decode bs = Inr p" "hops p < PATHFINDER_MAX_HOPS"
    "route_due X (p\<lparr>hops := sat_add (hops p) 1\<rparr>) i nd dh e"
    using exec_routes [OF assms(2,1,3,4)] by blast
  then show ?thesis by (auto simp: route_due_def PATHFINDER_MAX_HOPS_def PATH_EXPIRY_SECS_def)
qed


theorem routes_only_from_announces_witness:
  "\<exists>bs e p. path_get demo_dest (nd_paths (fst (snd (handle_inbound_inner toy_ext zeros bs 1 (Some ()) demo_fresh)))) = Some e \<and>
     packet_decode bs = Inr p \<and> packet_type p = ANNOUNCE \<and> pe_interface e = 1"
proof -
  let ?bs = "packet_encode (new_header1 SINGLE ANNOUNCE demo_dest 0
    (to_payload (announce_build toy_ext demo_identity demo_dest (replicate 10 0) (replicate 10 0) [])))"
  obtain evs nd' where h: "handle_inbound_with_entropy toy_ext zeros ?bs 1 () demo_fresh = (evs, nd', ())"
    by (metis prod_cases3 unit.exhaust)
  have nd': "nd' = fst (snd (handle_inbound_inner toy_ext zeros ?bs 1 (Some ()) demo_fresh))"
    using h by (simp add: handle_inbound_with_entropy_def case_prod_beta)
  have e: "path_get demo_dest (nd_paths nd') = Some (announced_route toy_ext demo_identity (replicate 10 0) 1 5)"
    using announce_received(2) [OF toy_ok demo_fresh_simps(1) _ _ demo_dest_length HOL.refl,
        of "replicate 10 0" "replicate 10 0" 0 demo_identity "[]" zeros 1 "Some ()"]
    by (simp add: nd' demo_fresh_simps bt_contains_def bt_get_def route_open_def)
  have "node_exec toy_ext zeros (Receive ?bs 1 True) (demo_fresh, ()) = Some (evs, nd', ())" using h by simp
  from routes_only_from_announces [OF demo_fresh_simps(1) this e] show ?thesis
    using e nd' by (auto simp: demo_fresh_simps)
qed

text \<open>An announce is not bound to its address: for any address that is not local to the receiver,
  any identity can build an announce that every node accepts (unless it knows a route of one hop),
  after which the node's route holds that identity's key, and what is encrypted along the route
  decrypts with that identity's private keys.\<close>

theorem announce_hijack:
  assumes "crypto_ok X" "node_ok nd" and "length nh = 10" "length rh = 10" "length dh = 16"
    and "bs = packet_encode (packet_announce dh (to_payload (announce_build X mallory dh nh rh app)))"
    and "unseen X bs nd" "\<forall>l \<in> set (nd_locals nd). ld_dest_hash l \<noteq> dh"
    and "\<not> bt_contains (dh, rh) (nd_seen_announces nd)"
    and "\<forall>e. path_get dh (nd_paths nd) = Some e \<longrightarrow> 1 < pe_hops e \<or> pe_expires_at e \<le> nd_clock nd"
  shows "fst (handle_inbound_inner X E bs i rng nd) = [Announce dh 1] \<and>
    (\<exists>e. path_get dh (nd_paths (fst (snd (handle_inbound_inner X E bs i rng nd)))) = Some e \<and>
      pe_public e = id_public X mallory \<and>
      (\<forall>pt eph iv. length iv = 16 \<longrightarrow> token_decrypt X mallory (token_encrypt X (pe_public e) pt eph iv) = Inr pt))"
proof -
  have o: "route_open dh nd" using assms(10) by (auto simp: route_open_def split: option.split)
  have b: "bs = packet_encode (new_header1 SINGLE ANNOUNCE dh 0 (to_payload (announce_build X mallory dh nh rh app)))"
    using assms(6) by (simp add: packet_announce_header1)
  show ?thesis
    using announce_received [OF assms(1-5) b assms(7-9) o, of E i rng] token_decrypt_encrypt [OF assms(1)]
    by (simp add: announced_route_def)
qed

theorem announce_hijack_witness:
  "\<exists>bs e. fst (handle_inbound_inner toy_ext zeros bs 1 None demo_fresh) = [Announce demo_dest 1] \<and>
     path_get demo_dest (nd_paths (fst (snd (handle_inbound_inner toy_ext zeros bs 1 None demo_fresh)))) = Some e \<and>
     pe_public e = id_public toy_ext (from_private_bytes [9] [9])"
  using announce_hijack [OF toy_ok demo_fresh_simps(1) _ _ demo_dest_length HOL.refl,
      of "replicate 10 0" "replicate 10 0" "from_private_bytes [9] [9]" "[]" zeros 1 None]
  by (auto simp: demo_fresh_simps bt_contains_def bt_get_def)

section \<open>Why events are reported\<close>

text \<open>The packet behind an event of a node whose pending events are closures and failures.\<close>

lemma inbound_cause:
  assumes "quiet nd" and "ev \<in> set (fst (handle_inbound_inner X F bs i rng nd))"
    and "\<not> minor_event ev" "\<forall>dh n. ev \<noteq> Announce dh n"
  obtains p where "packet_decode bs = Inr p" "hops p < PATHFINDER_MAX_HOPS"
    "\<not> bt_contains (packet_hash X p) (nd_seen_packets (maybe_prune (nd_clock nd) nd))"
    "event_due X p i nd ev"
proof -
  obtain p where p: "packet_decode bs = Inr p" "hops p < PATHFINDER_MAX_HOPS"
    "\<not> bt_contains (packet_hash X p) (nd_seen_packets (maybe_prune (nd_clock nd) nd))"
    "event_due X (p\<lparr>hops := sat_add (hops p) 1\<rparr>) i nd ev"
    using inbound_events [OF assms(2)] assms(1,3) by (auto simp: quiet_def)
  have "event_due X p i nd ev"
    using p(4) assms(4) unfolding event_due_hops by (simp split: event.splits)
  then show thesis using that p(1-3) by blast
qed

text \<open>C10: A message is reported only for a packet that arrived for that local address, not seen
  before, and whose contents decrypt, with the node's own identity (and the authentication tag of the
  key agreed with the sender's ephemeral key) for a SINGLE destination, with the group's key and its
  tag for a GROUP, and are reported as they are only for a PLAIN one.\<close>

theorem message_event_justified:
  assumes "node_reach X E nd" and "Message dh pt \<in> set (fst (handle_inbound_inner X F bs i rng nd))"
  shows "\<exists>p l. packet_decode bs = Inr p \<and> packet_type p = DATA \<and> dest_hash p = dh \<and>
    \<not> bt_contains (packet_hash X p) (nd_seen_packets (maybe_prune (nd_clock nd) nd)) \<and>
    find_local dh nd = Some l \<and>
    (case ld_kind l of
       Single _ \<Rightarrow> dest_type p = SINGLE \<and> token_decrypt X (nd_identity nd) (data p) = Inr pt \<and>
         hmac_tag_ok X (fst (derive_keys X (id_diffie_hellman X (nd_identity nd) (take 32 (data p)))
           (id_hash X (nd_identity nd)))) (drop 32 (data p))
     | Group key \<Rightarrow> dest_type p = GROUP \<and> open_with_key X key (data p) = Inr pt \<and> hmac_tag_ok X (take 32 key) (data p)
     | Plain \<Rightarrow> dest_type p = PLAIN \<and> data p = pt)"
proof -
  obtain p where p: "packet_decode bs = Inr p"
    "\<not> bt_contains (packet_hash X p) (nd_seen_packets (maybe_prune (nd_clock nd) nd))"
    "event_due X p i nd (Message dh pt)"
    by (rule inbound_cause [OF node_reach_quiet [OF assms(1)] assms(2)]) (simp_all add: minor_event_def)
  then obtain l where "find_local dh nd = Some l" by auto
  with p show ?thesis
    by (cases "ld_kind l") (auto intro: token_decrypt_authentic open_with_key_tag)
qed

theorem message_event_justified_witness:
  "\<exists>p. packet_decode (packet_encode (data_single demo_dest
      (token_encrypt toy_ext (id_public toy_ext demo_identity) [7] [8] (replicate 16 0)))) = Inr p \<and>
    token_decrypt toy_ext demo_identity (data p) = Inr [7]"
proof -
  let ?q = "data_single demo_dest (token_encrypt toy_ext (id_public toy_ext demo_identity) [7] [8] (replicate 16 0))"
  have "Message demo_dest [7] \<in> set (fst (handle_inbound_inner toy_ext zeros (packet_encode ?q) 1 None demo_receiver))"
    using message_received(1) [OF toy_ok demo_receiver_ok demo_dest_length, of "replicate 16 0" _ True ?q "[7]" "[8]" zeros 1 None]
    by (simp add: demo_receiver_simps find_local_def)
  from message_event_justified [OF demo_reach this] show ?thesis
    by (auto simp: demo_receiver_simps find_local_def)
qed

text \<open>C15: Link data is reported only for an active link, arriving on the link's own interface, and only
  with the HMAC tag of the link's 64-byte key; it is the plaintext under that key.\<close>

theorem link_data_event_justified:
  assumes "hkdf_ok X" and "node_reach X E nd" and "LinkData lid pt \<in> set (fst (handle_inbound_inner X F bs i rng nd))"
  shows "\<exists>p l key. packet_decode bs = Inr p \<and> packet_type p = DATA \<and> dest_type p = LINK \<and> dest_hash p = lid \<and>
    links_get lid (nd_links nd) = Some l \<and> le_status l = Active \<and> le_interface l = i \<and>
    le_derived_key l = Some key \<and> length key = 64 \<and>
    hmac_tag_ok X (take 32 key) (data p) \<and> open_with_key X key (data p) = Inr pt"
proof -
  obtain p where p: "packet_decode bs = Inr p" "event_due X p i nd (LinkData lid pt)"
    by (rule inbound_cause [OF node_reach_quiet [OF assms(2)] assms(3)]) (simp_all add: minor_event_def)
  then obtain l key where l: "links_get lid (nd_links nd) = Some l" "le_status l = Active" "le_interface l = i"
    "le_derived_key l = Some key" "open_with_key X key (data p) = Inr pt" by (auto simp: live_link_def)
  have "length key = 64" using node_okD(11) [OF node_reach_ok [OF assms(1,2)] l(1)] l by (simp add: link_ok_def)
  then show ?thesis using p l open_with_key_tag [OF l(5)] by auto
qed

theorem link_data_event_justified_witness:
  "\<exists>nd bs p key. LinkData (dest_hash p) [7] \<in> set (fst (handle_inbound_inner toy_ext zeros bs 1 None nd)) \<and>
     packet_decode bs = Inr p \<and> length key = 64 \<and> hmac_tag_ok toy_ext (take 32 key) (data p)"
proof -
  obtain nd lid key where d: "node_reach toy_ext zeros nd" "live_link lid 1 key nd" "length lid = 16"
    "\<And>pt dt c d. dt = LINK \<Longrightarrow> pt \<le> 3 \<Longrightarrow> unseen toy_ext (packet_encode (new_header1 dt pt lid c d)) nd"
    by (rule demo_live) blast
  let ?bs = "packet_encode (link_data lid (seal_with_key toy_ext key [7] (replicate 16 0)))"
  have "unseen toy_ext ?bs nd" using d(4) by (simp add: link_data_def link_data_with_context_def packet_types)
  then have e: "LinkData lid [7] \<in> set (fst (handle_inbound_inner toy_ext zeros ?bs 1 None nd))"
    using link_data_received [OF crypto_okD(5) [OF toy_ok] node_reach_ok [OF crypto_okD(4) [OF toy_ok] d(1)] d(3) _ d(2),
        where iv = "replicate 16 0" and pt = "[7]" and E = zeros and rng = None]
    by simp
  then show ?thesis using link_data_event_justified [OF crypto_okD(4) [OF toy_ok] d(1) e] by blast
qed

lemma delivered_removed:
  assumes q: "quiet nd" and d: "Delivered h \<in> set (fst (handle_inbound_inner X F bs i rng nd))"
    and p: "packet_decode bs = Inr p" "event_due X p i nd (Delivered h)"
  shows "bt_get h (nd_pending_receipts (fst (snd (handle_inbound_inner X F bs i rng nd)))) = None"
proof -
  let ?p = "p\<lparr>hops := sat_add (hops p) 1\<rparr>" and ?n = "noted (packet_hash X p) nd"
  have len: "length (dest_hash p) = 16" using packet_decode_ok [OF p(1)] by (simp add: packet_ok_def)
  have nq: "Delivered h \<notin> set (nd_pending_events nd)" using q by (auto simp: quiet_def minor_event_def)
  have i: "handle_inbound_inner X F bs i rng nd = dispatch X F ?p i rng ?n"
    using d p(1) by (auto simp: handle_inbound_inner_eq split: if_splits)
  also have "\<dots> = (let (evs, nd) = handle_delivery_proof X ?p (dest_hash p) ?n in (evs, nd, rng))"
    using p(2) len by (simp add: dispatch_def try_array_def packet_types dest_types)
  finally have e: "handle_inbound_inner X F bs i rng nd =
    (let (evs, nd) = handle_delivery_proof X ?p (dest_hash p) ?n in (evs, nd, rng))" .
  then show ?thesis using d
    by (auto simp: handle_delivery_proof_def case_prod_beta bt_simps split: option.splits if_splits)
qed

text \<open>C16: A delivery is reported only for a message whose receipt is pending, on a proof that carries the packet
  hash of a message this node sent earlier (with send_message_with_receipt, which queued that packet, sealed
  for the key of the route it then held to the destination, and returned that hash) and a signature of the
  hash by the key of that route; the receipt is then removed, so the same delivery is not reported again.\<close>

theorem delivered_event_justified:
  assumes "hkdf_ok X" and "node_reach X E nd" and "Delivered h \<in> set (fst (handle_inbound_inner X F bs i rng nd))"
  shows "(\<exists>p n1 r1 dh pt n2 r2 evs r entry q eph iv. packet_decode bs = Inr p \<and> packet_type p = PROOF \<and> dest_type p = SINGLE \<and>
      length (data p) = 96 \<and> h = take 32 (data p) \<and> bt_get h (nd_pending_receipts nd) \<noteq> None \<and>
      node_reach X E n1 \<and> send_message_with_receipt X E dh pt r1 n1 = (Inr h, n2, r2) \<and> node_run X E (n2, r2) evs (nd, r) \<and>
      path_get dh (nd_paths (node_prune n1)) = Some entry \<and>
      nd_outbound n2 = nd_outbound n1 @ [(pe_interface entry, packet_encode q)] \<and> h = full_packet_hash X q \<and>
      dest_hash q = dh \<and> data q = token_encrypt X (pe_public entry) pt eph iv \<and>
      x_ed25519_verify X (sig_pub (pe_public entry)) h (drop 32 (data p))) \<and>
    bt_get h (nd_pending_receipts (fst (snd (handle_inbound_inner X F bs i rng nd)))) = None"
proof -
  note quiet = node_reach_quiet [OF assms(2)]
  obtain p where p: "packet_decode bs = Inr p" "event_due X p i nd (Delivered h)"
    by (rule inbound_cause [OF quiet assms(3)]) (simp_all add: minor_event_def)
  then obtain rc where rc: "bt_get h (nd_pending_receipts nd) = Some rc" "verify_proof X (pr_destination_public rc) (data p) = Inr h"
    by auto
  have "\<not> bt_get h (nd_pending_receipts (node_with_clock i c)) = Some rc" for i c
    by (simp add: node_with_clock_def bt_get_def)
  then obtain n1 r1 op1 e n2 r2 evs r where h: "node_reach X E n1" "bt_get h (nd_pending_receipts n1) \<noteq> Some rc"
    "node_exec X E op1 (n1, r1) = Some (e, n2, r2)" "bt_get h (nd_pending_receipts n2) = Some rc"
    "node_run X E (n2, r2) evs (nd, r)"
    by (rule node_reach_cause [where Q = "\<lambda>n. bt_get h (nd_pending_receipts n) = Some rc", OF assms(2) rc(1)])
  obtain dh pt entry where s: "send_message_with_receipt X E dh pt r1 n1 = (Inr h, n2, r2)"
    "path_get dh (nd_paths (node_prune n1)) = Some entry" "rc = receipt_for entry n1"
    using exec_receipts [OF h(3) node_reach_ok [OF assms(1) h(1)] h(4,2)] by blast
  obtain q eph iv where "dest_hash q = dh" "data q = token_encrypt X (pe_public entry) pt eph iv" "h = full_packet_hash X q"
    "nd_outbound n2 = nd_outbound n1 @ [(pe_interface entry, packet_encode q)]"
    by (rule receipt_packet [OF s(1,2)])
  moreover have "x_ed25519_verify X (sig_pub (pe_public entry)) h (drop 32 (data p))" "length (data p) = 96" "h = take 32 (data p)"
    using rc(2) s(3) by (auto simp: verify_proof_Inr receipt_for_def)
  moreover have "packet_type p = PROOF" "dest_type p = SINGLE" "bt_get h (nd_pending_receipts nd) \<noteq> None"
    using p(2) rc(1) by simp_all
  moreover note p(1) h(1,5) s(1,2)
  ultimately show ?thesis
    by - (rule conjI [OF _ delivered_removed [OF quiet assms(3) p]], rule exI [of _ p], rule exI [of _ n1], rule exI [of _ r1],
      rule exI [of _ dh], rule exI [of _ pt], rule exI [of _ n2], rule exI [of _ r2], rule exI [of _ evs], rule exI [of _ r],
      rule exI [of _ entry], rule exI [of _ q], rule exI [of _ eph], rule exI [of _ iv], intro conjI)
qed

theorem delivered_event_justified_witness:
  "\<exists>nd bs h dh pt r1 n1 n2 r2 entry. Delivered h \<in> set (fst (handle_inbound_inner toy_ext zeros bs 1 None nd)) \<and>
     send_message_with_receipt toy_ext zeros dh pt r1 n1 = (Inr h, n2, r2) \<and> h = take 32 (drop 19 bs) \<and>
     path_get dh (nd_paths (node_prune n1)) = Some entry"
proof -
  let ?ann = "new_header1 SINGLE ANNOUNCE demo_dest 0
    (to_payload (announce_build toy_ext demo_identity demo_dest (replicate 10 0) (replicate 10 0) []))"
  let ?n1 = "fst (snd (handle_inbound_inner toy_ext zeros (packet_encode ?ann) 1 (Some ()) demo_fresh))"
  let ?e = "announced_route toy_ext demo_identity (replicate 10 0) 1 5"
  have r0: "node_reach toy_ext zeros demo_fresh"
    unfolding node_reach_def demo_fresh_def using node_run.refl by fastforce
  then have r1: "node_reach toy_ext zeros ?n1" by (rule demo_receive)
  have e: "path_get demo_dest (nd_paths ?n1) = Some ?e"
    using announce_received(2) [OF toy_ok demo_fresh_simps(1) _ _ demo_dest_length HOL.refl,
        of "replicate 10 0" "replicate 10 0" 0 demo_identity "[]" zeros 1 "Some ()"]
    by (simp add: demo_fresh_simps bt_contains_def bt_get_def route_open_def)
  have c: "nd_clock ?n1 = 5" by (simp add: demo_fresh_simps)
  have "path_get demo_dest (nd_paths (node_prune ?n1)) = Some ?e"
    using e c node_okD(2) [OF node_reach_ok [OF crypto_okD(4) [OF toy_ok] r1]]
    by (simp add: node_prune_eq path_get_prune_Some announced_route_def less_sat_add PATH_EXPIRY_SECS_def)
  then obtain h n2 where s0: "send_message_with_receipt toy_ext zeros demo_dest [7] () ?n1 = (Inr h, n2, ())"
    and rc: "bt_get h (nd_pending_receipts n2) = Some (receipt_for ?e ?n1)" "nd_seen_packets n2 = nd_seen_packets ?n1"
    and h: "length h = 32"
    using receipt_sent [OF crypto_okD(1) [OF toy_ok], of demo_dest ?n1 ?e zeros "[7]" "()"]
    by (auto simp: announced_route_def)
  have s: "node_exec toy_ext zeros (SendMessage demo_dest [7] True) (?n1, ()) = Some ([], n2, ())" using s0 by simp
  have r2: "node_reach toy_ext zeros n2" by (rule demo_step [OF r1 s])
  let ?q = "explicit_proof (proof_destination_hash h) (build_proof toy_ext demo_identity h)"
  have "packet_ok ?q" "hd (hashable_part ?q) = 3" unfolding explicit_proof_def
    using h by (auto intro!: new_header1_ok simp: proof_destination_hash_def packet_consts hashable_part_def low2_def)
  moreover have "hd (hashable_part ?ann) = 1" "hops ?ann = 0" by (simp_all add: hashable_part_def packet_consts low2_def)
  moreover have "packet_ok ?ann" by (rule new_header1_ok) (simp_all add: demo_dest_length packet_consts)
  ultimately have "unseen toy_ext (packet_encode ?q) ?n1"
    by (intro unseen_after) (simp_all add: demo_fresh_simps PATHFINDER_MAX_HOPS_def)
  then have u: "unseen toy_ext (packet_encode ?q) n2" using rc(2) by (simp add: unseen_def split: sum.splits)
  have d: "Delivered h \<in> set (fst (handle_inbound_inner toy_ext zeros (packet_encode ?q) 1 None n2))"
    using delivery_acknowledged(1) [OF crypto_okD(3) [OF toy_ok] node_reach_ok [OF crypto_okD(4) [OF toy_ok] r2] h rc(1) _ u,
        of zeros 1 None] by (simp add: receipt_for_def announced_route_def)
  have "take 32 (drop 19 (packet_encode ?q)) = h"
    using h by (simp add: packet_encode_def explicit_proof_def new_header1_def header_consts build_proof_def proof_destination_hash_def)
  then show ?thesis using delivered_event_justified [OF crypto_okD(4) [OF toy_ok] r2 d] d by metis
qed

text \<open>C17: The completion of a resource is reported only when it is there: on an inbound one, its last part
  arrived over an active link, all parts together carry the tag of the link's key and decrypt under it, and
  the payload reported is the plaintext after its four random bytes (decompressed when the advertisement
  said so), of the advertised length, with the hash the resource is filed under; on an outbound one (no
  payload), this node had earlier sent a payload over that link as the resource of that hash, and the
  receiver's proof is the hash followed by the proof computed from that very payload.\<close>

theorem resource_event_justified:
  assumes "hkdf_ok X" and "node_reach X E nd"
    and "ResourceComplete lid h d \<in> set (fst (handle_inbound_inner X F bs i rng nd))"
  shows "(\<exists>p ib key stream. packet_decode bs = Inr p \<and> dest_hash p = lid \<and>
      bt_get (lid, h) (nd_inbound_resources nd) = Some ib \<and> live_link lid i key nd \<and>
      is_complete (snd (on_part X (data p) ib)) \<and>
      open_with_key X key (reassemble (List.map_filter id (ib_parts (snd (on_part X (data p) ib))))) = Inr stream \<and>
      hmac_tag_ok X (take 32 key) (reassemble (List.map_filter id (ib_parts (snd (on_part X (data p) ib))))) \<and>
      4 \<le> length stream \<and>
      (if ib_compressed ib then decompress_payload X (drop 4 stream) = Inr d else d = drop 4 stream) \<and>
      word_of_nat (length d) = ib_total_size ib \<and> resource_hash X d (ib_random_hash ib) = h) \<or>
    (d = [] \<and> (\<exists>p n1 r1 d' n2 r2 evs r rh. packet_decode bs = Inr p \<and> packet_type p = PROOF \<and> dest_hash p = lid \<and>
      bt_get (lid, h) (nd_outbound_resources nd) \<noteq> None \<and> node_reach X E n1 \<and>
      send_resource X E lid d' r1 n1 = Some (Inr h, n2, r2) \<and> node_run X E (n2, r2) evs (nd, r) \<and>
      h = resource_hash X d' rh \<and> data p = h @ resource_proof X d' h))"
proof -
  note ok = node_reach_ok [OF assms(1,2)]
  obtain p where p: "packet_decode bs = Inr p" "event_due X p i nd (ResourceComplete lid h d)"
    by (rule inbound_cause [OF node_reach_quiet [OF assms(2)] assms(3)]) (simp_all add: minor_event_def)
  from p(2) consider (inbound) ib key where "dest_hash p = lid" "bt_get (lid, h) (nd_inbound_resources nd) = Some ib"
      "live_link lid i key nd" "finalize X key (snd (on_part X (data p) ib)) = Inr d"
    | (outbound) ob where "dest_hash p = lid" "d = []" "packet_type p = PROOF"
      "bt_get (lid, h) (nd_outbound_resources nd) = Some ob" "fst (on_proof (data p) ob)" by auto
  then show ?thesis
  proof cases
    case inbound
    let ?ib = "snd (on_part X (data p) ib)"
    have "ib_hash ib = h" using node_okD(12) [OF ok inbound(2)] by simp
    moreover have "ib_same ib ?ib" using ib_step_same [of ib X "GetPart (data p)"] by (simp add: ib_step_def)
    moreover obtain stream where "open_with_key X key (reassemble (List.map_filter id (ib_parts ?ib))) = Inr stream"
      "4 \<le> length stream" "if ib_compressed ?ib then decompress_payload X (drop 4 stream) = Inr d else d = drop 4 stream"
      by (rule finalize_payload [OF inbound(4)])
    ultimately show ?thesis
      using inbound(1-3) p(1) finalize_sound [OF inbound(4)] unfolding ib_same_def by (intro disjI1) auto
  next
    case outbound
    have o: "ob_hash ob = h" "\<not> ob_completed ob" using node_okD(13) [OF ok outbound(4)] by simp_all
    then have "take 32 (data p) = h" "drop 32 (data p) = ob_expected_proof ob"
      using outbound(5) by (auto simp: on_proof_def Let_def split: if_splits)
    then have dp: "data p = h @ ob_expected_proof ob" by (metis append_take_drop_id)
    have "expects (lid, h) (ob_expected_proof ob) nd" using outbound(4) by (auto simp: expects_def)
    moreover have "\<not> expects k x (node_with_clock i c)" for k x i c by (simp add: expects_def node_with_clock_def bt_get_def)
    ultimately obtain n1 r1 op1 e n2 r2 evs r where h: "node_reach X E n1" "\<not> expects (lid, h) (ob_expected_proof ob) n1"
      "node_exec X E op1 (n1, r1) = Some (e, n2, r2)" "expects (lid, h) (ob_expected_proof ob) n2" "node_run X E (n2, r2) evs (nd, r)"
      using node_reach_cause [OF assms(2), of "expects (lid, h) (ob_expected_proof ob)"] by metis
    from exec_expects [OF h(3) node_reach_ok [OF assms(1) h(1)] h(4,2)] obtain d' rh where
      "send_resource X E lid d' r1 n1 = Some (Inr h, n2, r2)" "h = resource_hash X d' rh"
      "ob_expected_proof ob = resource_proof X d' h" by blast
    moreover have "data p = h @ resource_proof X d' h" using dp calculation(3) by simp
    moreover have "bt_get (lid, h) (nd_outbound_resources nd) \<noteq> None" using outbound(4) by simp
    moreover note outbound(1-3) p(1) h(1,5)
    ultimately show ?thesis by (intro disjI2 conjI exI) assumption+
  qed
qed

theorem resource_event_justified_witness:
  "\<exists>nd bs lid h p n1 r1 d n2 r2. ResourceComplete lid h [] \<in> set (fst (handle_inbound_inner toy_ext zeros bs 1 None nd)) \<and>
     packet_decode bs = Inr p \<and> dest_hash p = lid \<and>
     send_resource toy_ext zeros lid d r1 n1 = Some (Inr h, n2, r2) \<and> data p = h @ resource_proof toy_ext d h"
proof -
  obtain nd lid key ob where d: "node_reach toy_ext zeros nd" "live_link lid 1 key nd" "length lid = 16"
    "bt_get (lid, ob_hash ob) (nd_outbound_resources nd) = Some ob"
    "length (ob_hash ob) = 32" "length (ob_expected_proof ob) = 32"
    "\<And>pt dt c d. dt = LINK \<Longrightarrow> pt \<le> 3 \<Longrightarrow> unseen toy_ext (packet_encode (new_header1 dt pt lid c d)) nd" "nd_inbound_resources nd = []"
    by (rule demo_sending) blast
  let ?pf = "ob_hash ob @ ob_expected_proof ob"
  let ?q = "new_header1 LINK PROOF lid RESOURCE_PRF ?pf"
  have "unseen toy_ext (packet_encode ?q) nd" using d(7) [of LINK PROOF RESOURCE_PRF ?pf] by (simp add: packet_types)
  then have "handle_inbound_inner toy_ext zeros (packet_encode ?q) 1 None nd =
      dispatch toy_ext zeros (?q\<lparr>hops := 1\<rparr>) 1 None (noted (packet_hash toy_ext ?q) nd)"
    by (intro inbound_fresh node_reach_ok [OF crypto_okD(4) [OF toy_ok] d(1)] d(3)) (simp_all add: packet_consts)
  also have "fst \<dots> = [ResourceComplete lid (ob_hash ob) []]"
    using d(3-6)
    by (simp add: dispatch_def try_array_def packet_consts handle_resource_proof_def array_at_def get_range_def sub_def
        on_proof_def Let_def)
  finally have e: "ResourceComplete lid (ob_hash ob) [] \<in> set (fst (handle_inbound_inner toy_ext zeros (packet_encode ?q) 1 None nd))"
    by simp
  have none: "bt_get (lid, ob_hash ob) (nd_inbound_resources nd) = None" by (simp add: d(8) bt_get_def)
  from resource_event_justified [OF crypto_okD(4) [OF toy_ok] d(1) e] none show ?thesis using e by fastforce
qed

section \<open>Time\<close>

text \<open>C22: A tick does what the timers say: it reports all events left pending and leaves none, closes
  and reports every active link that was idle for 720 seconds, queues a keepalive on the interface of
  every other active link of an initiator whose last one is 360 seconds old, leaves every other link
  as it is, and drops exactly the receipts that have expired.\<close>

theorem tick_timers:
  assumes "tick_inner X E rng nd = (evs, nd', rng')" and "bt_ok (nd_pending_receipts nd)"
  shows "set (nd_pending_events nd) \<subseteq> set evs \<and> nd_pending_events nd' = [] \<and>
    (\<forall>i l. links_get i (nd_links nd) = Some l \<longrightarrow>
      (let idle = sat_sub (nd_clock nd) (le_last_activity l) \<ge> 720;
           due = le_initiator l \<and> sat_sub (nd_clock nd) (le_last_keepalive l) \<ge> 360
       in if le_status l = Active \<and> idle then
            links_get i (nd_links nd') = Some (l\<lparr>le_status := Closed\<rparr>) \<and> LinkClosed i \<in> set evs
          else if le_status l = Active \<and> due then
            links_get i (nd_links nd') = Some (l\<lparr>le_last_keepalive := nd_clock nd\<rparr>) \<and>
            (le_interface l, packet_encode (link_data_with_context i [0xFF] KEEPALIVE)) \<in> set (nd_outbound nd')
          else links_get i (nd_links nd') = Some l)) \<and>
    (\<forall>h rc. bt_get h (nd_pending_receipts nd') = Some rc \<longleftrightarrow>
      bt_get h (nd_pending_receipts nd) = Some rc \<and> nd_clock nd < pr_expires_at rc)"
proof -
  obtain q es where t: "nd_links nd' = links_map (\<lambda>_. tick_link (nd_clock nd)) (nd_links nd)"
    "nd_pending_receipts nd' = bt_retain (\<lambda>_ receipt. pr_expires_at receipt > nd_clock nd) (nd_pending_receipts nd)"
    "nd_pending_events nd' = []"
    "evs = nd_pending_events nd @ map LinkClosed (map fst (filter (\<lambda>(i, l). stale (nd_clock nd) l) (nd_links nd))) @ es"
    "nd_outbound nd' = nd_outbound nd @ map (\<lambda>(i, l). (le_interface l, packet_encode (link_data_with_context i [0xFF] KEEPALIVE)))
           (filter (\<lambda>(i, l). keepalive_due (nd_clock nd) l) (nd_links nd)) @ q"
    by (rule tick_inner_parts [of X E rng nd, unfolded assms(1) fst_conv snd_conv])
  have m: "(i, l) \<in> set (nd_links nd)" if "links_get i (nd_links nd) = Some l" for i l
    using that by (auto simp: links_get_def bt_get_def dest: map_of_SomeD)
  have c: "LinkClosed i \<in> set evs" if "links_get i (nd_links nd) = Some l" "stale (nd_clock nd) l" for i l
    using m [OF that(1)] that(2) by (force simp: t(4))
  have k: "(le_interface l, packet_encode (link_data_with_context i [0xFF] KEEPALIVE)) \<in> set (nd_outbound nd')"
    if "links_get i (nd_links nd) = Some l" "keepalive_due (nd_clock nd) l" for i l
    using m [OF that(1)] that(2) by (force simp: t(5))
  have r: "bt_get h (nd_pending_receipts nd') = Some rc \<longleftrightarrow>
      bt_get h (nd_pending_receipts nd) = Some rc \<and> nd_clock nd < pr_expires_at rc" for h rc
    using bt.get_retain [OF assms(2)] by (auto simp: t(2) split: option.splits if_splits)
  have e: "set (nd_pending_events nd) \<subseteq> set evs" by (simp add: t(4))
  show ?thesis
    using c k r e t(3)
    by (auto simp: t(1) Let_def tick_link_def stale_def keepalive_due_def LINK_STALE_SECS_def LINK_KEEPALIVE_SECS_def)
qed

theorem tick_timers_witness:
  "LinkClosed (replicate 16 0) \<in> set (fst (tick_inner toy_ext zeros None (demo_linked\<lparr>nd_clock := 1000\<rparr>)))"
proof -
  let ?n = "demo_linked\<lparr>nd_clock := 1000\<rparr>"
  obtain evs nd' rng' where t: "tick_inner toy_ext zeros None ?n = (evs, nd', rng')" by (metis prod_cases3)
  have "links_get (replicate 16 0) (nd_links ?n) = Some demo_link" using demo_linked_get by simp
  moreover have "bt_ok (nd_pending_receipts ?n)" using node_okD(8) [OF demo_linked_ok] by simp
  moreover have "le_status demo_link = Active" "sat_sub (1000 :: u64) (le_last_activity demo_link) \<ge> 720"
    by (simp_all add: demo_link_def sat_sub_def)
  ultimately show ?thesis using tick_timers [OF t] t by (auto simp: Let_def)
qed

end
