(* ===== verification/Node_Delivery.thy ===== *)
theory Node_Delivery
  imports Node_Properties
begin

text \<open>
  The properties that two nodes establish together: discovering a path, delivering a message with its
  proof, establishing a link and sending over it; and what a relay between them does.
\<close>

section \<open>Messages\<close>

text \<open>C2: A message is delivered and its delivery confirmed. A node with a direct, unexpired route to a
  destination sends a message with a receipt; the packet it queues makes the destination's node report
  exactly that plaintext and, when it proves deliveries, queue a proof on the interface of arrival; the
  proof makes the sender report the delivery of the packet hash it was given, and the receipt is gone.\<close>

theorem message_delivered:
  assumes "crypto_ok X" "entropy_ok E" and "node_ok nd1" "node_ok nd2" and "length dh = 16"
    and "path_get dh (nd_paths nd1) = Some entry" "nd_clock nd1 < pe_expires_at entry" "pe_hops entry \<le> 1"
      "pe_public entry = id_public X (nd_identity nd2)"
    and "find_local dh nd2 = Some l" "ld_kind l = Single True"
    and "send_message_with_receipt X E dh pt r nd1 = (res, nd1', r')" and "msg = snd (last (nd_outbound nd1'))"
    and "unseen X msg nd2" and "handle_inbound_inner X F msg i rng nd2 = (evs2, nd2', rng')"
    and "ack = snd (last (nd_outbound nd2'))" and "unseen X ack nd1'"
    and "handle_inbound_inner X G ack j rng1 nd1' = (evs1, nd1'', rng1')"
  shows "\<exists>h. res = Inr h \<and> nd_outbound nd1' = nd_outbound nd1 @ [(pe_interface entry, msg)] \<and>
    evs2 = [Message dh pt] \<and> nd_outbound nd2' = nd_outbound nd2 @ [(i, ack)] \<and>
    evs1 = [Delivered h] \<and> bt_get h (nd_pending_receipts nd1'') = None"
proof -
  obtain e r1 where e: "E r 32 = (e, r1)" by fastforce
  obtain iv r2 where iv: "E r1 16 = (iv, r2)" by fastforce
  have liv: "length iv = 16" by (rule entropy_filled [OF assms(2) iv])
  let ?q = "data_single dh (token_encrypt X (id_public X (nd_identity nd2)) pt e iv)"
  let ?h = "full_packet_hash X ?q"
  have h1: "\<not> pe_hops entry > 1" using assms(8) by (simp add: not_less)
  have q: "sent_packet X entry dh pt e iv = ?q" using h1 assms(9) by (simp add: sent_packet_def)
  have p: "path_get dh (nd_paths (node_prune nd1)) = Some entry"
    using assms(6,7) node_okD(2) [OF assms(3)] by (simp add: node_prune_eq path_get_prune_Some)
  have "send_message_with_receipt X E dh pt r nd1 =
    (Inr ?h, push_out (pe_interface entry) (packet_encode ?q) (node_prune nd1)
       \<lparr>nd_pending_receipts := bt_insert ?h (receipt_for entry nd1) (nd_pending_receipts nd1)\<rparr>, r2)"
    using single_sent [OF p _ e iv, of X pt] h1 q by (simp add: send_message_with_receipt_def)
  then have s: "res = Inr ?h" "nd_outbound nd1' = nd_outbound nd1 @ [(pe_interface entry, packet_encode ?q)]"
    "bt_get ?h (nd_pending_receipts nd1') = Some (receipt_for entry nd1)"
    using assms(12) by (auto simp: node_prune_eq bt_simps)
  have ok1: "node_ok nd1'" using node_ok_send_message(2) [OF assms(3), of X E dh pt r] assms(12) by simp
  have msg: "msg = packet_encode ?q" using assms(13) s(2) by simp
  note m = message_received [OF assms(1,4,5) liv assms(10,11) HOL.refl, of pt e F i rng]
  have m2: "evs2 = [Message dh pt]" "nd_outbound nd2' = nd_outbound nd2 @ [(i, packet_encode
      (explicit_proof (proof_destination_hash ?h) (build_proof X (nd_identity nd2) ?h)))]"
    using m assms(14,15) msg by simp_all
  have ack: "ack = packet_encode (explicit_proof (proof_destination_hash ?h) (build_proof X (nd_identity nd2) ?h))"
    using assms(16) m2(2) by simp
  have "length ?h = 32" using crypto_okD(1) [OF assms(1)] by (simp add: full_packet_hash_def)
  then have "evs1 = [Delivered ?h]" "bt_get ?h (nd_pending_receipts nd1'') = None"
    using delivery_acknowledged [OF crypto_okD(3) [OF assms(1)] ok1 _ s(3) _ assms(17) [unfolded ack], of G j rng1]
      assms(9,18) ack by (simp_all add: receipt_for_def)
  then show ?thesis using s(1,2) m2 msg ack by simp
qed

theorem message_delivered_witness:
  "\<exists>msg ack h nd1' nd2' rng. send_message_with_receipt toy_ext zeros demo_dest [7] () demo_sender = (Inr h, nd1', ()) \<and>
     nd_outbound nd1' = [(3, msg)] \<and>
     handle_inbound_inner toy_ext zeros msg 1 None demo_receiver = ([Message demo_dest [7]], nd2', rng) \<and>
     nd_outbound nd2' = [(1, ack)]"
proof -
  obtain res nd1' where s: "send_message_with_receipt toy_ext zeros demo_dest [7] () demo_sender = (res, nd1', ())"
    by (metis prod_cases3 unit.exhaust)
  let ?msg = "snd (last (nd_outbound nd1'))"
  obtain evs2 nd2' rng' where h: "handle_inbound_inner toy_ext zeros ?msg 1 None demo_receiver = (evs2, nd2', rng')"
    by (metis prod_cases3)
  let ?ack = "snd (last (nd_outbound nd2'))"
  obtain evs1 nd1'' rng1 where a: "handle_inbound_inner toy_ext zeros ?ack 3 None nd1' = (evs1, nd1'', rng1)"
    by (metis prod_cases3)
  have n: "nd_seen_packets nd1' = []"
    using s receipt_sent [OF crypto_okD(1) [OF toy_ok], of demo_dest demo_sender demo_route zeros "[7]" "()"]
      node_okD(2) [OF demo_sender_ok]
    by (auto simp: node_prune_eq path_get_prune_Some demo_sender_simps)
  have "\<exists>h. res = Inr h \<and> nd_outbound nd1' = nd_outbound demo_sender @ [(pe_interface demo_route, ?msg)] \<and>
      evs2 = [Message demo_dest [7]] \<and> nd_outbound nd2' = nd_outbound demo_receiver @ [(1, ?ack)] \<and>
      evs1 = [Delivered h] \<and> bt_get h (nd_pending_receipts nd1'') = None"
    by (rule message_delivered [OF toy_ok zeros_ok demo_sender_ok demo_receiver_ok demo_dest_length
          demo_sender_simps(1) _ _ _ demo_receiver_find _ s HOL.refl _ h HOL.refl _ a])
      (simp_all add: n demo_sender_simps demo_receiver_simps)
  then show ?thesis using s h by (auto simp: demo_sender_simps demo_receiver_simps)
qed

section \<open>Links\<close>

text \<open>C3: A link is established and carries data. A node with a direct, unexpired route asks for a
  link; the destination's node reports it established and answers with a proof on the interface of
  arrival; the proof makes the initiator report it established. Both then hold the same 64-byte key,
  each end bound to its interface, and what the initiator sends over the link the other end reports.\<close>

theorem link_established:
  assumes "crypto_ok X" and "entropy_ok E" and "node_ok nd1" "node_ok nd2" and "length dh = 16"
    and "path_get dh (nd_paths nd1) = Some entry" "nd_clock nd1 < pe_expires_at entry" "pe_hops entry \<le> 1"
      "pe_public entry = id_public X (nd_identity nd2)"
    and "l \<in> set (nd_locals nd2)" "ld_dest_hash l = dh" "is_single (ld_kind l)"
    and "establish_link X E dh r nd1 = (res, nd1', r1)" and "req = snd (last (nd_outbound nd1'))"
    and "unseen X req nd2" "\<forall>lid. res = Inr lid \<longrightarrow> links_get lid (nd_links nd2) = None"
    and "handle_inbound_inner X F req i (Some s) nd2 = (evs2, nd2', s2)"
    and "pf = snd (last (nd_outbound nd2'))" and "unseen X pf nd1'"
    and "handle_inbound_inner X E pf j (Some r1) nd1' = (evs1, nd1'', r2)"
  shows "\<exists>lid key. res = Inr lid \<and> nd_outbound nd1' = nd_outbound nd1 @ [(pe_interface entry, req)] \<and>
    evs2 = [LinkEstablished lid] \<and> nd_outbound nd2' = nd_outbound nd2 @ [(i, pf)] \<and> evs1 = [LinkEstablished lid] \<and>
    length key = 64 \<and> live_link lid i key nd2' \<and> live_link lid (pe_interface entry) key nd1'' \<and>
    (\<forall>pt r3. (let (sent, nd3, r4) = link_send X E lid pt r3 nd1''; bs = snd (last (nd_outbound nd3))
       in sent = Inr () \<and> (unseen X bs nd2' \<longrightarrow> fst (handle_inbound_inner X F bs i None nd2') = [LinkData lid pt])))"
proof -
  note ok = crypto_okD [OF assms(1)]
  obtain a ra where a: "E r 32 = (a, ra)" by fastforce
  obtain b rb where b: "E ra 32 = (b, rb)" by fastforce
  let ?eph = "ephemeral_from_private_bytes X a b"
  let ?q = "link_request dh (link_request_payload ?eph)"
  let ?lid = "link_id_from_request X ?q"
  have g: "ephemeral_generate X E r = (?eph, rb)" by (simp add: ephemeral_generate_def a b)
  note es = establish_sent [OF assms(6-8,3) g HOL.refl]
  have e: "res = Inr ?lid" "nd_outbound nd1' = nd_outbound nd1 @ [(pe_interface entry, packet_encode ?q)]"
    "links_get ?lid (nd_links nd1') = Some \<lparr>le_status = Pending, le_initiator = True, le_ephemeral = ?eph,
        le_peer_x25519_pub = None, le_destination_public = Some (pe_public entry),
        le_derived_key = None, le_interface = pe_interface entry,
        le_last_activity = nd_clock nd1, le_last_keepalive = nd_clock nd1\<rparr>"
    using es assms(13) by simp_all
  have req: "req = packet_encode ?q" using e(2) assms(14) by simp
  have ok1: "node_ok nd1'" using node_ok_establish [OF assms(3), of X E dh r] assms(13) by simp
  obtain c d where r2: "evs2 = [LinkEstablished ?lid]" "nd_outbound nd2' = nd_outbound nd2 @ [(i, packet_encode (packet_proof ?lid
      (build_link_proof X (nd_identity nd2) ?lid (ephemeral_from_private_bytes X c d)) LRPROOF))]"
    "live_link ?lid i (derive_link_key X c (x25519_pub ?eph) ?lid) nd2'"
    by (rule request_answered [OF assms(1,4,5,10-12) HOL.refl HOL.refl _ _ assms(17) [unfolded req]])
      (use assms(15,16) e(1) req in simp_all)
  have pf: "pf = packet_encode (packet_proof ?lid
      (build_link_proof X (nd_identity nd2) ?lid (ephemeral_from_private_bytes X c d)) LRPROOF)"
    using assms(18) r2(2) by simp
  have len: "length ?lid = 16" using ok(1) by simp
  let ?key = "derive_link_key X a (x_x25519_public X c) ?lid"
  have k: "derive_link_key X c (x25519_pub ?eph) ?lid = ?key" using derive_link_key_agree [OF ok(2)] by simp
  have p1: "evs1 = [LinkEstablished ?lid]" "live_link ?lid (pe_interface entry) ?key nd1''"
    using proof_accepted [OF assms(1) ok1 len e(3) _ _ _ HOL.refl pf assms(19,20)] assms(9) by simp_all
  have ok2: "node_ok nd2'"
    using node_ok_inbound_inner [OF ok(4) assms(4), of F req i "Some s"] assms(17) by simp
  have data: "let (sent, nd3, r4) = link_send X E ?lid pt r3 nd1''; bs = snd (last (nd_outbound nd3))
       in sent = Inr () \<and> (unseen X bs nd2' \<longrightarrow> fst (handle_inbound_inner X F bs i None nd2') = [LinkData ?lid pt])" for pt r3
  proof -
    obtain iv r4 where iv: "E r3 16 = (iv, r4)" by fastforce
    have "length iv = 16" by (rule entropy_filled [OF assms(2) iv])
    then show ?thesis
      using link_sent [where E = E and r = r3 and X = X and pt = pt, OF p1(2) iv] link_data_received [OF ok(5) ok2 len _ r2(3) [unfolded k], of iv pt F None]
      by (simp add: touch_link_def Let_def)
  qed
  show ?thesis
    by (rule exI [of _ ?lid], rule exI [of _ ?key])
      (use e(1,2) req r2 pf p1 k data ok(4) in simp)
qed

theorem link_established_witness:
  "\<exists>req pf nd1' nd2' nd1'' lid key r1 r2 s2. establish_link toy_ext zeros demo_dest () demo_sender = (Inr lid, nd1', r1) \<and>
     handle_inbound_inner toy_ext zeros req 1 (Some ()) demo_receiver = ([LinkEstablished lid], nd2', s2) \<and>
     handle_inbound_inner toy_ext zeros pf 3 (Some r1) nd1' = ([LinkEstablished lid], nd1'', r2) \<and>
     live_link lid 1 key nd2' \<and> live_link lid 3 key nd1''"
proof -
  obtain res nd1' r1 where e: "establish_link toy_ext zeros demo_dest () demo_sender = (res, nd1', r1)" by (metis prod_cases3)
  let ?req = "snd (last (nd_outbound nd1'))"
  obtain evs2 nd2' s2 where h: "handle_inbound_inner toy_ext zeros ?req 1 (Some ()) demo_receiver = (evs2, nd2', s2)"
    by (metis prod_cases3)
  let ?pf = "snd (last (nd_outbound nd2'))"
  obtain evs1 nd1'' r2 where a: "handle_inbound_inner toy_ext zeros ?pf 3 (Some r1) nd1' = (evs1, nd1'', r2)"
    by (metis prod_cases3)
  have "steady demo_sender nd1'" using establish_keeps [of demo_sender toy_ext zeros demo_dest "()"] e by (auto simp: keeps_def)
  then have n: "nd_seen_packets nd1' = []" by (simp add: steady_def demo_sender_simps)
  have "\<exists>lid key. res = Inr lid \<and> nd_outbound nd1' = nd_outbound demo_sender @ [(pe_interface demo_route, ?req)] \<and>
    evs2 = [LinkEstablished lid] \<and> nd_outbound nd2' = nd_outbound demo_receiver @ [(1, ?pf)] \<and> evs1 = [LinkEstablished lid] \<and>
    length key = 64 \<and> live_link lid 1 key nd2' \<and> live_link lid (pe_interface demo_route) key nd1'' \<and>
    (\<forall>pt r3. (let (sent, nd3, r4) = link_send toy_ext zeros lid pt r3 nd1''; bs = snd (last (nd_outbound nd3))
       in sent = Inr () \<and> (unseen toy_ext bs nd2' \<longrightarrow> fst (handle_inbound_inner toy_ext zeros bs 1 None nd2') = [LinkData lid pt])))"
    by (rule link_established [OF toy_ok zeros_ok demo_sender_ok demo_receiver_ok demo_dest_length demo_sender_simps(1)
          _ _ _ find_local_Some [OF demo_receiver_find, THEN conjunct1] _ _ e HOL.refl _ _ h HOL.refl _ a])
      (simp_all add: n demo_sender_simps demo_receiver_simps is_single_def links_get_def bt_get_def)
  then obtain lid key where "res = Inr lid" "evs2 = [LinkEstablished lid]" "evs1 = [LinkEstablished lid]"
    "live_link lid 1 key nd2'" "live_link lid 3 key nd1''" by (auto simp: demo_sender_simps)
  then show ?thesis using e h a by blast
qed

section \<open>Routes\<close>

text \<open>C20: A path is discovered. A node announces a destination of its own, which it remembers; a node that is not
  a transport node, has interfaces, does not hold the destination itself and knows no live route of one hop
  or fewer to it asks for the path on all its interfaces; the request, when it and its tag are new to the
  first node, makes that node answer, on the interface of arrival only, with its announce; and the answer,
  when it and its random hash are new to the asker, gives the asker a route of one hop to the interface the
  answer came in on, holding the announcer's own public keys and valid for a week.\<close>

theorem path_discovered:
  assumes "crypto_ok X" "entropy_ok E" "entropy_ok F" and "node_ok nd0" "node_ok nd1" and "length dh = 16"
    and "find (\<lambda>l. ld_dest_hash l = dh \<and> is_single (ld_kind l)) (nd_locals nd0) = Some l" "length (ld_name_hash l) = 10"
    and "send_announce X F dh app s i0 nd0 = (nd2, s')"
    and "\<not> nd_transport_enabled nd1" "nd_interfaces nd1 \<noteq> []" "\<forall>l \<in> set (nd_locals nd1). ld_dest_hash l \<noteq> dh"
      "route_open dh nd1" "\<not> bt_contains (dh, fst (F s 10)) (nd_seen_announces nd1)"
    and "request_path X E dh r nd1 = (nd1', r')" and "req = snd (last (nd_outbound nd1'))"
    and "unseen X req nd2" "\<not> bt_contains (dh, fst (E r 16)) (nd_seen_path_requests nd2)"
    and "handle_inbound_inner X G req i rng nd2 = (evs2, nd2', rng')"
    and "resp = snd (last (nd_outbound nd2'))" and "unseen X resp nd1'"
    and "handle_inbound_inner X H resp j rng1 nd1' = (evs1, nd1'', rng1')"
  shows "nd_outbound nd1' = nd_outbound nd1 @ map (\<lambda>k. (k, req)) (nd_interfaces nd1) \<and>
    evs2 = [] \<and> nd_outbound nd2' = nd_outbound nd2 @ [(i, resp)] \<and> evs1 = [Announce dh 1] \<and>
    (\<exists>e. path_get dh (nd_paths nd1'') = Some e \<and> pe_interface e = j \<and> pe_hops e = 1 \<and>
       pe_public e = id_public X (nd_identity nd0) \<and> pe_expires_at e = sat_add (nd_clock nd1) 604800)"
proof -
  let ?tag = "fst (E r 16)" and ?rh = "fst (F s 10)"
  let ?a = "to_payload (announce_build X (nd_identity nd0) dh (ld_name_hash l) ?rh app)"
  have nd2: "bt_get dh (nd_cached_announces nd2) = Some (packet_announce dh ?a)" "nd_locals nd2 = nd_locals nd0"
    "node_ok nd2"
    using assms(7,9) node_ok_send_announce [OF assms(4), of X F dh app s i0]
    by (auto simp: send_announce_def Let_def case_prod_beta bt_simps)
  have "l \<in> set (nd_locals nd0) \<and> ld_dest_hash l = dh" using assms(7) by (auto simp: find_Some_iff)
  then have loc: "\<exists>l \<in> set (nd_locals nd2). ld_dest_hash l = dh" using nd2(2) by auto
  let ?req = "packet_encode (path_request X dh None ?tag)"
  have nd1': "nd1' = push_all (nd_interfaces nd1) ?req nd1"
    using assms(10,15) by (auto simp: request_path_def Let_def case_prod_beta)
  have req: "req = ?req" using assms(11,16) by (simp add: nd1' push_all_eq last_map)
  note ans = path_request_answered [OF crypto_okD(1) [OF assms(1)] nd2(3) assms(6) _ loc nd2(1) assms(18), of G i rng]
  let ?resp = "packet_encode (new_header1 SINGLE ANNOUNCE dh PATH_RESPONSE ?a)"
  have a2: "evs2 = []" "nd_outbound nd2' = nd_outbound nd2 @ [(i, ?resp)]"
    using ans assms(2,17,19) req by simp_all
  have resp: "resp = ?resp" using a2(2) assms(20) by simp
  have ok1: "node_ok nd1'" using assms(5) by (simp add: nd1')
  have same: "nd_locals nd1' = nd_locals nd1" "nd_seen_announces nd1' = nd_seen_announces nd1"
    "nd_paths nd1' = nd_paths nd1" "nd_clock nd1' = nd_clock nd1" by (simp_all add: nd1' push_all_eq)
  have o: "route_open dh nd1'" using assms(13) by (simp add: route_open_def same cong: option.case_cong)
  have "evs1 = [Announce dh 1]"
    "path_get dh (nd_paths nd1'') = Some (announced_route X (nd_identity nd0) ?rh j (nd_clock nd1))"
    using announce_received [OF assms(1) ok1 assms(8) _ assms(6) resp assms(21) _ _ o, of H j rng1] assms(3,12,14,22)
    by (simp_all add: same)
  then show ?thesis using a2 resp req
    by (simp add: nd1' push_all_eq announced_route_def PATH_EXPIRY_SECS_def)
qed

theorem path_discovered_witness:
  "\<exists>req resp nd2 nd2' nd1'' rng rng1 e. handle_inbound_inner toy_ext zeros req 1 None nd2 = ([], nd2', rng) \<and>
     handle_inbound_inner toy_ext zeros resp 4 None (fst (request_path toy_ext zeros demo_dest () (demo_fresh\<lparr>nd_interfaces := [4]\<rparr>))) =
       ([Announce demo_dest 1], nd1'', rng1) \<and>
     path_get demo_dest (nd_paths nd1'') = Some e \<and> pe_interface e = 4 \<and> pe_public e = id_public toy_ext demo_identity"
proof -
  let ?nd1 = "demo_fresh\<lparr>nd_interfaces := [4]\<rparr>"
  let ?l = "\<lparr>ld_name_hash = name_hash toy_ext [97] [], ld_dest_hash = demo_dest, ld_kind = Single True\<rparr>"
  obtain nd2 where s: "send_announce toy_ext zeros demo_dest [] () 1 demo_receiver = (nd2, ())" by (metis prod.exhaust unit.exhaust)
  obtain nd1' where r: "request_path toy_ext zeros demo_dest () ?nd1 = (nd1', ())" by (metis prod.exhaust unit.exhaust)
  let ?req = "snd (last (nd_outbound nd1'))"
  obtain evs2 nd2' rng where h: "handle_inbound_inner toy_ext zeros ?req 1 None nd2 = (evs2, nd2', rng)" by (metis prod_cases3)
  let ?resp = "snd (last (nd_outbound nd2'))"
  obtain evs1 nd1'' rng1 where a: "handle_inbound_inner toy_ext zeros ?resp 4 None nd1' = (evs1, nd1'', rng1)" by (metis prod_cases3)
  have f: "find (\<lambda>l. ld_dest_hash l = demo_dest \<and> is_single (ld_kind l)) (nd_locals demo_receiver) = Some ?l"
    by (simp add: demo_receiver_simps is_single_def)
  have ok1: "node_ok ?nd1" using demo_fresh_simps(1) by (simp add: node_ok_def)
  have n2: "nd_seen_packets nd2 = []" "nd_seen_path_requests nd2 = []"
    using s f by (auto simp: send_announce_def Let_def case_prod_beta demo_receiver_simps)
  have n1: "nd_seen_packets nd1' = []"
    using r by (auto simp: request_path_def Let_def case_prod_beta push_all_eq demo_fresh_simps)
  have "nd_outbound nd1' = nd_outbound ?nd1 @ map (\<lambda>k. (k, ?req)) (nd_interfaces ?nd1) \<and>
    evs2 = [] \<and> nd_outbound nd2' = nd_outbound nd2 @ [(1, ?resp)] \<and> evs1 = [Announce demo_dest 1] \<and>
    (\<exists>e. path_get demo_dest (nd_paths nd1'') = Some e \<and> pe_interface e = 4 \<and> pe_hops e = 1 \<and>
       pe_public e = id_public toy_ext (nd_identity demo_receiver) \<and> pe_expires_at e = sat_add (nd_clock ?nd1) 604800)"
    by (rule path_discovered [OF toy_ok zeros_ok zeros_ok demo_receiver_ok ok1 demo_dest_length f _ s _ _ _ _ _ r HOL.refl _ _ h HOL.refl _ a])
      (use crypto_okD(1) [OF toy_ok] in \<open>simp_all add: n1 n2 demo_fresh_simps route_open_def bt_contains_def bt_get_def\<close>)
  then obtain e where "evs2 = []" "evs1 = [Announce demo_dest 1]" "path_get demo_dest (nd_paths nd1'') = Some e"
    "pe_interface e = 4" "pe_public e = id_public toy_ext demo_identity" by (auto simp: demo_receiver_simps)
  then show ?thesis using h a r by (metis fst_conv)
qed

text \<open>C21: A relay forwards data once, onward and unchanged. Data for a destination that is not local
  causes no event; it is forwarded exactly when it is addressed to this node as a transport node below
  the hop limit and an unexpired route leads out of another interface than it came from; then one
  packet is queued there, one hop further, with the same contents and the same packet hash, addressed
  to the next relay of the route or, at the last hop, without a transport identity.\<close>

theorem data_relayed:
  assumes "node_ok nd" and "packet_decode bs = Inr p" "hops p < PATHFINDER_MAX_HOPS" "unseen X bs nd"
    and "packet_type p = DATA" "dest_type p \<noteq> LINK" "\<not> (dest_type p = PLAIN \<and> dest_hash p = path_request_destination_hash X)"
    and "find_local (dest_hash p) nd = None"
    and "handle_inbound_inner X E bs i rng nd = (evs, nd', rng')"
  shows "evs = [] \<and>
    (\<forall>e. relay_route X (p\<lparr>hops := sat_add (hops p) 1\<rparr>) i nd e \<longrightarrow>
       (\<exists>p'. nd_outbound nd' = nd_outbound nd @ [(pe_interface e, packet_encode p')] \<and> pe_interface e \<noteq> i \<and>
          hops p' = sat_add (hops p) 1 \<and> data p' = data p \<and> dest_hash p' = dest_hash p \<and> packet_hash X p' = packet_hash X p \<and>
          (if pe_hops e > 1 then header_type p' = HEADER_2 \<and> transport_id p' = pe_next_hop e
           else header_type p' = HEADER_1 \<and> transport_id p' = None))) \<and>
    ((\<forall>e. \<not> relay_route X (p\<lparr>hops := sat_add (hops p) 1\<rparr>) i nd e) \<longrightarrow> nd_outbound nd' = nd_outbound nd)"
proof -
  let ?p = "p\<lparr>hops := sat_add (hops p) 1\<rparr>" and ?n = "noted (packet_hash X p) nd"
  have bs: "bs = packet_encode p" using packet_decode_bytes [OF assms(2)] by simp
  have len: "length (dest_hash p) = 16" using packet_decode_ok [OF assms(2)] by (simp add: packet_ok_def)
  have "handle_inbound_inner X E bs i rng nd = dispatch X E ?p i rng ?n"
    unfolding bs by (rule inbound_encoded [OF packet_decode_ok [OF assms(2)] assms(3,1)]) (use assms(4) bs in simp)
  also have "\<dots> = (let (evs, nd) = handle_data X ?p (dest_hash p) i ?n in (evs, nd, rng))"
    using len assms(5-7) by (auto simp: dispatch_def try_array_def packet_types)
  finally have h: "evs = fst (handle_data X ?p (dest_hash ?p) i ?n)" "nd' = snd (handle_data X ?p (dest_hash ?p) i ?n)"
    using assms(9) by (simp_all add: case_prod_beta)
  have ok: "node_ok ?n" using assms(1) by simp
  have f: "find_local (dest_hash ?p) ?n = None" using assms(8) by (simp add: find_local_def)
  have r: "relay_route X ?p i ?n e = relay_route X ?p i nd e" for e by (simp add: relay_route_def)
  note e = relay_effect [OF ok f, of X i]
  have fwd: "\<exists>p'. nd_outbound nd' = nd_outbound nd @ [(pe_interface e, packet_encode p')] \<and> pe_interface e \<noteq> i \<and>
          hops p' = sat_add (hops p) 1 \<and> data p' = data p \<and> dest_hash p' = dest_hash p \<and> packet_hash X p' = packet_hash X p \<and>
          (if pe_hops e > 1 then header_type p' = HEADER_2 \<and> transport_id p' = pe_next_hop e
           else header_type p' = HEADER_1 \<and> transport_id p' = None)" if g: "relay_route X ?p i nd e" for e
    by (rule exI [of _ "relayed ?p e"])
      (use e(2) [unfolded r, OF g] g h(2) in \<open>simp add: relayed_def relay_route_def packet_hash_routing_indep\<close>)
  have "evs = []" using e(1) h(1) by simp
  moreover have "nd_outbound nd' = nd_outbound nd" if "\<forall>e. \<not> relay_route X ?p i nd e"
    using e(3) that h(2) by (simp add: r)
  ultimately show ?thesis using fwd by blast
qed

theorem data_relayed_witness:
  "\<exists>bs p' nd' rng'. handle_inbound_inner toy_ext zeros bs 1 None (demo_sender\<lparr>nd_transport_enabled := True\<rparr>) = ([], nd', rng') \<and>
     nd_outbound nd' = [(3, packet_encode p')] \<and> data p' = [9] \<and> hops p' = 1 \<and> transport_id p' = None"
proof -
  let ?nd = "demo_sender\<lparr>nd_transport_enabled := True\<rparr>"
  let ?p = "(data_single demo_dest [9])\<lparr>header_type := HEADER_2, propagation := TRANSPORT,
    transport_id := Some (id_hash toy_ext (nd_identity demo_sender))\<rparr>"
  obtain evs nd' rng' where h: "handle_inbound_inner toy_ext zeros (packet_encode ?p) 1 None ?nd = (evs, nd', rng')"
    by (metis prod_cases3)
  have p: "packet_ok ?p"
    using crypto_okD(1) [OF toy_ok]
    by (simp add: packet_ok_def data_single_def data_for_def new_header1_def demo_dest_length packet_consts)
  have fields: "hops ?p = 0" "packet_type ?p = DATA" "dest_type ?p = SINGLE" "dest_hash ?p = demo_dest" "data ?p = [9]"
    by (simp_all add: data_single_def data_for_def new_header1_def)
  have one: "sat_add (0 :: u8) 1 = 1" by (simp add: sat_add_def)
  have ok: "node_ok ?nd" by (simp add: demo_sender_ok)
  have f: "find_local (dest_hash ?p) ?nd = None" by (simp add: demo_sender_def node_with_clock_def find_local_def)
  have r: "relay_route toy_ext (?p\<lparr>hops := sat_add (hops ?p) 1\<rparr>) 1 ?nd demo_route"
    using fields one by (simp add: relay_route_def demo_sender_simps PATHFINDER_MAX_HOPS_def)
  have "\<exists>p'. nd_outbound nd' = nd_outbound ?nd @ [(pe_interface demo_route, packet_encode p')] \<and> hops p' = sat_add (hops ?p) 1 \<and>
      data p' = data ?p \<and> transport_id p' = None \<and> evs = []"
    using data_relayed [OF ok packet_decode_encode [OF p] _ _ _ _ _ f h] r fields
    by (fastforce simp: demo_sender_simps PATHFINDER_MAX_HOPS_def dest_types)
  then show ?thesis using h fields one by (auto simp: demo_sender_simps)
qed

end
