(* ===== verification/Driver_Properties.thy ===== *)
theory Driver_Properties
  imports Driver_Tables Driver_Exchange Node_Delivery Lxmf_Properties
begin

text \<open>
  The properties of the driver: it is faithful to its node, its tables and snapshots are consistent, and
  two drivers deliver an LXMF message over a link they establish for it.
\<close>

section \<open>The driver and its node\<close>

text \<open>C9: The driver refines its node: started on a node and run through any commands, packets, failures,
  registrations and ticks, with time passing in between, it moves the node by operations of the node's
  interface only, and the events it reports to the application are those of the node, its errors included,
  each once and in order, with an LXMF message in place of the message or link data that carried it; all it
  adds are errors of its own.\<close>

theorem driver_refines_node:
  assumes "d0 \<in> driver_starts X nd interfaces keep_alive r"
    and "driver_run X E d0 d"
  shows "\<exists>evs. node_run X E (nd, r) evs (dr_node d, dr_entropy d) \<and> reports X evs (dr_events d)"
proof -
  let ?e = "fst (driver_build nd [] keep_alive r)"
  have "faithful X E ?e d" by (rule faithful_trans [OF faithful_start [OF assms(1)] run_faithful [OF assms(2)]])
  then show ?thesis unfolding faithful_def served_def by (simp add: driver_build_def Let_def)
qed

lemma demo_round:
  "\<exists>d'. driver_step toy_ext zeros (Inbound (Some (Packet 1 (packet_encode (data_single demo_dest
      (token_encrypt toy_ext (id_public toy_ext demo_identity) [7] [] (replicate 16 0)))))))
      (fst (driver_build demo_receiver [(1, None)] True ())) = Some (Running d' NoReply) \<and> dr_events d' = [Message demo_dest [7]]"
proof -
  let ?d = "fst (driver_build demo_receiver [(1, None)] True ())"
  let ?q = "data_single demo_dest (token_encrypt toy_ext (id_public toy_ext demo_identity) [7] [] (replicate 16 0))"
  have d: "dr_node ?d = register_interface 1 demo_receiver" "dr_interfaces ?d = [(1, None)]" "dr_events ?d = []"
    "dr_lxmf ?d = None" "dr_entropy ?d = ()"
    by (simp_all add: driver_build_def register_iface_def Let_def)
  have ok: "node_ok (dr_node ?d)" unfolding d using demo_receiver_ok by simp
  have n: "find_local demo_dest (dr_node ?d) = find_local demo_dest demo_receiver"
    "nd_identity (dr_node ?d) = demo_identity" "nd_outbound (dr_node ?d) = []" "nd_seen_packets (dr_node ?d) = []"
    by (simp_all add: d find_local_def register_interface_def demo_receiver_simps)
  obtain evs nd rng where h: "handle_inbound_inner toy_ext zeros (packet_encode ?q) 1 (Some (dr_entropy ?d)) (dr_node ?d) = (evs, nd, rng)"
    by (metis prod_cases3)
  have "evs = [Message demo_dest [7]]" "\<forall>ip \<in> set (nd_outbound nd). bt_get (fst ip) (dr_interfaces ?d) = Some None"
    using message_received [OF toy_ok ok demo_dest_length _ _ _ HOL.refl, of "replicate 16 0" _ True "[7]" "[]" zeros 1 "Some (dr_entropy ?d)"]
      h n demo_receiver_find by (simp_all add: d bt_get_def)
  then obtain d' where "driver_step toy_ext zeros (Inbound (Some (Packet 1 (packet_encode ?q)))) ?d = Some (Running d' NoReply)"
    "dr_events d' = dr_events ?d @ [translate_event toy_ext (Message demo_dest [7]) (dr_lxmf ?d)]"
    using inbound_round [of toy_ext zeros "packet_encode ?q" 1 ?d "Message demo_dest [7]" nd rng] h by blast
  then show ?thesis by (auto simp: d translate_event_def)
qed

theorem driver_refines_node_witness:
  "\<exists>evs (d :: unit driver). dr_events d = [Message demo_dest [7]] \<and> node_run toy_ext zeros (demo_receiver, ()) evs (dr_node d, ()) \<and>
     reports toy_ext evs [Message demo_dest [7]]"
proof -
  let ?d = "fst (driver_build demo_receiver [(1, None)] True ())"
  obtain d' bs where r: "driver_step toy_ext zeros (Inbound (Some (Packet 1 bs))) ?d = Some (Running d' NoReply)"
    "dr_events d' = [Message demo_dest [7]]"
    using demo_round by blast
  have "driver_run toy_ext zeros ?d d'" by (rule driver_run.round [OF driver_run.start r(1)])
  then show ?thesis
    using driver_refines_node [of ?d toy_ext demo_receiver "[(1, None)]" True "()" zeros d'] r(2)
    by (auto simp: driver_starts_def)
qed

text \<open>C24: The driver's tables are consistent whatever happens to its interfaces: between two rounds
  nothing is left in the node's queue, and a snapshot lists every interface once, in ascending order,
  online exactly when the driver has a channel to it; routes are listed in ascending order too. Taking
  the snapshot changes nothing.\<close>

theorem driver_snapshot_consistent:
  assumes "nd_outbound nd = []"
    and "d0 \<in> driver_starts X nd interfaces keep_alive r"
    and "driver_run X E d0 d"
  shows "\<exists>snap. driver_step X E (Command (Some CmdSnapshot)) d = Some (Running d (SnapshotReply snap)) \<and>
    nd_outbound (dr_node d) = [] \<and> sorted_wrt (<) (map is_id (ds_interfaces snap)) \<and>
    {is_id s | s. s \<in> set (ds_interfaces snap) \<and> is_online s} = set (bt_keys (dr_interfaces d)) \<and>
    sorted (map ps_destination (ds_paths snap))"
proof -
  have "driver_ok d" by (rule driver_ok_run [OF assms(3) driver_ok_start [OF assms(1,2)]])
  then show ?thesis
    using snapshot_interfaces [of d X] by (simp add: driver_ok_def driver_step_def) (simp add: snapshot_state_def)
qed

theorem driver_snapshot_consistent_witness:
  "\<exists>snap. driver_step toy_ext zeros (Command (Some CmdSnapshot)) (fst (driver_build demo_receiver [(4, None), (1, None)] True ())) =
      Some (Running (fst (driver_build demo_receiver [(4, None), (1, None)] True ())) (SnapshotReply snap)) \<and>
    {is_id s | s. s \<in> set (ds_interfaces snap) \<and> is_online s} = {1, 4}"
proof -
  let ?d = "fst (driver_build demo_receiver [(4, None), (1, None)] True ())"
  have "set (bt_keys (dr_interfaces ?d)) = {1, 4}"
    by (auto simp: driver_build_def register_iface_def Let_def bt_keys_def)
  then show ?thesis
    using driver_snapshot_consistent [OF demo_receiver_simps(5) _ driver_run.start, of ?d toy_ext "[(4, None), (1, None)]" True "()" zeros]
    by (auto simp: driver_starts_def)
qed


section \<open>Messages between two drivers\<close>

text \<open>C5: An LXMF message is delivered directly. A driver with a direct, unexpired route to the message's
  destination opens a link for it and returns the link's identifier; the packet it sends makes the
  destination's driver report the link and answer with a proof; the proof makes the sender report the
  link and send the waiting message, last on the interface of the route; and whenever the
  other driver, whose router knows the sender, receives that packet over the link, it reports exactly
  the title, content and fields given, with the sender's address and the time of the command.\<close>

theorem lxmf_direct_delivered:
  assumes "crypto_ok X" "rmp_ok X" "entropy_ok E"
    and "node_ok (dr_node d1)" "nd_outbound (dr_node d1) = []" "dr_lxmf d1 = Some rt1"
      "lr_local_destination (rt_router rt1) = src" "length src = 16"
    and "node_ok (dr_node d2)" "nd_outbound (dr_node d2) = []" "dr_lxmf d2 = Some rt2" "length dh = 16"
      "l \<in> set (nd_locals (dr_node d2))" "ld_dest_hash l = dh" "is_single (ld_kind l)"
    and "path_get dh (nd_paths (dr_node d1)) = Some entry" "nd_clock (dr_node d1) < pe_expires_at entry"
      "pe_hops entry \<le> 1" "pe_public entry = id_public X (nd_identity (dr_node d2))"
    and "bt_get (pe_interface entry) (dr_interfaces d1) = Some None" "bt_get i (dr_interfaces d2) = Some None"
    and "length ti < 2 ^ 32" "length co < 2 ^ 32" "length f < 2 ^ 62" "fields_ok f"
    and "driver_step X E (Command (Some (CmdLxmfSendDirect dh ti co f))) d1 = Some (Running d1a reply)"
      "req = snd (last (dr_sent d1a))" "unseen X req (dr_node d2)"
      "\<forall>lid. reply = HashReply (Inr lid) \<longrightarrow>
         links_get lid (nd_links (dr_node d2)) = None \<and> bt_get lid (rt_pending_direct rt2) = None"
    and "driver_step X F (Inbound (Some (Packet i req))) d2 = Some (Running d2a reply2)"
      "pf = snd (last (dr_sent d2a))" "unseen X pf (dr_node d1a)"
    and "driver_step X E (Inbound (Some (Packet j pf))) d1a = Some (Running d1b reply3)" "bs = snd (last (dr_sent d1b))"
  shows "\<exists>lid key. reply = HashReply (Inr lid) \<and> dr_sent d1a = dr_sent d1 @ [(pe_interface entry, req)] \<and>
    dr_events d2a = dr_events d2 @ [LinkEstablished lid] \<and> dr_sent d2a = dr_sent d2 @ [(i, pf)] \<and>
    dr_lxmf d2a = dr_lxmf d2 \<and> live_link lid i key (dr_node d2a) \<and>
    dr_events d1b = dr_events d1 @ [LinkEstablished lid] \<and> last (dr_sent d1b) = (pe_interface entry, bs) \<and>
    (\<forall>d rt. node_ok (dr_node d) \<and> nd_outbound (dr_node d) = [] \<and> live_link lid i key (dr_node d) \<and>
       unseen X bs (dr_node d) \<and> dr_lxmf d = Some rt \<and> lr_local_destination (rt_router rt) = dh \<and>
       lr_stamp_cost (rt_router rt) = None \<and>
       bt_get src (lr_source_identities (rt_router rt)) = Some (id_public X (nd_identity (dr_node d1))) \<longrightarrow>
       (\<exists>d'. driver_step X F (Inbound (Some (Packet i bs))) d = Some (Running d' NoReply) \<and>
          dr_events d' = dr_events d @ [LxmfMessage dh src (f64_of_u64 (nd_clock (dr_node d1))) ti co f]))"
proof -
  note ok = crypto_okD [OF assms(1)]
  let ?n1 = "dr_node d1" and ?n2 = "dr_node d2" and ?k = "pe_interface entry"
  obtain a ra where a: "E (dr_entropy d1) 32 = (a, ra)" by fastforce
  obtain b rb where b: "E ra 32 = (b, rb)" by fastforce
  let ?eph = "ephemeral_from_private_bytes X a b"
  let ?q = "link_request dh (link_request_payload ?eph)"
  let ?lid = "link_id_from_request X ?q"
  let ?m = "lxmf_build X (nd_identity ?n1) dh src (f64_of_u64 (nd_clock ?n1)) ti co f"
  let ?nd = "fst (snd (establish_link X E dh (dr_entropy d1) ?n1))"
  have g: "ephemeral_generate X E (dr_entropy d1) = (?eph, rb)" by (simp add: ephemeral_generate_def a b)
  have len: "length ?lid = 16" using ok(1) by simp
  obtain d1' where "driver_step X E (Command (Some (CmdLxmfSendDirect dh ti co f))) d1 = Some (Running d1' (HashReply (Inr ?lid)))"
    and s1: "dr_sent d1' = dr_sent d1 @ [(?k, packet_encode ?q)]" "dr_events d1' = dr_events d1" "dr_node d1' = ?nd\<lparr>nd_outbound := []\<rparr>"
      "\<forall>j. bt_get j (dr_interfaces d1') = bt_get j (dr_interfaces d1)"
      "dr_lxmf d1' = Some (rt1\<lparr>rt_pending_direct := bt_insert ?lid ?m (rt_pending_direct rt1)\<rparr>)"
    using direct_requested [OF assms(4-6,16-18,20) g, of ti co f] assms(7) by metis
  then have r1: "d1a = d1'" "reply = HashReply (Inr ?lid)" using assms(26) by simp_all
  have req: "req = packet_encode ?q" using assms(27) s1(1) r1(1) by simp
  obtain d2' c e where "driver_step X F (Inbound (Some (Packet i req))) d2 = Some (Running d2' NoReply)"
    and s2: "dr_sent d2' = dr_sent d2 @ [(i, packet_encode (packet_proof ?lid
      (build_link_proof X (nd_identity ?n2) ?lid (ephemeral_from_private_bytes X c e)) LRPROOF))]"
      "dr_events d2' = dr_events d2 @ [LinkEstablished ?lid]" "dr_lxmf d2' = dr_lxmf d2"
      "live_link ?lid i (derive_link_key X c (x25519_pub ?eph) ?lid) (dr_node d2')"
    by (rule request_round [OF assms(1,9,10,12-15,11) _ assms(21) HOL.refl HOL.refl _ req assms(28)]) (use assms(29) r1(2) in auto)
  then have r2: "d2a = d2'" using assms(30) by simp
  let ?resp = "ephemeral_from_private_bytes X c e"
  have pf: "pf = packet_encode (packet_proof ?lid (build_link_proof X (nd_identity ?n2) ?lid ?resp) LRPROOF)"
    using assms(31) r2 s2(1) by simp
  let ?key = "derive_link_key X a (x25519_pub ?resp) ?lid"
  have key: "derive_link_key X c (x25519_pub ?eph) ?lid = ?key" using derive_link_key_agree [OF ok(2)] by simp
  let ?l = "\<lparr>le_status = Pending, le_initiator = True, le_ephemeral = ?eph,
      le_peer_x25519_pub = None, le_destination_public = Some (pe_public entry), le_derived_key = None,
      le_interface = ?k, le_last_activity = nd_clock ?n1, le_last_keepalive = nd_clock ?n1\<rparr>"
  have l1: "links_get ?lid (nd_links (dr_node d1a)) = Some ?l"
    using establish_sent(4) [OF assms(16-18,4) g HOL.refl] by (simp add: r1 s1)
  obtain d1'' q iv where "driver_step X E (Inbound (Some (Packet j pf))) d1a = Some (Running d1'' NoReply)"
    and s3: "dr_sent d1'' = dr_sent d1a @ q @ [(le_interface ?l, packet_encode (link_data ?lid (seal_with_key X
        (derive_link_key X (x25519_prv (le_ephemeral ?l)) (x25519_pub ?resp) ?lid) (lxmf_pack X ?m) iv)))]"
      "dr_events d1'' = dr_events d1a @ [LinkEstablished ?lid]" "length iv = 16"
    by (rule proof_round [OF assms(1,3) _ _ len l1 _ _ _ _ HOL.refl pf assms(32)])
      (use assms(4,19,20) s1 r1(1) in \<open>auto simp: bt_simps\<close>)
  then have r3: "d1b = d1''" using assms(33) by simp
  have bs: "bs = packet_encode (link_data ?lid (seal_with_key X ?key (lxmf_pack X ?m) iv))" using assms(34) r3 s3(1) by simp
  have final: "\<exists>d'. driver_step X F (Inbound (Some (Packet i bs))) d = Some (Running d' NoReply) \<and>
      dr_events d' = dr_events d @ [LxmfMessage dh src (f64_of_u64 (nd_clock ?n1)) ti co f]"
    if "node_ok (dr_node d)" "nd_outbound (dr_node d) = []" "live_link ?lid i ?key (dr_node d)" "unseen X bs (dr_node d)"
      "dr_lxmf d = Some rt" "lr_local_destination (rt_router rt) = dh" "lr_stamp_cost (rt_router rt) = None"
      "bt_get src (lr_source_identities (rt_router rt)) = Some (id_public X (nd_identity ?n1))" for d rt
    using message_reported [OF assms(1,2) that(1-3) len that(5-8) assms(12,8) f64_of_u64_finite assms(22-25) bs s3(3) that(4), of F] by blast
  have parts: "reply = HashReply (Inr ?lid) \<and> dr_sent d1a = dr_sent d1 @ [(?k, req)] \<and>
    dr_events d2a = dr_events d2 @ [LinkEstablished ?lid] \<and> dr_sent d2a = dr_sent d2 @ [(i, pf)] \<and>
    dr_lxmf d2a = dr_lxmf d2 \<and> live_link ?lid i ?key (dr_node d2a) \<and>
    dr_events d1b = dr_events d1 @ [LinkEstablished ?lid] \<and> last (dr_sent d1b) = (?k, bs)"
    using r1 s1(1,2) req r2 s2 pf key r3 s3 bs by simp
  show ?thesis
    by (rule exI [of _ ?lid], rule exI [of _ ?key]) (use parts final in blast)
qed


text \<open>Two drivers of the toy world: the sender knows a route to the other's messaging address on
  interface 3, the receiver's router knows the sender.\<close>

definition lxmf_driver :: "identity \<Rightarrow> (bytes \<times> path_entry) list \<Rightarrow> u16 \<Rightarrow> unit driver" where
  "lxmf_driver ident routes i =
     snd (enable_lxmf toy_ext (fst (driver_build ((node_with_clock ident 5)\<lparr>nd_paths := routes\<rparr>) [(i, None)] True ())))"

definition demo_author :: identity where "demo_author = from_private_bytes [3] [4]"

definition lxmf_address :: "identity \<Rightarrow> bytes" where
  "lxmf_address ident = delivery_destination_hash toy_ext (id_public toy_ext ident)"

definition demo_sending :: "unit driver" where
  "demo_sending = lxmf_driver demo_author [(lxmf_address demo_identity, demo_route)] 3"

definition demo_receiving :: "unit driver" where
  "demo_receiving = (lxmf_driver demo_identity [] 1)\<lparr>dr_lxmf := Some \<lparr>rt_router = snd (remember_source toy_ext
     (id_public toy_ext demo_author) (router_new toy_ext (id_public toy_ext demo_identity))), rt_pending_direct = []\<rparr>\<rparr>"

lemma lxmf_driver_simps [simp]:
  "nd_identity (dr_node (lxmf_driver ident routes i)) = ident" "nd_paths (dr_node (lxmf_driver ident routes i)) = routes"
  "nd_links (dr_node (lxmf_driver ident routes i)) = []" "nd_seen_packets (dr_node (lxmf_driver ident routes i)) = []"
  "nd_outbound (dr_node (lxmf_driver ident routes i)) = []" "nd_clock (dr_node (lxmf_driver ident routes i)) = 5"
  "nd_locals (dr_node (lxmf_driver ident routes i)) = [\<lparr>ld_name_hash = name_hash toy_ext (str ''lxmf'') [str ''delivery''],
     ld_dest_hash = lxmf_address ident, ld_kind = Single False\<rparr>]"
  "dr_interfaces (lxmf_driver ident routes i) = [(i, None)]"
  "dr_lxmf (lxmf_driver ident routes i) = Some \<lparr>rt_router = router_new toy_ext (id_public toy_ext ident), rt_pending_direct = []\<rparr>"
  by (simp_all add: lxmf_driver_def enable_lxmf_def driver_build_def register_iface_def register_interface_def
      register_single_destination_def push_local_def node_with_clock_def lxmf_address_def delivery_destination_hash_def
      id_hash_def Let_def)

lemma lxmf_driver_ok: "bt_ok routes \<Longrightarrow> node_ok (dr_node (lxmf_driver ident routes i))" "driver_ok (lxmf_driver ident routes i)"
proof -
  let ?nd = "(node_with_clock ident 5)\<lparr>nd_paths := routes\<rparr>"
  have d: "lxmf_driver ident routes i \<in> driver_starts toy_ext ?nd [(i, None)] True ()"
    by (simp add: lxmf_driver_def driver_starts_def)
  then show "driver_ok (lxmf_driver ident routes i)" by (intro driver_ok_start [OF _ d]) (simp add: node_with_clock_def)
  assume "bt_ok routes"
  then have "node_ok ?nd" by simp
  have "dr_node (fst (driver_build ?nd [] True ())) = ?nd" by (simp add: driver_build_def Let_def)
  then show "node_ok (dr_node (lxmf_driver ident routes i))"
    using faithful_node_ok [OF faithful_start [OF d] crypto_okD(4) [OF toy_ok]] \<open>node_ok ?nd\<close> by simp
qed

lemma lxmf_address_length: "length (lxmf_address ident) = 16"
  using crypto_okD(1) [OF toy_ok] by (simp add: lxmf_address_def)

lemma direct_step:
  obtains d' reply where "driver_step X E (Command (Some (CmdLxmfSendDirect dh ti co f))) d = Some (Running d' reply)"
  by (simp add: driver_step_def case_prod_beta)

lemma packet_step:
  obtains d' where "driver_step X E (Inbound (Some (Packet i bs))) d = Some (Running d' NoReply)"
  by (simp add: driver_step_def driver_inbound_def Let_def case_prod_beta)

lemma demo_sending_simps:
  "node_ok (dr_node demo_sending)" "nd_outbound (dr_node demo_sending) = []" "nd_seen_packets (dr_node demo_sending) = []"
  "dr_lxmf demo_sending = Some \<lparr>rt_router = router_new toy_ext (id_public toy_ext demo_author), rt_pending_direct = []\<rparr>"
  "nd_clock (dr_node demo_sending) = 5" "dr_interfaces demo_sending = [(3, None)]"
  "path_get (lxmf_address demo_identity) (nd_paths (dr_node demo_sending)) = Some demo_route"
  "nd_identity (dr_node demo_sending) = demo_author"
  unfolding demo_sending_def by (rule lxmf_driver_ok) (simp_all add: path_get_def bt_get_def bt_ok_def bt_keys_def)

lemma demo_receiving_simps:
  "node_ok (dr_node demo_receiving)" "driver_ok demo_receiving" "nd_outbound (dr_node demo_receiving) = []"
  "dr_lxmf demo_receiving = Some \<lparr>rt_router = snd (remember_source toy_ext
     (id_public toy_ext demo_author) (router_new toy_ext (id_public toy_ext demo_identity))), rt_pending_direct = []\<rparr>"
  "nd_seen_packets (dr_node demo_receiving) = []" "nd_links (dr_node demo_receiving) = []"
  "dr_interfaces demo_receiving = [(1, None)]" "nd_identity (dr_node demo_receiving) = demo_identity"
  "nd_locals (dr_node demo_receiving) = [\<lparr>ld_name_hash = name_hash toy_ext (str ''lxmf'') [str ''delivery''],
     ld_dest_hash = lxmf_address demo_identity, ld_kind = Single False\<rparr>]"
  using lxmf_driver_ok(1) [of "[]" demo_identity 1] lxmf_driver_ok(2) [of demo_identity "[]" 1]
  by (simp_all add: demo_receiving_def driver_ok_def tables_fields)

text \<open>The sender has not seen any packet after its command.\<close>

lemma demo_sent_unseen:
  assumes "driver_step toy_ext zeros (Command (Some (CmdLxmfSendDirect (lxmf_address demo_identity) ti co f))) demo_sending =
    Some (Running d reply)"
  shows "nd_seen_packets (dr_node d) = []"
proof -
  let ?nd = "fst (snd (establish_link toy_ext zeros (lxmf_address demo_identity) (dr_entropy demo_sending) (dr_node demo_sending)))"
  obtain eph r' where g: "ephemeral_generate toy_ext zeros (dr_entropy demo_sending) = (eph, r')"
    by (metis surj_pair)
  obtain d' reply' where "driver_step toy_ext zeros (Command (Some (CmdLxmfSendDirect (lxmf_address demo_identity) ti co f))) demo_sending =
      Some (Running d' reply')" "dr_node d' = ?nd\<lparr>nd_outbound := []\<rparr>"
    by (rule direct_requested [OF demo_sending_simps(1,2,4,7) _ _ _ g])
      (simp_all add: demo_sending_simps demo_sender_simps bt_get_def)
  then have "dr_node d = ?nd\<lparr>nd_outbound := []\<rparr>" using assms by simp
  moreover have "steady (dr_node demo_sending) ?nd"
    using establish_keeps [of "dr_node demo_sending" toy_ext zeros "lxmf_address demo_identity" "dr_entropy demo_sending"]
    by (auto simp: keeps_def)
  ultimately show ?thesis by (simp add: steady_def demo_sending_simps)
qed

theorem lxmf_direct_delivered_witness:
  "\<exists>(d :: unit driver) d' bs. driver_step toy_ext zeros (Inbound (Some (Packet 1 bs))) d = Some (Running d' NoReply) \<and>
     dr_events d' = dr_events d @ [LxmfMessage (lxmf_address demo_identity) (lxmf_address demo_author) (f64_of_u64 5) [104] [105] [0x80]]"
proof -
  let ?dh = "lxmf_address demo_identity" and ?src = "lxmf_address demo_author"
  obtain d1a reply where s1: "driver_step toy_ext zeros (Command (Some (CmdLxmfSendDirect ?dh [104] [105] [0x80]))) demo_sending =
      Some (Running d1a reply)" by (rule direct_step)
  let ?req = "snd (last (dr_sent d1a))"
  obtain d2a where s2: "driver_step toy_ext zeros (Inbound (Some (Packet 1 ?req))) demo_receiving = Some (Running d2a NoReply)"
    by (rule packet_step)
  let ?pf = "snd (last (dr_sent d2a))"
  obtain d1b where s3: "driver_step toy_ext zeros (Inbound (Some (Packet 3 ?pf))) d1a = Some (Running d1b NoReply)"
    by (rule packet_step)
  let ?bs = "snd (last (dr_sent d1b))"
  let ?d = "d2a\<lparr>dr_node := (dr_node d2a)\<lparr>nd_seen_packets := []\<rparr>\<rparr>"
  have ok2: "node_ok (dr_node d2a)" "nd_outbound (dr_node d2a) = []"
    using faithful_node_ok [OF step_faithful [OF s2] crypto_okD(4) [OF toy_ok]] driver_ok_step [OF s2 demo_receiving_simps(2)]
    by (simp_all add: demo_receiving_simps) (simp add: driver_ok_def)
  have p1: "lr_local_destination (rt_router \<lparr>rt_router = router_new toy_ext (id_public toy_ext demo_author),
      rt_pending_direct = ([] :: (bytes, lxmf_message) btree)\<rparr>) = ?src"
    by (simp add: router_new_def lxmf_address_def)
  have p2: "\<lparr>ld_name_hash = name_hash toy_ext (str ''lxmf'') [str ''delivery''], ld_dest_hash = ?dh, ld_kind = Single False\<rparr>
      \<in> set (nd_locals (dr_node demo_receiving))" by (simp add: demo_receiving_simps)
  obtain lid key where r: "dr_lxmf d2a = dr_lxmf demo_receiving" "live_link lid 1 key (dr_node d2a)"
    "\<forall>d rt. node_ok (dr_node d) \<and> nd_outbound (dr_node d) = [] \<and> live_link lid 1 key (dr_node d) \<and>
       unseen toy_ext ?bs (dr_node d) \<and> dr_lxmf d = Some rt \<and> lr_local_destination (rt_router rt) = ?dh \<and>
       lr_stamp_cost (rt_router rt) = None \<and>
       bt_get ?src (lr_source_identities (rt_router rt)) = Some (id_public toy_ext (nd_identity (dr_node demo_sending))) \<longrightarrow>
       (\<exists>d'. driver_step toy_ext zeros (Inbound (Some (Packet 1 ?bs))) d = Some (Running d' NoReply) \<and>
          dr_events d' = dr_events d @ [LxmfMessage ?dh ?src (f64_of_u64 (nd_clock (dr_node demo_sending))) [104] [105] [0x80]])"
    using lxmf_direct_delivered [OF toy_ok toy_rmp_ok zeros_ok demo_sending_simps(1,2,4) p1 lxmf_address_length
        demo_receiving_simps(1,3,4) lxmf_address_length p2 _ _ demo_sending_simps(7) _ _ _ _ _ _ _ _ empty_fields s1 HOL.refl
        _ _ s2 HOL.refl _ s3 HOL.refl]
      demo_sent_unseen [OF s1]
    by (simp add: demo_sending_simps(5,6) demo_receiving_simps(5-8) demo_sender_simps is_single_def bt_get_def [of _ "[(_, _)]"]
        links_get_def bt_get_def [of _ "[]"]) blast
  let ?rt = "\<lparr>rt_router = snd (remember_source toy_ext (id_public toy_ext demo_author)
      (router_new toy_ext (id_public toy_ext demo_identity))), rt_pending_direct = [] :: (bytes, lxmf_message) btree\<rparr>"
  have rt: "lr_local_destination (rt_router ?rt) = ?dh" "lr_stamp_cost (rt_router ?rt) = None"
    "bt_get ?src (lr_source_identities (rt_router ?rt)) = Some (id_public toy_ext (nd_identity (dr_node demo_sending)))"
    using remember_source_get by (simp_all add: demo_sending_simps remember_source_def router_new_def lxmf_address_def bt_get_def Let_def)
  have "\<exists>d'. driver_step toy_ext zeros (Inbound (Some (Packet 1 ?bs))) ?d = Some (Running d' NoReply) \<and>
      dr_events d' = dr_events ?d @ [LxmfMessage ?dh ?src (f64_of_u64 (nd_clock (dr_node demo_sending))) [104] [105] [0x80]]"
    by (rule r(3) [rule_format, of ?d ?rt], intro conjI rt)
      (use ok2 r(1,2) in \<open>simp_all add: demo_receiving_simps live_link_def\<close>)
  then obtain d' where "driver_step toy_ext zeros (Inbound (Some (Packet 1 ?bs))) ?d = Some (Running d' NoReply)"
    "dr_events d' = dr_events ?d @ [LxmfMessage ?dh ?src (f64_of_u64 5) [104] [105] [0x80]]"
    by (auto simp: demo_sending_simps)
  then show ?thesis by (intro exI [of _ ?d] exI [of _ d'] exI [of _ ?bs]) simp
qed

end
