(* ===== verification/Text_Forms.thy ===== *)
theory Text_Forms
  imports Node_State
begin

text \<open>
  How the applications around the driver (reticulum-tokio, reticulum-cli, reticulum-tui, reticulum-ffi) turn
  values into text: numbers, lossy UTF-8, the fraction of a transfer, errors. A String is its UTF-8 bytes, a
  char its code point.
\<close>

section \<open>Numbers and lists\<close>

definition digit :: "nat \<Rightarrow> u8" where
  "digit n = (if n < 10 then word_of_nat (48 + n) else word_of_nat (87 + n))"

fun numeral :: "nat \<Rightarrow> nat \<Rightarrow> bytes" where
  "numeral base n = (if base < 2 \<or> n < base then [digit n] else numeral base (n div base) @ [digit (n mod base)])"

declare numeral.simps [simp del]

definition decimal :: "nat \<Rightarrow> bytes" where "decimal n = numeral 10 n"

fun join :: "bytes \<Rightarrow> bytes list \<Rightarrow> bytes" where
  "join sep [] = []"
| "join sep [b] = b"
| "join sep (b # bs) = b @ sep @ join sep bs"

section \<open>Characters\<close>

type_synonym scalar = u32

definition is_control :: "scalar \<Rightarrow> bool" where
  "is_control c \<longleftrightarrow> c \<le> 0x1F \<or> 0x7F \<le> c \<and> c \<le> 0x9F"

definition utf8_char :: "scalar \<Rightarrow> bytes" where
  "utf8_char c =
     (let tail = \<lambda>k. 0x80 OR ucast (drop_bit (6 * k) c AND 0x3F) in
      if c < 0x80 then [ucast c]
      else if c < 0x800 then [0xC0 OR ucast (drop_bit 6 c), tail 0]
      else if c < 0x10000 then [0xE0 OR ucast (drop_bit 12 c), tail 1, tail 0]
      else [0xF0 OR ucast (drop_bit 18 c), tail 2, tail 1, tail 0])"

text \<open>\<open>String::pop\<close>: the last byte with the continuation bytes before it up to the lead byte.\<close>

definition pop_char :: "bytes \<Rightarrow> bytes" where
  "pop_char s = rev (drop 1 (dropWhile cont_byte (rev s)))"

text \<open>\<open>String::from_utf8_lossy\<close>. One step: how many bytes form the next character, or the sequence that
  is replaced by U+FFFD.\<close>

definition utf8_step :: "u8 \<Rightarrow> bytes \<Rightarrow> nat \<times> bool" where
  "utf8_step a r =
     (let byte_at = \<lambda>k. if k < length r then r ! k else 0;
          second = (if a = 0xE0 then 0xA0 \<le> byte_at 0 \<and> byte_at 0 \<le> 0xBF
                    else if a = 0xED then 0x80 \<le> byte_at 0 \<and> byte_at 0 \<le> 0x9F
                    else if a = 0xF0 then 0x90 \<le> byte_at 0 \<and> byte_at 0 \<le> 0xBF
                    else if a = 0xF4 then 0x80 \<le> byte_at 0 \<and> byte_at 0 \<le> 0x8F
                    else cont_byte (byte_at 0))
      in if a \<le> 0x7F then (1, True)
         else if 0xC2 \<le> a \<and> a \<le> 0xDF then (if second then (2, True) else (1, False))
         else if 0xE0 \<le> a \<and> a \<le> 0xEF then
           (if \<not> second then (1, False) else if \<not> cont_byte (byte_at 1) then (2, False) else (3, True))
         else if 0xF0 \<le> a \<and> a \<le> 0xF4 then
           (if \<not> second then (1, False) else if \<not> cont_byte (byte_at 1) then (2, False)
            else if \<not> cont_byte (byte_at 2) then (3, False) else (4, True))
         else (1, False))"

lemma utf8_step_pos: "0 < fst (utf8_step a r)"
  by (simp add: utf8_step_def Let_def)

function utf8_lossy :: "bytes \<Rightarrow> bytes" where
  "utf8_lossy [] = []"
| "utf8_lossy (a # r) =
     (case utf8_step a r of (n, ok) \<Rightarrow>
        (if ok then take n (a # r) else [0xEF, 0xBF, 0xBD]) @ utf8_lossy (drop n (a # r)))"
  by pat_completeness auto
termination
  by (relation "measure length") (use utf8_step_pos in \<open>auto simp: drop_Cons' dest: arg_cong [of "(_, _)" _ fst]\<close>)

section \<open>Fractions\<close>

text \<open>The fraction of a transfer as the code prints it. A positive quotient \<open>n / d\<close> is rounded to a single
  precision number, its 24-bit significand ties to even; the result is again a quotient.\<close>

definition round_even :: "nat \<Rightarrow> nat \<Rightarrow> nat" where
  "round_even n d = (let q = n div d; r = n mod d in if 2 * r > d \<or> 2 * r = d \<and> odd q then q + 1 else q)"

function f32_round :: "nat \<Rightarrow> nat \<Rightarrow> nat \<times> nat" where
  "f32_round n d =
     (if n = 0 \<or> d = 0 then (0, 1)
      else if n < 2 ^ 23 * d then (case f32_round (2 * n) d of (a, b) \<Rightarrow> (a, 2 * b))
      else if 2 ^ 24 * d \<le> n then (case f32_round n (2 * d) of (a, b) \<Rightarrow> (2 * a, b))
      else (round_even n d, 1))"
  by pat_completeness auto
termination
  by (relation "measure (\<lambda>(n, d). if n < 2 ^ 23 * d then 1 + (2 ^ 23 * d - n) else if 2 ^ 24 * d \<le> n then 1 + (n - 2 ^ 24 * d) else 0)")
    auto

declare f32_round.simps [simp del]

definition f32_of_nat :: "nat \<Rightarrow> nat \<times> nat" where "f32_of_nat n = f32_round n 1"

definition f32_div :: "nat \<times> nat \<Rightarrow> nat \<times> nat \<Rightarrow> nat \<times> nat" where
  "f32_div a b = f32_round (fst a * snd b) (snd a * fst b)"

text \<open>\<open>fraction * 100.0\<close>, of a fraction with parts; then \<open>{:.0}\<close> and \<open>{:.1}\<close>.\<close>

definition percent :: "nat \<times> nat \<Rightarrow> nat \<times> nat" where
  "percent fraction =
     (let q = f32_div (f32_of_nat (fst fraction)) (f32_of_nat (snd fraction)) in f32_round (100 * fst q) (snd q))"

definition percent_text :: "nat \<times> nat \<Rightarrow> bytes" where
  "percent_text fraction =
     (if snd fraction = 0 then (if fst fraction = 0 then str ''NaN'' else str ''inf'')
      else let (n, d) = percent fraction in decimal (round_even n d))"

definition percent_text1 :: "nat \<times> nat \<Rightarrow> bytes" where
  "percent_text1 fraction =
     (if snd fraction = 0 then (if fst fraction = 0 then str ''NaN'' else str ''inf'')
      else let (n, d) = percent fraction; tenths = round_even (10 * n) d
           in decimal (tenths div 10) @ str ''.'' @ [digit (tenths mod 10)])"

section \<open>Double precision numbers\<close>

text \<open>\<open>Display\<close> of an f64: the shortest decimal digits that read back as the number, the nearest of them, and
  no exponent. A finite number is \<open>m\<close> units of \<open>2 ^ e\<close>; \<open>near_digits\<close> looks for the digits \<open>c\<close> that lie, with the
  last one at \<open>10 ^ t\<close>, between the middles to its neighbours (which belong to it when \<open>m\<close> is even).
  Quarters of a unit keep the numbers whole.\<close>

definition pow_quot :: "nat \<Rightarrow> int \<Rightarrow> nat \<times> nat" where
  "pow_quot b e = (b ^ nat e, b ^ nat (- e))"

definition near_digits :: "nat \<Rightarrow> int \<Rightarrow> bool \<Rightarrow> int \<Rightarrow> nat option" where
  "near_digits m e narrow t =
     (let (un, ud) = pow_quot 2 (e - 2); (tn, td) = pow_quot 10 t;
          whole = 4 * m * un * td; digit_size = ud * tn;
          low = (4 * m - (if narrow then 1 else 2)) * un * td; high = (4 * m + 2) * un * td;
          inside = \<lambda>c. 0 < c \<and> (if even m then low \<le> c * digit_size \<and> c * digit_size \<le> high
                                 else low < c * digit_size \<and> c * digit_size < high);
          c = whole div digit_size
      in if inside c \<and> (\<not> inside (c + 1) \<or> 2 * (whole - c * digit_size) < digit_size) then Some c
         else if inside (c + 1) then Some (c + 1) else None)"

definition placed :: "nat \<Rightarrow> int \<Rightarrow> bytes" where
  "placed c t =
     (let digits = decimal c; behind = nat (- t) in
      if t \<ge> 0 then digits @ replicate (nat t) 0x30
      else if length digits > behind
        then take (length digits - behind) digits @ str ''.'' @ drop (length digits - behind) digits
      else str ''0.'' @ replicate (behind - length digits) 0x30 @ digits)"

definition f64_text :: "u64 \<Rightarrow> bytes" where
  "f64_text b =
     (let exponent = unat (drop_bit 52 b AND 0x7FF); fraction = unat (b AND 0xFFFFFFFFFFFFF);
          sign = (if bit b 63 then str ''-'' else []);
          m = (if exponent = 0 then fraction else fraction + 2 ^ 52);
          e = (if exponent = 0 then - 1074 else int exponent - 1075);
          narrow = (fraction = 0 \<and> exponent > 1)
      in if exponent = 2047 then (if fraction = 0 then sign @ str ''inf'' else str ''NaN'')
         else if m = 0 then sign @ str ''0''
         else (case find (\<lambda>t. near_digits m e narrow t \<noteq> None) (rev [- 324..310]) of
                 None \<Rightarrow> []
               | Some t \<Rightarrow> sign @ placed (the (near_digits m e narrow t)) t))"

section \<open>Errors\<close>

fun core_error_debug :: "core_error \<Rightarrow> bytes" where
  "core_error_debug Truncated = str ''Truncated''"
| "core_error_debug BadSignature = str ''BadSignature''"
| "core_error_debug DecryptFailed = str ''DecryptFailed''"
| "core_error_debug InvalidField = str ''InvalidField''"
| "core_error_debug Unsupported = str ''Unsupported''"

fun node_error_debug :: "node_error \<Rightarrow> bytes" where
  "node_error_debug (Core e) = str ''Core('' @ core_error_debug e @ str '')''"
| "node_error_debug Unknown = str ''Unknown''"

end
