(* ===== verification/Datagrams.thy ===== *)
theory Datagrams
  imports Identities BTree_Map Text_Forms
begin

text \<open>
  The packet interfaces over UDP: reticulum-tokio/src/udp.rs (one packet per datagram to a fixed peer) and
  reticulum-tokio/src/auto.rs (discovery of peers on a link by IPv6 multicast). What the operating system
  yields is an argument: a receive is a datagram or an error, a list of them when the code loops; whether
  a send succeeds is a flag or a predicate on its destination. A receive cuts the datagram to its buffer.
\<close>

text \<open>Kinds of \<open>io::Error\<close> the code makes or tells apart; \<open>OsError\<close> is any other of the system, and
  \<open>Panicked\<close> stands for a panic, which leaves every caller as an error would.\<close>

datatype io_kind =
    InvalidInput | InvalidData | AddrNotAvailable | AlreadyExists | WriteZero | BrokenPipe | UnsupportedIo | Panicked | OsError

section \<open>UDP\<close>

definition UDP_HW_MTU :: nat where "UDP_HW_MTU = 1064"

text \<open>\<open>None\<close>: no more datagrams, the call keeps waiting.\<close>

fun udp_recv :: "(io_kind + bytes) list \<Rightarrow> (io_kind + bytes) option \<times> (io_kind + bytes) list" where
  "udp_recv [] = (None, [])"
| "udp_recv (Inl e # rs) = (Some (Inl e), rs)"
| "udp_recv (Inr datagram # rs) =
     (let buffer = take (UDP_HW_MTU + 1) datagram in
      if length buffer \<le> UDP_HW_MTU then (Some (Inr buffer), rs) else udp_recv rs)"

text \<open>\<open>sent\<close> is what \<open>send_to\<close> returns.\<close>

definition udp_send :: "bytes \<Rightarrow> io_kind + nat \<Rightarrow> io_kind + unit" where
  "udp_send raw sent =
     (if length raw > UDP_HW_MTU then Inl InvalidInput
      else rbind sent (\<lambda>n. if n = length raw then Inr () else Inl WriteZero))"

lemma udp_recv_bounded: "udp_recv rs = (Some (Inr packet), rs') \<Longrightarrow> length packet \<le> UDP_HW_MTU \<and> Inr packet \<in> set rs"
proof (induction rs rule: udp_recv.induct)
  case (3 datagram rs)
  then show ?case by (auto simp: Let_def UDP_HW_MTU_def split: if_splits)
qed auto

text \<open>What one end may send the other end receives, whatever oversize datagrams come before it.\<close>

lemma udp_delivers:
  assumes "udp_send raw (Inr (length raw)) = Inr ()" and "\<forall>r \<in> set junk. \<exists>d. r = Inr d \<and> length d > UDP_HW_MTU"
  shows "udp_recv (junk @ Inr raw # rs) = (Some (Inr raw), rs)"
  using assms(2)
proof (induction junk)
  case Nil
  then show ?case using assms(1) by (auto simp: udp_send_def Let_def split: if_splits)
next
  case (Cons r junk)
  then show ?case by (auto simp: Let_def)
qed

section \<open>IPv6 addresses\<close>

type_synonym ipv6 = "128 word"

definition ipv6_new :: "u16 list \<Rightarrow> ipv6" where
  "ipv6_new segments = fold (\<lambda>s a. push_bit 16 a OR ucast s) segments 0"

definition ipv6_segments :: "ipv6 \<Rightarrow> u16 list" where
  "ipv6_segments a = map (\<lambda>i. ucast (drop_bit (16 * (7 - i)) a)) [0..<8]"

definition is_unicast_link_local :: "ipv6 \<Rightarrow> bool" where
  "is_unicast_link_local a = (ipv6_segments a ! 0 AND 0xFFC0 = 0xFE80)"

text \<open>The standard library's text form: an IPv4-mapped address ends in dotted decimals; otherwise the
  first longest run of at least two zero segments is \<open>::\<close>, and segments are lower-case hex without leading
  zeros.\<close>

text \<open>Start and length of the current run and of the longest so far.\<close>

fun zero_run :: "u16 list \<Rightarrow> nat \<Rightarrow> nat \<times> nat \<Rightarrow> nat \<times> nat \<Rightarrow> nat \<times> nat" where
  "zero_run [] i current longest = longest"
| "zero_run (s # ss) i current longest =
     (if s = 0
      then let current = ((if snd current = 0 then i else fst current), snd current + 1);
               longest = (if snd current > snd longest then current else longest)
           in zero_run ss (i + 1) current longest
      else zero_run ss (i + 1) (0, 0) longest)"

definition ipv6_text :: "ipv6 \<Rightarrow> bytes" where
  "ipv6_text a =
     (let segments = ipv6_segments a;
          hex = \<lambda>ss. join (str '':'') (map (\<lambda>s. numeral 16 (unat s)) ss)
      in if take 6 segments = [0, 0, 0, 0, 0, 0xFFFF]
         then str ''::ffff:'' @ join (str ''.'') (map (numeral 10)
                [unat (segments ! 6) div 256, unat (segments ! 6) mod 256,
                 unat (segments ! 7) div 256, unat (segments ! 7) mod 256])
         else let (start, len) = zero_run segments 0 (0, 0) (0, 0)
              in if len > 1 then hex (take start segments) @ str ''::'' @ hex (drop (start + len) segments)
                 else hex segments)"

section \<open>Discovery of peers\<close>

definition AUTO_HW_MTU :: nat where "AUTO_HW_MTU = 1196"
definition DEFAULT_DISCOVERY_PORT :: u16 where "DEFAULT_DISCOVERY_PORT = 29716"
definition DEFAULT_DATA_PORT :: u16 where "DEFAULT_DATA_PORT = 42671"

record socket_v6 =
  sk_ip :: ipv6
  sk_port :: u16
  sk_flowinfo :: u32
  sk_scope :: u32

definition socket_v6_new :: "ipv6 \<Rightarrow> u16 \<Rightarrow> u32 \<Rightarrow> u32 \<Rightarrow> socket_v6" where
  "socket_v6_new ip port flowinfo scope = \<lparr>sk_ip = ip, sk_port = port, sk_flowinfo = flowinfo, sk_scope = scope\<rparr>"

datatype socket_addr = SocketV4 u32 u16 | SocketV6 socket_v6

text \<open>The three sockets of an interface; \<open>au_sent\<close> is what the discovery and the data socket sent.\<close>

record auto =
  au_id :: u16
  au_group_id :: bytes
  au_local_ip :: ipv6
  au_interface_index :: u32
  au_multicast_addr :: ipv6
  au_discovery_port :: u16
  au_data_port :: u16
  au_peers :: "(ipv6, socket_v6) btree"
  au_sent :: "(bytes \<times> socket_v6) list"

definition multicast_address :: "ext \<Rightarrow> bytes \<Rightarrow> ipv6" where
  "multicast_address X group_id =
     (let hash = full_hash X group_id
      in ipv6_new (0xFF12 # 0 # map (\<lambda>i. be_word [hash ! i, hash ! (i + 1)]) [2, 4, 6, 8, 10, 12]))"

definition discovery_token :: "ext \<Rightarrow> bytes \<Rightarrow> ipv6 \<Rightarrow> bytes" where
  "discovery_token X group_id source = full_hash X (group_id @ ipv6_text source)"

fun find_map :: "('a \<Rightarrow> 'b option) \<Rightarrow> 'a list \<Rightarrow> 'b option" where
  "find_map f [] = None"
| "find_map f (x # xs) = (case f x of Some y \<Rightarrow> Some y | None \<Rightarrow> find_map f xs)"

text \<open>What the system says of the interfaces of the host, or an error: name, address (\<open>None\<close> for IPv4) and index.\<close>

definition link_local_interface :: "bytes \<Rightarrow> (io_kind + (bytes \<times> ipv6 option \<times> u32 option) list) \<Rightarrow> io_kind + ipv6 \<times> u32" where
  "link_local_interface iface_name if_addrs =
     rbind if_addrs (\<lambda>addrs. ok_or AddrNotAvailable (find_map (\<lambda>(name, ip, index).
       if name = iface_name
       then (case (ip, index) of
               (Some ip, Some index) \<Rightarrow> if is_unicast_link_local ip then Some (ip, index) else None
             | _ \<Rightarrow> None)
       else None) addrs))"

text \<open>\<open>bound\<close>: opening the three sockets succeeds.\<close>

definition auto_new_with_ports ::
    "ext \<Rightarrow> bytes \<Rightarrow> u16 \<Rightarrow> u16 \<Rightarrow> bytes \<Rightarrow> (io_kind + (bytes \<times> ipv6 option \<times> u32 option) list) \<Rightarrow> bool \<Rightarrow> io_kind + auto" where
  "auto_new_with_ports X group_id discovery_port data_port iface_name if_addrs bound =
     (if discovery_port = - 1 then Inl InvalidInput
      else rbind (link_local_interface iface_name if_addrs) (\<lambda>(local_ip, interface_index).
        if \<not> bound then Inl OsError
        else Inr \<lparr>au_id = 0, au_group_id = group_id, au_local_ip = local_ip, au_interface_index = interface_index,
               au_multicast_addr = multicast_address X group_id, au_discovery_port = discovery_port,
               au_data_port = data_port, au_peers = [], au_sent = []\<rparr>))"

definition auto_new ::
    "ext \<Rightarrow> bytes \<Rightarrow> u16 \<Rightarrow> bytes \<Rightarrow> (io_kind + (bytes \<times> ipv6 option \<times> u32 option) list) \<Rightarrow> bool \<Rightarrow> io_kind + auto" where
  "auto_new X group_id discovery_port iface_name if_addrs bound =
     auto_new_with_ports X group_id discovery_port DEFAULT_DATA_PORT iface_name if_addrs bound"

definition auto_with_id :: "u16 \<Rightarrow> auto \<Rightarrow> auto" where
  "auto_with_id i a = a\<lparr>au_id := i\<rparr>"

definition peer_count :: "auto \<Rightarrow> nat" where
  "peer_count a = length (au_peers a)"

definition sent_to :: "bytes \<Rightarrow> socket_v6 \<Rightarrow> bool \<Rightarrow> auto \<Rightarrow> (io_kind + unit) \<times> auto" where
  "sent_to raw destination ok a =
     (if ok then (Inr (), a\<lparr>au_sent := au_sent a @ [(raw, destination)]\<rparr>) else (Inl OsError, a))"

definition auto_announce :: "ext \<Rightarrow> bool \<Rightarrow> auto \<Rightarrow> (io_kind + unit) \<times> auto" where
  "auto_announce X ok a =
     sent_to (discovery_token X (au_group_id a) (au_local_ip a))
       (socket_v6_new (au_multicast_addr a) (au_discovery_port a) 0 (au_interface_index a)) ok a"

definition process_discovery ::
    "ext \<Rightarrow> bytes \<Rightarrow> socket_addr \<Rightarrow> bool \<Rightarrow> bool \<Rightarrow> auto \<Rightarrow> (io_kind + unit) \<times> auto" where
  "process_discovery X payload source reverse ok a =
     (case source of
        SocketV4 _ _ \<Rightarrow> (Inr (), a)
      | SocketV6 source \<Rightarrow>
          if sk_ip source = au_local_ip a \<or> payload \<noteq> discovery_token X (au_group_id a) (sk_ip source)
          then (Inr (), a)
          else let a = a\<lparr>au_peers := bt_insert (sk_ip source)
                           (socket_v6_new (sk_ip source) (au_data_port a) 0 (au_interface_index a)) (au_peers a)\<rparr>
               in if reverse
                  then sent_to (discovery_token X (au_group_id a) (au_local_ip a))
                         (socket_v6_new (sk_ip source) (au_discovery_port a + 1) 0 (au_interface_index a)) ok a
                  else (Inr (), a))"

text \<open>What wakes the receive loop: the announce timer, or a datagram (or an error) on one of the sockets;
  the flag says whether a send it causes succeeds.\<close>

datatype auto_input =
    AnnounceDue bool
  | DiscoveryIn "(bytes \<times> socket_addr) option" bool
  | ReverseIn "(bytes \<times> socket_addr) option"
  | DataIn "(bytes \<times> socket_addr) option"

text \<open>One turn: \<open>None\<close> when the loop goes on.\<close>

definition auto_turn :: "ext \<Rightarrow> auto_input \<Rightarrow> auto \<Rightarrow> (io_kind + bytes) option \<times> auto" where
  "auto_turn X input a =
     (case input of
        AnnounceDue ok \<Rightarrow> (case auto_announce X ok a of (Inl e, a) \<Rightarrow> (Some (Inl e), a) | (Inr _, a) \<Rightarrow> (None, a))
      | DiscoveryIn None _ \<Rightarrow> (Some (Inl OsError), a)
      | DiscoveryIn (Some (payload, source)) ok \<Rightarrow>
          (case process_discovery X (take 1024 payload) source True ok a of
             (Inl e, a) \<Rightarrow> (Some (Inl e), a) | (Inr _, a) \<Rightarrow> (None, a))
      | ReverseIn None \<Rightarrow> (Some (Inl OsError), a)
      | ReverseIn (Some (payload, source)) \<Rightarrow>
          (case process_discovery X (take 1024 payload) source False True a of
             (Inl e, a) \<Rightarrow> (Some (Inl e), a) | (Inr _, a) \<Rightarrow> (None, a))
      | DataIn None \<Rightarrow> (Some (Inl OsError), a)
      | DataIn (Some (packet, source)) \<Rightarrow>
          (case source of
             SocketV4 _ _ \<Rightarrow> (None, a)
           | SocketV6 source \<Rightarrow>
               let buffer = take (AUTO_HW_MTU + 1) packet in
               if length buffer \<le> AUTO_HW_MTU \<and> bt_contains (sk_ip source) (au_peers a)
               then (Some (Inr buffer), a) else (None, a)))"

fun auto_recv :: "ext \<Rightarrow> auto_input list \<Rightarrow> auto \<Rightarrow> (io_kind + bytes) option \<times> auto \<times> auto_input list" where
  "auto_recv X [] a = (None, a, [])"
| "auto_recv X (i # is) a =
     (case auto_turn X i a of (Some r, a) \<Rightarrow> (Some r, a, is) | (None, a) \<Rightarrow> auto_recv X is a)"

text \<open>\<open>for peer in self.peers.values()\<close>, leaving at the first error; \<open>ok\<close> says which destinations the
  system accepts.\<close>

fun send_to_peers :: "bytes \<Rightarrow> socket_v6 list \<Rightarrow> (socket_v6 \<Rightarrow> bool) \<Rightarrow> auto \<Rightarrow> (io_kind + unit) \<times> auto" where
  "send_to_peers raw [] ok a = (Inr (), a)"
| "send_to_peers raw (p # ps) ok a =
     (case sent_to raw p (ok p) a of (Inl e, a) \<Rightarrow> (Inl e, a) | (Inr _, a) \<Rightarrow> send_to_peers raw ps ok a)"

definition auto_send :: "bytes \<Rightarrow> (socket_v6 \<Rightarrow> bool) \<Rightarrow> auto \<Rightarrow> (io_kind + unit) \<times> auto" where
  "auto_send raw ok a =
     (if length raw > AUTO_HW_MTU then (Inl InvalidInput, a) else send_to_peers raw (map snd (au_peers a)) ok a)"


section \<open>Peers\<close>

text \<open>Every peer is stored under its address, with the data port of the interface; the host itself is none.\<close>

definition auto_ok :: "auto \<Rightarrow> bool" where
  "auto_ok a \<longleftrightarrow> bt_ok (au_peers a) \<and> (\<forall>ip p. bt_get ip (au_peers a) = Some p \<longrightarrow>
     p = socket_v6_new ip (au_data_port a) 0 (au_interface_index a) \<and> ip \<noteq> au_local_ip a)"

text \<open>What a turn leaves of the interface's settings.\<close>

definition same_settings :: "auto \<Rightarrow> auto \<Rightarrow> bool" where
  "same_settings a a' \<longleftrightarrow> au_group_id a' = au_group_id a \<and> au_local_ip a' = au_local_ip a \<and>
     au_interface_index a' = au_interface_index a \<and> au_data_port a' = au_data_port a \<and>
     au_discovery_port a' = au_discovery_port a \<and> au_multicast_addr a' = au_multicast_addr a"

lemma sent_to_frame [simp]:
  "au_peers (snd (sent_to raw p ok a)) = au_peers a" "same_settings a (snd (sent_to raw p ok a))"
  by (simp_all add: sent_to_def same_settings_def)

text \<open>The announcement that makes a host a peer.\<close>

definition presents_token :: "ext \<Rightarrow> bytes \<Rightarrow> ipv6 \<Rightarrow> auto_input \<Rightarrow> bool" where
  "presents_token X group_id ip input \<longleftrightarrow> (\<exists>payload s. sk_ip s = ip \<and> take 1024 payload = discovery_token X group_id ip \<and>
     ((\<exists>ok. input = DiscoveryIn (Some (payload, SocketV6 s)) ok) \<or> input = ReverseIn (Some (payload, SocketV6 s))))"

lemma process_discovery_effect:
  "same_settings a (snd (process_discovery X payload source reverse ok a))"
  "au_peers (snd (process_discovery X payload source reverse ok a)) = au_peers a \<or>
     (\<exists>s. source = SocketV6 s \<and> sk_ip s \<noteq> au_local_ip a \<and> payload = discovery_token X (au_group_id a) (sk_ip s) \<and>
        au_peers (snd (process_discovery X payload source reverse ok a)) = bt_insert (sk_ip s)
          (socket_v6_new (sk_ip s) (au_data_port a) 0 (au_interface_index a)) (au_peers a))"
  by (auto simp: process_discovery_def same_settings_def sent_to_def Let_def split: socket_addr.split)

lemma turn_effect:
  assumes "auto_turn X input a = (r, a')"
  shows "same_settings a a'" and "au_peers a' = au_peers a \<or> (\<exists>ip. presents_token X (au_group_id a) ip input \<and>
     ip \<noteq> au_local_ip a \<and> au_peers a' = bt_insert ip (socket_v6_new ip (au_data_port a) 0 (au_interface_index a)) (au_peers a))"
proof -
  have "same_settings a a' \<and> (au_peers a' = au_peers a \<or> (\<exists>ip. presents_token X (au_group_id a) ip input \<and>
     ip \<noteq> au_local_ip a \<and> au_peers a' = bt_insert ip (socket_v6_new ip (au_data_port a) 0 (au_interface_index a)) (au_peers a)))"
  proof (cases input)
    case (AnnounceDue ok)
    have "same_settings a (snd (auto_announce X ok a))" "au_peers (snd (auto_announce X ok a)) = au_peers a"
      by (simp_all add: auto_announce_def)
    then show ?thesis using assms AnnounceDue by (auto simp: auto_turn_def split: prod.splits sum.splits)
  next
    case (DiscoveryIn dg ok)
    show ?thesis
    proof (cases dg)
      case None
      then show ?thesis using assms DiscoveryIn by (auto simp: auto_turn_def same_settings_def)
    next
      case (Some ps)
      obtain payload source where ps: "ps = (payload, source)" by fastforce
      have "a' = snd (process_discovery X (take 1024 payload) source True ok a)"
        using assms DiscoveryIn Some ps by (auto simp: auto_turn_def split: prod.splits sum.splits)
      then show ?thesis
        using process_discovery_effect [where a = a and X = X and payload = "take 1024 payload" and source = source and reverse = True and ok = ok] DiscoveryIn Some ps
        by (fastforce simp: presents_token_def)
    qed
  next
    case (ReverseIn dg)
    show ?thesis
    proof (cases dg)
      case None
      then show ?thesis using assms ReverseIn by (auto simp: auto_turn_def same_settings_def)
    next
      case (Some ps)
      obtain payload source where ps: "ps = (payload, source)" by fastforce
      have "a' = snd (process_discovery X (take 1024 payload) source False True a)"
        using assms ReverseIn Some ps by (auto simp: auto_turn_def split: prod.splits sum.splits)
      then show ?thesis
        using process_discovery_effect [where a = a and X = X and payload = "take 1024 payload" and source = source and reverse = False and ok = True] ReverseIn Some ps
        by (fastforce simp: presents_token_def)
    qed
  next
    case (DataIn dg)
    then have "a' = a" using assms by (auto simp: auto_turn_def Let_def split: option.splits socket_addr.splits if_splits)
    then show ?thesis by (simp add: same_settings_def)
  qed
  then show "same_settings a a'" and "au_peers a' = au_peers a \<or> (\<exists>ip. presents_token X (au_group_id a) ip input \<and>
     ip \<noteq> au_local_ip a \<and> au_peers a' = bt_insert ip (socket_v6_new ip (au_data_port a) 0 (au_interface_index a)) (au_peers a))"
    by blast+
qed

lemma turn_packet:
  assumes "auto_turn X input a = (Some (Inr packet), a')"
  obtains s where "input = DataIn (Some (packet, SocketV6 s))" "length packet \<le> AUTO_HW_MTU"
    "bt_contains (sk_ip s) (au_peers a)" "a' = a"
  using assms
  by (auto simp: auto_turn_def AUTO_HW_MTU_def Let_def split: auto_input.splits option.splits socket_addr.splits if_splits prod.splits sum.splits)

lemma auto_ok_turn:
  assumes t: "auto_turn X input a = (r, a')" and ok: "auto_ok a"
  shows "auto_ok a'"
proof -
  have same: "au_data_port a' = au_data_port a" "au_interface_index a' = au_interface_index a" "au_local_ip a' = au_local_ip a"
    using turn_effect(1) [OF t] by (simp_all add: same_settings_def)
  from turn_effect(2) [OF t] show ?thesis
  proof (elim disjE exE conjE)
    assume "au_peers a' = au_peers a"
    then show ?thesis using ok by (simp add: auto_ok_def same)
  next
    fix ip
    assume "ip \<noteq> au_local_ip a" and p: "au_peers a' = bt_insert ip (socket_v6_new ip (au_data_port a) 0 (au_interface_index a)) (au_peers a)"
    then show ?thesis using ok unfolding auto_ok_def same p by (simp add: bt_simps bt_oks split: if_split)
  qed
qed

lemma auto_ok_recv: "auto_recv X is a = (r, a', rest) \<Longrightarrow> auto_ok a \<Longrightarrow> auto_ok a' \<and> same_settings a a'"
proof (induction X "is" a rule: auto_recv.induct)
  case (1 X a)
  then show ?case by (simp add: same_settings_def)
next
  case (2 X i "is" a)
  obtain r1 a1 where t: "auto_turn X i a = (r1, a1)" by fastforce
  have "auto_ok a1" "same_settings a a1" using auto_ok_turn [OF t 2(3)] turn_effect(1) [OF t] by simp_all
  then show ?case using 2(1) [OF t [symmetric]] 2(2) t by (cases r1) (auto simp: same_settings_def)
qed

text \<open>A packet comes from a host that is a peer, or became one by presenting its token before.\<close>

lemma recv_authentic:
  assumes "auto_recv X is a = (Some (Inr packet), a', rest)"
  shows "\<exists>pre s. is = pre @ DataIn (Some (packet, SocketV6 s)) # rest \<and> length packet \<le> AUTO_HW_MTU \<and>
    (bt_contains (sk_ip s) (au_peers a) \<or>
     sk_ip s \<noteq> au_local_ip a \<and> (\<exists>input \<in> set pre. presents_token X (au_group_id a) (sk_ip s) input))"
  using assms
proof (induction X "is" a rule: auto_recv.induct)
  case (2 X i "is" a)
  obtain r1 a1 where t: "auto_turn X i a = (r1, a1)" by fastforce
  show ?case
  proof (cases r1)
    case None
    then have "auto_recv X is a1 = (Some (Inr packet), a', rest)" using 2(2) t by simp
    then obtain pre s where IH: "is = pre @ DataIn (Some (packet, SocketV6 s)) # rest" "length packet \<le> AUTO_HW_MTU"
      "bt_contains (sk_ip s) (au_peers a1) \<or>
       sk_ip s \<noteq> au_local_ip a1 \<and> (\<exists>input \<in> set pre. presents_token X (au_group_id a1) (sk_ip s) input)"
      using 2(1) [OF t [symmetric] None] by blast
    have same: "au_local_ip a1 = au_local_ip a" "au_group_id a1 = au_group_id a"
      using turn_effect(1) [OF t] by (simp_all add: same_settings_def)
    have "bt_contains (sk_ip s) (au_peers a) \<or>
       sk_ip s \<noteq> au_local_ip a \<and> (\<exists>input \<in> set (i # pre). presents_token X (au_group_id a) (sk_ip s) input)"
      using IH(3) turn_effect(2) [OF t] unfolding same by (auto simp: bt_contains_def bt_simps split: if_splits)
    then show ?thesis using IH(1,2) by (intro exI [of _ "i # pre"] exI [of _ s]) simp
  next
    case (Some r)
    then have "auto_turn X i a = (Some (Inr packet), a1)" "rest = is" using 2(2) t by simp_all
    then show ?thesis using turn_packet by (metis append_Nil)
  qed
qed simp

section \<open>Two hosts of a group\<close>

lemma send_to_peers_ok: "\<forall>p \<in> set ps. ok p \<Longrightarrow> send_to_peers raw ps ok a = (Inr (), a\<lparr>au_sent := au_sent a @ map (Pair raw) ps\<rparr>)"
  by (induction ps arbitrary: a) (simp_all add: sent_to_def)

text \<open>A peer's announcement, received on either discovery socket, enters it and is answered on the first.\<close>

lemma discovery_accepted:
  assumes "sha_ok X" and "sk_ip s \<noteq> au_local_ip a"
  shows "auto_turn X (DiscoveryIn (Some (discovery_token X (au_group_id a) (sk_ip s), SocketV6 s)) True) a =
      (None, a\<lparr>au_peers := bt_insert (sk_ip s) (socket_v6_new (sk_ip s) (au_data_port a) 0 (au_interface_index a)) (au_peers a),
        au_sent := au_sent a @ [(discovery_token X (au_group_id a) (au_local_ip a),
          socket_v6_new (sk_ip s) (au_discovery_port a + 1) 0 (au_interface_index a))]\<rparr>)"
    and "auto_turn X (ReverseIn (Some (discovery_token X (au_group_id a) (sk_ip s), SocketV6 s))) a =
      (None, a\<lparr>au_peers := bt_insert (sk_ip s) (socket_v6_new (sk_ip s) (au_data_port a) 0 (au_interface_index a)) (au_peers a)\<rparr>)"
  using assms by (simp_all add: auto_turn_def process_discovery_def sent_to_def discovery_token_def Let_def)

end
