(* ===== verification/Tui_App.thy ===== *)
theory Tui_App
  imports Driver_Handle Datagrams
begin

text \<open>
  The state of the terminal user interface (reticulum-tui/src/app.rs) and what moves it
  (reticulum-tui/src/runtime.rs): keys, the intents they stand for, the events of the driver and its
  snapshots. A String is its UTF-8 bytes, a char its code point. \<open>hx\<close> is \<open>hex::encode\<close> of the hex crate;
  the terminal itself (crossterm, ratatui) is not modelled, a key is what it reports.
\<close>

section \<open>The state\<close>

definition MAX_LOG_ENTRIES :: nat where "MAX_LOG_ENTRIES = 1000"

record peer =
  tp_dest :: bytes
  tp_hops :: u8
  tp_seen :: u32
  tp_last_secs :: u64

datatype focus = FocusRoster | FocusInput | FocusLog

datatype log_kind = KindSys | KindTx | KindRx | KindAnnounce | KindDelivered | KindErr

record log_entry =
  lg_kind :: log_kind
  lg_at_secs :: u64
  lg_text :: bytes

record app_state =
  ap_identity :: bytes
  ap_roster :: "peer list"
  ap_selected :: nat
  ap_log :: "log_entry list"
  ap_input :: bytes
  ap_interfaces :: "interface_snapshot list"
  ap_focus :: focus
  ap_show_help :: bool

definition app_new :: "bytes \<Rightarrow> app_state" where
  "app_new identity = \<lparr>ap_identity = identity, ap_roster = [], ap_selected = 0, ap_log = [], ap_input = [],
     ap_interfaces = [], ap_focus = FocusInput, ap_show_help = False\<rparr>"

definition app_log :: "log_kind \<Rightarrow> bytes \<Rightarrow> u64 \<Rightarrow> app_state \<Rightarrow> app_state" where
  "app_log kind text now s =
     (let log = (if length (ap_log s) = MAX_LOG_ENTRIES then drop 1 (ap_log s) else ap_log s)
      in s\<lparr>ap_log := log @ [\<lparr>lg_kind = kind, lg_at_secs = now, lg_text = text\<rparr>]\<rparr>)"

definition selected_peer :: "app_state \<Rightarrow> bytes option" where
  "selected_peer s = (if ap_selected s < length (ap_roster s) then Some (tp_dest (ap_roster s ! ap_selected s)) else None)"

text \<open>Most recent first, then by destination. The sort of the code is unstable, but no two peers of a
  roster have the same destination.\<close>

definition peer_key :: "peer \<Rightarrow> u64 \<times> bytes" where
  "peer_key p = (NOT (tp_last_secs p), tp_dest p)"

definition sort_roster :: "bytes option \<Rightarrow> app_state \<Rightarrow> app_state" where
  "sort_roster selected s =
     (let roster = sort_key peer_key (ap_roster s)
      in s\<lparr>ap_roster := roster,
           ap_selected := (case selected of
               None \<Rightarrow> 0
             | Some dest \<Rightarrow> (case position (\<lambda>p. tp_dest p = dest) roster of Some k \<Rightarrow> k | None \<Rightarrow> 0))\<rparr>)"

text \<open>The first peer with the destination is updated, or a new one is pushed.\<close>

definition upsert :: "bytes \<Rightarrow> (peer \<Rightarrow> peer) \<Rightarrow> peer \<Rightarrow> peer list \<Rightarrow> peer list" where
  "upsert dest f p roster = (case position (\<lambda>q. tp_dest q = dest) roster of
     Some k \<Rightarrow> roster[k := f (roster ! k)] | None \<Rightarrow> roster @ [p])"

definition short_hash :: "(bytes \<Rightarrow> bytes) \<Rightarrow> bytes \<Rightarrow> bytes" where
  "short_hash hx hash = hx (take (min (length hash) 6) hash)"

definition on_announce :: "(bytes \<Rightarrow> bytes) \<Rightarrow> bytes \<Rightarrow> u8 \<Rightarrow> u64 \<Rightarrow> app_state \<Rightarrow> app_state" where
  "on_announce hx dest distance now s =
     (let selected = selected_peer s;
          s = s\<lparr>ap_roster := upsert dest
                (\<lambda>p. p\<lparr>tp_hops := distance, tp_seen := sat_add (tp_seen p) 1, tp_last_secs := now\<rparr>)
                \<lparr>tp_dest = dest, tp_hops = distance, tp_seen = 1, tp_last_secs = now\<rparr> (ap_roster s)\<rparr>
      in app_log KindAnnounce (short_hash hx dest @ str '' via '' @ decimal (unat distance) @ str '' hop(s)'') now
           (sort_roster selected s))"

definition on_message :: "(bytes \<Rightarrow> bytes) \<Rightarrow> bytes \<Rightarrow> bytes \<Rightarrow> u64 \<Rightarrow> app_state \<Rightarrow> app_state" where
  "on_message hx dest text now s = app_log KindRx (short_hash hx dest @ str '': '' @ text) now s"

definition on_delivered :: "(bytes \<Rightarrow> bytes) \<Rightarrow> bytes \<Rightarrow> u64 \<Rightarrow> app_state \<Rightarrow> app_state" where
  "on_delivered hx hash now s = app_log KindDelivered (str ''packet '' @ short_hash hx hash @ str '' delivered'') now s"

definition on_error :: "bytes \<Rightarrow> u64 \<Rightarrow> app_state \<Rightarrow> app_state" where
  "on_error text now s = app_log KindErr text now s"

fun add_path :: "u64 \<Rightarrow> path_snapshot_entry \<Rightarrow> peer list \<Rightarrow> peer list" where
  "add_path now path roster = upsert (ps_destination path)
     (\<lambda>p. p\<lparr>tp_hops := ps_hops path, tp_last_secs := max (tp_last_secs p) (ps_timestamp path)\<rparr>)
     \<lparr>tp_dest = ps_destination path, tp_hops = ps_hops path, tp_seen = 1, tp_last_secs = min (ps_timestamp path) now\<rparr>
     roster"

definition apply_snapshot :: "driver_snapshot \<Rightarrow> u64 \<Rightarrow> app_state \<Rightarrow> app_state" where
  "apply_snapshot snapshot now s =
     (let selected = selected_peer s;
          s = s\<lparr>ap_identity := ds_identity_hash snapshot, ap_interfaces := ds_interfaces snapshot,
                ap_roster := fold (add_path now) (ds_paths snapshot) (ap_roster s)\<rparr>
      in sort_roster selected s)"

definition select_next :: "app_state \<Rightarrow> app_state" where
  "select_next s = (if ap_roster s = [] then s else s\<lparr>ap_selected := (ap_selected s + 1) mod length (ap_roster s)\<rparr>)"

definition select_prev :: "app_state \<Rightarrow> app_state" where
  "select_prev s = (if ap_roster s = [] then s
     else s\<lparr>ap_selected := (if ap_selected s = 0 then length (ap_roster s) - 1 else ap_selected s - 1)\<rparr>)"

definition push_input :: "scalar \<Rightarrow> app_state \<Rightarrow> app_state" where
  "push_input c s = (if is_control c then s else s\<lparr>ap_input := ap_input s @ utf8_char c\<rparr>)"

definition app_backspace :: "app_state \<Rightarrow> app_state" where
  "app_backspace s = s\<lparr>ap_input := pop_char (ap_input s)\<rparr>"

definition take_input :: "app_state \<Rightarrow> bytes \<times> app_state" where
  "take_input s = (ap_input s, s\<lparr>ap_input := []\<rparr>)"


section \<open>Keys and intents\<close>

datatype key_code = KeyChar scalar | KeyBackspace | KeyUp | KeyBackTab | KeyDown | KeyTab | KeyEnter | KeyOther

record key_event =
  ke_code :: key_code
  ke_control :: bool \<comment> \<open>the modifiers contain Control\<close>
  ke_press :: bool \<comment> \<open>a press, not a release or a repetition\<close>

datatype action =
    ActNone
  | ActInput scalar
  | ActBackspace
  | ActSelectNext
  | ActSelectPrev
  | ActAnnounce
  | ActToggleHelp
  | ActSend bytes bytes
  | ActQuit

definition char_code :: "char \<Rightarrow> scalar" where
  "char_code c = word_of_nat (of_char c)"

definition key_to_action :: "key_event \<Rightarrow> app_state \<Rightarrow> action" where
  "key_to_action key s =
     (if \<not> ke_press key then ActNone
      else if ke_control key \<and> ke_code key = KeyChar (char_code (CHR ''c'')) then ActQuit
      else case ke_code key of
        KeyChar c \<Rightarrow>
          (if c = char_code (CHR ''q'') then ActQuit
           else if c = char_code (CHR ''a'') then ActAnnounce
           else if c = char_code (CHR ''?'') then ActToggleHelp
           else ActInput c)
      | KeyBackspace \<Rightarrow> ActBackspace
      | KeyUp \<Rightarrow> ActSelectPrev
      | KeyBackTab \<Rightarrow> ActSelectPrev
      | KeyDown \<Rightarrow> ActSelectNext
      | KeyTab \<Rightarrow> ActSelectNext
      | KeyEnter \<Rightarrow>
          (case selected_peer s of
             Some dest \<Rightarrow> if ap_input s = [] then ActNone else ActSend dest (ap_input s)
           | None \<Rightarrow> ActNone)
      | KeyOther \<Rightarrow> ActNone)"

text \<open>True when the caller should exit.\<close>

definition execute_action ::
    "(bytes \<Rightarrow> bytes) \<Rightarrow> driver_handle \<Rightarrow> app_state \<Rightarrow> action \<Rightarrow> bytes \<Rightarrow> u64 \<Rightarrow> bool \<times> app_state \<times> driver_handle" where
  "execute_action hx handle s act app_data now =
     (case act of
        ActNone \<Rightarrow> (False, s, handle)
      | ActInput c \<Rightarrow> (False, push_input c s, handle)
      | ActBackspace \<Rightarrow> (False, app_backspace s, handle)
      | ActSelectNext \<Rightarrow> (False, select_next s, handle)
      | ActSelectPrev \<Rightarrow> (False, select_prev s, handle)
      | ActToggleHelp \<Rightarrow> (False, s\<lparr>ap_show_help := \<not> ap_show_help s\<rparr>, handle)
      | ActAnnounce \<Rightarrow>
          (case handle_announce_all app_data handle of
             (Inr _, handle) \<Rightarrow> (False, app_log KindSys (str ''presence announced'') now s, handle)
           | (Inl _, handle) \<Rightarrow> (False, on_error (str ''driver stopped before announce'') now s, handle))
      | ActSend dest text \<Rightarrow>
          (case handle_send dest text handle of
             (Inr _, handle) \<Rightarrow>
               (False, app_log KindTx (short_hash hx dest @ str '': '' @ text) now (snd (take_input s)), handle)
           | (Inl _, handle) \<Rightarrow> (False, on_error (str ''driver stopped before send'') now s, handle))
      | ActQuit \<Rightarrow> (True, s, handle))"

section \<open>Events\<close>

text \<open>Title and content are joined by a dash, U+2014 between spaces.\<close>

definition apply_event :: "(bytes \<Rightarrow> bytes) \<Rightarrow> app_state \<Rightarrow> event \<Rightarrow> u64 \<Rightarrow> app_state" where
  "apply_event hx s ev now =
     (case ev of
        Announce dh distance \<Rightarrow> on_announce hx dh distance now s
      | Message dh plaintext \<Rightarrow> on_message hx dh (utf8_lossy plaintext) now s
      | LxmfMessage destination source timestamp title content flds \<Rightarrow>
          on_message hx source (utf8_lossy title @ [0x20, 0xE2, 0x80, 0x94, 0x20] @ utf8_lossy content) now s
      | Delivered h \<Rightarrow> on_delivered hx h now s
      | LinkEstablished link_id \<Rightarrow> app_log KindSys (str ''link '' @ short_hash hx link_id @ str '' established'') now s
      | LinkData link_id plaintext \<Rightarrow> on_message hx link_id (str ''link: '' @ utf8_lossy plaintext) now s
      | LinkClosed link_id \<Rightarrow> app_log KindSys (str ''link '' @ short_hash hx link_id @ str '' closed'') now s
      | ResourceStarted link_id h bytes_total \<Rightarrow>
          app_log KindSys (str ''resource '' @ short_hash hx h @ str '' started ('' @ decimal (unat bytes_total) @ str '' bytes)'') now s
      | ResourceProgress link_id h fraction \<Rightarrow>
          app_log KindSys (str ''resource '' @ short_hash hx h @ str '' '' @ percent_text fraction @ str ''% complete'') now s
      | ResourceComplete link_id h d \<Rightarrow>
          app_log KindRx (str ''resource '' @ short_hash hx h @ str '' received ('' @ decimal (length d) @ str '' bytes)'') now s
      | ResourceFailed link_id h \<Rightarrow> on_error (str ''resource '' @ short_hash hx h @ str '' failed'') now s
      | Error e \<Rightarrow> on_error (node_error_debug e) now s)"

section \<open>The loop\<close>

text \<open>One round of the user interface's \<open>select!\<close>: what woke it. \<open>None\<close> is a closed terminal or event
  channel; the reply of a snapshot is absent when the driver is gone.\<close>

datatype ui_input =
    UiKey key_event
  | UiOther \<comment> \<open>any other terminal event\<close>
  | UiFailed \<comment> \<open>the terminal reports an error\<close>
  | UiClosed
  | UiEvent "event option"
  | UiTick "driver_snapshot option"
  | UiAnnounce

datatype ui_outcome = UiGoes | UiEnds | UiFails

definition ui_round ::
    "(bytes \<Rightarrow> bytes) \<Rightarrow> bytes \<Rightarrow> u64 \<Rightarrow> ui_input \<Rightarrow> app_state \<Rightarrow> driver_handle \<Rightarrow> ui_outcome \<times> app_state \<times> driver_handle" where
  "ui_round hx app_data now input s handle =
     (case input of
        UiKey key \<Rightarrow>
          (case execute_action hx handle s (key_to_action key s) app_data now of
             (quit, s, handle) \<Rightarrow> (if quit then UiEnds else UiGoes, s, handle))
      | UiOther \<Rightarrow> (UiGoes, s, handle)
      | UiFailed \<Rightarrow> (UiFails, s, handle)
      | UiClosed \<Rightarrow> (UiEnds, s, handle)
      | UiEvent (Some ev) \<Rightarrow> (UiGoes, apply_event hx s ev now, handle)
      | UiEvent None \<Rightarrow> (UiEnds, on_error (str ''driver event channel closed'') now s, handle)
      | UiTick response \<Rightarrow>
          (case handle_snapshot response handle of
             (Inr snapshot, handle) \<Rightarrow> (UiGoes, apply_snapshot snapshot now s, handle)
           | (Inl _, handle) \<Rightarrow> (UiEnds, on_error (str ''driver stopped'') now s, handle))
      | UiAnnounce \<Rightarrow>
          (case handle_announce_all app_data handle of
             (Inl _, handle) \<Rightarrow> (UiEnds, on_error (str ''driver stopped before periodic announce'') now s, handle)
           | (Inr _, handle) \<Rightarrow> (UiGoes, app_log KindSys (str ''periodic presence announced'') now s, handle)))"

end
