(* ===== verification/Tui_Properties.thy ===== *)
theory Tui_Properties
  imports Tui_App
begin

text \<open>
  The invariant of the user interface's state and what follows from it.
\<close>

section \<open>The invariant\<close>

definition app_ok :: "app_state \<Rightarrow> bool" where
  "app_ok s \<longleftrightarrow> distinct (map tp_dest (ap_roster s)) \<and> sorted (map peer_key (ap_roster s)) \<and>
     length (ap_log s) \<le> MAX_LOG_ENTRIES \<and> (if ap_roster s = [] then ap_selected s = 0 else ap_selected s < length (ap_roster s))"

lemma app_ok_new: "app_ok (app_new identity)"
  by (simp add: app_ok_def app_new_def)

lemma app_log_fields [simp]:
  "ap_roster (app_log k t now s) = ap_roster s" "ap_selected (app_log k t now s) = ap_selected s"
  "ap_input (app_log k t now s) = ap_input s"
  by (simp_all add: app_log_def Let_def)

lemma app_ok_log [simp]: "app_ok s \<Longrightarrow> app_ok (app_log k t now s)"
  unfolding app_ok_def app_log_fields by (simp add: app_log_def MAX_LOG_ENTRIES_def Let_def)

lemma selected_log [simp]: "selected_peer (app_log k t now s) = selected_peer s"
  by (simp add: selected_peer_def)

lemma position_SomeD: "position P xs = Some k \<Longrightarrow> k < length xs \<and> P (xs ! k)"
  by (simp add: position_Some)

lemma position_NoneD: "position P xs = None \<Longrightarrow> x \<in> set xs \<Longrightarrow> \<not> P x"
  by (induction xs) (auto split: if_splits option.splits)

text \<open>A roster never lists a destination twice, and an update loses none.\<close>

lemma upsert_dests:
  assumes "distinct (map tp_dest roster)" and "\<And>q. tp_dest (f q) = tp_dest q" and "tp_dest p = dest"
  shows "distinct (map tp_dest (upsert dest f p roster))"
    and "set (map tp_dest (upsert dest f p roster)) = insert dest (set (map tp_dest roster))"
proof -
  have "distinct (map tp_dest (upsert dest f p roster)) \<and>
    set (map tp_dest (upsert dest f p roster)) = insert dest (set (map tp_dest roster))"
  proof (cases "position (\<lambda>q. tp_dest q = dest) roster")
    case None
    then have "dest \<notin> tp_dest ` set roster" using position_NoneD [OF None] by auto
    then show ?thesis using assms None by (auto simp: upsert_def)
  next
    case (Some k)
    then have k: "k < length roster" "tp_dest (roster ! k) = dest" using position_SomeD by fast+
    have "map tp_dest (roster[k := f (roster ! k)]) = map tp_dest roster"
      using assms(2) k by (intro nth_equalityI) (auto simp: nth_list_update)
    moreover have "dest \<in> set (map tp_dest roster)" using k by (metis length_map nth_map nth_mem)
    ultimately show ?thesis using assms(1) Some by (simp add: upsert_def insert_absorb)
  qed
  then show "distinct (map tp_dest (upsert dest f p roster))"
    and "set (map tp_dest (upsert dest f p roster)) = insert dest (set (map tp_dest roster))" by simp_all
qed

lemma add_paths_dests:
  assumes "distinct (map tp_dest roster)"
  shows "distinct (map tp_dest (fold (add_path now) paths roster))"
    and "set (map tp_dest roster) \<subseteq> set (map tp_dest (fold (add_path now) paths roster))"
proof -
  have "distinct (map tp_dest (fold (add_path now) paths roster)) \<and>
    set (map tp_dest roster) \<subseteq> set (map tp_dest (fold (add_path now) paths roster))"
    using assms
  proof (induction paths arbitrary: roster)
    case (Cons path paths)
    have "distinct (map tp_dest (add_path now path roster))"
      "set (map tp_dest (add_path now path roster)) = insert (ps_destination path) (set (map tp_dest roster))"
      using upsert_dests [OF Cons.prems] by simp_all
    then show ?case using Cons.IH [of "add_path now path roster"] by auto
  qed simp
  then show "distinct (map tp_dest (fold (add_path now) paths roster))"
    and "set (map tp_dest roster) \<subseteq> set (map tp_dest (fold (add_path now) paths roster))" by simp_all
qed

text \<open>Sorting keeps the selection on its peer.\<close>

lemma sort_roster_ok:
  assumes "distinct (map tp_dest (ap_roster s))" and "length (ap_log s) \<le> MAX_LOG_ENTRIES"
  shows "app_ok (sort_roster sel s)"
proof -
  let ?r = "sort_key peer_key (ap_roster s)"
  have d: "distinct (map tp_dest ?r)" using assms(1) by (simp add: distinct_map)
  define k where "k = ap_selected (sort_roster sel s)"
  have "k < length ?r" if "?r \<noteq> []"
    using that position_SomeD [of _ ?r] by (auto simp: k_def sort_roster_def Let_def split: option.split)
  moreover have "k = 0" if "?r = []"
    unfolding k_def sort_roster_def Let_def using that by (simp split: option.split)
  moreover have "sort_roster sel s = s\<lparr>ap_roster := ?r, ap_selected := k\<rparr>" by (simp add: k_def sort_roster_def Let_def)
  ultimately show ?thesis using assms(2) d by (auto simp: app_ok_def)
qed

lemma sort_roster_selected:
  assumes "dest \<in> tp_dest ` set (ap_roster s)"
  shows "selected_peer (sort_roster (Some dest) s) = Some dest"
proof -
  let ?r = "sort_key peer_key (ap_roster s)"
  obtain k where k: "position (\<lambda>p. tp_dest p = dest) ?r = Some k"
    using assms position_NoneD [of "\<lambda>p. tp_dest p = dest" ?r] by fastforce
  then have "k < length ?r" "tp_dest (?r ! k) = dest" using position_SomeD by fast+
  then show ?thesis using k by (simp add: selected_peer_def sort_roster_def Let_def)
qed

lemma selected_in_roster: "selected_peer s = Some dest \<Longrightarrow> dest \<in> tp_dest ` set (ap_roster s)"
  by (auto simp: selected_peer_def split: if_splits)

lemma announce_ok:
  assumes "app_ok s"
  shows "app_ok (on_announce hx dest n now s)"
    and "selected_peer s = Some d \<Longrightarrow> selected_peer (on_announce hx dest n now s) = Some d"
proof -
  let ?f = "\<lambda>p. p\<lparr>tp_hops := n, tp_seen := sat_add (tp_seen p) 1, tp_last_secs := now\<rparr>"
  let ?s = "s\<lparr>ap_roster := upsert dest ?f \<lparr>tp_dest = dest, tp_hops = n, tp_seen = 1, tp_last_secs = now\<rparr> (ap_roster s)\<rparr>"
  have d: "distinct (map tp_dest (ap_roster s))" "length (ap_log s) \<le> MAX_LOG_ENTRIES"
    using assms by (simp_all add: app_ok_def)
  note u = upsert_dests [OF d(1), of ?f "\<lparr>tp_dest = dest, tp_hops = n, tp_seen = 1, tp_last_secs = now\<rparr>" dest]
  show "app_ok (on_announce hx dest n now s)"
    using sort_roster_ok [of ?s] u(1) d(2) by (simp add: on_announce_def Let_def)
  assume sel: "selected_peer s = Some d"
  then have "d \<in> tp_dest ` set (ap_roster ?s)" using selected_in_roster [OF sel] u(2) by auto
  then have "selected_peer (sort_roster (Some d) ?s) = Some d" by (rule sort_roster_selected)
  then show "selected_peer (on_announce hx dest n now s) = Some d"
    using sel by (simp add: on_announce_def Let_def)
qed

lemma snapshot_ok:
  assumes "app_ok s"
  shows "app_ok (apply_snapshot snap now s)"
    and "selected_peer s = Some d \<Longrightarrow> selected_peer (apply_snapshot snap now s) = Some d"
proof -
  let ?s = "s\<lparr>ap_identity := ds_identity_hash snap, ap_interfaces := ds_interfaces snap,
    ap_roster := fold (add_path now) (ds_paths snap) (ap_roster s)\<rparr>"
  have d: "distinct (map tp_dest (ap_roster s))" "length (ap_log s) \<le> MAX_LOG_ENTRIES"
    using assms by (simp_all add: app_ok_def)
  note a = add_paths_dests [OF d(1), of now "ds_paths snap"]
  show "app_ok (apply_snapshot snap now s)"
    using sort_roster_ok [of ?s] a(1) d(2) by (simp add: apply_snapshot_def Let_def)
  assume sel: "selected_peer s = Some d"
  then have "d \<in> tp_dest ` set (ap_roster ?s)" using selected_in_roster [OF sel] a(2) by auto
  then show "selected_peer (apply_snapshot snap now s) = Some d"
    using sel sort_roster_selected by (simp add: apply_snapshot_def Let_def)
qed

section \<open>Rounds of the loop\<close>

lemma app_ok_fields [simp]:
  "app_ok (s\<lparr>ap_input := i\<rparr>) = app_ok s" "app_ok (s\<lparr>ap_show_help := b\<rparr>) = app_ok s"
  by (simp_all add: app_ok_def)

lemma app_ok_select: "app_ok s \<Longrightarrow> app_ok (select_next s)" "app_ok s \<Longrightarrow> app_ok (select_prev s)"
  by (auto simp: app_ok_def select_next_def select_prev_def)

lemma app_ok_action: "app_ok s \<Longrightarrow> app_ok (fst (snd (execute_action hx handle s act app_data now)))"
  by (cases act) (auto simp: execute_action_def push_input_def app_backspace_def take_input_def on_error_def app_ok_select
      split: prod.split sum.split)

lemma app_ok_event: "app_ok s \<Longrightarrow> app_ok (apply_event hx s ev now)"
  by (cases ev) (simp_all add: apply_event_def announce_ok on_message_def on_delivered_def on_error_def)

lemma app_ok_round: "app_ok s \<Longrightarrow> app_ok (fst (snd (ui_round hx app_data now input s handle)))"
proof (cases input)
  case (UiKey k)
  then show "app_ok s \<Longrightarrow> ?thesis"
    using app_ok_action [of s hx handle "key_to_action k s" app_data now] by (simp add: ui_round_def case_prod_beta)
qed (auto simp: ui_round_def on_error_def app_ok_event snapshot_ok split: option.split prod.split sum.split)

text \<open>The state after a list of rounds, each with the time it happens at.\<close>

fun ui_run :: "(bytes \<Rightarrow> bytes) \<Rightarrow> bytes \<Rightarrow> (u64 \<times> ui_input) list \<Rightarrow> app_state \<times> driver_handle \<Rightarrow> app_state \<times> driver_handle" where
  "ui_run hx app_data [] s = s"
| "ui_run hx app_data ((now, input) # rs) (s, handle) = ui_run hx app_data rs (snd (ui_round hx app_data now input s handle))"

lemma app_ok_run: "app_ok (fst s) \<Longrightarrow> app_ok (fst (ui_run hx app_data rs s))"
proof (induction hx app_data rs s rule: ui_run.induct)
  case (2 hx app_data now input rs s handle)
  then show ?case using app_ok_round [of s hx app_data now input handle] by simp
qed simp


text \<open>C40: The user interface's state is consistent whatever happens: after any keys, driver events,
  snapshots and announcements, the roster lists every destination once, most recently heard first (ties by
  destination), the log has at most 1000 entries and the selection is a peer of the roster (0 when it is
  empty); and an announce or a snapshot moves the selection along with its peer.\<close>

theorem ui_state_consistent:
  assumes "s = fst (ui_run hx app_data rounds (app_new identity, handle))"
  shows "distinct (map tp_dest (ap_roster s)) \<and> sorted (map peer_key (ap_roster s)) \<and> length (ap_log s) \<le> 1000 \<and>
    (if ap_roster s = [] then ap_selected s = 0 else ap_selected s < length (ap_roster s)) \<and>
    (\<forall>d dest n now snap. selected_peer s = Some d \<longrightarrow>
       selected_peer (on_announce hx dest n now s) = Some d \<and> selected_peer (apply_snapshot snap now s) = Some d)"
proof -
  have ok: "app_ok s" unfolding assms by (rule app_ok_run) (simp add: app_ok_new)
  then show ?thesis
    using announce_ok(2) [OF ok] snapshot_ok(2) [OF ok] by (simp add: app_ok_def MAX_LOG_ENTRIES_def)
qed

theorem ui_state_consistent_witness:
  "let s = fst (ui_run id [] [(5, UiEvent (Some (Announce (replicate 16 7) 1)))] (app_new [], None)) in
     selected_peer s = Some (replicate 16 7) \<and> selected_peer (on_announce id (replicate 16 8) 2 9 s) = Some (replicate 16 7)"
proof -
  let ?s = "fst (ui_run id [] [(5, UiEvent (Some (Announce (replicate 16 7) 1)))] (app_new [], None))"
  have s: "?s = on_announce id (replicate 16 7) 1 5 (app_new [])"
    by (simp add: ui_round_def apply_event_def)
  have "selected_peer ?s = Some (replicate 16 7)"
    unfolding s by (simp add: on_announce_def app_new_def upsert_def sort_roster_def selected_peer_def Let_def)
  then show ?thesis
    using ui_state_consistent [OF HOL.refl, of id "[]" "[(5, UiEvent (Some (Announce (replicate 16 7) 1)))]" "[]" None]
    unfolding Let_def by blast
qed

text \<open>The letters a and q and the question mark are commands in every focus: no key enters them into the
  message being typed.\<close>

theorem typed_never_command: "key_to_action key s \<noteq> ActInput (char_code CHR ''a'') \<and>
    key_to_action key s \<noteq> ActInput (char_code CHR ''q'') \<and> key_to_action key s \<noteq> ActInput (char_code CHR ''?'')"
  by (simp add: key_to_action_def split: key_code.split option.split)

end
