(* ===== verification/Serial_Line.thy ===== *)
theory Serial_Line
  imports Framing
begin

text \<open>
  The serial interface of reticulum-tokio/src/serial.rs: the reader thread, which cuts the bytes of the
  device into KISS frames, and the writer. A read of the device yields bytes, nothing yet (a timeout) or
  an error. The interface is alive, so its channel accepts every packet.
\<close>

definition SERIAL_HW_MTU :: nat where "SERIAL_HW_MTU = 564"
definition READ_CAPACITY :: nat where "READ_CAPACITY = SERIAL_HW_MTU * 2 + 3"

text \<open>One byte: the packet it completes and the frame collected so far.\<close>

definition serial_byte :: "u8 \<Rightarrow> bytes \<Rightarrow> bytes option \<times> bytes" where
  "serial_byte b framed =
     (if b = FEND then (if length framed \<ge> 2 then kiss_deframe (framed @ [FEND]) else None, [FEND])
      else if framed \<noteq> [] then
        (if length framed < READ_CAPACITY then (None, framed @ [b]) else (None, []))
      else (None, framed))"

fun serial_feed :: "bytes \<Rightarrow> bytes \<Rightarrow> bytes list \<times> bytes" where
  "serial_feed [] framed = ([], framed)"
| "serial_feed (b # bs) framed =
     (case serial_byte b framed of (packet, framed) \<Rightarrow>
        case serial_feed bs framed of (packets, framed) \<Rightarrow>
          ((case packet of None \<Rightarrow> packets | Some p \<Rightarrow> p # packets), framed))"

datatype device_read = ReadBytes bytes | ReadTimeout | ReadError

text \<open>What the reader puts into the channel when it accepts everything; an error ends the thread.\<close>

fun serial_reader :: "device_read list \<Rightarrow> bytes \<Rightarrow> (unit + bytes) list" where
  "serial_reader [] framed = []"
| "serial_reader (ReadBytes bs # rs) framed =
     (case serial_feed bs framed of (packets, framed) \<Rightarrow> map Inr packets @ serial_reader rs framed)"
| "serial_reader (ReadTimeout # rs) framed = serial_reader rs framed"
| "serial_reader (ReadError # rs) framed = [Inl ()]"

text \<open>\<open>inbound.recv().transpose()\<close>: the end of the channel is the end of the stream.\<close>

fun serial_recv :: "(unit + bytes) list \<Rightarrow> (unit + bytes option) \<times> (unit + bytes) list" where
  "serial_recv [] = (Inr None, [])"
| "serial_recv (Inl e # rs) = (Inl e, rs)"
| "serial_recv (Inr packet # rs) = (Inr (Some packet), rs)"

text \<open>What is written to the device; \<open>None\<close>: the packet is too large.\<close>

definition serial_send :: "bytes \<Rightarrow> bytes option" where
  "serial_send raw = (if length raw > SERIAL_HW_MTU then None else Some (kiss_frame raw))"

section \<open>Frames on the line\<close>

lemma serial_feed_append: "serial_feed (a @ b) framed =
  (let (ps, framed) = serial_feed a framed; (qs, framed) = serial_feed b framed in (ps @ qs, framed))"
  by (induction a arbitrary: framed) (auto simp: case_prod_beta Let_def split: option.split)

lemma serial_feed_body:
  assumes "FEND \<notin> set bs" and "framed \<noteq> []" and "length framed + length bs \<le> READ_CAPACITY"
  shows "serial_feed bs framed = ([], framed @ bs)"
  using assms
proof (induction bs arbitrary: framed)
  case (Cons b bs)
  have "serial_byte b framed = (None, framed @ [b])" using Cons.prems by (auto simp: serial_byte_def)
  then show ?case using Cons.IH [of "framed @ [b]"] Cons.prems by simp
qed simp

lemma kiss_escape_length: "length (kiss_escape d) \<le> 2 * length d"
  by (induction d) auto

text \<open>One frame, on a line that is idle or has just ended a frame.\<close>

lemma serial_feed_frame:
  assumes "length p \<le> SERIAL_HW_MTU" and "framed = [] \<or> framed = [FEND]"
  shows "serial_feed (kiss_frame p) framed = ([p], [FEND])"
proof -
  let ?body = "CMD_DATA # kiss_escape p"
  have f: "kiss_frame p = FEND # ?body @ [FEND]" and c: "FEND \<notin> set ?body"
    by (rule kiss.frame_body, rule kiss.body_clean)
  have "length ([FEND] :: bytes) + length ?body \<le> READ_CAPACITY"
    using assms(1) kiss_escape_length [of p] by (simp add: READ_CAPACITY_def)
  then have b: "serial_feed ?body [FEND] = ([], FEND # ?body)"
    using serial_feed_body [OF c, of "[FEND]"] by simp
  have d: "kiss_deframe (FEND # ?body @ [FEND]) = Some p" using kiss.deframe_frame [of p] unfolding f .
  have "serial_feed [FEND] framed = ([], [FEND])" using assms(2) by (auto simp: serial_byte_def)
  moreover have "serial_feed [FEND] (FEND # ?body) = ([p], [FEND])" using d by (simp add: serial_byte_def)
  ultimately show ?thesis
    using serial_feed_append [of "[FEND]" "?body @ [FEND]" framed] serial_feed_append [of ?body "[FEND]" "[FEND]"] b
    unfolding f by simp
qed

lemma serial_feed_frames:
  assumes "\<forall>p \<in> set ps. length p \<le> SERIAL_HW_MTU" and "framed = [] \<or> framed = [FEND]"
  shows "\<exists>rest. (rest = [] \<or> rest = [FEND]) \<and> serial_feed (concat (map kiss_frame ps)) framed = (ps, rest)"
  using assms
proof (induction ps arbitrary: framed)
  case (Cons p ps)
  obtain rest where "rest = [] \<or> rest = [FEND]" "serial_feed (concat (map kiss_frame ps)) [FEND] = (ps, rest)"
    using Cons.IH [of "[FEND]"] Cons.prems(1) by auto
  then show ?case using Cons.prems by (auto simp: serial_feed_append serial_feed_frame)
qed auto

section \<open>Reads of any size\<close>

text \<open>The bytes read, in the order of the reads; without an error the reader sees them as one stream.\<close>

fun read_bytes :: "device_read list \<Rightarrow> bytes" where
  "read_bytes [] = []"
| "read_bytes (ReadBytes bs # rs) = bs @ read_bytes rs"
| "read_bytes (_ # rs) = read_bytes rs"

lemma serial_reader_stream: "ReadError \<notin> set rs \<Longrightarrow> serial_reader rs framed = map Inr (fst (serial_feed (read_bytes rs) framed))"
proof (induction rs framed rule: serial_reader.induct)
  case (2 bs rs framed)
  obtain ps framed' where "serial_feed bs framed = (ps, framed')" by fastforce
  then show ?case using 2 by (simp add: serial_feed_append case_prod_beta Let_def)
qed simp_all

text \<open>What is sent on the line is received, whatever the reads cut it into.\<close>

lemma serial_delivers:
  assumes "ReadError \<notin> set rs" and "read_bytes rs = concat (map the (map serial_send ps))" and "\<forall>p \<in> set ps. serial_send p \<noteq> None"
  shows "serial_reader rs [] = map Inr ps"
proof -
  have m: "map the (map serial_send ps) = map kiss_frame ps" and "\<forall>p \<in> set ps. length p \<le> SERIAL_HW_MTU"
    using assms(3) by (auto simp: serial_send_def not_less split: if_splits)
  then have "fst (serial_feed (read_bytes rs) []) = ps"
    unfolding assms(2) m using serial_feed_frames [of ps "[]"] by auto
  then show ?thesis by (simp add: serial_reader_stream [OF assms(1)])
qed

end
