(* ===== verification/Host_Properties.thy ===== *)
theory Host_Properties
  imports Tui_Properties Serial_Line Toy_Ext
begin

text \<open>
  Properties of the interface that discovers its peers.
\<close>

lemma toy_sha: "sha_ok toy_ext"
  using toy_ok by (simp add: crypto_ok_def)

text \<open>C34: A discovered network lets in members only. On a fresh interface of a group, a packet is received
  only from an address, other than the host's own, from which a datagram carrying the group's token for that
  very address came before; the packet is the datagram's, at most 1196 bytes, and every peer's packets go to
  the data port at the peer's own address.\<close>

theorem auto_packets_authentic:
  assumes "auto_new_with_ports X group_id discovery_port data_port iface_name if_addrs bound = Inr a"
    and "auto_recv X inputs a = (Some (Inr packet), a', rest)"
  shows "(\<exists>pre s. inputs = pre @ DataIn (Some (packet, SocketV6 s)) # rest \<and> length packet \<le> 1196 \<and>
      sk_ip s \<noteq> au_local_ip a \<and> (\<exists>input \<in> set pre. presents_token X group_id (sk_ip s) input)) \<and>
    (\<forall>ip p. bt_get ip (au_peers a') = Some p \<longrightarrow> p = socket_v6_new ip data_port 0 (au_interface_index a) \<and> ip \<noteq> au_local_ip a)"
proof -
  have a: "au_peers a = []" "au_group_id a = group_id" "au_data_port a = data_port"
    using assms(1) by (auto simp: auto_new_with_ports_def result_simps split: if_splits prod.splits)
  then have "auto_ok a" by (simp add: auto_ok_def bt_ok_def bt_keys_def bt_get_def)
  then have ok: "auto_ok a'" and "same_settings a a'" using auto_ok_recv [OF assms(2)] by simp_all
  then have "\<forall>ip p. bt_get ip (au_peers a') = Some p \<longrightarrow>
      p = socket_v6_new ip data_port 0 (au_interface_index a) \<and> ip \<noteq> au_local_ip a"
    using a(3) by (simp add: auto_ok_def same_settings_def)
  moreover have "\<not> bt_contains ip (au_peers a)" for ip by (simp add: a(1) bt_contains_def bt_get_def)
  ultimately show ?thesis using recv_authentic [OF assms(2)] a(2) by (simp add: AUTO_HW_MTU_def)
qed

theorem auto_packets_authentic_witness:
  "let ip = ipv6_new [0xFE80, 0, 0, 0, 0, 0, 0, 1]; peer = socket_v6_new (ipv6_new [0xFE80, 0, 0, 0, 0, 0, 0, 2]) 9 0 3 in
   \<exists>input \<in> {DiscoveryIn (Some (discovery_token toy_ext [7] (sk_ip peer), SocketV6 peer)) True}.
     presents_token toy_ext [7] (sk_ip peer) input"
proof -
  define ip where "ip = ipv6_new [0xFE80, 0, 0, 0, 0, 0, 0, 1]"
  define peer where "peer = socket_v6_new (ipv6_new [0xFE80, 0, 0, 0, 0, 0, 0, 2]) 9 0 3"
  define hello where "hello = DiscoveryIn (Some (discovery_token toy_ext [7] (sk_ip peer), SocketV6 peer)) True"
  define found :: "io_kind + (bytes \<times> ipv6 option \<times> u32 option) list" where "found = Inr [(str ''e'', Some ip, Some (3 :: u32))]"
  have ll: "is_unicast_link_local ip" unfolding ip_def by code_simp
  have ne: "sk_ip peer \<noteq> ip" unfolding peer_def ip_def by code_simp
  obtain a where a: "auto_new_with_ports toy_ext [7] 1 2 (str ''e'') found True = Inr a"
    "au_local_ip a = ip" "au_group_id a = [7]"
    using ll by (simp add: auto_new_with_ports_def link_local_interface_def found_def)
  have "auto_recv toy_ext [hello, DataIn (Some ([1, 2], SocketV6 peer))] a =
    (Some (Inr [1, 2]), snd (auto_turn toy_ext hello a), [])"
    using discovery_accepted(1) [OF toy_sha, of peer a] a(2,3) ne
    by (simp add: hello_def) (simp add: auto_turn_def AUTO_HW_MTU_def bt_contains_def bt_simps)
  from auto_packets_authentic [OF a(1) this] show ?thesis
    unfolding Let_def by (auto simp: hello_def peer_def presents_token_def Cons_eq_append_conv)
qed

text \<open>C35: Two hosts of a group find each other and exchange packets. One announces itself; the other, which
  hears the announcement, answers to the first one's address; once the answer is heard both count the other
  as a peer. A packet of at most 1196 bytes the first then sends goes to the other's data port, and the
  other, hearing it from the first one's address, receives exactly it.\<close>

theorem auto_discovery_mutual:
  assumes "sha_ok X" and "au_group_id b = au_group_id a" and "au_local_ip b \<noteq> au_local_ip a"
    and "auto_ok a" and "length packet \<le> 1196"
    and "sk_ip at_b = au_local_ip a" and "sk_ip at_a = au_local_ip b"
    and "auto_announce X True a = (Inr (), a1)"
    and "auto_turn X (DiscoveryIn (Some (fst (last (au_sent a1)), SocketV6 at_b)) True) b = (r1, b1)"
    and "auto_turn X (ReverseIn (Some (fst (last (au_sent b1)), SocketV6 at_a))) a1 = (r2, a2)"
    and "auto_send packet (\<lambda>_. True) a2 = (r3, a3)"
  shows "r1 = None \<and> sk_ip (snd (last (au_sent b1))) = au_local_ip a \<and> r2 = None \<and> r3 = Inr () \<and>
    bt_contains (au_local_ip b) (au_peers a2) \<and> bt_contains (au_local_ip a) (au_peers b1) \<and>
    (packet, socket_v6_new (au_local_ip b) (au_data_port a) 0 (au_interface_index a)) \<in> set (drop (length (au_sent a2)) (au_sent a3)) \<and>
    auto_recv X (DataIn (Some (packet, SocketV6 at_b)) # rest) b1 = (Some (Inr packet), b1, rest)"
proof -
  have a1: "a1 = a\<lparr>au_sent := au_sent a @ [(discovery_token X (au_group_id a) (au_local_ip a),
      socket_v6_new (au_multicast_addr a) (au_discovery_port a) 0 (au_interface_index a))]\<rparr>"
    using assms(8) by (simp add: auto_announce_def sent_to_def)
  have b1: "r1 = None" "b1 = b\<lparr>au_peers := bt_insert (au_local_ip a)
        (socket_v6_new (au_local_ip a) (au_data_port b) 0 (au_interface_index b)) (au_peers b),
      au_sent := au_sent b @ [(discovery_token X (au_group_id b) (au_local_ip b),
        socket_v6_new (au_local_ip a) (au_discovery_port b + 1) 0 (au_interface_index b))]\<rparr>"
    using assms(9) discovery_accepted(1) [of X at_b b] assms(1-3,6) by (simp_all add: a1)
  let ?p = "socket_v6_new (au_local_ip b) (au_data_port a) 0 (au_interface_index a)"
  have a2: "r2 = None" "a2 = a1\<lparr>au_peers := bt_insert (au_local_ip b) ?p (au_peers a)\<rparr>"
    using assms(10) discovery_accepted(2) [of X at_a a1] assms(1-3,7) by (simp_all add: b1 a1)
  have "bt_ok (au_peers a2)" using assms(4) by (simp add: a2 auto_ok_def bt_oks)
  then have get: "bt_get (au_local_ip b) (au_peers a2) = Some ?p"
    using assms(4) by (simp add: a2 auto_ok_def bt_simps)
  then have p: "bt_get (au_local_ip b) (au_peers a2) = Some ?p" "?p \<in> set (map snd (au_peers a2))"
    using map_of_SomeD [of "au_peers a2"] by (force simp: bt_get_def)+
  have a3: "r3 = Inr ()" "au_sent a3 = au_sent a2 @ map (Pair packet) (map snd (au_peers a2))"
    using assms(5,11) send_to_peers_ok [of "map snd (au_peers a2)" "\<lambda>_. True" packet a2]
    by (auto simp: auto_send_def AUTO_HW_MTU_def simp del: map_map)
  have c: "bt_contains (au_local_ip b) (au_peers a2)" "bt_contains (au_local_ip a) (au_peers b1)"
    using p by (auto simp: bt_contains_def b1 bt_simps)
  then show ?thesis using b1(1) a2(1) a3 p(2) assms(5,6)
    by (auto simp: auto_turn_def AUTO_HW_MTU_def b1 socket_v6_new_def)
qed

theorem auto_discovery_mutual_witness:
  "\<exists>(a :: auto) b at_b. au_local_ip a \<noteq> au_local_ip b \<and> auto_recv toy_ext [DataIn (Some ([1, 2], SocketV6 at_b))] b = (Some (Inr [1, 2]), b, []) \<and>
    bt_contains (au_local_ip a) (au_peers b)"
proof -
  let ?h = "\<lambda>ip. \<lparr>au_id = 0, au_group_id = [7], au_local_ip = ip, au_interface_index = 3, au_multicast_addr = 5,
    au_discovery_port = 1, au_data_port = 2, au_peers = [], au_sent = []\<rparr>"
  let ?at = "\<lambda>ip. socket_v6_new ip 9 0 3"
  obtain a1 where a1: "auto_announce toy_ext True (?h 1) = (Inr (), a1)" by (simp add: auto_announce_def sent_to_def)
  obtain r1 b1 where b1: "auto_turn toy_ext (DiscoveryIn (Some (fst (last (au_sent a1)), SocketV6 (?at 1))) True) (?h 2) = (r1, b1)"
    by fastforce
  obtain r2 a2 where a2: "auto_turn toy_ext (ReverseIn (Some (fst (last (au_sent b1)), SocketV6 (?at 2)))) a1 = (r2, a2)" by fastforce
  obtain r3 a3 where a3: "auto_send [1, 2] (\<lambda>_. True) a2 = (r3, a3)" by fastforce
  have ip: "au_local_ip b1 = 2" using turn_effect(1) [OF b1] by (simp add: same_settings_def)
  have "auto_recv toy_ext [DataIn (Some ([1, 2], SocketV6 (?at 1)))] b1 = (Some (Inr [1, 2]), b1, [])"
    "bt_contains 1 (au_peers b1)"
    using auto_discovery_mutual [OF toy_sha _ _ _ _ _ _ a1 b1 a2 a3, of "[]"]
    by (simp_all add: auto_ok_def bt_ok_def bt_keys_def bt_get_def socket_v6_new_def)
  then show ?thesis using ip by (intro exI [of _ "?h 1"] exI [of _ b1] exI [of _ "?at 1"]) simp
qed

end
