(* ===== verification/Ffi_Client.thy ===== *)
theory Ffi_Client
  imports Text_Forms Driver_Tables
begin

text \<open>
  The client exported to other languages, reticulum-ffi/src/lib.rs: a node that is configured, connected to
  one TCP peer and closed. The lock around the state may be poisoned (a thread panicked while it held it),
  and so may the one around the event handler. A connected client holds a handle of the driver; its task
  runs on its own, so what it does to the handle's queue are steps of the environment. The handler is a
  number, its calls are the list \<open>fc_calls\<close>.
\<close>

section \<open>The client\<close>

datatype ffi_error =
    InvalidIdentity
  | InvalidDestination
  | AlreadyConnected
  | NotConnected
  | RegistrationClosed
  | Network
  | Protocol driver_error
  | StateUnavailable

datatype callback = OnMessage bytes bytes | OnDelivered bytes | OnError bytes

datatype client_state = Configuring node | Connected driver_handle | Closed

record client =
  fc_state :: client_state
  fc_poisoned :: bool
  fc_handler :: "nat option"
  fc_handler_poisoned :: bool
  fc_calls :: "(nat \<times> callback) list"

definition client_new :: "bytes \<Rightarrow> u64 \<Rightarrow> ffi_error + client" where
  "client_new identity_bytes clock =
     (if length identity_bytes \<noteq> 64 then Inl InvalidIdentity
      else let encryption = take 32 identity_bytes; signing = drop 32 identity_bytes
           in Inr \<lparr>fc_state = Configuring (node_with_clock (from_private_bytes encryption signing) clock),
                fc_poisoned = False, fc_handler = None, fc_handler_poisoned = False, fc_calls = []\<rparr>)"

definition set_event_handler :: "nat \<Rightarrow> client \<Rightarrow> (ffi_error + unit) \<times> client" where
  "set_event_handler handler c =
     (if fc_handler_poisoned c then (Inl StateUnavailable, c) else (Inr (), c\<lparr>fc_handler := Some handler\<rparr>))"

definition clear_event_handler :: "client \<Rightarrow> (ffi_error + unit) \<times> client" where
  "clear_event_handler c =
     (if fc_handler_poisoned c then (Inl StateUnavailable, c) else (Inr (), c\<lparr>fc_handler := None\<rparr>))"

definition client_register :: "ext \<Rightarrow> bytes \<Rightarrow> bytes list \<Rightarrow> client \<Rightarrow> (ffi_error + bytes) \<times> client" where
  "client_register X app_name aspects c =
     (if fc_poisoned c then (Inl StateUnavailable, c)
      else case fc_state c of
        Configuring nd \<Rightarrow>
          (case register_single_destination X app_name aspects nd of
             (dh, nd) \<Rightarrow> (Inr dh, c\<lparr>fc_state := Configuring nd\<rparr>))
      | _ \<Rightarrow> (Inl RegistrationClosed, c))"

text \<open>\<open>runtime\<close>: the runtime can be made; \<open>peer\<close>: the peer accepts the connection. The new driver, whose task is
  started, comes with the result; \<open>task\<close> is the channel to its interface.\<close>

definition connect_tcp ::
    "bool \<Rightarrow> bool \<Rightarrow> channel \<Rightarrow> 'r \<Rightarrow> client \<Rightarrow> (ffi_error + unit) \<times> client \<times> 'r driver option" where
  "connect_tcp runtime peer task r c =
     (if fc_poisoned c then (Inl StateUnavailable, c, None)
      else case fc_state c of
        Connected _ \<Rightarrow> (Inl AlreadyConnected, c, None)
      | Closed \<Rightarrow> (Inl NotConnected, c\<lparr>fc_state := Closed\<rparr>, None)
      | Configuring nd \<Rightarrow>
          let c = c\<lparr>fc_state := Closed\<rparr> in
          if \<not> runtime then (Inl Network, c, None)
          else if \<not> peer then (Inl Network, c\<lparr>fc_state := Configuring nd\<rparr>, None)
          else case driver_new nd task r of
                 (d, handle) \<Rightarrow> (Inr (), c\<lparr>fc_state := Connected handle\<rparr>, Some d))"

definition connection :: "client \<Rightarrow> ffi_error + driver_handle" where
  "connection c =
     (if fc_poisoned c then Inl StateUnavailable
      else case fc_state c of Connected handle \<Rightarrow> Inr handle | _ \<Rightarrow> Inl NotConnected)"

definition client_announce :: "bytes \<Rightarrow> client \<Rightarrow> (ffi_error + unit) \<times> client" where
  "client_announce app_data c =
     (case connection c of
        Inl e \<Rightarrow> (Inl e, c)
      | Inr handle \<Rightarrow>
          (case handle_announce_all app_data handle of
             (Inl _, handle) \<Rightarrow> (Inl NotConnected, c\<lparr>fc_state := Connected handle\<rparr>)
           | (Inr _, handle) \<Rightarrow> (Inr (), c\<lparr>fc_state := Connected handle\<rparr>)))"

text \<open>\<open>response\<close> is what the driver replies.\<close>

definition client_send ::
    "bytes \<Rightarrow> bytes \<Rightarrow> (node_error + bytes) option \<Rightarrow> client \<Rightarrow> (ffi_error + bytes) \<times> client" where
  "client_send dest plaintext response c =
     (if length dest \<noteq> 16 then (Inl InvalidDestination, c)
      else case connection c of
        Inl e \<Rightarrow> (Inl e, c)
      | Inr handle \<Rightarrow>
          (case handle_send_with_receipt dest plaintext response handle of
             (Inl e, handle) \<Rightarrow> (Inl (Protocol e), c\<lparr>fc_state := Connected handle\<rparr>)
           | (Inr ph, handle) \<Rightarrow> (Inr ph, c\<lparr>fc_state := Connected handle\<rparr>)))"

definition client_disconnect :: "client \<Rightarrow> (ffi_error + unit) \<times> client" where
  "client_disconnect c =
     (case connection c of
        Inl e \<Rightarrow> (Inl e, c)
      | Inr handle \<Rightarrow>
          (case handle_shutdown handle of
             (Inl _, handle) \<Rightarrow> (Inl NotConnected, c\<lparr>fc_state := Connected handle\<rparr>)
           | (Inr _, handle) \<Rightarrow> (Inr (), c\<lparr>fc_state := Closed\<rparr>)))"

text \<open>One event of the driver, in the task that passes them on.\<close>

definition client_event :: "event \<Rightarrow> client \<Rightarrow> client" where
  "client_event ev c =
     (case (if fc_handler_poisoned c then None else fc_handler c) of
        None \<Rightarrow> c
      | Some handler \<Rightarrow>
          let call = \<lambda>b. c\<lparr>fc_calls := fc_calls c @ [(handler, b)]\<rparr> in
          case ev of
            Message dh plaintext \<Rightarrow> call (OnMessage dh plaintext)
          | Delivered ph \<Rightarrow> call (OnDelivered ph)
          | Error e \<Rightarrow> call (OnError (node_error_debug e))
          | _ \<Rightarrow> c)"

section \<open>A client as a system\<close>

text \<open>The calls of the application, and what happens on the driver's side: it takes a command, it ends, it
  reports an event.\<close>

datatype ffi_op =
    FfiRegister bytes "bytes list"
  | FfiConnect bool bool channel
  | FfiAnnounce bytes
  | FfiSend bytes bytes "(node_error + bytes) option"
  | FfiDisconnect
  | FfiSetHandler nat
  | FfiClearHandler
  | FfiTaken
  | FfiDriverGone
  | FfiEvent event

definition drop_result :: "(ffi_error + unit) \<times> client \<Rightarrow> (ffi_error + bytes) \<times> client" where
  "drop_result = map_prod (map_sum id (\<lambda>_. [])) id"

definition ffi_step :: "ext \<Rightarrow> ffi_op \<Rightarrow> client \<Rightarrow> (ffi_error + bytes) \<times> client" where
  "ffi_step X oper c =
     (case oper of
        FfiRegister app_name aspects \<Rightarrow> client_register X app_name aspects c
      | FfiConnect runtime peer task \<Rightarrow>
          (case connect_tcp runtime peer task () c of (res, c, d) \<Rightarrow> drop_result (res, c))
      | FfiAnnounce app_data \<Rightarrow> drop_result (client_announce app_data c)
      | FfiSend dest plaintext response \<Rightarrow> client_send dest plaintext response c
      | FfiDisconnect \<Rightarrow> drop_result (client_disconnect c)
      | FfiSetHandler handler \<Rightarrow> drop_result (set_event_handler handler c)
      | FfiClearHandler \<Rightarrow> drop_result (clear_event_handler c)
      | FfiTaken \<Rightarrow>
          (Inr [], case fc_state c of Connected (Some cs) \<Rightarrow> c\<lparr>fc_state := Connected (Some (drop 1 cs))\<rparr> | _ \<Rightarrow> c)
      | FfiDriverGone \<Rightarrow>
          (Inr [], case fc_state c of Connected _ \<Rightarrow> c\<lparr>fc_state := Connected None\<rparr> | _ \<Rightarrow> c)
      | FfiEvent ev \<Rightarrow> (Inr [], client_event ev c))"

text \<open>The calls made and their results.\<close>

fun ffi_run :: "ext \<Rightarrow> ffi_op list \<Rightarrow> client \<Rightarrow> (ffi_op \<times> (ffi_error + bytes)) list \<times> client" where
  "ffi_run X [] c = ([], c)"
| "ffi_run X (oper # ops) c =
     (case ffi_step X oper c of (res, c) \<Rightarrow> case ffi_run X ops c of (trace, c) \<Rightarrow> ((oper, res) # trace, c))"

text \<open>The phases of a client, and the phase a call needs to succeed.\<close>

definition phase :: "client \<Rightarrow> nat" where
  "phase c = (case fc_state c of Configuring _ \<Rightarrow> 0 | Connected _ \<Rightarrow> 1 | Closed \<Rightarrow> 2)"

definition needs_phase :: "ffi_op \<Rightarrow> nat option" where
  "needs_phase oper = (case oper of
     FfiRegister _ _ \<Rightarrow> Some 0 | FfiConnect _ _ _ \<Rightarrow> Some 0 | FfiAnnounce _ \<Rightarrow> Some 1 | FfiSend _ _ _ \<Rightarrow> Some 1
   | FfiDisconnect \<Rightarrow> Some 1 | _ \<Rightarrow> None)"

definition reaches_phase :: "ffi_op \<Rightarrow> nat option" where
  "reaches_phase oper = (case oper of FfiConnect _ _ _ \<Rightarrow> Some 1 | FfiDisconnect \<Rightarrow> Some 2 | _ \<Rightarrow> None)"

lemma client_event_state [simp]:
  "fc_state (client_event ev c) = fc_state c" "fc_poisoned (client_event ev c) = fc_poisoned c"
  by (simp_all add: client_event_def Let_def split: option.split event.split)

lemma step_phase:
  assumes "ffi_step X oper c = (res, c')"
  shows "phase c \<le> phase c'"
    and "res = Inr v \<Longrightarrow> needs_phase oper = Some k \<Longrightarrow> phase c = k \<and> \<not> fc_poisoned c \<and> phase c' = (case reaches_phase oper of Some j \<Rightarrow> j | None \<Rightarrow> k)"
  using assms
  by (cases oper; cases "fc_state c"; auto simp: ffi_step_def phase_def needs_phase_def reaches_phase_def drop_result_def connection_def
      client_register_def connect_tcp_def client_announce_def client_send_def client_disconnect_def set_event_handler_def
      clear_event_handler_def Let_def split: if_splits prod.splits sum.splits option.splits)+

end
