(* ===== verification/Ffi_Properties.thy ===== *)
theory Ffi_Properties
  imports Ffi_Client Toy_Ext
begin

text \<open>
  The life of an exported client: which calls succeed in which order, and what it connects.
\<close>

section \<open>Phases along a run\<close>

lemma run_phase: "ffi_run X ops c = (trace, c') \<Longrightarrow> phase c \<le> phase c'"
proof (induction X ops c arbitrary: trace rule: ffi_run.induct)
  case (2 X oper ops c)
  obtain res c1 where s: "ffi_step X oper c = (res, c1)" by fastforce
  obtain tr where "ffi_run X ops c1 = (tr, c')" using 2(2) s by (auto split: prod.splits)
  then show ?case using 2(1) [OF s [symmetric]] step_phase(1) [OF s] by fastforce
qed simp

lemma run_append:
  "ffi_run X (a @ b) c = (let (t, c) = ffi_run X a c; (u, c) = ffi_run X b c in (t @ u, c))"
  by (induction a arbitrary: c) (auto simp: case_prod_beta Let_def)

lemma run_length: "ffi_run X ops c = (trace, c') \<Longrightarrow> map fst trace = ops"
  by (induction ops arbitrary: c trace) (auto split: prod.splits)

lemma run_split:
  assumes "ffi_run X ops c = (pre @ (oper, res) # post, c')"
  shows "\<exists>c1 c2. ffi_run X (map fst pre) c = (pre, c1) \<and> ffi_step X oper c1 = (res, c2) \<and> ffi_run X (map fst post) c2 = (post, c')"
proof -
  have ops: "ops = map fst pre @ oper # map fst post" using run_length [OF assms] by simp
  obtain t c1 where t: "ffi_run X (map fst pre) c = (t, c1)" by fastforce
  obtain r c2 where s: "ffi_step X oper c1 = (r, c2)" by fastforce
  obtain u c3 where u: "ffi_run X (map fst post) c2 = (u, c3)" by fastforce
  have "t @ (oper, r) # u = pre @ (oper, res) # post" "c3 = c'"
    using assms by (simp_all add: ops run_append t s u)
  moreover have "length t = length pre" using run_length [OF t] by (metis length_map)
  ultimately show ?thesis using t s u by auto
qed

text \<open>A later success needs at least the phase an earlier one reached.\<close>

lemma successes_ordered:
  assumes "ffi_run X ops c = (pre @ (o1, Inr v1) # mid @ (o2, Inr v2) # post, c')"
    and "needs_phase o1 = Some i" and "needs_phase o2 = Some j"
  shows "(case reaches_phase o1 of Some k \<Rightarrow> k | None \<Rightarrow> i) \<le> j"
proof -
  obtain c1 c2 where s1: "ffi_step X o1 c1 = (Inr v1, c2)" and r: "ffi_run X (map fst (mid @ (o2, Inr v2) # post)) c2 = (mid @ (o2, Inr v2) # post, c')"
    using run_split [OF assms(1)] by blast
  obtain c3 c4 where m: "ffi_run X (map fst mid) c2 = (mid, c3)" and s2: "ffi_step X o2 c3 = (Inr v2, c4)"
    using run_split [OF r] by blast
  have "phase c2 = (case reaches_phase o1 of Some k \<Rightarrow> k | None \<Rightarrow> i)" "phase c3 = j"
    using step_phase(2) [OF s1 HOL.refl assms(2)] step_phase(2) [OF s2 HOL.refl assms(3)] by simp_all
  then show ?thesis using run_phase [OF m] by simp
qed

section \<open>The node being configured\<close>

definition fresh_node :: "node \<Rightarrow> bool" where
  "fresh_node nd \<longleftrightarrow> node_ok nd \<and> nd_interfaces nd = [] \<and> nd_outbound nd = [] \<and> (\<forall>l \<in> set (nd_locals nd). ld_kind l = Single False)"

lemma fresh_node_new: "fresh_node (node_with_clock i c)"
  by (simp add: fresh_node_def) (simp add: node_with_clock_def)

definition knows :: "node \<Rightarrow> bytes \<Rightarrow> bool" where
  "knows nd a \<longleftrightarrow> (\<exists>l. find_local a nd = Some l \<and> ld_kind l = Single False)"

lemma knows_iff: "fresh_node nd \<Longrightarrow> knows nd a \<longleftrightarrow> a \<in> ld_dest_hash ` set (nd_locals nd)"
  using find_local_None [of a nd] by (fastforce simp: knows_def fresh_node_def dest: find_local_Some)

lemma register_fresh:
  assumes "register_single_destination X app asp nd = (a, nd')" and "fresh_node nd"
  shows "fresh_node nd'" and "knows nd' a" and "knows nd b \<Longrightarrow> knows nd' b"
proof -
  have n: "nd' = snd (register_single_destination X app asp nd)" "a = fst (register_single_destination X app asp nd)"
    using assms(1) by simp_all
  have "node_ok nd'" using assms(2) by (simp add: n fresh_node_def)
  then show f: "fresh_node nd'"
    using assms by (auto simp: fresh_node_def register_single_destination_def push_local_def Let_def)
  show "knows nd' a" "knows nd b \<Longrightarrow> knows nd' b"
    using assms(1) unfolding knows_iff [OF f] knows_iff [OF assms(2)]
    by (auto simp: register_single_destination_def push_local_def Let_def)
qed

lemma step_configuring:
  assumes "ffi_step X oper c = (res, c')" and "fc_state c' = Configuring nd'"
  shows "\<exists>nd. fc_state c = Configuring nd \<and> (nd' = nd \<and> (\<forall>app asp. oper \<noteq> FfiRegister app asp \<or> (\<exists>e. res = Inl e)) \<or>
    (\<exists>app asp a. oper = FfiRegister app asp \<and> res = Inr a \<and> register_single_destination X app asp nd = (a, nd')))"
  using assms
  by (cases oper; cases "fc_state c"; auto simp: ffi_step_def drop_result_def connection_def
      client_register_def connect_tcp_def client_announce_def client_send_def client_disconnect_def set_event_handler_def
      clear_event_handler_def Let_def split: if_splits prod.splits sum.splits option.splits)

lemma run_configuring:
  assumes "ffi_run X ops c = (trace, c')" and "fc_state c' = Configuring nd'"
  shows "\<exists>nd. fc_state c = Configuring nd \<and> (fresh_node nd \<longrightarrow> fresh_node nd' \<and> (\<forall>b. knows nd b \<longrightarrow> knows nd' b) \<and>
    (\<forall>app asp a. (FfiRegister app asp, Inr a) \<in> set trace \<longrightarrow> knows nd' a))"
  using assms
proof (induction X ops c arbitrary: trace rule: ffi_run.induct)
  case (2 X oper ops c)
  obtain res c1 where s: "ffi_step X oper c = (res, c1)" by fastforce
  obtain tr where t: "ffi_run X ops c1 = (tr, c')" "trace = (oper, res) # tr" using 2(2) s by (auto split: prod.splits)
  obtain nd1 where n1: "fc_state c1 = Configuring nd1" "fresh_node nd1 \<Longrightarrow> fresh_node nd' \<and> (\<forall>b. knows nd1 b \<longrightarrow> knows nd' b) \<and>
    (\<forall>app asp a. (FfiRegister app asp, Inr a) \<in> set tr \<longrightarrow> knows nd' a)"
    using 2(1) [OF s [symmetric] t(1) 2(3)] by blast
  obtain nd where nd: "fc_state c = Configuring nd" "nd1 = nd \<and> (\<forall>app asp. oper \<noteq> FfiRegister app asp \<or> (\<exists>e. res = Inl e)) \<or>
    (\<exists>app asp a. oper = FfiRegister app asp \<and> res = Inr a \<and> register_single_destination X app asp nd = (a, nd1))"
    using step_configuring [OF s n1(1)] by blast
  then show ?case using n1(2) register_fresh [of X _ _ nd _ nd1] by (auto simp: t(2))
qed auto

section \<open>The property\<close>

text \<open>C39: An exported client goes through its life once. From a fresh client, whatever calls are made and
  whatever its driver does, calls succeed only in this order: registrations, one connection, announcements and
  sends, one disconnection. A connection that is granted starts a consistent driver over a well-formed node with
  one interface, numbered 0, which knows, as single destinations, all the addresses the registrations returned,
  and its command queue is empty.\<close>

theorem ffi_client_lifecycle:
  assumes "client_new identity_bytes clock = Inr c0" and "ffi_run X ops c0 = (trace, c)"
  shows "(\<forall>pre o1 v1 mid o2 v2 post i j. trace = pre @ (o1, Inr v1) # mid @ (o2, Inr v2) # post \<and>
      needs_phase o1 = Some i \<and> needs_phase o2 = Some j \<longrightarrow> (case reaches_phase o1 of Some k \<Rightarrow> k | None \<Rightarrow> i) \<le> j) \<and>
    (\<forall>task r c' d. connect_tcp True True task r c = (Inr (), c', Some d) \<longrightarrow>
      driver_ok d \<and> node_ok (dr_node d) \<and> nd_interfaces (dr_node d) = [0] \<and> fc_state c' = Connected (Some []) \<and>
      (\<forall>app asp a. (FfiRegister app asp, Inr a) \<in> set trace \<longrightarrow>
         (\<exists>l. find_local a (dr_node d) = Some l \<and> ld_kind l = Single False)))"
proof (intro conjI allI impI; (elim conjE)?)
  fix pre o1 v1 mid o2 v2 post i j
  assume "trace = pre @ (o1, Inr v1) # mid @ (o2, Inr v2) # post" "needs_phase o1 = Some i" "needs_phase o2 = Some j"
  then show "(case reaches_phase o1 of Some k \<Rightarrow> k | None \<Rightarrow> i) \<le> j" using successes_ordered assms(2) by blast
next
  fix task r c' d
  assume con: "connect_tcp True True task r c = (Inr (), c', Some d)"
  then obtain nd q where nd: "fc_state c = Configuring nd" "driver_new nd task r = (d, q)" "fc_state c' = Connected q"
    by (auto simp: connect_tcp_def Let_def split: if_splits client_state.splits prod.splits)
  obtain nd0 where "fc_state c0 = Configuring nd0" "fresh_node nd0"
    using assms(1) fresh_node_new by (auto simp: client_new_def Let_def split: if_splits)
  then have f: "fresh_node nd" "\<And>app asp a. (FfiRegister app asp, Inr a) \<in> set trace \<Longrightarrow> knows nd a"
    using run_configuring [OF assms(2) nd(1)] by auto
  have d: "dr_node d = nd\<lparr>nd_interfaces := [0]\<rparr>" "q = Some []" "d \<in> driver_starts X nd [(0, task)] False r"
    using nd(2) f(1) by (auto simp: driver_new_def driver_new_multi_def driver_new_interfaces_def driver_build_def driver_starts_def
        register_iface_def register_interface_def INTERFACE_ID_def fresh_node_def Let_def)
  show "driver_ok d" using driver_ok_start [OF _ d(3)] f(1) by (simp add: fresh_node_def)
  show "node_ok (dr_node d)" using f(1) by (simp add: d fresh_node_def node_ok_def)
  show "nd_interfaces (dr_node d) = [0]" "fc_state c' = Connected (Some [])" using d nd(3) by simp_all
  fix app asp a
  assume "(FfiRegister app asp, Inr a) \<in> set trace"
  then show "\<exists>l. find_local a (dr_node d) = Some l \<and> ld_kind l = Single False"
    using f(2) by (simp add: knows_def d find_local_def)
qed

theorem ffi_client_lifecycle_witness:
  "\<exists>c0 trace c c' d. client_new (replicate 64 1) 5 = Inr c0 \<and> ffi_run toy_ext [FfiRegister [1] [[2]]] c0 = (trace, c) \<and>
    connect_tcp True True None () c = (Inr (), c', Some d) \<and> nd_interfaces (dr_node d) = [0]"
proof -
  obtain c0 where c0: "client_new (replicate 64 1) 5 = Inr c0" by (simp add: client_new_def Let_def)
  obtain trace c where r: "ffi_run toy_ext [FfiRegister [1] [[2]]] c0 = (trace, c)" by fastforce
  obtain c' d where con: "connect_tcp True True None () c = (Inr (), c', Some d)"
    using c0 r by (auto simp: client_new_def ffi_step_def client_register_def connect_tcp_def Let_def case_prod_beta)
  have "nd_interfaces (dr_node d) = [0]"
    using ffi_client_lifecycle [OF c0 r, THEN conjunct2, rule_format, OF con] by simp
  then show ?thesis using c0 r con by (intro exI conjI)
qed

text \<open>A connected client whose driver is gone stays connected for ever: every call fails, and it can neither be
  disconnected nor connected again.\<close>

lemma ffi_lost_driver:
  assumes "fc_state c = Connected None" and "needs_phase oper \<noteq> None"
  shows "\<exists>e. ffi_step X oper c = (Inl e, c)"
  using assms
  by (cases oper) (auto simp: ffi_step_def needs_phase_def drop_result_def connection_def client_register_def connect_tcp_def
      client_announce_def client_send_def client_disconnect_def handle_announce_all_def handle_send_with_receipt_def
      handle_shutdown_def handle_post_def Let_def)

text \<open>A connection that fails for want of a runtime closes the client for good and drops its node; one the peer
  refuses leaves it as it was.\<close>

lemma ffi_failed_connect:
  assumes "fc_state c = Configuring nd" and "\<not> fc_poisoned c"
  shows "connect_tcp False peer task r c = (Inl Network, c\<lparr>fc_state := Closed\<rparr>, None)"
    and "connect_tcp True False task r c = (Inl Network, c\<lparr>fc_state := Configuring nd\<rparr>, None)"
  using assms by (simp_all add: connect_tcp_def Let_def)

end
