(* ===== verification/Ffi_Interop.thy ===== *)
theory Ffi_Interop
  imports Ffi_Client
begin

text \<open>
  The interoperability program of reticulum-ffi (src/bin/ffi-interop.rs): a client that announces itself,
  sends one message and ends when one has come back. Its event handler keeps no state but what the calls
  made to it say, so its evidence is read off them. What happens in the driver while the program runs are
  steps of the environment.
\<close>

section \<open>The handler\<close>

definition evidence_line :: "(bytes \<Rightarrow> bytes) \<Rightarrow> callback \<Rightarrow> bytes" where
  "evidence_line hx call =
     (case call of
        OnMessage _ plaintext \<Rightarrow> str ''FFI_RECEIVED '' @ utf8_lossy plaintext
      | OnDelivered delivered \<Rightarrow> str ''FFI_DELIVERED '' @ hx delivered
      | OnError message \<Rightarrow> str ''FFI_ERROR '' @ message)"

definition evidence_received :: "client \<Rightarrow> bool" where
  "evidence_received c \<longleftrightarrow> (\<exists>call \<in> set (fc_calls c). case snd call of OnMessage _ _ \<Rightarrow> True | _ \<Rightarrow> False)"

section \<open>The program\<close>

datatype interop_end = InteropUsage | InteropHex | InteropFfi ffi_error | InteropTimeout | InteropDone

text \<open>A turn of the loop before the deadline: what the driver's side does before the calls and between them,
  its reply to the send, and what it does while the program waits.\<close>

record interop_turn =
  it_before :: "ffi_op list"
  it_between :: "ffi_op list"
  it_reply :: "(node_error + bytes) option"
  it_waiting :: "ffi_op list"

definition environment :: "ext \<Rightarrow> ffi_op list \<Rightarrow> client \<Rightarrow> client" where
  "environment X ops c = snd (ffi_run X ops c)"

definition interop_send ::
    "bytes \<Rightarrow> (node_error + bytes) option \<Rightarrow> bool \<Rightarrow> client \<Rightarrow> (ffi_error + bool) \<times> client" where
  "interop_send destination reply sent c =
     (if sent then (Inr True, c)
      else case client_send destination (str ''hello from ffi to python'') reply c of
        (Inr _, c) \<Rightarrow> (Inr True, c)
      | (Inl (Protocol _), c) \<Rightarrow> (Inr False, c)
      | (Inl e, c) \<Rightarrow> (Inl e, c))"

fun interop_loop :: "ext \<Rightarrow> bytes \<Rightarrow> interop_turn list \<Rightarrow> bool \<Rightarrow> client \<Rightarrow> interop_end \<times> bool \<times> client" where
  "interop_loop X destination [] sent c = (InteropTimeout, sent, c)"
| "interop_loop X destination (turn # turns) sent c =
     (case client_announce (str ''ffi interop client'') (environment X (it_before turn) c) of
        (Inl e, c) \<Rightarrow> (InteropFfi e, sent, c)
      | (Inr _, c) \<Rightarrow>
          (case interop_send destination (it_reply turn) sent (environment X (it_between turn) c) of
             (Inl e, c) \<Rightarrow> (InteropFfi e, sent, c)
           | (Inr sent, c) \<Rightarrow>
               let c = environment X (it_waiting turn) c
               in if sent \<and> evidence_received c
                  then (case client_disconnect c of
                          (Inl e, c) \<Rightarrow> (InteropFfi e, sent, c)
                        | (Inr _, c) \<Rightarrow> (InteropDone, sent, c))
                  else interop_loop X destination turns sent c))"

definition interop_identity :: bytes where
  "interop_identity = replicate 32 0x31 @ replicate 32 0x32"

text \<open>\<open>unhex\<close> is the hex crate's decoder; \<open>peer\<close> is whether an address accepts the connection. What is
  printed: the client's own destination, the lines of the handler and the line of a send; the handler has a
  thread of its own, so its lines may come anywhere between the others.\<close>

definition interop_main ::
    "ext \<Rightarrow> (bytes \<Rightarrow> bytes) \<Rightarrow> (bytes \<Rightarrow> bytes option) \<Rightarrow> bool \<Rightarrow> (bytes \<Rightarrow> bool) \<Rightarrow> channel \<Rightarrow> u64 \<Rightarrow> bytes list
      \<Rightarrow> interop_turn list \<Rightarrow> interop_end \<times> bytes list" where
  "interop_main X hx unhex runtime peer task clock args turns =
     (case args of
        address # dest # _ \<Rightarrow>
          (case unhex dest of
             None \<Rightarrow> (InteropHex, [])
           | Some python_destination \<Rightarrow>
               (case client_new interop_identity clock of
                  Inl e \<Rightarrow> (InteropFfi e, [])
                | Inr c \<Rightarrow>
                    (case client_register X (str ''ffi_mobile'') [str ''message''] c of
                       (Inl e, c) \<Rightarrow> (InteropFfi e, [])
                     | (Inr destination, c) \<Rightarrow>
                         (case set_event_handler 0 c of
                            (Inl e, c) \<Rightarrow> (InteropFfi e, [])
                          | (Inr _, c) \<Rightarrow>
                              (case connect_tcp runtime (peer address) task () c of
                                 (Inl e, c, _) \<Rightarrow> (InteropFfi e, [])
                               | (Inr _, c, _) \<Rightarrow>
                                   (case interop_loop X python_destination turns False c of
                                      (e, sent, c) \<Rightarrow>
                                        (e, (str ''FFI_DESTINATION '' @ hx destination)
                                              # map (evidence_line hx \<circ> snd) (fc_calls c)
                                              @ (if sent then [str ''FFI_SENT hello from ffi to python''] else []))))))))
      | _ \<Rightarrow> (InteropUsage, []))"

section \<open>What its success says\<close>

text \<open>It ends well only after a send succeeded and a message came, and then the client is closed.\<close>

lemma interop_done:
  assumes "interop_loop X destination turns sent c = (InteropDone, sent', c')"
  shows "sent' \<and> evidence_received c' \<and> fc_state c' = Closed"
  using assms
proof (induction turns arbitrary: sent c)
  case (Cons turn turns)
  obtain r1 c1 where a: "client_announce (str ''ffi interop client'') (environment X (it_before turn) c) = (r1, c1)" by fastforce
  obtain r2 c2 where s: "interop_send destination (it_reply turn) sent (environment X (it_between turn) c1) = (r2, c2)" by fastforce
  let ?c = "environment X (it_waiting turn) c2"
  obtain v sent2 where r: "r1 = Inr v" "r2 = Inr sent2" using Cons.prems a s by (auto split: sum.splits)
  show ?case
  proof (cases "sent2 \<and> evidence_received ?c")
    case True
    obtain r3 c3 where d: "client_disconnect ?c = (r3, c3)" by fastforce
    have "(r3, c3, sent2) = (Inr (), c', sent')" using Cons.prems a s r True d by (auto simp: Let_def split: sum.splits)
    moreover have "fc_state c3 = Closed \<and> fc_calls c3 = fc_calls ?c" if "r3 = Inr ()"
      using d that by (auto simp: client_disconnect_def split: sum.splits prod.splits)
    ultimately show ?thesis using True by (auto simp: evidence_received_def)
  next
    case False
    then show ?thesis using Cons.IH [of sent2 ?c] Cons.prems a s r by (auto simp: Let_def)
  qed
qed simp

end
