(* ===== verification/Cli_Config.thy ===== *)
theory Cli_Config
  imports Datagrams Streams Driver_Handle "HOL-Library.Sublist"
begin

text \<open>
  The command line's library: reticulum-cli/src/config.rs (configuration, environment, the identity file),
  lib.rs (the interfaces a configuration asks for) and status.rs (reports). Strings and paths are their bytes.
  Arguments stand for what is outside the repository: \<open>toml\<close> for the reader of configuration files
  (serde and toml), \<open>hx\<close> and \<open>unhex\<close> for the hex crate, \<open>env\<close> for the environment, a map from paths
  to entries for the disk, and the record \<open>host\<close> for what the operating system grants.
\<close>

section \<open>Text\<close>

text \<open>The white space of Unicode, as \<open>char::is_whitespace\<close> has it, in UTF-8.\<close>

definition white :: "bytes list" where
  "white = [[0x09], [0x0A], [0x0B], [0x0C], [0x0D], [0x20], [0xC2, 0x85], [0xC2, 0xA0], [0xE1, 0x9A, 0x80]] @
     map (\<lambda>b. [0xE2, 0x80, b]) [0x80, 0x81, 0x82, 0x83, 0x84, 0x85, 0x86, 0x87, 0x88, 0x89, 0x8A, 0xA8, 0xA9, 0xAF] @
     [[0xE2, 0x81, 0x9F], [0xE3, 0x80, 0x80]]"

definition starts_with :: "bytes \<Rightarrow> bytes \<Rightarrow> bool" where
  "starts_with s w \<longleftrightarrow> take (length w) s = w"

text \<open>The length of the white space character at the front, 0 when there is none.\<close>

definition white_at :: "bytes list \<Rightarrow> bytes \<Rightarrow> nat" where
  "white_at ws s = (case filter (starts_with s) ws of [] \<Rightarrow> 0 | w # _ \<Rightarrow> length w)"

function drop_white :: "bytes list \<Rightarrow> bytes \<Rightarrow> bytes" where
  "drop_white ws s = (if s = [] \<or> white_at ws s = 0 then s else drop_white ws (drop (white_at ws s) s))"
  by pat_completeness auto
termination
  by (relation "measure (\<lambda>(_, s). length s)") auto

declare drop_white.simps [simp del]

definition trim :: "bytes \<Rightarrow> bytes" where
  "trim s = rev (drop_white (map rev white) (rev (drop_white white s)))"

fun split_on :: "u8 \<Rightarrow> bytes \<Rightarrow> bytes list" where
  "split_on c [] = [[]]"
| "split_on c (b # bs) =
     (if b = c then [] # split_on c bs
      else case split_on c bs of [] \<Rightarrow> [[b]] | w # ws \<Rightarrow> (b # w) # ws)"

definition parse_bool :: "bytes \<Rightarrow> bool option" where
  "parse_bool s = (if s = str ''true'' then Some True else if s = str ''false'' then Some False else None)"

definition is_digit :: "u8 \<Rightarrow> bool" where "is_digit b \<longleftrightarrow> 0x30 \<le> b \<and> b \<le> 0x39"

definition parse_u64 :: "bytes \<Rightarrow> u64 option" where
  "parse_u64 s =
     (let digits = (case s of [] \<Rightarrow> [] | b # bs \<Rightarrow> if b = 0x2B then bs else s);
          value = fold (\<lambda>b v. 10 * v + (unat b - 48)) digits 0
      in if digits = [] \<or> \<not> list_all is_digit digits \<or> value \<ge> 2 ^ 64 then None else Some (word_of_nat value))"

section \<open>The configuration\<close>

record ifac_settings =
  st_network_name :: bytes
  st_passphrase :: bytes
  st_size :: "nat option"

datatype interface_config =
    CfgTcpClient bytes "ifac_settings option" \<comment> \<open>address\<close>
  | CfgTcpServer bytes "ifac_settings option" \<comment> \<open>listen\<close>
  | CfgUdp bytes bytes "ifac_settings option" \<comment> \<open>listen, forward\<close>
  | CfgAuto bytes bytes u16 u16 "ifac_settings option" \<comment> \<open>interface, group, discovery and data port\<close>
  | CfgSerial bytes u32 "ifac_settings option" \<comment> \<open>port, baud\<close>

fun config_ifac :: "interface_config \<Rightarrow> ifac_settings option" where
  "config_ifac (CfgTcpClient _ f) = f"
| "config_ifac (CfgTcpServer _ f) = f"
| "config_ifac (CfgUdp _ _ f) = f"
| "config_ifac (CfgAuto _ _ _ _ f) = f"
| "config_ifac (CfgSerial _ _ f) = f"

record config =
  cf_interfaces :: "interface_config list"
  cf_tcp_addr :: bytes
  cf_tcp_peers :: "bytes list"
  cf_transport_enabled :: bool
  cf_identity_path :: bytes
  cf_app_name :: bytes
  cf_aspects :: "bytes list"
  cf_app_data :: bytes
  cf_announce_interval_secs :: u64
  cf_link_echo :: bool
  cf_prove :: bool
  cf_group_key_hex :: "bytes option"

definition config_default :: config where
  "config_default = \<lparr>cf_interfaces = [], cf_tcp_addr = str ''127.0.0.1:4242'', cf_tcp_peers = [],
     cf_transport_enabled = False, cf_identity_path = str ''reticulum.identity'',
     cf_app_name = str ''reticulum_rust'', cf_aspects = [str ''message''], cf_app_data = [],
     cf_announce_interval_secs = 30, cf_link_echo = False, cf_prove = False, cf_group_key_hex = None\<rparr>"

text \<open>\<open>if let Ok(value) = std::env::var(name)\<close>, and with \<open>&& let Ok(v) = value.parse()\<close>.\<close>

definition with_var :: "(bytes \<Rightarrow> bytes option) \<Rightarrow> string \<Rightarrow> (bytes \<Rightarrow> config \<Rightarrow> config) \<Rightarrow> config \<Rightarrow> config" where
  "with_var env name f c = (case env (str name) of None \<Rightarrow> c | Some value \<Rightarrow> f value c)"

definition with_parsed ::
    "(bytes \<Rightarrow> bytes option) \<Rightarrow> string \<Rightarrow> (bytes \<Rightarrow> 'v option) \<Rightarrow> ('v \<Rightarrow> config \<Rightarrow> config) \<Rightarrow> config \<Rightarrow> config" where
  "with_parsed env name parse f c =
     with_var env name (\<lambda>value c. case parse value of None \<Rightarrow> c | Some v \<Rightarrow> f v c) c"

definition comma_list :: "bytes \<Rightarrow> bytes list" where
  "comma_list value = filter (\<lambda>part. part \<noteq> []) (map trim (split_on 0x2C value))"

definition apply_environment :: "(bytes \<Rightarrow> bytes option) \<Rightarrow> config \<Rightarrow> config" where
  "apply_environment env c =
     (let c = with_var env ''RETICULUM_TCP_ADDR'' (\<lambda>v c. c\<lparr>cf_tcp_addr := v\<rparr>) c;
          c = with_var env ''RETICULUM_TCP_PEERS'' (\<lambda>v c. c\<lparr>cf_tcp_peers := comma_list v\<rparr>) c;
          c = with_parsed env ''RETICULUM_TRANSPORT_ENABLED'' parse_bool (\<lambda>v c. c\<lparr>cf_transport_enabled := v\<rparr>) c;
          c = with_var env ''RETICULUM_IDENTITY_PATH'' (\<lambda>v c. c\<lparr>cf_identity_path := v\<rparr>) c;
          c = with_var env ''RETICULUM_APP_NAME'' (\<lambda>v c. c\<lparr>cf_app_name := v\<rparr>) c;
          c = with_var env ''RETICULUM_ASPECTS'' (\<lambda>v c. c\<lparr>cf_aspects := comma_list v\<rparr>) c;
          c = with_var env ''RETICULUM_APP_DATA'' (\<lambda>v c. c\<lparr>cf_app_data := v\<rparr>) c;
          c = with_parsed env ''RETICULUM_ANNOUNCE_INTERVAL_SECS'' parse_u64 (\<lambda>v c. c\<lparr>cf_announce_interval_secs := v\<rparr>) c;
          c = with_parsed env ''RETICULUM_LINK_ECHO'' parse_bool (\<lambda>v c. c\<lparr>cf_link_echo := v\<rparr>) c;
          c = with_parsed env ''RETICULUM_PROVE'' parse_bool (\<lambda>v c. c\<lparr>cf_prove := v\<rparr>) c
      in with_var env ''RETICULUM_GROUP_KEY'' (\<lambda>v c. c\<lparr>cf_group_key_hex := Some v\<rparr>) c)"

text \<open>What is at a path of the disk.\<close>

datatype entry = FileEntry bytes | DirEntry

type_synonym disk = "bytes \<Rightarrow> entry option"

definition fs_read :: "disk \<Rightarrow> bytes \<Rightarrow> io_kind + bytes" where
  "fs_read d path = (case d path of Some (FileEntry content) \<Rightarrow> Inr content | _ \<Rightarrow> Inl OsError)"

definition read_to_string :: "disk \<Rightarrow> bytes \<Rightarrow> io_kind + bytes" where
  "read_to_string d path = rbind (fs_read d path) (\<lambda>s. if utf8_valid s then Inr s else Inl InvalidData)"

definition config_load ::
    "(bytes \<Rightarrow> config option) \<Rightarrow> (bytes \<Rightarrow> bytes option) \<Rightarrow> disk \<Rightarrow> bytes option \<Rightarrow> io_kind + config" where
  "config_load toml env d path =
     rbind (case path of
              Some path \<Rightarrow> rbind (read_to_string d path) (\<lambda>text. ok_or InvalidData (toml text))
            | None \<Rightarrow> Inr config_default)
       (\<lambda>c. let c = apply_environment env c in if cf_aspects c = [] then Inl InvalidInput else Inr c)"

definition peer_addresses :: "config \<Rightarrow> bytes list" where
  "peer_addresses c = (if cf_tcp_peers c = [] then [cf_tcp_addr c] else cf_tcp_peers c)"

definition interface_configs :: "config \<Rightarrow> interface_config list" where
  "interface_configs c =
     (if cf_interfaces c = [] then map (\<lambda>address. CfgTcpClient address None) (peer_addresses c) else cf_interfaces c)"

definition group_key :: "(bytes \<Rightarrow> bytes option) \<Rightarrow> config \<Rightarrow> io_kind + bytes option" where
  "group_key unhex c =
     (case cf_group_key_hex c of
        None \<Rightarrow> Inr None
      | Some encoded \<Rightarrow> rbind (ok_or InvalidInput (unhex encoded))
          (\<lambda>key. if length key = 64 then Inr (Some key) else Inl InvalidInput))"

section \<open>Directories\<close>

text \<open>A path from its end: separators and \<open>.\<close> components there do not count.\<close>

function trim_path :: "bytes \<Rightarrow> bytes" where
  "trim_path [] = []"
| "trim_path (b # r) =
     (if b = 0x2F then trim_path r
      else if b = 0x2E \<and> r \<noteq> [] \<and> hd r = 0x2F then trim_path (tl r)
      else b # r)"
  by pat_completeness auto
termination by (relation "measure length") auto

text \<open>\<open>Path::parent\<close>: nothing for the root and the empty path, the empty path for a single relative component.\<close>

definition path_parent :: "bytes \<Rightarrow> bytes option" where
  "path_parent path =
     (let r = trim_path (rev path) in
      if r = [] then None
      else let q = trim_path (dropWhile (\<lambda>b. b \<noteq> 0x2F) r)
        in Some (if q = [] then (if hd path = 0x2F then [0x2F] else []) else rev q))"

text \<open>A path that ends in \<open>.\<close> or \<open>..\<close> names a directory as soon as the path before it does.\<close>

definition dots :: "bytes \<Rightarrow> bool" where
  "dots path = (takeWhile (\<lambda>b. b \<noteq> 0x2F) (trim_path (rev path)) \<in> {[0x2E], [0x2E, 0x2E]})"

lemma trim_path_suffix: "suffix (trim_path r) r"
proof (induction r rule: trim_path.induct)
  case (2 b r)
  have "suffix r (b # r)" "suffix (tl r) (b # r)" by (simp_all add: suffix_ConsI suffix_tl)
  then show ?case using 2 suffix_order.trans by auto
qed simp

lemma trim_path_hd: "trim_path r \<noteq> [] \<Longrightarrow> hd (trim_path r) \<noteq> 0x2F"
  by (induction r rule: trim_path.induct) auto

lemma path_parent_prefix:
  assumes "path_parent path = Some q"
  shows "strict_prefix q path"
proof -
  let ?r = "trim_path (rev path)"
  let ?d = "dropWhile (\<lambda>b. b \<noteq> 0x2F) ?r"
  let ?q = "trim_path ?d"
  have r: "?r \<noteq> []" and q: "q = (if ?q = [] then (if hd path = 0x2F then [0x2F] else []) else rev ?q)"
    using assms by (simp_all add: path_parent_def Let_def split: if_splits)
  have p: "path \<noteq> []" using r by auto
  have d: "length ?d < length ?r"
    using r trim_path_hd [OF r] length_dropWhile_le [of "\<lambda>b. b \<noteq> 0x2F" "tl ?r"] by (cases ?r) auto
  have s: "suffix ?q ?d" "suffix ?d ?r" "suffix ?r (rev path)" by (simp_all add: trim_path_suffix suffix_dropWhile)
  show ?thesis
  proof (cases "?q = []")
    case True
    have "path \<noteq> [0x2F]" using r by auto
    then have "hd path = 0x2F \<Longrightarrow> strict_prefix [0x2F] path" using p by (cases path) (auto simp: strict_prefix_def)
    then show ?thesis using q True p by (auto simp: strict_prefix_def)
  next
    case False
    have "suffix ?q (rev path)" using s suffix_order.trans by blast
    then have "prefix q path" using q False by (simp add: suffix_to_prefix)
    moreover have "length q < length path"
      using q False d suffix_length_le [OF s(1)] suffix_length_le [OF s(3)] by simp
    ultimately show ?thesis by (auto simp: strict_prefix_def)
  qed
qed

text \<open>\<open>fs::create_dir_all\<close>: the directories on the way that are missing are made, from the first one on;
  \<open>mk\<close> says which the system lets the program make. Those made stay when a later one cannot be.\<close>

function make_dirs :: "(bytes \<Rightarrow> bool) \<Rightarrow> bytes \<Rightarrow> disk \<Rightarrow> bool \<times> disk" where
  "make_dirs mk path d =
     (if path = [] then (True, d)
      else case d path of
        Some DirEntry \<Rightarrow> (True, d)
      | Some (FileEntry content) \<Rightarrow> (False, d)
      | None \<Rightarrow>
          (case path_parent path of
             None \<Rightarrow> (True, d)
           | Some parent \<Rightarrow>
               (case make_dirs mk parent d of
                  (False, d) \<Rightarrow> (False, d)
                | (True, d) \<Rightarrow>
                    if dots path then (True, d)
                    else if mk path then (True, d(path \<mapsto> DirEntry)) else (False, d))))"
  by pat_completeness auto
termination by (relation "measure (\<lambda>(_, path, _). length path)") (auto dest: path_parent_prefix prefix_length_less)

declare make_dirs.simps [simp del]

text \<open>What it does to the disk: directories appear on the way to the path where nothing was, nothing else
  changes, and when it succeeds the path is a directory.\<close>

lemma make_dirs_effect:
  assumes "make_dirs mk path d = (ok, d')"
  shows "d' p = d p \<or> d p = None \<and> d' p = Some DirEntry \<and> prefix p path \<and> p \<noteq> []"
    and "ok \<Longrightarrow> path \<noteq> [] \<Longrightarrow> path_parent path \<noteq> None \<Longrightarrow> \<not> dots path \<Longrightarrow> d' path = Some DirEntry"
proof -
  have "(\<forall>p. d' p = d p \<or> d p = None \<and> d' p = Some DirEntry \<and> prefix p path \<and> p \<noteq> []) \<and>
    (ok \<longrightarrow> path \<noteq> [] \<longrightarrow> path_parent path \<noteq> None \<longrightarrow> \<not> dots path \<longrightarrow> d' path = Some DirEntry)"
    using assms
  proof (induction mk path d arbitrary: ok d' rule: make_dirs.induct)
    case (1 mk path d)
    show ?case
    proof (cases "path = [] \<or> d path \<noteq> None \<or> path_parent path = None")
      case True
      then show ?thesis using 1(2) by (subst (asm) make_dirs.simps) (auto split: if_splits option.splits entry.splits)
    next
      case False
      then obtain parent where p: "path \<noteq> []" "d path = None" "path_parent path = Some parent" by auto
      obtain b d1 where m: "make_dirs mk parent d = (b, d1)" by fastforce
      have up: "d1 p = d p \<or> d p = None \<and> d1 p = Some DirEntry \<and> prefix p path \<and> p \<noteq> []" for p
        using 1(1) [OF p m] path_parent_prefix [OF p(3)] by (metis strict_prefix_def prefix_order.trans)
      have d': "d' = d1 \<or> b \<and> ok \<and> d' = d1(path \<mapsto> DirEntry)" "ok \<Longrightarrow> \<not> dots path \<Longrightarrow> d' = d1(path \<mapsto> DirEntry)"
        using 1(2) p m by (subst (asm) make_dirs.simps, auto split: if_splits bool.splits)+
      have "d1 path = None" using 1(1) [OF p m] p(2) path_parent_prefix [OF p(3)] by (metis strict_prefix_def prefix_order.antisym)
      then have "d' p = d p \<or> d p = None \<and> d' p = Some DirEntry \<and> prefix p path \<and> p \<noteq> []" for p
        using up [of p] d'(1) p by (cases "p = path") auto
      then show ?thesis using d'(2) p by auto
    qed
  qed
  then show "d' p = d p \<or> d p = None \<and> d' p = Some DirEntry \<and> prefix p path \<and> p \<noteq> []"
    "ok \<Longrightarrow> path \<noteq> [] \<Longrightarrow> path_parent path \<noteq> None \<Longrightarrow> \<not> dots path \<Longrightarrow> d' path = Some DirEntry" by blast+
qed

text \<open>Without a file in the way and with the permission, every directory can be made.\<close>

lemma make_dirs_allowed: "\<forall>p content. d p \<noteq> Some (FileEntry content) \<Longrightarrow> fst (make_dirs (\<lambda>_. True) path d)"
proof (induction "\<lambda>_ :: bytes. True" path d rule: make_dirs.induct)
  case (1 path d)
  then show ?case
    by (subst make_dirs.simps) (auto split: option.split entry.split prod.split bool.split, metis fst_conv)
qed

text \<open>The disk after the directories of a new file are made.\<close>

lemma identity_dirs:
  assumes "d path = None" and "(case path_parent path of Some parent \<Rightarrow> make_dirs mk parent d | None \<Rightarrow> (True, d)) = (ok, d0)"
  shows "d0 path = None"
    and "d0 p = d p \<or> d p = None \<and> d0 p = Some DirEntry \<and> strict_prefix p path \<and> p \<noteq> []"
    and "ok \<Longrightarrow> path_parent path = Some parent \<Longrightarrow> parent \<noteq> [] \<Longrightarrow> path_parent parent \<noteq> None \<Longrightarrow> \<not> dots parent \<Longrightarrow>
      d0 parent = Some DirEntry"
proof -
  have e: "d0 p = d p \<or> d p = None \<and> d0 p = Some DirEntry \<and> strict_prefix p path \<and> p \<noteq> []" for p
  proof (cases "path_parent path")
    case (Some parent)
    then have "make_dirs mk parent d = (ok, d0)" using assms(2) by simp
    from make_dirs_effect(1) [OF this, of p] path_parent_prefix [OF Some] show ?thesis
      by (auto dest: prefix_order.le_less_trans)
  qed (use assms(2) in simp)
  show "d0 p = d p \<or> d p = None \<and> d0 p = Some DirEntry \<and> strict_prefix p path \<and> p \<noteq> []" by (rule e)
  show "d0 path = None" using e [of path] assms(1) by auto
  show "ok \<Longrightarrow> path_parent path = Some parent \<Longrightarrow> parent \<noteq> [] \<Longrightarrow> path_parent parent \<noteq> None \<Longrightarrow> \<not> dots parent \<Longrightarrow>
      d0 parent = Some DirEntry"
    using assms(2) make_dirs_effect(2) [of mk parent d ok d0] by simp
qed

section \<open>The identity file\<close>

definition identity_from_private :: "bytes \<Rightarrow> io_kind + identity" where
  "identity_from_private private =
     (if length private \<noteq> 64 then Inl InvalidData
      else Inr (from_private_bytes (take 32 private) (drop 32 private)))"

definition load_identity :: "disk \<Rightarrow> bytes \<Rightarrow> io_kind + identity" where
  "load_identity d path = rbind (fs_read d path) identity_from_private"

text \<open>What happens while a file is created: which directories can be made, what another process has put at
  the path since it was looked at, whether the file can be opened, how much of it could be written
  (\<open>None\<close>: all) and whether it reached the disk.\<close>

record creation =
  cr_mkdir :: "bytes \<Rightarrow> bool"
  cr_raced :: "entry option"
  cr_open_ok :: bool
  cr_written :: "nat option"
  cr_synced :: bool

definition save_or_create_identity ::
    "'r entropy \<Rightarrow> creation \<Rightarrow> bytes \<Rightarrow> disk \<Rightarrow> 'r \<Rightarrow> (io_kind + identity) \<times> disk \<times> 'r" where
  "save_or_create_identity E cr path d r =
     (if d path \<noteq> None then (load_identity d path, d, r)
      else case (case path_parent path of Some parent \<Rightarrow> make_dirs (cr_mkdir cr) parent d | None \<Rightarrow> (True, d)) of
        (False, d) \<Rightarrow> (Inl OsError, d, r)
      | (True, d) \<Rightarrow>
          let (private, r) = E r 64;
              d = (case cr_raced cr of None \<Rightarrow> d | Some e \<Rightarrow> d(path \<mapsto> e))
          in if d path \<noteq> None then (load_identity d path, d, r)
             else if \<not> cr_open_ok cr then (Inl OsError, d, r)
             else (case cr_written cr of
                     Some n \<Rightarrow> (Inl OsError, d(path \<mapsto> FileEntry (take n private)), r)
                   | None \<Rightarrow>
                       (if cr_synced cr then identity_from_private private else Inl OsError,
                        d(path \<mapsto> FileEntry private), r)))"

section \<open>The interfaces of a configuration\<close>

text \<open>What the system grants: connecting, binding, the interfaces of the host, opening a serial port;
  \<open>ho_serial_feature\<close> is the feature the crate is built with.\<close>

record host =
  ho_connect :: "bytes \<Rightarrow> bool"
  ho_udp :: "bytes \<Rightarrow> bytes \<Rightarrow> bool"
  ho_if_addrs :: "io_kind + (bytes \<times> ipv6 option \<times> u32 option) list"
  ho_multicast :: "bytes \<Rightarrow> u16 \<Rightarrow> u16 \<Rightarrow> bool"
  ho_serial :: "bytes \<Rightarrow> u32 \<Rightarrow> bool"
  ho_serial_feature :: bool

datatype built_kind = BuiltTcp bytes | BuiltUdp bytes bytes | BuiltAuto auto | BuiltSerial bytes u32

record built =
  bi_id :: u16
  bi_kind :: built_kind
  bi_ifac :: "ifac_config option"

definition auto_interface_name :: "host \<Rightarrow> bytes \<Rightarrow> io_kind + bytes" where
  "auto_interface_name h configured =
     (if trim configured \<noteq> [] then Inr configured
      else rbind (ho_if_addrs h) (\<lambda>addrs. ok_or AddrNotAvailable
        (map_option fst (find (\<lambda>(_, ip, _). case ip of Some ip \<Rightarrow> is_unicast_link_local ip | None \<Rightarrow> False) addrs))))"

definition build_ifac :: "ext \<Rightarrow> ifac_settings option \<Rightarrow> io_kind + ifac_config option" where
  "build_ifac X settings =
     (case settings of
        None \<Rightarrow> Inr None
      | Some s \<Rightarrow>
          if st_network_name s = [] \<and> st_passphrase s = [] then Inl InvalidInput
          else rbind (ok_or Panicked (ifac_config_new X (st_network_name s) (st_passphrase s))) (\<lambda>c.
            case st_size s of
              Some sz \<Rightarrow> rbind (ok_or InvalidInput (ifac_config_with_size sz c)) (\<lambda>c. Inr (Some c))
            | None \<Rightarrow> Inr (Some c)))"

definition next_interface_id :: "nat \<Rightarrow> io_kind + u16" where
  "next_interface_id index = (if index < 65536 then Inr (word_of_nat index) else Inl InvalidInput)"

text \<open>One entry, the arms of the \<open>match\<close>: \<open>index\<close> is the number of interfaces built so far. A TCP server
  is skipped.\<close>

definition build_interface ::
    "ext \<Rightarrow> host \<Rightarrow> interface_config \<Rightarrow> nat \<Rightarrow> io_kind + (u16 \<times> built_kind) option" where
  "build_interface X h configured index =
     (let numbered = \<lambda>kind. rbind (next_interface_id index) (\<lambda>i. Inr (Some (i, kind))) in
      case configured of
        CfgTcpClient address _ \<Rightarrow> if ho_connect h address then numbered (BuiltTcp address) else Inl OsError
      | CfgTcpServer _ _ \<Rightarrow> Inr None
      | CfgUdp listen forward _ \<Rightarrow> if ho_udp h listen forward then numbered (BuiltUdp listen forward) else Inl OsError
      | CfgAuto interface group_id discovery_port data_port _ \<Rightarrow>
          rbind (auto_interface_name h interface) (\<lambda>interface.
            rbind (auto_new_with_ports X group_id discovery_port data_port interface (ho_if_addrs h)
                     (ho_multicast h interface discovery_port data_port)) (\<lambda>a.
              rbind (next_interface_id index) (\<lambda>i. Inr (Some (i, BuiltAuto (auto_with_id i a))))))
      | CfgSerial port baud _ \<Rightarrow>
          if \<not> ho_serial_feature h then Inl UnsupportedIo
          else if ho_serial h port baud then numbered (BuiltSerial port baud) else Inl OsError)"

fun build_loop :: "ext \<Rightarrow> host \<Rightarrow> interface_config list \<Rightarrow> built list \<Rightarrow> io_kind + built list" where
  "build_loop X h [] interfaces = Inr interfaces"
| "build_loop X h (configured # cs) interfaces =
     rbind (build_ifac X (config_ifac configured)) (\<lambda>ifac.
       rbind (build_interface X h configured (length interfaces)) (\<lambda>b.
         case b of
           None \<Rightarrow> build_loop X h cs interfaces
         | Some (i, kind) \<Rightarrow>
             build_loop X h cs (interfaces @ [\<lparr>bi_id = i, bi_kind = kind, bi_ifac = ifac\<rparr>])))"

definition build_interfaces :: "ext \<Rightarrow> host \<Rightarrow> config \<Rightarrow> io_kind + built list" where
  "build_interfaces X h c = build_loop X h (interface_configs c) []"

section \<open>Reports\<close>

definition interface_line :: "interface_snapshot \<Rightarrow> bytes" where
  "interface_line i =
     str ''interface '' @ decimal (unat (is_id i)) @ str '' state='' @ (if is_online i then str ''up'' else str ''down'') @
     str '' rx_packets='' @ decimal (unat (is_rx_packets i)) @ str '' rx_bytes='' @ decimal (unat (is_rx_bytes i)) @
     str '' tx_packets='' @ decimal (unat (is_tx_packets i)) @ str '' tx_bytes='' @ decimal (unat (is_tx_bytes i))"

definition format_status :: "(bytes \<Rightarrow> bytes) \<Rightarrow> driver_snapshot \<Rightarrow> bytes" where
  "format_status hx snapshot =
     join [0x0A] ([str ''identity '' @ hx (ds_identity_hash snapshot)] @
       (if ds_interfaces snapshot = [] then [str ''interfaces none''] else map interface_line (ds_interfaces snapshot)) @
       [str ''paths '' @ decimal (length (ds_paths snapshot))])"

definition path_line :: "(bytes \<Rightarrow> bytes) \<Rightarrow> path_snapshot_entry \<Rightarrow> bytes" where
  "path_line hx p =
     str ''path '' @ hx (ps_destination p) @ str '' hops='' @ decimal (unat (ps_hops p)) @
     str '' interface='' @ decimal (unat (ps_interface p)) @
     str '' next_hop='' @ (case ps_next_hop p of Some t \<Rightarrow> hx t | None \<Rightarrow> str ''direct'') @
     str '' timestamp='' @ decimal (unat (ps_timestamp p)) @ str '' expires_at='' @ decimal (unat (ps_expires_at p))"

definition format_paths :: "(bytes \<Rightarrow> bytes) \<Rightarrow> driver_snapshot \<Rightarrow> bytes option \<Rightarrow> bytes" where
  "format_paths hx snapshot destination =
     (let lines = map (path_line hx)
            (filter (\<lambda>p. case destination of None \<Rightarrow> True | Some wanted \<Rightarrow> ps_destination p = wanted) (ds_paths snapshot))
      in if lines = []
         then (case destination of
                 Some destination \<Rightarrow> str ''path '' @ hx destination @ str '' not found''
               | None \<Rightarrow> str ''paths none'')
         else join [0x0A] lines)"

end
