(* ===== verification/Cli_Main.thy ===== *)
theory Cli_Main
  imports Cli_Config Driver
begin

text \<open>
  The daemon, reticulum-cli/src/main.rs: the command line, starting the node and its driver, and what every
  mode does with the driver's events. A mode is a state machine over what wakes its loop: \<open>cli_step\<close> is one
  turn. What it prints is the list \<open>cs_out\<close>; the disk is part of the state. Waiting (a second before a
  shutdown, five for a probe's answer) has no effect of its own and is left out, apart from ending a wait.
\<close>

section \<open>The command line\<close>

datatype cli_error = CliIo io_kind | CliHex | CliText bytes | CliCall driver_error

datatype cli_mode =
    ModeRun
  | ModeAnnounce
  | ModeSend bytes bytes bool
  | ModeSendGroup bytes bytes
  | ModeSendPlain bytes bytes
  | ModeLink bytes "bytes option"
  | ModeSendFile bytes bytes
  | ModeReceiveFile bytes
  | ModeLxmfSend bytes bytes bytes bool
  | ModeLxmfReceive
  | ModeStatus
  | ModePath "bytes option"
  | ModeIdentity
  | ModeProbe bytes

definition take_config_path :: "bytes list \<Rightarrow> cli_error + bytes option \<times> bytes list" where
  "take_config_path args =
     (case position (\<lambda>arg. arg = str ''--config'') args of
        None \<Rightarrow> Inr (None, args)
      | Some index \<Rightarrow>
          if index + 1 \<ge> length args then Inl (CliText (str ''--config requires a path''))
          else Inr (Some (args ! (index + 1)), take index args @ drop (index + 2) args))"

definition parse_hash :: "(bytes \<Rightarrow> bytes option) \<Rightarrow> bytes \<Rightarrow> bytes \<Rightarrow> cli_error + bytes" where
  "parse_hash unhex v label =
     rbind (ok_or CliHex (unhex v)) (\<lambda>h.
       if length h = 16 then Inr h else Inl (CliText (label @ str '' hash must be exactly 16 bytes'')))"

definition usage :: bytes where
  "usage = str ''usage: reticulumd <run|announce|send DEST_HASH TEXT [--prove]|send-group DEST_HASH TEXT|send-plain DEST_HASH TEXT|link DEST_HASH|link-send DEST_HASH TEXT|send-file DEST_HASH PATH|receive-file OUT_DIR|lxmf send DEST_HASH TITLE CONTENT [--direct|--opportunistic]|lxmf recv|status|path [DEST_HASH]|identity|probe DEST_HASH> [--config PATH]''"

text \<open>The arms in their order; \<open>arg i\<close> is only read where the length allows it.\<close>

definition parse_mode :: "(bytes \<Rightarrow> bytes option) \<Rightarrow> bytes list \<Rightarrow> cli_error + cli_mode" where
  "parse_mode unhex args =
     (let n = length args; arg = \<lambda>i. args ! i;
          cmd = \<lambda>c. n \<ge> 1 \<and> arg 0 = str c;
          dest = \<lambda>i. parse_hash unhex (arg i) (str ''destination'')
      in if cmd ''run'' \<and> n = 1 then Inr ModeRun
         else if cmd ''announce'' \<and> n = 1 then Inr ModeAnnounce
         else if cmd ''send'' \<and> (n = 3 \<or> n = 4 \<and> arg 3 = str ''--prove'') then
           rbind (dest 1) (\<lambda>h. Inr (ModeSend h (arg 2) (n > 3 \<and> arg 3 = str ''--prove'')))
         else if cmd ''send-group'' \<and> n = 3 then rbind (dest 1) (\<lambda>h. Inr (ModeSendGroup h (arg 2)))
         else if cmd ''send-plain'' \<and> n = 3 then rbind (dest 1) (\<lambda>h. Inr (ModeSendPlain h (arg 2)))
         else if cmd ''link'' \<and> n = 2 then rbind (dest 1) (\<lambda>h. Inr (ModeLink h None))
         else if cmd ''link-send'' \<and> n = 3 then rbind (dest 1) (\<lambda>h. Inr (ModeLink h (Some (arg 2))))
         else if cmd ''send-file'' \<and> n = 3 then rbind (dest 1) (\<lambda>h. Inr (ModeSendFile h (arg 2)))
         else if cmd ''receive-file'' \<and> n = 2 then Inr (ModeReceiveFile (arg 1))
         else if cmd ''lxmf'' \<and> n > 1 \<and> arg 1 = str ''send'' \<and> (n = 5 \<or> n = 6) then
           (let sending = (if n > 5 then arg 5 else str ''--direct'') in
            if sending \<noteq> str ''--direct'' \<and> sending \<noteq> str ''--opportunistic''
            then Inl (CliText (str ''LXMF method must be --direct or --opportunistic''))
            else rbind (dest 2) (\<lambda>h. Inr (ModeLxmfSend h (arg 3) (arg 4) (sending = str ''--direct''))))
         else if cmd ''lxmf'' \<and> n > 1 \<and> arg 1 = str ''recv'' \<and> n = 2 then Inr ModeLxmfReceive
         else if cmd ''status'' \<and> n = 1 then Inr ModeStatus
         else if cmd ''path'' \<and> n = 1 then Inr (ModePath None)
         else if cmd ''path'' \<and> n = 2 then rbind (dest 1) (\<lambda>h. Inr (ModePath (Some h)))
         else if cmd ''identity'' \<and> n = 1 then Inr ModeIdentity
         else if cmd ''probe'' \<and> n = 2 then rbind (dest 1) (\<lambda>h. Inr (ModeProbe h))
         else Inl (CliText usage))"

section \<open>Printing events\<close>

datatype line = OutLine bytes | ErrLine bytes

fun print_event :: "(bytes \<Rightarrow> bytes) \<Rightarrow> event \<Rightarrow> line" where
  "print_event hx (Announce dh distance) = OutLine (str ''announce '' @ hx dh @ str '' hops='' @ decimal (unat distance))"
| "print_event hx (Message dh plaintext) = OutLine (str ''message '' @ hx dh @ str '' '' @ utf8_lossy plaintext)"
| "print_event hx (LxmfMessage destination source timestamp title content flds) =
     OutLine (str ''lxmf message '' @ hx destination @ str '' '' @ hx source @ str '' timestamp='' @ f64_text timestamp @
       str '' title='' @ utf8_lossy title @ str '' content='' @ utf8_lossy content @ str '' fields='' @ hx flds)"
| "print_event hx (Delivered ph) = OutLine (str ''delivered '' @ hx ph)"
| "print_event hx (LinkEstablished link_id) = OutLine (str ''link established '' @ hx link_id)"
| "print_event hx (LinkData link_id plaintext) =
     OutLine (str ''link data '' @ hx link_id @ str '' '' @ utf8_lossy plaintext)"
| "print_event hx (LinkClosed link_id) = OutLine (str ''link closed '' @ hx link_id)"
| "print_event hx (ResourceStarted link_id h bytes_total) =
     OutLine (str ''resource started '' @ hx h @ str '' size='' @ decimal (unat bytes_total))"
| "print_event hx (ResourceProgress link_id h fraction) =
     OutLine (str ''resource progress '' @ hx h @ str '' '' @ percent_text1 fraction @ str ''%'')"
| "print_event hx (ResourceComplete link_id h d) =
     OutLine (str ''resource complete '' @ hx h @ str '' bytes='' @ decimal (length d))"
| "print_event hx (ResourceFailed link_id h) = ErrLine (str ''resource failed '' @ hx h)"
| "print_event hx (Error e) = ErrLine (str ''node error: '' @ node_error_debug e)"

section \<open>The modes\<close>

record cli_state =
  cs_handle :: driver_handle
  cs_pending :: "bytes option" \<comment> \<open>the packet awaiting its proof, or the link asked for\<close>
  cs_resource :: "bytes option"
  cs_disk :: disk
  cs_out :: "line list"

datatype cli_flow = CliGoes | CliBreaks | CliFails cli_error

text \<open>What wakes the loop of a mode: an event, with the reply the driver gives to a call made in handling it
  and whether a file can be written then; the announce timer; the end of the events.\<close>

datatype cli_input = CliEvent event "(node_error + bytes) option" bool | CliAnnounceDue | CliEnd

definition say :: "bytes \<Rightarrow> cli_state \<Rightarrow> cli_state" where
  "say b s = s\<lparr>cs_out := cs_out s @ [OutLine b]\<rparr>"

text \<open>A call of the handle: its error leaves the mode, mapped by \<open>fault\<close>.\<close>

definition calling ::
    "(driver_error + 'a) \<times> driver_handle \<Rightarrow> (driver_error \<Rightarrow> cli_error) \<Rightarrow> cli_state
      \<Rightarrow> ('a \<Rightarrow> cli_state \<Rightarrow> cli_flow \<times> cli_state) \<Rightarrow> cli_flow \<times> cli_state" where
  "calling call fault s k =
     (case call of (result, q) \<Rightarrow>
        let s = s\<lparr>cs_handle := q\<rparr> in case result of Inl e \<Rightarrow> (CliFails (fault e), s) | Inr v \<Rightarrow> k v s)"

definition broken :: "driver_error \<Rightarrow> cli_error" where "broken e = CliIo BrokenPipe"

definition shut_down :: "cli_state \<Rightarrow> cli_flow \<times> cli_state" where
  "shut_down s = calling (handle_shutdown (cs_handle s)) broken s (\<lambda>_ s. (CliBreaks, s))"

definition announce_again :: "config \<Rightarrow> cli_state \<Rightarrow> cli_flow \<times> cli_state" where
  "announce_again c s = calling (handle_announce_all (cf_app_data c) (cs_handle s)) broken s (\<lambda>_ s. (CliGoes, s))"

definition run_event :: "config \<Rightarrow> event \<Rightarrow> cli_state \<Rightarrow> cli_flow \<times> cli_state" where
  "run_event c ev s =
     (case ev of
        LinkData link_id plaintext \<Rightarrow>
          if cf_link_echo c
          then calling (handle_link_send link_id plaintext (cs_handle s)) broken s (\<lambda>_ s. (CliGoes, s))
          else (CliGoes, s)
      | _ \<Rightarrow> (CliGoes, s))"

definition send_event ::
    "(bytes \<Rightarrow> bytes) \<Rightarrow> bytes \<Rightarrow> bytes \<Rightarrow> bool \<Rightarrow> (node_error + bytes) option \<Rightarrow> event \<Rightarrow> cli_state \<Rightarrow> cli_flow \<times> cli_state" where
  "send_event hx dest plaintext proving response ev s =
     (case ev of
        Announce announced _ \<Rightarrow>
          if announced = dest \<and> cs_pending s = None then
            if proving then
              calling (handle_send_with_receipt dest plaintext response (cs_handle s)) CliCall s (\<lambda>ph s.
                (CliGoes, (say (str ''sent proved message '' @ hx ph) s)\<lparr>cs_pending := Some ph\<rparr>))
            else
              calling (handle_send dest plaintext (cs_handle s)) broken s (\<lambda>_ s.
                shut_down (say (str ''sent message to '' @ hx dest) s))
          else (CliGoes, s)
      | Delivered ph \<Rightarrow>
          if Some ph = cs_pending s then shut_down (say (str ''delivery confirmed '' @ hx ph) s) else (CliGoes, s)
      | _ \<Rightarrow> (CliGoes, s))"

text \<open>An announce of the destination makes the first link request.\<close>

definition request_link ::
    "(bytes \<Rightarrow> bytes) \<Rightarrow> bytes \<Rightarrow> (node_error + bytes) option \<Rightarrow> cli_state \<Rightarrow> cli_flow \<times> cli_state" where
  "request_link hx dest response s =
     calling (handle_establish_link dest response (cs_handle s)) CliCall s (\<lambda>established s.
       (CliGoes, (say (str ''link requested '' @ hx established) s)\<lparr>cs_pending := Some established\<rparr>))"

definition link_event ::
    "(bytes \<Rightarrow> bytes) \<Rightarrow> bytes \<Rightarrow> bytes option \<Rightarrow> (node_error + bytes) option \<Rightarrow> event \<Rightarrow> cli_state \<Rightarrow> cli_flow \<times> cli_state" where
  "link_event hx dest plaintext response ev s =
     (case ev of
        Announce announced _ \<Rightarrow>
          if announced = dest \<and> cs_pending s = None then request_link hx dest response s else (CliGoes, s)
      | LinkEstablished established \<Rightarrow>
          if Some established = cs_pending s then
            (case plaintext of
               Some text \<Rightarrow>
                 calling (handle_link_send established text (cs_handle s)) broken s (\<lambda>_ s.
                   (CliGoes, say (str ''sent link data '' @ hx established) s))
             | None \<Rightarrow> shut_down s)
          else (CliGoes, s)
      | LinkData received _ \<Rightarrow>
          if Some received = cs_pending s \<and> plaintext \<noteq> None then
            calling (handle_close_link received (cs_handle s)) broken s (\<lambda>_ s. shut_down s)
          else (CliGoes, s)
      | _ \<Rightarrow> (CliGoes, s))"

definition file_event ::
    "(bytes \<Rightarrow> bytes) \<Rightarrow> bytes \<Rightarrow> bytes \<Rightarrow> bytes \<Rightarrow> (node_error + bytes) option \<Rightarrow> event \<Rightarrow> cli_state
      \<Rightarrow> cli_flow \<times> cli_state" where
  "file_event hx dest path content response ev s =
     (case ev of
        Announce announced _ \<Rightarrow>
          if announced = dest \<and> cs_pending s = None then request_link hx dest response s else (CliGoes, s)
      | LinkEstablished established \<Rightarrow>
          if Some established = cs_pending s \<and> cs_resource s = None then
            calling (handle_send_resource established content response (cs_handle s)) CliCall s (\<lambda>h s.
              (CliGoes, (say (str ''resource sent '' @ hx h) s)\<lparr>cs_resource := Some h\<rparr>))
          else (CliGoes, s)
      | ResourceComplete _ h _ \<Rightarrow>
          if Some h = cs_resource s then shut_down (say (str ''file transfer complete '' @ path) s) else (CliGoes, s)
      | _ \<Rightarrow> (CliGoes, s))"

text \<open>\<open>Path::join\<close> of a directory and a file name.\<close>

definition path_join :: "bytes \<Rightarrow> bytes \<Rightarrow> bytes" where
  "path_join dir name = (if dir = [] \<or> last dir = 0x2F then dir @ name else dir @ [0x2F] @ name)"

definition receive_event ::
    "(bytes \<Rightarrow> bytes) \<Rightarrow> bytes \<Rightarrow> bool \<Rightarrow> event \<Rightarrow> cli_state \<Rightarrow> cli_flow \<times> cli_state" where
  "receive_event hx out_dir writes ev s =
     (case ev of
        ResourceComplete _ h content \<Rightarrow>
          if content \<noteq> [] then
            let path = path_join out_dir (hx h @ str ''.resource'') in
            if writes
            then (CliGoes, say (str ''resource written '' @ path) (s\<lparr>cs_disk := (cs_disk s)(path \<mapsto> FileEntry content)\<rparr>))
            else (CliFails (CliIo OsError), s)
          else (CliGoes, s)
      | _ \<Rightarrow> (CliGoes, s))"

text \<open>The fields of a message sent from the command line are an empty MessagePack map.\<close>

definition lxmf_send_event ::
    "(bytes \<Rightarrow> bytes) \<Rightarrow> bytes \<Rightarrow> bytes \<Rightarrow> bytes \<Rightarrow> bool \<Rightarrow> (node_error + bytes) option \<Rightarrow> event \<Rightarrow> cli_state
      \<Rightarrow> cli_flow \<times> cli_state" where
  "lxmf_send_event hx dest title content direct response ev s =
     (case ev of
        Announce announced _ \<Rightarrow>
          if announced = dest \<and> cs_pending s = None then
            if direct then
              calling (handle_lxmf_send_direct dest title content [0x80] response (cs_handle s)) CliCall s (\<lambda>link_id s.
                (CliGoes, (say (str ''lxmf link requested '' @ hx link_id) s)\<lparr>cs_pending := Some link_id\<rparr>))
            else
              calling (handle_lxmf_send_opportunistic dest title content [0x80]
                         (map_option (map_sum id (\<lambda>_. ())) response) (cs_handle s)) CliCall s (\<lambda>_ s.
                shut_down (say (str ''sent opportunistic lxmf message to '' @ hx dest) s))
          else (CliGoes, s)
      | LinkEstablished link_id \<Rightarrow>
          if direct \<and> Some link_id = cs_pending s
          then shut_down (say (str ''sent direct lxmf message on '' @ hx link_id) s)
          else (CliGoes, s)
      | _ \<Rightarrow> (CliGoes, s))"

text \<open>One turn of a mode's loop; \<open>content\<close> is the file of \<open>send-file\<close>. The modes without an announce timer are
  not woken by it.\<close>

definition cli_step ::
    "(bytes \<Rightarrow> bytes) \<Rightarrow> config \<Rightarrow> bytes \<Rightarrow> cli_mode \<Rightarrow> cli_input \<Rightarrow> cli_state \<Rightarrow> cli_flow \<times> cli_state" where
  "cli_step hx c content mode input s =
     (case input of
        CliEnd \<Rightarrow> (CliBreaks, s)
      | CliAnnounceDue \<Rightarrow>
          (case mode of
             ModeRun \<Rightarrow> announce_again c s
           | ModeReceiveFile _ \<Rightarrow> announce_again c s
           | ModeLxmfReceive \<Rightarrow> announce_again c s
           | _ \<Rightarrow> (CliGoes, s))
      | CliEvent ev response writes \<Rightarrow>
          let s = s\<lparr>cs_out := cs_out s @ [print_event hx ev]\<rparr> in
          case mode of
            ModeRun \<Rightarrow> run_event c ev s
          | ModeSend dest plaintext proving \<Rightarrow> send_event hx dest plaintext proving response ev s
          | ModeLink dest plaintext \<Rightarrow> link_event hx dest plaintext response ev s
          | ModeSendFile dest path \<Rightarrow> file_event hx dest path content response ev s
          | ModeReceiveFile out_dir \<Rightarrow> receive_event hx out_dir writes ev s
          | ModeLxmfSend dest title body direct \<Rightarrow> lxmf_send_event hx dest title body direct response ev s
          | _ \<Rightarrow> (CliGoes, s))"

fun cli_loop ::
    "(bytes \<Rightarrow> bytes) \<Rightarrow> config \<Rightarrow> bytes \<Rightarrow> cli_mode \<Rightarrow> cli_input list \<Rightarrow> cli_state \<Rightarrow> cli_flow \<times> cli_state" where
  "cli_loop hx c content mode [] s = (CliGoes, s)"
| "cli_loop hx c content mode (input # inputs) s =
     (case cli_step hx c content mode input s of
        (CliGoes, s) \<Rightarrow> cli_loop hx c content mode inputs s
      | (flow, s) \<Rightarrow> (flow, s))"

section \<open>Starting\<close>

text \<open>The node with the destinations of the configuration: single, plain and, with a key, group.\<close>

definition configured_node ::
    "ext \<Rightarrow> (bytes \<Rightarrow> bytes option) \<Rightarrow> config \<Rightarrow> identity \<Rightarrow> u64 \<Rightarrow> cli_error + bytes \<times> bytes \<times> bytes option \<times> node" where
  "configured_node X unhex c identity clock =
     (let nd = node_with_clock identity clock;
          nd = (if cf_transport_enabled c then enable_transport True nd else nd);
          (single, nd) = register_single_destination X (cf_app_name c) (cf_aspects c) nd;
          nd = (if cf_prove c then snd (set_prove single True nd) else nd);
          (plain, nd) = register_plain_destination X (cf_app_name c) (cf_aspects c) nd
      in case group_key unhex c of
           Inl e \<Rightarrow> Inl (CliIo e)
         | Inr None \<Rightarrow> Inr (single, plain, None, nd)
         | Inr (Some key) \<Rightarrow>
             (case register_group_destination X (cf_app_name c) (cf_aspects c) key nd of
                (grp, nd) \<Rightarrow> Inr (single, plain, Some grp, nd)))"

text \<open>The servers of the configuration with their access codes; \<open>listens\<close> says which addresses can be bound.\<close>

fun bind_servers ::
    "ext \<Rightarrow> (bytes \<Rightarrow> bool) \<Rightarrow> interface_config list \<Rightarrow> io_kind + (bytes \<times> ifac_config option) list" where
  "bind_servers X listens [] = Inr []"
| "bind_servers X listens (CfgTcpServer listen ifac # cs) =
     rbind (build_ifac X ifac) (\<lambda>ic.
       if listens listen then rbind (bind_servers X listens cs) (\<lambda>servers. Inr ((listen, ic) # servers))
       else Inl OsError)"
| "bind_servers X listens (_ # cs) = bind_servers X listens cs"

record 'r cli_started =
  sd_mode :: cli_mode
  sd_config :: config
  sd_driver :: "'r driver"
  sd_handle :: driver_handle
  sd_registrar :: "u32 option" \<comment> \<open>the next interface number, when there are servers\<close>
  sd_servers :: "(bytes \<times> ifac_config option) list"
  sd_interfaces :: "built list"
  sd_single :: bytes
  sd_plain :: bytes
  sd_group :: "bytes option"
  sd_lxmf :: "bytes option"

definition uses_lxmf :: "cli_mode \<Rightarrow> bool" where
  "uses_lxmf mode = (case mode of ModeLxmfSend _ _ _ _ \<Rightarrow> True | ModeLxmfReceive \<Rightarrow> True | _ \<Rightarrow> False)"

text \<open>The four constructors of the driver: with a registrar when there are servers, with a router in the
  LXMF modes.\<close>

definition make_driver ::
    "ext \<Rightarrow> bool \<Rightarrow> bool \<Rightarrow> node \<Rightarrow> (u16 \<times> channel) list \<Rightarrow> 'r \<Rightarrow> 'r driver \<times> driver_handle \<times> u32 option \<times> bytes option" where
  "make_driver X serving lxmf nd interfaces r =
     (if \<not> serving then
        if lxmf then case driver_new_lxmf_interfaces X nd interfaces r of (d, q, dest) \<Rightarrow> (d, q, None, Some dest)
        else case driver_new_interfaces nd interfaces r of (d, q) \<Rightarrow> (d, q, None, None)
      else if lxmf then
        case driver_new_lxmf_dynamic X nd interfaces r of (d, q, registrar, dest) \<Rightarrow> (d, q, Some registrar, Some dest)
      else case driver_new_dynamic nd interfaces r of (d, q, registrar) \<Rightarrow> (d, q, Some registrar, None))"

text \<open>\<open>tasks\<close> are the channels to the tasks of the interfaces.\<close>

definition start_node ::
    "ext \<Rightarrow> (bytes \<Rightarrow> bytes option) \<Rightarrow> host \<Rightarrow> (bytes \<Rightarrow> bool) \<Rightarrow> (built \<Rightarrow> channel) \<Rightarrow> cli_mode \<Rightarrow> config \<Rightarrow> identity
      \<Rightarrow> u64 \<Rightarrow> 'r \<Rightarrow> cli_error + 'r cli_started" where
  "start_node X unhex h listens tasks mode c identity clock r =
     rbind (configured_node X unhex c identity clock) (\<lambda>(single, plain, grp, nd).
       case build_interfaces X h c of Inl e \<Rightarrow> Inl (CliIo e) | Inr interfaces \<Rightarrow>
       case bind_servers X listens (interface_configs c) of Inl e \<Rightarrow> Inl (CliIo e) | Inr servers \<Rightarrow>
         let (d, q, registrar, lxmf) =
               make_driver X (servers \<noteq> []) (uses_lxmf mode) nd (map (\<lambda>b. (bi_id b, tasks b)) interfaces) r
         in case handle_announce_all (cf_app_data c) q of
              (Inl e, q) \<Rightarrow> Inl (broken e)
            | (Inr _, q) \<Rightarrow>
                Inr \<lparr>sd_mode = mode, sd_config = c, sd_driver = d, sd_handle = q, sd_registrar = registrar,
                  sd_servers = servers, sd_interfaces = interfaces, sd_single = single, sd_plain = plain,
                  sd_group = grp, sd_lxmf = lxmf\<rparr>)"

datatype 'r cli_start = PrintedIdentity bytes | Started "'r cli_started"

definition cli_run ::
    "ext \<Rightarrow> 'r entropy \<Rightarrow> (bytes \<Rightarrow> config option) \<Rightarrow> (bytes \<Rightarrow> bytes option) \<Rightarrow> (bytes \<Rightarrow> bytes option) \<Rightarrow> creation
      \<Rightarrow> host \<Rightarrow> (bytes \<Rightarrow> bool) \<Rightarrow> (built \<Rightarrow> channel) \<Rightarrow> u64 \<Rightarrow> bytes list \<Rightarrow> disk \<Rightarrow> 'r
      \<Rightarrow> (cli_error + 'r cli_start) \<times> disk \<times> 'r" where
  "cli_run X E toml unhex env cr h listens tasks clock args d r =
     (case rbind (take_config_path args) (\<lambda>(config_path, args).
             rbind (parse_mode unhex args) (\<lambda>mode.
               case config_load toml env d config_path of Inl e \<Rightarrow> Inl (CliIo e) | Inr c \<Rightarrow> Inr (mode, c))) of
        Inl e \<Rightarrow> (Inl e, d, r)
      | Inr (mode, c) \<Rightarrow>
          (case save_or_create_identity E cr (cf_identity_path c) d r of
             (Inl e, d, r) \<Rightarrow> (Inl (CliIo e), d, r)
           | (Inr identity, d, r) \<Rightarrow>
               if mode = ModeIdentity then (Inr (PrintedIdentity (id_hash X identity)), d, r)
               else (rbind (start_node X unhex h listens tasks mode c identity clock r) (\<lambda>s. Inr (Started s)), d, r)))"

section \<open>A mode from its start to its end\<close>

text \<open>A probe looks at events until the destination is announced or its five seconds are over, which is the
  end of the list.\<close>

fun probe_events :: "(bytes \<Rightarrow> bytes) \<Rightarrow> bytes \<Rightarrow> cli_input list \<Rightarrow> cli_state \<Rightarrow> cli_state" where
  "probe_events hx dest (CliEvent ev response writes # inputs) s =
     (let s = s\<lparr>cs_out := cs_out s @ [print_event hx ev]\<rparr> in
      case ev of
        Announce announced _ \<Rightarrow> if announced = dest then s else probe_events hx dest inputs s
      | _ \<Rightarrow> probe_events hx dest inputs s)"
| "probe_events hx dest (CliAnnounceDue # inputs) s = probe_events hx dest inputs s"
| "probe_events hx dest _ s = s"

definition send_group_mode ::
    "(bytes \<Rightarrow> bytes) \<Rightarrow> bytes option \<Rightarrow> bytes \<Rightarrow> bytes \<Rightarrow> cli_state \<Rightarrow> cli_flow \<times> cli_state" where
  "send_group_mode hx local_group dest plaintext s =
     (if local_group \<noteq> Some dest
      then (CliFails (CliText (str ''destination does not match group_key_hex and configured name'')), s)
      else calling (handle_send_group dest plaintext (cs_handle s)) broken s (\<lambda>_ s.
             shut_down (say (str ''sent group message to '' @ hx dest) s)))"

definition send_plain_mode :: "(bytes \<Rightarrow> bytes) \<Rightarrow> bytes \<Rightarrow> bytes \<Rightarrow> cli_state \<Rightarrow> cli_flow \<times> cli_state" where
  "send_plain_mode hx dest plaintext s =
     calling (handle_send_plain dest plaintext (cs_handle s)) broken s (\<lambda>_ s.
       shut_down (say (str ''sent plain message to '' @ hx dest) s))"

text \<open>\<open>snapshot\<close> is the driver's answer to a snapshot command.\<close>

definition status_mode :: "(bytes \<Rightarrow> bytes) \<Rightarrow> driver_snapshot option \<Rightarrow> cli_state \<Rightarrow> cli_flow \<times> cli_state" where
  "status_mode hx snapshot s =
     calling (handle_snapshot snapshot (cs_handle s)) broken s (\<lambda>snap s. shut_down (say (format_status hx snap) s))"

definition path_mode ::
    "(bytes \<Rightarrow> bytes) \<Rightarrow> driver_snapshot option \<Rightarrow> bytes option \<Rightarrow> cli_state \<Rightarrow> cli_flow \<times> cli_state" where
  "path_mode hx snapshot dest s =
     calling (handle_snapshot snapshot (cs_handle s)) broken s (\<lambda>snap s. shut_down (say (format_paths hx snap dest) s))"

definition probe_mode ::
    "(bytes \<Rightarrow> bytes) \<Rightarrow> driver_snapshot option \<Rightarrow> bytes \<Rightarrow> cli_input list \<Rightarrow> cli_state \<Rightarrow> cli_flow \<times> cli_state" where
  "probe_mode hx snapshot dest inputs s =
     calling (handle_request_path dest (cs_handle s)) broken s (\<lambda>_ s.
       path_mode hx snapshot (Some dest) (probe_events hx dest inputs (say (str ''path request sent '' @ hx dest) s)))"

text \<open>\<open>mk\<close> says which directories the system lets the program make. \<open>CliGoes\<close>: still waiting after all inputs.\<close>

definition cli_mode_run ::
    "(bytes \<Rightarrow> bytes) \<Rightarrow> config \<Rightarrow> bytes option \<Rightarrow> driver_snapshot option \<Rightarrow> (bytes \<Rightarrow> bool) \<Rightarrow> cli_mode \<Rightarrow> cli_input list
      \<Rightarrow> cli_state \<Rightarrow> cli_flow \<times> cli_state" where
  "cli_mode_run hx c local_group snapshot mk mode inputs s =
     (case mode of
        ModeAnnounce \<Rightarrow> shut_down s
      | ModeSendGroup dest plaintext \<Rightarrow> send_group_mode hx local_group dest plaintext s
      | ModeSendPlain dest plaintext \<Rightarrow> send_plain_mode hx dest plaintext s
      | ModeStatus \<Rightarrow> status_mode hx snapshot s
      | ModePath dest \<Rightarrow> path_mode hx snapshot dest s
      | ModeProbe dest \<Rightarrow> probe_mode hx snapshot dest inputs s
      | ModeSendFile dest path \<Rightarrow>
          (case fs_read (cs_disk s) path of
             Inl e \<Rightarrow> (CliFails (CliIo e), s)
           | Inr content \<Rightarrow> cli_loop hx c content mode inputs s)
      | ModeReceiveFile out_dir \<Rightarrow>
          (case make_dirs mk out_dir (cs_disk s) of
             (False, d) \<Rightarrow> (CliFails (CliIo OsError), s\<lparr>cs_disk := d\<rparr>)
           | (True, d) \<Rightarrow> cli_loop hx c [] mode inputs (s\<lparr>cs_disk := d\<rparr>))
      | ModeIdentity \<Rightarrow> (CliFails (CliIo Panicked), s)
      | _ \<Rightarrow> cli_loop hx c [] mode inputs s)"

text \<open>What is printed before the mode begins, and the mode's first state.\<close>

definition startup_lines :: "(bytes \<Rightarrow> bytes) \<Rightarrow> 'r cli_started \<Rightarrow> bytes list" where
  "startup_lines hx s =
     [str ''local destination '' @ hx (sd_single s), str ''local plain destination '' @ hx (sd_plain s)] @
     (case sd_group s of Some grp \<Rightarrow> [str ''local group destination '' @ hx grp] | None \<Rightarrow> []) @
     (case sd_lxmf s of Some dest \<Rightarrow> [str ''local lxmf destination '' @ hx dest] | None \<Rightarrow> [])"

definition cli_begin :: "(bytes \<Rightarrow> bytes) \<Rightarrow> disk \<Rightarrow> 'r cli_started \<Rightarrow> cli_state" where
  "cli_begin hx d s = \<lparr>cs_handle = sd_handle s, cs_pending = None, cs_resource = None, cs_disk = d,
     cs_out = map OutLine (startup_lines hx s)\<rparr>"

end
