(* ===== verification/Cli_Startup.thy ===== *)
theory Cli_Startup
  imports Cli_Main Driver_Tables
begin

text \<open>
  What the start of the daemon establishes: the interfaces a configuration asks for, the node and the
  driver made of them, and the identity kept on disk.
\<close>

section \<open>The interfaces built\<close>

definition is_server :: "interface_config \<Rightarrow> bool" where
  "is_server c \<longleftrightarrow> (case c of CfgTcpServer _ _ \<Rightarrow> True | _ \<Rightarrow> False)"

text \<open>What an entry asks for is what it got.\<close>

definition granted :: "host \<Rightarrow> interface_config \<Rightarrow> u16 \<Rightarrow> built_kind \<Rightarrow> bool" where
  "granted h c i kind \<longleftrightarrow>
     (case c of
        CfgTcpClient address _ \<Rightarrow> kind = BuiltTcp address \<and> ho_connect h address
      | CfgTcpServer _ _ \<Rightarrow> False
      | CfgUdp listen forward _ \<Rightarrow> kind = BuiltUdp listen forward \<and> ho_udp h listen forward
      | CfgAuto _ group_id discovery_port data_port _ \<Rightarrow>
          (\<exists>a. kind = BuiltAuto a \<and> au_id a = i \<and> au_group_id a = group_id \<and> au_discovery_port a = discovery_port \<and>
             au_data_port a = data_port \<and> au_peers a = [])
      | CfgSerial port baud _ \<Rightarrow> kind = BuiltSerial port baud \<and> ho_serial_feature h \<and> ho_serial h port baud)"

lemma build_interface_granted:
  assumes "build_interface X h c n = Inr b"
  shows "if is_server c then b = None
    else \<exists>kind. b = Some (word_of_nat n, kind) \<and> n < 65536 \<and> granted h c (word_of_nat n) kind"
  using assms
  by (cases c) (auto simp: build_interface_def is_server_def granted_def next_interface_id_def result_simps
      auto_new_with_ports_def auto_with_id_def split: if_splits)

definition built_as :: "ext \<Rightarrow> host \<Rightarrow> interface_config \<Rightarrow> built \<Rightarrow> bool" where
  "built_as X h c b \<longleftrightarrow> build_ifac X (config_ifac c) = Inr (bi_ifac b) \<and> granted h c (bi_id b) (bi_kind b)"

lemma build_loop_built:
  assumes "build_loop X h cs ifs = Inr out" and "map bi_id ifs = map word_of_nat [0..<length ifs]" and "length ifs \<le> 65536"
  shows "map bi_id out = map word_of_nat [0..<length out] \<and> length out \<le> 65536 \<and>
    (\<exists>new. out = ifs @ new \<and> list_all2 (built_as X h) (filter (\<lambda>c. \<not> is_server c) cs) new)"
  using assms
proof (induction cs arbitrary: ifs)
  case (Cons c cs)
  obtain ic b where ic: "build_ifac X (config_ifac c) = Inr ic" and b: "build_interface X h c (length ifs) = Inr b"
    using Cons.prems(1) by (auto simp: result_simps)
  show ?case
  proof (cases "is_server c")
    case True
    then show ?thesis using build_interface_granted [OF b] Cons.IH [of ifs] Cons.prems ic b by simp
  next
    case False
    then obtain kind where k: "b = Some (word_of_nat (length ifs), kind)" "length ifs < 65536"
      "granted h c (word_of_nat (length ifs)) kind"
      using build_interface_granted [OF b] by auto
    let ?b = "\<lparr>bi_id = word_of_nat (length ifs), bi_kind = kind, bi_ifac = ic\<rparr>"
    have "build_loop X h cs (ifs @ [?b]) = Inr out" using Cons.prems(1) ic b k by simp
    from Cons.IH [OF this] obtain new where
      "map bi_id out = map word_of_nat [0..<length out] \<and> length out \<le> 65536"
      "out = ifs @ ?b # new" "list_all2 (built_as X h) (filter (\<lambda>c. \<not> is_server c) cs) new"
      using Cons.prems(2) k(2) by auto
    moreover have "built_as X h c ?b" using ic k(3) by (simp add: built_as_def)
    ultimately show ?thesis using False by auto
  qed
qed auto

lemma build_interfaces_built:
  assumes "build_interfaces X h c = Inr out"
  shows "map bi_id out = map word_of_nat [0..<length out]" "length out \<le> 65536"
    "list_all2 (built_as X h) (filter (\<lambda>c. \<not> is_server c) (interface_configs c)) out"
  using build_loop_built [of X h "interface_configs c" "[]" out] assms by (auto simp: build_interfaces_def)

text \<open>The servers bound: one for each server entry, at its address, with the code it asks for.\<close>

definition bound_as :: "ext \<Rightarrow> (bytes \<Rightarrow> bool) \<Rightarrow> interface_config \<Rightarrow> bytes \<times> ifac_config option \<Rightarrow> bool" where
  "bound_as X listens c server \<longleftrightarrow> (\<exists>ifac. c = CfgTcpServer (fst server) ifac \<and> build_ifac X ifac = Inr (snd server) \<and>
     listens (fst server))"

lemma bind_servers_bound:
  "bind_servers X listens cs = Inr servers \<Longrightarrow> list_all2 (bound_as X listens) (filter is_server cs) servers"
  by (induction X listens cs arbitrary: servers rule: bind_servers.induct)
    (auto simp: result_simps is_server_def bound_as_def split: if_splits)

lemma small_ids_distinct: "n \<le> 65536 \<Longrightarrow> distinct (map (word_of_nat :: nat \<Rightarrow> u16) [0..<n])"
  by (auto simp: distinct_map inj_on_def word_of_nat_eq_iff take_bit_nat_def)

section \<open>The driver over them\<close>

lemma register_iface_node:
  "distinct (nd_interfaces (dr_node d) @ map fst ics) \<Longrightarrow>
     dr_node (fold register_iface ics d) = dr_node d\<lparr>nd_interfaces := nd_interfaces (dr_node d) @ map fst ics\<rparr>"
  by (induction ics arbitrary: d) (auto simp: register_iface_def register_interface_def)

lemma highest_id_ids:
  "map fst ics = map word_of_nat [0..<n] \<Longrightarrow> n \<le> 65536 \<Longrightarrow>
     highest_id ics = (case n of 0 \<Rightarrow> None | Suc m \<Rightarrow> Some (word_of_nat m))"
proof (induction n arbitrary: ics)
  case 0
  then show ?case by (simp add: highest_id_def)
next
  case (Suc n)
  then obtain ics' c where ics: "ics = ics' @ [(word_of_nat n, c)]" "map fst ics' = map word_of_nat [0..<n]"
    by (cases ics rule: rev_cases) auto
  have "max (word_of_nat m :: u16) (word_of_nat n) = word_of_nat n" if "n = Suc m" for m
    using Suc.prems(2) that by (simp add: max_def word_le_nat_alt unat_of_nat take_bit_nat_def del: of_nat_Suc)
  then show ?case using Suc.IH [OF ics(2)] Suc.prems(2) by (auto simp: ics highest_id_def split: nat.splits)
qed

lemma find_append: "find P (xs @ ys) = (case find P xs of None \<Rightarrow> find P ys | found \<Rightarrow> found)"
  by (induction xs) auto

lemma driver_build_ids:
  assumes "map fst ics = map word_of_nat [0..<n]" and "n \<le> 65536" and "nd_interfaces nd = []"
    and "driver_build nd ics ka r = (d, q, registrar)"
  shows "dr_node d = nd\<lparr>nd_interfaces := map word_of_nat [0..<n]\<rparr>" "q = Some []" "registrar = word_of_nat n"
proof -
  obtain d0 where d0: "d = fold register_iface ics d0" "dr_node d0 = nd" and q: "q = Some []"
    using assms(4) by (fastforce simp: driver_build_def Let_def)
  show "dr_node d = nd\<lparr>nd_interfaces := map word_of_nat [0..<n]\<rparr>" "q = Some []"
    using register_iface_node [of d0 ics] small_ids_distinct [OF assms(2)] by (simp_all add: d0 q assms(1,3))
  have "ucast (word_of_nat m :: u16) + 1 = (word_of_nat n :: u32)" if "n = Suc m" for m
    using that assms(2) by (simp add: word_unat_eq_iff unat_word_ariths unat_of_nat take_bit_nat_def unsigned_ucast_eq del: of_nat_Suc)
  then show "registrar = word_of_nat n"
    using assms(4) highest_id_ids [OF assms(1,2)] by (auto simp: driver_build_def Let_def split: nat.splits)
qed

text \<open>All four constructors: the node differs by the interfaces and, with a router, the delivery address.\<close>

lemma make_driver_effect:
  assumes "map fst ics = map word_of_nat [0..<n]" and "n \<le> 65536" and "nd_interfaces nd = []"
    and "make_driver X serving lxmf nd ics r = (d, q, registrar, dest)"
  shows "d \<in> driver_starts X nd ics serving r" "q = Some []" "registrar = (if serving then Some (word_of_nat n) else None)"
    "nd_interfaces (dr_node d) = map word_of_nat [0..<n]" "nd_locals nd = take (length (nd_locals nd)) (nd_locals (dr_node d))"
    "(dest \<noteq> None) = lxmf" "node_ok nd \<Longrightarrow> node_ok (dr_node d)" "\<forall>a. dest = Some a \<longrightarrow> find_local a (dr_node d) \<noteq> None"
proof -
  obtain d0 q0 reg0 where b: "driver_build nd ics serving r = (d0, q0, reg0)" by (metis prod_cases3)
  obtain dest1 d1 where l: "enable_lxmf X d0 = (dest1, d1)" by fastforce
  note node = driver_build_ids [OF assms(1-3) b]
  have m: "(d, q, registrar, dest) = (if lxmf then d1 else d0, q0, if serving then Some reg0 else None, if lxmf then Some dest1 else None)"
    using assms(4) b l by (auto simp: make_driver_def driver_new_lxmf_interfaces_def driver_new_interfaces_def
        driver_new_lxmf_dynamic_def driver_new_dynamic_def split: if_splits)
  have d1: "dr_node d1 = snd (register_single_destination X (str ''lxmf'') [str ''delivery''] (dr_node d0))"
    "dest1 = fst (register_single_destination X (str ''lxmf'') [str ''delivery''] (dr_node d0))"
    using l by (auto simp: enable_lxmf_def Let_def split: prod.splits)
  show "d \<in> driver_starts X nd ics serving r" using m b l by (auto simp: driver_starts_def)
  show "q = Some []" "registrar = (if serving then Some (word_of_nat n) else None)" "(dest \<noteq> None) = lxmf"
    using m node by auto
  show "nd_interfaces (dr_node d) = map word_of_nat [0..<n]" "nd_locals nd = take (length (nd_locals nd)) (nd_locals (dr_node d))"
    using m node d1 by (auto simp: register_single_destination_def push_local_def Let_def)
  show "node_ok (dr_node d)" if "node_ok nd"
  proof -
    have "node_ok (dr_node d0)" using that small_ids_distinct [OF assms(2)] by (simp add: node node_ok_def)
    then show ?thesis using m d1 by (auto split: if_splits)
  qed
  show "\<forall>a. dest = Some a \<longrightarrow> find_local a (dr_node d) \<noteq> None"
    using m d1 by (auto simp: find_local_None register_single_destination_def push_local_def Let_def)
qed

text \<open>The delivery address of the router, the one destination the driver adds.\<close>

definition delivery_local :: "ext \<Rightarrow> bytes \<Rightarrow> local_destination" where
  "delivery_local X a = \<lparr>ld_name_hash = name_hash X (str ''lxmf'') [str ''delivery''], ld_dest_hash = a, ld_kind = Single False\<rparr>"

lemma make_driver_locals:
  assumes "map fst ics = map word_of_nat [0..<n]" and "n \<le> 65536" and "nd_interfaces nd = []"
    and "make_driver X serving lxmf nd ics r = (d, q, registrar, dest)"
  shows "nd_locals (dr_node d) = nd_locals nd @ (case dest of None \<Rightarrow> [] | Some a \<Rightarrow> [delivery_local X a])"
    and "nd_identity (dr_node d) = nd_identity nd" and "nd_transport_enabled (dr_node d) = nd_transport_enabled nd"
proof -
  obtain d0 q0 reg0 where b: "driver_build nd ics serving r = (d0, q0, reg0)" by (metis prod_cases3)
  obtain dest1 d1 where l: "enable_lxmf X d0 = (dest1, d1)" by fastforce
  note node = driver_build_ids [OF assms(1-3) b]
  have m: "d = (if lxmf then d1 else d0)" "dest = (if lxmf then Some dest1 else None)"
    using assms(4) b l by (auto simp: make_driver_def driver_new_lxmf_interfaces_def driver_new_interfaces_def
        driver_new_lxmf_dynamic_def driver_new_dynamic_def split: if_splits)
  have "dr_node d1 = snd (register_single_destination X (str ''lxmf'') [str ''delivery''] (dr_node d0))"
    "dest1 = fst (register_single_destination X (str ''lxmf'') [str ''delivery''] (dr_node d0))"
    using l by (auto simp: enable_lxmf_def Let_def split: prod.splits)
  then show "nd_locals (dr_node d) = nd_locals nd @ (case dest of None \<Rightarrow> [] | Some a \<Rightarrow> [delivery_local X a])"
    "nd_identity (dr_node d) = nd_identity nd" "nd_transport_enabled (dr_node d) = nd_transport_enabled nd"
    using m node(1) by (auto simp: register_single_destination_def push_local_def delivery_local_def Let_def)
qed

lemma find_local_take:
  assumes "nd_locals nd = take (length (nd_locals nd)) (nd_locals nd')" and "find_local a nd = Some l"
  shows "find_local a nd' = Some l"
proof -
  obtain ls where "nd_locals nd' = nd_locals nd @ ls" using assms(1) by (metis append_take_drop_id)
  then show ?thesis using assms(2) by (simp add: find_local_def find_append)
qed

section \<open>The node of a configuration\<close>

lemma configured_node_effect:
  assumes "configured_node X unhex c identity clock = Inr (single, plain, grp, nd)"
  shows "nd_interfaces nd = []" "nd_outbound nd = []" "node_ok nd"
    "\<exists>l. find_local single nd = Some l \<and> ld_kind l = Single (cf_prove c)"
    "find_local plain nd \<noteq> None" "\<forall>a. grp = Some a \<longrightarrow> find_local a nd \<noteq> None"
    "(grp = None) = (cf_group_key_hex c = None)"
proof -
  define n0 where "n0 = (if cf_transport_enabled c then enable_transport True (node_with_clock identity clock) else node_with_clock identity clock)"
  define n1 where "n1 = snd (register_single_destination X (cf_app_name c) (cf_aspects c) n0)"
  define n2 where "n2 = (if cf_prove c then snd (set_prove single True n1) else n1)"
  define n3 where "n3 = snd (register_plain_destination X (cf_app_name c) (cf_aspects c) n2)"
  note ns = n0_def n1_def n2_def n3_def
  have s: "single = fst (register_single_destination X (cf_app_name c) (cf_aspects c) n0)"
    and p: "plain = fst (register_plain_destination X (cf_app_name c) (cf_aspects c) n2)"
    and k: "\<exists>key. group_key unhex c = Inr key \<and> (case key of None \<Rightarrow> grp = None \<and> nd = n3
        | Some k \<Rightarrow> (\<exists>g. grp = Some g \<and> register_group_destination X (cf_app_name c) (cf_aspects c) k n3 = (g, nd)))"
    using assms by (auto simp: configured_node_def ns Let_def case_prod_beta split: sum.splits option.splits)
  have f1: "find_local single n1 = Some \<lparr>ld_name_hash = name_hash X (cf_app_name c) (cf_aspects c), ld_dest_hash = single, ld_kind = Single False\<rparr>"
    by (simp add: n1_def s n0_def register_single_destination_def push_local_def find_local_def enable_transport_def node_with_clock_def Let_def)
  then have f2: "\<exists>l. find_local single n2 = Some l \<and> ld_kind l = Single (cf_prove c)"
    using set_prove_find(2) [OF f1, of True] by (auto simp: n2_def is_single_def)
  have f3: "find_local a n3 = Some l" if "find_local a n2 = Some l" for a l
    using that by (simp add: n3_def register_plain_destination_def push_local_def find_local_def find_append Let_def)
  have p3: "find_local plain n3 \<noteq> None"
    by (auto simp: p n3_def register_plain_destination_def push_local_def find_local_None Let_def)
  have last: "find_local a nd = Some l" if "find_local a n3 = Some l" for a l
    using k that by (auto simp: register_group_destination_def register_group_destination_with_identity_def push_local_def
        find_local_def find_append Let_def split: option.splits)
  show "\<exists>l. find_local single nd = Some l \<and> ld_kind l = Single (cf_prove c)" using f2 f3 last by blast
  show "find_local plain nd \<noteq> None" using p3 last by fastforce
  show "\<forall>a. grp = Some a \<longrightarrow> find_local a nd \<noteq> None"
    using k by (auto simp: register_group_destination_def register_group_destination_with_identity_def push_local_def
        find_local_None Let_def split: option.splits)
  show "(grp = None) = (cf_group_key_hex c = None)"
    using k by (auto simp: group_key_def result_simps split: option.splits if_splits)
  have "node_ok n3" by (simp add: ns)
  then show "node_ok nd" using k node_ok_registration(3) by (auto split: option.splits dest: sym [of _ "(_, _)"] simp: prod_eq_iff)
  have "nd_interfaces n2 = [] \<and> nd_outbound n2 = []"
    by (auto simp: ns set_prove_def register_single_destination_def push_local_def enable_transport_def node_with_clock_def Let_def
        split: option.split local_kind.split)
  then show "nd_interfaces nd = []" "nd_outbound nd = []"
    using k by (auto simp: n3_def register_plain_destination_def register_group_destination_def
        register_group_destination_with_identity_def push_local_def Let_def split: option.splits)
qed

text \<open>The destinations, all of them: single, plain and, exactly when the configuration has a key, group.\<close>

definition configured_locals :: "ext \<Rightarrow> config \<Rightarrow> bytes option \<Rightarrow> bytes \<Rightarrow> bytes \<Rightarrow> bytes option \<Rightarrow> local_destination list" where
  "configured_locals X c key single plain grp =
     (let nh = name_hash X (cf_app_name c) (cf_aspects c)
      in [\<lparr>ld_name_hash = nh, ld_dest_hash = single, ld_kind = Single (cf_prove c)\<rparr>,
          \<lparr>ld_name_hash = nh, ld_dest_hash = plain, ld_kind = Plain\<rparr>] @
         (case key of None \<Rightarrow> [] | Some k \<Rightarrow> [\<lparr>ld_name_hash = nh, ld_dest_hash = the grp, ld_kind = Group k\<rparr>]))"

lemma configured_node_locals:
  assumes "configured_node X unhex c identity clock = Inr (single, plain, grp, nd)"
  obtains key where "group_key unhex c = Inr key"
    "nd_locals nd = configured_locals X c key single plain grp"
    "single = destination_hash X (name_hash X (cf_app_name c) (cf_aspects c)) (id_hash X identity)"
    "plain = group_destination_hash X (cf_app_name c) (cf_aspects c)"
    "grp = map_option (\<lambda>k. group_destination_hash_with_identity X (cf_app_name c) (cf_aspects c)
       (id_hash X (from_private_bytes (take 32 k) (drop 32 k)))) key"
    "nd_identity nd = identity" "nd_transport_enabled nd = cf_transport_enabled c"
proof -
  let ?nh = "name_hash X (cf_app_name c) (cf_aspects c)"
  let ?d = "destination_hash X ?nh (id_hash X identity)"
  let ?n0 = "if cf_transport_enabled c then enable_transport True (node_with_clock identity clock) else node_with_clock identity clock"
  have n0: "nd_locals ?n0 = []" "nd_identity ?n0 = identity" "nd_transport_enabled ?n0 = cf_transport_enabled c"
    by (simp_all add: enable_transport_def node_with_clock_def)
  define n1 where "n1 = push_local \<lparr>ld_name_hash = ?nh, ld_dest_hash = ?d, ld_kind = Single False\<rparr> ?n0"
  have r1: "register_single_destination X (cf_app_name c) (cf_aspects c) ?n0 = (?d, n1)"
    using n0 by (simp add: register_single_destination_def n1_def Let_def)
  define n2 where "n2 = (if cf_prove c then snd (set_prove ?d True n1) else n1)"
  have n2: "nd_locals n2 = [\<lparr>ld_name_hash = ?nh, ld_dest_hash = ?d, ld_kind = Single (cf_prove c)\<rparr>]"
    "nd_identity n2 = identity" "nd_transport_enabled n2 = cf_transport_enabled c"
    using n0 by (simp_all add: n2_def n1_def push_local_def set_prove_def find_local_def)
  define n3 where "n3 = push_local \<lparr>ld_name_hash = ?nh, ld_dest_hash = group_destination_hash X (cf_app_name c) (cf_aspects c),
    ld_kind = Plain\<rparr> n2"
  have r3: "register_plain_destination X (cf_app_name c) (cf_aspects c) n2 = (group_destination_hash X (cf_app_name c) (cf_aspects c), n3)"
    by (simp add: register_plain_destination_def n3_def Let_def)
  have n: "configured_node X unhex c identity clock =
      (case group_key unhex c of
         Inl e \<Rightarrow> Inl (CliIo e)
       | Inr None \<Rightarrow> Inr (?d, group_destination_hash X (cf_app_name c) (cf_aspects c), None, n3)
       | Inr (Some key) \<Rightarrow>
           (case register_group_destination X (cf_app_name c) (cf_aspects c) key n3 of
              (grp, nd) \<Rightarrow> Inr (?d, group_destination_hash X (cf_app_name c) (cf_aspects c), Some grp, nd)))"
    unfolding configured_node_def Let_def r1 prod.case n2_def [symmetric] r3 by (rule HOL.refl)
  have n3: "nd_locals n3 = nd_locals n2 @ [\<lparr>ld_name_hash = ?nh, ld_dest_hash = group_destination_hash X (cf_app_name c) (cf_aspects c), ld_kind = Plain\<rparr>]"
    "nd_identity n3 = identity" "nd_transport_enabled n3 = cf_transport_enabled c"
    using n2 by (simp_all add: n3_def push_local_def)
  consider "group_key unhex c = Inr None" | k where "group_key unhex c = Inr (Some k)"
    using assms unfolding n by (cases "group_key unhex c") (auto split: option.splits)
  then show thesis
  proof cases
    case 1
    then have e: "?d = single" "group_destination_hash X (cf_app_name c) (cf_aspects c) = plain" "grp = None" "nd = n3"
      using assms by (simp_all add: n)
    show ?thesis
      by (rule that [OF 1]) (simp_all add: e(3,4) e(1,2) [symmetric] n2(1) n3 configured_locals_def Let_def)
  next
    case 2
    let ?g = "group_destination_hash_with_identity X (cf_app_name c) (cf_aspects c) (id_hash X (from_private_bytes (take 32 k) (drop 32 k)))"
    have e: "?d = single" "group_destination_hash X (cf_app_name c) (cf_aspects c) = plain" "grp = Some ?g"
      "nd = push_local \<lparr>ld_name_hash = ?nh, ld_dest_hash = ?g, ld_kind = Group k\<rparr> n3"
      using assms 2 by (simp_all add: n register_group_destination_def register_group_destination_with_identity_def Let_def)
    show ?thesis
      by (rule that [OF 2]) (simp_all add: e(3,4) e(1,2) [symmetric] n2(1) n3 push_local_def configured_locals_def Let_def)
  qed
qed

text \<open>The state of a started daemon, field by field.\<close>

lemma start_node_parts:
  assumes "start_node X unhex h listens tasks mode c identity clock r = Inr s"
  obtains single plain grp nd ifs servers dr q q' registrar lxmf where
    "configured_node X unhex c identity clock = Inr (single, plain, grp, nd)" "build_interfaces X h c = Inr ifs"
    "bind_servers X listens (interface_configs c) = Inr servers"
    "make_driver X (servers \<noteq> []) (uses_lxmf mode) nd (map (\<lambda>b. (bi_id b, tasks b)) ifs) r = (dr, q, registrar, lxmf)"
    "handle_announce_all (cf_app_data c) q = (Inr (), q')"
    "s = \<lparr>sd_mode = mode, sd_config = c, sd_driver = dr, sd_handle = q', sd_registrar = registrar, sd_servers = servers,
       sd_interfaces = ifs, sd_single = single, sd_plain = plain, sd_group = grp, sd_lxmf = lxmf\<rparr>"
proof -
  obtain single plain grp nd where node: "configured_node X unhex c identity clock = Inr (single, plain, grp, nd)"
    using assms by (auto simp: start_node_def result_simps)
  obtain ifs servers where ifs: "build_interfaces X h c = Inr ifs" and srv: "bind_servers X listens (interface_configs c) = Inr servers"
    using assms node by (auto simp: start_node_def split: sum.splits)
  obtain dr q registrar lxmf where
    m: "make_driver X (servers \<noteq> []) (uses_lxmf mode) nd (map (\<lambda>b. (bi_id b, tasks b)) ifs) r = (dr, q, registrar, lxmf)"
    by (rule prod_cases4)
  obtain res q' where a: "handle_announce_all (cf_app_data c) q = (res, q')" by fastforce
  have s: "res = Inr ()" "s = \<lparr>sd_mode = mode, sd_config = c, sd_driver = dr, sd_handle = q', sd_registrar = registrar,
      sd_servers = servers, sd_interfaces = ifs, sd_single = single, sd_plain = plain, sd_group = grp, sd_lxmf = lxmf\<rparr>"
    using assms by (simp_all add: start_node_def node ifs srv m a split: sum.splits)
  show thesis by (rule that [OF node ifs srv m a [unfolded s(1)] s(2)])
qed

text \<open>The interfaces, the servers, the registrar, the driver and the first command of a started daemon.\<close>

lemma started_node:
  assumes "start_node X unhex h listens tasks mode c identity clock r = Inr s"
  shows "list_all2 (built_as X h) (filter (\<lambda>c. \<not> is_server c) (interface_configs c)) (sd_interfaces s)"
    and "map bi_id (sd_interfaces s) = map word_of_nat [0..<length (sd_interfaces s)]" "length (sd_interfaces s) \<le> 65536"
    and "list_all2 (bound_as X listens) (filter is_server (interface_configs c)) (sd_servers s)"
    and "sd_registrar s = (if sd_servers s = [] then None else Some (word_of_nat (length (sd_interfaces s))))"
    and "nd_interfaces (dr_node (sd_driver s)) = map bi_id (sd_interfaces s)"
    and "node_ok (dr_node (sd_driver s))" "driver_ok (sd_driver s)" "(sd_lxmf s \<noteq> None) = uses_lxmf mode"
    and "sd_handle s = Some [CmdAnnounceAll (cf_app_data c)]"
proof -
  obtain single plain grp nd ifs servers dr q q' registrar lxmf where p:
    "configured_node X unhex c identity clock = Inr (single, plain, grp, nd)" "build_interfaces X h c = Inr ifs"
    "bind_servers X listens (interface_configs c) = Inr servers"
    "make_driver X (servers \<noteq> []) (uses_lxmf mode) nd (map (\<lambda>b. (bi_id b, tasks b)) ifs) r = (dr, q, registrar, lxmf)"
    "handle_announce_all (cf_app_data c) q = (Inr (), q')"
    and s: "s = \<lparr>sd_mode = mode, sd_config = c, sd_driver = dr, sd_handle = q', sd_registrar = registrar, sd_servers = servers,
       sd_interfaces = ifs, sd_single = single, sd_plain = plain, sd_group = grp, sd_lxmf = lxmf\<rparr>"
    by (rule start_node_parts [OF assms])
  note built = build_interfaces_built [OF p(2)]
  have ics: "map fst (map (\<lambda>b. (bi_id b, tasks b)) ifs) = map word_of_nat [0..<length ifs]" using built(1) by (simp add: comp_def)
  note n = configured_node_effect [OF p(1)]
  note d = make_driver_effect [OF ics built(2) n(1) p(4)]
  show "list_all2 (built_as X h) (filter (\<lambda>c. \<not> is_server c) (interface_configs c)) (sd_interfaces s)"
    "map bi_id (sd_interfaces s) = map word_of_nat [0..<length (sd_interfaces s)]" "length (sd_interfaces s) \<le> 65536"
    using built by (simp_all add: s)
  show "list_all2 (bound_as X listens) (filter is_server (interface_configs c)) (sd_servers s)"
    using bind_servers_bound [OF p(3)] by (simp add: s)
  show "sd_registrar s = (if sd_servers s = [] then None else Some (word_of_nat (length (sd_interfaces s))))"
    "nd_interfaces (dr_node (sd_driver s)) = map bi_id (sd_interfaces s)" "(sd_lxmf s \<noteq> None) = uses_lxmf mode"
    "node_ok (dr_node (sd_driver s))" using d(3,4,6,7) n(3) built(1) by (simp_all add: s)
  show "driver_ok (sd_driver s)" using driver_ok_start [OF n(2) d(1)] by (simp add: s)
  show "sd_handle s = Some [CmdAnnounceAll (cf_app_data c)]"
    using p(5) d(2) by (auto simp: s handle_announce_all_def handle_post_def)
qed

lemma started_destinations:
  assumes "start_node X unhex h listens tasks mode c identity clock r = Inr s"
  obtains key l where "nd_identity (dr_node (sd_driver s)) = identity"
    "nd_transport_enabled (dr_node (sd_driver s)) = cf_transport_enabled c"
    "nd_locals (dr_node (sd_driver s)) = configured_locals X c key (sd_single s) (sd_plain s) (sd_group s) @
       (case sd_lxmf s of None \<Rightarrow> [] | Some a \<Rightarrow> [delivery_local X a])"
    "case cf_group_key_hex c of None \<Rightarrow> key = None \<and> sd_group s = None
     | Some hex \<Rightarrow> \<exists>k. unhex hex = Some k \<and> length k = 64 \<and> key = Some k \<and> sd_group s = Some
           (destination_hash X (name_hash X (cf_app_name c) (cf_aspects c))
              (id_hash X (from_private_bytes (take 32 k) (drop 32 k))))"
    "sd_single s = destination_hash X (name_hash X (cf_app_name c) (cf_aspects c)) (id_hash X identity)"
    "find_local (sd_single s) (dr_node (sd_driver s)) = Some l" "ld_kind l = Single (cf_prove c)"
proof -
  obtain single plain grp nd ifs servers dr q q' registrar lxmf where p:
    "configured_node X unhex c identity clock = Inr (single, plain, grp, nd)" "build_interfaces X h c = Inr ifs"
    "bind_servers X listens (interface_configs c) = Inr servers"
    "make_driver X (servers \<noteq> []) (uses_lxmf mode) nd (map (\<lambda>b. (bi_id b, tasks b)) ifs) r = (dr, q, registrar, lxmf)"
    "handle_announce_all (cf_app_data c) q = (Inr (), q')"
    and s: "s = \<lparr>sd_mode = mode, sd_config = c, sd_driver = dr, sd_handle = q', sd_registrar = registrar, sd_servers = servers,
       sd_interfaces = ifs, sd_single = single, sd_plain = plain, sd_group = grp, sd_lxmf = lxmf\<rparr>"
    by (rule start_node_parts [OF assms])
  note built = build_interfaces_built [OF p(2)]
  have ics: "map fst (map (\<lambda>b. (bi_id b, tasks b)) ifs) = map word_of_nat [0..<length ifs]" using built(1) by (simp add: comp_def)
  note d = make_driver_locals [OF ics built(2) configured_node_effect(1) [OF p(1)] p(4)]
  obtain key where key: "group_key unhex c = Inr key" "nd_locals nd = configured_locals X c key single plain grp"
    "single = destination_hash X (name_hash X (cf_app_name c) (cf_aspects c)) (id_hash X identity)"
    "grp = map_option (\<lambda>k. group_destination_hash_with_identity X (cf_app_name c) (cf_aspects c)
       (id_hash X (from_private_bytes (take 32 k) (drop 32 k)))) key"
    "nd_identity nd = identity" "nd_transport_enabled nd = cf_transport_enabled c"
    by (rule configured_node_locals [OF p(1)])
  have g: "case cf_group_key_hex c of None \<Rightarrow> key = None \<and> grp = None
     | Some hex \<Rightarrow> \<exists>k. unhex hex = Some k \<and> length k = 64 \<and> key = Some k \<and> grp = Some
           (destination_hash X (name_hash X (cf_app_name c) (cf_aspects c)) (id_hash X (from_private_bytes (take 32 k) (drop 32 k))))"
    using key(1,4) by (auto simp: group_key_def result_simps group_destination_hash_with_identity_def split: option.splits if_splits)
  let ?l = "\<lparr>ld_name_hash = name_hash X (cf_app_name c) (cf_aspects c), ld_dest_hash = single, ld_kind = Single (cf_prove c)\<rparr>"
  have l: "find_local single (dr_node dr) = Some ?l"
    by (simp add: find_local_def d(1) key(2) configured_locals_def Let_def)
  have sel: "sd_driver s = dr" "sd_single s = single" "sd_plain s = plain" "sd_group s = grp" "sd_lxmf s = lxmf" by (simp_all add: s)
  have i: "nd_identity (dr_node dr) = identity" "nd_transport_enabled (dr_node dr) = cf_transport_enabled c"
    using d(2,3) key(5,6) by simp_all
  show thesis by (rule that [of key ?l, unfolded sel, OF i d(1) [unfolded key(2)] g key(3) l]) simp
qed

text \<open>What a successful start went through.\<close>

lemma cli_run_started:
  assumes "cli_run X E toml unhex env cr h listens tasks clock args d r = (Inr (Started s), d', r')"
  obtains config_path rest identity r1 where "take_config_path args = Inr (config_path, rest)"
    "parse_mode unhex rest = Inr (sd_mode s)" "config_load toml env d config_path = Inr (sd_config s)"
    "save_or_create_identity E cr (cf_identity_path (sd_config s)) d r = (Inr identity, d', r1)"
    "start_node X unhex h listens tasks (sd_mode s) (sd_config s) identity clock r1 = Inr s"
proof -
  obtain config_path rest where t: "take_config_path args = Inr (config_path, rest)"
    using assms by (cases "take_config_path args") (auto simp: cli_run_def)
  obtain mode where m: "parse_mode unhex rest = Inr mode"
    using assms t by (cases "parse_mode unhex rest") (auto simp: cli_run_def)
  obtain c where c: "config_load toml env d config_path = Inr c"
    using assms t m by (cases "config_load toml env d config_path") (auto simp: cli_run_def)
  obtain identity d1 r1 where i: "save_or_create_identity E cr (cf_identity_path c) d r = (Inr identity, d1, r1)"
    using assms t m c by (cases "save_or_create_identity E cr (cf_identity_path c) d r" rule: prod_cases3)
      (auto simp: cli_run_def split: sum.splits)
  have s: "start_node X unhex h listens tasks mode c identity clock r1 = Inr s" "d1 = d'"
    using assms t m c i by (auto simp: cli_run_def result_simps split: if_splits sum.splits)
  have "sd_mode s = mode" "sd_config s = c" by (rule start_node_parts [OF s(1)], simp)+
  then show thesis using that t m c i s by blast
qed

end
