(* ===== verification/Tui_Screen.thy ===== *)
theory Tui_Screen
  imports Tui_Properties Cli_Startup
begin

text \<open>
  The rest of the terminal user interface: its options and configuration (reticulum-tui/src/config.rs), its
  start and end (main.rs and the function \<open>run\<close> of runtime.rs, with the guard that restores the terminal) and
  what it shows (ui.rs): the texts and the constraints given to the layout. Solving them and drawing the
  widgets is the terminal library's.
\<close>

section \<open>Options and configuration\<close>

record options =
  op_config_path :: "bytes option"
  op_identity_path :: "bytes option"

definition default_config :: config where
  "default_config = config_default\<lparr>
     cf_interfaces := [CfgAuto [] (str ''reticulum'') 29716 42671 None],
     cf_identity_path := str ''reticulum-tui.identity'', cf_app_name := str ''reticulum_tui'',
     cf_aspects := [str ''chat'']\<rparr>"

definition load_config ::
    "(bytes \<Rightarrow> config option) \<Rightarrow> (bytes \<Rightarrow> bytes option) \<Rightarrow> disk \<Rightarrow> bytes option \<Rightarrow> io_kind + config" where
  "load_config toml env d path = (case path of Some path \<Rightarrow> config_load toml env d (Some path) | None \<Rightarrow> Inr default_config)"

text \<open>The error is the message; every one is an \<open>InvalidInput\<close>.\<close>

fun parse_options :: "bytes list \<Rightarrow> options \<Rightarrow> bytes + options" where
  "parse_options [] opts = Inr opts"
| "parse_options (argument # arguments) opts =
     (if argument = str ''--config'' \<or> argument = str ''--identity'' then
        (case arguments of
           [] \<Rightarrow> Inl (argument @ str '' requires a path'')
         | path # arguments \<Rightarrow>
             parse_options arguments
               (if argument = str ''--config'' then opts\<lparr>op_config_path := Some path\<rparr>
                else opts\<lparr>op_identity_path := Some path\<rparr>))
      else if argument = str ''-h'' \<or> argument = str ''--help''
        then Inl (str ''usage: reticulum-tui [--config PATH] [--identity PATH]'')
      else Inl (str ''unknown argument: '' @ argument))"

definition parse_args :: "bytes list \<Rightarrow> bytes + options" where
  "parse_args arguments = parse_options arguments \<lparr>op_config_path = None, op_identity_path = None\<rparr>"

section \<open>Starting and ending\<close>

definition tui_node :: "ext \<Rightarrow> config \<Rightarrow> identity \<Rightarrow> u64 \<Rightarrow> node" where
  "tui_node X c identity clock =
     (let nd = node_with_clock identity clock;
          nd = (if cf_transport_enabled c then enable_transport True nd else nd);
          nd = snd (register_single_destination X (cf_app_name c) (cf_aspects c) nd)
      in snd (register_plain_destination X (cf_app_name c) (cf_aspects c) nd))"

text \<open>Up to the first announcement: the identity shown, the driver and its handle.\<close>

definition tui_driver ::
    "ext \<Rightarrow> host \<Rightarrow> (built \<Rightarrow> channel) \<Rightarrow> u64 \<Rightarrow> config \<Rightarrow> identity \<Rightarrow> 'r \<Rightarrow> io_kind + bytes \<times> 'r driver \<times> driver_handle" where
  "tui_driver X h tasks clock c identity r =
     rbind (build_interfaces X h c) (\<lambda>interfaces.
       if interfaces = [] then Inl InvalidInput
       else let (dr, q) = driver_new_interfaces (tui_node X c identity clock) (map (\<lambda>b. (bi_id b, tasks b)) interfaces) r;
                (announced, q) = handle_announce_all (cf_app_data c) q
            in case announced of Inl _ \<Rightarrow> Inl BrokenPipe | Inr _ \<Rightarrow> Inr (id_hash X identity, dr, q))"

definition tui_start ::
    "ext \<Rightarrow> 'r entropy \<Rightarrow> (bytes \<Rightarrow> config option) \<Rightarrow> (bytes \<Rightarrow> bytes option) \<Rightarrow> creation \<Rightarrow> host \<Rightarrow> (built \<Rightarrow> channel)
      \<Rightarrow> u64 \<Rightarrow> options \<Rightarrow> disk \<Rightarrow> 'r \<Rightarrow> (io_kind + bytes \<times> 'r driver \<times> driver_handle) \<times> disk \<times> 'r" where
  "tui_start X E toml env cr h tasks clock opts d r =
     (case load_config toml env d (op_config_path opts) of
        Inl e \<Rightarrow> (Inl e, d, r)
      | Inr c \<Rightarrow>
          let c = (case op_identity_path opts of Some path \<Rightarrow> c\<lparr>cf_identity_path := path\<rparr> | None \<Rightarrow> c) in
          case save_or_create_identity E cr (cf_identity_path c) d r of
            (Inl e, d, r) \<Rightarrow> (Inl e, d, r)
          | (Inr identity, d, r) \<Rightarrow> (tui_driver X h tasks clock c identity r, d, r))"

text \<open>The terminal: raw mode, the alternate screen, mouse capture. \<open>execute!\<close> carries out a list of commands, of
  which some may fail (\<open>done\<close> is how many are carried out); leaving raw mode works.\<close>

record terminal =
  tm_raw :: bool
  tm_alternate :: bool
  tm_mouse :: bool

definition guard_enter :: "bool \<Rightarrow> nat \<Rightarrow> terminal \<Rightarrow> (io_kind + unit) \<times> terminal" where
  "guard_enter raw_ok n t =
     (if \<not> raw_ok then (Inl OsError, t)
      else let t = t\<lparr>tm_raw := True\<rparr>;
               t = (if n \<ge> 1 then t\<lparr>tm_alternate := True\<rparr> else t);
               t = (if n \<ge> 2 then t\<lparr>tm_mouse := True\<rparr> else t)
           in if n < 2 then (Inl OsError, t\<lparr>tm_raw := False\<rparr>) else (Inr (), t))"

definition guard_drop :: "nat \<Rightarrow> terminal \<Rightarrow> terminal" where
  "guard_drop n t =
     (let t = (if n \<ge> 1 then t\<lparr>tm_mouse := False\<rparr> else t);
          t = (if n \<ge> 2 then t\<lparr>tm_alternate := False\<rparr> else t)
      in t\<lparr>tm_raw := False\<rparr>)"

text \<open>The terminal around a run: whether it is entered, and how it is left. \<open>new_ok\<close> is \<open>Terminal::new\<close>.\<close>

definition terminal_session :: "bool \<Rightarrow> nat \<Rightarrow> bool \<Rightarrow> nat \<Rightarrow> terminal \<Rightarrow> bool \<times> terminal" where
  "terminal_session raw_ok n new_ok left t =
     (case guard_enter raw_ok n t of
        (Inl _, t) \<Rightarrow> (False, t)
      | (Inr _, t) \<Rightarrow> (new_ok, guard_drop left t))"

text \<open>The terminal is as it was before, unless a command fails: when mouse capture cannot be set after the
  alternate screen was entered, that is not left again.\<close>

lemma terminal_restored:
  assumes "\<not> tm_raw t" "\<not> tm_alternate t" "\<not> tm_mouse t" and "left \<ge> 2"
  shows "snd (terminal_session raw_ok n new_ok left t) = (if raw_ok \<and> n = 1 then t\<lparr>tm_alternate := True\<rparr> else t)"
  using assms by (cases t) (auto simp: terminal_session_def guard_enter_def guard_drop_def Let_def)

text \<open>The loop from the state it begins with; a round ends by drawing, which may fail. What it returns is the
  loop's result, the state and the handle, which is then shut down. \<open>terminal_ok\<close> is whether the terminal
  could be entered and first drawn.\<close>

fun ui_loop ::
    "(bytes \<Rightarrow> bytes) \<Rightarrow> bytes \<Rightarrow> (u64 \<times> ui_input \<times> bool) list \<Rightarrow> app_state \<Rightarrow> driver_handle
      \<Rightarrow> ui_outcome \<times> app_state \<times> driver_handle" where
  "ui_loop hx app_data [] s q = (UiGoes, s, q)"
| "ui_loop hx app_data ((now, input, drawn) # rounds) s q =
     (case ui_round hx app_data now input s q of
        (UiGoes, s, q) \<Rightarrow> if drawn then ui_loop hx app_data rounds s q else (UiFails, s, q)
      | stopped \<Rightarrow> stopped)"

definition run_terminal ::
    "(bytes \<Rightarrow> bytes) \<Rightarrow> bytes \<Rightarrow> bytes \<Rightarrow> u64 \<Rightarrow> bool \<Rightarrow> (u64 \<times> ui_input \<times> bool) list \<Rightarrow> driver_handle
      \<Rightarrow> ui_outcome \<times> app_state \<times> driver_handle" where
  "run_terminal hx identity app_data now terminal_ok rounds q =
     (let s = app_log KindSys (str ''native mesh node started'') now (app_new identity)
      in if \<not> terminal_ok then (UiFails, s, q) else ui_loop hx app_data rounds s q)"

definition tui_run ::
    "(bytes \<Rightarrow> bytes) \<Rightarrow> bytes \<Rightarrow> bytes \<Rightarrow> u64 \<Rightarrow> bool \<Rightarrow> (u64 \<times> ui_input \<times> bool) list \<Rightarrow> driver_handle
      \<Rightarrow> ui_outcome \<times> app_state \<times> driver_handle" where
  "tui_run hx identity app_data now terminal_ok rounds q =
     (case run_terminal hx identity app_data now terminal_ok rounds q of
        (UiGoes, s, q) \<Rightarrow> (UiGoes, s, q)
      | (flow, s, q) \<Rightarrow> (flow, s, snd (handle_shutdown q)))"

text \<open>main.rs: what is printed as an error, if anything, and the exit code. \<open>result\<close> is what \<open>run\<close> returns for
  the options, its error shown.\<close>

definition tui_main :: "bytes list \<Rightarrow> (options \<Rightarrow> bytes + unit) \<Rightarrow> bytes list \<times> bool" where
  "tui_main arguments result =
     (case parse_args arguments of
        Inl e \<Rightarrow> ([str ''reticulum-tui: '' @ e], False)
      | Inr opts \<Rightarrow>
          (case result opts of
             Inr _ \<Rightarrow> ([], True)
           | Inl e \<Rightarrow> ([str ''reticulum-tui: '' @ e], False)))"

section \<open>What is shown\<close>

datatype color = Blue | Cyan | Green | Yellow | Magenta | Red

definition kind_label :: "log_kind \<Rightarrow> bytes" where
  "kind_label kind = str (case kind of
     KindSys \<Rightarrow> ''system'' | KindTx \<Rightarrow> ''sent'' | KindRx \<Rightarrow> ''received'' | KindAnnounce \<Rightarrow> ''announce''
   | KindDelivered \<Rightarrow> ''delivered'' | KindErr \<Rightarrow> ''error'')"

definition kind_color :: "log_kind \<Rightarrow> color" where
  "kind_color kind = (case kind of
     KindSys \<Rightarrow> Blue | KindTx \<Rightarrow> Cyan | KindRx \<Rightarrow> Green | KindAnnounce \<Rightarrow> Yellow | KindDelivered \<Rightarrow> Magenta
   | KindErr \<Rightarrow> Red)"

definition pad :: "nat \<Rightarrow> bytes \<Rightarrow> bytes" where
  "pad width b = replicate (width - length b) 0x20"

definition interface_text :: "interface_snapshot \<Rightarrow> bytes" where
  "interface_text i =
     str ''#'' @ decimal (unat (is_id i)) @ str '' '' @ (if is_online i then str ''online'' else str ''offline'') @
     str '' rx:'' @ decimal (unat (is_rx_packets i)) @ str '' tx:'' @ decimal (unat (is_tx_packets i))"

text \<open>The interfaces are separated by a middle dot, U+00B7.\<close>

definition status_text :: "(bytes \<Rightarrow> bytes) \<Rightarrow> app_state \<Rightarrow> bytes" where
  "status_text hx s =
     (let interfaces = (if ap_interfaces s = [] then str ''discovering''
        else join [0x20, 0xC2, 0xB7, 0x20] (map interface_text (ap_interfaces s)))
      in str ''  identity '' @ short_hash hx (ap_identity s) @ str ''  peers '' @ decimal (length (ap_roster s)) @
         str ''  '' @ interfaces)"

definition peer_text :: "(bytes \<Rightarrow> bytes) \<Rightarrow> peer \<Rightarrow> bytes" where
  "peer_text hx p =
     hx (tp_dest p) @ str ''  hops:'' @ decimal (unat (tp_hops p)) @ str '' seen:'' @ decimal (unat (tp_seen p)) @
     str '' last:'' @ decimal (unat (tp_last_secs p)) @ str ''s''"

text \<open>A row and whether it is highlighted.\<close>

definition roster_rows :: "(bytes \<Rightarrow> bytes) \<Rightarrow> app_state \<Rightarrow> (bytes \<times> bool) list" where
  "roster_rows hx s =
     map (\<lambda>(index, p). (peer_text hx p, index = ap_selected s)) (zip [0..<length (ap_roster s)] (ap_roster s))"

text \<open>The last 500 entries: the heading with its colour, and the text.\<close>

definition log_lines :: "app_state \<Rightarrow> (bytes \<times> color \<times> bytes) list" where
  "log_lines s =
     map (\<lambda>e. let secs = decimal (unat (lg_at_secs e)); label = kind_label (lg_kind e) in
            (str ''['' @ pad 6 secs @ secs @ str ''] '' @ label @ pad 9 label, kind_color (lg_kind e), lg_text e))
       (rev (take 500 (rev (ap_log s))))"

definition input_text :: "(bytes \<Rightarrow> bytes) \<Rightarrow> app_state \<Rightarrow> bytes" where
  "input_text hx s =
     str ''to '' @ (case selected_peer s of Some dest \<Rightarrow> short_hash hx dest | None \<Rightarrow> str ''no-peer'') @ str ''> '' @ ap_input s"

text \<open>A region of the screen: how it is placed (the constraints of the splits on the way to it and its index
  in each), its title and what it holds.\<close>

datatype extent = Length nat | Min nat | Percentage nat

record 'a region =
  rg_place :: "(extent list \<times> nat) list"
  rg_title :: bytes
  rg_body :: 'a

definition rows :: "extent list" where "rows = [Length 3, Min 6, Length 3]"
definition columns :: "extent list" where "columns = [Percentage 38, Percentage 62]"

text \<open>The status line begins with a fixed, highlighted heading; U+00B7 is a middle dot.\<close>

definition status_heading :: bytes where
  "status_heading = str ''DECENTRALIZED '' @ [0xC2, 0xB7] @ str '' AutoInterface''"

definition status :: "(bytes \<Rightarrow> bytes) \<Rightarrow> app_state \<Rightarrow> (bytes \<times> bytes) region" where
  "status hx s = \<lparr>rg_place = [(rows, 0)], rg_title = str '' Reticulum '', rg_body = (status_heading, status_text hx s)\<rparr>"

definition roster :: "(bytes \<Rightarrow> bytes) \<Rightarrow> app_state \<Rightarrow> (bytes \<times> bool) list region" where
  "roster hx s = \<lparr>rg_place = [(rows, 1), (columns, 0)], rg_title = str '' Mesh roster '', rg_body = roster_rows hx s\<rparr>"

definition log_region :: "app_state \<Rightarrow> (bytes \<times> color \<times> bytes) list region" where
  "log_region s = \<lparr>rg_place = [(rows, 1), (columns, 1)], rg_title = str '' Activity '', rg_body = log_lines s\<rparr>"

definition input_region :: "(bytes \<Rightarrow> bytes) \<Rightarrow> app_state \<Rightarrow> bytes region" where
  "input_region hx s = \<lparr>rg_place = [(rows, 2)],
     rg_title = str '' Message '' @ [0xC2, 0xB7] @ str '' Enter send '' @ [0xC2, 0xB7] @ str '' ? help '' @ [0xC2, 0xB7] @ str '' q quit '',
     rg_body = input_text hx s\<rparr>"

text \<open>The help: U+2191 and U+2193 are the arrows.\<close>

definition centered_rect :: "nat \<Rightarrow> nat \<Rightarrow> (extent list \<times> nat) list" where
  "centered_rect width_percent height_percent =
     [([Percentage ((100 - height_percent) div 2), Percentage height_percent, Percentage ((100 - height_percent) div 2)], 1),
      ([Percentage ((100 - width_percent) div 2), Percentage width_percent, Percentage ((100 - width_percent) div 2)], 1)]"

definition render_help :: "bytes list region" where
  "render_help = \<lparr>rg_place = centered_rect 62 60, rg_title = str '' Help '',
     rg_body = [[0xE2, 0x86, 0x91] @ str ''/'' @ [0xE2, 0x86, 0x93] @ str '' or Tab  select peer'',
       str ''Enter       send message'', str ''a           announce presence'', str ''?           close this help'',
       str ''q / Ctrl-C  quit'']\<rparr>"

record screen =
  sc_status :: "(bytes \<times> bytes) region"
  sc_roster :: "(bytes \<times> bool) list region"
  sc_log :: "(bytes \<times> color \<times> bytes) list region"
  sc_input :: "bytes region"
  sc_help :: "bytes list region option"

definition draw :: "(bytes \<Rightarrow> bytes) \<Rightarrow> app_state \<Rightarrow> screen" where
  "draw hx s = \<lparr>sc_status = status hx s, sc_roster = roster hx s, sc_log = log_region s, sc_input = input_region hx s,
     sc_help = (if ap_show_help s then Some render_help else None)\<rparr>"

section \<open>What the user sees is what is done\<close>

text \<open>The highlighted row is the peer a message goes to.\<close>

lemma row_selected:
  "k < length (rg_body (sc_roster (draw hx s))) \<Longrightarrow> snd (rg_body (sc_roster (draw hx s)) ! k) \<Longrightarrow>
     \<exists>p. p \<in> set (ap_roster s) \<and> fst (rg_body (sc_roster (draw hx s)) ! k) = peer_text hx p \<and> selected_peer s = Some (tp_dest p)"
  by (auto simp: draw_def roster_def roster_rows_def selected_peer_def intro!: exI [of _ "ap_roster s ! k"])

lemma one_row_selected:
  assumes "app_ok s" and "ap_roster s \<noteq> []"
  shows "\<exists>!k. k < length (rg_body (sc_roster (draw hx s))) \<and> snd (rg_body (sc_roster (draw hx s)) ! k)"
  using assms by (intro ex1I [of _ "ap_selected s"]) (auto simp: app_ok_def draw_def roster_def roster_rows_def)

lemma log_shown: "length (rg_body (sc_log (draw hx s))) = min 500 (length (ap_log s))"
  by (simp add: draw_def log_region_def log_lines_def)

lemma ui_loop_run: "\<exists>n. snd (ui_loop hx app_data rounds s q) = ui_run hx app_data (take n (map (\<lambda>(now, input, _). (now, input)) rounds)) (s, q)"
proof (induction rounds arbitrary: s q)
  case Nil
  then show ?case by simp
next
  case (Cons round rounds)
  obtain now input drawn where r: "round = (now, input, drawn)" by (metis prod_cases3)
  obtain flow s1 q1 where u: "ui_round hx app_data now input s q = (flow, s1, q1)" by (metis prod_cases3)
  obtain n where n: "snd (ui_loop hx app_data rounds s1 q1) = ui_run hx app_data (take n (map (\<lambda>(now, input, _). (now, input)) rounds)) (s1, q1)" using Cons.IH by blast
  show ?case
  proof (cases flow)
    case UiGoes
    show ?thesis
    proof (cases drawn)
      case True
      then show ?thesis using UiGoes u n by (intro exI [of _ "Suc n"]) (simp add: r)
    qed (use UiGoes u in \<open>auto simp: r intro: exI [of _ "Suc 0"]\<close>)
  qed (use u in \<open>auto simp: r intro: exI [of _ "Suc 0"]\<close>)
qed

lemma tui_driver_ok:
  assumes "tui_driver X h tasks clock c i r = Inr (identity, dr, q)"
  shows "driver_ok dr" "node_ok (dr_node dr)" "q = Some [CmdAnnounceAll (cf_app_data c)]"
    "\<exists>n > 0. nd_interfaces (dr_node dr) = map word_of_nat [0..<n]"
proof -
  obtain ifs where ifs: "build_interfaces X h c = Inr ifs" "ifs \<noteq> []"
    using assms by (auto simp: tui_driver_def result_simps split: if_splits)
  let ?nd = "tui_node X c i clock" and ?ics = "map (\<lambda>b. (bi_id b, tasks b)) ifs"
  obtain reg where b: "driver_build ?nd ?ics False r = (dr, Some [], reg)" and q: "q = Some [CmdAnnounceAll (cf_app_data c)]"
    using assms ifs by (auto simp: tui_driver_def driver_new_interfaces_def driver_build_def handle_announce_all_def handle_post_def Let_def)
  have nd: "nd_interfaces ?nd = []" "nd_outbound ?nd = []" "node_ok ?nd"
    by (simp_all add: tui_node_def Let_def)
      (simp_all add: register_single_destination_def register_plain_destination_def push_local_def enable_transport_def node_with_clock_def Let_def)
  have ics: "map fst ?ics = map word_of_nat [0..<length ifs]" using build_interfaces_built(1) [OF ifs(1)] by (simp add: comp_def)
  note n = driver_build_ids [OF ics build_interfaces_built(2) [OF ifs(1)] nd(1) b]
  show "driver_ok dr" using driver_ok_build [OF nd(2), of ?ics False r] b by simp
  show "node_ok (dr_node dr)"
    using nd(3) small_ids_distinct [OF build_interfaces_built(2) [OF ifs(1)]] by (simp add: n(1) node_ok_def)
  show "q = Some [CmdAnnounceAll (cf_app_data c)]" by (rule q)
  show "\<exists>n > 0. nd_interfaces (dr_node dr) = map word_of_nat [0..<n]"
    using ifs(2) by (intro exI [of _ "length ifs"]) (simp add: n(1))
qed

end
