(* ===== verification/Interfaces.thy ===== *)
theory Interfaces
  imports Driver Cli_Config Serial_Line Streams
begin

text \<open>
  The interface objects of reticulum-tokio: the traits of reticulum-interface/src/lib.rs and of
  reticulum-tokio/src/interface.rs, their implementations (tcp.rs, udp.rs, auto.rs, serial.rs and the IFAC
  wrapper) as one datatype, with the methods of the trait object as functions on it, and the task of
  driver.rs that runs such an object. What an object will still receive is part of its state, and so is
  what it has sent. The locale \<open>packet_line\<close> is the contract of the trait: what one end sends the other
  receives; \<open>sealed_line\<close> gives the contract of the wrapper from that of what it wraps.
\<close>

section \<open>The traits\<close>

datatype framing_kind = Raw | Hdlc | Kiss

record medium =
  FRAMING :: framing_kind
  HW_MTU :: nat

definition tcp_medium :: medium where "tcp_medium = \<lparr>FRAMING = Hdlc, HW_MTU = 262144\<rparr>"
definition udp_medium :: medium where "udp_medium = \<lparr>FRAMING = Raw, HW_MTU = UDP_HW_MTU\<rparr>"
definition auto_medium :: medium where "auto_medium = \<lparr>FRAMING = Raw, HW_MTU = AUTO_HW_MTU\<rparr>"
definition serial_medium :: medium where "serial_medium = \<lparr>FRAMING = Kiss, HW_MTU = SERIAL_HW_MTU\<rparr>"

section \<open>The objects\<close>

text \<open>What the reads of the stream will return (an empty read is its end), and what was written to it.\<close>

record tcp_client =
  tc_id :: u16
  tc_reads :: "(io_kind + bytes) list"
  tc_written :: bytes
  tc_read_buffer :: bytes

record udp_iface =
  ud_id :: u16
  ud_peer :: socket_addr
  ud_datagrams :: "(io_kind + bytes) list"
  ud_sent :: "(bytes \<times> socket_addr) list"

text \<open>\<open>sr_inbound\<close> is what the reader thread puts into the channel, which it closes when a read fails.\<close>

record serial_iface =
  sr_id :: u16
  sr_closed :: bool
  sr_inbound :: "(unit + bytes) list"
  sr_written :: bytes

datatype iface =
    TcpClientInterface tcp_client
  | UdpInterface udp_iface
  | AutoInterface auto "auto_input list"
  | SerialInterface serial_iface
  | IfacInterface iface ifac_config

definition tcp_from_stream :: "(io_kind + bytes) list \<Rightarrow> tcp_client" where
  "tcp_from_stream stream = \<lparr>tc_id = 0, tc_reads = stream, tc_written = [], tc_read_buffer = []\<rparr>"

text \<open>The first argument is what connecting or accepting yields, the second whether \<open>set_nodelay\<close> succeeds.\<close>

definition tcp_connect :: "io_kind + (io_kind + bytes) list \<Rightarrow> io_kind + unit \<Rightarrow> io_kind + tcp_client" where
  "tcp_connect stream nodelay = rbind stream (\<lambda>stream. rbind nodelay (\<lambda>_. Inr (tcp_from_stream stream)))"

definition tcp_with_id :: "u16 \<Rightarrow> tcp_client \<Rightarrow> tcp_client" where
  "tcp_with_id i c = c\<lparr>tc_id := i\<rparr>"

definition tcp_accept ::
    "io_kind + (io_kind + bytes) list \<Rightarrow> io_kind + unit \<Rightarrow> u16 \<Rightarrow> io_kind + tcp_client" where
  "tcp_accept stream nodelay i =
     rbind stream (\<lambda>stream. rbind nodelay (\<lambda>_. Inr (tcp_with_id i (tcp_from_stream stream))))"

text \<open>\<open>socket\<close>: what binding yields; \<open>addrs\<close>: the addresses the peer's name resolves to.\<close>

definition udp_bind ::
    "io_kind + (io_kind + bytes) list \<Rightarrow> io_kind + unit \<Rightarrow> io_kind + socket_addr list \<Rightarrow> io_kind + udp_iface" where
  "udp_bind socket broadcast addrs =
     rbind socket (\<lambda>datagrams. rbind broadcast (\<lambda>_. rbind addrs (\<lambda>addrs.
       case addrs of
         [] \<Rightarrow> Inl InvalidInput
       | peer # _ \<Rightarrow> Inr \<lparr>ud_id = 0, ud_peer = peer, ud_datagrams = datagrams, ud_sent = []\<rparr>)))"

definition udp_with_id :: "u16 \<Rightarrow> udp_iface \<Rightarrow> udp_iface" where
  "udp_with_id i u = u\<lparr>ud_id := i\<rparr>"

text \<open>\<open>opened\<close>: the port, its clone for the reader and the thread; \<open>reads\<close>: what the device yields to it.\<close>

definition serial_open :: "io_kind + unit \<Rightarrow> device_read list \<Rightarrow> io_kind + serial_iface" where
  "serial_open opened reads =
     rbind opened (\<lambda>_. Inr \<lparr>sr_id = 0, sr_closed = (ReadError \<in> set reads), sr_inbound = serial_reader reads [], sr_written = []\<rparr>)"

definition serial_with_id :: "u16 \<Rightarrow> serial_iface \<Rightarrow> serial_iface" where
  "serial_with_id i s = s\<lparr>sr_id := i\<rparr>"

definition with_ifac :: "iface \<Rightarrow> ifac_config \<Rightarrow> iface" where
  "with_ifac interface config = IfacInterface interface config"

definition wrap_ifac :: "iface \<Rightarrow> ifac_config option \<Rightarrow> iface" where
  "wrap_ifac interface ifac = (case ifac of Some ifac \<Rightarrow> with_ifac interface ifac | None \<Rightarrow> interface)"

section \<open>The methods of the trait object\<close>

primrec iface_id :: "iface \<Rightarrow> u16" where
  "iface_id (TcpClientInterface c) = tc_id c"
| "iface_id (UdpInterface u) = ud_id u"
| "iface_id (AutoInterface a inputs) = au_id a"
| "iface_id (SerialInterface s) = sr_id s"
| "iface_id (IfacInterface inner config) = iface_id inner"

text \<open>What the system answers to a send: \<open>write_all\<close> on a stream or device fails after some bytes, or
  not (\<open>None\<close>); \<open>send_to\<close> returns how many bytes of the datagram it took.\<close>

record os =
  os_write :: "nat option"
  os_send_to :: "bytes \<Rightarrow> socket_addr \<Rightarrow> io_kind + nat"

definition write_all :: "os \<Rightarrow> bytes \<Rightarrow> (io_kind + unit) \<times> bytes" where
  "write_all os bs = (case os_write os of None \<Rightarrow> (Inr (), bs) | Some n \<Rightarrow> (Inl OsError, take n bs))"

definition tcp_send_packet :: "os \<Rightarrow> bytes \<Rightarrow> tcp_client \<Rightarrow> (io_kind + unit) \<times> tcp_client" where
  "tcp_send_packet os raw c =
     (case write_all os (tcp_send raw) of (r, bs) \<Rightarrow> (r, c\<lparr>tc_written := tc_written c @ bs\<rparr>))"

definition udp_send_packet :: "os \<Rightarrow> bytes \<Rightarrow> udp_iface \<Rightarrow> (io_kind + unit) \<times> udp_iface" where
  "udp_send_packet os raw u =
     (let sent = os_send_to os raw (ud_peer u)
      in (udp_send raw sent,
          case sent of
            Inr n \<Rightarrow> if length raw > UDP_HW_MTU then u else u\<lparr>ud_sent := ud_sent u @ [(take n raw, ud_peer u)]\<rparr>
          | Inl _ \<Rightarrow> u))"

definition serial_send_packet :: "os \<Rightarrow> bytes \<Rightarrow> serial_iface \<Rightarrow> (io_kind + unit) \<times> serial_iface" where
  "serial_send_packet os raw s =
     (case serial_send raw of
        None \<Rightarrow> (Inl InvalidInput, s)
      | Some framed \<Rightarrow> (case write_all os framed of (r, bs) \<Rightarrow> (r, s\<lparr>sr_written := sr_written s @ bs\<rparr>)))"

definition auto_send_packet :: "os \<Rightarrow> bytes \<Rightarrow> auto \<Rightarrow> (io_kind + unit) \<times> auto" where
  "auto_send_packet os raw a = auto_send raw (\<lambda>p. res_ok (os_send_to os raw (SocketV6 p)) \<noteq> None) a"

text \<open>The wrapper over any sender.\<close>

definition sealed_send ::
    "ext \<Rightarrow> ifac_config \<Rightarrow> (bytes \<Rightarrow> 's \<Rightarrow> (io_kind + unit) \<times> 's) \<Rightarrow> bytes \<Rightarrow> 's \<Rightarrow> (io_kind + unit) \<times> 's" where
  "sealed_send X config send raw s =
     (case ifac_apply_with_size X raw (ic_key config) (ic_size config) of
        Inl _ \<Rightarrow> (Inl InvalidData, s)
      | Inr wire \<Rightarrow> send wire s)"

primrec iface_send :: "ext \<Rightarrow> os \<Rightarrow> bytes \<Rightarrow> iface \<Rightarrow> (io_kind + unit) \<times> iface" where
  "iface_send X os raw (TcpClientInterface c) = map_prod id TcpClientInterface (tcp_send_packet os raw c)"
| "iface_send X os raw (UdpInterface u) = map_prod id UdpInterface (udp_send_packet os raw u)"
| "iface_send X os raw (AutoInterface a inputs) =
     map_prod id (\<lambda>a. AutoInterface a inputs) (auto_send_packet os raw a)"
| "iface_send X os raw (SerialInterface s) = map_prod id SerialInterface (serial_send_packet os raw s)"
| "iface_send X os raw (IfacInterface inner config) =
     (case ifac_apply_with_size X raw (ic_key config) (ic_size config) of
        Inl _ \<Rightarrow> (Inl InvalidData, IfacInterface inner config)
      | Inr wire \<Rightarrow> map_prod id (\<lambda>inner. IfacInterface inner config) (iface_send X os wire inner))"

text \<open>Receiving. \<open>None\<close>: nothing more arrives and the call waits; otherwise the result of the call.\<close>

type_synonym received = "(io_kind + bytes option) option"

function tcp_recv_packet :: "tcp_client \<Rightarrow> received \<times> tcp_client" where
  "tcp_recv_packet c =
     (case take_packet (tc_read_buffer c) of
        (Some packet, buf) \<Rightarrow> (Some (Inr (Some packet)), c\<lparr>tc_read_buffer := buf\<rparr>)
      | (None, buf) \<Rightarrow>
          (case tc_reads c of
             [] \<Rightarrow> (None, c\<lparr>tc_read_buffer := buf\<rparr>)
           | Inl e # reads \<Rightarrow> (Some (Inl e), c\<lparr>tc_read_buffer := buf, tc_reads := reads\<rparr>)
           | Inr chunk # reads \<Rightarrow>
               if chunk = [] then (Some (Inr None), c\<lparr>tc_read_buffer := buf, tc_reads := reads\<rparr>)
               else let buf = buf @ chunk
                 in tcp_recv_packet
                      (c\<lparr>tc_reads := reads, tc_read_buffer := (if length buf > MAX_BUFFER then [] else buf)\<rparr>)))"
  by pat_completeness auto
termination
  by (relation "measure (\<lambda>c. length (tc_reads c))") auto

declare tcp_recv_packet.simps [simp del]

definition udp_recv_packet :: "udp_iface \<Rightarrow> received \<times> udp_iface" where
  "udp_recv_packet u =
     (case udp_recv (ud_datagrams u) of (r, rest) \<Rightarrow> (map_option (map_sum id Some) r, u\<lparr>ud_datagrams := rest\<rparr>))"

definition serial_recv_packet :: "serial_iface \<Rightarrow> received \<times> serial_iface" where
  "serial_recv_packet s =
     (if sr_inbound s = [] \<and> \<not> sr_closed s then (None, s)
      else case serial_recv (sr_inbound s) of (r, rest) \<Rightarrow> (Some (map_sum (\<lambda>_. OsError) id r), s\<lparr>sr_inbound := rest\<rparr>))"

text \<open>The wrapper's loop over any receiver; the fuel is a bound of what the receiver can still yield.\<close>

primrec ifac_loop ::
    "nat \<Rightarrow> ext \<Rightarrow> ifac_config \<Rightarrow> ('s \<Rightarrow> received \<times> 's) \<Rightarrow> 's \<Rightarrow> received \<times> 's" where
  "ifac_loop 0 X config recv s = (None, s)"
| "ifac_loop (Suc n) X config recv s =
     (case recv s of
        (Some (Inr (Some wire)), s) \<Rightarrow>
          (case ifac_strip_with_size X wire (ic_key config) (ic_size config) of
             Inr plain \<Rightarrow> (Some (Inr (Some plain)), s)
           | Inl _ \<Rightarrow> ifac_loop n X config recv s)
      | (r, s) \<Rightarrow> (r, s))"

text \<open>What an object can still yield.\<close>

fun read_size :: "io_kind + bytes \<Rightarrow> nat" where
  "read_size (Inl e) = 1"
| "read_size (Inr chunk) = length chunk + 1"

primrec pending :: "iface \<Rightarrow> nat" where
  "pending (TcpClientInterface c) =
     length (tc_read_buffer c) + sum_list (map read_size (tc_reads c))"
| "pending (UdpInterface u) = length (ud_datagrams u)"
| "pending (AutoInterface a inputs) = length inputs"
| "pending (SerialInterface s) = length (sr_inbound s)"
| "pending (IfacInterface inner config) = pending inner"

text \<open>The dispatch goes through the wrappers around the transport, \<open>wrappers\<close> many; receiving keeps them.\<close>

primrec wrappers :: "iface \<Rightarrow> nat" where
  "wrappers (TcpClientInterface c) = 0"
| "wrappers (UdpInterface u) = 0"
| "wrappers (AutoInterface a inputs) = 0"
| "wrappers (SerialInterface s) = 0"
| "wrappers (IfacInterface inner config) = Suc (wrappers inner)"

definition transport_recv :: "ext \<Rightarrow> iface \<Rightarrow> received \<times> iface" where
  "transport_recv X i =
     (case i of
        TcpClientInterface c \<Rightarrow> map_prod id TcpClientInterface (tcp_recv_packet c)
      | UdpInterface u \<Rightarrow> map_prod id UdpInterface (udp_recv_packet u)
      | AutoInterface a inputs \<Rightarrow>
          (case auto_recv X inputs a of
             (r, a, inputs) \<Rightarrow> (map_option (map_sum id Some) r, AutoInterface a inputs))
      | SerialInterface s \<Rightarrow> map_prod id SerialInterface (serial_recv_packet s)
      | IfacInterface inner config \<Rightarrow> (None, i))"

primrec recv_through :: "nat \<Rightarrow> ext \<Rightarrow> iface \<Rightarrow> received \<times> iface" where
  "recv_through 0 X i = transport_recv X i"
| "recv_through (Suc n) X i =
     (case i of
        IfacInterface inner config \<Rightarrow>
          map_prod id (\<lambda>inner. IfacInterface inner config)
            (ifac_loop (pending inner + 1) X config (recv_through n X) inner)
      | _ \<Rightarrow> transport_recv X i)"

definition iface_recv :: "ext \<Rightarrow> iface \<Rightarrow> received \<times> iface" where
  "iface_recv X i = recv_through (wrappers i) X i"

section \<open>Receiving ends\<close>

definition got :: "received \<Rightarrow> bool" where
  "got r \<longleftrightarrow> (\<exists>p. r = Some (Inr (Some p)))"

lemma got_simps [simp]: "got (Some (Inr (Some p)))" "\<not> got None" "\<not> got (Some (Inl e))" "\<not> got (Some (Inr None))"
  by (simp_all add: got_def)

lemma pending_tcp: "tcp_recv_packet c = (r, c') \<Longrightarrow>
  pending (TcpClientInterface c') \<le> pending (TcpClientInterface c) \<and>
  (got r \<longrightarrow> pending (TcpClientInterface c') < pending (TcpClientInterface c))"
proof (induction c arbitrary: r c' rule: tcp_recv_packet.induct)
  case (1 c)
  obtain q buf where t: "take_packet (tc_read_buffer c) = (q, buf)" by fastforce
  note short = take_packet_shrinks [OF t]
  show ?case
  proof (cases q)
    case (Some packet)
    then show ?thesis using "1.prems" short t by (auto simp: tcp_recv_packet.simps [of c])
  next
    case None
    show ?thesis
    proof (cases "tc_reads c")
      case Nil
      then show ?thesis using "1.prems" short t None by (auto simp: tcp_recv_packet.simps [of c])
    next
      case (Cons x reads)
      show ?thesis
      proof (cases x)
        case (Inl e)
        then show ?thesis using "1.prems" short t None Cons by (auto simp: tcp_recv_packet.simps [of c])
      next
        case (Inr chunk)
        show ?thesis
        proof (cases "chunk = []")
          case True
          then show ?thesis using "1.prems" short t None Cons Inr by (auto simp: tcp_recv_packet.simps [of c])
        next
          case False
          let ?c = "c\<lparr>tc_reads := reads, tc_read_buffer := (if length (buf @ chunk) > MAX_BUFFER then [] else buf @ chunk)\<rparr>"
          have "tcp_recv_packet ?c = (r, c')"
            using "1.prems" t None Cons Inr False by (simp add: tcp_recv_packet.simps [of c] Let_def)
          moreover have "pending (TcpClientInterface ?c) < pending (TcpClientInterface c)" using short Cons Inr by simp
          ultimately show ?thesis using "1.IH" [OF t [symmetric] None Cons Inr False refl, of r c'] by linarith
        qed
      qed
    qed
  qed
qed

lemma udp_recv_shrinks: "udp_recv rs = (r, rs') \<Longrightarrow> length rs' \<le> length rs \<and> (r \<noteq> None \<longrightarrow> length rs' < length rs)"
  by (induction rs rule: udp_recv.induct) (auto simp: Let_def split: if_splits)

lemma auto_recv_shrinks: "auto_recv X is a = (r, a', is') \<Longrightarrow> length is' \<le> length is \<and> (r \<noteq> None \<longrightarrow> length is' < length is)"
proof (induction X "is" a rule: auto_recv.induct)
  case (2 X i "is" a)
  obtain r1 a1 where t: "auto_turn X i a = (r1, a1)" by fastforce
  show ?case
  proof (cases r1)
    case None
    then show ?thesis using 2(1) [OF t [symmetric] None] 2(2) t by simp
  next
    case (Some x)
    then show ?thesis using 2(2) t by simp
  qed
qed simp

lemma transport_shrinks:
  assumes "transport_recv X i = (r, i')" and "wrappers i = 0"
  shows "wrappers i' = 0 \<and> pending i' \<le> pending i \<and> (got r \<longrightarrow> pending i' < pending i)"
proof (cases i)
  case (TcpClientInterface c)
  then show ?thesis using assms by (auto simp: transport_recv_def map_prod_def split: prod.splits dest: pending_tcp)
next
  case (UdpInterface u)
  then show ?thesis using assms
    by (fastforce simp: transport_recv_def map_prod_def udp_recv_packet_def got_def split: prod.splits dest: udp_recv_shrinks)
next
  case (AutoInterface a inputs)
  then show ?thesis using assms
    by (fastforce simp: transport_recv_def got_def split: prod.splits dest: auto_recv_shrinks)
next
  case (SerialInterface s)
  then show ?thesis using assms
    by (cases "sr_inbound s" rule: serial_recv.cases)
      (auto simp: transport_recv_def map_prod_def serial_recv_packet_def got_def split: if_splits)
next
  case (IfacInterface inner config)
  then show ?thesis using assms by simp
qed

text \<open>The loop, over any receiver that keeps \<open>P\<close> and gets closer to its end with every packet.\<close>

definition shrinking :: "('s \<Rightarrow> bool) \<Rightarrow> ('s \<Rightarrow> nat) \<Rightarrow> ('s \<Rightarrow> received \<times> 's) \<Rightarrow> bool" where
  "shrinking P m recv \<longleftrightarrow> (\<forall>s r s'. P s \<longrightarrow> recv s = (r, s') \<longrightarrow> P s' \<and> m s' \<le> m s \<and> (got r \<longrightarrow> m s' < m s))"

lemma shrinkingD:
  "shrinking P m recv \<Longrightarrow> P s \<Longrightarrow> recv s = (r, s') \<Longrightarrow> P s' \<and> m s' \<le> m s \<and> (got r \<longrightarrow> m s' < m s)"
  by (simp add: shrinking_def)

lemma ifac_loop_shrinks:
  "shrinking P m recv \<Longrightarrow> P s \<Longrightarrow> ifac_loop n X c recv s = (r, s') \<Longrightarrow> P s' \<and> m s' \<le> m s \<and> (got r \<longrightarrow> m s' < m s)"
proof (induction n arbitrary: s)
  case (Suc n)
  obtain q t where q: "recv s = (q, t)" by fastforce
  note d = shrinkingD [OF Suc.prems(1,2) q]
  show ?case
  proof (cases "got q")
    case True
    then obtain p where p: "q = Some (Inr (Some p))" by (auto simp: got_def)
    show ?thesis
    proof (cases "ifac_strip_with_size X p (ic_key c) (ic_size c)")
      case (Inl e)
      then have "ifac_loop n X c recv t = (r, s')" using Suc.prems(3) q p by simp
      then show ?thesis using Suc.IH [OF Suc.prems(1), of t] d by force
    next
      case (Inr plain)
      then show ?thesis using Suc.prems(3) q p d by auto
    qed
  next
    case False
    then have "(r, s') = (q, t)" using Suc.prems(3) q by (auto simp: got_def split: option.splits sum.splits)
    then show ?thesis using d by simp
  qed
qed simp

text \<open>More fuel than the receiver can yield changes nothing.\<close>

lemma ifac_loop_fuel:
  "shrinking P m recv \<Longrightarrow> P s \<Longrightarrow> m s < n \<Longrightarrow> m s < k \<Longrightarrow> ifac_loop n X c recv s = ifac_loop k X c recv s"
proof (induction n arbitrary: s k)
  case (Suc n)
  obtain k' where k: "k = Suc k'" using Suc.prems(4) by (cases k) auto
  obtain q t where q: "recv s = (q, t)" by fastforce
  note d = shrinkingD [OF Suc.prems(1,2) q]
  show ?case
  proof (cases "got q")
    case True
    then obtain p where p: "q = Some (Inr (Some p))" by (auto simp: got_def)
    have "ifac_loop n X c recv t = ifac_loop k' X c recv t"
      using Suc.IH [OF Suc.prems(1), of t k'] d True Suc.prems(3,4) k by simp
    then show ?thesis using q p k by (simp split: sum.split)
  next
    case False
    then show ?thesis using q k by (auto simp: got_def split: option.splits sum.splits)
  qed
qed simp

lemma recv_through_shrinks: "shrinking (\<lambda>i. wrappers i = n) pending (recv_through n X)"
proof (induction n)
  case 0
  then show ?case using transport_shrinks by (auto simp: shrinking_def)
next
  case (Suc n)
  show ?case unfolding shrinking_def
  proof (intro allI impI)
    fix i r i' assume w: "wrappers i = Suc n" and e: "recv_through (Suc n) X i = (r, i')"
    obtain inner config where i: "i = IfacInterface inner config" "wrappers inner = n" using w by (cases i) auto
    obtain inner' where l: "ifac_loop (pending inner + 1) X config (recv_through n X) inner = (r, inner')"
      and i': "i' = IfacInterface inner' config" using e i(1) by (auto simp: map_prod_def split: prod.splits)
    show "wrappers i' = Suc n \<and> pending i' \<le> pending i \<and> (got r \<longrightarrow> pending i' < pending i)"
      using ifac_loop_shrinks [OF Suc i(2) l] by (simp add: i i')
  qed
qed

lemma recv_shrinks:
  assumes "iface_recv X i = (r, i')"
  shows "wrappers i' = wrappers i" "pending i' \<le> pending i" "got r \<Longrightarrow> pending i' < pending i"
  using shrinkingD [OF recv_through_shrinks refl] assms by (simp_all add: iface_recv_def)

text \<open>The methods as the code has them: the loop of the wrapper, without fuel.\<close>

lemma iface_recv_transports:
  "iface_recv X (TcpClientInterface c) = map_prod id TcpClientInterface (tcp_recv_packet c)"
  "iface_recv X (UdpInterface u) = map_prod id UdpInterface (udp_recv_packet u)"
  "iface_recv X (AutoInterface a inputs) =
     (case auto_recv X inputs a of (r, a, inputs) \<Rightarrow> (map_option (map_sum id Some) r, AutoInterface a inputs))"
  "iface_recv X (SerialInterface s) = map_prod id SerialInterface (serial_recv_packet s)"
  by (simp_all add: iface_recv_def transport_recv_def)

lemma iface_recv_sealed:
  "iface_recv X (IfacInterface inner config) =
     (case iface_recv X inner of
        (Some (Inr (Some wire)), inner) \<Rightarrow>
          (case ifac_strip_with_size X wire (ic_key config) (ic_size config) of
             Inr plain \<Rightarrow> (Some (Inr (Some plain)), IfacInterface inner config)
           | Inl _ \<Rightarrow> iface_recv X (IfacInterface inner config))
      | (r, inner) \<Rightarrow> (r, IfacInterface inner config))"
proof -
  let ?R = "recv_through (wrappers inner) X"
  obtain q t where q: "?R inner = (q, t)" by fastforce
  note d = shrinkingD [OF recv_through_shrinks refl q]
  show ?thesis
  proof (cases "got q")
    case True
    then obtain p where p: "q = Some (Inr (Some p))" by (auto simp: got_def)
    have "ifac_loop (pending inner) X config ?R t = ifac_loop (pending t + 1) X config ?R t"
      using d True by (intro ifac_loop_fuel [OF recv_through_shrinks]) auto
    then show ?thesis using q p d by (simp add: iface_recv_def split: sum.split)
  next
    case False
    then show ?thesis using q by (auto simp: iface_recv_def got_def split: option.splits sum.splits)
  qed
qed

section \<open>All that is received\<close>

text \<open>The packets of the calls of \<open>recv_packet\<close> until one waits or does not return a packet.\<close>

function iface_recvs :: "ext \<Rightarrow> iface \<Rightarrow> bytes list" where
  "iface_recvs X i = (case iface_recv X i of (Some (Inr (Some p)), i) \<Rightarrow> p # iface_recvs X i | _ \<Rightarrow> [])"
  by pat_completeness auto
termination
  by (relation "measure (pending \<circ> snd)") (auto dest!: recv_shrinks(3) [OF sym])

declare iface_recvs.simps [simp del]

lemma iface_recvs_unfold:
  "iface_recv X i = (Some (Inr (Some p)), i') \<Longrightarrow> iface_recvs X i = p # iface_recvs X i'"
  "iface_recv X i = (r, i') \<Longrightarrow> \<not> got r \<Longrightarrow> iface_recvs X i = []"
  by (auto simp: iface_recvs.simps [of X i] got_def split: option.splits sum.splits)

text \<open>The wrapper passes on what strips, in its order, and nothing else.\<close>

definition sealed_recvs :: "ext \<Rightarrow> ifac_config \<Rightarrow> bytes list \<Rightarrow> bytes list" where
  "sealed_recvs X c wires = List.map_filter (\<lambda>w. res_ok (ifac_strip_with_size X w (ic_key c) (ic_size c))) wires"

lemma sealed_recvs_simps [simp]:
  "sealed_recvs X c [] = []"
  "sealed_recvs X c (w # ws) = (case ifac_strip_with_size X w (ic_key c) (ic_size c) of
     Inr plain \<Rightarrow> plain # sealed_recvs X c ws | Inl _ \<Rightarrow> sealed_recvs X c ws)"
  by (simp_all add: sealed_recvs_def map_filter_simps split: sum.split)

lemma iface_recvs_sealed: "iface_recvs X (IfacInterface i c) = sealed_recvs X c (iface_recvs X i)"
proof (induction X i rule: iface_recvs.induct)
  case (1 X i)
  obtain r i' where r: "iface_recv X i = (r, i')" by fastforce
  show ?case
  proof (cases "got r")
    case True
    then obtain w where w: "r = Some (Inr (Some w))" by (auto simp: got_def)
    have IH: "iface_recvs X (IfacInterface i' c) = sealed_recvs X c (iface_recvs X i')" using 1 r w by simp
    have u: "iface_recvs X i = w # iface_recvs X i'" using iface_recvs_unfold(1) r w by simp
    show ?thesis
    proof (cases "ifac_strip_with_size X w (ic_key c) (ic_size c)")
      case (Inl e)
      then have "iface_recv X (IfacInterface i c) = iface_recv X (IfacInterface i' c)"
        using r w by (simp add: iface_recv_sealed [of X i])
      then show ?thesis using IH u Inl
        by (simp add: iface_recvs.simps [of X "IfacInterface i c"] iface_recvs.simps [of X "IfacInterface i' c"])
    next
      case (Inr plain)
      then have "iface_recv X (IfacInterface i c) = (Some (Inr (Some plain)), IfacInterface i' c)"
        using r w by (simp add: iface_recv_sealed [of X i])
      then show ?thesis using IH u Inr iface_recvs_unfold(1) by simp
    qed
  next
    case False
    then have "iface_recv X (IfacInterface i c) = (r, IfacInterface i' c)"
      using r by (auto simp: iface_recv_sealed [of X i] got_def split: option.splits sum.splits)
    then show ?thesis using iface_recvs_unfold(2) r False by simp
  qed
qed

section \<open>The contract of the trait\<close>

text \<open>Sending one packet after the other, as long as it succeeds.\<close>

fun send_all :: "('o \<Rightarrow> bytes \<Rightarrow> 's \<Rightarrow> (io_kind + unit) \<times> 's) \<Rightarrow> ('o \<times> bytes) list \<Rightarrow> 's \<Rightarrow> (io_kind + unit) \<times> 's" where
  "send_all send [] s = (Inr (), s)"
| "send_all send ((os, p) # ops) s =
     (case send os p s of (Inl e, s) \<Rightarrow> (Inl e, s) | (Inr _, s) \<Rightarrow> send_all send ops s)"

lemma send_all_Cons_ok: "send_all send ((os, p) # ops) s = (Inr (), s') \<longleftrightarrow>
  (\<exists>t. send os p s = (Inr (), t) \<and> send_all send ops t = (Inr (), s'))"
  by (auto split: prod.splits sum.splits)

locale packet_line =
  fixes send :: "'o \<Rightarrow> bytes \<Rightarrow> 's \<Rightarrow> (io_kind + unit) \<times> 's"
    and recvs :: "'r \<Rightarrow> bytes list"
    and idle :: "'s \<Rightarrow> bool"
    and carries :: "'s \<Rightarrow> 'r \<Rightarrow> bool"
    and takes :: "bytes \<Rightarrow> bool"
  assumes delivers: "idle s \<Longrightarrow> send_all send ops s = (Inr (), s') \<Longrightarrow> \<forall>p \<in> set (map snd ops). takes p \<Longrightarrow>
    carries s' r \<Longrightarrow> recvs r = map snd ops"

definition sealable :: "ext \<Rightarrow> ifac_config \<Rightarrow> bytes \<Rightarrow> bool" where
  "sealable X c p \<longleftrightarrow> crypto_ok X \<and> length (ic_key c) = 64 \<and> 1 \<le> ic_size c \<and> ic_size c \<le> 64 \<and>
     3 \<le> length p \<and> length p + ic_size c \<le> 8160 \<and> p ! 0 AND IFAC_FLAG = 0"

lemma sealed_length:
  assumes "sealable X c p" and "ifac_apply_with_size X p (ic_key c) (ic_size c) = Inr w"
  shows "length w = length p + ic_size c" and "w ! 0 AND IFAC_FLAG \<noteq> 0"
proof -
  have "\<exists>w. ifac_apply_with_size X p (ic_key c) (ic_size c) = Inr w \<and> ifac_strip_with_size X w (ic_key c) (ic_size c) = Inr p"
    using assms(1) ifac_strip_apply [of X "ic_key c" "ic_size c" p] by (simp add: sealable_def)
  then have s: "ifac_strip_with_size X w (ic_key c) (ic_size c) = Inr p" using assms(2) by simp
  show "length w = length p + ic_size c" by (rule ifac_strip_authentic(3) [OF s])
  show "w ! 0 AND IFAC_FLAG \<noteq> 0" by (rule ifac_strip_authentic(2) [OF s])
qed

text \<open>A line that takes what the wrapper makes of a packet carries sealed packets.\<close>

locale sealed_line = packet_line send recvs idle carries takes
  for send :: "'o \<Rightarrow> bytes \<Rightarrow> 's \<Rightarrow> (io_kind + unit) \<times> 's"
    and recvs :: "'r \<Rightarrow> bytes list" and idle :: "'s \<Rightarrow> bool" and carries :: "'s \<Rightarrow> 'r \<Rightarrow> bool"
    and takes :: "bytes \<Rightarrow> bool" +
  assumes takes_sealed: "3 \<le> length w \<Longrightarrow> length w \<le> 8160 \<Longrightarrow> takes w"
begin

lemma unsealed:
  "send_all (\<lambda>os. sealed_send X c (send os)) ops s = (Inr (), s') \<Longrightarrow>
     \<forall>p \<in> set (map snd ops). sealable X c p \<Longrightarrow>
     \<exists>wires. send_all send wires s = (Inr (), s') \<and> (\<forall>w \<in> set (map snd wires). takes w) \<and>
       sealed_recvs X c (map snd wires) = map snd ops"
proof (induction ops arbitrary: s)
  case Nil
  then show ?case by (intro exI [of _ "[]"]) simp
next
  case (Cons op ops)
  obtain os p where op: "op = (os, p)" by fastforce
  have ok: "sealable X c p" using Cons.prems(2) op by simp_all
  obtain w where w: "ifac_apply_with_size X p (ic_key c) (ic_size c) = Inr w" "ifac_strip_with_size X w (ic_key c) (ic_size c) = Inr p"
    using ok ifac_strip_apply [of X "ic_key c" "ic_size c" p] by (auto simp: sealable_def)
  obtain t where t: "send os w s = (Inr (), t)" "send_all (\<lambda>os. sealed_send X c (send os)) ops t = (Inr (), s')"
    using Cons.prems(1) w(1) unfolding op send_all_Cons_ok by (auto simp: sealed_send_def)
  obtain wires where "send_all send wires t = (Inr (), s')" "\<forall>w \<in> set (map snd wires). takes w"
    "sealed_recvs X c (map snd wires) = map snd ops"
    using Cons.IH [OF t(2)] Cons.prems(2) by auto
  moreover have "takes w"
    using sealed_length(1) [OF ok w(1)] ok by (intro takes_sealed) (simp_all add: sealable_def)
  ultimately show ?case using t(1) w(2) op by (intro exI [of _ "(os, w) # wires"]) (simp add: send_all_Cons_ok)
qed

end

sublocale sealed_line \<subseteq> sealed: packet_line "\<lambda>os. sealed_send X c (send os)" "\<lambda>r. sealed_recvs X c (recvs r)"
    idle carries "sealable X c" for X c
proof
  fix s :: 's and ops :: "('o \<times> bytes) list" and s' and r :: 'r
  assume "idle s" "send_all (\<lambda>os. sealed_send X c (send os)) ops s = (Inr (), s')"
    "\<forall>p \<in> set (map snd ops). sealable X c p" "carries s' r"
  then obtain wires where "send_all send wires s = (Inr (), s')" "\<forall>w \<in> set (map snd wires). takes w"
    "sealed_recvs X c (map snd wires) = map snd ops" using unsealed by blast
  with \<open>idle s\<close> \<open>carries s' r\<close> show "sealed_recvs X c (recvs r) = map snd ops" using delivers by metis
qed

section \<open>The transports keep it\<close>

text \<open>TCP: the reads of the other end cut what was written into chunks.\<close>

definition tcp_carries :: "tcp_client \<Rightarrow> tcp_client \<Rightarrow> bool" where
  "tcp_carries a b \<longleftrightarrow> tc_read_buffer b = [] \<and>
     (\<exists>chunks. tc_reads b = map Inr chunks \<and> chunked chunks \<and> concat chunks = tc_written a)"

definition tcp_takes :: "bytes \<Rightarrow> bool" where
  "tcp_takes p \<longleftrightarrow> p \<noteq> [] \<and> length (hdlc_frame p) + READ_CHUNK < MAX_BUFFER"

text \<open>Without errors among its reads, the client is the splitter over them.\<close>

lemma tcp_recv_packet_eq:
  "tc_reads c = map Inr reads \<Longrightarrow> [] \<notin> set reads \<Longrightarrow>
     (case tcp_recv reads (tc_read_buffer c) of
        (Some p, buf, rest) \<Rightarrow> tcp_recv_packet c = (Some (Inr (Some p)), c\<lparr>tc_read_buffer := buf, tc_reads := map Inr rest\<rparr>)
          \<and> [] \<notin> set rest
      | (None, buf, rest) \<Rightarrow> fst (tcp_recv_packet c) = None)"
proof (induction reads "tc_read_buffer c" arbitrary: c rule: tcp_recv.induct)
  case (1 reads c)
  obtain q buf where t: "take_packet (tc_read_buffer c) = (q, buf)" by fastforce
  show ?case
  proof (cases q)
    case (Some packet)
    then show ?thesis using t "1.prems" by (simp add: tcp_recv_packet.simps [of c] tcp_recv.simps [of reads])
  next
    case None
    show ?thesis
    proof (cases reads)
      case Nil
      then show ?thesis using t None "1.prems" by (simp add: tcp_recv_packet.simps [of c] tcp_recv.simps [of "[]"])
    next
      case (Cons chunk rest)
      let ?buf = "if length (buf @ chunk) > MAX_BUFFER then [] else buf @ chunk"
      let ?c = "c\<lparr>tc_reads := map Inr rest, tc_read_buffer := ?buf\<rparr>"
      have ne: "chunk \<noteq> []" using "1.prems"(2) Cons by auto
      have IH: "case tcp_recv rest ?buf of
          (Some p, buf, rest') \<Rightarrow> tcp_recv_packet ?c = (Some (Inr (Some p)), ?c\<lparr>tc_read_buffer := buf, tc_reads := map Inr rest'\<rparr>)
            \<and> [] \<notin> set rest'
        | (None, buf, rest') \<Rightarrow> fst (tcp_recv_packet ?c) = None"
        using "1.hyps" [OF t [symmetric] None Cons ne refl, of ?c] "1.prems"(2) Cons by simp
      have l: "tcp_recv_packet c = tcp_recv_packet ?c"
        using t None Cons "1.prems"(1) ne by (simp add: tcp_recv_packet.simps [of c] Let_def)
      have r: "tcp_recv reads (tc_read_buffer c) = tcp_recv rest ?buf"
        using t None Cons ne by (simp add: tcp_recv.simps [of "chunk # rest"] Let_def)
      show ?thesis unfolding l r using IH by (auto split: prod.splits option.splits)
    qed
  qed
qed

lemma iface_recvs_tcp:
  assumes "tc_reads c = map Inr reads" and "[] \<notin> set reads" and "\<And>n. tcp_recvs n reads (tc_read_buffer c) = take n ps"
  shows "iface_recvs X (TcpClientInterface c) = ps"
  using assms
proof (induction ps arbitrary: c reads)
  case Nil
  have "fst (tcp_recv reads (tc_read_buffer c)) = None" using Nil(3) [of 1] by (auto split: prod.splits option.splits)
  then have "fst (tcp_recv_packet c) = None" using tcp_recv_packet_eq [OF Nil(1,2)] by (auto split: prod.splits)
  then have "iface_recv X (TcpClientInterface c) = (None, snd (iface_recv X (TcpClientInterface c)))"
    by (simp add: iface_recv_transports prod_eq_iff)
  then show ?case by (rule iface_recvs_unfold(2)) simp
next
  case (Cons p ps)
  obtain q buf rest where q: "tcp_recv reads (tc_read_buffer c) = (q, buf, rest)" by (metis prod_cases3)
  have "q = Some p" using Cons.prems(3) [of 1] q by (auto split: option.splits)
  have all: "tcp_recvs n rest buf = take n ps" for n using Cons.prems(3) [of "Suc n"] q \<open>q = Some p\<close> by simp
  let ?c = "c\<lparr>tc_read_buffer := buf, tc_reads := map Inr rest\<rparr>"
  have "tcp_recv_packet c = (Some (Inr (Some p)), ?c) \<and> [] \<notin> set rest"
    using tcp_recv_packet_eq [OF Cons.prems(1,2)] q \<open>q = Some p\<close> by simp
  then show ?case using Cons.IH [of ?c rest] all iface_recvs_unfold(1) [of X "TcpClientInterface c" p "TcpClientInterface ?c"]
    by (simp add: iface_recv_transports)
qed

lemma tcp_sent:
  "send_all tcp_send_packet ops c = (Inr (), c') \<Longrightarrow> tc_written c' = tc_written c @ concat (map (hdlc_frame \<circ> snd) ops)"
proof (induction ops arbitrary: c)
  case (Cons op ops)
  obtain os p where op: "op = (os, p)" by fastforce
  obtain t where t: "tcp_send_packet os p c = (Inr (), t)" "send_all tcp_send_packet ops t = (Inr (), c')"
    using Cons.prems unfolding op send_all_Cons_ok by blast
  have "tc_written t = tc_written c @ hdlc_frame p"
    using t(1) by (auto simp: tcp_send_packet_def write_all_def tcp_send_def split: option.splits)
  then show ?case using Cons.IH [OF t(2)] op by simp
qed simp

interpretation tcp: packet_line tcp_send_packet "\<lambda>c. iface_recvs X (TcpClientInterface c)" "\<lambda>c. tc_written c = []" tcp_carries
    tcp_takes for X
proof
  fix s ops s' r
  assume s: "tc_written s = []" "send_all tcp_send_packet ops s = (Inr (), s')" and t: "\<forall>p \<in> set (map snd ops). tcp_takes p"
    and c: "tcp_carries s' r"
  obtain chunks where r: "tc_read_buffer r = []" "tc_reads r = map Inr chunks" "chunked chunks" "concat chunks = tc_written s'"
    using c by (auto simp: tcp_carries_def)
  have "tc_written s' = concat (map hdlc_frame (map snd ops))" using tcp_sent [OF s(2)] s(1) by (simp add: comp_def)
  then have "tcp_recvs n chunks [] = take n (map snd ops)" for n
    using tcp_recvs_stream [of "[]" chunks "[]" "map snd ops" n] r t by (simp add: tcp_takes_def)
  then show "iface_recvs X (TcpClientInterface r) = map snd ops"
    using iface_recvs_tcp [OF r(2)] r(1,3) by (auto simp: chunked_def)
qed

text \<open>UDP: the datagrams of the other end, each as it was sent.\<close>

definition udp_carries :: "udp_iface \<Rightarrow> udp_iface \<Rightarrow> bool" where
  "udp_carries a b \<longleftrightarrow> ud_datagrams b = map (Inr \<circ> fst) (ud_sent a)"

lemma udp_sent:
  "send_all udp_send_packet ops u = (Inr (), u') \<Longrightarrow>
     map fst (ud_sent u') = map fst (ud_sent u) @ map snd ops \<and> (\<forall>p \<in> set (map snd ops). length p \<le> UDP_HW_MTU)"
proof (induction ops arbitrary: u)
  case (Cons op ops)
  obtain os p where op: "op = (os, p)" by fastforce
  obtain t where t: "udp_send_packet os p u = (Inr (), t)" "send_all udp_send_packet ops t = (Inr (), u')"
    using Cons.prems unfolding op send_all_Cons_ok by blast
  have "map fst (ud_sent t) = map fst (ud_sent u) @ [p] \<and> length p \<le> UDP_HW_MTU"
    using t(1) by (cases "os_send_to os p (ud_peer u)") (auto simp: udp_send_packet_def udp_send_def Let_def split: if_splits)
  then show ?case using Cons.IH [OF t(2)] op by auto
qed simp

lemma iface_recvs_udp:
  "ud_datagrams u = map Inr ps \<Longrightarrow> \<forall>p \<in> set ps. length p \<le> UDP_HW_MTU \<Longrightarrow> iface_recvs X (UdpInterface u) = ps"
proof (induction ps arbitrary: u)
  case Nil
  then have "iface_recv X (UdpInterface u) = (None, UdpInterface (u\<lparr>ud_datagrams := []\<rparr>))"
    by (simp add: iface_recv_transports udp_recv_packet_def)
  then show ?case by (rule iface_recvs_unfold(2)) simp
next
  case (Cons p ps)
  then have "iface_recv X (UdpInterface u) = (Some (Inr (Some p)), UdpInterface (u\<lparr>ud_datagrams := map Inr ps\<rparr>))"
    by (simp add: iface_recv_transports udp_recv_packet_def Let_def)
  then show ?case using Cons.IH [of "u\<lparr>ud_datagrams := map Inr ps\<rparr>"] Cons.prems iface_recvs_unfold(1) by simp
qed

interpretation udp: packet_line udp_send_packet "\<lambda>u. iface_recvs X (UdpInterface u)" "\<lambda>u. ud_sent u = []" udp_carries
    "\<lambda>_. True" for X
proof
  fix s ops s' r
  assume s: "ud_sent s = []" "send_all udp_send_packet ops s = (Inr (), s')" and c: "udp_carries s' r"
  have "ud_datagrams r = map Inr (map snd ops)" "\<forall>p \<in> set (map snd ops). length p \<le> UDP_HW_MTU"
    using udp_sent [OF s(2)] s(1) c by (simp_all add: udp_carries_def flip: map_map)
  then show "iface_recvs X (UdpInterface r) = map snd ops" by (rule iface_recvs_udp)
qed

text \<open>The serial line: reads of any size of what was written, with timeouts among them.\<close>

definition serial_carries :: "serial_iface \<Rightarrow> serial_iface \<Rightarrow> bool" where
  "serial_carries a b \<longleftrightarrow> (\<exists>reads. ReadError \<notin> set reads \<and> read_bytes reads = sr_written a \<and>
     sr_inbound b = serial_reader reads [] \<and> \<not> sr_closed b)"

lemma serial_sent:
  "send_all serial_send_packet ops s = (Inr (), s') \<Longrightarrow>
     sr_written s' = sr_written s @ concat (map the (map serial_send (map snd ops))) \<and>
     (\<forall>p \<in> set (map snd ops). serial_send p \<noteq> None)"
proof (induction ops arbitrary: s)
  case (Cons op ops)
  obtain os p where op: "op = (os, p)" by fastforce
  obtain t where t: "serial_send_packet os p s = (Inr (), t)" "send_all serial_send_packet ops t = (Inr (), s')"
    using Cons.prems unfolding op send_all_Cons_ok by blast
  have "sr_written t = sr_written s @ the (serial_send p) \<and> serial_send p \<noteq> None"
    using t(1) by (auto simp: serial_send_packet_def write_all_def split: option.splits)
  then show ?case using Cons.IH [OF t(2)] op by auto
qed simp

lemma iface_recvs_serial: "sr_inbound s = map Inr ps \<Longrightarrow> iface_recvs X (SerialInterface s) = ps"
proof (induction ps arbitrary: s)
  case Nil
  then have "\<not> got (fst (iface_recv X (SerialInterface s)))"
    by (simp add: iface_recv_transports serial_recv_packet_def)
  then show ?case using iface_recvs_unfold(2) by (metis prod.collapse)
next
  case (Cons p ps)
  then have "iface_recv X (SerialInterface s) = (Some (Inr (Some p)), SerialInterface (s\<lparr>sr_inbound := map Inr ps\<rparr>))"
    by (simp add: iface_recv_transports serial_recv_packet_def)
  then show ?case using Cons.IH [of "s\<lparr>sr_inbound := map Inr ps\<rparr>"] iface_recvs_unfold(1) by simp
qed

interpretation serial: packet_line serial_send_packet "\<lambda>s. iface_recvs X (SerialInterface s)" "\<lambda>s. sr_written s = []"
    serial_carries "\<lambda>_. True" for X
proof
  fix s ops s' r
  assume s: "sr_written s = []" "send_all serial_send_packet ops s = (Inr (), s')" and "serial_carries s' r"
  then obtain reads where r: "ReadError \<notin> set reads" "read_bytes reads = sr_written s'" "sr_inbound r = serial_reader reads []"
    by (auto simp: serial_carries_def)
  have "serial_reader reads [] = map Inr (map snd ops)"
    using serial_sent [OF s(2)] s(1) r(2) by (intro serial_delivers [OF r(1)]) auto
  then show "iface_recvs X (SerialInterface r) = map snd ops" using iface_recvs_serial r(3) by simp
qed

text \<open>Hosts of a group: the datagrams one sends to the other's data port, which knows it as a peer.\<close>

definition auto_carries :: "auto \<Rightarrow> auto \<times> auto_input list \<Rightarrow> bool" where
  "auto_carries a b \<longleftrightarrow>
     (\<exists>at_b source. (\<exists>p \<in> set (au_peers a). snd p = at_b) \<and> distinct (map snd (au_peers a)) \<and>
        bt_contains (sk_ip source) (au_peers (fst b)) \<and>
        snd b = map (\<lambda>m. DataIn (Some (fst m, SocketV6 source))) (filter (\<lambda>m. snd m = at_b) (au_sent a)))"

lemma send_to_peers_sent: "send_to_peers raw ps ok a = (Inr (), a') \<Longrightarrow> a' = a\<lparr>au_sent := au_sent a @ map (Pair raw) ps\<rparr>"
proof (induction ps arbitrary: a)
  case (Cons p ps)
  then have "send_to_peers raw ps ok (a\<lparr>au_sent := au_sent a @ [(raw, p)]\<rparr>) = (Inr (), a')"
    by (simp add: sent_to_def split: if_splits)
  then show ?case using Cons.IH by fastforce
qed simp

lemma auto_packet_sent:
  assumes "auto_send_packet os raw a = (Inr (), a')"
  shows "length raw \<le> AUTO_HW_MTU" "a' = a\<lparr>au_sent := au_sent a @ map (Pair raw) (map snd (au_peers a))\<rparr>"
  using assms by (auto simp: auto_send_packet_def auto_send_def split: if_splits dest!: send_to_peers_sent)

lemma auto_peers_kept: "send_all auto_send_packet ops a = (Inr (), a') \<Longrightarrow> au_peers a' = au_peers a"
proof (induction ops arbitrary: a)
  case (Cons op ops)
  obtain os p where op: "op = (os, p)" by fastforce
  obtain t where t: "auto_send_packet os p a = (Inr (), t)" "send_all auto_send_packet ops t = (Inr (), a')"
    using Cons.prems(1) unfolding op send_all_Cons_ok by blast
  show ?case using Cons.IH [OF t(2)] by (simp add: auto_packet_sent(2) [OF t(1)])
qed simp

lemma filter_to_peer: "distinct ps \<Longrightarrow> q \<in> set ps \<Longrightarrow> filter (\<lambda>m. snd m = q) (map (Pair raw) ps) = [(raw, q)]"
  by (induction ps) (auto simp: filter_empty_conv)

lemma auto_all_sent:
  "send_all auto_send_packet ops a = (Inr (), a') \<Longrightarrow> distinct (map snd (au_peers a)) \<Longrightarrow> q \<in> set (map snd (au_peers a)) \<Longrightarrow>
     au_peers a' = au_peers a \<and> (\<forall>p \<in> set (map snd ops). length p \<le> AUTO_HW_MTU) \<and>
     filter (\<lambda>m. snd m = q) (au_sent a') = filter (\<lambda>m. snd m = q) (au_sent a) @ map (\<lambda>op. (snd op, q)) ops"
proof (induction ops arbitrary: a)
  case (Cons op ops)
  obtain os p where op: "op = (os, p)" by fastforce
  obtain t where t: "auto_send_packet os p a = (Inr (), t)" "send_all auto_send_packet ops t = (Inr (), a')"
    using Cons.prems(1) unfolding op send_all_Cons_ok by blast
  note s = auto_packet_sent [OF t(1)]
  show ?case using Cons.IH [OF t(2)] Cons.prems(2,3) s(1) filter_to_peer [OF Cons.prems(2,3), of p] op by (simp add: s(2))
qed simp

lemma iface_recvs_auto:
  "bt_contains (sk_ip source) (au_peers a) \<Longrightarrow> \<forall>p \<in> set ps. length p \<le> AUTO_HW_MTU \<Longrightarrow>
     iface_recvs X (AutoInterface a (map (\<lambda>p. DataIn (Some (p, SocketV6 source))) ps)) = ps"
proof (induction ps)
  case Nil
  have "iface_recv X (AutoInterface a []) = (None, AutoInterface a [])" by (simp add: iface_recv_transports)
  then show ?case using iface_recvs_unfold(2) by simp
next
  case (Cons p ps)
  then have "iface_recv X (AutoInterface a (map (\<lambda>p. DataIn (Some (p, SocketV6 source))) (p # ps))) =
      (Some (Inr (Some p)), AutoInterface a (map (\<lambda>p. DataIn (Some (p, SocketV6 source))) ps))"
    by (simp add: iface_recv_transports auto_turn_def Let_def)
  then show ?case using Cons iface_recvs_unfold(1) by (metis list.set_intros(2))
qed

interpretation auto_line: packet_line auto_send_packet "\<lambda>b. iface_recvs X (AutoInterface (fst b) (snd b))" "\<lambda>a. au_sent a = []"
    auto_carries "\<lambda>_. True" for X
proof
  fix s ops s' and r :: "auto \<times> auto_input list"
  assume s: "au_sent s = []" "send_all auto_send_packet ops s = (Inr (), s')" and c: "auto_carries s' r"
  note peers = auto_peers_kept [OF s(2)]
  obtain q source where q: "q \<in> set (map snd (au_peers s'))" "distinct (map snd (au_peers s'))"
    "bt_contains (sk_ip source) (au_peers (fst r))"
    "snd r = map (\<lambda>m. DataIn (Some (fst m, SocketV6 source))) (filter (\<lambda>m. snd m = q) (au_sent s'))"
    using c by (auto simp: auto_carries_def)
  note a = auto_all_sent [OF s(2), of q] q(1,2)
  have "snd r = map (\<lambda>p. DataIn (Some (p, SocketV6 source))) (map snd ops)"
    using a q(4) s(1) peers by (simp add: comp_def)
  moreover have "\<forall>p \<in> set (map snd ops). length p \<le> AUTO_HW_MTU" using a peers by simp
  ultimately show "iface_recvs X (AutoInterface (fst r) (snd r)) = map snd ops"
    using iface_recvs_auto [OF q(3), of "map snd ops"] by simp
qed

section \<open>Every transport, sealed or not\<close>

definition idle_iface :: "iface \<Rightarrow> bool" where
  "idle_iface i \<longleftrightarrow>
     (case i of
        TcpClientInterface c \<Rightarrow> tc_written c = []
      | UdpInterface u \<Rightarrow> ud_sent u = []
      | AutoInterface a inputs \<Rightarrow> au_sent a = []
      | SerialInterface s \<Rightarrow> sr_written s = []
      | IfacInterface inner config \<Rightarrow> False)"

text \<open>The medium between two transports of a kind: the second receives what the first sent.\<close>

fun medium_carries :: "iface \<Rightarrow> iface \<Rightarrow> bool" where
  "medium_carries (TcpClientInterface a) (TcpClientInterface b) = tcp_carries a b"
| "medium_carries (UdpInterface a) (UdpInterface b) = udp_carries a b"
| "medium_carries (AutoInterface a _) (AutoInterface b inputs) = auto_carries a (b, inputs)"
| "medium_carries (SerialInterface a) (SerialInterface b) = serial_carries a b"
| "medium_carries _ _ = False"

text \<open>Sending through an object is sending through what it holds.\<close>

lemma send_all_lift:
  "(\<And>os p s. big os p (C s) = map_prod id C (small os p s)) \<Longrightarrow>
     send_all big ops (C s) = map_prod id C (send_all small ops s)"
  by (induction ops arbitrary: s) (auto simp: case_prod_beta split: sum.splits)

lemma send_all_iface:
  "send_all (iface_send X) ops (TcpClientInterface c) = map_prod id TcpClientInterface (send_all tcp_send_packet ops c)"
  "send_all (iface_send X) ops (UdpInterface u) = map_prod id UdpInterface (send_all udp_send_packet ops u)"
  "send_all (iface_send X) ops (AutoInterface a inputs) =
     map_prod id (\<lambda>a. AutoInterface a inputs) (send_all auto_send_packet ops a)"
  "send_all (iface_send X) ops (SerialInterface s) = map_prod id SerialInterface (send_all serial_send_packet ops s)"
  "send_all (iface_send X) ops (IfacInterface i config) =
     map_prod id (\<lambda>i. IfacInterface i config) (send_all (\<lambda>os. sealed_send X config (iface_send X os)) ops i)"
  by (rule send_all_lift, simp add: sealed_send_def split: sum.split)+

lemma hdlc_escape_length: "length (hdlc_escape d) \<le> 2 * length d"
  by (induction d) auto

interpretation transport: sealed_line "iface_send X" "iface_recvs X" idle_iface medium_carries tcp_takes for X
proof
  fix a ops a' b
  assume a: "idle_iface a" "send_all (iface_send X) ops a = (Inr (), a')" and t: "\<forall>p \<in> set (map snd ops). tcp_takes p"
    and c: "medium_carries a' b"
  show "iface_recvs X b = map snd ops"
  proof (cases a)
    case (TcpClientInterface c)
    then show ?thesis using a c t tcp.delivers [of c ops] by (cases b) (auto simp: send_all_iface idle_iface_def map_prod_def split: prod.splits)
  next
    case (UdpInterface u)
    then show ?thesis using a c udp.delivers [of u ops] by (cases b) (auto simp: send_all_iface idle_iface_def map_prod_def split: prod.splits)
  next
    case (AutoInterface u inputs)
    obtain u' where u: "send_all auto_send_packet ops u = (Inr (), u')" "a' = AutoInterface u' inputs"
      using a(2) AutoInterface by (auto simp: send_all_iface map_prod_def split: prod.splits)
    obtain v is' where "b = AutoInterface v is'" "auto_carries u' (v, is')" using c u(2) by (cases b) auto
    then show ?thesis using auto_line.delivers [OF _ u(1), of "(v, is')" X] a(1) AutoInterface by (simp add: idle_iface_def)
  next
    case (SerialInterface s)
    then show ?thesis using a c serial.delivers [of s ops] by (cases b) (auto simp: send_all_iface idle_iface_def map_prod_def split: prod.splits)
  qed (use a(1) in \<open>simp add: idle_iface_def\<close>)
next
  fix w :: bytes assume "3 \<le> length w" "length w \<le> 8160"
  then show "tcp_takes w" using hdlc_escape_length [of w]
    by (auto simp: tcp_takes_def hdlc_frame_def READ_CHUNK_def MAX_BUFFER_def)
qed

text \<open>What may be sent over an interface configured with or without an access code.\<close>

definition sendable :: "ext \<Rightarrow> ifac_config option \<Rightarrow> bytes \<Rightarrow> bool" where
  "sendable X ifac p \<longleftrightarrow> (case ifac of None \<Rightarrow> tcp_takes p | Some c \<Rightarrow> sealable X c p)"

lemma wrapped_delivers:
  assumes "idle_iface a" and "send_all (iface_send X) ops (wrap_ifac a ifac) = (Inr (), wrapped)"
    and "\<forall>p \<in> set (map snd ops). sendable X ifac p"
  obtains a' where "wrapped = wrap_ifac a' ifac" and "\<And>b. medium_carries a' b \<Longrightarrow> iface_recvs X (wrap_ifac b ifac) = map snd ops"
proof (cases ifac)
  case None
  then show thesis using that [of wrapped] transport.delivers [of a X ops wrapped] assms by (simp add: wrap_ifac_def sendable_def)
next
  case (Some c)
  obtain a' where a': "send_all (\<lambda>os. sealed_send X c (iface_send X os)) ops a = (Inr (), a')" "wrapped = IfacInterface a' c"
    using assms(2) Some by (auto simp: wrap_ifac_def with_ifac_def send_all_iface map_prod_def split: prod.splits)
  have "sealed_recvs X c (iface_recvs X b) = map snd ops" if "medium_carries a' b" for b
    using transport.sealed.delivers [OF assms(1) a'(1) _ that] assms(3) Some by (simp add: sendable_def)
  then show thesis using that [of a'] a'(2) Some by (simp add: wrap_ifac_def with_ifac_def iface_recvs_sealed)
qed

section \<open>The task of an interface\<close>

text \<open>One round of the loop of \<open>run_interface\<close> over the object itself: a packet of the driver or the end of
  its channel, or the wire. When nothing arrives the round changes nothing.\<close>

datatype task_input = FromQueue "bytes option" | FromMedium

definition task_round ::
    "ext \<Rightarrow> os \<Rightarrow> bool \<Rightarrow> task_input \<Rightarrow> iface \<Rightarrow> inbound list \<times> bool \<times> iface" where
  "task_round X os driver_ok input i =
     (case input of
        FromQueue packet \<Rightarrow>
          (case (case packet of None \<Rightarrow> (Inr (), i) | Some raw \<Rightarrow> iface_send X os raw i) of
             (r, i') \<Rightarrow>
               (case run_interface (iface_id i) (r = Inr ()) driver_ok (FromDriver packet) of
                  (_, inb, go) \<Rightarrow> (inb, go, i')))
      | FromMedium \<Rightarrow>
          (case iface_recv X i of
             (None, i') \<Rightarrow> ([], True, i')
           | (Some r, i') \<Rightarrow>
               (case run_interface (iface_id i) True driver_ok (FromWire (map_sum (\<lambda>_. ()) id r)) of
                  (_, inb, go) \<Rightarrow> (inb, go, i'))))"

fun task_run ::
    "ext \<Rightarrow> (os \<times> bool \<times> task_input) list \<Rightarrow> iface \<Rightarrow> inbound list \<times> bool \<times> iface" where
  "task_run X [] i = ([], True, i)"
| "task_run X ((os, driver_ok, input) # rounds) i =
     (case task_round X os driver_ok input i of
        (inb, False, i) \<Rightarrow> (inb, False, i)
      | (inb, True, i) \<Rightarrow> (case task_run X rounds i of (inb', go, i) \<Rightarrow> (inb @ inb', go, i)))"

lemma iface_id_send: "iface_id (snd (iface_send X os raw i)) = iface_id i"
proof (induction i arbitrary: raw)
  case (AutoInterface a inputs)
  have "au_id (snd (send_to_peers r ps ok b)) = au_id b" for r ps ok b
    by (induction ps arbitrary: b) (auto simp: sent_to_def)
  then show ?case by (simp add: auto_send_packet_def auto_send_def)
qed (auto simp: tcp_send_packet_def udp_send_packet_def serial_send_packet_def Let_def case_prod_beta split: sum.split option.split)

lemma sending_rounds:
  "task_run X (map (\<lambda>(os, p). (os, ok, FromQueue (Some p))) ops) i =
     (case send_all (iface_send X) ops i of
        (Inr _, i') \<Rightarrow> ([], True, i')
      | (Inl e, i') \<Rightarrow> (if ok then [FailedIface (iface_id i)] else [], False, i'))"
proof (induction ops arbitrary: i)
  case (Cons op ops)
  obtain os p where op: "op = (os, p)" by fastforce
  obtain r i' where r: "iface_send X os p i = (r, i')" by fastforce
  then have "iface_id i' = iface_id i" using iface_id_send by (metis snd_conv)
  then show ?case using Cons.IH [of i'] r op by (cases r) (auto simp: task_round_def run_interface_def split: prod.splits sum.splits)
qed simp

lemma tcp_recv_id: "tc_id (snd (tcp_recv_packet c)) = tc_id c"
proof (induction c rule: tcp_recv_packet.induct)
  case (1 c)
  obtain q buf where t: "take_packet (tc_read_buffer c) = (q, buf)" by fastforce
  show ?case
  proof (cases "q = None \<and> (\<exists>chunk reads. tc_reads c = Inr chunk # reads \<and> chunk \<noteq> [])")
    case True
    then obtain chunk reads where n: "q = None" "tc_reads c = Inr chunk # reads" "chunk \<noteq> []" by blast
    then show ?thesis using "1" [OF t [symmetric] n(1,2) refl n(3) refl] t by (simp add: tcp_recv_packet.simps [of c] Let_def)
  next
    case False
    then show ?thesis using t by (auto simp: tcp_recv_packet.simps [of c] split: option.splits list.splits sum.splits)
  qed
qed

lemma auto_recv_id: "au_id (fst (snd (auto_recv X is a))) = au_id a"
proof (induction X "is" a rule: auto_recv.induct)
  case (2 X i "is" a)
  have "au_id (snd (auto_turn X i a)) = au_id a"
    by (auto simp: auto_turn_def auto_announce_def process_discovery_def sent_to_def Let_def
        split: auto_input.split option.split socket_addr.split prod.split sum.split)
  then show ?case using 2 by (auto split: prod.split option.split)
qed simp

lemma ifac_loop_keeps:
  "(\<And>s. f (snd (recv s)) = f s) \<Longrightarrow> f (snd (ifac_loop n X c recv s)) = f s"
proof (induction n arbitrary: s)
  case (Suc n)
  obtain r t where r: "recv s = (r, t)" by fastforce
  then have "f t = f s" using Suc.prems [of s] by simp
  then show ?case using r Suc by (auto split: option.split sum.split)
qed simp

lemma iface_id_recv: "iface_id (snd (iface_recv X i)) = iface_id i"
proof -
  have t: "iface_id (snd (transport_recv X i)) = iface_id i" for i
    using tcp_recv_id auto_recv_id [of X]
    by (cases i) (auto simp: transport_recv_def udp_recv_packet_def serial_recv_packet_def case_prod_beta)
  have "iface_id (snd (recv_through n X i)) = iface_id i" for n
  proof (induction n arbitrary: i)
    case (Suc n)
    then show ?case using t [of i] by (cases i) (simp_all add: ifac_loop_keeps [of iface_id] del: ifac_loop.simps)
  qed (simp add: t)
  then show ?thesis by (simp add: iface_recv_def)
qed

lemma receiving_rounds:
  "fst (task_run X (replicate (length (iface_recvs X i)) (os, True, FromMedium)) i) =
     map (Packet (iface_id i)) (iface_recvs X i)"
proof (induction X i rule: iface_recvs.induct)
  case (1 X i)
  obtain r i' where r: "iface_recv X i = (r, i')" by fastforce
  then have i': "iface_id i' = iface_id i" using iface_id_recv by (metis snd_conv)
  show ?case
  proof (cases "got r")
    case True
    then obtain p where p: "r = Some (Inr (Some p))" by (auto simp: got_def)
    then show ?thesis using "1" [OF r [symmetric] p refl refl] r i'
      by (auto simp: iface_recvs_unfold(1) task_round_def run_interface_def split: prod.split)
  next
    case False
    then show ?thesis using iface_recvs_unfold(2) [OF r] by simp
  qed
qed

end
