(* ===== verification/Uart.thy ===== *)
theory Uart
  imports Streams Node_Reach
begin

text \<open>
  \<open>run_uart\<close> of reticulum-embedded/src/uart.rs: the loop that runs a node over a serial line. A round is what
  \<open>select\<close> returned, run to the end of the round: the events given to the callback, the packets written and
  what was written of a packet whose write failed. The loop performs nothing on its node but the operations
  of its interface (\<open>node_does\<close>), so the invariants of the node hold on the board, too.
\<close>

section \<open>The loop\<close>

datatype uart_input = UartRead bytes | UartError | UartTimer
datatype uart_end = EndOfStream | UartIo

text \<open>\<open>while let Some(..) = node.poll_outbound()\<close>: packets of other interfaces are dropped. A write fails
  after \<open>n\<close> packets and \<open>k\<close> bytes of the next, or not at all (\<open>None\<close>).\<close>

fun uart_drain :: "u16 \<Rightarrow> (nat \<times> nat) option \<Rightarrow> (u16 \<times> bytes) list \<Rightarrow> bytes list \<times> bytes \<times> (u16 \<times> bytes) list \<times> bool" where
  "uart_drain i fails [] = ([], [], [], True)"
| "uart_drain i fails ((j, packet) # out) =
     (if j \<noteq> i then uart_drain i fails out
      else case fails of
        Some (0, k) \<Rightarrow> ([], take k (kiss_frame packet), out, False)
      | Some (Suc n, k) \<Rightarrow>
          (case uart_drain i (Some (n, k)) out of (sent, part, rest, ok) \<Rightarrow> (packet # sent, part, rest, ok))
      | None \<Rightarrow> (case uart_drain i None out of (sent, part, rest, ok) \<Rightarrow> (packet # sent, part, rest, ok)))"

text \<open>The state: the node, the decoder and the source of randomness. An input comes with what the writes
  of its round do and whether the flush succeeds.\<close>

type_synonym uart_turn = "uart_input \<times> (nat \<times> nat) option \<times> bool"

definition uart_round ::
    "ext \<Rightarrow> 'r entropy \<Rightarrow> u16 \<Rightarrow> uart_turn \<Rightarrow> node \<times> kiss_decoder \<times> 'r
      \<Rightarrow> uart_end option \<times> event list \<times> bytes list \<times> bytes \<times> node \<times> kiss_decoder \<times> 'r" where
  "uart_round X E i turn s =
     (case turn of (input, fails, flushed) \<Rightarrow>
      case s of (nd, d, r) \<Rightarrow>
      case (case input of
              UartRead bs \<Rightarrow> if bs = [] then Inl EndOfStream
                else (case pump_inbound X E r d i bs nd of (evs, nd, d, r) \<Rightarrow> Inr (evs, nd, d, r))
            | UartError \<Rightarrow> Inl UartIo
            | UartTimer \<Rightarrow> (case tick_with_entropy X E r nd of (evs, nd, r) \<Rightarrow> Inr (evs, nd, d, r))) of
        Inl e \<Rightarrow> (Some e, [], [], [], nd, d, r)
      | Inr (evs, nd, d, r) \<Rightarrow>
          (case uart_drain i fails (nd_outbound nd) of (sent, part, rest, ok) \<Rightarrow>
             (if ok \<and> flushed then None else Some UartIo, evs, sent, part, nd\<lparr>nd_outbound := rest\<rparr>, d, r)))"

fun uart_loop ::
    "ext \<Rightarrow> 'r entropy \<Rightarrow> u16 \<Rightarrow> uart_turn list \<Rightarrow> node \<times> kiss_decoder \<times> 'r
      \<Rightarrow> uart_end option \<times> event list \<times> bytes list \<times> bytes \<times> node \<times> kiss_decoder \<times> 'r" where
  "uart_loop X E i [] s = (None, [], [], [], s)"
| "uart_loop X E i (turn # turns) s =
     (case uart_round X E i turn s of
        (Some e, evs, sent, part, s) \<Rightarrow> (Some e, evs, sent, part, s)
      | (None, evs, sent, part, s) \<Rightarrow>
          (case uart_loop X E i turns s of (e, evs', sent', part, s) \<Rightarrow> (e, evs @ evs', sent @ sent', part, s)))"

definition run_uart ::
    "ext \<Rightarrow> 'r entropy \<Rightarrow> u16 \<Rightarrow> nat \<Rightarrow> uart_turn list \<Rightarrow> node \<Rightarrow> 'r
      \<Rightarrow> uart_end option \<times> event list \<times> bytes list \<times> bytes \<times> node \<times> kiss_decoder \<times> 'r" where
  "run_uart X E i max_packet_len turns nd r =
     uart_loop X E i turns (register_interface i nd, kiss_decoder_new max_packet_len, r)"

text \<open>What is on the line.\<close>

definition on_line :: "bytes list \<Rightarrow> bytes \<Rightarrow> bytes" where
  "on_line sent part = concat (map kiss_frame sent) @ part"

section \<open>The operations on the node\<close>

fun node_does :: "ext \<Rightarrow> 'r entropy \<Rightarrow> node_op list \<Rightarrow> node \<times> 'r \<Rightarrow> (event list \<times> node \<times> 'r) option" where
  "node_does X E [] s = Some ([], s)"
| "node_does X E (op1 # ops) s =
     (case node_exec X E op1 s of
        None \<Rightarrow> None
      | Some (evs, s) \<Rightarrow> map_option (\<lambda>(evs', s). (evs @ evs', s)) (node_does X E ops s))"

lemma node_does_run: "node_does X E ops s = Some (evs, s') \<Longrightarrow> node_run X E s evs s'"
proof (induction ops arbitrary: s evs)
  case Nil
  then show ?case by (auto intro: node_run.refl)
next
  case (Cons op1 ops)
  then show ?case by (fastforce split: option.splits intro: node_run.step)
qed

lemma node_does_Cons: "node_does X E (op1 # ops) s = Some (evs, s') \<longleftrightarrow>
  (\<exists>e1 t e2. node_exec X E op1 s = Some (e1, t) \<and> node_does X E ops t = Some (e2, s') \<and> evs = e1 @ e2)"
  by (cases s') (auto split: option.split)

lemma node_does_trans:
  "node_does X E ops s = Some (evs, t) \<Longrightarrow> node_does X E ops' t = Some (evs', s') \<Longrightarrow>
     node_does X E (ops @ ops') s = Some (evs @ evs', s')"
proof (induction ops arbitrary: s evs)
  case (Cons op1 ops)
  then show ?case unfolding append_Cons node_does_Cons by (metis append.assoc)
qed simp

text \<open>The packets a sequence of operations gives to the node, on an interface.\<close>

definition given :: "u16 \<Rightarrow> node_op list \<Rightarrow> bytes list" where
  "given i ops = List.map_filter (\<lambda>op. case op of Receive p j True \<Rightarrow> if j = i then Some p else None | _ \<Rightarrow> None) ops"

lemma given_simps [simp]:
  "given i [] = []" "given i (Receive p i True # ops) = p # given i ops" "given i (Tick b # ops) = given i ops"
  "given i (Poll # ops) = given i ops" "given i (AddInterface j # ops) = given i ops" "given i (ops @ ops') = given i ops @ given i ops'"
  by (simp_all add: given_def map_filter_def)

text \<open>The packets a sequence of operations takes from the node's queue, with their interfaces, and those of an
  interface among them.\<close>

fun polled :: "ext \<Rightarrow> 'r entropy \<Rightarrow> node_op list \<Rightarrow> node \<times> 'r \<Rightarrow> (u16 \<times> bytes) list" where
  "polled X E [] s = []"
| "polled X E (op1 # ops) s =
     (case node_exec X E op1 s of
        None \<Rightarrow> []
      | Some (evs, s') \<Rightarrow>
          (if op1 = Poll then (case fst (poll_outbound (fst s)) of None \<Rightarrow> [] | Some ip \<Rightarrow> [ip]) else []) @ polled X E ops s')"

definition taken :: "ext \<Rightarrow> 'r entropy \<Rightarrow> u16 \<Rightarrow> node_op list \<Rightarrow> node \<times> 'r \<Rightarrow> bytes list" where
  "taken X E i ops s = map snd (filter (\<lambda>(j, packet). j = i) (polled X E ops s))"

lemma polled_append:
  "node_does X E ops s = Some (evs, t) \<Longrightarrow> polled X E (ops @ ops') s = polled X E ops s @ polled X E ops' t"
proof (induction ops arbitrary: s evs)
  case (Cons op1 ops)
  obtain e1 s1 e2 where "node_exec X E op1 s = Some (e1, s1)" "node_does X E ops s1 = Some (e2, t)"
    using Cons.prems unfolding node_does_Cons by blast
  then show ?case using Cons.IH [of s1 e2] by simp
qed simp

lemma taken_append:
  "node_does X E ops s = Some (evs, t) \<Longrightarrow> taken X E i (ops @ ops') s = taken X E i ops s @ taken X E i ops' t"
  by (simp add: taken_def polled_append)

lemma polled_none: "Poll \<notin> set ops \<Longrightarrow> polled X E ops s = []"
  by (induction ops arbitrary: s) (auto split: option.split)

lemma taken_none: "Poll \<notin> set ops \<Longrightarrow> taken X E i ops s = []"
  by (simp add: taken_def polled_none)

text \<open>The operations of the loop.\<close>

definition uart_op :: "u16 \<Rightarrow> node_op \<Rightarrow> bool" where
  "uart_op i op \<longleftrightarrow> op = Poll \<or> op = Tick True \<or> (\<exists>p. op = Receive p i True)"

text \<open>A turn in which nothing fails, and the queue after it.\<close>

definition good_turn :: "uart_turn \<Rightarrow> bool" where
  "good_turn turn \<longleftrightarrow> (case turn of (input, fails, flushed) \<Rightarrow> input \<noteq> UartError \<and> input \<noteq> UartRead [] \<and> fails = None \<and> flushed)"

lemma uart_drain_all: "uart_drain i None out = (map snd (filter (\<lambda>jp. fst jp = i) out), [], [], True)"
  by (induction out) auto

lemma polls: "\<exists>n. node_does X E (replicate n Poll) (nd, r) = Some ([], nd\<lparr>nd_outbound := fst (snd (snd (uart_drain i fails (nd_outbound nd))))\<rparr>, r) \<and>
  (fails = None \<longrightarrow> taken X E i (replicate n Poll) (nd, r) = fst (uart_drain i fails (nd_outbound nd)))"
proof (induction "nd_outbound nd" arbitrary: nd fails)
  case Nil
  then have "nd\<lparr>nd_outbound := []\<rparr> = nd" by simp
  then show ?case using Nil by (intro exI [of _ 0]) (simp add: taken_def)
next
  case (Cons jp out)
  obtain j packet where jp: "jp = (j, packet)" by fastforce
  have o: "nd_outbound nd = (j, packet) # out" using Cons(2) jp by simp
  let ?nd = "nd\<lparr>nd_outbound := out\<rparr>"
  have p: "node_exec X E Poll (nd, r) = Some ([], ?nd, r)" by (simp add: poll_outbound_def o)
  have t: "taken X E i (replicate (Suc n) Poll) (nd, r) =
      (if j = i then [packet] else []) @ taken X E i (replicate n Poll) (?nd, r)" for n
    using p by (simp add: taken_def o poll_outbound_def)
  have more: "\<exists>n. node_does X E (replicate n Poll) (nd, r) = Some ([], nd\<lparr>nd_outbound := fst (snd (snd (uart_drain i f out)))\<rparr>, r) \<and>
    (f = None \<longrightarrow> taken X E i (replicate n Poll) (nd, r) = (if j = i then [packet] else []) @ fst (uart_drain i f out))" for f
  proof -
    obtain n where "node_does X E (replicate n Poll) (?nd, r) = Some ([], ?nd\<lparr>nd_outbound := fst (snd (snd (uart_drain i f out)))\<rparr>, r)"
      "f = None \<longrightarrow> taken X E i (replicate n Poll) (?nd, r) = fst (uart_drain i f out)"
      using Cons(1) [of ?nd f] by auto
    then show ?thesis using p t by (intro exI [of _ "Suc n"]) simp
  qed
  have one: "\<exists>n. node_does X E (replicate n Poll) (nd, r) = Some ([], nd\<lparr>nd_outbound := out\<rparr>, r)"
    using p by (intro exI [of _ 1]) simp
  consider "j \<noteq> i" | "j = i" "fails = None" | k where "j = i" "fails = Some (0, k)" | m k where "j = i" "fails = Some (Suc m, k)"
    by (metis not0_implies_Suc option.exhaust surj_pair)
  then show ?case
  proof cases
    case 1
    then show ?thesis unfolding o using more [of fails] by simp
  next
    case 2
    then show ?thesis unfolding o using more [of None] by (simp add: case_prod_beta)
  next
    case 3
    then show ?thesis unfolding o using one by simp
  next
    case 4
    then show ?thesis unfolding o using more [of "Some (m, k)"] by (simp add: case_prod_beta)
  qed
qed

lemma pump_does:
  "pump_inbound X E r d i bs nd = (evs, nd', d', r') \<Longrightarrow>
     node_does X E (map (\<lambda>p. Receive p i True) (fst (kiss_feed bs d))) (nd, r) = Some (evs, nd', r') \<and> d' = snd (kiss_feed bs d)"
proof (induction X E r d i bs nd arbitrary: evs nd' d' r' rule: pump_inbound.induct)
  case (2 X E r d i b bs nd evs)
  obtain whole d1 where k: "kiss_push b d = (whole, d1)" by fastforce
  show ?case
  proof (cases whole)
    case None
    then show ?thesis using 2 k by (simp add: case_prod_beta)
  next
    case (Some packet)
    obtain e1 nd1 r1 where h: "handle_inbound_with_entropy X E packet i r nd = (e1, nd1, r1)" by (metis prod_cases3)
    obtain e2 nd2 d2 r2 where q: "pump_inbound X E r1 d1 i bs nd1 = (e2, nd2, d2, r2)" by (metis prod_cases4)
    have "evs = e1 @ e2" "(nd', d', r') = (nd2, d2, r2)" using 2(3) k Some h q by simp_all
    then show ?thesis using 2(2) [OF k [symmetric] Some h [symmetric] HOL.refl q] k Some h by (simp add: case_prod_beta)
  qed
qed simp

text \<open>One round: what it reads and writes, and what it does to the node.\<close>

definition read_of :: "uart_turn \<Rightarrow> bytes" where
  "read_of turn = (case fst turn of UartRead bs \<Rightarrow> bs | _ \<Rightarrow> [])"

lemma uart_round_does:
  assumes "uart_round X E i turn (nd, d, r) = (e, evs, sent, part, nd', d', r')"
  shows "\<exists>ops. node_does X E ops (nd, r) = Some (evs, nd', r') \<and> (\<forall>op \<in> set ops. uart_op i op) \<and>
    given i ops = fst (kiss_feed (read_of turn) d) \<and> d' = snd (kiss_feed (read_of turn) d) \<and> (e = None \<longrightarrow> part = []) \<and>
    (good_turn turn \<longrightarrow> sent = taken X E i ops (nd, r) \<and> nd_outbound nd' = [])"
proof -
  obtain input fails flushed where t: "turn = (input, fails, flushed)" by (metis prod_cases3)
  have drained: "uart_drain i f q = (s, p, rest, True) \<Longrightarrow> p = []" for f q s p rest
    by (induction i f q arbitrary: s rule: uart_drain.induct) (auto split: if_splits option.splits nat.splits prod.splits)
  have finish: "\<exists>ops. node_does X E ops (nd, r) = Some (evs, nd', r') \<and> (\<forall>op \<in> set ops. uart_op i op) \<and> given i ops = given i ops1 \<and>
      d' = d1 \<and> (e = None \<longrightarrow> part = []) \<and> (good_turn turn \<longrightarrow> sent = taken X E i ops (nd, r) \<and> nd_outbound nd' = [])"
    if "node_does X E ops1 (nd, r) = Some (evs1, nd1, r1)" "\<forall>op \<in> set ops1. uart_op i op \<and> op \<noteq> Poll"
      "(case uart_drain i fails (nd_outbound nd1) of (sent, part, rest, ok) \<Rightarrow>
         (if ok \<and> flushed then None else Some UartIo, evs1, sent, part, nd1\<lparr>nd_outbound := rest\<rparr>, d1, r1)) = (e, evs, sent, part, nd', d', r')"
    for ops1 evs1 nd1 d1 r1
  proof -
    obtain s p rest ok where u: "uart_drain i fails (nd_outbound nd1) = (s, p, rest, ok)" by (metis prod_cases4)
    obtain n where n: "node_does X E (replicate n Poll) (nd1, r1) = Some ([], nd1\<lparr>nd_outbound := rest\<rparr>, r1)"
      "fails = None \<longrightarrow> taken X E i (replicate n Poll) (nd1, r1) = s"
      using polls [of X E nd1 r1 i fails] unfolding u by auto
    have "Poll \<notin> set ops1" using that(2) by blast
    then have "taken X E i (ops1 @ replicate n Poll) (nd, r) = taken X E i (replicate n Poll) (nd1, r1)"
      by (simp add: taken_append [OF that(1)] taken_none)
    moreover have "good_turn turn \<Longrightarrow> fails = None \<and> rest = []" using t u by (auto simp: good_turn_def uart_drain_all)
    moreover have "given i (replicate n Poll) = []" by (induction n) simp_all
    ultimately show ?thesis using node_does_trans [OF that(1) n(1)] n(2) that(2,3) u drained
      by (intro exI [of _ "ops1 @ replicate n Poll"]) (auto simp: uart_op_def split: if_splits)
  qed
  show ?thesis
  proof (cases "input = UartError \<or> input = UartRead []")
    case True
    then show ?thesis using assms t by (intro exI [of _ "[]"]) (auto simp: uart_round_def read_of_def good_turn_def)
  next
    case False
    then consider bs where "input = UartRead bs" "bs \<noteq> []" | "input = UartTimer" by (cases input) auto
    then show ?thesis
    proof cases
      case 1
      obtain evs1 nd1 d1 r1 where p: "pump_inbound X E r d i bs nd = (evs1, nd1, d1, r1)" by (metis prod_cases4)
      note q = pump_does [OF p]
      have "given i (map (\<lambda>p. Receive p i True) ps) = ps" for ps by (induction ps) simp_all
      then show ?thesis using finish [OF conjunct1 [OF q], of d1] q 1 assms t p by (auto simp: uart_round_def uart_op_def read_of_def)
    next
      case 2
      obtain evs1 nd1 r1 where p: "tick_with_entropy X E r nd = (evs1, nd1, r1)" by (metis prod_cases3)
      then have "node_does X E [Tick True] (nd, r) = Some (evs1, nd1, r1)" by simp
      from finish [OF this, of d] 2 assms t p show ?thesis by (auto simp: uart_round_def uart_op_def read_of_def)
    qed
  qed
qed

lemma good_round_goes_on: "good_turn turn \<Longrightarrow> fst (uart_round X E i turn s) = None"
  by (cases s) (auto simp: good_turn_def uart_round_def uart_drain_all split: uart_input.split prod.split)

text \<open>The loop, as long as no read fails.\<close>

definition reads_of :: "uart_turn list \<Rightarrow> bytes" where
  "reads_of turns = concat (map read_of turns)"

lemma uart_loop_does:
  assumes "uart_loop X E i turns (nd, d, r) = (e, evs, sent, part, nd', d', r')"
  shows "\<exists>ops. node_does X E ops (nd, r) = Some (evs, nd', r') \<and> (\<forall>op \<in> set ops. uart_op i op) \<and>
    (e = None \<longrightarrow> given i ops = fst (kiss_feed (reads_of turns) d) \<and> part = []) \<and>
    ((\<forall>turn \<in> set turns. good_turn turn) \<longrightarrow> sent = taken X E i ops (nd, r) \<and> (turns \<noteq> [] \<longrightarrow> nd_outbound nd' = []))"
  using assms
proof (induction turns arbitrary: nd d r evs sent)
  case Nil
  then show ?case by (intro exI [of _ "[]"]) (simp add: reads_of_def taken_def)
next
  case (Cons turn turns)
  obtain e1 evs1 sent1 part1 nd1 d1 r1 where u: "uart_round X E i turn (nd, d, r) = (e1, evs1, sent1, part1, nd1, d1, r1)"
    by (metis prod_cases7)
  obtain ops1 where ops1: "node_does X E ops1 (nd, r) = Some (evs1, nd1, r1)" "\<forall>op \<in> set ops1. uart_op i op"
    "given i ops1 = fst (kiss_feed (read_of turn) d)" "d1 = snd (kiss_feed (read_of turn) d)"
    "good_turn turn \<longrightarrow> sent1 = taken X E i ops1 (nd, r) \<and> nd_outbound nd1 = []"
    using uart_round_does [OF u] by blast
  show ?case
  proof (cases e1)
    case None
    obtain e2 evs2 sent2 part2 s2 where l: "uart_loop X E i turns (nd1, d1, r1) = (e2, evs2, sent2, part2, s2)" by (metis prod_cases5)
    have "e = e2" "evs = evs1 @ evs2" "sent = sent1 @ sent2" "part = part2" "s2 = (nd', d', r')"
      using Cons.prems u None l by simp_all
    moreover obtain ops2 where ops2: "node_does X E ops2 (nd1, r1) = Some (evs2, nd', r')" "\<forall>op \<in> set ops2. uart_op i op"
      "e2 = None \<longrightarrow> given i ops2 = fst (kiss_feed (reads_of turns) d1) \<and> part2 = []"
      "(\<forall>turn \<in> set turns. good_turn turn) \<longrightarrow> sent2 = taken X E i ops2 (nd1, r1) \<and> (turns \<noteq> [] \<longrightarrow> nd_outbound nd' = [])"
      using Cons.IH [of nd1 d1 r1 evs2 sent2] l calculation by blast
    moreover have "turns = [] \<Longrightarrow> nd' = nd1" using l calculation(5) by simp
    ultimately show ?thesis using ops1 node_does_trans [OF ops1(1) ops2(1)] taken_append [OF ops1(1), of i ops2]
      by (intro exI [of _ "ops1 @ ops2"]) (auto simp: reads_of_def kiss_feed_append)
  next
    case (Some x)
    moreover have "\<not> good_turn turn"
    proof
      assume "good_turn turn"
      then have "fst (uart_round X E i turn (nd, d, r)) = None" by (rule good_round_goes_on)
      then show False using u Some by simp
    qed
    ultimately show ?thesis using Cons.prems u ops1 by (intro exI [of _ ops1]) auto
  qed
qed

text \<open>Without failures the loop goes on.\<close>

lemma uart_loop_goes_on: "\<forall>turn \<in> set turns. good_turn turn \<Longrightarrow> fst (uart_loop X E i turns s) = None"
proof (induction turns arbitrary: s)
  case (Cons turn turns)
  have "fst (uart_round X E i turn s) = None" using Cons.prems by (intro good_round_goes_on) simp
  moreover have "fst (uart_loop X E i turns s) = None" for s using Cons by simp
  ultimately show ?case by (auto split: prod.split option.split) (metis fst_conv option.distinct(1))+
qed simp

lemma uart_decoder_bound:
  assumes "uart_loop X E i turns (nd, d, r) = (e, evs, sent, part, nd', d', r')" and "length (kd_packet d) \<le> kd_max_packet_len d"
  shows "length (kd_packet d') \<le> kd_max_packet_len d"
  using assms
proof (induction turns arbitrary: nd d r evs sent)
  case (Cons turn turns)
  obtain e1 evs1 sent1 part1 nd1 d1 r1 where u: "uart_round X E i turn (nd, d, r) = (e1, evs1, sent1, part1, nd1, d1, r1)"
    by (metis prod_cases7)
  have d1: "length (kd_packet d1) \<le> kd_max_packet_len d1" "kd_max_packet_len d1 = kd_max_packet_len d"
    using uart_round_does [OF u] kiss_feed_bound [OF Cons.prems(2), of "read_of turn"] by auto
  show ?case
  proof (cases e1)
    case None
    obtain e2 evs2 sent2 part2 s2 where "uart_loop X E i turns (nd1, d1, r1) = (e2, evs2, sent2, part2, s2)" by (metis prod_cases5)
    then show ?thesis using Cons.IH [of nd1 d1 r1 evs2 sent2] Cons.prems(1) u None d1 by simp
  next
    case (Some x)
    then show ?thesis using Cons.prems u d1 by simp
  qed
qed simp

end
