(* ===== verification/Interface_Properties.thy ===== *)
theory Interface_Properties
  imports Interfaces Uart Toy_Ext
begin

text \<open>
  The properties of the interfaces as the driver sees them: through their tasks, over every transport, with
  or without an access code.
\<close>

text \<open>C14: Two interfaces of a kind (TCP, UDP, peer discovery, serial) that have sent nothing yet, both with the
  same access code or both without, deliver: when the task at one end takes packets from its driver's queue
  and goes on, the task at the other end, over whatever its medium made of what was written (any cut of a
  stream into reads), hands its driver exactly these packets, in order, under its own id. With a code, of 1
  to 64 bytes, the packets are of at least 3 bytes, at most 8160 with their code, and have the access flag
  of their first byte clear; without, they are not empty and their frame fits the 512 KiB buffer of a TCP
  client with one more read. And whatever the medium brings, the packets a sealed interface hands on are
  exactly those of its transport that carry the code of the key, unsealed, in order.\<close>

theorem interface_delivers:
  assumes "idle_iface a" and "\<forall>p \<in> set (map snd ops). sendable X ifac p"
    and "task_run X (map (\<lambda>(os, p). (os, True, FromQueue (Some p))) ops) (wrap_ifac a ifac) = (inb, True, wrapped)"
  shows "inb = [] \<and> (\<exists>a'. wrapped = wrap_ifac a' ifac \<and> (\<forall>b os. medium_carries a' b \<longrightarrow>
       fst (task_run X (replicate (length ops) (os, True, FromMedium)) (wrap_ifac b ifac)) = map (Packet (iface_id b)) (map snd ops))) \<and>
    (\<forall>b os c. fst (task_run X (replicate (length (iface_recvs X (with_ifac b c))) (os, True, FromMedium)) (with_ifac b c)) =
       map (Packet (iface_id b)) (List.map_filter (\<lambda>w. res_ok (ifac_strip_with_size X w (ic_key c) (ic_size c))) (iface_recvs X b)))"
proof -
  have s: "inb = []" "send_all (iface_send X) ops (wrap_ifac a ifac) = (Inr (), wrapped)"
    using assms(3) sending_rounds [of X True ops "wrap_ifac a ifac"] by (auto split: prod.splits sum.splits)
  obtain a' where a': "wrapped = wrap_ifac a' ifac" "\<And>b. medium_carries a' b \<Longrightarrow> iface_recvs X (wrap_ifac b ifac) = map snd ops"
    using wrapped_delivers [OF assms(1) s(2) assms(2)] by blast
  have i: "iface_id (wrap_ifac b ifac) = iface_id b" for b by (simp add: wrap_ifac_def with_ifac_def split: option.split)
  have "fst (task_run X (replicate (length ops) (os, True, FromMedium)) (wrap_ifac b ifac)) = map (Packet (iface_id b)) (map snd ops)"
    if "medium_carries a' b" for b os
    using receiving_rounds [of X "wrap_ifac b ifac" os] a'(2) [OF that] i [of b] by simp
  moreover have "fst (task_run X (replicate (length (iface_recvs X (with_ifac b c))) (os, True, FromMedium)) (with_ifac b c)) =
      map (Packet (iface_id b)) (List.map_filter (\<lambda>w. res_ok (ifac_strip_with_size X w (ic_key c) (ic_size c))) (iface_recvs X b))" for b os c
    using receiving_rounds [of X "with_ifac b c" os] by (simp add: with_ifac_def iface_recvs_sealed sealed_recvs_def)
  ultimately show ?thesis using s(1) a'(1) by blast
qed

text \<open>Two packets over a sealed TCP connection, the second end reading single bytes.\<close>

definition demo_os :: os where
  "demo_os = \<lparr>os_write = None, os_send_to = (\<lambda>raw _. Inr (length raw))\<rparr>"

definition demo_ifac :: ifac_config where
  "demo_ifac = \<lparr>ic_key = replicate 64 7, ic_size = 16\<rparr>"

definition byte_reads :: "iface \<Rightarrow> iface" where
  "byte_reads i = (case i of
     TcpClientInterface c \<Rightarrow> TcpClientInterface (tcp_with_id 5 (tcp_from_stream (map (\<lambda>b. Inr [b]) (tc_written c))))
   | _ \<Rightarrow> i)"

lemma concat_singletons: "concat (map (\<lambda>b. [b]) bs) = bs"
  by (induction bs) auto

theorem interface_delivers_witness:
  "\<exists>a'. fst (task_run toy_ext (replicate 2 (demo_os, True, FromMedium)) (wrap_ifac (byte_reads a') (Some demo_ifac))) =
     [Packet 5 [8, 0, 1], Packet 5 [8, 0, 0x7E, 2]]"
proof -
  let ?a = "TcpClientInterface (tcp_from_stream [])"
  let ?ops = "[(demo_os, [8, 0, 1]), (demo_os, [8, 0, 0x7E, 2])] :: (os \<times> bytes) list"
  have ok: "sealable toy_ext demo_ifac p" if "p = [8, 0, 1] \<or> p = [8, 0, 0x7E, 2]" for p
    using that toy_ok by (auto simp: sealable_def demo_ifac_def IFAC_FLAG_def)
  have tcp: "\<exists>c'. iface_send toy_ext demo_os p (wrap_ifac (TcpClientInterface c) (Some demo_ifac)) =
      (Inr (), wrap_ifac (TcpClientInterface c') (Some demo_ifac))" if "sealable toy_ext demo_ifac p" for p c
    using that ifac_strip_apply [of toy_ext "ic_key demo_ifac" "ic_size demo_ifac" p]
    by (auto simp: sealable_def wrap_ifac_def with_ifac_def tcp_send_packet_def write_all_def demo_os_def)
  obtain c1 where c1: "iface_send toy_ext demo_os [8, 0, 1] (wrap_ifac ?a (Some demo_ifac)) = (Inr (), wrap_ifac (TcpClientInterface c1) (Some demo_ifac))"
    using tcp [OF ok] by blast
  obtain c2 where c2: "iface_send toy_ext demo_os [8, 0, 0x7E, 2] (wrap_ifac (TcpClientInterface c1) (Some demo_ifac)) =
      (Inr (), wrap_ifac (TcpClientInterface c2) (Some demo_ifac))" using tcp [OF ok] by blast
  have run: "task_run toy_ext (map (\<lambda>(os, p). (os, True, FromQueue (Some p))) ?ops) (wrap_ifac ?a (Some demo_ifac)) =
      ([], True, wrap_ifac (TcpClientInterface c2) (Some demo_ifac))"
    unfolding sending_rounds using c1 c2 by simp
  have "idle_iface ?a" by (simp add: idle_iface_def tcp_from_stream_def)
  moreover have "\<forall>p \<in> set (map snd ?ops). sendable toy_ext (Some demo_ifac) p" using ok by (simp add: sendable_def)
  ultimately obtain a' where a': "wrap_ifac (TcpClientInterface c2) (Some demo_ifac) = wrap_ifac a' (Some demo_ifac)"
    "\<forall>b os. medium_carries a' b \<longrightarrow> fst (task_run toy_ext (replicate (length ?ops) (os, True, FromMedium)) (wrap_ifac b (Some demo_ifac))) =
       map (Packet (iface_id b)) (map snd ?ops)"
    using interface_delivers [OF _ _ run] by blast
  then have "a' = TcpClientInterface c2" by (simp add: wrap_ifac_def with_ifac_def)
  moreover have "tcp_carries c2 (tcp_with_id 5 (tcp_from_stream (map (\<lambda>b. Inr [b]) (tc_written c2))))"
    by (auto simp: tcp_carries_def tcp_with_id_def tcp_from_stream_def chunked_def READ_CHUNK_def concat_singletons
        intro!: exI [of _ "map (\<lambda>b. [b]) (tc_written c2)"])
  ultimately have m: "medium_carries a' (byte_reads a')" by (simp add: byte_reads_def)
  have "iface_id (byte_reads a') = 5" using \<open>a' = TcpClientInterface c2\<close> by (simp add: byte_reads_def tcp_with_id_def)
  then show ?thesis using a'(2) m by (intro exI [of _ a']) (simp add: numeral_2_eq_2)
qed





end
