(* ===== verification/Node_Transfer.thy ===== *)
theory Node_Transfer
  imports Node_Exchange Streams
begin

text \<open>
  A resource transfer between two nodes. Resource_Transfer has the two state machines; here the packets that carry
  their requests and answers are queued by one node and received by the other: what the sender's node does with
  a request, what the receiver's node does with the packets it waits for (\<open>turn\<close>), and the rounds in which two
  nodes on a line hand over to each other all they have queued (\<open>talk\<close>), shown to end with the
  payload delivered and proved.
\<close>

section \<open>Packets of a link\<close>

lemma link_packet_received:
  assumes "node_ok nd" "length lid = 16" "unseen X (packet_encode (link_context lid c d)) nd"
    and "n = noted (packet_hash X (link_context lid c d)) nd"
  shows "handle_inbound_inner X E (packet_encode (link_context lid c d)) i rng nd =
    handle_link_data X E ((link_context lid c d)\<lparr>hops := 1\<rparr>) lid i rng n"
proof -
  have q: "link_context lid c d = new_header1 LINK DATA lid c d" by (simp add: link_context_def link_data_with_context_def)
  have "handle_inbound_inner X E (packet_encode (link_context lid c d)) i rng nd =
      dispatch X E ((new_header1 LINK DATA lid c d)\<lparr>hops := 1\<rparr>) i rng n"
    unfolding q by (rule trans [OF inbound_fresh]) (use assms q in \<open>simp_all add: dest_types packet_types\<close>)
  then show ?thesis using assms(2) by (simp add: q dispatch_def try_array_def packet_types dest_types)
qed

lemma sealed_received:
  assumes X: "cipher_ok X" and iv: "length iv = 16" and ok: "node_ok nd" and lid: "length lid = 16"
    and live: "live_link lid i key nd" and c: "c \<in> {RESOURCE_ADV, RESOURCE_REQ, RESOURCE_HMU}"
    and u: "unseen X (packet_encode (link_context lid c (seal_with_key X key pt iv))) nd"
  shows "handle_inbound_with_entropy X E (packet_encode (link_context lid c (seal_with_key X key pt iv))) i r nd =
    handle_resource_context X E lid i key c pt r
      (touch_link lid (noted (packet_hash X (link_context lid c (seal_with_key X key pt iv))) nd))"
proof -
  let ?n = "noted (packet_hash X (link_context lid c (seal_with_key X key pt iv))) nd"
  obtain l where l: "links_get lid (nd_links nd) = Some l" "le_status l = Active" "le_interface l = i" "le_derived_key l = Some key"
    using live by (auto simp: live_link_def)
  have "handle_link_data X E ((link_context lid c (seal_with_key X key pt iv))\<lparr>hops := 1\<rparr>) lid i (Some r) ?n =
    (let (evs, nd, r) = handle_resource_context X E lid i key c pt r (touch_link lid ?n) in (evs, nd, Some r))"
    using c X iv l by (auto simp: handle_link_data_def link_context_def link_data_with_context_def contexts Let_def)
  then show ?thesis
    using link_packet_received [OF ok lid u HOL.refl, of E i "Some r"]
    by (simp add: handle_inbound_with_entropy_def split: prod.splits)
qed

lemma part_received:
  assumes ok: "node_ok nd" and lid: "length lid = 16" and live: "live_link lid i key nd"
    and u: "unseen X (packet_encode (link_context lid RESOURCE p)) nd"
    and n: "n = noted (packet_hash X (link_context lid RESOURCE p)) nd"
  shows "handle_inbound_with_entropy X E (packet_encode (link_context lid RESOURCE p)) i r nd =
    (let (evs, nd, rng) = handle_resource_part X E lid i key p (Some r) n in (evs, nd, case rng of Some r \<Rightarrow> r | None \<Rightarrow> r))"
proof -
  obtain l where l: "links_get lid (nd_links nd) = Some l" "le_status l = Active" "le_interface l = i" "le_derived_key l = Some key"
    using live by (auto simp: live_link_def)
  then have "handle_link_data X E ((link_context lid RESOURCE p)\<lparr>hops := 1\<rparr>) lid i (Some r) n =
      handle_resource_part X E lid i key p (Some r) n"
    by (simp add: handle_link_data_def link_context_def link_data_with_context_def n)
  then show ?thesis
    using link_packet_received [OF ok lid u n, of E i "Some r"] by (simp add: handle_inbound_with_entropy_def)
qed

lemma unseen_drained [simp]: "unseen X bs (nd\<lparr>nd_outbound := q\<rparr>) = unseen X bs nd"
  by (simp add: unseen_def split: sum.split)

lemma seen_grows:
  assumes "packet_ok p" "hops p < PATHFINDER_MAX_HOPS" "node_ok nd" "unseen X (packet_encode p) nd"
    and "handle_inbound_with_entropy X E (packet_encode p) i r nd = (evs, nd', r')"
    and "bt_contains h (nd_seen_packets nd')"
  shows "h = packet_hash X p \<or> bt_contains h (nd_seen_packets nd)"
proof -
  let ?n = "noted (packet_hash X p) nd"
  have "handle_inbound_inner X E (packet_encode p) i (Some r) nd = dispatch X E (p\<lparr>hops := sat_add (hops p) 1\<rparr>) i (Some r) ?n"
    by (rule inbound_encoded [OF assms(1-4)])
  then have "nd_seen_packets nd' = nd_seen_packets ?n"
    using assms(5) keeps_seen [OF keeps_dispatch [OF keeps_refl]]
    by (metis (no_types, lifting) case_prod_conv fst_conv handle_inbound_with_entropy_def prod.collapse snd_conv)
  then have "h = packet_hash X p \<or> bt_contains h (nd_seen_packets (maybe_prune (nd_clock nd) nd))"
    using assms(6) by (auto simp: noted_def bt_contains_def bt_simps split: if_splits)
  then show ?thesis using unseen_prune [OF node_okD(5) [OF assms(3)]] by blast
qed

section \<open>Links and queues\<close>

lemma live_link_noted [simp]: "live_link lid i key (noted h nd) = live_link lid i key nd"
  by (simp add: live_link_def)

lemma live_link_touched [simp]: "live_link lid i key (touch_link l nd) = live_link lid i key nd"
  by (auto simp: live_link_def touch_link_def)

lemma live_link_fields [simp]:
  "live_link lid i key (nd\<lparr>nd_outbound := q\<rparr>) = live_link lid i key nd"
  "live_link lid i key (nd\<lparr>nd_inbound_resources := ir\<rparr>) = live_link lid i key nd"
  "live_link lid i key (nd\<lparr>nd_outbound_resources := res\<rparr>) = live_link lid i key nd"
  "live_link lid i key (push_out k b nd) = live_link lid i key nd"
  by (simp_all add: live_link_def)

lemma touch_link_simps [simp]:
  "nd_outbound (touch_link l nd) = nd_outbound nd" "nd_clock (touch_link l nd) = nd_clock nd"
  "nd_inbound_resources (touch_link l nd) = nd_inbound_resources nd"
  "nd_outbound_resources (touch_link l nd) = nd_outbound_resources nd"
  by (simp_all add: touch_link_def)

lemma inbound_with_entropy_ok:
  assumes "hkdf_ok X" "node_ok nd" "handle_inbound_with_entropy X E bs i r nd = (evs, nd', r')"
  shows "node_ok nd'"
  using node_ok_inbound_inner [OF assms(1,2), of E bs i "Some r"] assms(3)
  by (simp add: handle_inbound_with_entropy_def split: prod.splits)

section \<open>The two ends at the two nodes\<close>

definition sending :: "bytes \<Rightarrow> u16 \<Rightarrow> bytes \<Rightarrow> outbound_resource \<Rightarrow> node \<Rightarrow> bool" where
  "sending lid i key ob a \<longleftrightarrow> live_link lid i key a \<and>
     (\<exists>t. bt_get (lid, ob_hash ob) (nd_outbound_resources a) = Some (ob\<lparr>ob_last_activity := t\<rparr>))"

definition receiving :: "ext \<Rightarrow> bytes \<Rightarrow> u16 \<Rightarrow> bytes \<Rightarrow> bytes \<Rightarrow> outbound_resource \<Rightarrow> nat \<Rightarrow> inbound_resource \<Rightarrow> node \<Rightarrow> bool" where
  "receiving X lid j key d ob k ib b \<longleftrightarrow> live_link lid j key b \<and>
     bt_get (lid, ob_hash ob) (nd_inbound_resources b) = Some ib \<and>
     (\<forall>h. h \<noteq> ob_hash ob \<longrightarrow> bt_get (lid, h) (nd_inbound_resources b) = None) \<and>
     paired X ob k ib \<and> ib_retries ib = 0 \<and> ib_total_size ib = ob_total_size ob \<and>
     ib_compressed ib = snd (compress_if_useful X d)"

text \<open>What the receiver waits for, and the packets that bring it.\<close>

definition awaits :: "ext \<Rightarrow> outbound_resource \<Rightarrow> nat \<Rightarrow> inbound_resource \<Rightarrow> resource_output list \<Rightarrow> bool" where
  "awaits X ob k ib outs \<longleftrightarrow>
     (\<exists>is. is \<noteq> [] \<and> distinct is \<and> (\<forall>x \<in> set is. x < k \<and> ib_parts ib ! x = None) \<and>
        ib_outstanding ib = map (part_hash X ob) is \<and> \<not> ib_waiting_for_hmu ib \<and>
        outs = map (\<lambda>x. Part (ob_parts ob ! x)) is) \<or>
     0 < k \<and> k mod HASHMAP_MAX_LEN = 0 \<and> k < length (ob_parts ob) \<and> ib_outstanding ib = [] \<and>
       outs = [HashmapUpdate (pack_hashmap_update X (ob_hash ob) (word_of_nat (k div HASHMAP_MAX_LEN))
         (concat (map (part_hash X ob) [k ..< min (k + HASHMAP_MAX_LEN) (length (ob_parts ob))])))]"

definition answer_packet :: "ext \<Rightarrow> bytes \<Rightarrow> bytes \<Rightarrow> resource_output \<Rightarrow> bytes \<Rightarrow> bool" where
  "answer_packet X lid key out p \<longleftrightarrow> (case out of
     Part part \<Rightarrow> p = packet_encode (link_context lid RESOURCE part)
   | HashmapUpdate u \<Rightarrow> \<exists>iv. length iv = 16 \<and> p = packet_encode (link_context lid RESOURCE_HMU (seal_with_key X key u iv)))"

definition answered_by :: "ext \<Rightarrow> bytes \<Rightarrow> outbound_resource \<Rightarrow> resource_output list \<Rightarrow> bool" where
  "answered_by X req ob outs \<longleftrightarrow>
     (if req \<noteq> [] \<and> hd req = 0xFF then array_at 5 37 req else array_at 1 33 req) = Some (ob_hash ob) \<and>
     (\<forall>t u. on_request X req t (ob\<lparr>ob_last_activity := u\<rparr>) = (outs, ob\<lparr>ob_last_activity := t\<rparr>))"

text \<open>The receiver has asked; the sender has answered; the receiver has everything and has proved it.\<close>

definition asks :: "ext \<Rightarrow> bytes \<Rightarrow> u16 \<Rightarrow> bytes \<Rightarrow> bytes \<Rightarrow> outbound_resource \<Rightarrow> inbound_resource \<Rightarrow> node \<Rightarrow> bool" where
  "asks X lid j key d ob ib b \<longleftrightarrow> (\<exists>k req outs iv. receiving X lid j key d ob k ib b \<and> awaits X ob k ib outs \<and>
     answered_by X req ob outs \<and> length iv = 16 \<and>
     nd_outbound b = [(j, packet_encode (link_context lid RESOURCE_REQ (seal_with_key X key req iv)))])"

definition proves :: "ext \<Rightarrow> bytes \<Rightarrow> u16 \<Rightarrow> outbound_resource \<Rightarrow> node \<Rightarrow> bool" where
  "proves X lid j ob b \<longleftrightarrow> bt_get (lid, ob_hash ob) (nd_inbound_resources b) = None \<and>
     nd_outbound b = [(j, packet_encode (packet_proof lid (ob_hash ob @ ob_expected_proof ob) RESOURCE_PRF))]"

definition carries :: "ext \<Rightarrow> bytes \<Rightarrow> bytes \<Rightarrow> outbound_resource \<Rightarrow> bool" where
  "carries X key d ob \<longleftrightarrow> crypto_ok X \<and> rmp_ok X \<and> ob_ok X ob \<and> \<not> ob_completed ob \<and>
     ob_expected_proof ob = resource_proof X d (ob_hash ob) \<and>
     (\<forall>k ib. paired X ob k ib \<and> is_complete ib \<and> ib_total_size ib = ob_total_size ob \<and>
        ib_compressed ib = snd (compress_if_useful X d) \<longrightarrow> finalize X key ib = Inr d)"

text \<open>The receiver asks when it waits for nothing.\<close>

lemma asking:
  assumes ob: "ob_ok X ob" and p: "paired X ob k ib" and nc: "\<not> is_complete ib"
    and w: "ib_outstanding ib = []" "\<not> ib_waiting_for_hmu ib"
  obtains req ib' outs where "next_request now ib = (Some req, ib')" and "paired X ob k ib'"
    and "awaits X ob k ib' outs" and "answered_by X req ob outs" and "ib_retries ib' = ib_retries ib"
    and "ib_total_size ib' = ib_total_size ib" and "ib_compressed ib' = ib_compressed ib" and "todo ib' = todo ib"
  using ob p nc
proof (cases rule: request_cases)
  case map
  have h: "length (ob_hash ob) = 32" using ob by (simp add: ob_ok_def)
  show ?thesis
  proof (rule that [OF map(4)])
    show "answered_by X ([HASHMAP_IS_EXHAUSTED] @ part_hash X ob (k - 1) @ ob_hash ob) ob
       [HashmapUpdate (pack_hashmap_update X (ob_hash ob) (word_of_nat (k div HASHMAP_MAX_LEN))
         (concat (List.map (part_hash X ob) [k ..< min (k + HASHMAP_MAX_LEN) (length (ob_parts ob))])))]"
      unfolding answered_by_def using on_request_activity [OF map(5)] h
      by (simp add: transfer_consts array_at_def get_range_def sub_def try_array_def del: One_nat_def)
  qed (use p map w in \<open>simp_all add: paired_def awaits_def todo_def\<close>)
next
  case (parts "is")
  have h: "length (ob_hash ob) = 32" using ob by (simp add: ob_ok_def)
  show ?thesis
  proof (rule that [OF parts(4)])
    show "answered_by X ([HASHMAP_IS_NOT_EXHAUSTED] @ ob_hash ob @ concat (map (part_hash X ob) is)) ob
        (map (\<lambda>x. Part (ob_parts ob ! x)) is)"
      unfolding answered_by_def using on_request_activity [OF parts(5)] h parts(1)
      by (simp add: transfer_consts array_at_def get_range_def sub_def try_array_def)
  qed (use p parts w in \<open>auto simp: paired_def awaits_def todo_def\<close>)
qed

section \<open>The sender's turn\<close>

lemma answers_queued:
  assumes "entropy_ok E"
  shows "\<exists>ps r'. fold (resource_answer X E lid i key) outs (nd, r) = (nd\<lparr>nd_outbound := nd_outbound nd @ map (Pair i) ps\<rparr>, r') \<and>
    list_all2 (answer_packet X lid key) outs ps"
proof (induction outs arbitrary: nd r)
  case Nil
  then show ?case by (intro exI [of _ "[]"]) simp
next
  case (Cons out outs)
  have "\<exists>p r1. resource_answer X E lid i key out (nd, r) = (push_out i p nd, r1) \<and> answer_packet X lid key out p"
  proof (cases out)
    case (HashmapUpdate u)
    obtain iv r1 where iv: "E r 16 = (iv, r1)" by fastforce
    have "length iv = 16" by (rule entropy_filled [OF assms iv])
    then show ?thesis using HashmapUpdate iv
      by (auto simp: resource_answer_def enqueue_encrypted_link_context_def answer_packet_def)
  qed (simp add: resource_answer_def answer_packet_def)
  then obtain p r1 where p: "resource_answer X E lid i key out (nd, r) = (push_out i p nd, r1)" "answer_packet X lid key out p"
    by blast
  obtain ps r' where ps: "fold (resource_answer X E lid i key) outs (push_out i p nd, r1) =
      (push_out i p nd\<lparr>nd_outbound := nd_outbound (push_out i p nd) @ map (Pair i) ps\<rparr>, r')"
      "list_all2 (answer_packet X lid key) outs ps"
    using Cons.IH by blast
  show ?case
    by (rule exI [of _ "p # ps"], rule exI [of _ r']) (use p ps in \<open>simp add: push_out_def\<close>)
qed

lemma sender_answers:
  assumes c: "carries X key d ob" and E: "entropy_ok E" and lid: "length lid = 16" and ok: "node_ok a" and s: "sending lid i key ob a"
    and q: "nd_outbound a = []" and req: "answered_by X req ob outs" and iv: "length iv = 16"
    and u: "unseen X (packet_encode (link_context lid RESOURCE_REQ (seal_with_key X key req iv))) a"
    and h: "handle_inbound_with_entropy X E (packet_encode (link_context lid RESOURCE_REQ (seal_with_key X key req iv))) i r a = (evs, a', r')"
  shows "evs = []" and "sending lid i key ob a'"
    and "\<exists>ps. nd_outbound a' = map (Pair i) ps \<and> list_all2 (answer_packet X lid key) outs ps"
proof -
  note X = crypto_okD [of X]
  have co: "crypto_ok X" using c by (simp add: carries_def)
  obtain t where a: "live_link lid i key a"
    "bt_get (lid, ob_hash ob) (nd_outbound_resources a) = Some (ob\<lparr>ob_last_activity := t\<rparr>)"
    using s by (auto simp: sending_def)
  let ?n = "touch_link lid (noted (packet_hash X (link_context lid RESOURCE_REQ (seal_with_key X key req iv))) a)"
  let ?ob = "ob\<lparr>ob_last_activity := nd_clock a\<rparr>"
  let ?m = "?n\<lparr>nd_outbound_resources := bt_insert (lid, ob_hash ob) ?ob (nd_outbound_resources a)\<rparr>"
  obtain ps r1 where ps: "fold (resource_answer X E lid i key) outs (?m, r) = (?m\<lparr>nd_outbound := nd_outbound ?m @ map (Pair i) ps\<rparr>, r1)"
    "list_all2 (answer_packet X lid key) outs ps"
    using answers_queued [OF E] by blast
  have "handle_resource_context X E lid i key RESOURCE_REQ req r ?n = ([], ?m\<lparr>nd_outbound := map (Pair i) ps\<rparr>, r1)"
    using req a(2) ps(1) q
    by (simp add: handle_resource_context_def contexts answered_by_def del: if_split)
  then have e: "(evs, a', r') = ([], ?m\<lparr>nd_outbound := map (Pair i) ps\<rparr>, r1)"
    using h sealed_received [OF X(5) [OF co] iv ok lid a(1) _ u, of E r] by simp
  then show "evs = []" and "\<exists>ps. nd_outbound a' = map (Pair i) ps \<and> list_all2 (answer_packet X lid key) outs ps"
    using ps(2) by auto
  have "live_link lid i key a'" using e a(1) by simp
  then show "sending lid i key ob a'"
    using e by (auto simp: sending_def bt_simps)
qed

section \<open>The receiver's turn\<close>

lemma only_candidate:
  assumes ok: "bt_ok m" and "bt_get (lid, h) m = Some v" and "\<forall>h'. h' \<noteq> h \<longrightarrow> bt_get (lid, h') m = None"
  shows "filter (\<lambda>(c, _). c = lid) (bt_keys m) = [(lid, h)]"
proof -
  let ?f = "filter (\<lambda>(c, _). c = lid) (bt_keys m)"
  have "set ?f = {(lid, h)}" using assms(2,3) by (auto simp: bt_keys_get)
  moreover have "distinct ?f" using bt_ok_distinct [OF ok] by simp
  ultimately have "length ?f = 1" using distinct_card [of ?f] by simp
  then obtain y where "?f = [y]" by (auto simp: length_Suc_conv)
  then show ?thesis using \<open>set ?f = {(lid, h)}\<close> by simp
qed

lemma request_next_asks:
  assumes c: "carries X key d ob" and E: "entropy_ok E" and rc: "receiving X lid j key d ob k ib b"
    and q: "nd_outbound b = []" and nc: "\<not> is_complete ib" and w: "ib_outstanding ib = []" "\<not> ib_waiting_for_hmu ib"
  shows "\<exists>ib'. asks X lid j key d ob ib' (fst (request_next X E lid (ob_hash ob) j key r b)) \<and> todo ib' = todo ib"
proof -
  have ob: "ob_ok X ob" using c by (simp add: carries_def)
  have p: "paired X ob k ib" using rc by (simp add: receiving_def)
  obtain iv r' where iv: "E r 16 = (iv, r')" by fastforce
  have liv: "length iv = 16" by (rule entropy_filled [OF E iv])
  obtain req ib' outs where n: "next_request (nd_clock b) ib = (Some req, ib')" "paired X ob k ib'"
      "awaits X ob k ib' outs" "answered_by X req ob outs" "ib_retries ib' = ib_retries ib"
      "ib_total_size ib' = ib_total_size ib" "ib_compressed ib' = ib_compressed ib" "todo ib' = todo ib"
    by (rule asking [OF ob p nc w])
  let ?p = "packet_encode (link_context lid RESOURCE_REQ (seal_with_key X key req iv))"
  let ?b = "push_out j ?p (b\<lparr>nd_inbound_resources := bt_insert (lid, ob_hash ob) ib' (nd_inbound_resources b)\<rparr>)"
  have "fst (request_next X E lid (ob_hash ob) j key r b) = ?b"
    using rc n(1) iv by (simp add: request_next_def receiving_def enqueue_encrypted_link_context_def)
  moreover have "receiving X lid j key d ob k ib' ?b"
    using rc n by (simp add: receiving_def bt_simps)
  then have "asks X lid j key d ob ib' ?b"
    using n(3,4) liv q unfolding asks_def by auto
  ultimately show ?thesis using n(8) by auto
qed

lemma part_request_next:
  assumes "bt_get rk (nd_inbound_resources nd) = Some ib" "ready_for_request ib" "ib_retries ib = 0"
  shows "part_request X E rk j key (Some r) nd =
    (case request_next X E (fst rk) (snd rk) j key r nd of (nd', r') \<Rightarrow> (nd', Some r'))"
proof -
  obtain req ib' where n: "next_request (nd_clock nd) ib = (req, ib')" by fastforce
  then show ?thesis using assms next_request_timer(1) [OF n]
    by (cases req) (simp_all add: part_request_def request_next_def case_prod_beta Let_def)
qed

definition is_progress :: "bytes \<Rightarrow> bytes \<Rightarrow> event \<Rightarrow> bool" where
  "is_progress lid h e \<longleftrightarrow> (\<exists>n. e = ResourceProgress lid h n)"

text \<open>How a turn of the receiver ends: it has asked for more, or it has completed.\<close>

definition turn :: "ext \<Rightarrow> bytes \<Rightarrow> u16 \<Rightarrow> bytes \<Rightarrow> bytes \<Rightarrow> outbound_resource \<Rightarrow> nat \<Rightarrow> event list \<Rightarrow> node \<Rightarrow> bool" where
  "turn X lid j key d ob n evs b \<longleftrightarrow> (\<exists>ps. (\<forall>e \<in> set ps. is_progress lid (ob_hash ob) e) \<and>
     (evs = ps \<and> (\<exists>ib. asks X lid j key d ob ib b \<and> todo ib < n) \<or>
      evs = ps @ [ResourceComplete lid (ob_hash ob) d] \<and> proves X lid j ob b))"

text \<open>A part that is waited for, up to the point where the receiver asks for more or completes.\<close>

lemma part_handled:
  assumes c: "carries X key d ob" and lid: "length lid = 16" and ok: "node_ok b"
    and rc: "receiving X lid j key d ob k ib b" and q: "nd_outbound b = []"
    and x: "distinct (x # xs)" "\<forall>y \<in> set (x # xs). y < k \<and> ib_parts ib ! y = None"
      "ib_outstanding ib = map (part_hash X ob) (x # xs)" "\<not> ib_waiting_for_hmu ib"
    and u: "unseen X (packet_encode (link_context lid RESOURCE (ob_parts ob ! x))) b"
    and h: "handle_inbound_with_entropy X E (packet_encode (link_context lid RESOURCE (ob_parts ob ! x))) j r b = (evs, b', r')"
  obtains ib' m n where "receiving X lid j key d ob k ib' m" and "nd_outbound m = []" and "todo ib' < todo ib"
    and "\<forall>y \<in> set xs. y < k \<and> ib_parts ib' ! y = None" and "ib_outstanding ib' = map (part_hash X ob) xs"
    and "\<not> ib_waiting_for_hmu ib'" and "ib_retries ib' = 0"
    and "(evs, b', r') = (let (evs, nd, rng) = (if is_complete ib'
        then let (evs, nd) = part_complete X (lid, ob_hash ob) j key ib' m in (ResourceProgress lid (ob_hash ob) n # evs, nd, Some r)
        else let (nd, rng) = part_request X E (lid, ob_hash ob) j key (Some r) m in ([ResourceProgress lid (ob_hash ob) n], nd, rng))
      in (evs, nd, case rng of Some r \<Rightarrow> r | None \<Rightarrow> r))"
proof -
  have ob: "ob_ok X ob" using c by (simp add: carries_def)
  have p: "paired X ob k ib" and live: "live_link lid j key b" and retries: "ib_retries ib = 0" using rc by (simp_all add: receiving_def)
  obtain ib' where ib': "on_part X (ob_parts ob ! x) ib = (True, ib')" "paired X ob k ib'"
      "\<forall>y \<in> set xs. y < k \<and> ib_parts ib' ! y = None" "todo ib' < todo ib"
      "ib_outstanding ib' = map (part_hash X ob) xs" "ib_waiting_for_hmu ib' = ib_waiting_for_hmu ib"
      "ib_retries ib' = (if xs = [] then 0 else ib_retries ib)"
    by (rule on_part_awaited [OF ob p x(1-3)])
  have same: "ib_total_size ib' = ib_total_size ib" "ib_compressed ib' = ib_compressed ib"
    using ib_step_same [of ib X "GetPart (ob_parts ob ! x)"] ib'(1) by (simp_all add: ib_step_def ib_same_def)
  let ?n = "noted (packet_hash X (link_context lid RESOURCE (ob_parts ob ! x))) b"
  let ?m = "?n\<lparr>nd_inbound_resources := bt_insert (lid, ob_hash ob) ib' (nd_inbound_resources b)\<rparr>"
  let ?pr = "ResourceProgress lid (ob_hash ob) (received_parts ib', total_parts ib')"
  have m: "receiving X lid j key d ob k ib' ?m" "nd_outbound ?m = []"
    using rc ib' same q by (simp_all add: receiving_def bt_simps)
  have keys: "filter (\<lambda>(c, _). c = lid) (bt_keys (nd_inbound_resources b)) = [(lid, ob_hash ob)]"
    using only_candidate [OF node_okD(10) [OF ok]] rc by (auto simp: receiving_def)
  have hp: "handle_resource_part X E lid j key (ob_parts ob ! x) (Some r) ?n =
    (if is_complete ib' then let (evs, nd) = part_complete X (lid, ob_hash ob) j key ib' ?m in (?pr # evs, nd, Some r)
     else let (nd, rng) = part_request X E (lid, ob_hash ob) j key (Some r) ?m in ([?pr], nd, rng))"
    using rc ib'(1) by (simp add: handle_resource_part_def keys receiving_def)
  show thesis
    by (rule that [OF m ib'(4,3,5)])
      (use ib'(6,7) x(4) retries h [unfolded part_received [OF ok lid live u HOL.refl, where E = E and r = r] hp, symmetric] in simp_all)
qed

lemma part_step:
  assumes c: "carries X key d ob" and lid: "length lid = 16" and ok: "node_ok b"
    and rc: "receiving X lid j key d ob k ib b" and q: "nd_outbound b = []"
    and x: "distinct (x # is)" "\<forall>y \<in> set (x # is). y < k \<and> ib_parts ib ! y = None"
      "ib_outstanding ib = map (part_hash X ob) (x # is)" "\<not> ib_waiting_for_hmu ib"
    and u: "unseen X (packet_encode (link_context lid RESOURCE (ob_parts ob ! x))) b"
    and h: "handle_inbound_with_entropy X E (packet_encode (link_context lid RESOURCE (ob_parts ob ! x))) j r b = (evs, b', r')"
    and ne: "is \<noteq> []"
  shows "\<exists>ib'. (\<forall>e \<in> set evs. is_progress lid (ob_hash ob) e) \<and> receiving X lid j key d ob k ib' b' \<and>
      nd_outbound b' = [] \<and> (\<forall>y \<in> set is. y < k \<and> ib_parts ib' ! y = None) \<and>
      ib_outstanding ib' = map (part_hash X ob) is \<and> \<not> ib_waiting_for_hmu ib' \<and> todo ib' < todo ib"
proof (rule part_handled [OF c lid ok rc q x u h])
  fix ib' m n
  assume m: "receiving X lid j key d ob k ib' m" "nd_outbound m = []" "todo ib' < todo ib"
    and miss: "\<forall>y \<in> set is. y < k \<and> ib_parts ib' ! y = None" "ib_outstanding ib' = map (part_hash X ob) is" "\<not> ib_waiting_for_hmu ib'"
    and e: "(evs, b', r') = (let (evs, nd, rng) = (if is_complete ib'
        then let (evs, nd) = part_complete X (lid, ob_hash ob) j key ib' m in (ResourceProgress lid (ob_hash ob) n # evs, nd, Some r)
        else let (nd, rng) = part_request X E (lid, ob_hash ob) j key (Some r) m in ([ResourceProgress lid (ob_hash ob) n], nd, rng))
      in (evs, nd, case rng of Some r \<Rightarrow> r | None \<Rightarrow> r))"
  have "ib_parts ib' ! hd is = None" "hd is < k" using ne miss(1) by simp_all
  moreover have "k \<le> length (ib_parts ib')" using m(1) by (simp add: receiving_def paired_def)
  ultimately have "ib_parts ib' ! hd is = None" "hd is < length (ib_parts ib')" by simp_all
  then have nc: "\<not> is_complete ib'" by (auto simp: is_complete_def list_all_length)
  have "\<not> ready_for_request ib'" using miss(2) ne by (simp add: ready_for_request_def)
  then have "part_request X E (lid, ob_hash ob) j key (Some r) m = (m, Some r)"
    using m(1) by (simp add: part_request_def receiving_def)
  then have "evs = [ResourceProgress lid (ob_hash ob) n]" "b' = m" using e nc by simp_all
  then show ?thesis using m miss by (auto simp: is_progress_def)
qed

lemma last_part_step:
  assumes c: "carries X key d ob" and E: "entropy_ok E" and lid: "length lid = 16" and ok: "node_ok b"
    and rc: "receiving X lid j key d ob k ib b" and q: "nd_outbound b = []"
    and x: "x < k" "ib_parts ib ! x = None" "ib_outstanding ib = [part_hash X ob x]" "\<not> ib_waiting_for_hmu ib"
    and u: "unseen X (packet_encode (link_context lid RESOURCE (ob_parts ob ! x))) b"
    and h: "handle_inbound_with_entropy X E (packet_encode (link_context lid RESOURCE (ob_parts ob ! x))) j r b = (evs, b', r')"
  shows "turn X lid j key d ob (todo ib) evs b'"
proof (rule part_handled [OF c lid ok rc q _ _ _ x(4) u h, where xs = "[]"])
  fix ib' m n
  let ?pr = "ResourceProgress lid (ob_hash ob) n"
  assume m: "receiving X lid j key d ob k ib' m" "nd_outbound m = []" "todo ib' < todo ib" "ib_retries ib' = 0"
    and w: "ib_outstanding ib' = map (part_hash X ob) []" "\<not> ib_waiting_for_hmu ib'"
    and e: "(evs, b', r') = (let (evs, nd, rng) = (if is_complete ib'
        then let (evs, nd) = part_complete X (lid, ob_hash ob) j key ib' m in (?pr # evs, nd, Some r)
        else let (nd, rng) = part_request X E (lid, ob_hash ob) j key (Some r) m in ([?pr], nd, rng))
      in (evs, nd, case rng of Some r \<Rightarrow> r | None \<Rightarrow> r))"
  show ?thesis
  proof (cases "is_complete ib'")
    case True
    have p: "paired X ob k ib'" using m(1) by (simp add: receiving_def)
    have f: "finalize X key ib' = Inr d" "resource_proof X d (ob_hash ob) = ob_expected_proof ob"
      using c True m(1) p by (auto simp: carries_def receiving_def)
    have hash: "ib_hash ib' = ob_hash ob" using p by (simp add: paired_def)
    have "evs = [?pr, ResourceComplete lid (ob_hash ob) d]"
      "nd_outbound b' = [(j, packet_encode (packet_proof lid (ob_hash ob @ ob_expected_proof ob) RESOURCE_PRF))]"
      "bt_get (lid, ob_hash ob) (nd_inbound_resources b') = None"
      using e True f hash m(2) by (auto simp: part_complete_def proof_packet_def Let_def bt_simps)
    then show ?thesis unfolding turn_def proves_def
      by (intro exI [of _ "[?pr]"]) (auto simp: is_progress_def)
  next
    case False
    have "ready_for_request ib'" using False w by (simp add: ready_for_request_def)
    then have "part_request X E (lid, ob_hash ob) j key (Some r) m =
        (case request_next X E lid (ob_hash ob) j key r m of (nd', r') \<Rightarrow> (nd', Some r'))"
      using part_request_next [of "(lid, ob_hash ob)" m ib' X E j key r] m(1,4) by (simp add: receiving_def)
    then have "evs = [?pr]" "b' = fst (request_next X E lid (ob_hash ob) j key r m)"
      using e False by (auto split: prod.splits)
    moreover obtain ib2 where "asks X lid j key d ob ib2 (fst (request_next X E lid (ob_hash ob) j key r m))" "todo ib2 = todo ib'"
      using request_next_asks [OF c E m(1,2) False] w by fastforce
    ultimately show ?thesis using m(3) unfolding turn_def
      by (intro exI [of _ "[?pr]"]) (auto simp: is_progress_def)
  qed
qed (use x in simp_all)

text \<open>Every packet of a list is new to the node when its turn comes.\<close>

fun all_unseen :: "ext \<Rightarrow> 'r entropy \<Rightarrow> bytes list \<Rightarrow> u16 \<Rightarrow> 'r \<Rightarrow> node \<Rightarrow> bool" where
  "all_unseen X E [] i r nd = True"
| "all_unseen X E (p # ps) i r nd = (unseen X p nd \<and>
     (case handle_inbound_with_entropy X E p i r nd of (_, nd, r) \<Rightarrow> all_unseen X E ps i r nd))"

lemma parts_turn:
  assumes c: "carries X key d ob" and E: "entropy_ok E" and lid: "length lid = 16"
  shows "node_ok b \<Longrightarrow> receiving X lid j key d ob k ib b \<Longrightarrow> nd_outbound b = [] \<Longrightarrow> is \<noteq> [] \<Longrightarrow> distinct is \<Longrightarrow>
     \<forall>y \<in> set is. y < k \<and> ib_parts ib ! y = None \<Longrightarrow> ib_outstanding ib = map (part_hash X ob) is \<Longrightarrow>
     \<not> ib_waiting_for_hmu ib \<Longrightarrow>
     all_unseen X E (map (\<lambda>x. packet_encode (link_context lid RESOURCE (ob_parts ob ! x))) is) j r b \<Longrightarrow>
     handle_all X E (map (\<lambda>x. packet_encode (link_context lid RESOURCE (ob_parts ob ! x))) is) j r b = (evs, b', r') \<Longrightarrow>
     turn X lid j key d ob (todo ib) evs b'"
proof (induction "is" arbitrary: b ib r evs b' r')
  case Nil
  then show ?case by simp
next
  case (Cons x xs)
  let ?p = "packet_encode (link_context lid RESOURCE (ob_parts ob ! x))"
  let ?ps = "map (\<lambda>x. packet_encode (link_context lid RESOURCE (ob_parts ob ! x))) xs"
  obtain evs1 b1 r1 where h: "handle_inbound_with_entropy X E ?p j r b = (evs1, b1, r1)" by (metis prod_cases3)
  obtain evs2 b2 r2 where a: "handle_all X E ?ps j r1 b1 = (evs2, b2, r2)" by (metis prod_cases3)
  have e: "evs = evs1 @ evs2" "b' = b2" using Cons.prems(10) h a by simp_all
  have u: "unseen X ?p b" "all_unseen X E ?ps j r1 b1" using Cons.prems(9) h by simp_all
  show ?case
  proof (cases "xs = []")
    case True
    then show ?thesis using last_part_step [OF c E lid Cons.prems(1-3) _ _ _ Cons.prems(8) u(1) h] Cons.prems(6,7) a e by simp
  next
    case False
    then obtain ib1 where i: "\<forall>e \<in> set evs1. is_progress lid (ob_hash ob) e" "receiving X lid j key d ob k ib1 b1"
        "nd_outbound b1 = []" "\<forall>y \<in> set xs. y < k \<and> ib_parts ib1 ! y = None"
        "ib_outstanding ib1 = map (part_hash X ob) xs" "\<not> ib_waiting_for_hmu ib1" "todo ib1 < todo ib"
      using part_step [OF c lid Cons.prems(1-3,5-8) u(1) h False] by blast
    have "node_ok b1" using inbound_with_entropy_ok [OF _ Cons.prems(1) h] c crypto_okD(4) by (auto simp: carries_def)
    then have "turn X lid j key d ob (todo ib1) evs2 b2"
      using Cons.IH [OF _ i(2,3) False _ i(4-6) u(2) a] Cons.prems(5) by simp
    then obtain ps where ps: "\<forall>e \<in> set ps. is_progress lid (ob_hash ob) e"
      "evs2 = ps \<and> (\<exists>ib. asks X lid j key d ob ib b2 \<and> todo ib < todo ib1) \<or>
       evs2 = ps @ [ResourceComplete lid (ob_hash ob) d] \<and> proves X lid j ob b2" by (auto simp: turn_def)
    then show ?thesis using i(1,7) e unfolding turn_def
      by (intro exI [of _ "evs1 @ ps"]) (auto intro: less_trans)
  qed
qed

lemma update_turn:
  assumes c: "carries X key d ob" and E: "entropy_ok E" and lid: "length lid = 16" and ok: "node_ok b"
    and rc: "receiving X lid j key d ob k ib b" and q: "nd_outbound b = []"
    and k: "0 < k" "k mod HASHMAP_MAX_LEN = 0" "k < length (ob_parts ob)" and out: "ib_outstanding ib = []"
    and iv: "length iv = 16"
    and pt: "pt = pack_hashmap_update X (ob_hash ob) (word_of_nat (k div HASHMAP_MAX_LEN))
         (concat (map (part_hash X ob) [k ..< min (k + HASHMAP_MAX_LEN) (length (ob_parts ob))]))"
    and u: "unseen X (packet_encode (link_context lid RESOURCE_HMU (seal_with_key X key pt iv))) b"
    and h: "handle_inbound_with_entropy X E (packet_encode (link_context lid RESOURCE_HMU (seal_with_key X key pt iv))) j r b = (evs, b', r')"
  shows "turn X lid j key d ob (todo ib) evs b'"
proof -
  let ?e = "min (k + HASHMAP_MAX_LEN) (length (ob_parts ob))"
  have X: "crypto_ok X" "rmp_ok X" and ob: "ob_ok X ob" using c by (simp_all add: carries_def)
  have p: "paired X ob k ib" and live: "live_link lid j key b" using rc by (simp_all add: receiving_def)
  obtain ib' where up: "on_hashmap_update X pt ib = (Inr (), ib')" "paired X ob ?e ib'" "ib_parts ib' = ib_parts ib"
    unfolding pt by (rule update_accepted [OF X(2) ob p k])
  have f: "ib_outstanding ib' = []" "\<not> ib_waiting_for_hmu ib'" "ib_retries ib' = ib_retries ib"
      "ib_total_size ib' = ib_total_size ib" "ib_compressed ib' = ib_compressed ib"
    using up(1) out by (auto simp: on_hashmap_update_def Let_def split: sum.splits prod.splits if_splits)
  have "ib_parts ib ! k = None" using p k(3) by (auto simp: paired_def)
  then have nc: "\<not> is_complete ib'" using up(3) p k(3) by (auto simp: is_complete_def list_all_length paired_def)
  have less: "todo ib' < todo ib" using todo_map [OF p up(2) _ up(3)] k by (simp add: HASHMAP_MAX_LEN_def)
  let ?n = "touch_link lid (noted (packet_hash X (link_context lid RESOURCE_HMU (seal_with_key X key pt iv))) b)"
  let ?m = "?n\<lparr>nd_inbound_resources := bt_insert (lid, ob_hash ob) ib' (nd_inbound_resources b)\<rparr>"
  have m: "receiving X lid j key d ob ?e ib' ?m" "nd_outbound ?m = []"
    using rc up f q by (simp_all add: receiving_def bt_simps)
  have a: "array_at 0 32 pt = Some (ob_hash ob)"
    using ob by (simp add: pt pack_hashmap_update_def ob_ok_def array_at_def get_range_def sub_def try_array_def)
  have "handle_resource_context X E lid j key RESOURCE_HMU pt r ?n =
      (let (nd, r) = request_next X E lid (ob_hash ob) j key r ?m in ([], nd, r))"
    using a rc up(1) by (simp add: handle_resource_context_def contexts receiving_def)
  then have "evs = []" "b' = fst (request_next X E lid (ob_hash ob) j key r ?m)"
    using h sealed_received [OF crypto_okD(5) [OF X(1)] iv ok lid live _ u, of E r] by (auto split: prod.splits)
  moreover obtain ib2 where "asks X lid j key d ob ib2 (fst (request_next X E lid (ob_hash ob) j key r ?m))" "todo ib2 = todo ib'"
    using request_next_asks [OF c E m nc f(1,2)] by blast
  ultimately show ?thesis using less unfolding turn_def by auto
qed

text \<open>The turn of the receiver, whatever it waits for.\<close>

lemma receiver_turn:
  assumes c: "carries X key d ob" and E: "entropy_ok E" and lid: "length lid = 16" and ok: "node_ok b"
    and rc: "receiving X lid j key d ob k ib b" and q: "nd_outbound b = []" and w: "awaits X ob k ib outs"
    and ps: "list_all2 (answer_packet X lid key) outs ps"
    and u: "all_unseen X E ps j r b" and h: "handle_all X E ps j r b = (evs, b', r')"
  shows "turn X lid j key d ob (todo ib) evs b'"
  using w unfolding awaits_def
proof (elim disjE exE conjE)
  fix "is"
  assume s: "is \<noteq> []" "distinct is" "\<forall>x \<in> set is. x < k \<and> ib_parts ib ! x = None"
    "ib_outstanding ib = map (part_hash X ob) is" "\<not> ib_waiting_for_hmu ib" "outs = map (\<lambda>x. Part (ob_parts ob ! x)) is"
  have "ps = map (\<lambda>x. packet_encode (link_context lid RESOURCE (ob_parts ob ! x))) is"
    using ps unfolding s(6) list_all2_map1 answer_packet_def
    by (intro nth_equalityI) (auto simp: list_all2_conv_all_nth)
  then show ?thesis using parts_turn [OF c E lid ok rc q s(1-5)] u h by simp
next
  let ?pt = "pack_hashmap_update X (ob_hash ob) (word_of_nat (k div HASHMAP_MAX_LEN))
         (concat (map (part_hash X ob) [k ..< min (k + HASHMAP_MAX_LEN) (length (ob_parts ob))]))"
  assume k: "0 < k" "k mod HASHMAP_MAX_LEN = 0" "k < length (ob_parts ob)" "ib_outstanding ib = []" "outs = [HashmapUpdate ?pt]"
  obtain iv where iv: "length iv = 16" "ps = [packet_encode (link_context lid RESOURCE_HMU (seal_with_key X key ?pt iv))]"
    using ps by (auto simp: k(5) answer_packet_def list_all2_Cons1)
  then show ?thesis
    using update_turn [OF c E lid ok rc q k(1-4) iv(1) HOL.refl, of r evs b' r'] u h by (auto split: prod.splits)
qed

section \<open>Two nodes on a line\<close>

text \<open>What the first node has queued for its interface \<open>i\<close> reaches the second on its interface \<open>j\<close>.\<close>

definition hand_over :: "ext \<Rightarrow> 's entropy \<Rightarrow> u16 \<Rightarrow> u16 \<Rightarrow> node \<Rightarrow> node \<Rightarrow> 's \<Rightarrow> event list \<times> node \<times> node \<times> 's" where
  "hand_over X F i j a b s =
     (case handle_all X F (map snd (filter (\<lambda>q. fst q = i) (nd_outbound a))) j s b of (evs, b, s) \<Rightarrow>
      (evs, a\<lparr>nd_outbound := []\<rparr>, b, s))"

definition unseen_over :: "ext \<Rightarrow> 's entropy \<Rightarrow> u16 \<Rightarrow> u16 \<Rightarrow> node \<Rightarrow> node \<Rightarrow> 's \<Rightarrow> bool" where
  "unseen_over X F i j a b s = all_unseen X F (map snd (filter (\<lambda>q. fst q = i) (nd_outbound a))) j s b"

text \<open>Rounds in which each hands over to the other, with the events of the first and of the second node.\<close>

fun talk :: "ext \<Rightarrow> 'r entropy \<Rightarrow> 's entropy \<Rightarrow> u16 \<Rightarrow> u16 \<Rightarrow> nat \<Rightarrow> node \<Rightarrow> 'r \<Rightarrow> node \<Rightarrow> 's
    \<Rightarrow> event list \<times> event list \<times> node \<times> node" where
  "talk X E F i j 0 a r b s = ([], [], a, b)"
| "talk X E F i j (Suc n) a r b s =
     (case hand_over X F i j a b s of (eb, a, b, s) \<Rightarrow>
      case hand_over X E j i b a r of (ea, b, a, r) \<Rightarrow>
      case talk X E F i j n a r b s of (ea', eb', a, b) \<Rightarrow> (ea @ ea', eb @ eb', a, b))"

text \<open>No packet is taken for one seen before.\<close>

fun talk_unseen :: "ext \<Rightarrow> 'r entropy \<Rightarrow> 's entropy \<Rightarrow> u16 \<Rightarrow> u16 \<Rightarrow> nat \<Rightarrow> node \<Rightarrow> 'r \<Rightarrow> node \<Rightarrow> 's \<Rightarrow> bool" where
  "talk_unseen X E F i j 0 a r b s = True"
| "talk_unseen X E F i j (Suc n) a r b s = (unseen_over X F i j a b s \<and>
     (case hand_over X F i j a b s of (_, a, b, s) \<Rightarrow> unseen_over X E j i b a r \<and>
      (case hand_over X E j i b a r of (_, b, a, r) \<Rightarrow> talk_unseen X E F i j n a r b s)))"

lemma drained: "nd_outbound a = [] \<Longrightarrow> a\<lparr>nd_outbound := []\<rparr> = a"
  by simp

lemma talk_quiet:
  assumes "nd_outbound a = []" "nd_outbound b = []"
  shows "talk X E F i j n a r b s = ([], [], a, b)"
  using assms
proof (induction n)
  case (Suc n)
  then show ?case by (simp add: hand_over_def drained)
qed simp

lemma node_ok_drained [simp]: "node_ok (a\<lparr>nd_outbound := q\<rparr>) = node_ok a"
  by (simp add: node_ok_def)

lemma sending_drained [simp]: "sending lid i key ob (a\<lparr>nd_outbound := q\<rparr>) = sending lid i key ob a"
  by (simp add: sending_def)

lemma receiving_drained [simp]: "receiving X lid j key d ob k ib (b\<lparr>nd_outbound := q\<rparr>) = receiving X lid j key d ob k ib b"
  by (simp add: receiving_def)

lemma handle_all_ok:
  assumes "hkdf_ok X"
  shows "node_ok nd \<Longrightarrow> handle_all X E ps i r nd = (evs, nd', r') \<Longrightarrow> node_ok nd'"
proof (induction ps arbitrary: nd r evs nd' r')
  case (Cons p ps)
  obtain evs1 nd1 r1 where h: "handle_inbound_with_entropy X E p i r nd = (evs1, nd1, r1)" by (metis prod_cases3)
  have "node_ok nd1" by (rule inbound_with_entropy_ok [OF assms Cons.prems(1) h])
  then show ?case using Cons.IH [of nd1 r1] Cons.prems(2) h by (auto split: prod.splits)
qed simp

text \<open>The proof ends the transfer for the sender.\<close>

lemma proof_taken:
  assumes c: "carries X key d ob" and lid: "length lid = 16" and ok: "node_ok a" and s: "sending lid i key ob a"
    and q: "nd_outbound a = []"
    and u: "unseen X (packet_encode (packet_proof lid (ob_hash ob @ ob_expected_proof ob) RESOURCE_PRF)) a"
    and h: "handle_inbound_with_entropy X E (packet_encode (packet_proof lid (ob_hash ob @ ob_expected_proof ob) RESOURCE_PRF)) k r a = (evs, a', r')"
  shows "evs = [ResourceComplete lid (ob_hash ob) []] \<and> nd_outbound a' = [] \<and>
    bt_get (lid, ob_hash ob) (nd_outbound_resources a') = None"
proof -
  let ?pf = "ob_hash ob @ ob_expected_proof ob"
  let ?q = "new_header1 LINK PROOF lid RESOURCE_PRF ?pf"
  have len: "length (ob_hash ob) = 32" "length (ob_expected_proof ob) = 32"
    using c crypto_okD(1) [of X] by (simp_all add: carries_def ob_ok_def resource_proof_def)
  obtain t where t: "bt_get (lid, ob_hash ob) (nd_outbound_resources a) = Some (ob\<lparr>ob_last_activity := t\<rparr>)"
    using s by (auto simp: sending_def)
  have q1: "packet_proof lid ?pf RESOURCE_PRF = ?q" by (simp add: packet_proof_def)
  have "handle_inbound_inner X E (packet_encode ?q) k (Some r) a =
      dispatch X E (?q\<lparr>hops := 1\<rparr>) k (Some r) (noted (packet_hash X ?q) a)"
    by (rule inbound_fresh) (use lid ok u q1 in \<open>simp_all add: packet_types dest_types\<close>)
  then show ?thesis
    using h t len lid q unfolding q1
    by (auto simp: handle_inbound_with_entropy_def dispatch_def try_array_def packet_consts handle_resource_proof_def array_at_def
        get_range_def sub_def on_proof_def Let_def bt_simps)
qed

text \<open>The advertisement starts the receiver.\<close>

lemma advertisement_taken:
  assumes c: "carries X key d ob" and E: "entropy_ok E" and lid: "length lid = 16" and ok: "node_ok b"
    and live: "live_link lid j key b" and q: "nd_outbound b = []"
    and none: "\<forall>h. bt_get (lid, h) (nd_inbound_resources b) = None"
    and adv: "adv_unpack X adv = Inr w" "inbound_from_advertisement w = Inr ib" "paired X ob k ib"
      "ib_total_size ib = ob_total_size ob" "ib_compressed ib = snd (compress_if_useful X d)"
    and iv: "length iv = 16" and u: "unseen X (packet_encode (link_context lid RESOURCE_ADV (seal_with_key X key adv iv))) b"
    and h: "handle_inbound_with_entropy X E (packet_encode (link_context lid RESOURCE_ADV (seal_with_key X key adv iv))) j r b = (evs, b', r')"
  shows "evs = [ResourceStarted lid (ob_hash ob) (ob_total_size ob)]"
    and "\<exists>ib'. asks X lid j key d ob ib' b' \<and> todo ib' = todo ib"
proof -
  have X: "crypto_ok X" using c by (simp add: carries_def)
  note new = inbound_new_ok [OF adv(2)]
  have nc: "\<not> is_complete ib"
  proof
    assume "is_complete ib"
    then have "received_parts ib = length (ib_parts ib)" by (simp add: is_complete_def received_parts_def list_all_iff filter_True)
    then show False using new by (simp add: ib_ok_def)
  qed
  have f: "ib_outstanding ib = []" "\<not> ib_waiting_for_hmu ib" "ib_hash ib = ob_hash ob"
    using adv(2,3) by (auto simp: inbound_from_advertisement_def rbind_Inr_iff paired_def Let_def split: if_splits prod.splits)
  let ?n = "touch_link lid (noted (packet_hash X (link_context lid RESOURCE_ADV (seal_with_key X key adv iv))) b)"
  let ?m = "?n\<lparr>nd_inbound_resources := bt_insert (lid, ob_hash ob) ib (nd_inbound_resources b)\<rparr>"
  have m: "receiving X lid j key d ob k ib ?m" "nd_outbound ?m = []"
    using live none adv new q by (simp_all add: receiving_def bt_simps)
  have "handle_resource_context X E lid j key RESOURCE_ADV adv r ?n =
      (let (nd, r) = request_next X E lid (ob_hash ob) j key r ?m in ([ResourceStarted lid (ob_hash ob) (ob_total_size ob)], nd, r))"
    using adv f by (simp add: handle_resource_context_def Let_def)
  then have "evs = [ResourceStarted lid (ob_hash ob) (ob_total_size ob)]" and b': "b' = fst (request_next X E lid (ob_hash ob) j key r ?m)"
    using h sealed_received [OF crypto_okD(5) [OF X] iv ok lid live _ u, of E r] by (auto split: prod.splits)
  then show "evs = [ResourceStarted lid (ob_hash ob) (ob_total_size ob)]" by simp
  show "\<exists>ib'. asks X lid j key d ob ib' b' \<and> todo ib' = todo ib"
    unfolding b' by (rule request_next_asks [OF c E m nc f(1,2)])
qed

text \<open>The state between two rounds: the sender has answered what the receiver asked for.\<close>

definition under_way :: "ext \<Rightarrow> bytes \<Rightarrow> u16 \<Rightarrow> u16 \<Rightarrow> bytes \<Rightarrow> bytes \<Rightarrow> outbound_resource \<Rightarrow> inbound_resource \<Rightarrow> node \<Rightarrow> node \<Rightarrow> bool" where
  "under_way X lid i j key d ob ib a b \<longleftrightarrow> node_ok a \<and> node_ok b \<and> sending lid i key ob a \<and> nd_outbound b = [] \<and>
     (\<exists>k outs ps. receiving X lid j key d ob k ib b \<and> awaits X ob k ib outs \<and>
        list_all2 (answer_packet X lid key) outs ps \<and> nd_outbound a = map (Pair i) ps)"

definition transferred :: "bytes \<Rightarrow> bytes \<Rightarrow> bytes \<Rightarrow> event list \<Rightarrow> event list \<Rightarrow> node \<Rightarrow> node \<Rightarrow> bool" where
  "transferred lid h d ea eb a b \<longleftrightarrow> ea = [ResourceComplete lid h []] \<and>
     (\<exists>ps. (\<forall>e \<in> set ps. is_progress lid h e) \<and> eb = ps @ [ResourceComplete lid h d]) \<and>
     nd_outbound a = [] \<and> nd_outbound b = [] \<and>
     bt_get (lid, h) (nd_outbound_resources a) = None \<and> bt_get (lid, h) (nd_inbound_resources b) = None"

lemma awaits_todo: "paired X ob k ib \<Longrightarrow> awaits X ob k ib outs \<Longrightarrow> 0 < todo ib"
proof -
  assume p: "paired X ob k ib" and w: "awaits X ob k ib outs"
  have fin: "finite {i. i < n \<and> P i}" for n and P :: "nat \<Rightarrow> bool" by simp
  show "0 < todo ib"
    using w unfolding awaits_def
  proof (elim disjE exE conjE)
    fix "is" assume "is \<noteq> []" "\<forall>x \<in> set is. x < k \<and> ib_parts ib ! x = None"
    then have "hd is < k" "ib_parts ib ! hd is = None" by simp_all
    moreover have "k \<le> length (ib_parts ib)" using p by (simp add: paired_def)
    ultimately have "hd is \<in> {i. i < length (ib_parts ib) \<and> ib_parts ib ! i = None}" by simp
    then show ?thesis using fin by (auto simp: todo_def card_gt_0_iff)
  next
    assume "k < length (ob_parts ob)"
    then have "k \<in> {i. i < length (ib_map ib) \<and> ib_map ib ! i = None}" using p by (simp add: paired_def)
    then show ?thesis using fin by (auto simp: todo_def card_gt_0_iff)
  qed
qed

lemma sender_turn:
  assumes c: "carries X key d ob" and E: "entropy_ok E" and lid: "length lid = 16" and ok: "node_ok a" "node_ok b"
    and s: "sending lid i key ob a" and q: "nd_outbound a = []" and w: "asks X lid j key d ob ib b"
    and u: "unseen_over X E j i b a r" and h: "hand_over X E j i b a r = (ea, b', a', r')"
  shows "ea = []" and "under_way X lid i j key d ob ib a' b'"
proof -
  have X: "hkdf_ok X" using c crypto_okD(4) by (auto simp: carries_def)
  obtain k req outs iv where r: "receiving X lid j key d ob k ib b" "awaits X ob k ib outs" "answered_by X req ob outs"
      "length iv = 16" "nd_outbound b = [(j, packet_encode (link_context lid RESOURCE_REQ (seal_with_key X key req iv)))]"
    using w by (auto simp: asks_def)
  let ?p = "packet_encode (link_context lid RESOURCE_REQ (seal_with_key X key req iv))"
  have p: "unseen X ?p a" using u r(5) by (simp add: unseen_over_def)
  obtain ea1 a1 r1 where g: "handle_inbound_with_entropy X E ?p i r a = (ea1, a1, r1)" by (metis prod_cases3)
  note t = sender_answers [OF c E lid ok(1) s q r(3,4) p g]
  have e: "ea = ea1" "a' = a1" "b' = b\<lparr>nd_outbound := []\<rparr>" using h g r(5) by (simp_all add: hand_over_def)
  show "ea = []" using t(1) e by simp
  have "node_ok a1" by (rule inbound_with_entropy_ok [OF X ok(1) g])
  then show "under_way X lid i j key d ob ib a' b'"
    using t(2,3) ok(2) r(1,2) unfolding under_way_def e by auto
qed

lemma proof_turn:
  assumes c: "carries X key d ob" and lid: "length lid = 16" and ok: "node_ok a" and s: "sending lid i key ob a"
    and q: "nd_outbound a = []" and w: "proves X lid j ob b"
    and u: "unseen_over X E j i b a r" and h: "hand_over X E j i b a r = (ea, b', a', r')"
  shows "ea = [ResourceComplete lid (ob_hash ob) []]" and "nd_outbound a' = []" and "nd_outbound b' = []"
    and "bt_get (lid, ob_hash ob) (nd_outbound_resources a') = None" and "bt_get (lid, ob_hash ob) (nd_inbound_resources b') = None"
proof -
  let ?p = "packet_encode (packet_proof lid (ob_hash ob @ ob_expected_proof ob) RESOURCE_PRF)"
  have b: "nd_outbound b = [(j, ?p)]" "bt_get (lid, ob_hash ob) (nd_inbound_resources b) = None"
    using w by (simp_all add: proves_def)
  obtain ea1 a1 r1 where g: "handle_inbound_with_entropy X E ?p i r a = (ea1, a1, r1)" by (metis prod_cases3)
  have "unseen X ?p a" using u b(1) by (simp add: unseen_over_def)
  note t = proof_taken [OF c lid ok s q this g]
  have e: "ea = ea1" "a' = a1" "b' = b\<lparr>nd_outbound := []\<rparr>" using h g b(1) by (simp_all add: hand_over_def)
  show "ea = [ResourceComplete lid (ob_hash ob) []]" "nd_outbound a' = []" "nd_outbound b' = []"
    "bt_get (lid, ob_hash ob) (nd_outbound_resources a') = None" "bt_get (lid, ob_hash ob) (nd_inbound_resources b') = None"
    using t e b(2) by simp_all
qed

text \<open>Each round leaves less to do, until the receiver has everything.\<close>

lemma talk_completes:
  assumes c: "carries X key d ob" and E: "entropy_ok E" and F: "entropy_ok F" and lid: "length lid = 16"
  shows "under_way X lid i j key d ob ib a b \<Longrightarrow> todo ib \<le> n \<Longrightarrow> talk_unseen X E F i j n a r b s \<Longrightarrow>
    talk X E F i j n a r b s = (ea, eb, a', b') \<Longrightarrow> transferred lid (ob_hash ob) d ea eb a' b'"
proof (induction n arbitrary: a r b s ib ea eb a' b')
  case 0
  then show ?case using awaits_todo by (fastforce simp: under_way_def receiving_def)
next
  case (Suc n)
  have X: "hkdf_ok X" using c crypto_okD(4) by (auto simp: carries_def)
  obtain k outs ps where w: "node_ok a" "node_ok b" "sending lid i key ob a" "nd_outbound b = []"
      "receiving X lid j key d ob k ib b" "awaits X ob k ib outs" "list_all2 (answer_packet X lid key) outs ps"
      "nd_outbound a = map (Pair i) ps"
    using Suc.prems(1) unfolding under_way_def by blast
  have f: "map snd (filter (\<lambda>q. fst q = i) (nd_outbound a)) = ps" by (simp add: w(8) filter_map comp_def)
  obtain eb1 b1 s1 where h: "handle_all X F ps j s b = (eb1, b1, s1)" by (metis prod_cases3)
  let ?a = "a\<lparr>nd_outbound := []\<rparr>"
  have ho: "hand_over X F i j a b s = (eb1, ?a, b1, s1)" using h by (simp add: hand_over_def f)
  obtain ea1 b2 a2 r2 where ho2: "hand_over X E j i b1 ?a r = (ea1, b2, a2, r2)" by (metis prod_cases4)
  obtain ea2 eb2 a3 b3 where t: "talk X E F i j n a2 r2 b2 s1 = (ea2, eb2, a3, b3)" by (metis prod_cases4)
  have fin: "ea = ea1 @ ea2" "eb = eb1 @ eb2" "a' = a3" "b' = b3" using Suc.prems(4) ho ho2 t by simp_all
  have u: "all_unseen X F ps j s b" "unseen_over X E j i b1 ?a r" "talk_unseen X E F i j n a2 r2 b2 s1"
    using Suc.prems(3) ho ho2 by (simp_all add: unseen_over_def f)
  have ok: "node_ok b1" "node_ok ?a" using handle_all_ok [OF X w(2) h] w(1) by simp_all
  have se: "sending lid i key ob ?a" "nd_outbound ?a = []" using w(3) by simp_all
  obtain qs where qs: "\<forall>e \<in> set qs. is_progress lid (ob_hash ob) e"
    "eb1 = qs \<and> (\<exists>ib'. asks X lid j key d ob ib' b1 \<and> todo ib' < todo ib) \<or>
     eb1 = qs @ [ResourceComplete lid (ob_hash ob) d] \<and> proves X lid j ob b1"
    using receiver_turn [OF c F lid w(2,5,4,6,7) u(1) h] by (auto simp: turn_def)
  then consider (more) ib' where "eb1 = qs" "asks X lid j key d ob ib' b1" "todo ib' < todo ib"
    | (proved) "eb1 = qs @ [ResourceComplete lid (ob_hash ob) d]" "proves X lid j ob b1" by auto
  then show ?case
  proof cases
    case more
    note st = sender_turn [OF c E lid ok(2,1) se more(2) u(2) ho2]
    have "transferred lid (ob_hash ob) d ea2 eb2 a3 b3"
      by (rule Suc.IH [OF st(2) _ u(3) t]) (use more(3) Suc.prems(2) in simp)
    then show ?thesis using st(1) qs(1) more(1) unfolding transferred_def fin
      by (metis Un_iff append.assoc append_Nil set_append)
  next
    case proved
    note pt = proof_turn [OF c lid ok(2) se proved(2) u(2) ho2]
    have "talk X E F i j n a2 r2 b2 s1 = ([], [], a2, b2)" by (rule talk_quiet [OF pt(2,3)])
    then have "ea2 = []" "eb2 = []" "a3 = a2" "b3 = b2" using t by simp_all
    then show ?thesis using pt proved(1) qs(1) unfolding transferred_def fin by auto
  qed
qed

lemma resource_sent:
  assumes "live_link lid i key a" and "nd_outbound a = []" and "entropy_ok E"
    and "send_resource X E lid d r a = Some (Inr h, a', r')"
  obtains ob adv iv r1 where "outbound_new X E d key r (nd_clock a) = Some (Inr (ob, adv), r1)" and "h = ob_hash ob"
    and "length iv = 16" and "sending lid i key ob a'"
    and "bt_get (lid, h) (nd_outbound_resources a') = Some ob"
    and "nd_outbound a' = [(i, packet_encode (link_context lid RESOURCE_ADV (seal_with_key X key adv iv)))]"
proof -
  have "active_key lid a = Some (key, i)" using assms(1) by (auto simp: active_key_def live_link_def)
  then obtain ob adv r1 where n: "outbound_new X E d key r (nd_clock a) = Some (Inr (ob, adv), r1)"
    using assms(4) by (auto simp: send_resource_def split: option.splits sum.splits)
  obtain iv r2 where iv: "E r1 16 = (iv, r2)" by fastforce
  have "a' = push_out i (packet_encode (link_context lid RESOURCE_ADV (seal_with_key X key adv iv)))
      (a\<lparr>nd_outbound_resources := bt_insert (lid, ob_hash ob) ob (nd_outbound_resources a)\<rparr>)" "h = ob_hash ob"
    using assms(4) \<open>active_key lid a = Some (key, i)\<close> n iv
    by (auto simp: send_resource_def enqueue_encrypted_link_context_def Let_def)
  moreover have "ob\<lparr>ob_last_activity := ob_last_activity ob\<rparr> = ob" by simp
  ultimately show thesis using n assms(1,2) entropy_filled [OF assms(3) iv]
    by (intro that [OF n, of iv]) (auto simp: sending_def bt_simps intro: exI [of _ "ob_last_activity ob"])
qed

lemma new_carries:
  assumes X: "crypto_ok X" "rmp_ok X" "bzip2_ok X" and E: "entropy_ok E"
    and new: "outbound_new X E d key r t0 = Some (Inr (ob, adv), r')" and dist: "distinct (ob_map_hashes ob)"
  shows "carries X key d ob" and "ob_total_size ob = word_of_nat (length d)"
proof -
  obtain w ib where "exchange_inv X ob (ob, ib)" using new_transfer_paired [OF X(1,2) E new dist] by blast
  then have "ob_ok X ob" by (simp add: exchange_inv_def)
  moreover have r: "ob_expected_proof ob = resource_proof X d (ob_hash ob)" "\<not> ob_completed ob" "ob_total_size ob = word_of_nat (length d)"
    by (rule outbound_new_result [OF new], assumption)+
  ultimately show "carries X key d ob"
    using X finalize_complete(1) [OF X(1,3) E new] unfolding carries_def by blast
  show "ob_total_size ob = word_of_nat (length d)" by (rule r(3))
qed

text \<open>The first round: the receiver accepts the advertisement and asks, the sender answers.\<close>

lemma first_round:
  assumes c: "carries X key d ob" and E: "entropy_ok E" and F: "entropy_ok F" and lid: "length lid = 16"
    and ok: "node_ok a" "node_ok b" and s: "sending lid i key ob a"
    and live: "live_link lid j key b" and q: "nd_outbound b = []"
    and none: "\<forall>h. bt_get (lid, h) (nd_inbound_resources b) = None"
    and adv: "adv_unpack X adv = Inr w" "inbound_from_advertisement w = Inr ib" "paired X ob k ib"
      "ib_total_size ib = ob_total_size ob" "ib_compressed ib = snd (compress_if_useful X d)"
    and iv: "length iv = 16"
    and a: "nd_outbound a = [(i, packet_encode (link_context lid RESOURCE_ADV (seal_with_key X key adv iv)))]"
    and h: "hand_over X F i j a b sb = (eb, a1, b1, sb1)" "hand_over X E j i b1 a1 ra = (ea, b2, a2, ra2)"
    and u: "unseen_over X F i j a b sb" "unseen_over X E j i b1 a1 ra"
  shows "ea = []" and "eb = [ResourceStarted lid (ob_hash ob) (ob_total_size ob)]"
    and "\<exists>ib'. under_way X lid i j key d ob ib' a2 b2 \<and> todo ib' = todo ib"
proof -
  have X: "hkdf_ok X" using c crypto_okD(4) by (auto simp: carries_def)
  let ?p = "packet_encode (link_context lid RESOURCE_ADV (seal_with_key X key adv iv))"
  have g: "handle_inbound_with_entropy X F ?p j sb b = (eb, b1, sb1)" and a1: "a1 = a\<lparr>nd_outbound := []\<rparr>"
    using h(1) a by (auto simp: hand_over_def split: prod.splits)
  have up: "unseen X ?p b" using u(1) a by (simp add: unseen_over_def split: prod.splits)
  note t = advertisement_taken [OF c F lid ok(2) live q none adv iv up g]
  then obtain ib' where ib': "asks X lid j key d ob ib' b1" "todo ib' = todo ib" by blast
  have ok1: "node_ok a1" "node_ok b1" using ok(1) a1 inbound_with_entropy_ok [OF X ok(2) g] by simp_all
  have se: "sending lid i key ob a1" "nd_outbound a1 = []" using s a1 by simp_all
  note st = sender_turn [OF c E lid ok1 se ib'(1) u(2) h(2)]
  show "ea = []" "eb = [ResourceStarted lid (ob_hash ob) (ob_total_size ob)]" using st(1) t(1) by simp_all
  show "\<exists>ib'. under_way X lid i j key d ob ib' a2 b2 \<and> todo ib' = todo ib" using st(2) ib'(2) by blast
qed

end
