(* ===== verification/Transfer_Properties.thy ===== *)
theory Transfer_Properties
  imports Node_Transfer Node_Properties Resource_Properties
begin

text \<open>
  The property of a file transfer between two nodes, with two nodes to witness it: a transfer of one part,
  with third-party functions whose hash tells the packets of a link apart by their context.
\<close>

section \<open>Two nodes with a link\<close>

text \<open>Third-party functions whose hash of a link's packet begins with the packet's context.\<close>

definition turned_ext :: ext where
  "turned_ext = toy_ext\<lparr>x_sha256 := \<lambda>m. fit 32 (drop 17 m @ take 17 m)\<rparr>"

lemma turned_ok: "crypto_ok turned_ext" "rmp_ok turned_ext" "bzip2_ok turned_ext" "x_bzip2 turned_ext = None"
proof -
  have f: "x25519_ok (X\<lparr>x_sha256 := f\<rparr>) = x25519_ok X" "ed25519_ok (X\<lparr>x_sha256 := f\<rparr>) = ed25519_ok X"
    "hkdf_ok (X\<lparr>x_sha256 := f\<rparr>) = hkdf_ok X" "cipher_ok (X\<lparr>x_sha256 := f\<rparr>) = cipher_ok X"
    "rmp_ok (X\<lparr>x_sha256 := f\<rparr>) = rmp_ok X" "bzip2_ok (X\<lparr>x_sha256 := f\<rparr>) = bzip2_ok X" for X f
    by (cases X; simp only: x25519_ok_def ed25519_ok_def hkdf_ok_def cipher_ok_def hmac_ok_def aes_ok_def
        rmp_ok_def rmp_write_ok_def rmp_read_ok_def bzip2_ok_def ext.simps)+
  have s: "sha_ok turned_ext" by (simp add: sha_ok_def turned_ext_def)
  then show "crypto_ok turned_ext" "rmp_ok turned_ext" "bzip2_ok turned_ext" "x_bzip2 turned_ext = None"
    using crypto_okD [OF toy_ok] toy_rmp_ok toy_bzip2_ok
    by (simp_all add: crypto_ok_def turned_ext_def f) (simp add: toy_ext_def)
qed

lemma turned_hash:
  assumes "length lid = 16"
  shows "hd (packet_hash turned_ext (new_header1 dt pt lid c d)) = c" "packet_hash turned_ext p \<noteq> []"
  using assms
  by (simp_all add: packet_hash_def full_packet_hash_def full_hash_def turned_ext_def toy_ext_def fit_def hashable_part_def)

lemma turned_unseen:
  assumes ok: "packet_ok p" "hops p < PATHFINDER_MAX_HOPS" "node_ok nd" "unseen turned_ext (packet_encode p) nd" "nd_seen_packets nd = []"
    and h: "handle_inbound_with_entropy turned_ext E (packet_encode p) i r nd = (evs, nd', r')"
    and q: "packet_ok q" "hd (packet_hash turned_ext p) \<noteq> hd (packet_hash turned_ext q)"
  shows "unseen turned_ext (packet_encode q) nd'"
proof -
  have "\<not> bt_contains (packet_hash turned_ext q) (nd_seen_packets nd)" using ok(5) by (simp add: bt_contains_def bt_get_def)
  then show ?thesis using seen_grows [OF ok(1-4) h, of "packet_hash turned_ext q"] q by (auto simp: unseen_encoded)
qed

definition demo_peer :: node where
  "demo_peer = demo_fresh\<lparr>nd_links := [(replicate 16 0, demo_link\<lparr>le_initiator := False, le_interface := 1\<rparr>)]\<rparr>"

lemma demo_peer_ok: "node_ok demo_peer"
  unfolding demo_peer_def
  by (rule node_ok_links [OF demo_fresh_simps(1)])
    (auto simp: links_get_def bt_get_def bt_ok_def bt_keys_def link_ok_def demo_link_def split: if_splits)

lemma demo_ends:
  "live_link (replicate 16 0) 2 (replicate 64 0) demo_linked" "live_link (replicate 16 0) 1 (replicate 64 0) demo_peer"
  "nd_outbound demo_peer = []" "nd_seen_packets demo_peer = []" "bt_get k (nd_inbound_resources demo_peer) = None"
  using demo_linked_get
  by (simp_all add: live_link_def demo_link_def demo_peer_def demo_fresh_simps links_get_def bt_get_def)
    (simp add: demo_fresh_def node_with_clock_def)

lemma link_context_packet:
  "length lid = 16 \<Longrightarrow> packet_ok (link_context lid c d)" "hops (link_context lid c d) = 0"
  "length lid = 16 \<Longrightarrow> hd (packet_hash turned_ext (link_context lid c d)) = c"
  "length lid = 16 \<Longrightarrow> packet_ok (packet_proof lid d c)"
  "length lid = 16 \<Longrightarrow> hd (packet_hash turned_ext (packet_proof lid d c)) = c"
  using turned_hash(1)
  by (auto simp: link_context_def link_data_with_context_def packet_proof_def packet_types dest_types intro: new_header1_ok)

text \<open>A sender of one part can only be asked for it.\<close>

lemma one_part_answer:
  assumes "under_way X lid i j key d ob ib a b" and "length (ob_parts ob) = 1"
  obtains k outs where "node_ok a" "receiving X lid j key d ob k ib b" "awaits X ob k ib outs" "node_ok b" "nd_outbound b = []"
    "list_all2 (answer_packet X lid key) outs [packet_encode (link_context lid RESOURCE (ob_parts ob ! 0))]"
    "nd_outbound a = map (Pair i) [packet_encode (link_context lid RESOURCE (ob_parts ob ! 0))]"
proof -
  obtain k outs ps where w: "node_ok a" "receiving X lid j key d ob k ib b" "awaits X ob k ib outs"
      "list_all2 (answer_packet X lid key) outs ps" "nd_outbound a = map (Pair i) ps" "node_ok b" "nd_outbound b = []"
    using assms(1) unfolding under_way_def by blast
  have k1: "k = 1" using w(2) assms(2) by (auto simp: receiving_def paired_def HASHMAP_MAX_LEN_def)
  obtain "is" where s: "is \<noteq> []" "distinct is" "\<forall>x \<in> set is. x < k" "outs = map (\<lambda>x. Part (ob_parts ob ! x)) is"
    using w(3) assms(2) k1 by (auto simp: awaits_def)
  have "is = [0]" using s(1-3) k1 by (cases "is"; cases "tl is") auto
  then have "ps = [packet_encode (link_context lid RESOURCE (ob_parts ob ! 0))]"
    using w(4) s(4) by (auto simp: answer_packet_def list_all2_Cons1)
  then show thesis using that w by blast
qed

text \<open>The rounds of a transfer of one part, at two nodes that have seen no packet.\<close>

lemma one_part_unseen:
  fixes a b :: node
  assumes c: "carries turned_ext key d ob" "length (ob_parts ob) = 1" and lid: "length lid = 16" and ok: "node_ok a" "node_ok b"
    and live: "live_link lid j key b" and q: "nd_outbound b = []" and none: "\<forall>h. bt_get (lid, h) (nd_inbound_resources b) = None"
    and seen: "nd_seen_packets a = []" "nd_seen_packets b = []" and s: "sending lid i key ob a"
    and adv: "adv_unpack turned_ext adv = Inr w" "inbound_from_advertisement w = Inr ib" "paired turned_ext ob k ib"
      "ib_total_size ib = ob_total_size ob" "ib_compressed ib = snd (compress_if_useful turned_ext d)"
    and iv: "length iv = 16"
    and a: "nd_outbound a = [(i, packet_encode (link_context lid RESOURCE_ADV (seal_with_key turned_ext key adv iv)))]"
  shows "talk_unseen turned_ext zeros zeros i j 2 a () b ()"
proof -
  let ?X = turned_ext and ?ps = "[packet_encode (link_context lid RESOURCE (ob_parts ob ! 0))]"
  let ?p = "link_context lid RESOURCE_ADV (seal_with_key ?X key adv iv)" and ?a = "a\<lparr>nd_outbound := []\<rparr>"
  have u1: "unseen ?X (packet_encode ?p) b" by (rule nothing_seen [OF seen(2)])
  obtain eb b1 where h1: "handle_inbound_with_entropy ?X zeros (packet_encode ?p) j () b = (eb, b1, ())" by (metis prod_cases3 old.unit.exhaust)
  note X = crypto_okD(4) [OF turned_ok(1)]
  have ok1: "node_ok b1" by (rule inbound_with_entropy_ok [OF X ok(2) h1])
  obtain ib' where as: "asks ?X lid j key d ob ib' b1" "todo ib' = todo ib"
    using advertisement_taken(2) [OF c(1) zeros_ok lid ok(2) live q none adv iv u1 h1] by blast
  then obtain req iv2 where b1: "nd_outbound b1 = [(j, packet_encode (link_context lid RESOURCE_REQ (seal_with_key ?X key req iv2)))]"
    by (auto simp: asks_def)
  let ?q = "link_context lid RESOURCE_REQ (seal_with_key ?X key req iv2)"
  have sa: "nd_seen_packets ?a = []" "node_ok ?a" "nd_outbound ?a = []" "sending lid i key ob ?a" using seen ok s by simp_all
  have u2: "unseen ?X (packet_encode ?q) ?a" by (rule nothing_seen [OF sa(1)])
  obtain ea a2 where h2: "handle_inbound_with_entropy ?X zeros (packet_encode ?q) i () ?a = (ea, a2, ())" by (metis prod_cases3 old.unit.exhaust)
  let ?b = "b1\<lparr>nd_outbound := []\<rparr>"
  have ho1: "hand_over ?X zeros i j a b () = (eb, ?a, b1, ())" using h1 a by (simp add: hand_over_def)
  have ho2: "hand_over ?X zeros j i b1 ?a () = (ea, ?b, a2, ())" using h2 b1 by (simp add: hand_over_def)
  have uo: "unseen_over ?X zeros j i b1 ?a ()" using u2 b1 by (simp add: unseen_over_def)
  note st = sender_turn(2) [OF c(1) zeros_ok lid sa(2) ok1 sa(4,3) as(1) uo ho2]
  obtain k outs where w: "node_ok a2" "receiving ?X lid j key d ob k ib' ?b" "awaits ?X ob k ib' outs" "node_ok ?b" "nd_outbound ?b = []"
      "list_all2 (answer_packet ?X lid key) outs ?ps" "nd_outbound a2 = map (Pair i) ?ps"
    by (rule one_part_answer [OF st c(2)])
  let ?r = "link_context lid RESOURCE (ob_parts ob ! 0)" and ?s = "packet_proof lid (ob_hash ob @ ob_expected_proof ob) RESOURCE_PRF"
  have u3: "unseen ?X (packet_encode ?r) ?b"
    using turned_unseen [OF link_context_packet(1) [OF lid] _ ok(2) u1 seen(2) h1 link_context_packet(1) [OF lid]]
    by (simp add: link_context_packet(2) link_context_packet(3) [OF lid] PATHFINDER_MAX_HOPS_def contexts)
  obtain eb2 b2 where h3: "handle_all ?X zeros ?ps j () ?b = (eb2, b2, ())" by (metis prod_cases3 old.unit.exhaust)
  have u3': "all_unseen ?X zeros ?ps j () ?b" using u3 by (simp split: prod.split)
  have t: "turn ?X lid j key d ob (todo ib') eb2 b2"
    by (rule receiver_turn [OF c(1) zeros_ok lid w(4,2,5,3,6) u3' h3])
  have "ob_parts ob \<noteq> []" using c(2) by auto
  then have "todo ib' < 2" using todo_start [OF adv(3)] as(2) c(2) by simp
  then have "proves ?X lid j ob b2"
    using t awaits_todo by (fastforce simp: turn_def asks_def receiving_def)
  then have b2: "nd_outbound b2 = [(j, packet_encode ?s)]" by (simp add: proves_def)
  let ?a2 = "a2\<lparr>nd_outbound := []\<rparr>"
  have u4: "unseen ?X (packet_encode ?s) ?a2"
    using turned_unseen [OF link_context_packet(1) [OF lid] _ sa(2) u2 sa(1) h2 link_context_packet(4) [OF lid]]
    by (simp add: link_context_packet(2) link_context_packet(3,5) [OF lid] PATHFINDER_MAX_HOPS_def contexts)
  have ho3: "hand_over ?X zeros i j a2 ?b () = (eb2, ?a2, b2, ())" and "unseen_over ?X zeros i j a2 ?b ()"
    using h3 u3' w(7) by (simp_all add: hand_over_def unseen_over_def)
  moreover have "unseen_over ?X zeros i j a b ()" "unseen_over ?X zeros j i b2 ?a2 ()"
    using u1 u4 a b2 by (simp_all add: unseen_over_def split: prod.split)
  ultimately show ?thesis using uo ho1 ho2 by (simp add: numeral_2_eq_2 split: prod.split)
qed

section \<open>The transfer\<close>

text \<open>C4: A file crosses from one node to another. Two nodes with empty queues share an active link, the second
  holds no other inbound resource on it, and the first sends a resource over it whose parts have pairwise
  distinct map hashes (which the sender guarantees for up to 225 parts, the span in which it looks for equal
  ones). The nodes then take in, in turns, what the other has queued for the line between them, and no
  packet is taken for one seen before. After two rounds per part, the first node has reported exactly that
  the resource is complete, the second exactly its start, the progress of its parts and its completion with
  the payload that was sent; neither has anything left to send, and the entries of the transfer are gone
  from both.\<close>

theorem file_transferred:
  assumes "crypto_ok X" "rmp_ok X" "bzip2_ok X" and "entropy_ok E" "entropy_ok F" and "node_ok a" "node_ok b"
    and "length lid = 16" "live_link lid i key a" "live_link lid j key b"
    and "nd_outbound a = []" "nd_outbound b = []" "\<forall>h. bt_get (lid, h) (nd_inbound_resources b) = None"
    and "send_resource X E lid d r a = Some (Inr h, a1, r1)" and "bt_get (lid, h) (nd_outbound_resources a1) = Some ob"
    and "distinct (ob_map_hashes ob) \<or> length (ob_parts ob) \<le> 225"
    and "n = 2 * length (ob_parts ob)" and "talk_unseen X E F i j n a1 r1 b s"
    and "talk X E F i j n a1 r1 b s = (ea, eb, a2, b2)"
  shows "ea = [ResourceComplete lid h []] \<and>
    (\<exists>ps. eb = ResourceStarted lid h (word_of_nat (length d)) # ps @ [ResourceComplete lid h d] \<and>
       (\<forall>e \<in> set ps. \<exists>progress. e = ResourceProgress lid h progress)) \<and>
    nd_outbound a2 = [] \<and> nd_outbound b2 = [] \<and>
    bt_get (lid, h) (nd_outbound_resources a2) = None \<and> bt_get (lid, h) (nd_inbound_resources b2) = None"
proof -
  obtain ob0 adv iv r0 where sent: "outbound_new X E d key r (nd_clock a) = Some (Inr (ob0, adv), r0)" "h = ob_hash ob0"
    "length iv = 16" "sending lid i key ob0 a1" "bt_get (lid, h) (nd_outbound_resources a1) = Some ob0"
    "nd_outbound a1 = [(i, packet_encode (link_context lid RESOURCE_ADV (seal_with_key X key adv iv)))]"
    by (rule resource_sent [OF assms(9,11,4,14)])
  have ob: "ob0 = ob" using sent(5) assms(15) by simp
  note sent = sent [unfolded ob]
  have dist: "distinct (ob_map_hashes ob)" using assms(16) small_transfer_distinct [OF sent(1)] by blast
  note new = new_carries [OF assms(1-4) sent(1) dist]
  obtain w ib where w: "adv_unpack X adv = Inr w" "inbound_from_advertisement w = Inr ib" "exchange_inv X ob (ob, ib)"
      "ib_compressed ib = snd (compress_if_useful X d)"
    using new_transfer_paired [OF assms(1,2,4) sent(1) dist] by blast
  then obtain k where k: "paired X ob k ib" "ib_total_size ib = ob_total_size ob" by (auto simp: exchange_inv_def)
  have ne: "ob_parts ob \<noteq> []" using inbound_new_ok [OF w(2)] k(1) by (auto simp: ib_ok_def paired_def)
  then have "n \<noteq> 0" using assms(17) by simp
  then obtain m where m: "n = Suc m" by (cases n) auto
  obtain eb1 a3 b3 s1 where ho: "hand_over X F i j a1 b s = (eb1, a3, b3, s1)" by (metis prod_cases4)
  obtain ea1 b4 a4 r4 where ho2: "hand_over X E j i b3 a3 r1 = (ea1, b4, a4, r4)" by (metis prod_cases4)
  obtain ea2 eb2 a5 b5 where t: "talk X E F i j m a4 r4 b4 s1 = (ea2, eb2, a5, b5)" by (metis prod_cases4)
  have fin: "ea = ea1 @ ea2" "eb = eb1 @ eb2" "a2 = a5" "b2 = b5" using assms(19) ho ho2 t m by simp_all
  have u: "unseen_over X F i j a1 b s" "unseen_over X E j i b3 a3 r1" "talk_unseen X E F i j m a4 r4 b4 s1"
    using assms(18) ho ho2 m by simp_all
  note first = first_round [OF new(1) assms(4,5,8) node_ok_send_resource [OF assms(14,6)] assms(7) sent(4) assms(10,12,13)
      w(1,2) k w(4) sent(3,6) ho ho2 u(1,2)]
  then obtain ib' where ib': "under_way X lid i j key d ob ib' a4 b4" "todo ib' = todo ib" by blast
  have "transferred lid (ob_hash ob) d ea2 eb2 a5 b5"
    by (rule talk_completes [OF new(1) assms(4,5,8) ib'(1) _ u(3) t]) (use todo_start [OF k(1) ne] ib'(2) assms(17) m in simp)
  then show ?thesis using first(1,2) new(2) sent(2) fin by (auto simp: transferred_def is_progress_def)
qed

theorem file_transferred_witness:
  "\<exists>h a1 eb a2 b2. send_resource turned_ext zeros (replicate 16 0) [7, 8, 9] () demo_linked = Some (Inr h, a1, ()) \<and>
     talk turned_ext zeros zeros 2 1 2 a1 () demo_peer () = ([ResourceComplete (replicate 16 0) h []], eb, a2, b2) \<and>
     last eb = ResourceComplete (replicate 16 0) h [7, 8, 9]"
proof -
  let ?X = turned_ext and ?lid = "replicate 16 (0 :: u8)" and ?key = "replicate 64 (0 :: u8)" and ?d = "[7, 8, 9] :: bytes"
  have lid: "length ?lid = 16" by simp
  obtain ob adv where new: "outbound_new ?X zeros ?d ?key () (nd_clock demo_linked) = Some (Inr (ob, adv), ())" and one: "length (ob_parts ob) = 1"
    using single_part_sent [OF crypto_okD(5) [OF turned_ok(1)] _ _ turned_ok(4), of ?d ?key "nd_clock demo_linked"] by auto
  obtain res a1 where s: "send_resource ?X zeros ?lid ?d () demo_linked = Some (Inr (ob_hash ob), a1, ())"
    using demo_ends(1) new by (auto simp: send_resource_def active_key_def live_link_def case_prod_beta Let_def)
  obtain ob' adv' iv r1 where sent: "outbound_new ?X zeros ?d ?key () (nd_clock demo_linked) = Some (Inr (ob', adv'), r1)"
    "ob_hash ob = ob_hash ob'" "length iv = 16" "sending ?lid 2 ?key ob' a1" "bt_get (?lid, ob_hash ob) (nd_outbound_resources a1) = Some ob'"
    "nd_outbound a1 = [(2, packet_encode (link_context ?lid RESOURCE_ADV (seal_with_key ?X ?key adv' iv)))]"
    by (rule resource_sent [OF demo_ends(1) demo_linked_simps(3) zeros_ok s])
  have e: "ob' = ob" "adv' = adv" using sent(1) new by simp_all
  have dist: "distinct (ob_map_hashes ob)" using small_transfer_distinct [OF new] one by simp
  obtain w ib where w: "adv_unpack ?X adv = Inr w" "inbound_from_advertisement w = Inr ib" "exchange_inv ?X ob (ob, ib)"
      "ib_compressed ib = snd (compress_if_useful ?X ?d)"
    using new_transfer_paired [OF turned_ok(1,2) zeros_ok new dist] by blast
  then obtain k where k: "paired ?X ob k ib" "ib_total_size ib = ob_total_size ob" by (auto simp: exchange_inv_def)
  have seen: "nd_seen_packets a1 = []"
    using s demo_linked_simps(1)
    by (auto simp: send_resource_def enqueue_encrypted_link_context_def Let_def case_prod_beta split: option.splits sum.splits)
  have none: "\<forall>h. bt_get (?lid, h) (nd_inbound_resources demo_peer) = None" using demo_ends(5) by blast
  have u: "talk_unseen ?X zeros zeros 2 1 2 a1 () demo_peer ()"
    by (rule one_part_unseen [OF new_carries(1) [OF turned_ok(1-3) zeros_ok new dist] one lid node_ok_send_resource [OF s demo_linked_ok]
        demo_peer_ok demo_ends(2,3) none seen demo_ends(4) sent(4) [unfolded e] w(1,2) k w(4) sent(3,6) [unfolded e]])
  obtain ea eb a2 b2 where t: "talk ?X zeros zeros 2 1 2 a1 () demo_peer () = (ea, eb, a2, b2)" by (metis prod_cases4)
  have "ea = [ResourceComplete ?lid (ob_hash ob) []] \<and>
    (\<exists>ps. eb = ResourceStarted ?lid (ob_hash ob) (word_of_nat (length ?d)) # ps @ [ResourceComplete ?lid (ob_hash ob) ?d] \<and>
       (\<forall>e \<in> set ps. \<exists>progress. e = ResourceProgress ?lid (ob_hash ob) progress)) \<and>
    nd_outbound a2 = [] \<and> nd_outbound b2 = [] \<and>
    bt_get (?lid, ob_hash ob) (nd_outbound_resources a2) = None \<and> bt_get (?lid, ob_hash ob) (nd_inbound_resources b2) = None"
    by (rule file_transferred [OF turned_ok(1-3) zeros_ok zeros_ok demo_linked_ok demo_peer_ok lid demo_ends(1,2) demo_linked_simps(3)
        demo_ends(3) none s sent(5) [unfolded e] _ _ u t]) (use dist one in simp_all)
  then show ?thesis using s t by auto
qed

end
