(* ===== verification/Tcp_Server.thy ===== *)
theory Tcp_Server
  imports Cli_Startup
begin

text \<open>
  The TCP listener of reticulum-tokio/src/tcp.rs: a loop that takes a number from the registrar, waits for a
  connection, wraps it with the listener's access code and registers it with the driver.
\<close>

section \<open>The loop\<close>

datatype accepted = Connection channel | AcceptFailed

text \<open>The connections that arrive; with them the error that ends the server (\<open>None\<close>: it waits for the next
  connection), the registrar's counter, the driver's registrations and what was registered.\<close>

fun serve_with_ifac ::
    "ifac_config option \<Rightarrow> accepted list \<Rightarrow> u32 \<Rightarrow> (u16 \<times> channel) list option
      \<Rightarrow> io_kind option \<times> u32 \<times> (u16 \<times> channel) list option \<times> (u16 \<times> ifac_config option) list" where
  "serve_with_ifac ifac connections next_id q =
     (case allocate_id next_id of
        (Inl _, next_id) \<Rightarrow> (Some InvalidInput, next_id, q, [])
      | (Inr i, next_id) \<Rightarrow>
          (case connections of
             [] \<Rightarrow> (None, next_id, q, [])
           | AcceptFailed # _ \<Rightarrow> (Some OsError, next_id, q, [])
           | Connection task # connections \<Rightarrow>
               (case registrar_register (i, task) q of
                  (Inl _, q) \<Rightarrow> (Some BrokenPipe, next_id, q, [])
                | (Inr _, q) \<Rightarrow>
                    (case serve_with_ifac ifac connections next_id q of
                       (e, next_id, q, registered) \<Rightarrow> (e, next_id, q, (i, ifac) # registered)))))"

declare serve_with_ifac.simps [simp del]

definition serve ::
    "accepted list \<Rightarrow> u32 \<Rightarrow> (u16 \<times> channel) list option
      \<Rightarrow> io_kind option \<times> u32 \<times> (u16 \<times> channel) list option \<times> (u16 \<times> ifac_config option) list" where
  "serve connections next_id q = serve_with_ifac None connections next_id q"

section \<open>The numbers given\<close>

lemma unat_next: "unat n < 2 ^ 16 \<Longrightarrow> unat (n + 1 :: u32) = unat n + 1"
  by (simp add: unat_word_ariths)

text \<open>Consecutive numbers from the counter on, all below 65536.\<close>

lemma serve_ids:
  assumes "serve_with_ifac ifac connections n q = (e, n', q', registered)"
  shows "map fst registered = map word_of_nat [unat n..<unat n + length registered] \<and>
    (registered \<noteq> [] \<longrightarrow> unat n + length registered \<le> 65536)"
  using assms
proof (induction connections arbitrary: n q registered)
  case Nil
  then show ?case by (auto simp: serve_with_ifac.simps [of _ "[]"] allocate_id_def split: if_splits)
next
  case (Cons c connections)
  show ?case
  proof (cases "registered = []")
    case False
    then obtain task ics rest where c: "c = Connection task" and n: "unat n < 2 ^ 16" and q: "q = Some ics"
      and r: "serve_with_ifac ifac connections (n + 1) (Some (ics @ [(ucast n, task)])) = (e, n', q', rest)"
      and reg: "registered = (ucast n, ifac) # rest"
      using Cons.prems by (auto simp: serve_with_ifac.simps [of _ "c # connections"] allocate_id_def registrar_register_def
          split: if_splits accepted.splits option.splits prod.splits)
    have "map fst rest = map word_of_nat [unat n + 1..<unat n + 1 + length rest]"
      "rest \<noteq> [] \<Longrightarrow> unat n + 1 + length rest \<le> 65536"
      using Cons.IH [OF r] by (simp_all add: unat_next [OF n])
    moreover have "[unat n..<unat n + length registered] = unat n # [unat n + 1..<unat n + 1 + length rest]"
      by (simp add: reg upt_conv_Cons del: upt_Suc)
    moreover have "unat n + length registered \<le> 65536" if "rest = []" using n that by (simp add: reg)
    ultimately show ?thesis by (cases "rest = []") (simp_all add: reg del: upt_Suc)
  qed simp
qed

text \<open>Numbers of connections that have ended are not used again: with 65536 numbers given, the server ends.\<close>

lemma serve_exhausted: "unat n \<ge> 2 ^ 16 \<Longrightarrow> serve_with_ifac ifac connections n q = (Some InvalidInput, n + 1, q, [])"
  by (simp add: serve_with_ifac.simps allocate_id_def)

end
