(* ===== verification/Cli_Properties.thy ===== *)
theory Cli_Properties
  imports Tcp_Server Toy_Ext
begin

text \<open>
  Properties of the daemon: what its start establishes, the identity it keeps, and the mode that sends one
  message.
\<close>

section \<open>Starting\<close>

text \<open>Numbers a registrar gives out after the first \<open>n\<close> are never those of an interface in use.\<close>

lemma served_distinct:
  assumes "map bi_id ifs = map word_of_nat [0..<length ifs]" and "length ifs \<le> 65536" and "next_id = word_of_nat (length ifs)"
    and r: "serve_with_ifac ifac connections next_id q = (e, next_id', q', registered)"
  shows "distinct (map bi_id ifs @ map fst registered)"
proof -
  have n: "unat next_id = length ifs" using assms(2,3) by (simp add: unat_of_nat take_bit_nat_def)
  have "map bi_id ifs @ map fst registered = map word_of_nat [0..<length ifs + length registered]"
    using serve_ids [OF r] assms(1) upt_add_eq_append [of 0 "length ifs" "length registered"] by (simp add: n)
  moreover have "length ifs + length registered \<le> 65536" using serve_ids [OF r] assms(2) n by (cases "registered = []") auto
  ultimately show ?thesis using small_ids_distinct by metis
qed

text \<open>C36: The daemon starts what its arguments and its configuration ask for. A daemon that runs has the mode its
  arguments parse to, the configuration read from the path they name, and the identity kept at the path the
  configuration names. The driver runs a well-formed node of that identity, a transport node exactly when
  configured, over exactly the configured interfaces that are not servers, in their order, numbered from 0,
  each of the kind and with the access code its entry asks for; one server is bound for each server entry,
  at its address and with its code; connections to them get the numbers after the interfaces, never one in
  use. The node's destinations are the single one, proving as configured, the plain one, the group one, with
  the key decoded from the configured 64 bytes, exactly when there is a key, and the LXMF one exactly in the
  LXMF modes. The one command waiting is the first announcement.\<close>

theorem daemon_started:
  assumes "cli_run X E toml unhex env cr h listens tasks clock args d r = (Inr (Started s), d', r')"
  shows "(\<exists>config_path rest identity r1 key l. take_config_path args = Inr (config_path, rest) \<and>
      parse_mode unhex rest = Inr (sd_mode s) \<and> config_load toml env d config_path = Inr (sd_config s) \<and>
      save_or_create_identity E cr (cf_identity_path (sd_config s)) d r = (Inr identity, d', r1) \<and>
      nd_identity (dr_node (sd_driver s)) = identity \<and>
      nd_transport_enabled (dr_node (sd_driver s)) = cf_transport_enabled (sd_config s) \<and>
      nd_locals (dr_node (sd_driver s)) = configured_locals X (sd_config s) key (sd_single s) (sd_plain s) (sd_group s) @
        (case sd_lxmf s of None \<Rightarrow> [] | Some a \<Rightarrow> [delivery_local X a]) \<and>
      (case cf_group_key_hex (sd_config s) of
         None \<Rightarrow> key = None \<and> sd_group s = None
       | Some hex \<Rightarrow> \<exists>k. unhex hex = Some k \<and> length k = 64 \<and> key = Some k \<and> sd_group s = Some
           (destination_hash X (name_hash X (cf_app_name (sd_config s)) (cf_aspects (sd_config s)))
              (id_hash X (from_private_bytes (take 32 k) (drop 32 k))))) \<and>
      sd_single s = destination_hash X (name_hash X (cf_app_name (sd_config s)) (cf_aspects (sd_config s))) (id_hash X identity) \<and>
      find_local (sd_single s) (dr_node (sd_driver s)) = Some l \<and> ld_kind l = Single (cf_prove (sd_config s))) \<and>
    list_all2 (built_as X h) (filter (\<lambda>c. \<not> is_server c) (interface_configs (sd_config s))) (sd_interfaces s) \<and>
    list_all2 (bound_as X listens) (filter is_server (interface_configs (sd_config s))) (sd_servers s) \<and>
    map bi_id (sd_interfaces s) = map word_of_nat [0..<length (sd_interfaces s)] \<and> distinct (map bi_id (sd_interfaces s)) \<and>
    sd_registrar s = (if sd_servers s = [] then None else Some (word_of_nat (length (sd_interfaces s)))) \<and>
    (\<forall>next_id ifac connections q e next_id' q' registered. sd_registrar s = Some next_id \<longrightarrow>
       serve_with_ifac ifac connections next_id q = (e, next_id', q', registered) \<longrightarrow>
       distinct (map bi_id (sd_interfaces s) @ map fst registered)) \<and>
    nd_interfaces (dr_node (sd_driver s)) = map bi_id (sd_interfaces s) \<and>
    node_ok (dr_node (sd_driver s)) \<and> driver_ok (sd_driver s) \<and>
    (sd_lxmf s \<noteq> None) = uses_lxmf (sd_mode s) \<and>
    sd_handle s = Some [CmdAnnounceAll (cf_app_data (sd_config s))]"
proof -
  obtain config_path rest identity r1 where run: "take_config_path args = Inr (config_path, rest)"
    "parse_mode unhex rest = Inr (sd_mode s)" "config_load toml env d config_path = Inr (sd_config s)"
    "save_or_create_identity E cr (cf_identity_path (sd_config s)) d r = (Inr identity, d', r1)"
    and start: "start_node X unhex h listens tasks (sd_mode s) (sd_config s) identity clock r1 = Inr s"
    by (rule cli_run_started [OF assms])
  note own = started_node [OF start]
  obtain key l where node: "nd_identity (dr_node (sd_driver s)) = identity"
    "nd_transport_enabled (dr_node (sd_driver s)) = cf_transport_enabled (sd_config s)"
    "nd_locals (dr_node (sd_driver s)) = configured_locals X (sd_config s) key (sd_single s) (sd_plain s) (sd_group s) @
       (case sd_lxmf s of None \<Rightarrow> [] | Some a \<Rightarrow> [delivery_local X a])"
    "case cf_group_key_hex (sd_config s) of None \<Rightarrow> key = None \<and> sd_group s = None
     | Some hex \<Rightarrow> \<exists>k. unhex hex = Some k \<and> length k = 64 \<and> key = Some k \<and> sd_group s = Some
           (destination_hash X (name_hash X (cf_app_name (sd_config s)) (cf_aspects (sd_config s)))
              (id_hash X (from_private_bytes (take 32 k) (drop 32 k))))"
    "sd_single s = destination_hash X (name_hash X (cf_app_name (sd_config s)) (cf_aspects (sd_config s))) (id_hash X identity)"
    "find_local (sd_single s) (dr_node (sd_driver s)) = Some l" "ld_kind l = Single (cf_prove (sd_config s))"
    by (rule started_destinations [OF start])
  have "distinct (map bi_id (sd_interfaces s) @ map fst registered)"
    if r: "sd_registrar s = Some next_id" "serve_with_ifac ifac connections next_id q1 = (e, next_id', q', registered)"
    for next_id ifac connections q1 e next_id' q' registered
    using served_distinct [OF own(2,3) _ r(2)] r(1) own(5) by (simp split: if_splits)
  with run node own small_ids_distinct [OF own(3)] show ?thesis by (intro conjI exI) (assumption | simp)+
qed

theorem daemon_started_witness:
  "\<exists>s d'. cli_run toy_ext zeros (\<lambda>_. None) Some (\<lambda>_. None)
      \<lparr>cr_mkdir = (\<lambda>_. True), cr_raced = None, cr_open_ok = True, cr_written = None, cr_synced = True\<rparr>
      \<lparr>ho_connect = (\<lambda>_. True), ho_udp = (\<lambda>_ _. True), ho_if_addrs = Inr [], ho_multicast = (\<lambda>_ _ _. True),
        ho_serial = (\<lambda>_ _. True), ho_serial_feature = False\<rparr>
      (\<lambda>_. True) (\<lambda>_. None) 7 [str ''run''] (\<lambda>_. None) () = (Inr (Started s), d', ()) \<and>
    nd_interfaces (dr_node (sd_driver s)) = [0] \<and> sd_handle s = Some [CmdAnnounceAll []]"
proof -
  let ?cr = "\<lparr>cr_mkdir = (\<lambda>_. True), cr_raced = None, cr_open_ok = True, cr_written = None, cr_synced = True\<rparr>"
  let ?h = "\<lparr>ho_connect = (\<lambda>_. True), ho_udp = (\<lambda>_ _. True), ho_if_addrs = Inr [], ho_multicast = (\<lambda>_ _ _. True),
        ho_serial = (\<lambda>_ _. True), ho_serial_feature = False\<rparr>"
  let ?i = "from_private_bytes (replicate 32 0) (replicate 32 0)"
  have env: "apply_environment (\<lambda>_. None) config_default = config_default"
    by (simp add: apply_environment_def with_parsed_def with_var_def)
  obtain single plain nd where node: "configured_node toy_ext Some config_default ?i 7 = Inr (single, plain, None, nd)"
    by (auto simp: configured_node_def group_key_def config_default_def Let_def case_prod_beta)
  have ifs: "build_interfaces toy_ext ?h config_default =
      Inr [\<lparr>bi_id = 0, bi_kind = BuiltTcp (str ''127.0.0.1:4242''), bi_ifac = None\<rparr>]"
    by (simp add: build_interfaces_def interface_configs_def peer_addresses_def config_default_def build_ifac_def
        build_interface_def next_interface_id_def)
  have srv: "bind_servers toy_ext (\<lambda>_. True) (interface_configs config_default) = Inr []"
    by (simp add: interface_configs_def peer_addresses_def config_default_def)
  obtain dr q where m: "driver_new_interfaces nd [(0, None)] () = (dr, q)" by fastforce
  have q: "q = Some []" using m by (simp add: driver_new_interfaces_def driver_build_def Let_def)
  obtain s where s: "start_node toy_ext Some ?h (\<lambda>_. True) (\<lambda>_. None) ModeRun config_default ?i 7 () = Inr s"
    "sd_interfaces s = [\<lparr>bi_id = 0, bi_kind = BuiltTcp (str ''127.0.0.1:4242''), bi_ifac = None\<rparr>]" "sd_config s = config_default"
    by (simp add: start_node_def node ifs srv make_driver_def uses_lxmf_def m q handle_announce_all_def handle_post_def)
  let ?p = "cf_identity_path config_default"
  obtain ok d0 where m: "(case path_parent ?p of Some parent \<Rightarrow> make_dirs (cr_mkdir ?cr) parent (\<lambda>_. None) | None \<Rightarrow> (True, \<lambda>_. None)) = (ok, d0)"
    by fastforce
  have "cr_mkdir ?cr = (\<lambda>_. True)" by simp
  then have "ok" using m make_dirs_allowed [of "\<lambda>_. None"] by (auto split: option.splits) (metis fst_conv)
  then have id: "save_or_create_identity zeros ?cr ?p (\<lambda>_. None) () = (Inr ?i, d0(?p \<mapsto> FileEntry (replicate 64 0)), ())"
    unfolding save_or_create_identity_def m using identity_dirs(1) [OF _ m] by (simp add: identity_from_private_def zeros_def)
  have "str ''run'' \<noteq> str ''--config''" by (simp add: str_def)
  then have run: "cli_run toy_ext zeros (\<lambda>_. None) Some (\<lambda>_. None) ?cr ?h (\<lambda>_. True) (\<lambda>_. None) 7 [str ''run''] (\<lambda>_. None) () =
      (Inr (Started s), d0(?p \<mapsto> FileEntry (replicate 64 0)), ())"
    using s(1) id by (simp add: cli_run_def take_config_path_def parse_mode_def config_load_def env) (simp add: config_default_def)
  show ?thesis using daemon_started [OF run] run s(2,3) by (intro exI conjI) (auto simp: config_default_def)
qed

section \<open>The identity\<close>

text \<open>C38: An identity is kept. Once a start has returned an identity, every later start with the same path
  returns the same one and leaves the disk as it is, whatever happens around it. A first start makes the
  directories on the way to the path that are missing, so that the path's parent is a directory, and writes
  the 64 seed bytes to the path, unless another process was faster, whose file it then takes; nothing else
  on the disk changes.\<close>

theorem identity_persistent:
  assumes "entropy_ok E" and "save_or_create_identity E cr path d r = (Inr i, d1, r1)"
  shows "save_or_create_identity E cr' path d1 r' = (Inr i, d1, r') \<and>
    (\<forall>p. p \<noteq> path \<longrightarrow> d1 p = d p \<or> d path = None \<and> d p = None \<and> d1 p = Some DirEntry \<and> strict_prefix p path \<and> p \<noteq> []) \<and>
    (\<forall>parent. d path = None \<longrightarrow> path_parent path = Some parent \<longrightarrow> parent \<noteq> [] \<longrightarrow> path_parent parent \<noteq> None \<longrightarrow>
       \<not> dots parent \<longrightarrow> d1 parent = Some DirEntry) \<and>
    d1 path = (case d path of
        Some e \<Rightarrow> Some e
      | None \<Rightarrow> (case cr_raced cr of Some e \<Rightarrow> Some e | None \<Rightarrow> Some (FileEntry (enc_prv i @ sig_seed i)))) \<and>
    (\<exists>content. d1 path = Some (FileEntry content) \<and> length content = 64 \<and>
       i = from_private_bytes (take 32 content) (drop 32 content))"
proof -
  obtain seed r2 where E: "E r 64 = (seed, r2)" and len: "length seed = 64"
    using entropy_filled [OF assms(1)] by (metis surj_pair)
  have read: "load_identity dd path = Inr i \<longleftrightarrow> (\<exists>content. dd path = Some (FileEntry content) \<and> length content = 64 \<and>
      i = from_private_bytes (take 32 content) (drop 32 content))" for dd
    by (auto simp: load_identity_def fs_read_def identity_from_private_def result_simps split: option.splits entry.splits)
  have later: "save_or_create_identity E cr' path d1 r' = (Inr i, d1, r')" if "load_identity d1 path = Inr i"
  proof -
    have "d1 path \<noteq> None" using that unfolding read by auto
    then show ?thesis using that by (simp add: save_or_create_identity_def)
  qed
  show ?thesis
  proof (cases "d path")
    case (Some e)
    then have "load_identity d1 path = Inr i" "d1 = d" using assms(2) by (auto simp: save_or_create_identity_def)
    then show ?thesis using later Some read by auto
  next
    case None
    obtain ok d0 where m: "(case path_parent path of Some parent \<Rightarrow> make_dirs (cr_mkdir cr) parent d | None \<Rightarrow> (True, d)) = (ok, d0)"
      by fastforce
    note dirs = identity_dirs [OF None m]
    have ok: "ok" using assms(2) None m by (auto simp: save_or_create_identity_def split: bool.splits)
    have d1: "load_identity d1 path = Inr i \<and> d1 = d0(path := d1 path) \<and>
      d1 path = (case cr_raced cr of Some e \<Rightarrow> Some e | None \<Rightarrow> Some (FileEntry (enc_prv i @ sig_seed i)))"
    proof (cases "cr_raced cr")
      case r: None
      have "d1 = d0(path \<mapsto> FileEntry seed)" "i = from_private_bytes (take 32 seed) (drop 32 seed)"
        using assms(2) E len None m ok r dirs(1) unfolding save_or_create_identity_def
        by (auto simp: identity_from_private_def split: if_splits option.splits)
      then show ?thesis using r len unfolding read by (auto simp: from_private_bytes_def)
    next
      case (Some e)
      then have "load_identity (d0(path \<mapsto> e)) path = Inr i" "d1 = d0(path \<mapsto> e)"
        using assms(2) E None m ok dirs(1) unfolding save_or_create_identity_def by (auto simp: Let_def)
      then show ?thesis using Some by simp
    qed
    then have other: "p \<noteq> path \<Longrightarrow> d1 p = d0 p" for p by (metis fun_upd_other)
    have "d1 parent = Some DirEntry" if "path_parent path = Some parent" "parent \<noteq> []" "path_parent parent \<noteq> None" "\<not> dots parent" for parent
      using dirs(3) [OF ok that] path_parent_prefix [OF that(1)] other [of parent] by auto
    then show ?thesis using d1 later other dirs(2) None read by auto
  qed
qed

theorem identity_persistent_witness:
  "let cr = \<lparr>cr_mkdir = (\<lambda>_. True), cr_raced = None, cr_open_ok = True, cr_written = None, cr_synced = True\<rparr>;
       i = from_private_bytes (replicate 32 0) (replicate 32 0);
       d1 = (\<lambda>_. None)(str ''a'' \<mapsto> DirEntry, str ''a/b'' \<mapsto> FileEntry (replicate 64 0))
   in save_or_create_identity zeros cr (str ''a/b'') (\<lambda>_. None) () = (Inr i, d1, ()) \<and>
      save_or_create_identity zeros cr (str ''a/b'') d1 () = (Inr i, d1, ())"
proof -
  let ?cr = "\<lparr>cr_mkdir = (\<lambda>_. True), cr_raced = None, cr_open_ok = True, cr_written = None, cr_synced = True\<rparr>"
  have p: "path_parent (str ''a/b'') = Some (str ''a'')" "path_parent (str ''a'') = Some []" "\<not> dots (str ''a'')" "str ''a'' \<noteq> []"
    by (simp_all add: path_parent_def dots_def str_def)
  have "make_dirs mk [] d = (True, d)" for mk d by (subst make_dirs.simps) simp
  then have "make_dirs (\<lambda>_. True) (str ''a'') (\<lambda>_. None) = (True, (\<lambda>_. None)(str ''a'' \<mapsto> DirEntry))"
    using p by (subst make_dirs.simps) simp
  moreover have "str ''a/b'' \<noteq> str ''a''" by (simp add: str_def)
  ultimately have a: "save_or_create_identity zeros ?cr (str ''a/b'') (\<lambda>_. None) () = (Inr (from_private_bytes (replicate 32 0) (replicate 32 0)),
      (\<lambda>_. None)(str ''a'' \<mapsto> DirEntry, str ''a/b'' \<mapsto> FileEntry (replicate 64 0)), ())"
    using p by (simp add: save_or_create_identity_def identity_from_private_def zeros_def)
  show ?thesis unfolding Let_def
    by (rule conjI [OF a]) (rule conjunct1 [OF identity_persistent [OF zeros_ok a, of ?cr "()"]])
qed

text \<open>A write that is cut short leaves a file every later start refuses.\<close>

lemma identity_cut:
  assumes "entropy_ok E" and "d path = None" "cr_raced cr = None" "cr_open_ok cr" "cr_written cr = Some n" "n < 64"
    and m: "(case path_parent path of Some parent \<Rightarrow> make_dirs (cr_mkdir cr) parent d | None \<Rightarrow> (True, d)) = (True, d0)"
  shows "\<exists>d1 r1. save_or_create_identity E cr path d r = (Inl OsError, d1, r1) \<and>
    (\<forall>cr' r'. save_or_create_identity E cr' path d1 r' = (Inl InvalidData, d1, r'))"
proof -
  obtain seed r2 where E: "E r 64 = (seed, r2)" and len: "length seed = 64"
    using entropy_filled [OF assms(1)] by (metis surj_pair)
  have "save_or_create_identity E cr path d r = (Inl OsError, d0(path \<mapsto> FileEntry (take n seed)), r2)"
    unfolding save_or_create_identity_def m using assms(2-5) identity_dirs(1) [OF assms(2) m] E by simp
  moreover have "save_or_create_identity E cr' path (d0(path \<mapsto> FileEntry (take n seed))) r' =
      (Inl InvalidData, d0(path \<mapsto> FileEntry (take n seed)), r')" for cr' r'
    using len assms(6) by (simp add: save_or_create_identity_def load_identity_def fs_read_def identity_from_private_def)
  ultimately show ?thesis by blast
qed

section \<open>Sending one message\<close>

lemma cli_loop_append: "cli_loop hx c content mode (a @ b) s =
    (case cli_loop hx c content mode a s of (CliGoes, s) \<Rightarrow> cli_loop hx c content mode b s | stopped \<Rightarrow> stopped)"
  by (induction a arbitrary: s) (auto split: prod.split cli_flow.split)

definition hears :: "bytes \<Rightarrow> cli_input \<Rightarrow> bool" where
  "hears dest input \<longleftrightarrow> (\<exists>n response w. input = CliEvent (Announce dest n) response w)"

lemma send_before:
  assumes "cs_pending s = None" and "\<forall>i \<in> set inputs. i \<noteq> CliEnd \<and> \<not> hears dest i"
  shows "\<exists>out. cli_loop hx c content (ModeSend dest text proving) inputs s = (CliGoes, s\<lparr>cs_out := out\<rparr>)"
  using assms
proof (induction inputs arbitrary: s)
  case Nil
  then show ?case by (intro exI [of _ "cs_out s"]) simp
next
  case (Cons i inputs)
  let ?out = "cs_out s @ (case i of CliEvent ev _ _ \<Rightarrow> [print_event hx ev] | _ \<Rightarrow> [])"
  have "cli_step hx c content (ModeSend dest text proving) i s = (CliGoes, s\<lparr>cs_out := ?out\<rparr>)"
    using Cons.prems by (cases i) (auto simp: cli_step_def send_event_def hears_def Let_def split: event.split)
  then show ?case using Cons.IH [of "s\<lparr>cs_out := ?out\<rparr>"] Cons.prems by simp
qed

lemma send_waiting:
  assumes "cs_pending s = Some ph" and "\<forall>i \<in> set inputs. i \<noteq> CliEnd \<and> (\<forall>response w. i \<noteq> CliEvent (Delivered ph) response w)"
  shows "\<exists>out. cli_loop hx c content (ModeSend dest text proving) inputs s = (CliGoes, s\<lparr>cs_out := out\<rparr>)"
  using assms
proof (induction inputs arbitrary: s)
  case Nil
  then show ?case by (intro exI [of _ "cs_out s"]) simp
next
  case (Cons i inputs)
  let ?out = "cs_out s @ (case i of CliEvent ev _ _ \<Rightarrow> [print_event hx ev] | _ \<Rightarrow> [])"
  have "cli_step hx c content (ModeSend dest text proving) i s = (CliGoes, s\<lparr>cs_out := ?out\<rparr>)"
    using Cons.prems by (cases i) (auto simp: cli_step_def send_event_def Let_def split: event.split)
  then show ?case using Cons.IH [of "s\<lparr>cs_out := ?out\<rparr>"] Cons.prems by simp
qed

text \<open>C37: The daemon's \<open>send\<close> sends once, to a destination it has heard, and with \<open>--prove\<close> ends only on the
  confirmation of its own packet. Before the destination's first announce it waits and posts nothing. Without
  \<open>--prove\<close> it then posts the message and the shutdown and ends. With it, it posts the message with a receipt;
  it ends, posting the shutdown, exactly if a later event confirms the packet the driver replied with, whatever
  other announces and confirmations come, and otherwise keeps waiting; a reply without a packet is its error.\<close>

theorem cli_sends_once:
  assumes "cs_pending s = None" and "cs_handle s = Some q"
    and "\<forall>i \<in> set pre. \<not> hears dest i" and "CliEnd \<notin> set pre" and "CliEnd \<notin> set post"
    and "heard = CliEvent (Announce dest n) response w"
  shows "(\<exists>s'. cli_loop hx c content (ModeSend dest text proving) pre s = (CliGoes, s') \<and> cs_handle s' = Some q) \<and>
    (\<exists>flow s'. cli_loop hx c content (ModeSend dest text proving) (pre @ heard # post) s = (flow, s') \<and>
      (if \<not> proving then flow = CliBreaks \<and> cs_handle s' = Some (q @ [CmdSend dest text, CmdShutdown])
       else case response of
         Some (Inr ph) \<Rightarrow>
           if \<exists>r w. CliEvent (Delivered ph) r w \<in> set post
           then flow = CliBreaks \<and> cs_handle s' = Some (q @ [CmdSendWithReceipt dest text, CmdShutdown])
           else flow = CliGoes \<and> cs_handle s' = Some (q @ [CmdSendWithReceipt dest text])
       | _ \<Rightarrow> (\<exists>e. flow = CliFails (CliCall e)) \<and> cs_handle s' = Some (q @ [CmdSendWithReceipt dest text])))"
proof -
  let ?loop = "cli_loop hx c content (ModeSend dest text proving)"
  obtain out where pre: "?loop pre s = (CliGoes, s\<lparr>cs_out := out\<rparr>)"
    using send_before [of s pre dest hx c content "text" proving] assms(1,3,4) by blast
  have waits: "\<exists>s'. ?loop post s1 = (CliGoes, s') \<and> cs_handle s' = cs_handle s1"
    if "cs_pending s1 = Some ph" "\<not> (\<exists>r w. CliEvent (Delivered ph) r w \<in> set post)" for s1 ph
    using send_waiting [of s1 ph post hx c content dest "text" proving] that assms(5) by fastforce
  have ends: "\<exists>s'. ?loop post s1 = (CliBreaks, s') \<and> cs_handle s' = Some (q1 @ [CmdShutdown])"
    if p: "cs_pending s1 = Some ph" "cs_handle s1 = Some q1" and d: "\<exists>r w. CliEvent (Delivered ph) r w \<in> set post" for s1 ph q1
  proof -
    obtain a r w b where post: "post = a @ CliEvent (Delivered ph) r w # b" "\<forall>r w. CliEvent (Delivered ph) r w \<notin> set a"
      using split_list_first_prop [of post "\<lambda>i. \<exists>r w. i = CliEvent (Delivered ph) r w"] d by blast
    obtain out where "?loop a s1 = (CliGoes, s1\<lparr>cs_out := out\<rparr>)"
      using send_waiting [of s1 ph a hx c content dest "text" proving] p(1) post assms(5) by fastforce
    then show ?thesis using p
      by (simp add: post(1) cli_loop_append cli_step_def send_event_def shut_down_def say_def calling_def
          handle_shutdown_def handle_post_def Let_def)
  qed
  have heard: "?loop (pre @ heard # post) s = ?loop (heard # post) (s\<lparr>cs_out := out\<rparr>)"
    by (simp add: cli_loop_append pre)
  note defs = cli_step_def send_event_def shut_down_def say_def calling_def handle_shutdown_def handle_post_def
    handle_send_def handle_send_with_receipt_def handle_reply_def Let_def
  have "\<exists>flow s'. ?loop (heard # post) (s\<lparr>cs_out := out\<rparr>) = (flow, s') \<and>
      (if \<not> proving then flow = CliBreaks \<and> cs_handle s' = Some (q @ [CmdSend dest text, CmdShutdown])
       else case response of
         Some (Inr ph) \<Rightarrow>
           if \<exists>r w. CliEvent (Delivered ph) r w \<in> set post
           then flow = CliBreaks \<and> cs_handle s' = Some (q @ [CmdSendWithReceipt dest text, CmdShutdown])
           else flow = CliGoes \<and> cs_handle s' = Some (q @ [CmdSendWithReceipt dest text])
       | _ \<Rightarrow> (\<exists>e. flow = CliFails (CliCall e)) \<and> cs_handle s' = Some (q @ [CmdSendWithReceipt dest text]))"
  proof (cases "proving \<and> (\<exists>ph. response = Some (Inr ph))")
    case True
    then obtain ph where r: "proving" "response = Some (Inr ph)" by blast
    define s1 where "s1 = s\<lparr>cs_handle := Some (q @ [CmdSendWithReceipt dest text]),
      cs_out := out @ [print_event hx (Announce dest n), OutLine (str ''sent proved message '' @ hx ph)], cs_pending := Some ph\<rparr>"
    have s1: "?loop (heard # post) (s\<lparr>cs_out := out\<rparr>) = ?loop post s1"
      using r assms(1,2) by (simp add: assms(6) defs s1_def)
    have "cs_pending s1 = Some ph" "cs_handle s1 = Some (q @ [CmdSendWithReceipt dest text])" by (simp_all add: s1_def)
    then show ?thesis unfolding s1 using waits [of s1 ph] ends [of s1 ph] r by (cases "\<exists>r w. CliEvent (Delivered ph) r w \<in> set post") auto
  next
    case False
    then show ?thesis using assms(1,2) by (auto simp: assms(6) defs split: option.splits sum.splits)
  qed
  then show ?thesis using pre assms(2) unfolding heard by simp
qed

theorem cli_sends_once_witness:
  "\<exists>s'. cli_loop id config_default [] (ModeSend [1] [2] True)
      [CliEvent (Announce [1] 0) (Some (Inr [9])) True, CliEvent (Delivered [8]) None True, CliEvent (Delivered [9]) None True]
      \<lparr>cs_handle = Some [], cs_pending = None, cs_resource = None, cs_disk = (\<lambda>_. None), cs_out = []\<rparr> = (CliBreaks, s') \<and>
    cs_handle s' = Some [CmdSendWithReceipt [1] [2], CmdShutdown]"
proof -
  let ?s = "\<lparr>cs_handle = Some [], cs_pending = None, cs_resource = None, cs_disk = (\<lambda>_. None), cs_out = []\<rparr>"
  have "\<exists>r w. CliEvent (Delivered [9]) r w \<in> set [CliEvent (Delivered [8]) None True, CliEvent (Delivered [9]) None True]" by auto
  then show ?thesis
    using cli_sends_once [of ?s "[]" "[]" "[1]" "[CliEvent (Delivered [8]) None True, CliEvent (Delivered [9]) None True]"
        "CliEvent (Announce [1] 0) (Some (Inr [9])) True" 0 "Some (Inr [9])" True id config_default "[]" "[2]" True]
    by (simp del: cli_loop.simps)
qed

end
