(* ===== verification/End_To_End.thy ===== *)
theory End_To_End
  imports Cli_Properties Driver_Properties
begin

text \<open>
  A message across the whole program: the daemon's \<open>send --prove\<close> at one end, the daemon's \<open>run\<close> at the other,
  each over its driver and node, with a TCP stream between them.
\<close>

section \<open>Text that is shown\<close>

text \<open>What the lead byte of a character decides, as numbers.\<close>

lemma utf8_step_nat:
  "utf8_step a r =
     (let byte_at = \<lambda>k. if k < length r then r ! k else 0; n = unat a;
          second = (if n = 224 then 0xA0 \<le> byte_at 0 \<and> byte_at 0 \<le> 0xBF
                    else if n = 237 then 0x80 \<le> byte_at 0 \<and> byte_at 0 \<le> 0x9F
                    else if n = 240 then 0x90 \<le> byte_at 0 \<and> byte_at 0 \<le> 0xBF
                    else if n = 244 then 0x80 \<le> byte_at 0 \<and> byte_at 0 \<le> 0x8F
                    else cont_byte (byte_at 0))
      in if n \<le> 127 then (1, True)
         else if 194 \<le> n \<and> n \<le> 223 then (if second then (2, True) else (1, False))
         else if 224 \<le> n \<and> n \<le> 239 then
           (if \<not> second then (1, False) else if \<not> cont_byte (byte_at 1) then (2, False) else (3, True))
         else if 240 \<le> n \<and> n \<le> 244 then
           (if \<not> second then (1, False) else if \<not> cont_byte (byte_at 1) then (2, False)
            else if \<not> cont_byte (byte_at 2) then (3, False) else (4, True))
         else (1, False))"
  unfolding utf8_step_def Let_def by (simp add: word_le_nat_alt [of a] word_le_nat_alt [of _ a] word_unat_eq_iff [of a])

lemma utf8_valid_nat:
  "utf8_valid (a # r) =
     (let n = unat a in if n \<le> 127 then utf8_valid r
      else case r of
        [] \<Rightarrow> False
      | b # r2 \<Rightarrow>
          if 194 \<le> n \<and> n \<le> 223 then cont_byte b \<and> utf8_valid r2
          else case r2 of
            [] \<Rightarrow> False
          | c # r3 \<Rightarrow>
              if n = 224 then 0xA0 \<le> b \<and> b \<le> 0xBF \<and> cont_byte c \<and> utf8_valid r3
              else if n = 237 then 0x80 \<le> b \<and> b \<le> 0x9F \<and> cont_byte c \<and> utf8_valid r3
              else if 225 \<le> n \<and> n \<le> 239 then cont_byte b \<and> cont_byte c \<and> utf8_valid r3
              else case r3 of
                [] \<Rightarrow> False
              | d # r4 \<Rightarrow>
                  if n = 240 then 0x90 \<le> b \<and> b \<le> 0xBF \<and> cont_byte c \<and> cont_byte d \<and> utf8_valid r4
                  else if n = 244 then 0x80 \<le> b \<and> b \<le> 0x8F \<and> cont_byte c \<and> cont_byte d \<and> utf8_valid r4
                  else if 241 \<le> n \<and> n \<le> 243
                    then cont_byte b \<and> cont_byte c \<and> cont_byte d \<and> utf8_valid r4
                  else False)"
  by (simp add: Let_def word_le_nat_alt [of a] word_le_nat_alt [of _ a] word_unat_eq_iff [of a] cong: list.case_cong)

lemma utf8_valid_step: "utf8_valid (a # r) \<longleftrightarrow> (case utf8_step a r of (n, ok) \<Rightarrow> ok \<and> utf8_valid (drop n (a # r)))"
proof -
  have z: "\<not> cont_byte 0" by (simp add: cont_byte_def)
  consider (one) "unat a \<le> 127" | (two) "194 \<le> unat a" "unat a \<le> 223" | (e0) "unat a = 224" | (ed) "unat a = 237"
    | (three) "225 \<le> unat a" "unat a \<le> 239" "unat a \<noteq> 237" | (f0) "unat a = 240" | (f4) "unat a = 244"
    | (four) "241 \<le> unat a" "unat a \<le> 243" | (bad) "128 \<le> unat a" "unat a < 194 \<or> 245 \<le> unat a"
    by linarith
  then show ?thesis
  proof cases
    case one then show ?thesis by (simp add: utf8_step_nat utf8_valid_nat del: utf8_valid.simps(2))
  next
    case two then show ?thesis by (cases r) (auto simp: utf8_step_nat utf8_valid_nat z simp del: utf8_valid.simps(2))
  next
    case e0 then show ?thesis by (cases r; cases "tl r") (auto simp: utf8_step_nat utf8_valid_nat z simp del: utf8_valid.simps(2))
  next
    case ed then show ?thesis by (cases r; cases "tl r") (auto simp: utf8_step_nat utf8_valid_nat z simp del: utf8_valid.simps(2))
  next
    case three then show ?thesis by (cases r; cases "tl r") (auto simp: utf8_step_nat utf8_valid_nat z simp del: utf8_valid.simps(2))
  next
    case f0 then show ?thesis by (cases r; cases "tl r"; cases "tl (tl r)") (auto simp: utf8_step_nat utf8_valid_nat z simp del: utf8_valid.simps(2))
  next
    case f4 then show ?thesis by (cases r; cases "tl r"; cases "tl (tl r)") (auto simp: utf8_step_nat utf8_valid_nat z simp del: utf8_valid.simps(2))
  next
    case four then show ?thesis by (cases r; cases "tl r"; cases "tl (tl r)") (auto simp: utf8_step_nat utf8_valid_nat z simp del: utf8_valid.simps(2))
  next
    case bad
    then have "\<not> unat a \<le> 127" "\<not> (194 \<le> unat a \<and> unat a \<le> 223)" "\<not> (224 \<le> unat a \<and> unat a \<le> 239)"
      "\<not> (225 \<le> unat a \<and> unat a \<le> 239)" "\<not> (240 \<le> unat a \<and> unat a \<le> 244)" "\<not> (241 \<le> unat a \<and> unat a \<le> 243)"
      "unat a \<noteq> 224" "unat a \<noteq> 237" "unat a \<noteq> 240" "unat a \<noteq> 244" by linarith+
    then show ?thesis
      by (cases r; cases "tl r"; cases "tl (tl r)") (simp_all only: utf8_step_nat utf8_valid_nat Let_def if_False list.case prod.case simp_thms list.sel HOL.refl)
  qed
qed

lemma utf8_lossy_valid: "utf8_valid bs \<Longrightarrow> utf8_lossy bs = bs"
proof (induction bs rule: utf8_lossy.induct)
  case (2 a r)
  obtain n ok where s: "utf8_step a r = (n, ok)" by fastforce
  have "ok" "utf8_valid (drop n (a # r))" using 2(2) utf8_valid_step [of a r] s by simp_all
  then show ?case using 2(1) [OF s [symmetric]] s by simp
qed simp
section \<open>The rounds of the two drivers\<close>

lemma encode_nonempty [simp]: "packet_encode p \<noteq> []"
  by (simp add: packet_encode_def)

lemma tcp_carries:
  assumes "concat reads = tcp_send p" "\<forall>c \<in> set reads. c \<noteq> []" "p \<noteq> []" "length (tcp_send p) \<le> MAX_BUFFER"
  shows "fst (tcp_recv reads []) = Some p"
proof -
  have "tcp_recvs 1 reads [] = [p]"
    using tcp_recvs_pull [of reads "[]" 1] pull_frames(1) [of "[p]"] assms by (simp add: tcp_send_def)
  then show ?thesis by (auto split: option.splits prod.splits)
qed

text \<open>The command: the packet leaves on the route's interface, the hash is the reply and waits for its proof.\<close>

lemma receipt_round:
  assumes ok: "entropy_ok E" "node_ok (dr_node d)" "nd_outbound (dr_node d) = []"
    and p: "path_get dh (nd_paths (dr_node d)) = Some entry" "nd_clock (dr_node d) < pe_expires_at entry" "pe_hops entry \<le> 1"
    and live: "bt_get (pe_interface entry) (dr_interfaces d) = Some None"
  obtains d' q e iv where "q = data_single dh (token_encrypt X (pe_public entry) pt e iv)" and "length iv = 16"
    and "driver_step X E (Command (Some (CmdSendWithReceipt dh pt))) d = Some (Running d' (HashReply (Inr (full_packet_hash X q))))"
    and "dr_sent d' = dr_sent d @ [(pe_interface entry, packet_encode q)]" "dr_events d' = dr_events d"
    and "bt_get (full_packet_hash X q) (nd_pending_receipts (dr_node d')) = Some (receipt_for entry (dr_node d))"
    and "node_ok (dr_node d')" "nd_outbound (dr_node d') = []" "\<forall>j. bt_get j (dr_interfaces d') = bt_get j (dr_interfaces d)"
    and "nd_seen_packets (dr_node d') = nd_seen_packets (dr_node d)"
proof -
  obtain e r1 where e: "E (dr_entropy d) 32 = (e, r1)" by fastforce
  obtain iv r2 where iv: "E r1 16 = (iv, r2)" by fastforce
  let ?q = "data_single dh (token_encrypt X (pe_public entry) pt e iv)" and ?n = "dr_node d"
  have h1: "\<not> pe_hops entry > 1" using p(3) by (simp add: not_less)
  have q: "sent_packet X entry dh pt e iv = ?q" using h1 by (simp add: sent_packet_def)
  have pp: "path_get dh (nd_paths (node_prune ?n)) = Some entry"
    using p(1,2) node_okD(2) [OF ok(2)] by (simp add: node_prune_eq path_get_prune_Some)
  let ?res = "send_message_with_receipt X E dh pt (dr_entropy d) ?n"
  have res: "?res = (Inr (full_packet_hash X ?q), push_out (pe_interface entry) (packet_encode ?q) (node_prune ?n)
       \<lparr>nd_pending_receipts := bt_insert (full_packet_hash X ?q) (receipt_for entry ?n) (nd_pending_receipts ?n)\<rparr>, r2)"
    using single_sent [OF pp _ e iv, of X pt] h1 q by (simp add: send_message_with_receipt_def)
  let ?d = "after_call ?res d"
  have out: "nd_outbound (dr_node ?d) = [(pe_interface entry, packet_encode ?q)]"
    using res ok(3) by (simp add: after_call_def node_prune_eq)
  have "node_ok (dr_node ?d)" using node_ok_send_message(2) [OF ok(2), of X E dh pt "dr_entropy d"] by (simp add: after_call_def)
  then have ok': "node_ok ((dr_node ?d)\<lparr>nd_outbound := []\<rparr>)" by (simp add: node_ok_def)
  have "\<forall>ip \<in> set (nd_outbound (dr_node ?d)). bt_get (fst ip) (dr_interfaces ?d) = Some None"
    unfolding out using live by (simp add: after_call_def)
  note dr = drain_delivers [OF this]
  show thesis
    by (rule that [of ?q e iv "drain_outbound ?d"])
      (use dr out ok' res entropy_filled [OF ok(1) iv] in \<open>simp_all add: driver_step_def Let_def, simp_all add: after_call_def bt_simps node_prune_eq\<close>)
qed

text \<open>The packet received: the message is reported and the proof leaves on the interface of arrival.\<close>

lemma proving_round:
  assumes X: "crypto_ok X" and ok: "node_ok (dr_node d)" "nd_outbound (dr_node d) = []" "dr_lxmf d = None"
    and dh: "length dh = 16" and iv: "length iv = 16"
    and l: "find_local dh (dr_node d) = Some l" "ld_kind l = Single True" "bt_get i (dr_interfaces d) = Some None"
    and q: "q = data_single dh (token_encrypt X (id_public X (nd_identity (dr_node d))) pt e iv)"
    and u: "unseen X (packet_encode q) (dr_node d)"
  obtains d' where "driver_step X F (Inbound (Some (Packet i (packet_encode q)))) d = Some (Running d' NoReply)"
    and "dr_events d' = dr_events d @ [Message dh pt]"
    and "dr_sent d' = dr_sent d @ [(i, packet_encode (explicit_proof (proof_destination_hash (full_packet_hash X q))
      (build_proof X (nd_identity (dr_node d)) (full_packet_hash X q))))]"
proof -
  obtain evs nd rng where h: "handle_inbound_inner X F (packet_encode q) i (Some (dr_entropy d)) (dr_node d) = (evs, nd, rng)"
    by (metis prod_cases3)
  have m: "evs = [Message dh pt]" "nd_outbound nd = [(i, packet_encode (explicit_proof (proof_destination_hash (full_packet_hash X q))
      (build_proof X (nd_identity (dr_node d)) (full_packet_hash X q))))]"
    using message_received [OF X ok(1) dh iv l(1,2) q u, of F i "Some (dr_entropy d)"] h ok(2) by simp_all
  show thesis
    by (rule inbound_round [OF h [unfolded m(1)]]) (use l(3) m(2) that ok(3) in \<open>auto simp: translate_event_def\<close>)
qed

text \<open>The proof received: the delivery is reported.\<close>

lemma confirming_round:
  assumes X: "ed25519_ok X" and ok: "node_ok (dr_node d)" "nd_outbound (dr_node d) = []" and ph: "length ph = 32"
    and rc: "bt_get ph (nd_pending_receipts (dr_node d)) = Some rc" "pr_destination_public rc = id_public X ident"
    and ack: "ack = packet_encode (explicit_proof (proof_destination_hash ph) (build_proof X ident ph))" "unseen X ack (dr_node d)"
  obtains d' where "driver_step X E (Inbound (Some (Packet j ack))) d = Some (Running d' NoReply)"
    and "dr_events d' = dr_events d @ [Delivered ph]" "dr_sent d' = dr_sent d"
proof -
  obtain evs nd rng where h: "handle_inbound_inner X E ack j (Some (dr_entropy d)) (dr_node d) = (evs, nd, rng)"
    by (metis prod_cases3)
  have a: "evs = [Delivered ph]" "nd_outbound nd = []"
    using delivery_acknowledged [OF X ok(1) ph rc ack(2) [unfolded ack(1)], of E j "Some (dr_entropy d)"] h ack(1) ok(2) by simp_all
  show thesis by (rule inbound_round [OF h [unfolded a(1)]]) (use a(2) that in \<open>auto simp: translate_event_def\<close>)
qed

section \<open>The daemon at the sending end\<close>

lemma proved_send_loop:
  assumes "cs_pending s = None" "cs_handle s = Some cmds"
    and "\<forall>i \<in> set pre. i \<noteq> CliEnd \<and> \<not> hears dh i" and "\<forall>i \<in> set mid. i \<noteq> CliEnd \<and> (\<forall>r w. i \<noteq> CliEvent (Delivered h) r w)"
  shows "\<exists>s'. cli_loop hx c content (ModeSend dh pt True)
      (pre @ CliEvent (Announce dh n) (Some (Inr h)) w # mid @ CliEvent (Delivered h) r' w' # post) s = (CliBreaks, s') \<and>
    cs_handle s' = Some (cmds @ [CmdSendWithReceipt dh pt, CmdShutdown]) \<and>
    last (cs_out s') = OutLine (str ''delivery confirmed '' @ hx h)"
proof -
  let ?mode = "ModeSend dh pt True"
  obtain out where pre: "cli_loop hx c content ?mode pre s = (CliGoes, s\<lparr>cs_out := out\<rparr>)"
    using send_before [OF assms(1,3)] by blast
  define s1 where "s1 = s\<lparr>cs_handle := Some (cmds @ [CmdSendWithReceipt dh pt]),
    cs_out := out @ [print_event hx (Announce dh n), OutLine (str ''sent proved message '' @ hx h)], cs_pending := Some h\<rparr>"
  note defs = cli_step_def send_event_def shut_down_def say_def calling_def handle_shutdown_def handle_post_def
    handle_send_with_receipt_def handle_reply_def Let_def
  have heard: "cli_step hx c content ?mode (CliEvent (Announce dh n) (Some (Inr h)) w) (s\<lparr>cs_out := out\<rparr>) = (CliGoes, s1)"
    using assms(1,2) by (simp add: defs s1_def)
  have "cs_pending s1 = Some h" by (simp add: s1_def)
  then obtain out2 where mid: "cli_loop hx c content ?mode mid s1 = (CliGoes, s1\<lparr>cs_out := out2\<rparr>)"
    using send_waiting [of s1 h mid hx c content dh pt True] assms(4) by blast
  show ?thesis by (simp add: cli_loop_append pre heard mid) (simp add: defs s1_def)
qed

section \<open>From one daemon to the other\<close>

text \<open>C6: A proved message crosses the whole program. A daemon waits in \<open>send --prove\<close>; the destination is
  announced and its driver, which knows a direct route, is given the command. The packet leaves on the route's
  interface; cut into reads in any way, the TCP stream gives it to the other end, whose daemon prints exactly
  the text (what is sent is valid UTF-8) and whose driver answers with a proof; the stream gives that back, the
  sender's driver reports the delivery of the packet it replied with, and on it, whatever else it hears in
  between, the daemon prints the confirmation, posts the shutdown, and its driver ends without an error. (The stream's buffer holds 512 KiB; a longer frame is
  not one it promises.)\<close>

theorem proved_send_end_to_end:
  assumes "crypto_ok X" "entropy_ok E"
    and "node_ok (dr_node d1)" "nd_outbound (dr_node d1) = []" "node_ok (dr_node d2)" "nd_outbound (dr_node d2) = []"
    and "dr_lxmf d2 = None" "length dh = 16" "find_local dh (dr_node d2) = Some l" "ld_kind l = Single True"
    and "path_get dh (nd_paths (dr_node d1)) = Some entry" "nd_clock (dr_node d1) < pe_expires_at entry" "pe_hops entry \<le> 1"
      "pe_public entry = id_public X (nd_identity (dr_node d2))"
    and "bt_get (pe_interface entry) (dr_interfaces d1) = Some None" "bt_get i (dr_interfaces d2) = Some None"
    and "utf8_valid pt" "cs_pending s = None" "cs_handle s = Some cmds"
    and "driver_step X E (Command (Some (CmdSendWithReceipt dh pt))) d1 = Some (Running d1a (HashReply response))"
      "msg = snd (last (dr_sent d1a))" "unseen X msg (dr_node d2)"
    and "driver_step X F (Inbound (Some (Packet i msg))) d2 = Some (Running d2a reply2)"
      "ack = snd (last (dr_sent d2a))" "unseen X ack (dr_node d1a)"
    and "driver_step X E (Inbound (Some (Packet j ack))) d1a = Some (Running d1b reply3)"
  shows "\<exists>h. response = Inr h \<and> dr_sent d1a = dr_sent d1 @ [(pe_interface entry, msg)] \<and>
    (\<forall>reads. concat reads = tcp_send msg \<and> [] \<notin> set reads \<and> length (tcp_send msg) \<le> MAX_BUFFER \<longrightarrow> fst (tcp_recv reads []) = Some msg) \<and>
    dr_events d2a = dr_events d2 @ [Message dh pt] \<and> print_event hx (Message dh pt) = OutLine (str ''message '' @ hx dh @ str '' '' @ pt) \<and>
    dr_sent d2a = dr_sent d2 @ [(i, ack)] \<and>
    (\<forall>reads. concat reads = tcp_send ack \<and> [] \<notin> set reads \<and> length (tcp_send ack) \<le> MAX_BUFFER \<longrightarrow> fst (tcp_recv reads []) = Some ack) \<and>
    dr_events d1b = dr_events d1a @ [Delivered h] \<and>
    (\<forall>pre mid post n w r' w'. (\<forall>i \<in> set pre. i \<noteq> CliEnd \<and> \<not> hears dh i) \<and>
       (\<forall>i \<in> set mid. i \<noteq> CliEnd \<and> (\<forall>r w. i \<noteq> CliEvent (Delivered h) r w)) \<longrightarrow>
       (\<exists>s'. cli_loop hx c content (ModeSend dh pt True)
           (pre @ CliEvent (Announce dh n) (Some response) w # mid @ CliEvent (Delivered h) r' w' # post) s = (CliBreaks, s') \<and>
         cs_handle s' = Some (cmds @ [CmdSendWithReceipt dh pt, CmdShutdown]) \<and>
         last (cs_out s') = OutLine (str ''delivery confirmed '' @ hx h))) \<and>
    driver_step X E (Command (Some CmdShutdown)) d1b = Some (Returned d1b True)"
proof -
  note ok = crypto_okD [OF assms(1)]
  obtain d1' q e iv where q: "q = data_single dh (token_encrypt X (pe_public entry) pt e iv)" "length iv = 16"
    and s1: "driver_step X E (Command (Some (CmdSendWithReceipt dh pt))) d1 = Some (Running d1' (HashReply (Inr (full_packet_hash X q))))"
      "dr_sent d1' = dr_sent d1 @ [(pe_interface entry, packet_encode q)]"
      "bt_get (full_packet_hash X q) (nd_pending_receipts (dr_node d1')) = Some (receipt_for entry (dr_node d1))"
      "node_ok (dr_node d1')" "nd_outbound (dr_node d1') = []"
    by (rule receipt_round [OF assms(2,3,4,11-13,15)])
  let ?h = "full_packet_hash X q" and ?proof = "explicit_proof (proof_destination_hash (full_packet_hash X q))
      (build_proof X (nd_identity (dr_node d2)) (full_packet_hash X q))"
  have r1: "d1a = d1'" "response = Inr ?h" "msg = packet_encode q" using assms(20,21) s1(1,2) by simp_all
  obtain d2' where s2: "driver_step X F (Inbound (Some (Packet i (packet_encode q)))) d2 = Some (Running d2' NoReply)"
    "dr_events d2' = dr_events d2 @ [Message dh pt]" "dr_sent d2' = dr_sent d2 @ [(i, packet_encode ?proof)]"
    by (rule proving_round [OF assms(1,5,6,7,8) q(2) assms(9,10,16) q(1) [unfolded assms(14)] assms(22) [unfolded r1(3)]])
  have r2: "d2a = d2'" "ack = packet_encode ?proof" using assms(23,24) s2 r1(3) by simp_all
  have len: "length ?h = 32" using ok(1) by (simp add: full_packet_hash_def)
  obtain d1'' where s3: "driver_step X E (Inbound (Some (Packet j ack))) d1a = Some (Running d1'' NoReply)"
    "dr_events d1'' = dr_events d1a @ [Delivered ?h]"
    by (rule confirming_round [OF ok(3) _ _ len _ _ r2(2) assms(25)])
      (use s1(3-5) r1(1) assms(14) in \<open>auto simp: receipt_for_def\<close>)
  have r3: "d1b = d1''" using assms(26) s3(1) by simp
  have carried: "fst (tcp_recv reads []) = Some p"
    if "concat reads = tcp_send p \<and> [] \<notin> set reads \<and> length (tcp_send p) \<le> MAX_BUFFER" "p = packet_encode b" for reads p b
    using tcp_carries [of reads p] that by auto
  show ?thesis
  proof (rule exI [of _ ?h], intro conjI)
    show "\<forall>reads. concat reads = tcp_send msg \<and> [] \<notin> set reads \<and> length (tcp_send msg) \<le> MAX_BUFFER \<longrightarrow> fst (tcp_recv reads []) = Some msg"
      using carried r1(3) by blast
    show "\<forall>reads. concat reads = tcp_send ack \<and> [] \<notin> set reads \<and> length (tcp_send ack) \<le> MAX_BUFFER \<longrightarrow> fst (tcp_recv reads []) = Some ack"
      using carried r2(2) by blast
    show "print_event hx (Message dh pt) = OutLine (str ''message '' @ hx dh @ str '' '' @ pt)"
      by (simp add: utf8_lossy_valid [OF assms(17)])
    show "driver_step X E (Command (Some CmdShutdown)) d1b = Some (Returned d1b True)" by (simp add: driver_step_def)
  qed (use r1 r2 r3 s1(2) s2(2,3) s3(2) proved_send_loop [OF assms(18,19)] in \<open>simp_all\<close>)
qed

text \<open>Two drivers of the toy world over the demo nodes.\<close>

definition demo_driver :: "node \<Rightarrow> u16 \<Rightarrow> unit driver" where
  "demo_driver nd i = fst (driver_build nd [(i, None)] False ())"

lemma demo_driver_simps:
  "dr_node (demo_driver nd i) = register_interface i nd" "dr_interfaces (demo_driver nd i) = [(i, None)]"
  "dr_lxmf (demo_driver nd i) = None" "dr_events (demo_driver nd i) = []" "dr_sent (demo_driver nd i) = []"
  by (simp_all add: demo_driver_def driver_build_def register_iface_def Let_def)

lemma register_demo:
  "nd_locals (register_interface i nd) = nd_locals nd" "nd_seen_packets (register_interface i nd) = nd_seen_packets nd"
  "nd_paths (register_interface i nd) = nd_paths nd" "nd_clock (register_interface i nd) = nd_clock nd"
  "nd_identity (register_interface i nd) = nd_identity nd" "nd_outbound (register_interface i nd) = nd_outbound nd"
  by (simp_all add: register_interface_def)

theorem proved_send_end_to_end_witness:
  "\<exists>d1a d2a d1b msg ack h s'.
     driver_step toy_ext zeros (Command (Some (CmdSendWithReceipt demo_dest [104, 105]))) (demo_driver demo_sender 3) =
       Some (Running d1a (HashReply (Inr h))) \<and> dr_sent d1a = [(3, msg)] \<and>
     driver_step toy_ext zeros (Inbound (Some (Packet 1 msg))) (demo_driver demo_receiver 1) = Some (Running d2a NoReply) \<and>
     dr_events d2a = [Message demo_dest [104, 105]] \<and> dr_sent d2a = [(1, ack)] \<and>
     driver_step toy_ext zeros (Inbound (Some (Packet 3 ack))) d1a = Some (Running d1b NoReply) \<and>
     cli_loop id config_default [] (ModeSend demo_dest [104, 105] True)
       [CliEvent (Announce demo_dest 0) (Some (Inr h)) True, CliEvent (Delivered h) None True]
       \<lparr>cs_handle = Some [], cs_pending = None, cs_resource = None, cs_disk = (\<lambda>_. None), cs_out = []\<rparr> = (CliBreaks, s')"
proof -
  let ?d1 = "demo_driver demo_sender 3" and ?d2 = "demo_driver demo_receiver 1"
  let ?s = "\<lparr>cs_handle = Some [], cs_pending = None, cs_resource = None, cs_disk = (\<lambda>_. None), cs_out = []\<rparr>"
  have ok: "node_ok (dr_node ?d1)" "node_ok (dr_node ?d2)" "nd_outbound (dr_node ?d1) = []" "nd_outbound (dr_node ?d2) = []"
    using demo_sender_ok demo_receiver_ok
    by (simp_all add: demo_driver_simps register_demo demo_sender_simps demo_receiver_simps node_ok_interfaces)
  have p: "path_get demo_dest (nd_paths (dr_node ?d1)) = Some demo_route" "nd_clock (dr_node ?d1) < pe_expires_at demo_route"
    "pe_hops demo_route \<le> 1" "bt_get (pe_interface demo_route) (dr_interfaces ?d1) = Some None"
    by (simp_all add: demo_driver_simps register_demo demo_sender_simps bt_get_def)
  obtain d1a h where s1: "driver_step toy_ext zeros (Command (Some (CmdSendWithReceipt demo_dest [104, 105]))) ?d1 =
      Some (Running d1a (HashReply (Inr h)))" "nd_seen_packets (dr_node d1a) = []"
    by (rule receipt_round [OF zeros_ok ok(1,3) p, of toy_ext "[104, 105]"])
      (simp add: demo_driver_simps register_demo demo_sender_simps)
  let ?msg = "snd (last (dr_sent d1a))"
  obtain d2a where s2: "driver_step toy_ext zeros (Inbound (Some (Packet 1 ?msg))) ?d2 = Some (Running d2a NoReply)"
    by (rule packet_step)
  let ?ack = "snd (last (dr_sent d2a))"
  obtain d1b where s3: "driver_step toy_ext zeros (Inbound (Some (Packet 3 ?ack))) d1a = Some (Running d1b NoReply)"
    by (rule packet_step)
  have l: "find_local demo_dest (dr_node ?d2) =
      Some \<lparr>ld_name_hash = name_hash toy_ext [97] [], ld_dest_hash = demo_dest, ld_kind = Single True\<rparr>"
    using demo_receiver_find by (simp add: demo_driver_simps find_local_def register_demo)
  have l2: "ld_kind \<lparr>ld_name_hash = name_hash toy_ext [97] [], ld_dest_hash = demo_dest, ld_kind = Single True\<rparr> = Single True"
    and s0: "cs_pending ?s = None" "cs_handle ?s = Some []" by simp_all
  have q: "dr_lxmf ?d2 = None" "pe_public demo_route = id_public toy_ext (nd_identity (dr_node ?d2))"
    "bt_get 1 (dr_interfaces ?d2) = Some None" "utf8_valid [104, 105]" "unseen toy_ext b (dr_node ?d2)" "unseen toy_ext b (dr_node d1a)" for b
    using s1(2) by (simp_all add: demo_driver_simps register_demo demo_sender_simps demo_receiver_simps bt_get_def)
  have now: "(\<forall>pre mid post n w r' w'. (\<forall>i \<in> set pre. P i) \<and> (\<forall>i \<in> set mid. Q i) \<longrightarrow> R pre mid post n w r' w') \<Longrightarrow>
      R [] [] [] 0 True None True" for P Q and R :: "_ \<Rightarrow> _ \<Rightarrow> _ \<Rightarrow> u8 \<Rightarrow> _ \<Rightarrow> _ \<Rightarrow> _ \<Rightarrow> bool"
    by simp
  have "\<exists>s'. cli_loop id config_default [] (ModeSend demo_dest [104, 105] True)
         ([] @ CliEvent (Announce demo_dest 0) (Some (Inr h)) True # [] @ CliEvent (Delivered h) None True # []) ?s = (CliBreaks, s')"
    and "dr_sent d1a = dr_sent ?d1 @ [(pe_interface demo_route, ?msg)]"
    and "dr_events d2a = dr_events ?d2 @ [Message demo_dest [104, 105]]" and "dr_sent d2a = dr_sent ?d2 @ [(1, ?ack)]"
    by (rule exE [OF proved_send_end_to_end [where hx = id and c = config_default and content = "[]",
      OF toy_ok zeros_ok ok(1,3,2,4) q(1) demo_dest_length l l2 p(1-3) q(2) p(4) q(3,4) s0 s1(1) HOL.refl q(5) s2 HOL.refl q(6) s3]],
      elim conjE, drule now, blast)+
  then show ?thesis using s1(1) s2 s3
    by (intro exI [of _ d1a] exI [of _ d2a] exI [of _ d1b] exI [of _ ?msg] exI [of _ ?ack] exI [of _ h])
      (auto simp: demo_driver_simps demo_sender_simps simp del: cli_loop.simps)
qed

end
