(* ===== verification/Spec2Isabelle.thy ===== *)
theory Spec2Isabelle
  imports Wire_Properties Resource_Properties Lxmf_Properties Driver_Properties Host_Properties
    Ffi_Properties Ffi_Interop Tui_Screen Interface_Properties Transfer_Properties End_To_End
begin

text \<open>
  A verification development for the Rust implementation of the Reticulum network stack
  (src/crates). The program is a set of crates: reticulum-core (packets, announces, identities,
  tokens, link key exchange, resource wire forms), reticulum-node (the protocol node: path table,
  links, resource transfers, routing), reticulum-interface (HDLC, KISS and IFAC framing),
  reticulum-lxmf (messaging over a node), reticulum-embedded and reticulum-tokio (which feed a node
  with bytes from a serial line or sockets), and the applications over a running node: reticulum-cli (the
  daemon reticulumd), reticulum-tui (a terminal chat) and reticulum-ffi (a client for other languages). A
  node is driven from outside: received bytes go to
  \<open>handle_inbound\<close>, time to \<open>tick\<close>, both return events, and what is to be sent is taken from a queue
  with \<open>poll_outbound\<close>. In reticulum-tokio a driver task owns the node; an application posts commands to
  it through a handle, waits for replies and reads its events.

  Theories and the files they model, in the order of their imports:
  \<^item> Prelude, BTree_Map, Bytes: results, saturating arithmetic, slices, chunks; BTreeMap as a sorted
    association list with the interface \<open>ordered_map\<close>; big-endian integers, UTF-8 and the MessagePack
    formats the program writes.
  \<^item> Ext: the third-party crates (sha2, x25519-dalek, ed25519-dalek, hkdf, hmac, aes/cbc, bzip2, rmp)
    as one record of functions \<open>X\<close>, and their documented behaviour as predicates on it (\<open>sha_ok\<close>,
    \<open>x25519_ok\<close>, \<dots>, \<open>crypto_ok\<close>, \<open>rmp_ok\<close>, \<open>bzip2_ok\<close>). Toy_Ext is a concrete such record with the
    documented behaviour, at which the witnesses evaluate the properties.
  \<^item> Identities (hash.rs, destination.rs, identity.rs, proof.rs), Token (token.rs), Packets (packet.rs),
    Announces (announce.rs), Links (link.rs), Resource_Wire (resource.rs): reticulum-core.
  \<^item> Entropy (rng.rs, clock.rs, the trait EntropySource and its implementations for a board, lib.rs of
    reticulum-embedded, and for a system, lib.rs of reticulum-tokio), Path_Table (path_table.rs), Link_State
    (link_state.rs), Resource_State and Resource_Transfer (resource_state.rs and the exchange of its two
    ends), Node_State, Node_Send, Node_Inbound (lib.rs and node.rs): reticulum-node.
  \<^item> Framing (hdlc.rs, kiss.rs), Ifac (ifac.rs): reticulum-interface.
  \<^item> Lxmf_Message, Lxmf_Stamp, Lxmf_Router (message.rs, stamp.rs, router.rs, propagation.rs):
    reticulum-lxmf.
  \<^item> Streams (what uart.rs of reticulum-embedded and tcp.rs of reticulum-tokio do with the bytes they read,
    with asynchronous reads as the list of what they return; how interface.rs seals a packet), Uart (the loop of
    uart.rs around a node, write errors included).
  \<^item> Driver_Handle, Driver (driver.rs of reticulum-tokio): the task that owns a node, its handles and its interface
    tables; \<open>driver_step\<close> is one round of its \<open>select!\<close> loop.
  \<^item> Text_Forms: how the applications turn numbers, text, fractions and errors into strings. Datagrams
    (udp.rs and auto.rs of reticulum-tokio, packets over UDP and the discovery of peers), Serial_Line
    (serial.rs), Tcp_Server (the listener of tcp.rs). Interfaces: the traits of reticulum-interface and
    reticulum-tokio and the objects that implement them (TCP, UDP, serial, AutoInterface, and the wrapper of interface.rs around any of them), with
    \<open>iface_send\<close> and \<open>iface_recv\<close> as the dynamic dispatch, and the task of an interface (\<open>task_run\<close>).
  \<^item> Cli_Config (config.rs, lib.rs and status.rs of reticulum-cli), Cli_Main (its main.rs: arguments,
    start, and every mode as a machine over its inputs), Cli_Startup (what a start establishes).
  \<^item> Tui_App (app.rs of reticulum-tui, and keys, intents, events and the loop's rounds of runtime.rs),
    Tui_Properties (the invariant \<open>app_ok\<close>), Tui_Screen (config.rs, the start, the terminal's guard
    and main in runtime.rs, the texts and the constraints of the layout of ui.rs). Ffi_Client (lib.rs of
    reticulum-ffi, the client and its environment as steps), Ffi_Interop (its program ffi-interop).
  \<^item> The node as a system: Node_Frames, Node_Links, Node_Keeps (what each handler leaves alone),
    Node_System (\<open>node_exec\<close>, \<open>node_run\<close>, \<open>node_reach\<close>: the operations of the interface as a transition
    system), Node_Invariant and Node_Reach (the invariant \<open>node_ok\<close> in every reachable state), Node_Runs
    (duplicate detection and links along a run), Node_Minor, Node_Events, Node_Routes, Node_History (why
    an event or a route may appear, and which earlier operation a pending receipt or the proof expected
    for a sent resource goes back to), Node_Exchange and Node_Discovery (one packet sent by a node and received by another),
    Node_Transfer (rounds in which two nodes hand over what they have queued, \<open>talk\<close>, and a resource crossing by them).
  \<^item> The driver as a system: Driver_System (\<open>driver_run\<close>; every piece of the driver moves its node by
    \<open>node_run\<close> and reports every event of it once, errors included, adding only errors: \<open>reports\<close>),
    Driver_Tables (the invariant \<open>driver_ok\<close>), Driver_Exchange (draining the queue, an LXMF message over a new link, the conversion of the clock to an f64).
  \<^item> Wire_Properties, Interface_Properties, Resource_Properties, Lxmf_Properties, Node_Properties, Node_Delivery,
    Transfer_Properties, Driver_Properties, Host_Properties, Tui_Properties, Cli_Properties, Ffi_Properties: the properties,
    each right after a text that states it, with a witness where it has hypotheses. End_To_End puts the parts
    together: a proved message from one daemon to another over their drivers, nodes and a TCP stream.

  Conventions. A byte is an 8-bit word and a byte string a list of them; a fixed-size array is a list
  whose length is a hypothesis where it matters; u8 to u64 are words that wrap, usize a nat (64-bit
  targets; lengths stay below 2^64). \<open>Result\<close> is a sum with the error on the left, composed by
  \<open>rbind\<close>, so that every early return is a branch. An operation with \<open>&mut self\<close> returns the new
  state; the entropy source is a function \<open>E\<close> on a state \<open>r\<close>; an optional source is an option of its
  state. The clock is the field \<open>nd_clock\<close>, constant during one call. An f64 is its bit pattern, the
  f32 quotient in \<open>ResourceProgress\<close> the pair of its numbers, rounded where it is printed. A String is its
  UTF-8 bytes, a char its code point. The hex crate (\<open>hx\<close>, \<open>unhex\<close>) and the reader of configuration files
  (\<open>toml\<close>) are arguments; the environment variables are a function \<open>env\<close>, the disk a map from paths to
  entries, whose directories \<open>make_dirs\<close> creates by the spelling of a path, and what the operating
  system grants (a connection, a port, the list of network devices) the record \<open>host\<close> or a flag. Printing is a list of lines in the state.

  Loops. Loops over lists are structural recursion. \<open>choose_map\<close> (drawing random hashes until no two
  map hashes collide) need not end and is a \<open>partial_function\<close>: \<open>None\<close> is that it runs for ever; the
  properties take the payload's set-up as a hypothesis and the witness shows it returns. \<open>skip_value\<close>
  recurses on the 64 levels of nesting the code allows, \<open>adv_loop\<close> on the 11 fields. The exchange of a
  transfer ends in at most two rounds per part, which \<open>resource_transfer_delivers\<close> proves through the
  measure of the locale \<open>measured_loop\<close>, and
  two nodes keep the same bound (\<open>talk_completes\<close>). \<open>drain_outbound\<close> ends because every turn takes a packet from
  the queue and handing it over adds none. The wrapper's \<open>recv\<close> reads until a frame opens: \<open>ifac_loop\<close> has as
  fuel the number of packets its medium can still give (\<open>pending\<close>), which is enough by \<open>ifac_loop_fuel\<close>.

  Interfaces (locales) and where they are interpreted on the model: \<open>ordered_map\<close> (BTree_Map),
  \<open>sealed_channel\<close> (Token), \<open>entropy_source\<close> (Entropy, three times), \<open>route_store\<close> and \<open>ranked_route_store\<close>
  (Path_Table), \<open>framing\<close> and \<open>delimited_framing\<close> (Framing, for HDLC and KISS), \<open>measured_loop\<close>
  (Resource_Transfer), \<open>ttl_cache\<close> (Node_State, for the duplicate-detection maps), \<open>packet_line\<close> and
  \<open>sealed_line\<close> (Interfaces: a line that gives the packets it was sent, for every kind of interface, and the
  wrapper as a line again).

  The applications as machines: \<open>cli_loop\<close>, \<open>ui_loop\<close> and \<open>ffi_run\<close> take the list of what wakes the program
  (an event with the driver's reply to the call made in handling it, a key, a timer, a call of the exported
  client); a loop that is still waiting when the list ends says so (\<open>CliGoes\<close>, \<open>UiGoes\<close>). The driver on the
  other side is the environment: its replies and events are arguments, its commands are in the handle.

  Not modelled: the system calls behind sockets, serial ports, files and the terminal (what they return is
  an argument); how the screen's constraints are solved and its widgets painted (ratatui); the reader of
  configuration files (serde and toml) and the bindings uniffi generates from reticulum-ffi, with the program
  uniffi-bindgen that calls the generator; the clock and the generator of a board or a system themselves (their
  readings are arguments); declarations of modules; derived Debug formatting, but for the errors that are shown.
  Of the driver, the capacities of its channels are left out: a full channel only makes the sender wait. Of
  the programs, the lengths of their timers and sleeps and the texts of errors that come from the system;
  at its end a program waits for the driver's task, whose result is that of \<open>driver_step\<close>.
\<close>

end
